(* ===== verification/Prelude.thy ===== *)
theory Prelude
  imports Main "HOL-Library.Word" "HOL-Library.Multiset"
begin

text \<open>
  Shared vocabulary of the development.

  The modelled crate is compiled for Apple silicon, where \<^verbatim>\<open>usize\<close> and \<^verbatim>\<open>u64\<close> are both 64 bits
  wide: both are the type \<open>64 word\<close>, and a conversion between the two (\<^verbatim>\<open>u64::try_from(..)\<close> with
  its unreachable fallback) is the identity. Rust's saturating and checked operations are
  defined here once for every word length, together with the equations (collected in
  \<open>rust_nat\<close>) that read each of them as an operation on natural numbers through \<open>unat\<close>.
  A fallible computation has the type \<open>'e + 'a\<close> with the error on the left; \<open>try_fold\<close> is the
  loop that leaves at the first error, \<open>sort_by\<close> the comparator sort of the standard library.
\<close>

section \<open>Machine integers\<close>

type_synonym u32 = "32 word"
type_synonym u64 = "64 word"
type_synonym usize = "64 word"
type_synonym u128 = "128 word"

named_theorems rust_nat "Rust integer operations read through unat"

definition max_value :: "'a::len word" where
  "max_value = - 1"

definition saturating_add :: "'a::len word \<Rightarrow> 'a word \<Rightarrow> 'a word" where
  "saturating_add a b = (if unat a + unat b < 2 ^ LENGTH('a) then a + b else max_value)"

definition saturating_sub :: "'a::len word \<Rightarrow> 'a word \<Rightarrow> 'a word" where
  "saturating_sub a b = (if b \<le> a then a - b else 0)"

definition saturating_mul :: "'a::len word \<Rightarrow> 'a word \<Rightarrow> 'a word" where
  "saturating_mul a b = (if unat a * unat b < 2 ^ LENGTH('a) then a * b else max_value)"

definition checked_add :: "'a::len word \<Rightarrow> 'a word \<Rightarrow> 'a word option" where
  "checked_add a b = (if unat a + unat b < 2 ^ LENGTH('a) then Some (a + b) else None)"

definition checked_sub :: "'a::len word \<Rightarrow> 'a word \<Rightarrow> 'a word option" where
  "checked_sub a b = (if b \<le> a then Some (a - b) else None)"

definition checked_mul :: "'a::len word \<Rightarrow> 'a word \<Rightarrow> 'a word option" where
  "checked_mul a b = (if unat a * unat b < 2 ^ LENGTH('a) then Some (a * b) else None)"

lemma unat_max_value [rust_nat]: "unat (max_value :: 'a::len word) = 2 ^ LENGTH('a) - 1"
  by (simp add: max_value_def unsigned_minus_1_eq_mask mask_eq_exp_minus_1)

lemma unat_add_exact: "unat a + unat b < 2 ^ LENGTH('a) \<Longrightarrow> unat (a + b :: 'a::len word) = unat a + unat b"
  by (simp add: unat_word_ariths)

lemma unat_mult_exact: "unat a * unat b < 2 ^ LENGTH('a) \<Longrightarrow> unat (a * b :: 'a::len word) = unat a * unat b"
  by (simp add: unat_word_ariths)

lemma unat_sub_exact: "b \<le> a \<Longrightarrow> unat (a - b :: 'a::len word) = unat a - unat b"
  by (rule unat_sub)

lemma unat_saturating_add [rust_nat]:
  "unat (saturating_add a b :: 'a::len word) = min (unat a + unat b) (2 ^ LENGTH('a) - 1)"
  by (auto simp: saturating_add_def unat_add_exact unat_max_value)

lemma unat_saturating_sub [rust_nat]:
  "unat (saturating_sub a b :: 'a::len word) = unat a - unat b"
  by (auto simp: saturating_sub_def unat_sub_exact word_le_nat_alt)

lemma unat_saturating_mul [rust_nat]:
  "unat (saturating_mul a b :: 'a::len word) = min (unat a * unat b) (2 ^ LENGTH('a) - 1)"
  by (auto simp: saturating_mul_def unat_mult_exact unat_max_value)

lemma checked_add_Some_iff [rust_nat]:
  "checked_add a b = Some (c :: 'a::len word) \<longleftrightarrow> unat c = unat a + unat b"
proof (cases "unat a + unat b < 2 ^ LENGTH('a)")
  case False
  then have "unat c \<noteq> unat a + unat b" by (metis unsigned_less)
  with False show ?thesis by (simp add: checked_add_def)
qed (auto simp: checked_add_def unat_add_exact word_unat_eq_iff)

lemma checked_add_None_iff [rust_nat]:
  "checked_add a b = None \<longleftrightarrow> 2 ^ LENGTH('a) \<le> unat a + unat (b :: 'a::len word)"
  by (auto simp: checked_add_def)

lemma checked_sub_Some_iff [rust_nat]:
  "checked_sub a b = Some (c :: 'a::len word) \<longleftrightarrow> unat b \<le> unat a \<and> unat c = unat a - unat b"
  by (auto simp: checked_sub_def unat_sub_exact word_unat_eq_iff word_le_nat_alt)

lemma checked_sub_None_iff [rust_nat]:
  "checked_sub a b = None \<longleftrightarrow> unat a < unat (b :: 'a::len word)"
  by (auto simp: checked_sub_def word_le_nat_alt)

lemma checked_mul_Some_iff [rust_nat]:
  "checked_mul a b = Some (c :: 'a::len word) \<longleftrightarrow> unat c = unat a * unat b"
proof (cases "unat a * unat b < 2 ^ LENGTH('a)")
  case False
  then have "unat c \<noteq> unat a * unat b" by (metis unsigned_less)
  with False show ?thesis by (simp add: checked_mul_def)
qed (auto simp: checked_mul_def unat_mult_exact word_unat_eq_iff)

lemma checked_mul_None_iff [rust_nat]:
  "checked_mul a b = None \<longleftrightarrow> 2 ^ LENGTH('a) \<le> unat a * unat (b :: 'a::len word)"
  by (auto simp: checked_mul_def)

lemma unat_max [rust_nat]: "unat (max a b :: 'a::len word) = max (unat a) (unat b)"
  by (simp add: max_def word_le_nat_alt)

lemma unat_min [rust_nat]: "unat (min a b :: 'a::len word) = min (unat a) (unat b)"
  by (simp add: min_def word_le_nat_alt)

lemmas [rust_nat] = word_le_nat_alt word_less_nat_alt word_unat_eq_iff unat_div

lemma u64_bound: "unat (x :: u64) < 18446744073709551616"
  using unsigned_less [of x, where ?'a = nat] by simp

lemma u64_bound_le: "unat (x :: u64) \<le> 18446744073709551615"
  using u64_bound [of x] by simp

lemma unat_ucast_u128 [rust_nat]: "unat (ucast (x :: u64) :: u128) = unat x"
  using u64_bound [of x] by (simp add: unsigned_ucast_eq take_bit_nat_eq_self)

text \<open>Evaluation stays within the word: overflow is read off the wrapped result, not off a natural number.\<close>

lemma add_no_overflow_iff:
  "unat a + unat b < 2 ^ LENGTH('a) \<longleftrightarrow> a \<le> a + (b :: 'a::len word)"
  by (rule no_olen_add_nat [symmetric])

lemma mult_no_overflow_iff:
  "unat a * unat b < 2 ^ LENGTH('a) \<longleftrightarrow> b = 0 \<or> a \<le> max_value div (b :: 'a::len word)"
proof (cases "b = 0")
  case False
  then have b: "0 < unat b" by (simp add: unat_gt_0)
  have "unat a * unat b < 2 ^ LENGTH('a) \<longleftrightarrow> unat a * unat b \<le> 2 ^ LENGTH('a) - 1"
    by (metis Suc_diff_1 less_Suc_eq_le zero_less_power zero_less_numeral)
  with b False show ?thesis
    by (simp add: word_le_nat_alt unat_div unat_max_value less_eq_div_iff_mult_less_eq)
qed simp

lemma saturating_add_code [code]:
  "saturating_add a b = (let c = a + b in if a \<le> c then c else max_value)"
  by (simp add: saturating_add_def add_no_overflow_iff Let_def)

lemma checked_add_code [code]:
  "checked_add a b = (let c = a + b in if a \<le> c then Some c else None)"
  by (simp add: checked_add_def add_no_overflow_iff Let_def)

lemma saturating_mul_code [code]:
  "saturating_mul a b = (if b = 0 \<or> a \<le> max_value div b then a * b else max_value)"
  by (simp add: saturating_mul_def mult_no_overflow_iff)

lemma checked_mul_code [code]:
  "checked_mul a b = (if b = 0 \<or> a \<le> max_value div b then Some (a * b) else None)"
  by (simp add: checked_mul_def mult_no_overflow_iff)

text \<open>\<^verbatim>\<open>div_ceil\<close> and the checked narrowing of a \<^verbatim>\<open>u128\<close> to 64 bits.\<close>

definition div_ceil :: "'a::len word \<Rightarrow> 'a word \<Rightarrow> 'a word" where
  "div_ceil a b = (if 0 < a mod b then a div b + 1 else a div b)"

definition u64_try_from_u128 :: "u128 \<Rightarrow> u64 option" where
  "u64_try_from_u128 x = (if unat x < 2 ^ 64 then Some (ucast x) else None)"

definition ceil_div :: "nat \<Rightarrow> nat \<Rightarrow> nat" where
  "ceil_div a b = (a + b - 1) div b"

lemma ceil_div_eq:
  assumes "0 < (b :: nat)"
  shows "ceil_div a b = (if 0 < a mod b then a div b + 1 else a div b)"
proof -
  define q r where "q = a div b" and "r = a mod b"
  have a: "a = r + q * b" and r: "r < b" using assms by (simp_all add: q_def r_def)
  show ?thesis
  proof (cases "r = 0")
    case True
    then have "a + b - 1 = (b - 1) + q * b" using a assms by simp
    then have "(a + b - 1) div b = (b - 1) div b + q" using assms by (metis div_mult_self1 less_numeral_extra(3) add.commute)
    with True assms show ?thesis by (simp add: q_def r_def ceil_div_def)
  next
    case False
    then have "a + b - 1 = (r - 1) + (q + 1) * b" using a assms by simp
    then have "(a + b - 1) div b = (r - 1) div b + (q + 1)" using assms by (metis div_mult_self1 less_numeral_extra(3) add.commute)
    with False r show ?thesis by (simp add: q_def r_def ceil_div_def)
  qed
qed

text \<open>The least multiple: \<open>ceil_div a b\<close> is the smallest \<open>c\<close> with \<open>a \<le> c * b\<close>.\<close>

lemma ceil_div_le_iff:
  assumes "0 < b"
  shows "ceil_div a b \<le> c \<longleftrightarrow> a \<le> c * b"
proof -
  have "ceil_div a b \<le> c \<longleftrightarrow> ceil_div a b < Suc c" by auto
  also have "\<dots> \<longleftrightarrow> a + b - 1 < Suc c * b"
    unfolding ceil_div_def using assms by (rule div_less_iff_less_mult)
  also have "\<dots> \<longleftrightarrow> a \<le> c * b" using assms by auto
  finally show ?thesis .
qed

lemma ceil_div_mult_ge: "0 < b \<Longrightarrow> a \<le> ceil_div a b * b"
  using ceil_div_le_iff by blast

lemma unat_div_ceil:
  assumes "unat b \<noteq> 0"
  shows "unat (div_ceil a b :: 'a::len word) = ceil_div (unat a) (unat b)"
proof -
  have "unat a div unat b + 1 < 2 ^ LENGTH('a)" if "0 < unat a mod unat b"
  proof -
    from that have "unat b \<noteq> 1" "0 < unat a" by (auto intro: gr0I)
    with assms have "unat a div unat b < unat a" by (intro div_less_dividend) auto
    with unsigned_less [of a, where ?'a = nat] show ?thesis by (simp add: Suc_le_eq le_less_trans less_trans_Suc)
  qed
  then show ?thesis using assms ceil_div_eq [of "unat b" "unat a"]
    by (auto simp: div_ceil_def word_less_nat_alt unat_mod unat_div unat_add_exact)
qed

lemma u64_try_from_u128_Some_iff [rust_nat]:
  "u64_try_from_u128 x = Some y \<longleftrightarrow> unat x = unat y"
  using u64_bound [of y]
  by (auto simp: u64_try_from_u128_def unsigned_ucast_eq take_bit_nat_eq_self word_unat_eq_iff)

lemma u64_try_from_u128_code [code]:
  "u64_try_from_u128 x = (if x \<le> 18446744073709551615 then Some (ucast x) else None)"
  by (auto simp: u64_try_from_u128_def word_le_nat_alt)

section \<open>Fallible loops\<close>

text \<open>The loop that runs a fallible step over a list and leaves at the first error.\<close>

fun try_fold :: "('s \<Rightarrow> 'x \<Rightarrow> 'e + 's) \<Rightarrow> 's \<Rightarrow> 'x list \<Rightarrow> 'e + 's" where
  "try_fold f s [] = Inr s"
| "try_fold f s (x # xs) = (case f s x of Inl e \<Rightarrow> Inl e | Inr s' \<Rightarrow> try_fold f s' xs)"

definition ok_or :: "'a option \<Rightarrow> 'e \<Rightarrow> 'e + 'a" where
  "ok_or v e = (case v of None \<Rightarrow> Inl e | Some x \<Rightarrow> Inr x)"

definition result_bind :: "'e + 'a \<Rightarrow> ('a \<Rightarrow> 'e + 'b) \<Rightarrow> 'e + 'b" where
  "result_bind r f = (case r of Inl e \<Rightarrow> Inl e | Inr x \<Rightarrow> f x)"

lemma ok_or_simps [simp]: "ok_or None e = Inl e" "ok_or (Some x) e = Inr x"
  by (simp_all add: ok_or_def)

lemma ok_or_eq_Inr_iff [simp]: "ok_or v e = Inr x \<longleftrightarrow> v = Some x"
  by (cases v) auto

lemma ok_or_eq_Inl_iff [simp]: "ok_or v e = Inl e' \<longleftrightarrow> v = None \<and> e' = e"
  by (cases v) auto

lemma result_bind_simps [simp]: "result_bind (Inl e) f = Inl e" "result_bind (Inr x) f = f x"
  by (simp_all add: result_bind_def)

lemma result_bind_eq_Inr_iff [simp]: "result_bind r f = Inr y \<longleftrightarrow> (\<exists>x. r = Inr x \<and> f x = Inr y)"
  by (cases r) auto

lemma try_fold_append:
  "try_fold f s (xs @ ys) = (case try_fold f s xs of Inl e \<Rightarrow> Inl e | Inr s' \<Rightarrow> try_fold f s' ys)"
  by (induction xs arbitrary: s) (auto split: sum.splits)

text \<open>An invariant of the loop body is an invariant of the loop.\<close>

lemma try_fold_invariant:
  assumes "\<And>s x s'. \<lbrakk>x \<in> set xs; P s; f s x = Inr s'\<rbrakk> \<Longrightarrow> P s'"
    and "P s" and "try_fold f s xs = Inr t"
  shows "P t"
  using assms
proof (induction xs arbitrary: s)
  case (Cons x xs)
  from Cons.prems(3) obtain s' where s': "f s x = Inr s'" "try_fold f s' xs = Inr t"
    by (auto split: sum.splits)
  have "P s'" using Cons.prems(1)[of x s s'] Cons.prems(2) s'(1) by simp
  with s'(2) Cons.prems(1) show ?case by (intro Cons.IH) auto
qed simp

text \<open>A loop whose body cannot fail under its invariant returns, with the invariant.\<close>

lemma try_fold_total:
  assumes "\<And>s x. \<lbrakk>x \<in> set xs; P s\<rbrakk> \<Longrightarrow> \<exists>s'. f s x = Inr s' \<and> P s'" and "P s"
  shows "\<exists>t. try_fold f s xs = Inr t \<and> P t"
  using assms
proof (induction xs arbitrary: s)
  case (Cons x xs)
  then obtain s' where "f s x = Inr s'" "P s'" by (meson list.set_intros(1))
  with Cons show ?case by simp
qed simp

section \<open>Sorting with a comparator\<close>

text \<open>
  \<^verbatim>\<open>slice::sort_by\<close>, \<^verbatim>\<open>sort_unstable_by\<close> and their key variants. The comparators of the
  modelled code end in a comparison of distinct layer indexes, so a sorted permutation is unique
  and the stable and the unstable sort agree (\<open>sort_by_unique\<close>).
\<close>

datatype ordering = Less | Equal | Greater

definition cmp_of :: "'a::linorder \<Rightarrow> 'a \<Rightarrow> ordering" where
  "cmp_of a b = (if a < b then Less else if a = b then Equal else Greater)"

definition then_with :: "ordering \<Rightarrow> ordering \<Rightarrow> ordering" where
  "then_with o1 o2 = (if o1 = Equal then o2 else o1)"

fun insert_by :: "('a \<Rightarrow> 'a \<Rightarrow> ordering) \<Rightarrow> 'a \<Rightarrow> 'a list \<Rightarrow> 'a list" where
  "insert_by cmp x [] = [x]"
| "insert_by cmp x (y # ys) = (if cmp x y = Greater then y # insert_by cmp x ys else x # y # ys)"

fun sort_by :: "('a \<Rightarrow> 'a \<Rightarrow> ordering) \<Rightarrow> 'a list \<Rightarrow> 'a list" where
  "sort_by cmp [] = []"
| "sort_by cmp (x # xs) = insert_by cmp x (sort_by cmp xs)"

lemma mset_insert_by [simp]: "mset (insert_by cmp x ys) = add_mset x (mset ys)"
  by (induction ys) auto

lemma mset_sort_by [simp]: "mset (sort_by cmp xs) = mset xs"
  by (induction xs) auto

lemma set_sort_by [simp]: "set (sort_by cmp xs) = set xs"
  by (metis mset_sort_by set_mset_mset)

lemma length_sort_by [simp]: "length (sort_by cmp xs) = length xs"
  by (metis mset_sort_by size_mset)

lemma set_insert_by [simp]: "set (insert_by cmp x ys) = insert x (set ys)"
  by (metis mset_insert_by set_mset_add_mset_insert set_mset_mset)

locale total_comparator =
  fixes cmp :: "'a \<Rightarrow> 'a \<Rightarrow> ordering" and A :: "'a set"
  assumes total: "\<lbrakk>a \<in> A; b \<in> A; cmp a b = Greater\<rbrakk> \<Longrightarrow> cmp b a \<noteq> Greater"
    and trans: "\<lbrakk>a \<in> A; b \<in> A; c \<in> A; cmp a b \<noteq> Greater; cmp b c \<noteq> Greater\<rbrakk> \<Longrightarrow> cmp a c \<noteq> Greater"
begin

lemma sorted_insert_by:
  "\<lbrakk>x \<in> A; set ys \<subseteq> A; sorted_wrt (\<lambda>a b. cmp a b \<noteq> Greater) ys\<rbrakk>
   \<Longrightarrow> sorted_wrt (\<lambda>a b. cmp a b \<noteq> Greater) (insert_by cmp x ys)"
  by (induction ys) (auto dest: total trans)

lemma sorted_sort_by:
  "set xs \<subseteq> A \<Longrightarrow> sorted_wrt (\<lambda>a b. cmp a b \<noteq> Greater) (sort_by cmp xs)"
  by (induction xs) (simp_all add: sorted_insert_by)

end

locale strict_comparator = total_comparator +
  assumes antisym: "\<lbrakk>a \<in> A; b \<in> A; cmp a b \<noteq> Greater; cmp b a \<noteq> Greater\<rbrakk> \<Longrightarrow> a = b"
begin

lemma sorted_permutation_unique:
  "\<lbrakk>mset xs = mset ys; set xs \<subseteq> A; sorted_wrt (\<lambda>a b. cmp a b \<noteq> Greater) xs;
    sorted_wrt (\<lambda>a b. cmp a b \<noteq> Greater) ys\<rbrakk> \<Longrightarrow> xs = ys"
proof (induction xs arbitrary: ys)
  case (Cons x xs)
  from Cons.prems(1) obtain y ys' where ys: "ys = y # ys'" by (cases ys) auto
  have set_eq: "insert x (set xs) = insert y (set ys')"
    using mset_eq_setD [OF Cons.prems(1)] ys by simp
  have "x = y"
  proof (rule ccontr)
    assume "x \<noteq> y"
    with set_eq have "y \<in> set xs" "x \<in> set ys'" by auto
    with Cons.prems ys have "cmp x y \<noteq> Greater" "cmp y x \<noteq> Greater" "x \<in> A" "y \<in> A" by auto
    with antisym \<open>x \<noteq> y\<close> show False by blast
  qed
  with Cons ys show ?case by auto
qed simp

lemma sort_by_unique:
  assumes "set xs \<subseteq> A" "mset ys = mset xs" "sorted_wrt (\<lambda>a b. cmp a b \<noteq> Greater) ys"
  shows "ys = sort_by cmp xs"
proof (rule sorted_permutation_unique)
  show "set ys \<subseteq> A" using assms(1) mset_eq_setD [OF assms(2)] by simp
qed (use assms sorted_sort_by in auto)

end

section \<open>Numbers as text\<close>

text \<open>The decimal digits of a number, as \<^verbatim>\<open>format!("{}", n)\<close> prints them.\<close>

fun decimal :: "nat \<Rightarrow> string" where
  "decimal n = (if n < 10 then [char_of (48 + n)] else decimal (n div 10) @ [char_of (48 + n mod 10)])"

declare decimal.simps [simp del]

end
