(* ===== verification/Vocabulary.thy ===== *)
theory Vocabulary
  imports Prelude
begin

text \<open>
  The shared decision vocabulary of the memory policy: the lifecycle phase
  (\<^verbatim>\<open>phase.rs\<close>), the execution profile of a forward (\<^verbatim>\<open>budget/adaptive_growth.rs\<close>), the
  boundary every rejection names and the request admission result (\<^verbatim>\<open>vocabulary.rs\<close>). Phase and
  profile derive \<^verbatim>\<open>Ord\<close> in the source because they are part of a map key; the instances below
  give the same order.
\<close>

datatype MemoryPhase = Prefill | GenerationPreparation | Decode | Idle

datatype AdaptiveRamGrowthExecutionProfile = Resident | Paged

datatype MemoryBoundary =
    StableActiveCeiling
  | TransientPeakAllowance
  | AllocationProjection
  | CompleteResidency
  | RetainedExpertPayload
  | LiveCeilingMinimum

datatype MemoryAdmissionDecision =
    Admit
  | Reclaim u64
  | DemoteCompleteResidency bool
  | Reject MemoryBoundary u64

fun phase_rank :: "MemoryPhase \<Rightarrow> nat" where
  "phase_rank Prefill = 0"
| "phase_rank GenerationPreparation = 1"
| "phase_rank Decode = 2"
| "phase_rank Idle = 3"

lemma phase_rank_inject [simp]: "phase_rank p = phase_rank q \<longleftrightarrow> p = q"
  by (cases p; cases q) auto

instantiation MemoryPhase :: linorder
begin

definition less_eq_MemoryPhase :: "MemoryPhase \<Rightarrow> MemoryPhase \<Rightarrow> bool" where
  "less_eq_MemoryPhase p q = (phase_rank p \<le> phase_rank q)"

definition less_MemoryPhase :: "MemoryPhase \<Rightarrow> MemoryPhase \<Rightarrow> bool" where
  "less_MemoryPhase p q = (phase_rank p < phase_rank q)"

instance
  by standard (auto simp: less_eq_MemoryPhase_def less_MemoryPhase_def)

end

instantiation AdaptiveRamGrowthExecutionProfile :: linorder
begin

definition less_eq_AdaptiveRamGrowthExecutionProfile ::
  "AdaptiveRamGrowthExecutionProfile \<Rightarrow> AdaptiveRamGrowthExecutionProfile \<Rightarrow> bool" where
  "less_eq_AdaptiveRamGrowthExecutionProfile p q = (p = Resident \<or> q = Paged)"

definition less_AdaptiveRamGrowthExecutionProfile ::
  "AdaptiveRamGrowthExecutionProfile \<Rightarrow> AdaptiveRamGrowthExecutionProfile \<Rightarrow> bool" where
  "less_AdaptiveRamGrowthExecutionProfile p q = (p = Resident \<and> q = Paged)"

instance
proof
  fix x y :: AdaptiveRamGrowthExecutionProfile
  show "x < y \<longleftrightarrow> x \<le> y \<and> \<not> y \<le> x" "x \<le> x" "x \<le> y \<Longrightarrow> y \<le> x \<Longrightarrow> x = y" "x \<le> y \<or> y \<le> x"
    by (cases x; cases y; simp add: less_eq_AdaptiveRamGrowthExecutionProfile_def
        less_AdaptiveRamGrowthExecutionProfile_def)+
qed (auto simp: less_eq_AdaptiveRamGrowthExecutionProfile_def)

end

end
