(* ===== verification/Workspace_Reserve.thy ===== *)
theory Workspace_Reserve
  imports Vocabulary
begin

text \<open>
  \<^verbatim>\<open>budget/transient_workspace_reserve.rs\<close>: a transient workspace reserve, the evidence it came
  from and the number of tokens it is valid for. Scaling is only ever downwards; the lemmas show
  that a scaled reserve is the exact rounded-up proportion and never exceeds the observation.
\<close>

section \<open>Data\<close>

datatype TransientWorkspaceReserveSource =
    ExactContext
  | PhaseScaled
  | BeyondObservedTokenSpan
  | GlobalMaximum
  | NoLearnedReserve

record TransientWorkspaceObservation =
  obs_high_water_bytes :: usize
  obs_forward_token_count :: usize

record TransientWorkspaceReserve =
  reserve_bytes :: usize
  reserve_source :: TransientWorkspaceReserveSource
  reserve_forward_token_count :: usize

section \<open>Operations\<close>

definition scale_transient_to_token_count :: "usize \<Rightarrow> usize \<Rightarrow> usize \<Rightarrow> usize option" where
  "scale_transient_to_token_count observed_high_water_bytes observed_forward_token_count
     target_forward_token_count =
     (if observed_forward_token_count = 0 \<or> target_forward_token_count = 0
         \<or> observed_forward_token_count < target_forward_token_count
      then None
      else u64_try_from_u128
             (div_ceil ((ucast observed_high_water_bytes :: u128) * ucast target_forward_token_count)
                (ucast observed_forward_token_count)))"

definition exact_context :: "TransientWorkspaceObservation \<Rightarrow> TransientWorkspaceReserve" where
  "exact_context observation =
     \<lparr>reserve_bytes = obs_high_water_bytes observation,
      reserve_source = ExactContext,
      reserve_forward_token_count = obs_forward_token_count observation\<rparr>"

definition scaled_down_to ::
  "TransientWorkspaceObservation \<Rightarrow> usize \<Rightarrow> TransientWorkspaceReserve option" where
  "scaled_down_to observation target_token_count =
     (case scale_transient_to_token_count (obs_high_water_bytes observation)
             (obs_forward_token_count observation) target_token_count of
        None \<Rightarrow> None
      | Some scaled_reserve_bytes \<Rightarrow>
          Some \<lparr>reserve_bytes = scaled_reserve_bytes,
                reserve_source = PhaseScaled,
                reserve_forward_token_count = target_token_count\<rparr>)"

definition analytic_floor :: "usize \<Rightarrow> usize \<Rightarrow> TransientWorkspaceReserve" where
  "analytic_floor floor_bytes forward_token_count =
     \<lparr>reserve_bytes = floor_bytes,
      reserve_source = BeyondObservedTokenSpan,
      reserve_forward_token_count = forward_token_count\<rparr>"

definition without_learned_reserve :: TransientWorkspaceReserve where
  "without_learned_reserve =
     \<lparr>reserve_bytes = 0, reserve_source = NoLearnedReserve, reserve_forward_token_count = 0\<rparr>"

definition global_maximum :: "usize \<Rightarrow> usize \<Rightarrow> TransientWorkspaceReserve" where
  "global_maximum high_water_bytes forward_token_count =
     \<lparr>reserve_bytes = high_water_bytes,
      reserve_source = GlobalMaximum,
      reserve_forward_token_count = forward_token_count\<rparr>"

definition max_with_smaller_unscaled_observation ::
  "TransientWorkspaceReserve \<Rightarrow> TransientWorkspaceObservation \<Rightarrow> TransientWorkspaceReserve" where
  "max_with_smaller_unscaled_observation self observation =
     (if 0 < obs_forward_token_count observation
         \<and> obs_forward_token_count observation < reserve_forward_token_count self
         \<and> reserve_bytes self < obs_high_water_bytes observation
      then self\<lparr>reserve_bytes := obs_high_water_bytes observation\<rparr>
      else self)"

section \<open>Scaling is exact and never upwards\<close>

lemma unat_u128_product:
  "unat ((ucast (a :: u64) :: u128) * ucast (b :: u64)) = unat a * unat b"
proof -
  have "unat a * unat b < 2 ^ 64 * 2 ^ 64"
    using u64_bound [of a] u64_bound [of b] by (intro mult_strict_mono) auto
  then show ?thesis by (subst unat_mult_exact) (simp_all add: rust_nat)
qed

lemma ceil_proportion_le: "\<lbrakk>0 < n; t \<le> n\<rbrakk> \<Longrightarrow> ceil_div (h * t) n \<le> h"
  by (simp add: ceil_div_le_iff)

lemma scale_transient_eq:
  assumes "n \<noteq> 0" "t \<noteq> 0" "t \<le> n"
  shows "\<exists>r. scale_transient_to_token_count h n t = Some r
           \<and> unat r = ceil_div (unat h * unat t) (unat n)"
proof -
  let ?q = "ceil_div (unat h * unat t) (unat n)"
  have n: "unat n \<noteq> 0" using assms(1) by (simp add: unat_0_iff)
  have "?q \<le> unat h" using n assms(3) by (intro ceil_proportion_le) (simp_all add: rust_nat)
  then have "?q < 2 ^ 64" using u64_bound [of h] by simp
  moreover have "unat (div_ceil ((ucast h :: u128) * ucast t) (ucast n)) = ?q"
    using n by (simp add: unat_div_ceil unat_u128_product unat_ucast_u128)
  ultimately show ?thesis
    using assms by (auto simp: scale_transient_to_token_count_def u64_try_from_u128_def
        unsigned_ucast_eq take_bit_nat_eq_self word_less_nat_alt word_le_nat_alt)
qed

lemma scale_transient_Some_iff:
  "scale_transient_to_token_count h n t = Some r \<longleftrightarrow>
     n \<noteq> 0 \<and> t \<noteq> 0 \<and> t \<le> n \<and> unat r = ceil_div (unat h * unat t) (unat n)"
proof (cases "n \<noteq> 0 \<and> t \<noteq> 0 \<and> t \<le> n")
  case True
  then obtain r' where "scale_transient_to_token_count h n t = Some r'"
      "unat r' = ceil_div (unat h * unat t) (unat n)"
    using scale_transient_eq by blast
  with True show ?thesis by (auto simp: word_unat_eq_iff)
qed (auto simp: scale_transient_to_token_count_def not_le)

lemma scale_transient_None_iff:
  "scale_transient_to_token_count h n t = None \<longleftrightarrow> n = 0 \<or> t = 0 \<or> n < t"
  using scale_transient_eq [of n t h] by (auto simp: scale_transient_to_token_count_def not_less split: if_splits)

lemma scaled_down_to_Some_iff:
  "scaled_down_to observation t = Some reserve \<longleftrightarrow>
     0 < unat (obs_forward_token_count observation) \<and> 0 < unat t
     \<and> unat t \<le> unat (obs_forward_token_count observation)
     \<and> unat (reserve_bytes reserve) = ceil_div (unat (obs_high_water_bytes observation) * unat t)
                                        (unat (obs_forward_token_count observation))
     \<and> reserve_source reserve = PhaseScaled \<and> reserve_forward_token_count reserve = t"
  by (cases reserve)
     (auto simp: scaled_down_to_def scale_transient_Some_iff scale_transient_None_iff rust_nat
       split: option.splits)

lemma scaled_down_to_None_iff:
  "scaled_down_to observation t = None \<longleftrightarrow>
     obs_forward_token_count observation = 0 \<or> t = 0 \<or> obs_forward_token_count observation < t"
  unfolding scale_transient_None_iff [of "obs_high_water_bytes observation", symmetric]
  by (simp add: scaled_down_to_def split: option.split)

text \<open>The reserve a smaller forward gets never exceeds what the larger one was measured at.\<close>

lemma scaled_down_to_le:
  "scaled_down_to observation t = Some reserve \<Longrightarrow> reserve_bytes reserve \<le> obs_high_water_bytes observation"
  by (simp add: scaled_down_to_Some_iff word_le_nat_alt ceil_proportion_le)

end
