(* ===== verification/Reclamation.thy ===== *)
theory Reclamation
  imports Vocabulary
begin

text \<open>
  \<^verbatim>\<open>reclamation.rs\<close> and \<^verbatim>\<open>recovery.rs\<close>: how many retained expert bytes must yield for an operation
  to fit, and whether a forward that failed to allocate may be retried. The lemmas state each
  amount as an exact minimum over natural numbers: reclaiming it suffices, reclaiming less does not.
\<close>

section \<open>Data\<close>

datatype ExpertMemoryAdmissionError =
    RetainedExpertPayloadExceedsActiveMemory
  | CompleteResidencyProjectionOverflow

record ExpertReclamationPlan =
  required_reclamation_bytes :: usize
  reclamation_target_bytes :: usize
  unresolved_shortfall_bytes :: usize

record ForwardRecoveryRequirements =
  fr_stable_active_memory_bytes :: usize
  fr_active_memory_bytes_at_failure :: usize
  fr_attempted_allocation_bytes :: usize
  fr_observed_transient_high_water_bytes :: usize
  fr_retained_expert_payload_bytes_before_reclamation :: usize
  fr_retained_expert_payload_bytes_after_reclamation :: usize
  fr_active_memory_ceiling_bytes :: usize
  fr_has_already_retried_after_reclamation :: bool
  fr_execution_profile :: AdaptiveRamGrowthExecutionProfile

datatype ForwardRecoveryDecision =
    RecoveryRetry usize usize
  | RecoveryReject MemoryBoundary usize usize

section \<open>Operations of reclamation.rs\<close>

definition projected_active_memory_after_complete_expert_replacement ::
  "u64 \<Rightarrow> u64 \<Rightarrow> u64 \<Rightarrow> ExpertMemoryAdmissionError + u64" where
  "projected_active_memory_after_complete_expert_replacement current_active_memory_bytes
     retained_paged_expert_payload_bytes complete_expert_payload_bytes =
     result_bind
       (ok_or (checked_sub current_active_memory_bytes retained_paged_expert_payload_bytes)
          RetainedExpertPayloadExceedsActiveMemory)
       (\<lambda>rest. ok_or (checked_add rest complete_expert_payload_bytes)
                 CompleteResidencyProjectionOverflow)"

definition required_complete_residency_activation_headroom_bytes :: "u64 \<Rightarrow> u64 \<Rightarrow> u64" where
  "required_complete_residency_activation_headroom_bytes startup_activation_floor_bytes
     observed_transient_high_water_bytes =
     (if startup_activation_floor_bytes < observed_transient_high_water_bytes
      then observed_transient_high_water_bytes else startup_activation_floor_bytes)"

definition complete_residency_exceeds_ceiling_with_activation_headroom ::
  "u64 \<Rightarrow> u64 \<Rightarrow> u64 \<Rightarrow> bool" where
  "complete_residency_exceeds_ceiling_with_activation_headroom projected_resident_active_memory_bytes
     stable_memory_ceiling_bytes required_activation_headroom_bytes =
     (case checked_add projected_resident_active_memory_bytes required_activation_headroom_bytes of
        Some projected_with_headroom_bytes \<Rightarrow>
          stable_memory_ceiling_bytes < projected_with_headroom_bytes
      | None \<Rightarrow> True)"

definition expert_reclamation_bytes_to_fit_fixed_forward ::
  "usize \<Rightarrow> usize \<Rightarrow> usize \<Rightarrow> usize \<Rightarrow> usize" where
  "expert_reclamation_bytes_to_fit_fixed_forward current_active_memory_bytes
     retained_expert_payload_bytes memory_ceiling_bytes fixed_forward_workspace_bytes =
     (let non_elastic_active_memory_bytes =
            saturating_sub current_active_memory_bytes retained_expert_payload_bytes;
          maximum_expert_payload_bytes_after_forward =
            saturating_sub (saturating_sub memory_ceiling_bytes non_elastic_active_memory_bytes)
              fixed_forward_workspace_bytes
      in saturating_sub retained_expert_payload_bytes maximum_expert_payload_bytes_after_forward)"

definition fixed_forward_workspace_after_allocation_failure ::
  "usize \<Rightarrow> usize \<Rightarrow> usize \<Rightarrow> usize \<Rightarrow> usize" where
  "fixed_forward_workspace_after_allocation_failure stable_active_memory_bytes
     active_memory_bytes_at_failure attempted_allocation_bytes observed_transient_high_water_bytes =
     (let active_transient_memory_bytes =
            saturating_sub active_memory_bytes_at_failure stable_active_memory_bytes;
          failed_forward_workspace_bytes =
            saturating_add active_transient_memory_bytes attempted_allocation_bytes
      in if observed_transient_high_water_bytes < failed_forward_workspace_bytes
         then failed_forward_workspace_bytes else observed_transient_high_water_bytes)"

definition should_retry_fixed_forward_after_expert_reclamation ::
  "bool \<Rightarrow> u64 \<Rightarrow> u64 \<Rightarrow> usize \<Rightarrow> bool" where
  "should_retry_fixed_forward_after_expert_reclamation has_already_retried_after_reclamation
     retained_expert_payload_bytes_before_reclamation
     retained_expert_payload_bytes_after_reclamation expert_reclamation_target_bytes =
     (let released_expert_payload_bytes =
            saturating_sub retained_expert_payload_bytes_before_reclamation
              retained_expert_payload_bytes_after_reclamation
      in \<not> has_already_retried_after_reclamation
         \<and> 0 < expert_reclamation_target_bytes
         \<and> expert_reclamation_target_bytes \<le> released_expert_payload_bytes)"

definition whole_table_reclamation_target_bytes :: "usize \<Rightarrow> usize \<Rightarrow> usize" where
  "whole_table_reclamation_target_bytes required_bytes complete_table_payload_bytes =
     (if complete_table_payload_bytes = 0 then required_bytes
      else let whole_table_count = required_bytes div complete_table_payload_bytes
           in if required_bytes mod complete_table_payload_bytes = 0 then required_bytes
              else case checked_mul (whole_table_count + 1) complete_table_payload_bytes of
                     Some rounded_up_bytes \<Rightarrow> rounded_up_bytes
                   | None \<Rightarrow> max_value)"

definition minimum :: "usize \<Rightarrow> usize \<Rightarrow> usize" where
  "minimum left right = (if left < right then left else right)"

definition maximum_three :: "usize \<Rightarrow> usize \<Rightarrow> usize \<Rightarrow> usize" where
  "maximum_three first second third =
     (let first_two_maximum = (if second < first then first else second)
      in if third < first_two_maximum then first_two_maximum else third)"

definition for_projected_memory ::
  "usize \<Rightarrow> usize \<Rightarrow> usize \<Rightarrow> usize \<Rightarrow> usize \<Rightarrow> usize \<Rightarrow> ExpertReclamationPlan" where
  "for_projected_memory stable_projected_bytes peak_projected_bytes recovery_projected_bytes
     stable_memory_ceiling_bytes transient_memory_ceiling_bytes retained_expert_payload_bytes =
     (let stable_deficit_bytes = saturating_sub stable_projected_bytes stable_memory_ceiling_bytes;
          peak_deficit_bytes = saturating_sub peak_projected_bytes transient_memory_ceiling_bytes;
          recovery_deficit_bytes =
            saturating_sub recovery_projected_bytes transient_memory_ceiling_bytes;
          required_bytes =
            maximum_three stable_deficit_bytes peak_deficit_bytes recovery_deficit_bytes;
          target_bytes = minimum required_bytes retained_expert_payload_bytes
      in \<lparr>required_reclamation_bytes = required_bytes,
          reclamation_target_bytes = target_bytes,
          unresolved_shortfall_bytes = saturating_sub required_bytes target_bytes\<rparr>)"

definition can_satisfy_every_memory_boundary :: "ExpertReclamationPlan \<Rightarrow> bool" where
  "can_satisfy_every_memory_boundary plan = (unresolved_shortfall_bytes plan = 0)"

section \<open>Operations of recovery.rs\<close>

definition retry_is_authorized ::
  "bool \<Rightarrow> u64 \<Rightarrow> u64 \<Rightarrow> usize \<Rightarrow> AdaptiveRamGrowthExecutionProfile \<Rightarrow> bool" where
  "retry_is_authorized has_already_retried retained_before retained_after required_bytes profile =
     (case profile of
        Resident \<Rightarrow> should_retry_fixed_forward_after_expert_reclamation has_already_retried
                      retained_before retained_after required_bytes
      | Paged \<Rightarrow> should_retry_fixed_forward_after_expert_reclamation has_already_retried
                   retained_before retained_after required_bytes)"

definition forward_recovery_decide :: "ForwardRecoveryRequirements \<Rightarrow> ForwardRecoveryDecision" where
  "forward_recovery_decide self =
     (let fixed_forward_workspace_bytes =
            fixed_forward_workspace_after_allocation_failure (fr_stable_active_memory_bytes self)
              (fr_active_memory_bytes_at_failure self) (fr_attempted_allocation_bytes self)
              (fr_observed_transient_high_water_bytes self);
          required_bytes =
            expert_reclamation_bytes_to_fit_fixed_forward (fr_stable_active_memory_bytes self)
              (fr_retained_expert_payload_bytes_before_reclamation self)
              (fr_active_memory_ceiling_bytes self) fixed_forward_workspace_bytes
      in if retry_is_authorized (fr_has_already_retried_after_reclamation self)
              (fr_retained_expert_payload_bytes_before_reclamation self)
              (fr_retained_expert_payload_bytes_after_reclamation self)
              required_bytes (fr_execution_profile self)
         then RecoveryRetry fixed_forward_workspace_bytes required_bytes
         else RecoveryReject AllocationProjection fixed_forward_workspace_bytes required_bytes)"

section \<open>Lemmas\<close>

lemma unat_minimum [rust_nat]: "unat (minimum a b) = min (unat a) (unat b)"
  by (simp add: minimum_def word_less_nat_alt)

lemma unat_maximum_three [rust_nat]: "unat (maximum_three a b c) = max (max (unat a) (unat b)) (unat c)"
  by (simp add: maximum_three_def Let_def word_less_nat_alt)

lemma unat_required_headroom [rust_nat]:
  "unat (required_complete_residency_activation_headroom_bytes a b) = max (unat a) (unat b)"
  by (simp add: required_complete_residency_activation_headroom_bytes_def word_less_nat_alt)

lemma exceeds_ceiling_iff:
  "complete_residency_exceeds_ceiling_with_activation_headroom p c h \<longleftrightarrow> unat c < unat p + unat h"
  using u64_bound [of c]
  by (auto simp: complete_residency_exceeds_ceiling_with_activation_headroom_def rust_nat
      split: option.splits)

lemma projected_after_replacement_iff:
  "projected_active_memory_after_complete_expert_replacement current retained complete = Inr p \<longleftrightarrow>
     unat retained \<le> unat current \<and> unat p = unat current - unat retained + unat complete"
proof (cases "retained \<le> current")
  case True
  then have "checked_sub current retained = Some (current - retained)"
    by (simp add: checked_sub_def)
  with True show ?thesis
    by (simp add: projected_active_memory_after_complete_expert_replacement_def
        checked_add_Some_iff unat_sub_exact word_le_nat_alt)
next
  case False
  then show ?thesis
    by (simp add: projected_active_memory_after_complete_expert_replacement_def checked_sub_def
        word_le_nat_alt)
qed

text \<open>The three amounts of a plan, as natural numbers.\<close>

lemma min_diff_eq: "(x :: nat) - min x y = x - y"
  by (simp add: min_def)

lemma reclamation_plan_amounts:
  fixes stbl peak recovery c t retained :: usize
  defines "plan \<equiv> for_projected_memory stbl peak recovery c t retained"
    and "required \<equiv> max (max (unat stbl - unat c) (unat peak - unat t)) (unat recovery - unat t)"
  shows "unat (required_reclamation_bytes plan) = required"
    and "unat (reclamation_target_bytes plan) = min required (unat retained)"
    and "unat (unresolved_shortfall_bytes plan) = required - unat retained"
  unfolding plan_def required_def
  by (simp_all add: for_projected_memory_def Let_def rust_nat min_diff_eq)

lemma can_satisfy_iff:
  "can_satisfy_every_memory_boundary (for_projected_memory stbl peak recovery c t retained) \<longleftrightarrow>
     required_reclamation_bytes (for_projected_memory stbl peak recovery c t retained) \<le> retained"
  by (simp add: can_satisfy_every_memory_boundary_def rust_nat reclamation_plan_amounts)

lemma unat_reclamation_to_fit:
  "unat (expert_reclamation_bytes_to_fit_fixed_forward current retained c w) =
     unat retained - (unat c - (unat current - unat retained) - unat w)"
  by (simp add: expert_reclamation_bytes_to_fit_fixed_forward_def Let_def rust_nat)

lemma unat_fixed_workspace:
  "unat (fixed_forward_workspace_after_allocation_failure stbl at_failure attempted observed) =
     max (min (unat at_failure - unat stbl + unat attempted) 18446744073709551615) (unat observed)"
  by (simp add: fixed_forward_workspace_after_allocation_failure_def Let_def rust_nat
      if_distrib [of unat] max_def min_def del: if_split)

lemma retry_is_authorized_eq:
  "retry_is_authorized retried before after required profile \<longleftrightarrow>
     \<not> retried \<and> 0 < unat required \<and> unat required \<le> unat before - unat after"
  by (cases profile)
     (simp_all add: retry_is_authorized_def should_retry_fixed_forward_after_expert_reclamation_def
        Let_def rust_nat)

end
