(* ===== verification/Memory_Equation.thy ===== *)
theory Memory_Equation
  imports Workspace_Reserve Reclamation
begin

text \<open>
  \<^verbatim>\<open>memory_equation.rs\<close>, \<^verbatim>\<open>budget/adaptive_growth_projection.rs\<close> and \<^verbatim>\<open>forward_admission.rs\<close>: the
  checked stable, peak and recovery projections of one operation, the limits they are compared
  with, and the typed decisions for a resident and for a paged forward. \<open>memory_equation_wf\<close> is
  the invariant every constructed equation has; the decisions are characterised under it.
\<close>

section \<open>The equation\<close>

record MemoryEquation =
  me_current_active_memory_bytes :: usize
  me_persistent_growth_bytes :: usize
  me_routed_expert_page_reservation_bytes :: usize
  me_explicit_temporary_workspace_bytes :: usize
  me_transient_workspace_reserve :: TransientWorkspaceReserve
  me_stable_projected_bytes :: usize
  me_peak_projected_bytes :: usize
  me_recovery_projected_bytes :: usize
  me_active_memory_ceiling_bytes :: usize
  me_allowed_active_memory_bytes :: usize

definition memory_equation_new ::
  "usize \<Rightarrow> usize \<Rightarrow> usize \<Rightarrow> usize \<Rightarrow> TransientWorkspaceReserve \<Rightarrow> usize \<Rightarrow> MemoryEquation option" where
  "memory_equation_new current growth page workspace reserve ceiling_bytes =
     Option.bind (checked_add current growth) (\<lambda>current_and_growth.
     Option.bind (checked_add current_and_growth page) (\<lambda>stable_projected_bytes.
     Option.bind (checked_add workspace (reserve_bytes reserve)) (\<lambda>forward_transient_workspace_bytes.
     Option.bind (checked_add stable_projected_bytes forward_transient_workspace_bytes)
       (\<lambda>peak_projected_bytes.
     Option.bind (checked_add peak_projected_bytes forward_transient_workspace_bytes)
       (\<lambda>recovery_projected_bytes.
     Some \<lparr>me_current_active_memory_bytes = current,
           me_persistent_growth_bytes = growth,
           me_routed_expert_page_reservation_bytes = page,
           me_explicit_temporary_workspace_bytes = workspace,
           me_transient_workspace_reserve = reserve,
           me_stable_projected_bytes = stable_projected_bytes,
           me_peak_projected_bytes = peak_projected_bytes,
           me_recovery_projected_bytes = recovery_projected_bytes,
           me_active_memory_ceiling_bytes = ceiling_bytes,
           me_allowed_active_memory_bytes =
             saturating_add ceiling_bytes (ceiling_bytes div 100)\<rparr>)))))"

definition memory_equation_for_request_admission ::
  "usize \<Rightarrow> usize \<Rightarrow> usize \<Rightarrow> usize \<Rightarrow> usize \<Rightarrow> MemoryEquation option" where
  "memory_equation_for_request_admission current growth page temporary_workspace_bytes ceiling_bytes =
     memory_equation_new current growth page temporary_workspace_bytes without_learned_reserve
       ceiling_bytes"

definition stable_shortfall_bytes :: "MemoryEquation \<Rightarrow> usize" where
  "stable_shortfall_bytes e =
     saturating_sub (me_stable_projected_bytes e) (me_active_memory_ceiling_bytes e)"

definition peak_shortfall_bytes :: "MemoryEquation \<Rightarrow> usize" where
  "peak_shortfall_bytes e =
     saturating_sub (me_peak_projected_bytes e) (me_allowed_active_memory_bytes e)"

definition request_memory_shortfall_bytes :: "MemoryEquation \<Rightarrow> usize" where
  "request_memory_shortfall_bytes e =
     saturating_sub (me_peak_projected_bytes e) (me_active_memory_ceiling_bytes e)"

definition recovery_reserve_shortfall_bytes :: "MemoryEquation \<Rightarrow> usize" where
  "recovery_reserve_shortfall_bytes e =
     saturating_sub (me_recovery_projected_bytes e) (me_allowed_active_memory_bytes e)"

definition fits_stable_limit :: "MemoryEquation \<Rightarrow> bool" where
  "fits_stable_limit e = (stable_shortfall_bytes e = 0)"

definition fits_stable_and_peak_limits :: "MemoryEquation \<Rightarrow> bool" where
  "fits_stable_and_peak_limits e = (fits_stable_limit e \<and> peak_shortfall_bytes e = 0)"

definition fits_request_memory_limit :: "MemoryEquation \<Rightarrow> bool" where
  "fits_request_memory_limit e = (request_memory_shortfall_bytes e = 0)"

definition has_full_recovery_reserve :: "MemoryEquation \<Rightarrow> bool" where
  "has_full_recovery_reserve e = (recovery_reserve_shortfall_bytes e = 0)"

definition forward_reserve_bytes :: "MemoryEquation \<Rightarrow> usize" where
  "forward_reserve_bytes e =
     saturating_sub (me_peak_projected_bytes e) (me_current_active_memory_bytes e)"

definition operation_reclamation_required_bytes :: "MemoryEquation \<Rightarrow> usize" where
  "operation_reclamation_required_bytes e =
     (let stable_deficit_bytes = stable_shortfall_bytes e; peak_deficit_bytes = peak_shortfall_bytes e
      in if peak_deficit_bytes < stable_deficit_bytes then stable_deficit_bytes else peak_deficit_bytes)"

definition expert_retention_reclamation_plan :: "MemoryEquation \<Rightarrow> usize \<Rightarrow> ExpertReclamationPlan" where
  "expert_retention_reclamation_plan e retained_expert_payload_bytes =
     for_projected_memory (me_stable_projected_bytes e) (me_peak_projected_bytes e)
       (me_peak_projected_bytes e) (me_active_memory_ceiling_bytes e)
       (me_allowed_active_memory_bytes e) retained_expert_payload_bytes"

text \<open>The wrapper that serving diagnostics know as the growth projection.\<close>

record AdaptiveRamGrowthProjection =
  memory_equation :: MemoryEquation

definition from_memory_equation :: "MemoryEquation \<Rightarrow> AdaptiveRamGrowthProjection" where
  "from_memory_equation e = \<lparr>memory_equation = e\<rparr>"

section \<open>Forward admission\<close>

datatype StreamingEngineRequirement =
    StableShortfall usize
  | TransientPeakShortfallAtPrefillChunk usize usize
  | TransientPeakShortfallWithoutPrefillChunk usize
  | RequestContextShortfall usize
  | ForwardAllocationShortfall usize
  | ForwardGraphicsProcessorMemoryExhausted

datatype ResidentForwardAdmissionDecision =
    ResidentAdmit
  | RequireStreamingEngine StreamingEngineRequirement

datatype ResidentForwardAdmissionRejection = RejectRequireStreamingEngine StreamingEngineRequirement

datatype PagedForwardAdmissionDecision =
    PagedAdmit
  | ReclaimRetainedExperts usize
  | PagedReject usize

definition for_resident_forward ::
  "AdaptiveRamGrowthProjection \<Rightarrow> usize option \<Rightarrow> ResidentForwardAdmissionDecision" where
  "for_resident_forward forward_projection prefill_chunk_token_count =
     (let e = memory_equation forward_projection in
      if fits_stable_and_peak_limits e then ResidentAdmit
      else if \<not> fits_stable_limit e
      then RequireStreamingEngine (StableShortfall (stable_shortfall_bytes e))
      else case prefill_chunk_token_count of
             Some token_count \<Rightarrow> RequireStreamingEngine
               (TransientPeakShortfallAtPrefillChunk (peak_shortfall_bytes e) token_count)
           | None \<Rightarrow> RequireStreamingEngine
               (TransientPeakShortfallWithoutPrefillChunk (peak_shortfall_bytes e)))"

fun resident_rejection ::
  "ResidentForwardAdmissionDecision \<Rightarrow> ResidentForwardAdmissionRejection option" where
  "resident_rejection ResidentAdmit = None"
| "resident_rejection (RequireStreamingEngine cause) = Some (RejectRequireStreamingEngine cause)"

definition for_paged_forward ::
  "AdaptiveRamGrowthProjection \<Rightarrow> usize \<Rightarrow> bool option \<Rightarrow> PagedForwardAdmissionDecision" where
  "for_paged_forward forward_projection retained_expert_payload_bytes previous_pass_released_pages =
     (let e = memory_equation forward_projection in
      if fits_stable_and_peak_limits e then PagedAdmit
      else let reclamation_plan = expert_retention_reclamation_plan e retained_expert_payload_bytes;
               target_bytes = reclamation_target_bytes reclamation_plan
           in if can_satisfy_every_memory_boundary reclamation_plan \<and> 0 < target_bytes
                 \<and> previous_pass_released_pages \<noteq> Some False
              then ReclaimRetainedExperts target_bytes
              else PagedReject
                (if 0 < unresolved_shortfall_bytes reclamation_plan
                 then unresolved_shortfall_bytes reclamation_plan
                 else let plan_shortfall_bytes = required_reclamation_bytes reclamation_plan;
                          projection_shortfall_bytes = operation_reclamation_required_bytes e
                      in if projection_shortfall_bytes < plan_shortfall_bytes
                         then plan_shortfall_bytes else projection_shortfall_bytes))"

definition resident_log_label :: "ResidentForwardAdmissionDecision \<Rightarrow> string" where
  "resident_log_label d =
     (case d of ResidentAdmit \<Rightarrow> ''admit_resident_forward''
              | RequireStreamingEngine _ \<Rightarrow> ''request_streaming_engine'')"

definition paged_log_label :: "PagedForwardAdmissionDecision \<Rightarrow> string" where
  "paged_log_label d =
     (case d of PagedAdmit \<Rightarrow> ''admit_paged_forward''
              | ReclaimRetainedExperts _ \<Rightarrow> ''reclaim_paged_experts''
              | PagedReject _ \<Rightarrow> ''reclaim_paged_experts'')"

section \<open>Invariant of a constructed equation\<close>

definition exact_reserve :: "usize \<Rightarrow> TransientWorkspaceReserve" where
  "exact_reserve n = \<lparr>reserve_bytes = n, reserve_source = ExactContext, reserve_forward_token_count = 1\<rparr>"

definition memory_equation_wf :: "MemoryEquation \<Rightarrow> bool" where
  "memory_equation_wf e \<longleftrightarrow>
     unat (me_stable_projected_bytes e) =
       unat (me_current_active_memory_bytes e) + unat (me_persistent_growth_bytes e)
       + unat (me_routed_expert_page_reservation_bytes e)
     \<and> unat (me_peak_projected_bytes e) =
         unat (me_stable_projected_bytes e) + unat (me_explicit_temporary_workspace_bytes e)
         + unat (reserve_bytes (me_transient_workspace_reserve e))
     \<and> unat (me_recovery_projected_bytes e) =
         unat (me_peak_projected_bytes e) + unat (me_explicit_temporary_workspace_bytes e)
         + unat (reserve_bytes (me_transient_workspace_reserve e))
     \<and> unat (me_allowed_active_memory_bytes e) =
         min (unat (me_active_memory_ceiling_bytes e) + unat (me_active_memory_ceiling_bytes e) div 100)
             18446744073709551615"

lemma checked_add_bind_cases:
  "Option.bind (checked_add a (b :: 'a::len word)) f = Some r \<longleftrightarrow>
     unat a + unat b < 2 ^ LENGTH('a) \<and> f (a + b) = Some r"
  by (simp add: checked_add_def)

lemma checked_add_bind_Some_iff:
  "Option.bind (checked_add a (b :: 'a::len word)) f = Some r \<longleftrightarrow>
     (\<exists>c. unat c = unat a + unat b \<and> f c = Some r)"
  by (auto simp: bind_eq_Some_conv checked_add_Some_iff)

lemma memory_equation_new_fields:
  assumes "memory_equation_new current growth page workspace reserve ceiling_bytes = Some e"
  shows "me_current_active_memory_bytes e = current"
    and "me_persistent_growth_bytes e = growth"
    and "me_routed_expert_page_reservation_bytes e = page"
    and "me_explicit_temporary_workspace_bytes e = workspace"
    and "me_transient_workspace_reserve e = reserve"
    and "me_active_memory_ceiling_bytes e = ceiling_bytes"
    and "memory_equation_wf e"
  using assms
  by (auto simp: memory_equation_new_def checked_add_bind_Some_iff memory_equation_wf_def
      unat_saturating_add unat_div)

lemma memory_equation_new_None_iff:
  "memory_equation_new current growth page workspace reserve ceiling_bytes = None \<longleftrightarrow>
     18446744073709551616 \<le> unat current + unat growth + unat page
       + 2 * (unat workspace + unat (reserve_bytes reserve))"
proof -
  have "(\<exists>e. memory_equation_new current growth page workspace reserve ceiling_bytes = Some e) \<longleftrightarrow>
     unat current + unat growth + unat page + 2 * (unat workspace + unat (reserve_bytes reserve))
       < 18446744073709551616"
    by (auto simp: memory_equation_new_def checked_add_bind_cases unat_add_exact)
  then show ?thesis by (metis not_Some_eq not_le)
qed

lemma fits_stable_limit_iff:
  "fits_stable_limit e \<longleftrightarrow> unat (me_stable_projected_bytes e) \<le> unat (me_active_memory_ceiling_bytes e)"
  by (simp add: fits_stable_limit_def stable_shortfall_bytes_def rust_nat)

lemma fits_stable_and_peak_limits_iff:
  "fits_stable_and_peak_limits e \<longleftrightarrow>
     unat (me_stable_projected_bytes e) \<le> unat (me_active_memory_ceiling_bytes e)
     \<and> unat (me_peak_projected_bytes e) \<le> unat (me_allowed_active_memory_bytes e)"
  by (simp add: fits_stable_and_peak_limits_def fits_stable_limit_iff peak_shortfall_bytes_def rust_nat)

lemma fits_request_memory_limit_iff:
  "fits_request_memory_limit e \<longleftrightarrow>
     unat (me_peak_projected_bytes e) \<le> unat (me_active_memory_ceiling_bytes e)"
  by (simp add: fits_request_memory_limit_def request_memory_shortfall_bytes_def rust_nat)

lemma unat_operation_reclamation_required:
  "unat (operation_reclamation_required_bytes e) =
     max (unat (me_stable_projected_bytes e) - unat (me_active_memory_ceiling_bytes e))
         (unat (me_peak_projected_bytes e) - unat (me_allowed_active_memory_bytes e))"
  by (simp add: operation_reclamation_required_bytes_def Let_def stable_shortfall_bytes_def
      peak_shortfall_bytes_def rust_nat max_def)

text \<open>The two ways of computing the operation's deficit agree.\<close>

lemma reclamation_plan_required_eq:
  "required_reclamation_bytes (expert_retention_reclamation_plan e r) = operation_reclamation_required_bytes e"
  by (simp add: word_unat_eq_iff expert_retention_reclamation_plan_def reclamation_plan_amounts
      unat_operation_reclamation_required)

lemma reclamation_required_zero_iff:
  "operation_reclamation_required_bytes e = 0 \<longleftrightarrow> fits_stable_and_peak_limits e"
  by (simp add: word_unat_eq_iff unat_operation_reclamation_required fits_stable_and_peak_limits_iff)

lemma paged_forward_reclaim_fits:
  assumes "for_paged_forward \<lparr>memory_equation = e\<rparr> retained previous = ReclaimRetainedExperts target"
  shows "target \<le> retained
    \<and> unat (me_stable_projected_bytes e) - unat target \<le> unat (me_active_memory_ceiling_bytes e)
    \<and> unat (me_peak_projected_bytes e) - unat target \<le> unat (me_allowed_active_memory_bytes e)"
  using assms
  by (auto simp: for_paged_forward_def Let_def expert_retention_reclamation_plan_def can_satisfy_iff
      word_le_nat_alt reclamation_plan_amounts split: if_splits)

section \<open>Properties\<close>

text \<open>Building a memory equation fails exactly when the largest projection does not fit in a
  machine word; otherwise the three projections are the exact sums of their owners and the peak
  limit is the ceiling plus one percent, saturating.\<close>

lemma memory_equation_projections_exact:
  "case memory_equation_new current growth page workspace reserve ceiling_bytes of
     None \<Rightarrow> 18446744073709551616 \<le>
       unat current + unat growth + unat page + 2 * (unat workspace + unat (reserve_bytes reserve))
   | Some e \<Rightarrow>
       unat (me_stable_projected_bytes e) = unat current + unat growth + unat page
       \<and> unat (me_peak_projected_bytes e) = unat current + unat growth + unat page
           + (unat workspace + unat (reserve_bytes reserve))
       \<and> unat (me_recovery_projected_bytes e) = unat current + unat growth + unat page
           + 2 * (unat workspace + unat (reserve_bytes reserve))
       \<and> me_active_memory_ceiling_bytes e = ceiling_bytes
       \<and> unat (me_allowed_active_memory_bytes e) =
           min (unat ceiling_bytes + unat ceiling_bytes div 100) 18446744073709551615"
proof (cases "memory_equation_new current growth page workspace reserve ceiling_bytes")
  case None
  then have "18446744073709551616 \<le> unat current + unat growth + unat page
      + 2 * (unat workspace + unat (reserve_bytes reserve))"
    by (rule memory_equation_new_None_iff [THEN iffD1])
  then show ?thesis by (simp only: None option.case)
next
  case (Some e)
  note fields = memory_equation_new_fields [OF Some]
  show ?thesis using fields(7) by (simp add: Some fields(1-6) memory_equation_wf_def)
qed

text \<open>C1. The decision for a paged forward is admission exactly when both limits hold; a reclamation
  order names the least number of expert bytes whose release meets both limits, never more than is
  retained and never after a pass that released nothing; a rejection names a positive shortfall,
  which is the part of the deficit the retained payload cannot cover or, when a fruitless pass
  stopped the ladder, the whole deficit.\<close>

theorem paged_forward_decision_correct:
  "case for_paged_forward \<lparr>memory_equation = e\<rparr> retained previous of
     PagedAdmit \<Rightarrow>
       unat (me_stable_projected_bytes e) \<le> unat (me_active_memory_ceiling_bytes e)
       \<and> unat (me_peak_projected_bytes e) \<le> unat (me_allowed_active_memory_bytes e)
   | ReclaimRetainedExperts target \<Rightarrow>
       previous \<noteq> Some False \<and> 0 < unat target \<and> target \<le> retained
       \<and> (\<forall>r. (unat (me_stable_projected_bytes e) - r \<le> unat (me_active_memory_ceiling_bytes e)
                \<and> unat (me_peak_projected_bytes e) - r \<le> unat (me_allowed_active_memory_bytes e))
              \<longleftrightarrow> unat target \<le> r)
   | PagedReject shortfall \<Rightarrow>
       \<not> fits_stable_and_peak_limits e \<and> 0 < unat shortfall
       \<and> unat shortfall =
           (if unat retained < unat (operation_reclamation_required_bytes e)
            then unat (operation_reclamation_required_bytes e) - unat retained
            else unat (operation_reclamation_required_bytes e))
       \<and> (previous = Some False \<or> retained < operation_reclamation_required_bytes e)"
proof (cases "fits_stable_and_peak_limits e")
  case True
  then show ?thesis by (simp add: for_paged_forward_def fits_stable_and_peak_limits_iff)
next
  case False
  let ?plan = "expert_retention_reclamation_plan e retained"
  let ?need = "operation_reclamation_required_bytes e"
  have need: "0 < unat ?need"
    using False by (simp add: reclamation_required_zero_iff [symmetric] unat_gt_0)
  have target: "unat (reclamation_target_bytes ?plan) = min (unat ?need) (unat retained)"
    and unresolved: "unat (unresolved_shortfall_bytes ?plan) = unat ?need - unat retained"
    by (simp_all add: expert_retention_reclamation_plan_def reclamation_plan_amounts
        unat_operation_reclamation_required)
  have least: "(unat (me_stable_projected_bytes e) - r \<le> unat (me_active_memory_ceiling_bytes e)
      \<and> unat (me_peak_projected_bytes e) - r \<le> unat (me_allowed_active_memory_bytes e))
      \<longleftrightarrow> unat ?need \<le> r" for r
    unfolding unat_operation_reclamation_required by auto
  have can: "can_satisfy_every_memory_boundary ?plan \<longleftrightarrow> unat ?need \<le> unat retained"
    by (simp add: can_satisfy_every_memory_boundary_def word_unat_eq_iff unresolved)
  show ?thesis
    using False need
    by (auto simp: for_paged_forward_def Let_def reclamation_plan_required_eq can target unresolved
        least word_less_nat_alt word_le_nat_alt)
qed

text \<open>C2. The reclamation ladder of a paged forward needs one pass: when it orders the release of
  some bytes out of retained payload that active memory contains, then the same forward projected
  from the memory left after that release is admitted, whatever the next pass reports.\<close>

theorem paged_reclaim_then_admits:
  assumes "memory_equation_new current growth page workspace reserve ceiling_bytes = Some e"
    and "for_paged_forward \<lparr>memory_equation = e\<rparr> retained previous = ReclaimRetainedExperts target"
    and "retained \<le> current"
  shows "\<exists>e'. memory_equation_new (current - target) growth page workspace reserve ceiling_bytes = Some e'
           \<and> for_paged_forward \<lparr>memory_equation = e'\<rparr> (retained - target) previous' = PagedAdmit"
proof -
  note fields = memory_equation_new_fields [OF assms(1)]
  have t: "target \<le> retained"
    and fits: "unat (me_stable_projected_bytes e) - unat target \<le> unat (me_active_memory_ceiling_bytes e)"
      "unat (me_peak_projected_bytes e) - unat target \<le> unat (me_allowed_active_memory_bytes e)"
    using paged_forward_reclaim_fits [OF assms(2)] by auto
  have left: "unat (current - target) = unat current - unat target"
    using t assms(3) by (simp add: unat_sub_exact)
  have "unat target \<le> unat current" using t assms(3) by (simp add: word_le_nat_alt)
  moreover have "memory_equation_new current growth page workspace reserve ceiling_bytes \<noteq> None"
    using assms(1) by simp
  ultimately have "memory_equation_new (current - target) growth page workspace reserve ceiling_bytes \<noteq> None"
    unfolding memory_equation_new_None_iff left by linarith
  then obtain e' where e': "memory_equation_new (current - target) growth page workspace reserve ceiling_bytes = Some e'"
    by blast
  note fields' = memory_equation_new_fields [OF e']
  have "fits_stable_and_peak_limits e'"
    using fits fields fields' left \<open>unat target \<le> unat current\<close>
    unfolding fits_stable_and_peak_limits_iff memory_equation_wf_def by auto
  then have "for_paged_forward \<lparr>memory_equation = e'\<rparr> (retained - target) previous' = PagedAdmit"
    by (simp add: for_paged_forward_def)
  with e' show ?thesis by blast
qed

theorem paged_reclaim_then_admits_witness:
  "\<exists>e'. memory_equation_new 83 10 0 5 (exact_reserve 3) 100 = Some e'
      \<and> for_paged_forward \<lparr>memory_equation = e'\<rparr> 16 (Some False) = PagedAdmit"
proof -
  define e where "e = the (memory_equation_new 107 10 0 5 (exact_reserve 3) 100)"
  have 1: "memory_equation_new 107 10 0 5 (exact_reserve 3) 100 = Some e"
    unfolding e_def by code_simp
  have 2: "for_paged_forward \<lparr>memory_equation = e\<rparr> 40 None = ReclaimRetainedExperts 24"
    unfolding e_def by code_simp
  show ?thesis
    using paged_reclaim_then_admits [OF 1 2, of "Some False"] by (simp add: word_le_nat_alt)
qed

text \<open>A resident forward is admitted exactly when both limits hold, and otherwise leaves for the
  streaming engine with the exact positive shortfall of the first limit it breaks: the stable one
  first, else the peak one together with the prefill chunk size it was asked for.\<close>

lemma resident_forward_decision_correct:
  "case for_resident_forward \<lparr>memory_equation = e\<rparr> chunk of
     ResidentAdmit \<Rightarrow> fits_stable_and_peak_limits e
   | RequireStreamingEngine cause \<Rightarrow>
       \<not> fits_stable_and_peak_limits e
       \<and> (\<exists>shortfall. 0 < unat shortfall \<and>
            (cause = StableShortfall shortfall
               \<and> unat (me_stable_projected_bytes e) = unat (me_active_memory_ceiling_bytes e) + unat shortfall
             \<or> cause = (case chunk of Some tokens \<Rightarrow> TransientPeakShortfallAtPrefillChunk shortfall tokens
                                   | None \<Rightarrow> TransientPeakShortfallWithoutPrefillChunk shortfall)
               \<and> unat (me_stable_projected_bytes e) \<le> unat (me_active_memory_ceiling_bytes e)
               \<and> unat (me_peak_projected_bytes e) = unat (me_allowed_active_memory_bytes e) + unat shortfall))"
proof (cases "fits_stable_limit e")
  case True
  then show ?thesis
    by (cases "fits_stable_and_peak_limits e"; cases chunk)
       (auto simp: for_resident_forward_def Let_def fits_stable_limit_iff fits_stable_and_peak_limits_iff
          peak_shortfall_bytes_def unat_saturating_sub intro!: exI [of _ "peak_shortfall_bytes e"])
next
  case False
  then show ?thesis
    by (auto simp: for_resident_forward_def Let_def fits_stable_limit_iff fits_stable_and_peak_limits_iff
          stable_shortfall_bytes_def unat_saturating_sub intro!: exI [of _ "stable_shortfall_bytes e"])
qed

end
