(* ===== verification/BTree.thy ===== *)
theory BTree
  imports Prelude
begin

text \<open>
  \<^verbatim>\<open>std::collections::BTreeMap\<close> as the memory policy uses it: entries in ascending key order,
  point lookup, the \<^verbatim>\<open>entry(..).and_modify(max).or_insert(..)\<close> idiom that keeps a high-water mark,
  iteration and the inclusive range below a key. The locale \<open>ordered_map\<close> is the interface the
  growth guard and the RAM budget rely on; sorted association lists are interpreted as its model.
\<close>

section \<open>The interface\<close>

locale ordered_map =
  fixes empty_map :: "'m"
    and get :: "'m \<Rightarrow> 'k::linorder \<Rightarrow> 'v option"
    and put :: "'k \<Rightarrow> 'v \<Rightarrow> 'm \<Rightarrow> 'm"
    and entries :: "'m \<Rightarrow> ('k \<times> 'v) list"
    and invar :: "'m \<Rightarrow> bool"
  assumes invar_empty: "invar empty_map"
    and invar_put: "invar m \<Longrightarrow> invar (put k v m)"
    and get_empty: "get empty_map k = None"
    and get_put: "invar m \<Longrightarrow> get (put k v m) k' = (if k' = k then Some v else get m k')"
    and sorted_entries: "invar m \<Longrightarrow> sorted_wrt (<) (map fst (entries m))"
    and get_entries: "invar m \<Longrightarrow> get m k = map_of (entries m) k"
begin

lemma distinct_keys: "invar m \<Longrightarrow> distinct (map fst (entries m))"
  using sorted_entries strict_sorted_iff by blast

lemma entry_iff: "invar m \<Longrightarrow> (k, v) \<in> set (entries m) \<longleftrightarrow> get m k = Some v"
  by (simp add: distinct_keys get_entries)

lemma put_entries: "invar m \<Longrightarrow>
    set (entries (put k v m)) = insert (k, v) {e \<in> set (entries m). fst e \<noteq> k}"
  by (auto simp: entry_iff invar_put get_put split: if_splits)

lemma entries_empty: "entries empty_map = []"
proof -
  have "(k, v) \<notin> set (entries empty_map)" for k v
    by (simp add: entry_iff invar_empty get_empty)
  then show ?thesis by (metis list.set_intros(1) neq_Nil_conv surj_pair)
qed

end

section \<open>Sorted association lists\<close>

type_synonym ('k, 'v) btree_map = "('k \<times> 'v) list"

fun bt_insert :: "'k::linorder \<Rightarrow> 'v \<Rightarrow> ('k, 'v) btree_map \<Rightarrow> ('k, 'v) btree_map" where
  "bt_insert k v [] = [(k, v)]"
| "bt_insert k v ((k', v') # m) =
     (if k < k' then (k, v) # (k', v') # m
      else if k = k' then (k, v) # m
      else (k', v') # bt_insert k v m)"

definition bt_invar :: "('k::linorder, 'v) btree_map \<Rightarrow> bool" where
  "bt_invar m = sorted_wrt (<) (map fst m)"

text \<open>\<^verbatim>\<open>entry(k).and_modify(|old| *old = (*old).max(v)).or_insert(v)\<close>\<close>

definition bt_entry_max :: "'k::linorder \<Rightarrow> 'v::linorder \<Rightarrow> ('k, 'v) btree_map \<Rightarrow> ('k, 'v) btree_map" where
  "bt_entry_max k v m = bt_insert k (case map_of m k of None \<Rightarrow> v | Some old \<Rightarrow> max old v) m"

text \<open>\<^verbatim>\<open>range(..=k)\<close>\<close>

definition bt_range_to :: "'k::linorder \<Rightarrow> ('k, 'v) btree_map \<Rightarrow> ('k, 'v) btree_map" where
  "bt_range_to k m = filter (\<lambda>e. fst e \<le> k) m"

text \<open>\<^verbatim>\<open>iter().max().unwrap_or(0)\<close> over unsigned values.\<close>

fun max_or_zero :: "'a::len word list \<Rightarrow> 'a word" where
  "max_or_zero [] = 0"
| "max_or_zero (x # xs) = max x (max_or_zero xs)"

text \<open>The same maximum over natural numbers, for reference definitions.\<close>

definition list_max :: "nat list \<Rightarrow> nat" where
  "list_max xs = foldr max xs 0"

lemma list_max_simps [simp]:
  "list_max [] = 0" "list_max (x # xs) = max x (list_max xs)"
  "list_max (xs @ ys) = max (list_max xs) (list_max ys)"
proof -
  show nil: "list_max [] = 0" and cons: "list_max (x # xs) = max x (list_max xs)" for x xs
    by (simp_all add: list_max_def)
  show "list_max (xs @ ys) = max (list_max xs) (list_max ys)"
    by (induction xs) (simp_all add: nil cons max.assoc)
qed

lemma list_max_le_iff: "list_max xs \<le> b \<longleftrightarrow> (\<forall>x \<in> set xs. x \<le> b)"
  by (induction xs) auto

lemma list_max_ge: "x \<in> set xs \<Longrightarrow> x \<le> list_max xs"
  using list_max_le_iff by blast

lemma list_max_map_mono:
  assumes "\<And>x. x \<in> set xs \<Longrightarrow> \<exists>y \<in> set ys. f x \<le> h y"
  shows "list_max (map f xs) \<le> list_max (map h ys)"
  unfolding list_max_le_iff
proof
  fix v assume "v \<in> set (map f xs)"
  then obtain y where "y \<in> set ys" "v \<le> h y" using assms by auto
  then show "v \<le> list_max (map h ys)" by (auto intro: order.trans [OF _ list_max_ge])
qed

lemma unat_max_or_zero: "unat (max_or_zero ws) = list_max (map unat ws)"
  by (induction ws) (simp_all add: unat_max)

lemma bt_insert_keys: "set (map fst (bt_insert k v m)) = insert k (set (map fst m))"
  by (induction k v m rule: bt_insert.induct) (simp_all add: insert_commute)

lemma bt_insert_invar: "bt_invar m \<Longrightarrow> bt_invar (bt_insert k v m)"
proof (induction k v m rule: bt_insert.induct)
  case (2 k v k' v' m)
  have keys: "set (map fst (bt_insert k v m)) = insert k (set (map fst m))" by (rule bt_insert_keys)
  from "2.prems" have "\<forall>x \<in> set (map fst m). k' < x" "bt_invar m" by (auto simp: bt_invar_def)
  with 2 keys show ?case by (force simp: bt_invar_def)
qed (simp add: bt_invar_def)

lemma map_of_bt_insert:
  "bt_invar m \<Longrightarrow> map_of (bt_insert k v m) k' = (if k' = k then Some v else map_of m k')"
  by (induction m) (auto simp: bt_invar_def)

interpretation btree: ordered_map "[]" "map_of :: ('k::linorder, 'v) btree_map \<Rightarrow> _"
  bt_insert "\<lambda>m. m" bt_invar
  by unfold_locales (auto simp: bt_insert_invar map_of_bt_insert, auto simp: bt_invar_def)

section \<open>High-water maps\<close>

lemma bt_entry_max_invar [simp]: "bt_invar m \<Longrightarrow> bt_invar (bt_entry_max k v m)"
  by (simp add: bt_entry_max_def btree.invar_put)

lemma map_of_bt_entry_max:
  "bt_invar m \<Longrightarrow> map_of (bt_entry_max k v m) k' =
     (if k' = k then Some (case map_of m k of None \<Rightarrow> v | Some old \<Rightarrow> max old v) else map_of m k')"
  by (simp add: bt_entry_max_def btree.get_put)

text \<open>Evidence is high-water only: no key disappears and no value goes down.\<close>

lemma bt_entry_max_mono:
  "\<lbrakk>bt_invar m; map_of m k' = Some old\<rbrakk> \<Longrightarrow> \<exists>new. map_of (bt_entry_max k v m) k' = Some new \<and> old \<le> new"
  by (auto simp: map_of_bt_entry_max)

lemma bt_entry_max_recorded:
  "bt_invar m \<Longrightarrow> \<exists>new. map_of (bt_entry_max k v m) k = Some new \<and> v \<le> new"
  by (auto simp: map_of_bt_entry_max split: option.splits)

lemma max_or_zero_ge: "x \<in> set xs \<Longrightarrow> x \<le> max_or_zero xs"
  by (induction xs) (auto simp: max_def)

lemma max_or_zero_le_iff: "max_or_zero xs \<le> b \<longleftrightarrow> (\<forall>x \<in> set xs. x \<le> b)"
  by (induction xs) auto

lemma max_or_zero_in: "xs \<noteq> [] \<Longrightarrow> max_or_zero xs \<in> set xs"
  by (induction xs rule: induct_list012) (auto simp: max_def)

lemma max_or_zero_subset: "set xs \<subseteq> set ys \<Longrightarrow> max_or_zero xs \<le> max_or_zero ys"
  by (auto simp: max_or_zero_le_iff intro: max_or_zero_ge)

text \<open>A maximum over the entries a predicate selects never decreases when an entry is raised.\<close>

lemma max_or_zero_entry_max_mono:
  assumes "bt_invar m"
  shows "max_or_zero (map snd (filter (\<lambda>e. P (fst e)) m))
       \<le> max_or_zero (map snd (filter (\<lambda>e. P (fst e)) (bt_entry_max k v m)))"
  unfolding max_or_zero_le_iff
proof
  fix x assume "x \<in> set (map snd (filter (\<lambda>e. P (fst e)) m))"
  then obtain k' where k': "(k', x) \<in> set m" "P k'" by auto
  then obtain new where "map_of (bt_entry_max k v m) k' = Some new" "x \<le> new"
    using bt_entry_max_mono [OF assms] btree.entry_iff [OF assms] by blast
  with k'(2) assms show "x \<le> max_or_zero (map snd (filter (\<lambda>e. P (fst e)) (bt_entry_max k v m)))"
    by (intro order.trans [OF _ max_or_zero_ge]) (auto simp: btree.entry_iff image_iff)
qed

end
