(* ===== verification/High_Water.thy ===== *)
theory High_Water
  imports BTree
begin

text \<open>
  The learning contract shared by the growth guard, the RAM budget and the program memory watch:
  every observation contributes at most one byte count to one key, and the evidence of a key is the
  largest contribution ever made to it. The locale derives from the one-step law what a client may
  rely on after any history: evidence never goes down, every contribution is covered, and
  evidence is always a value that was really observed.
\<close>

definition opt_max :: "'v::linorder option \<Rightarrow> 'v \<Rightarrow> 'v" where
  "opt_max old v = (case old of None \<Rightarrow> v | Some w \<Rightarrow> max w v)"

lemma opt_max_simps [simp]: "opt_max None v = v" "opt_max (Some w) v = max w v"
  by (simp_all add: opt_max_def)

locale high_water_learner =
  fixes invar :: "'s \<Rightarrow> bool"
    and evidence :: "'s \<Rightarrow> 'k \<Rightarrow> ('v::linorder) option"
    and observe :: "'o \<Rightarrow> 's \<Rightarrow> 's"
    and contribution :: "'o \<Rightarrow> ('k \<times> 'v) option"
  assumes invar_observe: "invar s \<Longrightarrow> invar (observe x s)"
    and evidence_ignored: "\<lbrakk>invar s; contribution x = None\<rbrakk> \<Longrightarrow> evidence (observe x s) k = evidence s k"
    and evidence_observe: "\<lbrakk>invar s; contribution x = Some (k', v)\<rbrakk> \<Longrightarrow>
      evidence (observe x s) k = (if k = k' then Some (opt_max (evidence s k) v) else evidence s k)"
begin

lemma invar_history: "invar s \<Longrightarrow> invar (fold observe xs s)"
  by (induction xs arbitrary: s) (simp_all add: invar_observe)

lemma evidence_mono_step:
  assumes "invar s" "evidence s k = Some v"
  shows "\<exists>w. evidence (observe x s) k = Some w \<and> v \<le> w"
proof (cases "contribution x")
  case None
  with assms show ?thesis by (simp add: evidence_ignored)
next
  case (Some kv)
  with assms show ?thesis by (cases kv; cases "k = fst kv") (auto simp: evidence_observe)
qed

lemma evidence_mono:
  "\<lbrakk>invar s; evidence s k = Some v\<rbrakk> \<Longrightarrow> \<exists>w. evidence (fold observe xs s) k = Some w \<and> v \<le> w"
proof (induction xs arbitrary: s v)
  case (Cons x xs)
  from evidence_mono_step [OF Cons.prems] obtain u where u: "evidence (observe x s) k = Some u" "v \<le> u"
    by blast
  from Cons.IH [OF invar_observe [OF Cons.prems(1)] u(1)] u(2) show ?case by (auto intro: order.trans)
qed simp

lemma contribution_covered:
  "\<lbrakk>invar s; x \<in> set xs; contribution x = Some (k, v)\<rbrakk>
   \<Longrightarrow> \<exists>w. evidence (fold observe xs s) k = Some w \<and> v \<le> w"
proof (induction xs arbitrary: s)
  case (Cons y ys)
  show ?case
  proof (cases "y = x")
    case True
    have "evidence (observe x s) k = Some (opt_max (evidence s k) v)"
      using Cons.prems by (simp add: evidence_observe)
    moreover have "v \<le> opt_max (evidence s k) v" by (cases "evidence s k") simp_all
    ultimately show ?thesis
      using evidence_mono [OF invar_observe [OF Cons.prems(1)], of x k _ ys] True order.trans
      by fastforce
  next
    case False
    with Cons.prems show ?thesis by (auto intro: Cons.IH invar_observe)
  qed
qed simp

lemma evidence_attained:
  "\<lbrakk>invar s; evidence (fold observe xs s) k = Some v\<rbrakk>
   \<Longrightarrow> evidence s k = Some v \<or> (\<exists>x \<in> set xs. contribution x = Some (k, v))"
proof (induction xs arbitrary: s)
  case (Cons x xs)
  have "evidence (observe x s) k = Some v \<or> (\<exists>y \<in> set xs. contribution y = Some (k, v))"
    using Cons.IH [OF invar_observe [OF Cons.prems(1)]] Cons.prems(2) by simp
  moreover have "evidence s k = Some v \<or> contribution x = Some (k, v)"
    if "evidence (observe x s) k = Some v"
  proof (cases "contribution x")
    case None
    with that Cons.prems(1) show ?thesis by (simp add: evidence_ignored)
  next
    case (Some kv)
    with that Cons.prems(1) show ?thesis
      by (cases kv; cases "evidence s k") (auto simp: evidence_observe max_def split: if_splits)
  qed
  ultimately show ?case by auto
qed simp

text \<open>From a state without evidence for a key, the evidence is exactly the maximum contribution.\<close>

lemma evidence_is_maximum:
  assumes "invar s" "evidence s k = None"
  shows "evidence (fold observe xs s) k = Some v \<longleftrightarrow>
     (\<exists>x \<in> set xs. contribution x = Some (k, v))
     \<and> (\<forall>x \<in> set xs. \<forall>w. contribution x = Some (k, w) \<longrightarrow> w \<le> v)"
proof
  assume e: "evidence (fold observe xs s) k = Some v"
  show "(\<exists>x \<in> set xs. contribution x = Some (k, v))
     \<and> (\<forall>x \<in> set xs. \<forall>w. contribution x = Some (k, w) \<longrightarrow> w \<le> v)"
    using evidence_attained [OF assms(1) e] contribution_covered [OF assms(1)] e assms(2) by fastforce
next
  assume r: "(\<exists>x \<in> set xs. contribution x = Some (k, v))
     \<and> (\<forall>x \<in> set xs. \<forall>w. contribution x = Some (k, w) \<longrightarrow> w \<le> v)"
  then obtain u where u: "evidence (fold observe xs s) k = Some u" "v \<le> u"
    using contribution_covered [OF assms(1)] by blast
  from evidence_attained [OF assms(1) u(1)] assms(2) r u(2) have "u = v" by force
  with u(1) show "evidence (fold observe xs s) k = Some v" by simp
qed

lemma evidence_None_iff:
  assumes "invar s" "evidence s k = None"
  shows "evidence (fold observe xs s) k = None \<longleftrightarrow> (\<forall>x \<in> set xs. \<forall>v. contribution x \<noteq> Some (k, v))"
proof (cases "evidence (fold observe xs s) k")
  case None
  then show ?thesis using contribution_covered [OF assms(1)] by fastforce
next
  case (Some v)
  then show ?thesis using evidence_attained [OF assms(1) Some] assms(2) by auto
qed

end

end
