(* ===== verification/Growth_Guard.thy ===== *)
theory Growth_Guard
  imports Memory_Equation High_Water "HOL-Library.Product_Lexorder"
begin

text \<open>
  \<^verbatim>\<open>budget/adaptive_growth.rs\<close>: the guard that learns the transient workspace of completed forwards by
  exact execution context and resolves the reserve of the next forward from the most specific
  evidence. \<open>ladder_reference\<close> is the reserve rule of the documentation as one expression; the loop
  of the code is proved equal to it. The guard is an instance of the high-water learner.
\<close>

section \<open>Contexts\<close>

datatype AdaptiveRamGrowthContext = AdaptiveRamGrowthContext
  (memory_phase: MemoryPhase)
  (forward_token_count: usize)
  (prompt_position_context_bucket: u64)
  (has_visual_embeddings: bool)
  (execution_profile: AdaptiveRamGrowthExecutionProfile)

definition prefill_context ::
  "usize \<Rightarrow> u64 \<Rightarrow> bool \<Rightarrow> AdaptiveRamGrowthExecutionProfile \<Rightarrow> AdaptiveRamGrowthContext" where
  "prefill_context forward_tokens bucket visual profile =
     AdaptiveRamGrowthContext Prefill forward_tokens bucket visual profile"

definition decode_context ::
  "usize \<Rightarrow> AdaptiveRamGrowthExecutionProfile \<Rightarrow> AdaptiveRamGrowthContext" where
  "decode_context forward_tokens profile =
     AdaptiveRamGrowthContext Decode forward_tokens 0 False profile"

fun with_execution_profile ::
  "AdaptiveRamGrowthContext \<Rightarrow> AdaptiveRamGrowthExecutionProfile \<Rightarrow> AdaptiveRamGrowthContext" where
  "with_execution_profile (AdaptiveRamGrowthContext p n b v _) profile =
     AdaptiveRamGrowthContext p n b v profile"

text \<open>The derived order of the source compares the fields from first to last.\<close>

fun context_key :: "AdaptiveRamGrowthContext \<Rightarrow>
    MemoryPhase \<times> usize \<times> u64 \<times> bool \<times> AdaptiveRamGrowthExecutionProfile" where
  "context_key (AdaptiveRamGrowthContext p n b v e) = (p, n, b, v, e)"

lemma context_key_inject [simp]: "context_key c = context_key d \<longleftrightarrow> c = d"
  by (cases c; cases d) auto

instantiation AdaptiveRamGrowthContext :: linorder
begin

definition less_eq_AdaptiveRamGrowthContext ::
  "AdaptiveRamGrowthContext \<Rightarrow> AdaptiveRamGrowthContext \<Rightarrow> bool" where
  "less_eq_AdaptiveRamGrowthContext c d = (context_key c \<le> context_key d)"

definition less_AdaptiveRamGrowthContext ::
  "AdaptiveRamGrowthContext \<Rightarrow> AdaptiveRamGrowthContext \<Rightarrow> bool" where
  "less_AdaptiveRamGrowthContext c d = (context_key c < context_key d)"

instance
proof
  fix c d e :: AdaptiveRamGrowthContext
  show "c < d \<longleftrightarrow> c \<le> d \<and> \<not> d \<le> c"
    unfolding less_eq_AdaptiveRamGrowthContext_def less_AdaptiveRamGrowthContext_def
    by (rule less_le_not_le)
  show "c \<le> c" "c \<le> d \<Longrightarrow> d \<le> e \<Longrightarrow> c \<le> e" "c \<le> d \<Longrightarrow> d \<le> c \<Longrightarrow> c = d" "c \<le> d \<or> d \<le> c"
    unfolding less_eq_AdaptiveRamGrowthContext_def
    by (rule order.refl order.trans context_key_inject [THEN iffD1, OF order.antisym] linear; assumption)+
qed

end

section \<open>The guard\<close>

datatype AdaptiveRamGrowthGuardError = InvalidActiveMemoryCeiling | MemoryProjectionOverflow

record AdaptiveRamGrowthGuard =
  gg_active_memory_ceiling_bytes :: usize
  gg_observed_transient_high_water_bytes_by_context :: "(AdaptiveRamGrowthContext, usize) btree_map"

definition guard_new :: "usize \<Rightarrow> AdaptiveRamGrowthGuardError + AdaptiveRamGrowthGuard" where
  "guard_new active_memory_ceiling_bytes =
     (if active_memory_ceiling_bytes = 0 then Inl InvalidActiveMemoryCeiling
      else Inr \<lparr>gg_active_memory_ceiling_bytes = active_memory_ceiling_bytes,
                gg_observed_transient_high_water_bytes_by_context = []\<rparr>)"

definition update_active_memory_ceiling_bytes ::
  "AdaptiveRamGrowthGuard \<Rightarrow> usize \<Rightarrow> AdaptiveRamGrowthGuardError + AdaptiveRamGrowthGuard" where
  "update_active_memory_ceiling_bytes self active_memory_ceiling_bytes =
     (if active_memory_ceiling_bytes = 0 then Inl InvalidActiveMemoryCeiling
      else Inr (self\<lparr>gg_active_memory_ceiling_bytes := active_memory_ceiling_bytes\<rparr>))"

definition has_completed_growth_observation :: "AdaptiveRamGrowthGuard \<Rightarrow> MemoryPhase \<Rightarrow> bool" where
  "has_completed_growth_observation self phase =
     list_ex (\<lambda>e. memory_phase (fst e) = phase) (gg_observed_transient_high_water_bytes_by_context self)"

definition observed_transient_high_water_bytes :: "AdaptiveRamGrowthGuard \<Rightarrow> MemoryPhase \<Rightarrow> usize" where
  "observed_transient_high_water_bytes self phase =
     max_or_zero (map snd (filter (\<lambda>e. memory_phase (fst e) = phase)
       (gg_observed_transient_high_water_bytes_by_context self)))"

definition observed_transient_high_water_bytes_for_context ::
  "AdaptiveRamGrowthGuard \<Rightarrow> AdaptiveRamGrowthContext \<Rightarrow> usize" where
  "observed_transient_high_water_bytes_for_context self c =
     (case map_of (gg_observed_transient_high_water_bytes_by_context self) c of
        Some high_water \<Rightarrow> high_water | None \<Rightarrow> 0)"

definition admission_transient_high_water_bytes :: "AdaptiveRamGrowthGuard \<Rightarrow> usize" where
  "admission_transient_high_water_bytes self =
     max_or_zero (map snd (gg_observed_transient_high_water_bytes_by_context self))"

text \<open>The body of the loop over same-phase observations: the largest scaled-down reserve of the
  forwards at least as large, and the largest unscaled observation of the smaller ones.\<close>

definition keep_larger_reserve ::
  "TransientWorkspaceReserve option \<Rightarrow> TransientWorkspaceReserve \<Rightarrow> TransientWorkspaceReserve option" where
  "keep_larger_reserve best reserve =
     (case best of None \<Rightarrow> Some reserve
      | Some largest \<Rightarrow> Some (if reserve_bytes largest < reserve_bytes reserve then reserve else largest))"

definition keep_larger_observation :: "TransientWorkspaceObservation option \<Rightarrow>
    TransientWorkspaceObservation \<Rightarrow> TransientWorkspaceObservation option" where
  "keep_larger_observation best observation =
     (case best of None \<Rightarrow> Some observation
      | Some largest \<Rightarrow> Some (if obs_high_water_bytes largest < obs_high_water_bytes observation
                               then observation else largest))"

definition reserve_ladder_step :: "usize \<Rightarrow> AdaptiveRamGrowthContext \<times> usize \<Rightarrow>
    TransientWorkspaceReserve option \<times> TransientWorkspaceObservation option \<Rightarrow>
    TransientWorkspaceReserve option \<times> TransientWorkspaceObservation option" where
  "reserve_ladder_step tokens entry best =
     (let observed_tokens = forward_token_count (fst entry);
          observation = \<lparr>obs_high_water_bytes = snd entry, obs_forward_token_count = observed_tokens\<rparr>
      in if observed_tokens < tokens
         then (fst best, keep_larger_observation (snd best) observation)
         else case scaled_down_to observation tokens of
                Some scaled \<Rightarrow> (keep_larger_reserve (fst best) scaled, snd best)
              | None \<Rightarrow> best)"

definition admission_transient_reserve_for_context ::
  "AdaptiveRamGrowthGuard \<Rightarrow> AdaptiveRamGrowthContext \<Rightarrow> usize \<Rightarrow> TransientWorkspaceReserve" where
  "admission_transient_reserve_for_context self c floor_bytes =
     (case map_of (gg_observed_transient_high_water_bytes_by_context self) c of
        Some exact_context_high_water_bytes \<Rightarrow>
          exact_context \<lparr>obs_high_water_bytes = exact_context_high_water_bytes,
                         obs_forward_token_count = forward_token_count c\<rparr>
      | None \<Rightarrow>
          let tokens = forward_token_count c;
              observations = filter (\<lambda>e. memory_phase (fst e) = memory_phase c
                                       \<and> 0 < forward_token_count (fst e))
                               (gg_observed_transient_high_water_bytes_by_context self)
          in case fold (reserve_ladder_step tokens) observations (None, None) of
               (Some scaled, None) \<Rightarrow> scaled
             | (Some scaled, Some smaller) \<Rightarrow> max_with_smaller_unscaled_observation scaled smaller
             | (None, Some smaller) \<Rightarrow>
                 max_with_smaller_unscaled_observation (analytic_floor floor_bytes tokens) smaller
             | (None, None) \<Rightarrow>
                 global_maximum (max (admission_transient_high_water_bytes self) floor_bytes) tokens)"

text \<open>The retained-payload ceiling. The sum \<open>ceiling + ceiling / 100\<close> is the wrapping machine
  addition; every later quantity is signed 128-bit arithmetic on 64-bit operands, which is exact.\<close>

definition hot_expert_retention_ceiling_bytes ::
  "AdaptiveRamGrowthGuard \<Rightarrow> MemoryPhase \<Rightarrow> usize \<Rightarrow> u64 \<Rightarrow> usize \<Rightarrow> u64" where
  "hot_expert_retention_ceiling_bytes self phase current_active_memory_bytes
     current_retained_payload_bytes routed_expert_page_reservation_bytes =
     (let transient_allowance_bytes = gg_active_memory_ceiling_bytes self div 100;
          allowed_active_memory_bytes = gg_active_memory_ceiling_bytes self + transient_allowance_bytes;
          phase_transient_reserve_bytes =
            (if has_completed_growth_observation self phase
             then observed_transient_high_water_bytes self phase
             else admission_transient_high_water_bytes self);
          signed_headroom_bytes = uint allowed_active_memory_bytes - uint current_active_memory_bytes
            - uint phase_transient_reserve_bytes - uint routed_expert_page_reservation_bytes;
          signed_ceiling_bytes = uint current_retained_payload_bytes + signed_headroom_bytes
      in word_of_int (max 0 (min signed_ceiling_bytes (2 ^ 64 - 1))))"

definition project_growth_for_context ::
  "AdaptiveRamGrowthGuard \<Rightarrow> AdaptiveRamGrowthContext \<Rightarrow> usize \<Rightarrow> usize \<Rightarrow> usize \<Rightarrow> usize \<Rightarrow> usize \<Rightarrow>
   AdaptiveRamGrowthGuardError + AdaptiveRamGrowthProjection" where
  "project_growth_for_context self c current growth page workspace floor_bytes =
     (let transient_workspace_reserve = admission_transient_reserve_for_context self c floor_bytes
      in result_bind
           (ok_or (memory_equation_new current growth page workspace transient_workspace_reserve
                     (gg_active_memory_ceiling_bytes self)) MemoryProjectionOverflow)
           (\<lambda>e. Inr (from_memory_equation e)))"

text \<open>The residual a completed forward is remembered by.\<close>

definition observed_transient_growth_bytes ::
  "usize \<Rightarrow> usize \<Rightarrow> usize \<Rightarrow> usize \<Rightarrow> u64 \<Rightarrow> u64 \<Rightarrow> usize" where
  "observed_transient_growth_bytes before after peak workspace retained_growth promoted_stream =
     (let stable_active_memory_bytes = max before after;
          expert_page_bytes_outside_stable_baseline = saturating_sub promoted_stream retained_growth
      in saturating_sub (saturating_sub (saturating_sub peak stable_active_memory_bytes) workspace)
           expert_page_bytes_outside_stable_baseline)"

definition record_completed_growth_excluding_expert_page_stream ::
  "AdaptiveRamGrowthGuard \<Rightarrow> AdaptiveRamGrowthContext \<Rightarrow> bool \<Rightarrow> usize \<Rightarrow> usize \<Rightarrow> usize \<Rightarrow> usize \<Rightarrow>
   u64 \<Rightarrow> u64 \<Rightarrow> AdaptiveRamGrowthGuard" where
  "record_completed_growth_excluding_expert_page_stream self c should_retain_observation
     before after peak workspace retained_growth promoted_stream =
     (if \<not> should_retain_observation then self
      else self\<lparr>gg_observed_transient_high_water_bytes_by_context :=
             bt_entry_max c
               (observed_transient_growth_bytes before after peak workspace retained_growth promoted_stream)
               (gg_observed_transient_high_water_bytes_by_context self)\<rparr>)"

definition record_completed_growth_for_context ::
  "AdaptiveRamGrowthGuard \<Rightarrow> AdaptiveRamGrowthContext \<Rightarrow> bool \<Rightarrow> usize \<Rightarrow> usize \<Rightarrow> usize \<Rightarrow> usize \<Rightarrow>
   AdaptiveRamGrowthGuard" where
  "record_completed_growth_for_context self c should_retain_observation before after peak workspace =
     record_completed_growth_excluding_expert_page_stream self c should_retain_observation
       before after peak workspace 0 0"

section \<open>Specification\<close>

definition guard_wf :: "AdaptiveRamGrowthGuard \<Rightarrow> bool" where
  "guard_wf g \<longleftrightarrow> gg_active_memory_ceiling_bytes g \<noteq> 0
     \<and> bt_invar (gg_observed_transient_high_water_bytes_by_context g)"

text \<open>The documented reserve rule over natural numbers: the exact observation; else the largest of the
  scaled-down covering observations and the unscaled smaller ones; else the floor or a larger
  smaller observation; else the floor or the largest observation of any phase.\<close>

definition covering_values :: "usize \<Rightarrow> (AdaptiveRamGrowthContext, usize) btree_map \<Rightarrow> nat list" where
  "covering_values tokens observations =
     map (\<lambda>e. ceil_div (unat (snd e) * unat tokens) (unat (forward_token_count (fst e))))
       (filter (\<lambda>e. 0 < tokens \<and> tokens \<le> forward_token_count (fst e)) observations)"

definition smaller_values :: "usize \<Rightarrow> (AdaptiveRamGrowthContext, usize) btree_map \<Rightarrow> nat list" where
  "smaller_values tokens observations =
     map (\<lambda>e. unat (snd e)) (filter (\<lambda>e. forward_token_count (fst e) < tokens) observations)"

definition ladder_reference :: "AdaptiveRamGrowthGuard \<Rightarrow> AdaptiveRamGrowthContext \<Rightarrow> usize \<Rightarrow>
    nat \<times> TransientWorkspaceReserveSource" where
  "ladder_reference g c floor_bytes =
     (let m = gg_observed_transient_high_water_bytes_by_context g;
          same = filter (\<lambda>e. memory_phase (fst e) = memory_phase c \<and> 0 < forward_token_count (fst e)) m;
          covering = covering_values (forward_token_count c) same;
          smaller = smaller_values (forward_token_count c) same
      in case map_of m c of
           Some high_water \<Rightarrow> (unat high_water, ExactContext)
         | None \<Rightarrow>
             if covering \<noteq> [] then (max (list_max covering) (list_max smaller), PhaseScaled)
             else if smaller \<noteq> [] then (max (unat floor_bytes) (list_max smaller), BeyondObservedTokenSpan)
             else (max (list_max (map (\<lambda>e. unat (snd e)) m)) (unat floor_bytes), GlobalMaximum))"

text \<open>The operations of a guard's life as data, so that histories are lists. A rejected ceiling
  leaves the guard as it was.\<close>

datatype GuardOperation =
    UpdateCeiling usize
  | RecordGrowth AdaptiveRamGrowthContext bool usize usize usize usize u64 u64

fun run_guard_operation :: "GuardOperation \<Rightarrow> AdaptiveRamGrowthGuard \<Rightarrow> AdaptiveRamGrowthGuard" where
  "run_guard_operation (UpdateCeiling c) g =
     (case update_active_memory_ceiling_bytes g c of Inl _ \<Rightarrow> g | Inr g' \<Rightarrow> g')"
| "run_guard_operation (RecordGrowth c keep before after peak workspace retained promoted) g =
     record_completed_growth_excluding_expert_page_stream g c keep before after peak workspace
       retained promoted"

fun guard_contribution :: "GuardOperation \<Rightarrow> (AdaptiveRamGrowthContext \<times> usize) option" where
  "guard_contribution (UpdateCeiling _) = None"
| "guard_contribution (RecordGrowth c keep before after peak workspace retained promoted) =
     (if keep then Some (c, observed_transient_growth_bytes before after peak workspace retained promoted)
      else None)"

text \<open>The positive ceilings a history asks for, in order.\<close>

fun accepted_ceilings :: "GuardOperation list \<Rightarrow> usize list" where
  "accepted_ceilings [] = []"
| "accepted_ceilings (UpdateCeiling c # ops) = (if c = 0 then [] else [c]) @ accepted_ceilings ops"
| "accepted_ceilings (RecordGrowth _ _ _ _ _ _ _ _ # ops) = accepted_ceilings ops"

definition sample_guard :: AdaptiveRamGrowthGuard where
  "sample_guard =
     \<lparr>gg_active_memory_ceiling_bytes = 1000,
      gg_observed_transient_high_water_bytes_by_context =
        [(prefill_context 64 0 False Paged, 20), (prefill_context 8192 0 False Paged, 800),
         (decode_context 1 Paged, 5)]\<rparr>"

abbreviation guard_evidence :: "AdaptiveRamGrowthGuard \<Rightarrow> AdaptiveRamGrowthContext \<Rightarrow> usize option" where
  "guard_evidence g \<equiv> map_of (gg_observed_transient_high_water_bytes_by_context g)"

section \<open>Lemmas\<close>

lemma guard_new_Inr_iff: "guard_new c = Inr g \<longleftrightarrow> c \<noteq> 0 \<and>
    g = \<lparr>gg_active_memory_ceiling_bytes = c, gg_observed_transient_high_water_bytes_by_context = []\<rparr>"
  by (auto simp: guard_new_def)

lemma guard_new_wf: "guard_new c = Inr g \<Longrightarrow> guard_wf g"
  by (auto simp: guard_new_Inr_iff guard_wf_def btree.invar_empty)

interpretation guard: high_water_learner guard_wf guard_evidence run_guard_operation guard_contribution
proof (unfold_locales, goal_cases)
  case (1 s x)
  then show ?case
    by (cases x) (auto simp: guard_wf_def update_active_memory_ceiling_bytes_def
        record_completed_growth_excluding_expert_page_stream_def)
next
  case (2 s x k)
  then show ?case
    by (cases x) (auto simp: update_active_memory_ceiling_bytes_def
        record_completed_growth_excluding_expert_page_stream_def split: if_splits)
next
  case (3 s x k' v k)
  then show ?case
    by (cases x) (auto simp: guard_wf_def map_of_bt_entry_max opt_max_def
        record_completed_growth_excluding_expert_page_stream_def split: if_splits)
qed

lemma unat_observed_transient_growth:
  "unat (observed_transient_growth_bytes before after peak workspace retained promoted) =
     unat peak - max (unat before) (unat after) - unat workspace - (unat promoted - unat retained)"
  by (simp add: observed_transient_growth_bytes_def Let_def rust_nat)

lemma scaled_step_None:
  "\<lbrakk>0 < n; \<not> n < t\<rbrakk> \<Longrightarrow> scaled_down_to \<lparr>obs_high_water_bytes = h, obs_forward_token_count = n\<rparr> t = None
     \<longleftrightarrow> t = 0"
  by (auto simp: scaled_down_to_None_iff)

lemma covering_values_simps [simp]:
  "covering_values tokens [] = []"
  "covering_values tokens (es @ [e]) = covering_values tokens es
     @ (if 0 < tokens \<and> tokens \<le> forward_token_count (fst e)
        then [ceil_div (unat (snd e) * unat tokens) (unat (forward_token_count (fst e)))] else [])"
  by (simp_all add: covering_values_def)

lemma smaller_values_simps [simp]:
  "smaller_values tokens [] = []"
  "smaller_values tokens (es @ [e]) =
     smaller_values tokens es @ (if forward_token_count (fst e) < tokens then [unat (snd e)] else [])"
  by (simp_all add: smaller_values_def)

lemma reserve_ladder_fold:
  assumes "\<forall>e \<in> set es. 0 < forward_token_count (fst e)"
    and "fold (reserve_ladder_step tokens) es (None, None) = (scaled, smaller)"
  shows "(case scaled of None \<Rightarrow> covering_values tokens es = []
           | Some r \<Rightarrow> covering_values tokens es \<noteq> [] \<and> reserve_source r = PhaseScaled
               \<and> reserve_forward_token_count r = tokens
               \<and> unat (reserve_bytes r) = list_max (covering_values tokens es))
       \<and> (case smaller of None \<Rightarrow> smaller_values tokens es = []
           | Some ob \<Rightarrow> smaller_values tokens es \<noteq> []
               \<and> 0 < obs_forward_token_count ob \<and> obs_forward_token_count ob < tokens
               \<and> unat (obs_high_water_bytes ob) = list_max (smaller_values tokens es))"
  using assms
proof (induction es arbitrary: scaled smaller rule: rev_induct)
  case (snoc e es)
  obtain a b where ab: "fold (reserve_ladder_step tokens) es (None, None) = (a, b)" by fastforce
  have pos: "\<forall>e \<in> set es. 0 < forward_token_count (fst e)" "0 < forward_token_count (fst e)"
    using snoc.prems(1) by auto
  have last: "reserve_ladder_step tokens e (a, b) = (scaled, smaller)"
    using snoc.prems(2) ab by simp
  note IH = snoc.IH [OF pos(1) ab]
  show ?case
  proof (cases "forward_token_count (fst e) < tokens")
    case True
    with last have "scaled = a" "smaller = keep_larger_observation b
        \<lparr>obs_high_water_bytes = snd e, obs_forward_token_count = forward_token_count (fst e)\<rparr>"
      by (auto simp: reserve_ladder_step_def Let_def)
    with IH True pos(2) show ?thesis
      by (cases a; cases b) (auto simp: keep_larger_observation_def word_less_nat_alt word_le_nat_alt)
  next
    case False
    show ?thesis
    proof (cases "scaled_down_to \<lparr>obs_high_water_bytes = snd e,
                    obs_forward_token_count = forward_token_count (fst e)\<rparr> tokens")
      case None
      with False pos(2) have "tokens = 0" by (simp add: scaled_step_None)
      with last None False IH show ?thesis
        by (cases a; cases b) (auto simp: reserve_ladder_step_def Let_def)
    next
      case (Some r)
      with last False have "smaller = b" "scaled = keep_larger_reserve a r"
        by (auto simp: reserve_ladder_step_def Let_def)
      with IH False Some show ?thesis
        by (cases a; cases b)
           (auto simp: keep_larger_reserve_def scaled_down_to_Some_iff word_less_nat_alt word_le_nat_alt)
    qed
  qed
qed simp

lemma max_with_smaller_fields:
  assumes "0 < obs_forward_token_count ob" "obs_forward_token_count ob < reserve_forward_token_count r"
  shows "unat (reserve_bytes (max_with_smaller_unscaled_observation r ob)) =
           max (unat (reserve_bytes r)) (unat (obs_high_water_bytes ob))"
    and "reserve_source (max_with_smaller_unscaled_observation r ob) = reserve_source r"
    and "reserve_forward_token_count (max_with_smaller_unscaled_observation r ob) =
           reserve_forward_token_count r"
  using assms by (simp_all add: max_with_smaller_unscaled_observation_def word_less_nat_alt)

lemma unat_admission_high_water:
  "unat (admission_transient_high_water_bytes g) =
     list_max (map (\<lambda>e. unat (snd e)) (gg_observed_transient_high_water_bytes_by_context g))"
  by (simp add: admission_transient_high_water_bytes_def unat_max_or_zero comp_def)

lemma unat_phase_high_water:
  "unat (observed_transient_high_water_bytes g p) =
     list_max (map (\<lambda>e. unat (snd e)) (filter (\<lambda>e. memory_phase (fst e) = p)
       (gg_observed_transient_high_water_bytes_by_context g)))"
  by (simp add: observed_transient_high_water_bytes_def unat_max_or_zero comp_def)

text \<open>The loop computes the documented rule.\<close>

lemma reserve_ladder_eq_reference:
  "(unat (reserve_bytes (admission_transient_reserve_for_context g c f)),
    reserve_source (admission_transient_reserve_for_context g c f)) = ladder_reference g c f
   \<and> reserve_forward_token_count (admission_transient_reserve_for_context g c f) = forward_token_count c"
proof (cases "guard_evidence g c")
  case (Some h)
  then show ?thesis
    by (simp add: admission_transient_reserve_for_context_def ladder_reference_def exact_context_def)
next
  case None
  define same where "same = filter (\<lambda>e. memory_phase (fst e) = memory_phase c
    \<and> 0 < forward_token_count (fst e)) (gg_observed_transient_high_water_bytes_by_context g)"
  obtain a b where ab: "fold (reserve_ladder_step (forward_token_count c)) same (None, None) = (a, b)"
    by fastforce
  have pos: "\<forall>e \<in> set same. 0 < forward_token_count (fst e)" by (simp add: same_def)
  note facts = reserve_ladder_fold [OF pos ab]
  show ?thesis
    using facts None ab
    by (cases a; cases b)
       (simp_all add: admission_transient_reserve_for_context_def ladder_reference_def Let_def
          same_def [symmetric] max_with_smaller_fields analytic_floor_def global_maximum_def
          unat_admission_high_water unat_max)
qed

lemma covering_values_le:
  "list_max (covering_values tokens es) \<le> list_max (map (\<lambda>e. unat (snd e)) es)"
proof -
  have "ceil_div (unat (snd e) * unat tokens) (unat (forward_token_count (fst e))) \<le> unat (snd e)"
    if "0 < tokens" "tokens \<le> forward_token_count (fst e)" for e
    using that by (intro ceil_proportion_le) (auto simp: word_less_nat_alt word_le_nat_alt)
  then show ?thesis unfolding covering_values_def by (intro list_max_map_mono) auto
qed

lemma smaller_values_le: "list_max (smaller_values tokens es) \<le> list_max (map (\<lambda>e. unat (snd e)) es)"
  unfolding smaller_values_def by (rule list_max_map_mono) auto

lemma list_max_filter_mono:
  "(\<And>e. P e \<Longrightarrow> Q e) \<Longrightarrow> list_max (map f (filter P es)) \<le> list_max (map f (filter Q es))"
  by (rule list_max_map_mono) auto

lemma evidence_le_phase_high_water:
  "guard_evidence g c = Some h \<Longrightarrow> h \<le> observed_transient_high_water_bytes g (memory_phase c)"
  unfolding observed_transient_high_water_bytes_def
  by (rule max_or_zero_ge) (auto dest!: map_of_SomeD simp: image_iff)

lemma accepted_ceilings_last:
  "gg_active_memory_ceiling_bytes (fold run_guard_operation ops g) =
     last (gg_active_memory_ceiling_bytes g # accepted_ceilings ops)"
proof (induction ops arbitrary: g)
  case (Cons x ops)
  show ?case
    by (cases x) (simp_all add: Cons.IH update_active_memory_ceiling_bytes_def
        record_completed_growth_excluding_expert_page_stream_def)
qed simp

section \<open>Properties\<close>

text \<open>C3. The loop that resolves a forward's transient reserve computes the documented ladder: the exact
  observation; else the largest covering observation scaled down (rounded up) together with every
  smaller one unscaled; else the caller's floor or a larger smaller observation; else the floor or
  the largest window of any phase. The reserve is always for the forward's own token count.\<close>

theorem reserve_ladder_correct:
  "(unat (reserve_bytes (admission_transient_reserve_for_context g c f)),
    reserve_source (admission_transient_reserve_for_context g c f)) = ladder_reference g c f
   \<and> reserve_forward_token_count (admission_transient_reserve_for_context g c f) = forward_token_count c"
  by (rule reserve_ladder_eq_reference)

text \<open>Evidence is never scaled up: a reserve taken from the forward's own phase never exceeds the
  largest window that phase was measured at, whatever the floor; no reserve exceeds both the floor
  and every window ever measured; and a context without exact evidence never gets less than a
  smaller forward of its phase was measured at.\<close>

lemma reserve_never_scaled_up:
  fixes g c f
  defines "r \<equiv> admission_transient_reserve_for_context g c f"
  shows "(reserve_source r \<in> {ExactContext, PhaseScaled} \<longrightarrow>
            reserve_bytes r \<le> observed_transient_high_water_bytes g (memory_phase c))
     \<and> reserve_bytes r \<le> max (admission_transient_high_water_bytes g) f
     \<and> (\<forall>d h. guard_evidence g c = None \<and> (d, h) \<in> set (gg_observed_transient_high_water_bytes_by_context g)
           \<and> memory_phase d = memory_phase c \<and> 0 < forward_token_count d
           \<and> forward_token_count d < forward_token_count c \<longrightarrow> h \<le> reserve_bytes r)"
proof -
  let ?m = "gg_observed_transient_high_water_bytes_by_context g"
  let ?t = "forward_token_count c"
  define same where "same = filter (\<lambda>e. memory_phase (fst e) = memory_phase c
    \<and> 0 < forward_token_count (fst e)) ?m"
  have ref: "ladder_reference g c f = (unat (reserve_bytes r), reserve_source r)"
    using reserve_ladder_eq_reference [of g c f] by (simp add: r_def)
  have cov: "list_max (covering_values ?t same) \<le> unat (observed_transient_high_water_bytes g (memory_phase c))"
    and small: "list_max (smaller_values ?t same) \<le> unat (observed_transient_high_water_bytes g (memory_phase c))"
    using covering_values_le [of ?t same] smaller_values_le [of ?t same]
      list_max_filter_mono [of "\<lambda>e. memory_phase (fst e) = memory_phase c \<and> 0 < forward_token_count (fst e)"
        "\<lambda>e. memory_phase (fst e) = memory_phase c" "\<lambda>e. unat (snd e)" ?m]
    unfolding same_def unat_phase_high_water by force+
  have phase: "unat (observed_transient_high_water_bytes g p) \<le> unat (admission_transient_high_water_bytes g)" for p
    unfolding unat_phase_high_water unat_admission_high_water
    by (rule list_max_map_mono) auto
  have "reserve_source r \<in> {ExactContext, PhaseScaled} \<Longrightarrow>
      reserve_bytes r \<le> observed_transient_high_water_bytes g (memory_phase c)"
    using ref cov small evidence_le_phase_high_water [of g c]
    by (auto simp: ladder_reference_def Let_def same_def [symmetric] word_le_nat_alt
        split: option.splits if_splits)
  moreover have "reserve_bytes r \<le> max (admission_transient_high_water_bytes g) f"
    using ref cov small phase [of "memory_phase c"] evidence_le_phase_high_water [of g c]
    by (auto simp: ladder_reference_def Let_def same_def [symmetric] word_le_nat_alt unat_max
        unat_admission_high_water [symmetric] split: option.splits if_splits)
  moreover have "h \<le> reserve_bytes r"
    if none: "guard_evidence g c = None" and dh: "(d, h) \<in> set ?m" "memory_phase d = memory_phase c"
      "0 < forward_token_count d" "forward_token_count d < ?t" for d h
  proof -
    have "unat h \<in> set (smaller_values ?t same)"
      using dh by (force simp: smaller_values_def same_def)
    then have "smaller_values ?t same \<noteq> []" "unat h \<le> list_max (smaller_values ?t same)"
      by (auto intro: list_max_ge)
    with ref none show ?thesis
      by (auto simp: ladder_reference_def Let_def same_def [symmetric] word_le_nat_alt split: if_splits)
  qed
  ultimately show ?thesis by blast
qed

text \<open>C4. After any sequence of completed forwards and ceiling changes, the guard is well formed, its
  ceiling is the last positive one requested, and the evidence of a context is exactly the largest
  residual of the forwards of that context that were marked to be retained (none without one).\<close>

theorem guard_history_exact:
  assumes "guard_new initial_ceiling = Inr g0"
  defines "g \<equiv> \<lambda>ops. fold run_guard_operation ops g0"
  shows "guard_wf (g ops)
     \<and> gg_active_memory_ceiling_bytes (g ops) = last (initial_ceiling # accepted_ceilings ops)
     \<and> (guard_evidence (g ops) c = Some v \<longleftrightarrow>
          (\<exists>op \<in> set ops. guard_contribution op = Some (c, v))
          \<and> (\<forall>op \<in> set ops. \<forall>w. guard_contribution op = Some (c, w) \<longrightarrow> w \<le> v))
     \<and> (guard_evidence (g ops) c = None \<longleftrightarrow>
          (\<forall>op \<in> set ops. \<forall>w. guard_contribution op \<noteq> Some (c, w)))"
proof -
  have wf: "guard_wf g0" and none: "guard_evidence g0 c = None"
    and start: "gg_active_memory_ceiling_bytes g0 = initial_ceiling"
    using guard_new_wf [OF assms(1)] assms(1) by (auto simp: guard_new_Inr_iff)
  show ?thesis
    unfolding g_def
    using guard.invar_history [OF wf] accepted_ceilings_last [of ops g0]
      guard.evidence_is_maximum [OF wf none] guard.evidence_None_iff [OF wf none] start
    by simp
qed

theorem guard_history_exact_witness:
  "\<exists>g0. guard_new 1000 = Inr g0 \<and>
     gg_active_memory_ceiling_bytes (fold run_guard_operation
       [RecordGrowth (decode_context 1 Paged) True 100 110 150 4 0 0, UpdateCeiling 0, UpdateCeiling 2000,
        RecordGrowth (decode_context 1 Paged) True 100 110 130 4 0 0] g0) = 2000
     \<and> guard_evidence (fold run_guard_operation
       [RecordGrowth (decode_context 1 Paged) True 100 110 150 4 0 0, UpdateCeiling 0, UpdateCeiling 2000,
        RecordGrowth (decode_context 1 Paged) True 100 110 130 4 0 0] g0) (decode_context 1 Paged) = Some 36"
proof -
  let ?ops = "[RecordGrowth (decode_context 1 Paged) True 100 110 150 4 0 0, UpdateCeiling 0, UpdateCeiling 2000,
        RecordGrowth (decode_context 1 Paged) True 100 110 130 4 0 0]"
  obtain g0 where g0: "guard_new 1000 = Inr g0" by (simp add: guard_new_def)
  have residuals: "observed_transient_growth_bytes 100 110 150 4 0 0 = 36"
    "observed_transient_growth_bytes 100 110 130 4 0 0 = 16"
    by code_simp+
  have "(16 :: usize) \<le> 36" by (simp add: word_le_nat_alt)
  then show ?thesis
    using guard_history_exact [OF g0, of ?ops "decode_context 1 Paged" 36] g0 residuals by simp
qed

text \<open>C5. What was measured once is covered the next time: after a retained observation, projecting the
  same context from the same stable memory with the same explicit workspace (and the bytes that
  were streamed and evicted as the page reservation) either overflows the machine word or reaches
  at least the peak that was measured, whatever floor the caller passes.\<close>

theorem learned_reserve_covers_repeat:
  assumes "guard_wf g"
  shows "case project_growth_for_context
           (record_completed_growth_excluding_expert_page_stream g c True before after peak workspace
              retained promoted)
           c (max before after) 0 (saturating_sub promoted retained) workspace f of
           Inl e \<Rightarrow> e = MemoryProjectionOverflow
         | Inr p \<Rightarrow> peak \<le> me_peak_projected_bytes (memory_equation p)"
proof -
  define g' where "g' = record_completed_growth_excluding_expert_page_stream g c True before after peak
    workspace retained promoted"
  define residual where "residual = observed_transient_growth_bytes before after peak workspace retained promoted"
  obtain h where h: "guard_evidence g' c = Some h" "residual \<le> h"
    using assms bt_entry_max_recorded [of _ c residual]
    by (auto simp: g'_def residual_def record_completed_growth_excluding_expert_page_stream_def guard_wf_def)
  let ?r = "admission_transient_reserve_for_context g' c f"
  have r: "reserve_bytes ?r = h"
    using h(1) by (simp add: admission_transient_reserve_for_context_def exact_context_def)
  let ?eq = "memory_equation_new (max before after) 0 (saturating_sub promoted retained) workspace ?r
    (gg_active_memory_ceiling_bytes g')"
  show ?thesis
  proof (cases ?eq)
    case (Some e)
    note fields = memory_equation_new_fields [OF Some]
    have "unat peak \<le> unat (me_peak_projected_bytes e)"
      using h(2) fields(7)
      unfolding memory_equation_wf_def fields(1-6) r
      by (simp add: residual_def word_le_nat_alt unat_observed_transient_growth unat_max unat_saturating_sub)
    then show ?thesis
      using Some by (simp add: g'_def [symmetric] project_growth_for_context_def from_memory_equation_def
          word_le_nat_alt)
  qed (simp add: g'_def [symmetric] project_growth_for_context_def)
qed

theorem learned_reserve_covers_repeat_witness:
  "case project_growth_for_context
       (record_completed_growth_excluding_expert_page_stream sample_guard (decode_context 1 Paged) True
          100 110 190 4 6 16)
       (decode_context 1 Paged) (max 100 110) 0 (saturating_sub 16 6) 4 0 of
     Inl e \<Rightarrow> e = MemoryProjectionOverflow
   | Inr p \<Rightarrow> 190 \<le> me_peak_projected_bytes (memory_equation p)"
proof -
  have "guard_wf sample_guard" by code_simp
  from learned_reserve_covers_repeat [OF this, where c = "decode_context 1 Paged" and before = 100
      and after = 110 and peak = 190 and workspace = 4 and retained = 6 and promoted = 16 and f = 0]
  show ?thesis .
qed

text \<open>The retention ceiling for warming is exact: unless the sum of the memory ceiling and its
  one-percent allowance wraps, moving the retained payload from its current size to any positive
  size keeps active memory, the learned reserve of the phase and one routed page within that
  allowance if and only if the size is at most the ceiling, for growth and for reclamation alike.\<close>

lemma hot_expert_ceiling_exact:
  fixes g phase active retained page
  defines "allowed \<equiv> uint (gg_active_memory_ceiling_bytes g) + uint (gg_active_memory_ceiling_bytes g) div 100"
    and "reserve \<equiv> uint (if has_completed_growth_observation g phase
                           then observed_transient_high_water_bytes g phase
                           else admission_transient_high_water_bytes g)"
  assumes "allowed < 2 ^ 64" and "0 < target"
  shows "uint active + (uint target - uint retained) + reserve + uint page \<le> allowed \<longleftrightarrow>
     target \<le> hot_expert_retention_ceiling_bytes g phase active retained page"
proof -
  let ?c = "gg_active_memory_ceiling_bytes g"
  define s where "s = uint retained + (allowed - uint active - reserve - uint page)"
  have sum: "uint (?c + ?c div 100) = allowed"
    using assms(3) unfolding allowed_def
    by (subst uint_add_lem [THEN iffD1]) (simp_all add: uint_div)
  have t: "0 < uint target" "uint target < 2 ^ 64"
    using assms(4) unsigned_less [of target, where ?'a = int]
    by (auto simp: word_less_def)
  have "hot_expert_retention_ceiling_bytes g phase active retained page =
      word_of_int (max 0 (min s (2 ^ 64 - 1)))"
    unfolding hot_expert_retention_ceiling_bytes_def Let_def sum s_def reserve_def by (rule refl)
  then have "uint (hot_expert_retention_ceiling_bytes g phase active retained page) =
      max 0 (min s (2 ^ 64 - 1))"
    by (simp add: unsigned_of_int take_bit_int_eq_self_iff)
  with t show ?thesis
    unfolding word_le_def s_def by linarith
qed

end
