(* ===== verification/Ram_Budget.thy ===== *)
theory Ram_Budget
  imports Growth_Guard
begin

text \<open>
  \<^verbatim>\<open>budget/ram.rs\<close>, \<^verbatim>\<open>ram_activation.rs\<close>, \<^verbatim>\<open>ram_geometry.rs\<close>, \<^verbatim>\<open>ram_values.rs\<close>,
  \<^verbatim>\<open>prefill_stream_slot.rs\<close> and \<^verbatim>\<open>geometry_floor.rs\<close>: the owner of the RAM split. It composes the
  fixed owners of a planned operation (model core, context reserve, activation headroom, stream
  slot) and leaves the rest to retained experts; it learns context overhead and activation from
  live measurements. Three interpretations of the high-water learner (prefill buckets, decode
  window, context overhead) carry the learning properties.
\<close>

section \<open>Values\<close>

record MlxRamBudgetModelGeometry =
  geo_model_core_payload_bytes :: u64
  geo_complete_expert_payload_bytes :: u64
  geo_largest_complete_expert_layer_bytes :: u64
  geo_largest_routed_expert_page_bytes :: u64
  geo_sequence_state_bytes_per_token :: u64

record MlxRamBudgetSnapshot =
  snap_mlx_active_memory_ceiling_bytes :: u64
  snap_model_core_payload_bytes :: u64
  snap_context_window_reserve_bytes :: u64
  snap_activation_headroom_bytes :: u64
  snap_complete_layer_stream_slot_bytes :: u64
  snap_other_fixed_bytes :: u64
  snap_retained_expert_budget_bytes :: u64

record MlxRamBudgetMeasurement =
  meas_phase :: MemoryPhase
  meas_forward_token_count :: u64
  meas_context_and_activation_bytes :: u64
  meas_observed_activation_headroom_bytes :: u64
  meas_exact_temporary_workspace_bytes :: u64

datatype MlxRamBudgetError = InvalidCeiling

record MlxRamBudget =
  rb_mlx_active_memory_ceiling_bytes :: u64
  rb_model_geometry :: MlxRamBudgetModelGeometry
  rb_bootstrap_context_window_reserve_bytes :: u64
  rb_measured_context_overhead_high_water_bytes :: u64
  rb_prefill_activation_high_water_by_token_bucket :: "(u64, u64) btree_map"
  rb_decode_activation_headroom_bytes :: u64
  rb_has_prefill_activation_measurement :: bool
  rb_has_decode_activation_measurement :: bool
  rb_has_context_window_measurement :: bool
  rb_prefill_complete_layer_stream_slot_bytes :: "u64 option"
  rb_diagnostic_prefill_activation_floor_bytes :: "u64 option"

section \<open>Geometry from measured layers (ram\_geometry.rs, geometry\_floor.rs)\<close>

datatype RamBudgetGeometryError = NotSparseMixtureOfExperts | ExpertPayloadOverflow

record MeasuredExpertLayerPayload =
  layer_complete_payload_bytes :: u64
  layer_expert_capacity :: usize

definition largest_routed_expert_page_bytes ::
  "MeasuredExpertLayerPayload list \<Rightarrow> usize \<Rightarrow> RamBudgetGeometryError + u64" where
  "largest_routed_expert_page_bytes measured_layer_payloads experts_per_token =
     try_fold (\<lambda>largest_page_bytes layer_payload.
       let routed_expert_count = min experts_per_token (layer_expert_capacity layer_payload);
           routed_page_bytes = saturating_mul (ucast (layer_complete_payload_bytes layer_payload) :: u128)
             (ucast routed_expert_count);
           expert_capacity = (ucast (max (layer_expert_capacity layer_payload) 1) :: u128);
           routed_page_bytes_ceiling =
             saturating_add routed_page_bytes (expert_capacity - 1) div expert_capacity
       in Inr (max largest_page_bytes
            (case u64_try_from_u128 routed_page_bytes_ceiling of Some b \<Rightarrow> b | None \<Rightarrow> max_value)))
       0 measured_layer_payloads"

definition mlx_ram_budget_model_geometry_from_measured_layer_facts ::
  "MeasuredExpertLayerPayload list \<Rightarrow> u64 \<Rightarrow> usize \<Rightarrow> u64 \<Rightarrow>
   RamBudgetGeometryError + (MlxRamBudgetModelGeometry \<times> u64)" where
  "mlx_ram_budget_model_geometry_from_measured_layer_facts measured_layer_payloads
     total_model_payload_bytes experts_per_token complete_residency_transient_bytes =
     result_bind
       (try_fold (\<lambda>(complete_bytes, largest_bytes) layer_payload.
          result_bind (ok_or (checked_add complete_bytes (layer_complete_payload_bytes layer_payload))
                         ExpertPayloadOverflow)
            (\<lambda>complete_bytes'. Inr (complete_bytes',
               max largest_bytes (layer_complete_payload_bytes layer_payload))))
          (0, 0) measured_layer_payloads)
       (\<lambda>(complete_expert_payload_bytes, largest_complete_expert_layer_bytes).
          if complete_expert_payload_bytes = 0 then Inl NotSparseMixtureOfExperts
          else result_bind (largest_routed_expert_page_bytes measured_layer_payloads experts_per_token)
            (\<lambda>page_bytes. Inr
               (\<lparr>geo_model_core_payload_bytes =
                   saturating_sub total_model_payload_bytes complete_expert_payload_bytes,
                 geo_complete_expert_payload_bytes = complete_expert_payload_bytes,
                 geo_largest_complete_expert_layer_bytes = largest_complete_expert_layer_bytes,
                 geo_largest_routed_expert_page_bytes = page_bytes,
                 geo_sequence_state_bytes_per_token = 0\<rparr>,
                required_complete_residency_activation_headroom_bytes
                  complete_residency_transient_bytes 0)))"

definition GEOMETRY_FLOOR_BOOTSTRAP_CONTEXT_RESERVE_BYTES :: u64 where
  "GEOMETRY_FLOOR_BOOTSTRAP_CONTEXT_RESERVE_BYTES = 1000000000"

definition geometry_safe_minimum_mlx_memory_ceiling_bytes :: "MlxRamBudgetModelGeometry \<Rightarrow> u64" where
  "geometry_safe_minimum_mlx_memory_ceiling_bytes model_geometry =
     saturating_add (saturating_add (saturating_add (geo_model_core_payload_bytes model_geometry)
         GEOMETRY_FLOOR_BOOTSTRAP_CONTEXT_RESERVE_BYTES)
       (geo_largest_complete_expert_layer_bytes model_geometry))
       (geo_largest_routed_expert_page_bytes model_geometry)"

section \<open>Construction and configuration (ram.rs)\<close>

definition BOOTSTRAP_CONTEXT_WINDOW_RESERVE_BYTES :: u64 where
  "BOOTSTRAP_CONTEXT_WINDOW_RESERVE_BYTES = 1073741824"

definition CONTEXT_TOKEN_BUCKET_WIDTH :: u64 where
  "CONTEXT_TOKEN_BUCKET_WIDTH = 1024"

definition CONTEXT_WINDOW_MEASUREMENT_SAFETY_BUFFER_BYTES :: u64 where
  "CONTEXT_WINDOW_MEASUREMENT_SAFETY_BUFFER_BYTES = 64000000"

definition set_prefill_complete_layer_stream_slot_bytes :: "MlxRamBudget \<Rightarrow> u64 \<Rightarrow> MlxRamBudget" where
  "set_prefill_complete_layer_stream_slot_bytes self stream_slot_bytes =
     self\<lparr>rb_prefill_complete_layer_stream_slot_bytes := Some stream_slot_bytes\<rparr>"

definition set_diagnostic_prefill_activation_floor_bytes :: "MlxRamBudget \<Rightarrow> u64 \<Rightarrow> MlxRamBudget" where
  "set_diagnostic_prefill_activation_floor_bytes self floor_bytes =
     self\<lparr>rb_diagnostic_prefill_activation_floor_bytes := Some floor_bytes\<rparr>"

definition prefill_complete_layer_stream_slot_bytes :: "MlxRamBudget \<Rightarrow> u64" where
  "prefill_complete_layer_stream_slot_bytes self =
     max (case rb_prefill_complete_layer_stream_slot_bytes self of
            Some bytes \<Rightarrow> bytes
          | None \<Rightarrow> geo_largest_complete_expert_layer_bytes (rb_model_geometry self))
         (geo_largest_complete_expert_layer_bytes (rb_model_geometry self))"

definition with_bootstrap_context_window_reserve_bytes ::
  "u64 \<Rightarrow> MlxRamBudgetModelGeometry \<Rightarrow> u64 \<Rightarrow> MlxRamBudgetError + MlxRamBudget" where
  "with_bootstrap_context_window_reserve_bytes ceiling_bytes model_geometry bootstrap_bytes =
     (if ceiling_bytes = 0 then Inl InvalidCeiling
      else Inr \<lparr>rb_mlx_active_memory_ceiling_bytes = ceiling_bytes,
                rb_model_geometry = model_geometry,
                rb_bootstrap_context_window_reserve_bytes = bootstrap_bytes,
                rb_measured_context_overhead_high_water_bytes = 0,
                rb_prefill_activation_high_water_by_token_bucket = [],
                rb_decode_activation_headroom_bytes = 0,
                rb_has_prefill_activation_measurement = False,
                rb_has_decode_activation_measurement = False,
                rb_has_context_window_measurement = False,
                rb_prefill_complete_layer_stream_slot_bytes = None,
                rb_diagnostic_prefill_activation_floor_bytes = None\<rparr>)"

definition ram_budget_new :: "u64 \<Rightarrow> MlxRamBudgetModelGeometry \<Rightarrow> MlxRamBudgetError + MlxRamBudget" where
  "ram_budget_new ceiling_bytes model_geometry =
     with_bootstrap_context_window_reserve_bytes ceiling_bytes model_geometry
       BOOTSTRAP_CONTEXT_WINDOW_RESERVE_BYTES"

definition update_mlx_active_memory_ceiling_bytes ::
  "MlxRamBudget \<Rightarrow> u64 \<Rightarrow> MlxRamBudgetError + MlxRamBudget" where
  "update_mlx_active_memory_ceiling_bytes self ceiling_bytes =
     (if ceiling_bytes = 0 then Inl InvalidCeiling
      else let self' =
             (if ceiling_bytes \<noteq> rb_mlx_active_memory_ceiling_bytes self
              then self\<lparr>rb_has_prefill_activation_measurement := False,
                        rb_prefill_activation_high_water_by_token_bucket := [],
                        rb_has_decode_activation_measurement := False,
                        rb_decode_activation_headroom_bytes := 0\<rparr>
              else self)
           in Inr (self'\<lparr>rb_mlx_active_memory_ceiling_bytes := ceiling_bytes\<rparr>))"

definition context_token_bucket :: "u64 \<Rightarrow> u64" where
  "context_token_bucket context_token_count = context_token_count div CONTEXT_TOKEN_BUCKET_WIDTH"

definition projected_sequence_state :: "MlxRamBudget \<Rightarrow> u64 \<Rightarrow> u64" where
  "projected_sequence_state self token_count =
     saturating_mul token_count (geo_sequence_state_bytes_per_token (rb_model_geometry self))"

definition context_window_reserve_bytes :: "MlxRamBudget \<Rightarrow> u64 \<Rightarrow> u64" where
  "context_window_reserve_bytes self context_token_count =
     (let projected_sequence_state_bytes = projected_sequence_state self context_token_count
      in if \<not> rb_has_context_window_measurement self
         then max (rb_bootstrap_context_window_reserve_bytes self) projected_sequence_state_bytes
         else saturating_add
                (saturating_add projected_sequence_state_bytes
                   (rb_measured_context_overhead_high_water_bytes self))
                CONTEXT_WINDOW_MEASUREMENT_SAFETY_BUFFER_BYTES)"

section \<open>Learning (ram.rs)\<close>

definition record_context_state_payload :: "MlxRamBudget \<Rightarrow> u64 \<Rightarrow> u64 \<Rightarrow> MlxRamBudget" where
  "record_context_state_payload self context_token_count context_state_payload_bytes =
     self\<lparr>rb_has_context_window_measurement := True,
          rb_measured_context_overhead_high_water_bytes :=
            max (rb_measured_context_overhead_high_water_bytes self)
                (saturating_sub context_state_payload_bytes
                   (projected_sequence_state self context_token_count))\<rparr>"

definition record_measurement :: "MlxRamBudget \<Rightarrow> MlxRamBudgetMeasurement \<Rightarrow> MlxRamBudget" where
  "record_measurement self m =
     (let measured_persistent_context_bytes =
            saturating_sub (saturating_sub (meas_context_and_activation_bytes m)
                (meas_observed_activation_headroom_bytes m))
              (meas_exact_temporary_workspace_bytes m);
          overhead_beyond_projection_bytes =
            saturating_sub measured_persistent_context_bytes
              (projected_sequence_state self (meas_forward_token_count m));
          self' = self\<lparr>rb_has_context_window_measurement := True,
                      rb_measured_context_overhead_high_water_bytes :=
                        max (rb_measured_context_overhead_high_water_bytes self)
                          overhead_beyond_projection_bytes\<rparr>
      in case meas_phase m of
           Prefill \<Rightarrow>
             self'\<lparr>rb_has_prefill_activation_measurement := True,
                   rb_prefill_activation_high_water_by_token_bucket :=
                     bt_entry_max (context_token_bucket (meas_forward_token_count m))
                       (meas_observed_activation_headroom_bytes m)
                       (rb_prefill_activation_high_water_by_token_bucket self')\<rparr>
         | GenerationPreparation \<Rightarrow>
             self'\<lparr>rb_has_decode_activation_measurement := True,
                   rb_decode_activation_headroom_bytes :=
                     max (rb_decode_activation_headroom_bytes self')
                       (meas_observed_activation_headroom_bytes m)\<rparr>
         | Decode \<Rightarrow>
             self'\<lparr>rb_has_decode_activation_measurement := True,
                   rb_decode_activation_headroom_bytes :=
                     max (rb_decode_activation_headroom_bytes self')
                       (meas_observed_activation_headroom_bytes m)\<rparr>
         | Idle \<Rightarrow> self')"

section \<open>Activation headroom (ram\_activation.rs)\<close>

definition learned_prefill_activation_headroom_bytes :: "MlxRamBudget \<Rightarrow> u64 \<Rightarrow> u64" where
  "learned_prefill_activation_headroom_bytes self operation_token_count =
     max_or_zero (map snd (bt_range_to (context_token_bucket operation_token_count)
       (rb_prefill_activation_high_water_by_token_bucket self)))"

definition prefill_activation_global_high_water_bytes :: "MlxRamBudget \<Rightarrow> u64" where
  "prefill_activation_global_high_water_bytes self =
     max_or_zero (map snd (rb_prefill_activation_high_water_by_token_bucket self))"

definition phase_activation_headroom_bytes :: "MlxRamBudget \<Rightarrow> MemoryPhase \<Rightarrow> u64 \<Rightarrow> u64" where
  "phase_activation_headroom_bytes self phase operation_token_count =
     (let decode_headroom =
            (if rb_has_decode_activation_measurement self
             then rb_decode_activation_headroom_bytes self
             else if rb_has_prefill_activation_measurement self
             then required_complete_residency_activation_headroom_bytes
                    (geo_largest_complete_expert_layer_bytes (rb_model_geometry self))
                    (prefill_activation_global_high_water_bytes self)
             else required_complete_residency_activation_headroom_bytes
                    (geo_largest_complete_expert_layer_bytes (rb_model_geometry self)) 0)
      in case phase of
           Prefill \<Rightarrow>
             required_complete_residency_activation_headroom_bytes
               (case rb_diagnostic_prefill_activation_floor_bytes self of
                  Some floor_bytes \<Rightarrow> floor_bytes
                | None \<Rightarrow> saturating_mul
                            (geo_largest_complete_expert_layer_bytes (rb_model_geometry self)) 3)
               (learned_prefill_activation_headroom_bytes self operation_token_count)
         | GenerationPreparation \<Rightarrow> decode_headroom
         | Decode \<Rightarrow> decode_headroom
         | Idle \<Rightarrow> 0)"

definition activation_headroom_bytes :: "MlxRamBudget \<Rightarrow> MemoryPhase \<Rightarrow> u64 \<Rightarrow> u64" where
  "activation_headroom_bytes self phase operation_token_count =
     min (phase_activation_headroom_bytes self phase operation_token_count)
         (saturating_sub (rb_mlx_active_memory_ceiling_bytes self)
            (geo_model_core_payload_bytes (rb_model_geometry self)))"

definition adaptive_growth_unobserved_scope_transient_floor_bytes ::
  "MlxRamBudget \<Rightarrow> AdaptiveRamGrowthContext \<Rightarrow> usize" where
  "adaptive_growth_unobserved_scope_transient_floor_bytes self c =
     (case memory_phase c of
        Prefill \<Rightarrow> activation_headroom_bytes self Prefill (forward_token_count c)
      | _ \<Rightarrow> 0)"

section \<open>Composition of a plan (ram.rs, prefill\_stream\_slot.rs)\<close>

definition prefill_stream_slot_bytes_after_full_fit :: "u64 \<Rightarrow> u64 \<Rightarrow> u64 \<Rightarrow> u64 \<Rightarrow> u64" where
  "prefill_stream_slot_bytes_after_full_fit ceiling_bytes fixed_bytes_without_stream_slot
     complete_expert_payload_bytes stream_slot_bytes =
     (let expert_budget_without_stream_slot =
            saturating_sub ceiling_bytes fixed_bytes_without_stream_slot
      in if 0 < complete_expert_payload_bytes
            \<and> complete_expert_payload_bytes \<le> expert_budget_without_stream_slot
         then 0 else stream_slot_bytes)"

definition context_admission_workspace_snapshot ::
  "MlxRamBudget \<Rightarrow> u64 \<Rightarrow> u64 \<Rightarrow> u64 \<Rightarrow> u64 \<Rightarrow> MlxRamBudgetSnapshot" where
  "context_admission_workspace_snapshot self total_context_tokens planned_prefill_operation_token_count
     restore_overlap_workspace_bytes direct_publication_workspace_bytes =
     (let context_reserve = context_window_reserve_bytes self total_context_tokens;
          activation = activation_headroom_bytes self Prefill planned_prefill_operation_token_count;
          slot = prefill_complete_layer_stream_slot_bytes self;
          fixed_non_expert_bytes =
            saturating_add
              (saturating_add
                (saturating_add
                  (saturating_add (geo_model_core_payload_bytes (rb_model_geometry self)) context_reserve)
                  activation)
                slot)
              (saturating_add restore_overlap_workspace_bytes direct_publication_workspace_bytes)
      in \<lparr>snap_mlx_active_memory_ceiling_bytes = rb_mlx_active_memory_ceiling_bytes self,
          snap_model_core_payload_bytes = geo_model_core_payload_bytes (rb_model_geometry self),
          snap_context_window_reserve_bytes = context_reserve,
          snap_activation_headroom_bytes = activation,
          snap_complete_layer_stream_slot_bytes = slot,
          snap_other_fixed_bytes =
            saturating_add restore_overlap_workspace_bytes direct_publication_workspace_bytes,
          snap_retained_expert_budget_bytes =
            saturating_sub (rb_mlx_active_memory_ceiling_bytes self) fixed_non_expert_bytes\<rparr>)"

definition plan_holding_live_context_state ::
  "MlxRamBudget \<Rightarrow> MemoryPhase \<Rightarrow> u64 \<Rightarrow> u64 \<Rightarrow> u64 \<Rightarrow> u64 \<Rightarrow> MlxRamBudgetSnapshot" where
  "plan_holding_live_context_state self phase context_token_count operation_token_count
     other_fixed_bytes live_context_state_payload_bytes =
     (let planned_context_reserve =
            (case phase of Idle \<Rightarrow> 0 | _ \<Rightarrow> context_window_reserve_bytes self context_token_count);
          context_reserve = max planned_context_reserve live_context_state_payload_bytes;
          activation = activation_headroom_bytes self phase operation_token_count;
          slot = (case phase of
                    Prefill \<Rightarrow> prefill_stream_slot_bytes_after_full_fit
                      (rb_mlx_active_memory_ceiling_bytes self)
                      (saturating_add
                        (saturating_add
                          (saturating_add (geo_model_core_payload_bytes (rb_model_geometry self)) context_reserve)
                          activation)
                        other_fixed_bytes)
                      (geo_complete_expert_payload_bytes (rb_model_geometry self))
                      (prefill_complete_layer_stream_slot_bytes self)
                  | GenerationPreparation \<Rightarrow> geo_largest_routed_expert_page_bytes (rb_model_geometry self)
                  | Decode \<Rightarrow> geo_largest_routed_expert_page_bytes (rb_model_geometry self)
                  | Idle \<Rightarrow> 0);
          fixed_non_expert_bytes =
            saturating_add
              (saturating_add
                (saturating_add
                  (saturating_add (geo_model_core_payload_bytes (rb_model_geometry self)) context_reserve)
                  activation)
                slot)
              other_fixed_bytes
      in \<lparr>snap_mlx_active_memory_ceiling_bytes = rb_mlx_active_memory_ceiling_bytes self,
          snap_model_core_payload_bytes = geo_model_core_payload_bytes (rb_model_geometry self),
          snap_context_window_reserve_bytes = context_reserve,
          snap_activation_headroom_bytes = activation,
          snap_complete_layer_stream_slot_bytes = slot,
          snap_other_fixed_bytes = other_fixed_bytes,
          snap_retained_expert_budget_bytes =
            saturating_sub (rb_mlx_active_memory_ceiling_bytes self) fixed_non_expert_bytes\<rparr>)"

definition budget_plan ::
  "MlxRamBudget \<Rightarrow> MemoryPhase \<Rightarrow> u64 \<Rightarrow> u64 \<Rightarrow> u64 \<Rightarrow> MlxRamBudgetSnapshot" where
  "budget_plan self phase context_token_count operation_token_count other_fixed_bytes =
     plan_holding_live_context_state self phase context_token_count operation_token_count
       other_fixed_bytes 0"

definition retained_expert_budget_for_admitted_forward :: "MlxRamBudget \<Rightarrow> u64 \<Rightarrow> u64 \<Rightarrow> u64 \<Rightarrow> u64" where
  "retained_expert_budget_for_admitted_forward self current_active_memory_bytes
     current_retained_expert_payload_bytes admitted_forward_reserve_bytes =
     (let projected_active_memory_bytes =
            saturating_add current_active_memory_bytes admitted_forward_reserve_bytes;
          ceiling_bytes = rb_mlx_active_memory_ceiling_bytes self
      in if projected_active_memory_bytes \<le> ceiling_bytes
         then saturating_add current_retained_expert_payload_bytes
                (ceiling_bytes - projected_active_memory_bytes)
         else saturating_sub current_retained_expert_payload_bytes
                (projected_active_memory_bytes - ceiling_bytes))"

definition measured_non_expert_forward_growth_bytes :: "u64 \<Rightarrow> u64 \<Rightarrow> u64 \<Rightarrow> u64 \<Rightarrow> u64" where
  "measured_non_expert_forward_growth_bytes active_before peak retained_before retained_after =
     saturating_sub (saturating_sub peak active_before) (saturating_sub retained_after retained_before)"

definition measured_non_expert_forward_growth_bytes_excluding_expert_page_streaming ::
  "u64 \<Rightarrow> u64 \<Rightarrow> u64 \<Rightarrow> u64 \<Rightarrow> u64 \<Rightarrow> u64" where
  "measured_non_expert_forward_growth_bytes_excluding_expert_page_streaming active_before peak
     retained_before retained_after promoted_stream =
     (let retained_growth = saturating_sub retained_after retained_before;
          expert_bytes_beyond_pre_growth_baseline =
            (if promoted_stream < retained_growth then retained_growth else promoted_stream)
      in saturating_sub (saturating_sub peak active_before) expert_bytes_beyond_pre_growth_baseline)"

section \<open>Specification\<close>

definition budget_wf :: "MlxRamBudget \<Rightarrow> bool" where
  "budget_wf b \<longleftrightarrow> rb_mlx_active_memory_ceiling_bytes b \<noteq> 0
     \<and> bt_invar (rb_prefill_activation_high_water_by_token_bucket b)
     \<and> (rb_has_prefill_activation_measurement b \<longleftrightarrow> rb_prefill_activation_high_water_by_token_bucket b \<noteq> [])
     \<and> (\<not> rb_has_decode_activation_measurement b \<longrightarrow> rb_decode_activation_headroom_bytes b = 0)
     \<and> (\<not> rb_has_context_window_measurement b \<longrightarrow> rb_measured_context_overhead_high_water_bytes b = 0)"

text \<open>The sum of the fixed owners of a split, without saturation.\<close>

definition fixed_owner_bytes :: "MlxRamBudgetSnapshot \<Rightarrow> nat" where
  "fixed_owner_bytes s = unat (snap_model_core_payload_bytes s) + unat (snap_context_window_reserve_bytes s)
     + unat (snap_activation_headroom_bytes s) + unat (snap_complete_layer_stream_slot_bytes s)
     + unat (snap_other_fixed_bytes s)"

datatype BudgetObservation =
    ObserveMeasurement MlxRamBudgetMeasurement
  | ObserveContextState u64 u64
  | ConfigureStreamSlot u64
  | ConfigureDiagnosticFloor u64

fun run_budget_observation :: "BudgetObservation \<Rightarrow> MlxRamBudget \<Rightarrow> MlxRamBudget" where
  "run_budget_observation (ObserveMeasurement m) b = record_measurement b m"
| "run_budget_observation (ObserveContextState tokens payload) b = record_context_state_payload b tokens payload"
| "run_budget_observation (ConfigureStreamSlot bytes) b = set_prefill_complete_layer_stream_slot_bytes b bytes"
| "run_budget_observation (ConfigureDiagnosticFloor bytes) b =
     set_diagnostic_prefill_activation_floor_bytes b bytes"

datatype BudgetOperation = Observe BudgetObservation | ChangeCeiling u64

fun run_budget_operation :: "BudgetOperation \<Rightarrow> MlxRamBudget \<Rightarrow> MlxRamBudget" where
  "run_budget_operation (Observe x) b = run_budget_observation x b"
| "run_budget_operation (ChangeCeiling c) b =
     (case update_mlx_active_memory_ceiling_bytes b c of Inl _ \<Rightarrow> b | Inr b' \<Rightarrow> b')"

fun prefill_contribution :: "BudgetObservation \<Rightarrow> (u64 \<times> u64) option" where
  "prefill_contribution (ObserveMeasurement m) =
     (if meas_phase m = Prefill
      then Some (context_token_bucket (meas_forward_token_count m), meas_observed_activation_headroom_bytes m)
      else None)"
| "prefill_contribution _ = None"

fun decode_contribution :: "BudgetObservation \<Rightarrow> (unit \<times> u64) option" where
  "decode_contribution (ObserveMeasurement m) =
     (if meas_phase m \<in> {GenerationPreparation, Decode}
      then Some ((), meas_observed_activation_headroom_bytes m) else None)"
| "decode_contribution _ = None"

definition decode_evidence :: "MlxRamBudget \<Rightarrow> unit \<Rightarrow> u64 option" where
  "decode_evidence b _ = (if rb_has_decode_activation_measurement b
     then Some (rb_decode_activation_headroom_bytes b) else None)"

text \<open>Persistent bytes an observation shows beyond the projected per-token state.\<close>

definition overhead_beyond :: "MlxRamBudgetModelGeometry \<Rightarrow> u64 \<Rightarrow> u64 \<Rightarrow> u64" where
  "overhead_beyond geometry tokens persistent_bytes =
     saturating_sub persistent_bytes (saturating_mul tokens (geo_sequence_state_bytes_per_token geometry))"

fun overhead_contribution ::
  "MlxRamBudgetModelGeometry \<Rightarrow> BudgetOperation \<Rightarrow> (unit \<times> u64) option" where
  "overhead_contribution geometry (Observe (ObserveMeasurement m)) =
     Some ((), overhead_beyond geometry (meas_forward_token_count m)
       (saturating_sub (saturating_sub (meas_context_and_activation_bytes m)
          (meas_observed_activation_headroom_bytes m)) (meas_exact_temporary_workspace_bytes m)))"
| "overhead_contribution geometry (Observe (ObserveContextState tokens payload)) =
     Some ((), overhead_beyond geometry tokens payload)"
| "overhead_contribution geometry _ = None"

definition overhead_evidence :: "MlxRamBudget \<Rightarrow> unit \<Rightarrow> u64 option" where
  "overhead_evidence b _ = (if rb_has_context_window_measurement b
     then Some (rb_measured_context_overhead_high_water_bytes b) else None)"

definition sample_geometry :: MlxRamBudgetModelGeometry where
  "sample_geometry = \<lparr>geo_model_core_payload_bytes = 1000, geo_complete_expert_payload_bytes = 4000,
     geo_largest_complete_expert_layer_bytes = 100, geo_largest_routed_expert_page_bytes = 20,
     geo_sequence_state_bytes_per_token = 2\<rparr>"

definition sample_budget :: MlxRamBudget where
  "sample_budget = \<lparr>rb_mlx_active_memory_ceiling_bytes = 10000, rb_model_geometry = sample_geometry,
     rb_bootstrap_context_window_reserve_bytes = 500, rb_measured_context_overhead_high_water_bytes = 0,
     rb_prefill_activation_high_water_by_token_bucket = [(1, 350), (8, 900)],
     rb_decode_activation_headroom_bytes = 0, rb_has_prefill_activation_measurement = True,
     rb_has_decode_activation_measurement = False, rb_has_context_window_measurement = False,
     rb_prefill_complete_layer_stream_slot_bytes = None,
     rb_diagnostic_prefill_activation_floor_bytes = None\<rparr>"

text \<open>Geometry: the totals loop and the routed-page loop over natural numbers.\<close>

definition payload_sum :: "MeasuredExpertLayerPayload list \<Rightarrow> nat" where
  "payload_sum ls = sum_list (map (\<lambda>l. unat (layer_complete_payload_bytes l)) ls)"

definition routed_page_bound :: "usize \<Rightarrow> MeasuredExpertLayerPayload \<Rightarrow> nat" where
  "routed_page_bound k l =
     ceil_div (unat (layer_complete_payload_bytes l) * min (unat k) (unat (layer_expert_capacity l)))
       (max (unat (layer_expert_capacity l)) 1)"

definition sample_measurement :: "MemoryPhase \<Rightarrow> u64 \<Rightarrow> u64 \<Rightarrow> MlxRamBudgetMeasurement" where
  "sample_measurement phase tokens activation = \<lparr>meas_phase = phase, meas_forward_token_count = tokens,
     meas_context_and_activation_bytes = 5000, meas_observed_activation_headroom_bytes = activation,
     meas_exact_temporary_workspace_bytes = 0\<rparr>"

section \<open>Lemmas\<close>

lemmas budget_operation_defs =
  record_measurement_def record_context_state_payload_def set_prefill_complete_layer_stream_slot_bytes_def
  set_diagnostic_prefill_activation_floor_bytes_def update_mlx_active_memory_ceiling_bytes_def
  projected_sequence_state_def Let_def

lemma ram_budget_new_wf: "ram_budget_new c geometry = Inr b \<Longrightarrow> budget_wf b"
  by (auto simp: ram_budget_new_def with_bootstrap_context_window_reserve_bytes_def budget_wf_def
      btree.invar_empty split: if_splits)

lemma bt_entry_max_nonempty [simp]: "bt_entry_max k v m \<noteq> []"
  unfolding bt_entry_max_def by (cases m) (auto split: if_splits)

lemma budget_observation_wf: "budget_wf b \<Longrightarrow> budget_wf (run_budget_observation x b)"
  by (cases x) (auto simp: budget_wf_def budget_operation_defs split: MemoryPhase.split)

lemma budget_operation_wf: "budget_wf b \<Longrightarrow> budget_wf (run_budget_operation x b)"
proof (cases x)
  case (ChangeCeiling c)
  assume "budget_wf b"
  with ChangeCeiling show ?thesis
    by (auto simp: budget_wf_def budget_operation_defs btree.invar_empty)
qed (simp add: budget_observation_wf)

lemma budget_operation_geometry [simp]:
  "rb_model_geometry (run_budget_operation x b) = rb_model_geometry b"
proof (cases x)
  case (Observe y)
  then show ?thesis
    by (cases y) (auto simp: budget_operation_defs split: MemoryPhase.split)
qed (auto simp: budget_operation_defs)

interpretation prefill_learner: high_water_learner budget_wf
  "\<lambda>b. map_of (rb_prefill_activation_high_water_by_token_bucket b)"
  run_budget_observation prefill_contribution
proof (unfold_locales, goal_cases)
  case (2 s x k)
  then show ?case by (cases x) (auto simp: budget_operation_defs split: if_splits MemoryPhase.split)
next
  case (3 s x k' v k)
  then show ?case
    by (cases x) (auto simp: budget_wf_def budget_operation_defs map_of_bt_entry_max opt_max_def
        split: if_splits)
qed (rule budget_observation_wf)

interpretation decode_learner: high_water_learner budget_wf decode_evidence
  run_budget_observation decode_contribution
proof (unfold_locales, goal_cases)
  case (2 s x k)
  then show ?case
    by (cases x) (auto simp: decode_evidence_def budget_operation_defs split: if_splits MemoryPhase.splits)
next
  case (3 s x k' v k)
  then show ?case
    by (cases x) (auto simp: budget_wf_def decode_evidence_def budget_operation_defs opt_max_def
        split: if_splits MemoryPhase.splits)
qed (rule budget_observation_wf)

interpretation overhead_learner: high_water_learner
  "\<lambda>b. budget_wf b \<and> rb_model_geometry b = geometry" overhead_evidence
  run_budget_operation "overhead_contribution geometry" for geometry
proof (unfold_locales, goal_cases)
  case (1 s x)
  then show ?case by (simp add: budget_operation_wf)
next
  case (2 s x k)
  then show ?case
    by (cases "(geometry, x)" rule: overhead_contribution.cases)
       (auto simp: overhead_evidence_def budget_operation_defs)
next
  case (3 s x k' v k)
  then show ?case
    by (cases "(geometry, x)" rule: overhead_contribution.cases)
       (auto simp: budget_wf_def overhead_evidence_def overhead_beyond_def budget_operation_defs opt_max_def
          split: MemoryPhase.split)
qed

text \<open>A saturated sum is at the limit, where nothing is left: subtracting it from a word equals
  subtracting the exact sum.\<close>

lemma unat_sub_saturated_sum:
  "unat c - min n 18446744073709551615 = unat (c :: u64) - n"
  using u64_bound [of c] by (simp add: min_def)

lemma min_sum_saturates: "min (min (a :: nat) m + b) m = min (a + b) m"
  by (simp add: min_def)

lemma plan_retained_exact:
  "unat (snap_retained_expert_budget_bytes (plan_holding_live_context_state b phase ctx op other live)) =
     unat (rb_mlx_active_memory_ceiling_bytes b)
       - fixed_owner_bytes (plan_holding_live_context_state b phase ctx op other live)"
  by (simp add: plan_holding_live_context_state_def Let_def fixed_owner_bytes_def unat_saturating_sub
      unat_saturating_add min_sum_saturates unat_sub_saturated_sum)

lemma context_snapshot_retained_exact:
  "unat (snap_retained_expert_budget_bytes (context_admission_workspace_snapshot b ctx op restore publication)) =
     unat (rb_mlx_active_memory_ceiling_bytes b)
       - fixed_owner_bytes (context_admission_workspace_snapshot b ctx op restore publication)"
  by (simp add: context_admission_workspace_snapshot_def Let_def fixed_owner_bytes_def unat_saturating_sub
      unat_saturating_add min_sum_saturates unat_sub_saturated_sum)

lemma unat_activation_headroom:
  "unat (activation_headroom_bytes b phase n) =
     min (unat (phase_activation_headroom_bytes b phase n))
         (unat (rb_mlx_active_memory_ceiling_bytes b)
          - unat (geo_model_core_payload_bytes (rb_model_geometry b)))"
  by (simp add: activation_headroom_bytes_def unat_min unat_saturating_sub)

lemma context_token_bucket_mono: "m \<le> n \<Longrightarrow> context_token_bucket m \<le> context_token_bucket n"
  by (simp add: context_token_bucket_def CONTEXT_TOKEN_BUCKET_WIDTH_def word_le_nat_alt unat_div div_le_mono)

lemma learned_prefill_mono:
  "m \<le> n \<Longrightarrow> learned_prefill_activation_headroom_bytes b m \<le> learned_prefill_activation_headroom_bytes b n"
  unfolding learned_prefill_activation_headroom_bytes_def bt_range_to_def
  by (rule max_or_zero_subset) (auto intro: order.trans dest: context_token_bucket_mono)

lemma phase_activation_mono:
  "m \<le> n \<Longrightarrow> phase_activation_headroom_bytes b phase m \<le> phase_activation_headroom_bytes b phase n"
  using learned_prefill_mono [of m n b]
  by (cases phase)
     (auto simp: phase_activation_headroom_bytes_def Let_def word_le_nat_alt unat_required_headroom
        intro!: max.mono)

lemma prefill_plan_slot:
  fixes b ctx op other live
  defines "s \<equiv> plan_holding_live_context_state b Prefill ctx op other live"
  shows "snap_complete_layer_stream_slot_bytes s =
    (if 0 < geo_complete_expert_payload_bytes (rb_model_geometry b)
        \<and> unat (geo_complete_expert_payload_bytes (rb_model_geometry b)) \<le>
            unat (rb_mlx_active_memory_ceiling_bytes b)
              - (unat (snap_model_core_payload_bytes s) + unat (snap_context_window_reserve_bytes s)
                 + unat (snap_activation_headroom_bytes s) + unat (snap_other_fixed_bytes s))
     then 0 else prefill_complete_layer_stream_slot_bytes b)"
  unfolding s_def
  by (simp add: plan_holding_live_context_state_def Let_def prefill_stream_slot_bytes_after_full_fit_def
      word_le_nat_alt unat_saturating_sub unat_saturating_add min_sum_saturates unat_sub_saturated_sum)

lemma stream_slot_ge_layer:
  "geo_largest_complete_expert_layer_bytes (rb_model_geometry b) \<le> prefill_complete_layer_stream_slot_bytes b"
  by (simp add: prefill_complete_layer_stream_slot_bytes_def)

text \<open>The two cold-start reserves disagree: a ceiling at the geometry floor is short of a cold budget's own
  owners by the difference of the two constants.\<close>

lemma geometry_floor_below_cold_reserve:
  assumes "ram_budget_new c geometry = Inr b"
    and "unat (geo_model_core_payload_bytes geometry) + 1000000000
       + unat (geo_largest_complete_expert_layer_bytes geometry)
       + unat (geo_largest_routed_expert_page_bytes geometry) < 18446744073709551616"
  shows "unat (geo_model_core_payload_bytes geometry) + unat (context_window_reserve_bytes b 0)
       + unat (geo_largest_complete_expert_layer_bytes geometry)
       + unat (geo_largest_routed_expert_page_bytes geometry)
     = unat (geometry_safe_minimum_mlx_memory_ceiling_bytes geometry) + 73741824"
proof -
  have "context_window_reserve_bytes b 0 = 1073741824"
    using assms(1)
    by (auto simp: ram_budget_new_def with_bootstrap_context_window_reserve_bytes_def
        context_window_reserve_bytes_def projected_sequence_state_def saturating_mul_def
        BOOTSTRAP_CONTEXT_WINDOW_RESERVE_BYTES_def split: if_splits)
  with assms(2) show ?thesis
    by (simp add: geometry_safe_minimum_mlx_memory_ceiling_bytes_def unat_saturating_add
        GEOMETRY_FLOOR_BOOTSTRAP_CONTEXT_RESERVE_BYTES_def min_def)
qed

lemma layer_totals:
  "case try_fold (\<lambda>(complete_bytes, largest_bytes) layer_payload.
          result_bind (ok_or (checked_add complete_bytes (layer_complete_payload_bytes layer_payload))
                         ExpertPayloadOverflow)
            (\<lambda>complete_bytes'. Inr (complete_bytes',
               max largest_bytes (layer_complete_payload_bytes layer_payload)))) (c, m) ls of
     Inl e \<Rightarrow> e = ExpertPayloadOverflow \<and> 18446744073709551616 \<le> unat c + payload_sum ls
   | Inr (c', m') \<Rightarrow> unat c' = unat c + payload_sum ls
       \<and> unat m' = max (unat m) (list_max (map (\<lambda>l. unat (layer_complete_payload_bytes l)) ls))"
proof (induction ls arbitrary: c m)
  case (Cons l ls)
  show ?case
  proof (cases "checked_add c (layer_complete_payload_bytes l)")
    case None
    moreover have "18446744073709551616 \<le> unat c + unat (layer_complete_payload_bytes l)"
      using None by (simp add: checked_add_None_iff)
    ultimately show ?thesis by (simp add: payload_sum_def)
  next
    case (Some c')
    then have c': "unat c' = unat c + unat (layer_complete_payload_bytes l)"
      by (simp add: checked_add_Some_iff)
    show ?thesis
      using Cons.IH [of c' "max m (layer_complete_payload_bytes l)"] Some c'
      by (simp add: payload_sum_def unat_max max.assoc add.assoc split: sum.splits prod.splits)
  qed
qed (simp add: payload_sum_def)

lemma routed_page_bound_le: "routed_page_bound k l \<le> unat (layer_complete_payload_bytes l)"
  unfolding routed_page_bound_def by (rule ceil_proportion_le) auto

lemma unat_routed_page:
  "unat (case u64_try_from_u128
           (saturating_add (saturating_mul (ucast (layer_complete_payload_bytes l) :: u128)
               (ucast (min k (layer_expert_capacity l))))
             ((ucast (max (layer_expert_capacity l) 1) :: u128) - 1)
            div ucast (max (layer_expert_capacity l) 1)) of Some b \<Rightarrow> b | None \<Rightarrow> max_value)
   = routed_page_bound k l"
proof -
  let ?p = "layer_complete_payload_bytes l" and ?r = "min k (layer_expert_capacity l)"
  let ?cap = "max (layer_expert_capacity l) 1"
  let ?c = "ucast ?cap :: u128"
  have cap: "unat ?c = max (unat (layer_expert_capacity l)) 1" by (simp add: unat_ucast_u128 unat_max)
  have "1 \<le> ?c" by (simp add: word_le_nat_alt cap)
  then have cap1: "unat (?c - 1) = max (unat (layer_expert_capacity l)) 1 - 1"
    by (simp add: unat_sub_exact cap)
  have capb: "max (unat (layer_expert_capacity l)) 1 < 2 ^ 64"
    using u64_bound [of "layer_expert_capacity l"] by simp
  have prod: "unat ?p * unat ?r \<le> (2 ^ 64 - 1) * (2 ^ 64 - 1)"
    using u64_bound_le [of ?p] u64_bound_le [of ?r] by (intro mult_mono) auto
  let ?n = "saturating_add (saturating_mul (ucast ?p :: u128) (ucast ?r)) (?c - 1)"
  have "unat ?n = unat ?p * unat ?r + (max (unat (layer_expert_capacity l)) 1 - 1)"
    using prod capb by (simp add: unat_saturating_add unat_saturating_mul unat_ucast_u128 cap1 min_def)
  then have "unat (?n div ?c) = routed_page_bound k l"
    by (simp add: unat_div cap routed_page_bound_def ceil_div_def unat_min)
  moreover have "routed_page_bound k l < 2 ^ 64"
    using routed_page_bound_le [of k l] u64_bound [of ?p] by simp
  ultimately show ?thesis
    by (simp add: u64_try_from_u128_def unsigned_ucast_eq take_bit_nat_eq_self)
qed

lemma routed_page_total:
  "\<exists>page. largest_routed_expert_page_bytes ls k = Inr page
     \<and> unat page = list_max (map (routed_page_bound k) ls)"
proof -
  have "\<exists>page. try_fold (\<lambda>largest_page_bytes l. Inr (max largest_page_bytes (h l))) a ls = Inr page
      \<and> unat page = max (unat a) (list_max (map (routed_page_bound k) ls))"
    if "\<And>l. unat (h l) = routed_page_bound k l" for h :: "MeasuredExpertLayerPayload \<Rightarrow> u64" and a
  proof (induction ls arbitrary: a)
    case (Cons l ls)
    from Cons.IH [of "max a (h l)"] show ?case by (simp add: unat_max that max.assoc)
  qed simp
  from this [of "\<lambda>l. case u64_try_from_u128
           (saturating_add (saturating_mul (ucast (layer_complete_payload_bytes l) :: u128)
               (ucast (min k (layer_expert_capacity l))))
             ((ucast (max (layer_expert_capacity l) 1) :: u128) - 1)
            div ucast (max (layer_expert_capacity l) 1)) of Some b \<Rightarrow> b | None \<Rightarrow> max_value" 0]
  show ?thesis
    unfolding largest_routed_expert_page_bytes_def Let_def unat_routed_page by simp
qed

section \<open>Properties\<close>

text \<open>C6. A plan hands out the ceiling and no more, for every phase: when its fixed owners, added up exactly,
  fit the ceiling, owners and expert budget make exactly the ceiling; when the owners alone are larger
  (the plan is over-committed, whatever it is) the experts get nothing. This holds also where the
  saturating additions of the code reach the limit of the machine word; the reserve of the context is
  never below the live state it must hold; and the admission-side snapshot obeys the same law.\<close>

theorem plan_conserves_ceiling:
  fixes b phase ctx op other live restore publication
  defines "s \<equiv> plan_holding_live_context_state b phase ctx op other live"
    and "a \<equiv> context_admission_workspace_snapshot b ctx op restore publication"
    and "ceiling \<equiv> unat (rb_mlx_active_memory_ceiling_bytes b)"
  shows "(if fixed_owner_bytes s \<le> ceiling then fixed_owner_bytes s + unat (snap_retained_expert_budget_bytes s) = ceiling
        else snap_retained_expert_budget_bytes s = 0)
     \<and> live \<le> snap_context_window_reserve_bytes s
     \<and> snap_other_fixed_bytes s = other
     \<and> (if fixed_owner_bytes a \<le> ceiling then fixed_owner_bytes a + unat (snap_retained_expert_budget_bytes a) = ceiling
        else snap_retained_expert_budget_bytes a = 0)"
proof -
  have exact: "unat (snap_retained_expert_budget_bytes s) = ceiling - fixed_owner_bytes s"
    "unat (snap_retained_expert_budget_bytes a) = ceiling - fixed_owner_bytes a"
    using plan_retained_exact context_snapshot_retained_exact unfolding s_def a_def ceiling_def by simp_all
  have "(if n \<le> ceiling then n + unat w = ceiling else w = 0)" if "unat w = ceiling - n" for n and w :: u64
    using that by (auto simp: unat_eq_0 [symmetric])
  moreover have "live \<le> snap_context_window_reserve_bytes s" "snap_other_fixed_bytes s = other"
    unfolding s_def by (simp_all add: plan_holding_live_context_state_def Let_def)
  ultimately show ?thesis using exact by blast
qed

text \<open>Activation headroom can coexist with the model core: it is the phase's evidence or floor, capped
  by what the ceiling leaves beside the core, so core and headroom together never exceed the ceiling
  of a loaded model; and a larger operation never gets less headroom than a smaller one.\<close>

lemma activation_headroom_coexists:
  assumes "m \<le> n"
  shows "unat (geo_model_core_payload_bytes (rb_model_geometry b)) + unat (activation_headroom_bytes b phase n)
           \<le> max (unat (rb_mlx_active_memory_ceiling_bytes b)) (unat (geo_model_core_payload_bytes (rb_model_geometry b)))
     \<and> activation_headroom_bytes b phase m \<le> activation_headroom_bytes b phase n
     \<and> (activation_headroom_bytes b phase n = phase_activation_headroom_bytes b phase n
        \<or> unat (geo_model_core_payload_bytes (rb_model_geometry b)) + unat (activation_headroom_bytes b phase n)
           = max (unat (rb_mlx_active_memory_ceiling_bytes b)) (unat (geo_model_core_payload_bytes (rb_model_geometry b))))"
  using phase_activation_mono [OF assms, of b phase]
  by (auto simp: word_unat_eq_iff word_le_nat_alt unat_activation_headroom)

text \<open>The prefill stream slot is dropped only when nothing will be streamed: a plan that reserves less
  than the full slot (itself never less than one complete layer) leaves an expert budget that holds
  every expert, and whenever every expert would fit without the slot, the plan's budget holds them.\<close>

lemma prefill_slot_dropped_only_on_full_fit:
  fixes b ctx op other live
  defines "s \<equiv> plan_holding_live_context_state b Prefill ctx op other live"
    and "experts \<equiv> geo_complete_expert_payload_bytes (rb_model_geometry b)"
  shows "(snap_complete_layer_stream_slot_bytes s = prefill_complete_layer_stream_slot_bytes b
          \<and> geo_largest_complete_expert_layer_bytes (rb_model_geometry b) \<le> snap_complete_layer_stream_slot_bytes s
        \<or> snap_complete_layer_stream_slot_bytes s = 0 \<and> experts \<le> snap_retained_expert_budget_bytes s)
     \<and> (0 < experts
        \<and> fixed_owner_bytes s + unat experts \<le> unat (rb_mlx_active_memory_ceiling_bytes b)
            + unat (snap_complete_layer_stream_slot_bytes s)
        \<longrightarrow> experts \<le> snap_retained_expert_budget_bytes s)"
  using prefill_plan_slot [of b ctx op other live] plan_retained_exact [of b Prefill ctx op other live]
    stream_slot_ge_layer [of b]
  unfolding s_def [symmetric] experts_def
  by (auto simp: word_le_nat_alt fixed_owner_bytes_def split: if_splits)

text \<open>Composing the geometry from measured layers fails exactly when the total expert payload overflows
  a machine word or is zero; otherwise every field is exact: the sum, the largest layer, the core
  as the rest of the model, and the largest proportional routed page rounded up, which never exceeds
  the largest layer.\<close>

lemma geometry_from_layers_exact:
  "case mlx_ram_budget_model_geometry_from_measured_layer_facts ls model_bytes k transient of
     Inl ExpertPayloadOverflow \<Rightarrow> 18446744073709551616 \<le> payload_sum ls
   | Inl NotSparseMixtureOfExperts \<Rightarrow> payload_sum ls = 0
   | Inr (g, headroom) \<Rightarrow>
       0 < payload_sum ls
       \<and> unat (geo_complete_expert_payload_bytes g) = payload_sum ls
       \<and> unat (geo_model_core_payload_bytes g) = unat model_bytes - payload_sum ls
       \<and> unat (geo_largest_complete_expert_layer_bytes g)
           = list_max (map (\<lambda>l. unat (layer_complete_payload_bytes l)) ls)
       \<and> unat (geo_largest_routed_expert_page_bytes g) = list_max (map (routed_page_bound k) ls)
       \<and> geo_largest_routed_expert_page_bytes g \<le> geo_largest_complete_expert_layer_bytes g
       \<and> headroom = transient"
proof -
  obtain page where page: "largest_routed_expert_page_bytes ls k = Inr page"
    "unat page = list_max (map (routed_page_bound k) ls)"
    using routed_page_total by blast
  have le: "list_max (map (routed_page_bound k) ls) \<le> list_max (map (\<lambda>l. unat (layer_complete_payload_bytes l)) ls)"
    by (rule list_max_map_mono) (auto intro: routed_page_bound_le)
  have head: "required_complete_residency_activation_headroom_bytes transient 0 = transient"
    by (simp add: required_complete_residency_activation_headroom_bytes_def)
  show ?thesis
    using layer_totals [where c = 0 and m = 0 and ls = ls] page le
    by (auto simp: mlx_ram_budget_model_geometry_from_measured_layer_facts_def word_le_nat_alt word_unat_eq_iff
        unat_saturating_sub head split: sum.splits prod.splits if_splits)
qed

text \<open>A new live ceiling is rejected exactly when it is zero. Writing the current value again changes
  nothing. A different value keeps the geometry and every context reserve, and forgets all activation
  evidence: each phase is back at its static floor.\<close>

lemma ceiling_change_forgets_only_activation:
  "case update_mlx_active_memory_ceiling_bytes b c of
     Inl e \<Rightarrow> c = 0
   | Inr b' \<Rightarrow>
       c \<noteq> 0 \<and> rb_mlx_active_memory_ceiling_bytes b' = c \<and> rb_model_geometry b' = rb_model_geometry b
       \<and> (\<forall>n. context_window_reserve_bytes b' n = context_window_reserve_bytes b n)
       \<and> (if c = rb_mlx_active_memory_ceiling_bytes b then b' = b
          else \<forall>phase n. phase_activation_headroom_bytes b' phase n =
            (case phase of
               Prefill \<Rightarrow> (case rb_diagnostic_prefill_activation_floor_bytes b of Some f \<Rightarrow> f
                 | None \<Rightarrow> saturating_mul (geo_largest_complete_expert_layer_bytes (rb_model_geometry b)) 3)
             | Idle \<Rightarrow> 0
             | _ \<Rightarrow> geo_largest_complete_expert_layer_bytes (rb_model_geometry b)))"
  by (auto simp: update_mlx_active_memory_ceiling_bytes_def Let_def context_window_reserve_bytes_def
      projected_sequence_state_def phase_activation_headroom_bytes_def
      learned_prefill_activation_headroom_bytes_def bt_range_to_def
      required_complete_residency_activation_headroom_bytes_def split: MemoryPhase.split option.split)

text \<open>Learning over a whole life of the budget. After any history that ends in a real ceiling change
  followed by observations, the budget is well formed; the activation evidence of a prefill bucket
  and of the decode window is exactly the largest measurement taken since that change; and the
  context overhead is exactly the largest excess over the projected state in the entire history.\<close>

lemma budget_history_exact:
  fixes ops obs c b0 geometry
  defines "before \<equiv> fold run_budget_operation ops b0"
    and "b \<equiv> fold run_budget_operation (ops @ ChangeCeiling c # map Observe obs) b0"
  assumes "ram_budget_new c0 geometry = Inr b0"
    and "c \<noteq> 0" and "c \<noteq> rb_mlx_active_memory_ceiling_bytes before"
  shows "budget_wf b
     \<and> (map_of (rb_prefill_activation_high_water_by_token_bucket b) bucket = Some v \<longleftrightarrow>
          (\<exists>x \<in> set obs. prefill_contribution x = Some (bucket, v))
          \<and> (\<forall>x \<in> set obs. \<forall>w. prefill_contribution x = Some (bucket, w) \<longrightarrow> w \<le> v))
     \<and> (decode_evidence b () = Some v \<longleftrightarrow>
          (\<exists>x \<in> set obs. decode_contribution x = Some ((), v))
          \<and> (\<forall>x \<in> set obs. \<forall>w. decode_contribution x = Some ((), w) \<longrightarrow> w \<le> v))
     \<and> (overhead_evidence b () = Some v \<longleftrightarrow>
          (\<exists>x \<in> set (ops @ map Observe obs). overhead_contribution geometry x = Some ((), v))
          \<and> (\<forall>x \<in> set (ops @ map Observe obs). \<forall>w. overhead_contribution geometry x = Some ((), w) \<longrightarrow> w \<le> v))"
proof -
  have b0: "budget_wf b0" "rb_model_geometry b0 = geometry" "overhead_evidence b0 () = None"
    using ram_budget_new_wf [OF assms(3)] assms(3)
    by (auto simp: ram_budget_new_def with_bootstrap_context_window_reserve_bytes_def overhead_evidence_def
        split: if_splits)
  define mid where "mid = run_budget_operation (ChangeCeiling c) before"
  have "run_budget_operation \<circ> Observe = run_budget_observation" by (simp add: fun_eq_iff)
  then have b: "b = fold run_budget_observation obs mid"
    unfolding b_def mid_def before_def by (simp add: fold_map)
  have "budget_wf before" "budget_wf b"
    using overhead_learner.invar_history [OF conjI [OF b0(1,2)]] unfolding before_def b_def by blast+
  then have wf: "budget_wf mid" unfolding mid_def by (intro budget_operation_wf)
  have none: "map_of (rb_prefill_activation_high_water_by_token_bucket mid) bucket = None"
    "decode_evidence mid () = None"
    using assms(4,5) by (simp_all add: mid_def update_mlx_active_memory_ceiling_bytes_def decode_evidence_def Let_def)
  have "overhead_evidence b () = Some v \<longleftrightarrow>
      (\<exists>x \<in> set (ops @ ChangeCeiling c # map Observe obs). overhead_contribution geometry x = Some ((), v))
      \<and> (\<forall>x \<in> set (ops @ ChangeCeiling c # map Observe obs).
           \<forall>w. overhead_contribution geometry x = Some ((), w) \<longrightarrow> w \<le> v)"
    unfolding b_def by (rule overhead_learner.evidence_is_maximum [OF conjI [OF b0(1,2)] b0(3)])
  then show ?thesis
    using \<open>budget_wf b\<close> prefill_learner.evidence_is_maximum [OF wf none(1), of obs v]
      decode_learner.evidence_is_maximum [OF wf none(2), of obs v]
    unfolding b by auto
qed

text \<open>The expert budget of an admitted forward is exact: when the forward's projection fits a machine
  word, replacing the retained experts by any positive payload keeps active memory plus the
  forward's reserve within the ceiling if and only if the payload is at most the budget.\<close>

lemma admitted_forward_budget_exact:
  assumes "uint active + uint reserve < 2 ^ 64" and "0 < payload"
  shows "uint active + (uint payload - uint retained) + uint reserve
           \<le> uint (rb_mlx_active_memory_ceiling_bytes b) \<longleftrightarrow>
     payload \<le> retained_expert_budget_for_admitted_forward b active retained reserve"
proof -
  let ?c = "rb_mlx_active_memory_ceiling_bytes b"
  have "int (unat active + unat reserve) < int 18446744073709551616" using assms(1) by simp
  then have nat: "unat active + unat reserve < 18446744073709551616" by (rule of_nat_less_iff [THEN iffD1])
  have p: "0 < unat payload" "unat payload \<le> 18446744073709551615"
    using assms(2) u64_bound_le [of payload] by (simp_all add: word_less_nat_alt)
  have proj: "unat (saturating_add active reserve) = unat active + unat reserve"
    using nat by (simp add: unat_saturating_add min_def)
  have budget: "unat (retained_expert_budget_for_admitted_forward b active retained reserve) =
      (if unat active + unat reserve \<le> unat ?c
       then min (unat retained + (unat ?c - (unat active + unat reserve))) 18446744073709551615
       else unat retained - (unat active + unat reserve - unat ?c))"
    by (simp add: retained_expert_budget_for_admitted_forward_def Let_def word_le_nat_alt
        unat_saturating_add [of retained] unat_saturating_sub unat_sub_exact proj)
  have "unat active + unat payload + unat reserve \<le> unat ?c + unat retained \<longleftrightarrow>
      unat payload \<le> unat (retained_expert_budget_for_admitted_forward b active retained reserve)"
    unfolding budget using p by (auto simp: min_def)
  moreover have "uint active + (uint payload - uint retained) + uint reserve \<le> uint ?c \<longleftrightarrow>
      unat active + unat payload + unat reserve \<le> unat ?c + unat retained"
    by (simp only: uint_nat) linarith
  ultimately show ?thesis by (simp add: word_le_nat_alt)
qed

end
