(* ===== verification/Admission.thy ===== *)
theory Admission
  imports Ram_Budget
begin

text \<open>
  The admission questions of \<^verbatim>\<open>admission/\<close>: one pending allocation, the context growth of a request,
  promotion to complete expert residency, the live prefix kept between requests and the geometry of a
  rotating cache. The locale \<open>ceiling_admission\<close> is the contract they share: an operation begins
  exactly when its whole demand fits under a limit. It is interpreted on every one of these
  decisions, which gives each of them monotonicity and the exact amount that must yield.
\<close>

section \<open>The contract of a ceiling decision\<close>

locale ceiling_admission =
  fixes admits :: "'r \<Rightarrow> bool"
    and demand :: "'r \<Rightarrow> nat"
    and limit :: "'r \<Rightarrow> nat"
    and valid :: "'r \<Rightarrow> bool"
  assumes admits_iff: "valid r \<Longrightarrow> admits r \<longleftrightarrow> demand r \<le> limit r"
begin

lemma admits_mono:
  "\<lbrakk>valid r; valid r'; admits r; demand r' \<le> demand r; limit r \<le> limit r'\<rbrakk> \<Longrightarrow> admits r'"
  by (simp add: admits_iff)

lemma refused_shortfall: "\<lbrakk>valid r; \<not> admits r\<rbrakk> \<Longrightarrow> 0 < demand r - limit r"
  by (simp add: admits_iff)

lemma release_suffices_iff:
  "\<lbrakk>valid r; valid r'; demand r' = demand r - n; limit r' = limit r\<rbrakk>
   \<Longrightarrow> admits r' \<longleftrightarrow> demand r - limit r \<le> n"
  by (auto simp: admits_iff)

end

section \<open>One pending allocation (allocation.rs)\<close>

record AllocationAdmissionObservation =
  al_active_memory_bytes :: u64
  al_allocator_cache_bytes :: u64
  al_pending_allocation_bytes :: u64
  al_active_memory_ceiling_bytes :: u64

datatype AllocationAdmissionDecision =
    AllocationAdmit
  | ClearAllocatorCacheThenAdmit
  | AllocationReject MemoryBoundary u64

definition allocation_decide :: "AllocationAdmissionObservation \<Rightarrow> AllocationAdmissionDecision" where
  "allocation_decide self =
     (case checked_add (al_active_memory_bytes self) (al_pending_allocation_bytes self) of
        None \<Rightarrow> AllocationReject AllocationProjection max_value
      | Some projected_active_memory_bytes \<Rightarrow>
          if al_active_memory_ceiling_bytes self < projected_active_memory_bytes
          then AllocationReject AllocationProjection
                 (saturating_sub projected_active_memory_bytes (al_active_memory_ceiling_bytes self))
          else if 0 < al_allocator_cache_bytes self
                  \<and> (case checked_add projected_active_memory_bytes (al_allocator_cache_bytes self) of
                       Some total_memory_bytes \<Rightarrow> al_active_memory_ceiling_bytes self < total_memory_bytes
                     | None \<Rightarrow> True)
          then ClearAllocatorCacheThenAdmit
          else AllocationAdmit)"

definition retained_expert_payload_capacity_bytes ::
  "u64 \<Rightarrow> u64 \<Rightarrow> u64 \<Rightarrow> u64 \<Rightarrow> u64 \<Rightarrow> u64 \<Rightarrow> u64 \<Rightarrow> u64" where
  "retained_expert_payload_capacity_bytes active_memory_bytes ceiling_bytes maximum_expert_page_bytes
     pending_allocation_bytes transient_high_water current_retained pending_retained =
     (let future_page_reserve =
            (if pending_retained = 0
             then Some (if maximum_expert_page_bytes < pending_allocation_bytes
                        then pending_allocation_bytes else maximum_expert_page_bytes)
             else checked_add pending_allocation_bytes maximum_expert_page_bytes)
      in case future_page_reserve of
           None \<Rightarrow> 0
         | Some future_page_reserve_bytes \<Rightarrow>
             (case checked_add current_retained pending_retained of
                None \<Rightarrow> 0
              | Some post_load_retained_payload_bytes \<Rightarrow>
                  let live_reserved_bytes =
                        (case checked_add active_memory_bytes future_page_reserve_bytes of
                           Some bytes \<Rightarrow> bytes | None \<Rightarrow> max_value);
                      effective_ceiling_bytes =
                        saturating_sub ceiling_bytes transient_high_water
                  in if live_reserved_bytes \<le> effective_ceiling_bytes
                     then saturating_add post_load_retained_payload_bytes
                            (effective_ceiling_bytes - live_reserved_bytes)
                     else saturating_sub post_load_retained_payload_bytes
                            (live_reserved_bytes - effective_ceiling_bytes)))"

section \<open>Complete residency (complete\_residency.rs)\<close>

record CompleteResidencyRequirements =
  cr_current_active_memory_bytes :: u64
  cr_retained_paged_expert_payload_bytes :: u64
  cr_complete_expert_payload_bytes :: u64
  cr_required_headroom_bytes :: u64
  cr_active_memory_ceiling_bytes :: u64

datatype CompleteResidencyDecision =
    ResidencyAdmit u64 u64
  | DoesNotFit MemoryBoundary u64 u64 u64
  | RejectInvalidObservation ExpertMemoryAdmissionError

definition complete_residency_decide :: "CompleteResidencyRequirements \<Rightarrow> CompleteResidencyDecision" where
  "complete_residency_decide self =
     (case projected_active_memory_after_complete_expert_replacement
             (cr_current_active_memory_bytes self) (cr_retained_paged_expert_payload_bytes self)
             (cr_complete_expert_payload_bytes self) of
        Inl e \<Rightarrow> RejectInvalidObservation e
      | Inr projected_active_memory_bytes \<Rightarrow>
          if complete_residency_exceeds_ceiling_with_activation_headroom projected_active_memory_bytes
               (cr_active_memory_ceiling_bytes self) (cr_required_headroom_bytes self)
          then DoesNotFit CompleteResidency
                 (saturating_sub
                   (saturating_add projected_active_memory_bytes (cr_required_headroom_bytes self))
                   (cr_active_memory_ceiling_bytes self))
                 projected_active_memory_bytes (cr_required_headroom_bytes self)
          else ResidencyAdmit projected_active_memory_bytes (cr_required_headroom_bytes self))"

section \<open>Context growth of a request (context.rs)\<close>

definition VISIBLE_ANSWER_RESERVE_TOKENS :: usize where
  "VISIBLE_ANSWER_RESERVE_TOKENS = 2048"

definition bounded_output_reservation_token_count :: "usize \<Rightarrow> usize option \<Rightarrow> usize" where
  "bounded_output_reservation_token_count maximum_output_token_count thinking_budget_token_count =
     (let bounded_output_token_count =
            (case thinking_budget_token_count of
               Some thinking \<Rightarrow> saturating_add thinking VISIBLE_ANSWER_RESERVE_TOKENS
             | None \<Rightarrow> VISIBLE_ANSWER_RESERVE_TOKENS)
      in if maximum_output_token_count < bounded_output_token_count
         then maximum_output_token_count else bounded_output_token_count)"

record ContextAdmissionRequirements =
  ca_current_active_memory_bytes :: usize
  ca_context_growth_bytes :: usize
  ca_expert_page_reservation_bytes :: usize
  ca_temporary_workspace_bytes :: usize
  ca_retained_expert_payload_bytes :: usize
  ca_active_memory_ceiling_bytes :: usize
  ca_complete_experts_are_resident :: bool

definition context_memory_equation :: "ContextAdmissionRequirements \<Rightarrow> MemoryEquation option" where
  "context_memory_equation self =
     memory_equation_for_request_admission (ca_current_active_memory_bytes self)
       (ca_context_growth_bytes self) (ca_expert_page_reservation_bytes self)
       (ca_temporary_workspace_bytes self) (ca_active_memory_ceiling_bytes self)"

definition projected_active_memory_bytes :: "ContextAdmissionRequirements \<Rightarrow> usize option" where
  "projected_active_memory_bytes self = map_option me_peak_projected_bytes (context_memory_equation self)"

definition context_decide :: "ContextAdmissionRequirements \<Rightarrow> MemoryAdmissionDecision" where
  "context_decide self =
     (case context_memory_equation self of
        None \<Rightarrow> Reject StableActiveCeiling max_value
      | Some e \<Rightarrow>
          if fits_request_memory_limit e then Admit
          else if ca_complete_experts_are_resident self then DemoteCompleteResidency True
          else let required_bytes = request_memory_shortfall_bytes e
               in if required_bytes \<le> ca_retained_expert_payload_bytes self then Reclaim required_bytes
                  else Reject StableActiveCeiling
                         (saturating_sub required_bytes (ca_retained_expert_payload_bytes self)))"

definition persistent_context_restore_workspace_bytes :: "usize \<Rightarrow> usize \<Rightarrow> usize option" where
  "persistent_context_restore_workspace_bytes reservation_bytes_per_token restored_context_token_count =
     checked_mul reservation_bytes_per_token restored_context_token_count"

definition seated_complete_expert_request_peak_active_memory_bytes ::
  "usize \<Rightarrow> usize \<Rightarrow> usize \<Rightarrow> usize \<Rightarrow> usize option" where
  "seated_complete_expert_request_peak_active_memory_bytes current growth restore publication =
     Option.bind (checked_add current restore) (\<lambda>current_and_restore.
     Option.bind (checked_add current_and_restore publication) (\<lambda>restore_phase_bytes.
     Option.bind (checked_add current growth) (\<lambda>current_and_growth.
     Option.bind (checked_add current_and_growth publication) (\<lambda>serving_phase_bytes.
     Some (max restore_phase_bytes serving_phase_bytes)))))"

definition seated_complete_expert_request_temporary_workspace_bytes ::
  "usize \<Rightarrow> usize \<Rightarrow> usize \<Rightarrow> usize option" where
  "seated_complete_expert_request_temporary_workspace_bytes growth restore publication =
     checked_add publication (saturating_sub restore growth)"

definition request_context_temporary_workspace_bytes ::
  "bool \<Rightarrow> usize \<Rightarrow> usize \<Rightarrow> usize \<Rightarrow> usize \<Rightarrow> usize option" where
  "request_context_temporary_workspace_bytes complete_experts_are_resident growth restore publication
     prefill_activation =
     (if complete_experts_are_resident
      then Option.bind (seated_complete_expert_request_temporary_workspace_bytes growth restore publication)
             (\<lambda>workspace. checked_add workspace prefill_activation)
      else Option.bind (checked_add publication restore)
             (\<lambda>workspace. checked_add workspace prefill_activation))"

definition combined_persistent_growth_bytes :: "usize \<Rightarrow> usize \<Rightarrow> usize option" where
  "combined_persistent_growth_bytes target additional = checked_add target additional"

definition safe_minimum_active_memory_ceiling_bytes :: "u64 \<Rightarrow> u64 \<Rightarrow> u64 \<Rightarrow> u64" where
  "safe_minimum_active_memory_ceiling_bytes current_idle evictable maximum_expert_page_reserve =
     saturating_add (saturating_sub current_idle evictable) maximum_expert_page_reserve"

section \<open>Retained prefix and rotating caches (retained\_prefix.rs, rotating.rs)\<close>

record RetainedPrefixRetentionRequirements =
  rp_adoption_enabled :: bool
  rp_adoptable_token_count :: usize
  rp_retained_state_payload_bytes :: u64
  rp_effective_mlx_memory_ceiling_bytes :: u64

datatype RetainedPrefixRetentionDecision = Retain | Drop

definition retained_prefix_decide ::
  "RetainedPrefixRetentionRequirements \<Rightarrow> RetainedPrefixRetentionDecision" where
  "retained_prefix_decide self =
     (if \<not> rp_adoption_enabled self \<or> rp_adoptable_token_count self = 0 then Drop
      else if rp_effective_mlx_memory_ceiling_bytes self
              < saturating_mul (rp_retained_state_payload_bytes self) 2 then Drop
      else Retain)"

datatype RotatingAdmissionError = ZeroWindowSize | TransientTokenCountOverflow u32 u32

definition rotating_prefill_transient_token_count :: "u32 \<Rightarrow> u32 \<Rightarrow> RotatingAdmissionError + u32" where
  "rotating_prefill_transient_token_count window_size prompt_chunk_token_count =
     (if window_size = 0 then Inl ZeroWindowSize
      else if prompt_chunk_token_count = 0 then Inr window_size
      else ok_or (Option.bind (checked_sub window_size 1)
                    (\<lambda>committed. checked_add committed prompt_chunk_token_count))
             (TransientTokenCountOverflow window_size prompt_chunk_token_count))"

definition rotating_committed_token_count :: "u32 \<Rightarrow> u32 \<Rightarrow> u32" where
  "rotating_committed_token_count window_size absolute_position = min absolute_position window_size"

section \<open>Specification\<close>

text \<open>The whole demand of each decision as a natural number.\<close>

definition allocation_demand :: "AllocationAdmissionObservation \<Rightarrow> nat" where
  "allocation_demand r = unat (al_active_memory_bytes r) + unat (al_pending_allocation_bytes r)"

definition residency_demand :: "CompleteResidencyRequirements \<Rightarrow> nat" where
  "residency_demand r = unat (cr_current_active_memory_bytes r) - unat (cr_retained_paged_expert_payload_bytes r)
     + unat (cr_complete_expert_payload_bytes r) + unat (cr_required_headroom_bytes r)"

definition context_demand :: "ContextAdmissionRequirements \<Rightarrow> nat" where
  "context_demand r = unat (ca_current_active_memory_bytes r) + unat (ca_context_growth_bytes r)
     + unat (ca_expert_page_reservation_bytes r) + unat (ca_temporary_workspace_bytes r)"

text \<open>A request whose largest projection, the recovery one, fits a machine word.\<close>

definition context_representable :: "ContextAdmissionRequirements \<Rightarrow> bool" where
  "context_representable r \<longleftrightarrow> context_demand r + unat (ca_temporary_workspace_bytes r) < 18446744073709551616"

text \<open>Releasing experts moves active memory and the retained payload down together.\<close>

definition release_experts :: "usize \<Rightarrow> ContextAdmissionRequirements \<Rightarrow> ContextAdmissionRequirements" where
  "release_experts n r = r\<lparr>ca_current_active_memory_bytes := ca_current_active_memory_bytes r - n,
     ca_retained_expert_payload_bytes := ca_retained_expert_payload_bytes r - n\<rparr>"

definition sample_context :: ContextAdmissionRequirements where
  "sample_context = \<lparr>ca_current_active_memory_bytes = 900, ca_context_growth_bytes = 100,
     ca_expert_page_reservation_bytes = 20, ca_temporary_workspace_bytes = 30,
     ca_retained_expert_payload_bytes = 200, ca_active_memory_ceiling_bytes = 1000,
     ca_complete_experts_are_resident = False\<rparr>"

section \<open>Lemmas\<close>

lemma context_equation_cases:
  "(context_memory_equation r = None \<longleftrightarrow> \<not> context_representable r)
   \<and> (\<forall>e. context_memory_equation r = Some e \<longrightarrow>
        unat (me_peak_projected_bytes e) = context_demand r
        \<and> me_active_memory_ceiling_bytes e = ca_active_memory_ceiling_bytes r)"
proof -
  have reserve: "reserve_bytes without_learned_reserve = 0" by (simp add: without_learned_reserve_def)
  have "context_memory_equation r = None \<longleftrightarrow> \<not> context_representable r"
    unfolding context_memory_equation_def memory_equation_for_request_admission_def memory_equation_new_None_iff
      context_representable_def context_demand_def reserve by auto
  moreover have "unat (me_peak_projected_bytes e) = context_demand r
      \<and> me_active_memory_ceiling_bytes e = ca_active_memory_ceiling_bytes r"
    if "context_memory_equation r = Some e" for e
  proof -
    note fields = memory_equation_new_fields [OF that [unfolded context_memory_equation_def
          memory_equation_for_request_admission_def]]
    show ?thesis using fields(7) by (simp add: fields(1-6) memory_equation_wf_def context_demand_def reserve)
  qed
  ultimately show ?thesis by blast
qed

lemma context_decide_eq:
  "context_decide r =
     (if \<not> context_representable r then Reject StableActiveCeiling max_value
      else if context_demand r \<le> unat (ca_active_memory_ceiling_bytes r) then Admit
      else if ca_complete_experts_are_resident r then DemoteCompleteResidency True
      else let need = word_of_nat (context_demand r - unat (ca_active_memory_ceiling_bytes r)) in
           if need \<le> ca_retained_expert_payload_bytes r then Reclaim need
           else Reject StableActiveCeiling (saturating_sub need (ca_retained_expert_payload_bytes r)))"
proof (cases "context_memory_equation r")
  case None
  then show ?thesis using context_equation_cases [of r] by (simp add: context_decide_def)
next
  case (Some e)
  then have rep: "context_representable r" and peak: "unat (me_peak_projected_bytes e) = context_demand r"
    and c: "me_active_memory_ceiling_bytes e = ca_active_memory_ceiling_bytes r"
    using context_equation_cases [of r] by auto
  have "request_memory_shortfall_bytes e = word_of_nat (context_demand r - unat (ca_active_memory_ceiling_bytes r))"
    unfolding peak [symmetric] c [symmetric]
    by (simp add: request_memory_shortfall_bytes_def word_unat_eq_iff unat_saturating_sub unsigned_of_nat
        take_bit_nat_eq_self less_imp_diff_less u64_bound)
  with Some rep peak c show ?thesis
    by (simp add: context_decide_def fits_request_memory_limit_iff Let_def)
qed

lemma context_need_unat:
  "context_representable r \<Longrightarrow>
     unat (word_of_nat (context_demand r - unat (ca_active_memory_ceiling_bytes r)) :: usize) =
       context_demand r - unat (ca_active_memory_ceiling_bytes r)"
  by (simp add: context_representable_def unsigned_of_nat take_bit_nat_eq_self)

interpretation allocation: ceiling_admission
  "\<lambda>r. allocation_decide r = AllocationAdmit \<or> allocation_decide r = ClearAllocatorCacheThenAdmit"
  allocation_demand "\<lambda>r. unat (al_active_memory_ceiling_bytes r)" "\<lambda>r. True"
proof
  fix r :: AllocationAdmissionObservation
  show "(allocation_decide r = AllocationAdmit \<or> allocation_decide r = ClearAllocatorCacheThenAdmit) \<longleftrightarrow>
      allocation_demand r \<le> unat (al_active_memory_ceiling_bytes r)"
    using u64_bound [of "al_active_memory_ceiling_bytes r"]
    by (auto simp: allocation_decide_def allocation_demand_def checked_add_def unat_add_exact
        word_less_nat_alt split: if_splits)
qed

interpretation request_context: ceiling_admission "\<lambda>r. context_decide r = Admit" context_demand
  "\<lambda>r. unat (ca_active_memory_ceiling_bytes r)" context_representable
  by unfold_locales (auto simp: context_decide_eq Let_def)

interpretation residency: ceiling_admission
  "\<lambda>r. complete_residency_decide r =
     ResidencyAdmit (cr_current_active_memory_bytes r - cr_retained_paged_expert_payload_bytes r
       + cr_complete_expert_payload_bytes r) (cr_required_headroom_bytes r)"
  residency_demand "\<lambda>r. unat (cr_active_memory_ceiling_bytes r)"
  "\<lambda>r. cr_retained_paged_expert_payload_bytes r \<le> cr_current_active_memory_bytes r"
proof
  fix r :: CompleteResidencyRequirements
  assume v: "cr_retained_paged_expert_payload_bytes r \<le> cr_current_active_memory_bytes r"
  let ?rest = "cr_current_active_memory_bytes r - cr_retained_paged_expert_payload_bytes r"
  have rest: "unat ?rest = unat (cr_current_active_memory_bytes r) - unat (cr_retained_paged_expert_payload_bytes r)"
    using v by (rule unat_sub_exact)
  show "(complete_residency_decide r = ResidencyAdmit (?rest + cr_complete_expert_payload_bytes r)
        (cr_required_headroom_bytes r)) \<longleftrightarrow> residency_demand r \<le> unat (cr_active_memory_ceiling_bytes r)"
  proof (cases "unat ?rest + unat (cr_complete_expert_payload_bytes r) < 2 ^ 64")
    case True
    then show ?thesis
      using v rest by (auto simp: complete_residency_decide_def
          projected_active_memory_after_complete_expert_replacement_def checked_sub_def checked_add_def
          exceeds_ceiling_iff residency_demand_def unat_add_exact)
  next
    case False
    then show ?thesis
      using v rest u64_bound [of "cr_active_memory_ceiling_bytes r"]
      by (auto simp: complete_residency_decide_def
          projected_active_memory_after_complete_expert_replacement_def checked_sub_def checked_add_def
          residency_demand_def)
  qed
qed

lemma retained_prefix_decide_iff:
  "retained_prefix_decide r = Retain \<longleftrightarrow>
     rp_adoption_enabled r \<and> rp_adoptable_token_count r \<noteq> 0
     \<and> min (2 * unat (rp_retained_state_payload_bytes r)) 18446744073709551615
         \<le> unat (rp_effective_mlx_memory_ceiling_bytes r)"
  by (auto simp: retained_prefix_decide_def word_less_nat_alt unat_saturating_mul not_less)

lemma rotating_transient_cases:
  "case rotating_prefill_transient_token_count window chunk of
     Inl ZeroWindowSize \<Rightarrow> window = 0
   | Inl (TransientTokenCountOverflow w c) \<Rightarrow>
       w = window \<and> c = chunk \<and> 4294967296 < unat window + unat chunk
   | Inr n \<Rightarrow> unat n = (if chunk = 0 then unat window else unat window - 1 + unat chunk)
       \<and> rotating_committed_token_count window position \<le> n"
proof (cases "window = 0 \<or> chunk = 0")
  case True
  then show ?thesis
    by (auto simp: rotating_prefill_transient_token_count_def rotating_committed_token_count_def)
next
  case False
  then have w: "1 \<le> window" and pos: "0 < unat window" "0 < unat chunk"
    by (auto simp: word_le_nat_alt Suc_le_eq unat_gt_0)
  then have "checked_sub window 1 = Some (window - 1)" "unat (window - 1) = unat window - 1"
    by (simp_all add: checked_sub_def unat_sub_exact)
  then show ?thesis
    using False pos
    by (cases "checked_add (window - 1) chunk")
       (auto simp: rotating_prefill_transient_token_count_def rotating_committed_token_count_def
          word_le_nat_alt unat_min checked_add_def unat_add_exact split: if_splits)
qed

lemma seated_peak_Some_iff:
  "seated_complete_expert_request_peak_active_memory_bytes current growth restore publication = Some p \<longleftrightarrow>
     unat p = unat current + max (unat growth) (unat restore) + unat publication"
proof -
  have "seated_complete_expert_request_peak_active_memory_bytes current growth restore publication = Some p \<longleftrightarrow>
      unat current + unat restore + unat publication < 18446744073709551616
      \<and> unat current + unat growth + unat publication < 18446744073709551616
      \<and> unat p = unat current + max (unat growth) (unat restore) + unat publication"
    by (auto simp: seated_complete_expert_request_peak_active_memory_bytes_def checked_add_bind_cases
        unat_add_exact word_unat_eq_iff unat_max)
  then show ?thesis using u64_bound [of p] by auto
qed

lemma seated_workspace_Some_iff:
  "seated_complete_expert_request_temporary_workspace_bytes growth restore publication = Some t \<longleftrightarrow>
     unat t = unat publication + (unat restore - unat growth)"
  by (simp add: seated_complete_expert_request_temporary_workspace_bytes_def checked_add_Some_iff unat_saturating_sub)

lemma request_workspace_Some_iff:
  "request_context_temporary_workspace_bytes resident growth restore publication activation = Some t \<longleftrightarrow>
     unat t = unat publication + (if resident then unat restore - unat growth else unat restore) + unat activation"
  using u64_bound [of t]
  by (auto simp: request_context_temporary_workspace_bytes_def
      seated_complete_expert_request_temporary_workspace_bytes_def checked_add_bind_cases
      checked_add_Some_iff unat_add_exact unat_saturating_sub)

lemma release_experts_demand:
  assumes "m \<le> ca_current_active_memory_bytes r"
  shows "context_demand (release_experts m r) = context_demand r - unat m"
    and "context_representable r \<Longrightarrow> context_representable (release_experts m r)"
  using assms
  by (simp_all add: release_experts_def context_demand_def context_representable_def unat_sub_exact word_le_nat_alt)

section \<open>Properties\<close>

text \<open>A pending allocation is refused exactly when active memory and the allocation together exceed the
  ceiling, with the exact excess (or the largest word when the sum itself overflows); it is admitted
  as it is exactly when the allocator cache also fits or is empty, and otherwise after clearing
  that cache.\<close>

lemma allocation_decision_exact:
  "case allocation_decide r of
     AllocationAdmit \<Rightarrow> allocation_demand r \<le> unat (al_active_memory_ceiling_bytes r)
       \<and> (al_allocator_cache_bytes r = 0
          \<or> allocation_demand r + unat (al_allocator_cache_bytes r) \<le> unat (al_active_memory_ceiling_bytes r))
   | ClearAllocatorCacheThenAdmit \<Rightarrow> allocation_demand r \<le> unat (al_active_memory_ceiling_bytes r)
       \<and> 0 < unat (al_allocator_cache_bytes r)
       \<and> unat (al_active_memory_ceiling_bytes r) < allocation_demand r + unat (al_allocator_cache_bytes r)
   | AllocationReject boundary shortfall \<Rightarrow> boundary = AllocationProjection
       \<and> unat (al_active_memory_ceiling_bytes r) < allocation_demand r
       \<and> unat shortfall = (if allocation_demand r < 18446744073709551616
                          then allocation_demand r - unat (al_active_memory_ceiling_bytes r)
                          else 18446744073709551615)"
  using u64_bound [of "al_active_memory_ceiling_bytes r"]
  by (auto simp: allocation_decide_def allocation_demand_def checked_add_def unat_add_exact word_less_nat_alt
      unat_saturating_sub unat_max_value unat_gt_0 not_less)

text \<open>The decision about a request's context growth: admission exactly when the projected peak fits the
  ceiling; demotion only while complete experts are resident; otherwise reclamation of exactly the
  excess when the retained payload covers it, and rejection with exactly what it cannot cover. A
  request whose recovery projection overflows a machine word is rejected with the largest shortfall.\<close>

lemma context_decision_correct:
  "case context_decide r of
     Admit \<Rightarrow> context_demand r \<le> unat (ca_active_memory_ceiling_bytes r)
   | DemoteCompleteResidency reassess \<Rightarrow> reassess \<and> ca_complete_experts_are_resident r
       \<and> unat (ca_active_memory_ceiling_bytes r) < context_demand r
   | Reclaim n \<Rightarrow> \<not> ca_complete_experts_are_resident r \<and> 0 < unat n
       \<and> n \<le> ca_retained_expert_payload_bytes r
       \<and> context_demand r = unat (ca_active_memory_ceiling_bytes r) + unat n
   | Reject boundary shortfall \<Rightarrow> boundary = StableActiveCeiling \<and>
       (\<not> context_representable r \<and> shortfall = max_value
        \<or> \<not> ca_complete_experts_are_resident r \<and> 0 < unat shortfall
          \<and> context_demand r = unat (ca_active_memory_ceiling_bytes r)
              + unat (ca_retained_expert_payload_bytes r) + unat shortfall)"
proof (cases "context_representable r")
  case True
  then show ?thesis
    using context_need_unat [OF True]
    by (auto simp: context_decide_eq Let_def word_le_nat_alt unat_saturating_sub)
qed (simp add: context_decide_eq)

text \<open>The ladder of a request ends: once complete experts are demoted, whatever memory is then
  measured, no further demotion is asked for; and after a reclamation order, releasing the ordered
  bytes out of the payload that active memory contains admits the request, while releasing fewer
  does not.\<close>

lemma context_ladder_ends:
  assumes "context_decide r = Reclaim n"
    and "ca_retained_expert_payload_bytes r \<le> ca_current_active_memory_bytes r"
  shows "context_decide (release_experts n r) = Admit
     \<and> (\<forall>m < n. context_decide (release_experts m r) \<noteq> Admit)
     \<and> context_decide (q\<lparr>ca_complete_experts_are_resident := False\<rparr>) \<noteq> DemoteCompleteResidency reassess"
proof -
  have rep: "context_representable r" and n: "n \<le> ca_retained_expert_payload_bytes r"
    "unat n = context_demand r - unat (ca_active_memory_ceiling_bytes r)"
    using assms(1) context_need_unat [of r] by (auto simp: context_decide_eq Let_def split: if_splits)
  have "context_decide (release_experts m r) = Admit \<longleftrightarrow> unat n \<le> unat m" if "m \<le> n" for m
  proof -
    have m: "m \<le> ca_current_active_memory_bytes r" using that n(1) assms(2) by simp
    have "ca_active_memory_ceiling_bytes (release_experts m r) = ca_active_memory_ceiling_bytes r"
      by (simp add: release_experts_def)
    with request_context.release_suffices_iff [OF rep release_experts_demand(2) [OF m rep]
        release_experts_demand(1) [OF m]] n(2)
    show ?thesis by simp
  qed
  then have "context_decide (release_experts n r) = Admit"
    "\<forall>m < n. context_decide (release_experts m r) \<noteq> Admit"
    by (auto simp: word_less_nat_alt word_le_nat_alt)
  then show ?thesis by (simp add: context_decide_eq Let_def)
qed

text \<open>The temporary workspace charged for a request with seated experts is the one that reaches the
  seated peak: whenever the peak of the two exclusive phases (restore, then serving) is
  representable, the workspace exists and current memory, context growth and the workspace add up
  to that peak; the request's charge adds the prefill activation, and it never exceeds the charge in paged mode.\<close>

lemma seated_workspace_reaches_peak:
  assumes "seated_complete_expert_request_peak_active_memory_bytes current growth restore publication = Some p"
    and "request_context_temporary_workspace_bytes False growth restore publication activation = Some paged"
  shows "\<exists>seated charge.
       seated_complete_expert_request_temporary_workspace_bytes growth restore publication = Some seated
     \<and> request_context_temporary_workspace_bytes True growth restore publication activation = Some charge
     \<and> unat current + unat growth + unat seated = unat p
     \<and> unat charge = unat seated + unat activation \<and> charge \<le> paged"
proof -
  have p: "unat p = unat current + max (unat growth) (unat restore) + unat publication"
    and paged: "unat paged = unat publication + unat restore + unat activation"
    using assms by (simp_all add: seated_peak_Some_iff request_workspace_Some_iff)
  let ?s = "unat publication + (unat restore - unat growth)"
  have "?s + unat activation < 18446744073709551616" using paged u64_bound [of paged] by linarith
  then have w: "unat (word_of_nat ?s :: usize) = ?s"
    "unat (word_of_nat (?s + unat activation) :: usize) = ?s + unat activation"
    by (simp_all only: unsigned_of_nat) (simp_all add: take_bit_nat_eq_self)
  show ?thesis
    by (rule exI [of _ "word_of_nat ?s"], rule exI [of _ "word_of_nat (?s + unat activation)"])
       (use w p paged in \<open>auto simp: seated_workspace_Some_iff request_workspace_Some_iff word_le_nat_alt
          simp del: of_nat_add\<close>)
qed

text \<open>Promotion to complete residency is admitted exactly when replacing the paged payload by the
  complete one leaves room for the headroom under the ceiling, and then reports that projection;
  otherwise it reports the projection and a positive shortfall, or the observation was impossible
  (more retained than active) or overflows.\<close>

lemma complete_residency_decision_exact:
  "case complete_residency_decide r of
     ResidencyAdmit projected headroom \<Rightarrow>
       unat projected + unat (cr_retained_paged_expert_payload_bytes r) =
         unat (cr_current_active_memory_bytes r) + unat (cr_complete_expert_payload_bytes r)
       \<and> headroom = cr_required_headroom_bytes r
       \<and> unat projected + unat headroom \<le> unat (cr_active_memory_ceiling_bytes r)
   | DoesNotFit boundary shortfall projected headroom \<Rightarrow>
       boundary = CompleteResidency
       \<and> unat projected + unat (cr_retained_paged_expert_payload_bytes r) =
         unat (cr_current_active_memory_bytes r) + unat (cr_complete_expert_payload_bytes r)
       \<and> unat (cr_active_memory_ceiling_bytes r) < unat projected + unat headroom
       \<and> unat shortfall = min (unat projected + unat headroom) 18446744073709551615
            - unat (cr_active_memory_ceiling_bytes r)
   | RejectInvalidObservation RetainedExpertPayloadExceedsActiveMemory \<Rightarrow>
       cr_current_active_memory_bytes r < cr_retained_paged_expert_payload_bytes r
   | RejectInvalidObservation CompleteResidencyProjectionOverflow \<Rightarrow>
       cr_retained_paged_expert_payload_bytes r \<le> cr_current_active_memory_bytes r
       \<and> 18446744073709551616 \<le> unat (cr_current_active_memory_bytes r)
           - unat (cr_retained_paged_expert_payload_bytes r) + unat (cr_complete_expert_payload_bytes r)"
proof (cases "projected_active_memory_after_complete_expert_replacement (cr_current_active_memory_bytes r)
    (cr_retained_paged_expert_payload_bytes r) (cr_complete_expert_payload_bytes r)")
  case (Inl e)
  then show ?thesis
    by (auto simp: complete_residency_decide_def projected_active_memory_after_complete_expert_replacement_def
        checked_sub_def checked_add_def unat_sub_exact not_le split: if_splits)
next
  case (Inr p)
  then have "unat (cr_retained_paged_expert_payload_bytes r) \<le> unat (cr_current_active_memory_bytes r)"
    "unat p = unat (cr_current_active_memory_bytes r) - unat (cr_retained_paged_expert_payload_bytes r)
       + unat (cr_complete_expert_payload_bytes r)"
    by (simp_all add: projected_after_replacement_iff)
  then show ?thesis
    by (auto simp: complete_residency_decide_def Inr exceeds_ceiling_iff unat_saturating_sub unat_saturating_add)
qed

end
