(* ===== verification/Ceiling.thy ===== *)
theory Ceiling
  imports Admission
begin

text \<open>
  The ceiling itself: how it is resolved from the machine, the configuration and the wired budget
  (\<^verbatim>\<open>serving_ceiling.rs\<close>), what a live change of it demands first (\<^verbatim>\<open>ceiling.rs\<close>), and what Neural
  Engine programs may take beside it (\<^verbatim>\<open>neural_engine_admission.rs\<close>,
  \<^verbatim>\<open>neural_engine_program_memory_watch.rs\<close>). Durations are natural numbers of nanoseconds.
\<close>

section \<open>Changing the live ceiling (ceiling.rs)\<close>

record MemoryCeilingChangeRequirements =
  cc_current_ceiling_bytes :: u64
  cc_requested_ceiling_bytes :: u64
  cc_minimum_safe_ceiling_bytes :: u64
  cc_current_active_memory_bytes :: u64
  cc_retained_paged_expert_payload_bytes :: u64
  cc_complete_experts_are_resident :: bool
  cc_complete_residency_required_headroom_bytes :: u64

datatype MemoryCeilingChangeDecision =
    Unchanged
  | Raise bool
  | Lower bool u64
  | CeilingReject MemoryBoundary u64

definition ceiling_change_decide :: "MemoryCeilingChangeRequirements \<Rightarrow> MemoryCeilingChangeDecision" where
  "ceiling_change_decide self =
     (if cc_requested_ceiling_bytes self < cc_minimum_safe_ceiling_bytes self
      then CeilingReject LiveCeilingMinimum
             (saturating_sub (cc_minimum_safe_ceiling_bytes self) (cc_requested_ceiling_bytes self))
      else if cc_requested_ceiling_bytes self = cc_current_ceiling_bytes self then Unchanged
      else if cc_current_ceiling_bytes self < cc_requested_ceiling_bytes self then Raise True
      else let required_reclamation_bytes =
                 saturating_sub (cc_current_active_memory_bytes self) (cc_requested_ceiling_bytes self);
               complete_residency_projection_bytes =
                 saturating_add (cc_current_active_memory_bytes self)
                   (cc_complete_residency_required_headroom_bytes self)
           in Lower
                (cc_complete_experts_are_resident self
                 \<and> cc_requested_ceiling_bytes self < complete_residency_projection_bytes)
                (if cc_complete_experts_are_resident self then 0
                 else if required_reclamation_bytes < cc_retained_paged_expert_payload_bytes self
                 then required_reclamation_bytes
                 else cc_retained_paged_expert_payload_bytes self))"

section \<open>Resolving the ceiling (serving\_ceiling.rs)\<close>

definition BYTES_PER_MARKETED_GIGABYTE :: u64 where
  "BYTES_PER_MARKETED_GIGABYTE = 1073741824"

definition OPERATING_SYSTEM_SURVIVAL_RESERVE_BYTES :: u64 where
  "OPERATING_SYSTEM_SURVIVAL_RESERVE_BYTES = 8 * BYTES_PER_MARKETED_GIGABYTE"

definition MINIMUM_MACHINE_MLX_MEMORY_CEILING_BYTES :: u64 where
  "MINIMUM_MACHINE_MLX_MEMORY_CEILING_BYTES = BYTES_PER_MARKETED_GIGABYTE"

definition METAL_WORKING_SET_MARGIN_PARTS_PER_THOUSAND :: u64 where
  "METAL_WORKING_SET_MARGIN_PARTS_PER_THOUSAND = 25"

definition machine_ceiling_from_physical_ram_bytes :: "u64 \<Rightarrow> u64" where
  "machine_ceiling_from_physical_ram_bytes physical_ram_bytes =
     (let ceiling_after_reserve_bytes =
            saturating_sub physical_ram_bytes OPERATING_SYSTEM_SURVIVAL_RESERVE_BYTES
      in if ceiling_after_reserve_bytes < MINIMUM_MACHINE_MLX_MEMORY_CEILING_BYTES
         then MINIMUM_MACHINE_MLX_MEMORY_CEILING_BYTES else ceiling_after_reserve_bytes)"

definition effective_mlx_memory_ceiling_bytes :: "u64 option \<Rightarrow> u64 \<Rightarrow> u64" where
  "effective_mlx_memory_ceiling_bytes configured machine =
     (case configured of
        Some c \<Rightarrow> if c < machine then c else machine
      | None \<Rightarrow> machine)"

definition plannable_wired_residency_bytes :: "u64 \<Rightarrow> u64" where
  "plannable_wired_residency_bytes claimed =
     saturating_sub claimed (claimed div 1000 * METAL_WORKING_SET_MARGIN_PARTS_PER_THOUSAND)"

definition effective_mlx_memory_ceiling_after_wired_claim :: "u64 \<Rightarrow> u64 option \<Rightarrow> u64" where
  "effective_mlx_memory_ceiling_after_wired_claim effective claimed =
     (case claimed of
        Some claim \<Rightarrow>
          let plannable = plannable_wired_residency_bytes claim
          in if plannable < effective then plannable else effective
      | None \<Rightarrow> effective)"

section \<open>Neural Engine programs\<close>

record NeuralEnginePrefillMemoryRequirements =
  ne_resident_model_payload_bytes :: u64
  ne_one_chunk_state_bytes :: u64
  ne_program_bytes :: u64
  ne_active_memory_ceiling_bytes :: u64

datatype NeuralEnginePrefillAdmission = Admitted | Refused u64

definition neural_engine_decide ::
  "NeuralEnginePrefillMemoryRequirements \<Rightarrow> NeuralEnginePrefillAdmission" where
  "neural_engine_decide self =
     (let required_bytes =
            saturating_add (saturating_add (ne_resident_model_payload_bytes self)
              (ne_one_chunk_state_bytes self)) (ne_program_bytes self)
      in if required_bytes \<le> ne_active_memory_ceiling_bytes self then Admitted
         else Refused required_bytes)"

definition chunk_fits_beside_programs :: "u64 \<Rightarrow> u64 \<Rightarrow> u64 \<Rightarrow> bool" where
  "chunk_fits_beside_programs projected_chunk_peak_bytes program_bytes ceiling_bytes \<longleftrightarrow>
     saturating_add projected_chunk_peak_bytes program_bytes \<le> ceiling_bytes"

definition SETTLED_WIRED_GROWTH_DURATION :: nat where
  "SETTLED_WIRED_GROWTH_DURATION = 1500000000"

definition SMALLEST_MEANINGFUL_RISE_DIVISOR :: u64 where
  "SMALLEST_MEANINGFUL_RISE_DIVISOR = 64"

definition SMALLEST_MEANINGFUL_RISE_BYTES :: u64 where
  "SMALLEST_MEANINGFUL_RISE_BYTES = 64 * 1024 * 1024"

record ProgramMemoryWatch =
  pw_weight_bytes :: u64
  pw_highest_growth_bytes :: u64
  pw_last_rise_at :: nat

definition program_watch_new :: "u64 \<Rightarrow> ProgramMemoryWatch" where
  "program_watch_new weight_bytes =
     \<lparr>pw_weight_bytes = weight_bytes, pw_highest_growth_bytes = 0, pw_last_rise_at = 0\<rparr>"

definition smallest_meaningful_rise_bytes :: "ProgramMemoryWatch \<Rightarrow> u64" where
  "smallest_meaningful_rise_bytes self =
     (let share_of_weights = pw_weight_bytes self div SMALLEST_MEANINGFUL_RISE_DIVISOR
      in if SMALLEST_MEANINGFUL_RISE_BYTES < share_of_weights
         then share_of_weights else SMALLEST_MEANINGFUL_RISE_BYTES)"

definition watch_observe :: "ProgramMemoryWatch \<Rightarrow> u64 \<Rightarrow> nat \<Rightarrow> ProgramMemoryWatch \<times> bool" where
  "watch_observe self wired_growth_bytes elapsed =
     (let rise_needed = saturating_add (pw_highest_growth_bytes self) (smallest_meaningful_rise_bytes self);
          self' = (if rise_needed < wired_growth_bytes
                   then self\<lparr>pw_highest_growth_bytes := wired_growth_bytes, pw_last_rise_at := elapsed\<rparr>
                   else self)
      in (self', pw_weight_bytes self' \<le> pw_highest_growth_bytes self'
                 \<and> SETTLED_WIRED_GROWTH_DURATION \<le> elapsed - pw_last_rise_at self'))"

definition wired_bytes :: "ProgramMemoryWatch \<Rightarrow> u64" where
  "wired_bytes self =
     (if pw_weight_bytes self < pw_highest_growth_bytes self
      then pw_highest_growth_bytes self else pw_weight_bytes self)"

section \<open>Specification\<close>

text \<open>Feeding a watch a list of readings.\<close>

fun watch_run :: "(u64 \<times> nat) list \<Rightarrow> ProgramMemoryWatch \<Rightarrow> ProgramMemoryWatch" where
  "watch_run [] w = w"
| "watch_run ((growth, elapsed) # readings) w = watch_run readings (fst (watch_observe w growth elapsed))"

definition neural_engine_demand :: "NeuralEnginePrefillMemoryRequirements \<Rightarrow> nat" where
  "neural_engine_demand r = unat (ne_resident_model_payload_bytes r) + unat (ne_one_chunk_state_bytes r)
     + unat (ne_program_bytes r)"

definition sample_lower :: MemoryCeilingChangeRequirements where
  "sample_lower = \<lparr>cc_current_ceiling_bytes = 1000, cc_requested_ceiling_bytes = 700,
     cc_minimum_safe_ceiling_bytes = 620, cc_current_active_memory_bytes = 900,
     cc_retained_paged_expert_payload_bytes = 300, cc_complete_experts_are_resident = False,
     cc_complete_residency_required_headroom_bytes = 0\<rparr>"

section \<open>Lemmas\<close>

text \<open>Saturation refuses every demand above the word except under the one ceiling that is the
  largest word; below it the decisions are exact.\<close>

interpretation neural_engine: ceiling_admission "\<lambda>r. neural_engine_decide r = Admitted"
  neural_engine_demand "\<lambda>r. unat (ne_active_memory_ceiling_bytes r)"
  "\<lambda>r. ne_active_memory_ceiling_bytes r \<noteq> max_value"
proof
  fix r :: NeuralEnginePrefillMemoryRequirements
  assume "ne_active_memory_ceiling_bytes r \<noteq> max_value"
  then have "unat (ne_active_memory_ceiling_bytes r) < 18446744073709551615"
    using u64_bound_le [of "ne_active_memory_ceiling_bytes r"] by (simp add: word_unat_eq_iff unat_max_value)
  then show "(neural_engine_decide r = Admitted) \<longleftrightarrow>
      neural_engine_demand r \<le> unat (ne_active_memory_ceiling_bytes r)"
    by (simp add: neural_engine_decide_def Let_def word_le_nat_alt unat_saturating_add min_sum_saturates
        neural_engine_demand_def min_le_iff_disj)
qed

interpretation program_chunk: ceiling_admission
  "\<lambda>(peak, programs, c). chunk_fits_beside_programs peak programs c"
  "\<lambda>(peak, programs, c). unat peak + unat programs" "\<lambda>(peak, programs, c). unat c"
  "\<lambda>(peak, programs, c). c \<noteq> max_value"
proof (unfold_locales, clarify)
  fix peak programs c :: u64
  assume "c \<noteq> max_value"
  then have "unat c < 18446744073709551615"
    using u64_bound_le [of c] by (simp add: word_unat_eq_iff unat_max_value)
  then show "chunk_fits_beside_programs peak programs c = (unat peak + unat programs \<le> unat c)"
    by (simp add: chunk_fits_beside_programs_def word_le_nat_alt unat_saturating_add min_le_iff_disj)
qed

lemma unat_wired_margin:
  "unat (claimed div 1000 * METAL_WORKING_SET_MARGIN_PARTS_PER_THOUSAND) = unat claimed div 1000 * 25"
proof -
  have "unat claimed div 1000 * 25 \<le> unat claimed" by simp
  then show ?thesis using u64_bound [of claimed]
    by (simp add: METAL_WORKING_SET_MARGIN_PARTS_PER_THOUSAND_def unat_mult_exact unat_div)
qed

lemma unat_plannable:
  "unat (plannable_wired_residency_bytes claimed) = unat claimed - unat claimed div 1000 * 25"
  by (simp only: plannable_wired_residency_bytes_def unat_saturating_sub unat_wired_margin)

lemma unat_machine_ceiling:
  "unat (machine_ceiling_from_physical_ram_bytes ram) = max (unat ram - 8589934592) 1073741824"
  by (simp add: machine_ceiling_from_physical_ram_bytes_def Let_def word_less_nat_alt unat_saturating_sub
      OPERATING_SYSTEM_SURVIVAL_RESERVE_BYTES_def MINIMUM_MACHINE_MLX_MEMORY_CEILING_BYTES_def
      BYTES_PER_MARKETED_GIGABYTE_def)

lemma unat_effective_ceiling:
  "unat (effective_mlx_memory_ceiling_bytes configured machine) =
     (case configured of Some c \<Rightarrow> min (unat c) (unat machine) | None \<Rightarrow> unat machine)"
  by (simp add: effective_mlx_memory_ceiling_bytes_def word_less_nat_alt split: option.split)

lemma unat_ceiling_after_claim:
  "unat (effective_mlx_memory_ceiling_after_wired_claim effective claimed) =
     (case claimed of Some c \<Rightarrow> min (unat c - unat c div 1000 * 25) (unat effective) | None \<Rightarrow> unat effective)"
  by (simp add: effective_mlx_memory_ceiling_after_wired_claim_def Let_def word_less_nat_alt unat_plannable
      split: option.split)

lemma watch_observe_fields:
  "pw_weight_bytes (fst (watch_observe w g t)) = pw_weight_bytes w"
  "pw_highest_growth_bytes w \<le> pw_highest_growth_bytes (fst (watch_observe w g t))"
  "unat g \<le> unat (pw_highest_growth_bytes (fst (watch_observe w g t)))
     + unat (smallest_meaningful_rise_bytes w)"
  using u64_bound_le [of g]
  by (auto simp: watch_observe_def Let_def word_less_nat_alt word_le_nat_alt unat_saturating_add)

lemma watch_run_weight [simp]: "pw_weight_bytes (watch_run readings w) = pw_weight_bytes w"
  by (induction readings w rule: watch_run.induct) (simp_all add: watch_observe_fields)

lemma smallest_rise_weight:
  "pw_weight_bytes w = pw_weight_bytes w' \<Longrightarrow> smallest_meaningful_rise_bytes w = smallest_meaningful_rise_bytes w'"
  by (simp add: smallest_meaningful_rise_bytes_def)

lemma watch_run_highest:
  "pw_highest_growth_bytes w \<le> pw_highest_growth_bytes (watch_run readings w)
   \<and> (\<forall>(g, t) \<in> set readings. unat g \<le> unat (pw_highest_growth_bytes (watch_run readings w))
        + unat (smallest_meaningful_rise_bytes w))"
proof (induction readings w rule: watch_run.induct)
  case (2 g t readings w)
  have "smallest_meaningful_rise_bytes (fst (watch_observe w g t)) = smallest_meaningful_rise_bytes w"
    by (rule smallest_rise_weight) (rule watch_observe_fields)
  with 2 watch_observe_fields(2,3) [where w = w and g = g and t = t] show ?case
    by (auto simp: word_le_nat_alt)
qed simp

lemma watch_run_origin:
  "(pw_highest_growth_bytes (watch_run readings w), pw_last_rise_at (watch_run readings w))
     \<in> insert (pw_highest_growth_bytes w, pw_last_rise_at w) (set readings)"
proof (induction readings w rule: watch_run.induct)
  case (2 g t readings w)
  then show ?case by (auto simp: watch_observe_def Let_def split: if_splits)
qed simp

section \<open>Properties\<close>

text \<open>A ceiling change is rejected exactly below the safe minimum, with the exact shortfall; equal is
  unchanged and larger is a raise. A lower ceiling demotes complete experts exactly when they and
  their headroom no longer fit, and otherwise orders the least reclamation; when the safe minimum
  was computed from the same memory, the ordered reclamation always brings paged ownership under
  the new ceiling with a page to spare.\<close>

lemma ceiling_change_decision_exact:
  fixes r
  defines "active \<equiv> unat (cc_current_active_memory_bytes r)"
    and "retained \<equiv> unat (cc_retained_paged_expert_payload_bytes r)"
    and "requested \<equiv> unat (cc_requested_ceiling_bytes r)"
  shows "case ceiling_change_decide r of
     CeilingReject boundary shortfall \<Rightarrow> boundary = LiveCeilingMinimum \<and> 0 < unat shortfall
       \<and> requested + unat shortfall = unat (cc_minimum_safe_ceiling_bytes r)
   | Unchanged \<Rightarrow> cc_requested_ceiling_bytes r = cc_current_ceiling_bytes r
   | Raise may_attempt \<Rightarrow> may_attempt \<and> cc_current_ceiling_bytes r < cc_requested_ceiling_bytes r
   | Lower must_demote reclaim \<Rightarrow>
       cc_minimum_safe_ceiling_bytes r \<le> cc_requested_ceiling_bytes r
       \<and> cc_requested_ceiling_bytes r < cc_current_ceiling_bytes r
       \<and> (must_demote \<longleftrightarrow> cc_complete_experts_are_resident r
            \<and> requested < active + unat (cc_complete_residency_required_headroom_bytes r))
       \<and> (cc_complete_experts_are_resident r \<longrightarrow> reclaim = 0)
       \<and> (\<not> cc_complete_experts_are_resident r \<longrightarrow> unat reclaim = min (active - requested) retained)
       \<and> (\<not> cc_complete_experts_are_resident r
          \<and> cc_minimum_safe_ceiling_bytes r = safe_minimum_active_memory_ceiling_bytes
              (cc_current_active_memory_bytes r) (cc_retained_paged_expert_payload_bytes r) page
          \<longrightarrow> active - unat reclaim \<le> requested \<and> active - retained + unat page \<le> requested)"
proof (cases "cc_requested_ceiling_bytes r < cc_current_ceiling_bytes r
    \<and> \<not> cc_requested_ceiling_bytes r < cc_minimum_safe_ceiling_bytes r")
  case True
  then have small: "requested < 18446744073709551615"
    using u64_bound_le [of "cc_current_ceiling_bytes r"] by (simp add: requested_def word_less_nat_alt)
  have demote: "cc_requested_ceiling_bytes r < saturating_add (cc_current_active_memory_bytes r)
        (cc_complete_residency_required_headroom_bytes r) \<longleftrightarrow>
      requested < active + unat (cc_complete_residency_required_headroom_bytes r)"
    using small by (simp add: word_less_nat_alt unat_saturating_add requested_def active_def min_def)
  have safe: "active - retained + unat page \<le> requested"
    if "cc_minimum_safe_ceiling_bytes r = safe_minimum_active_memory_ceiling_bytes
          (cc_current_active_memory_bytes r) (cc_retained_paged_expert_payload_bytes r) page"
  proof -
    have "min (active - retained + unat page) 18446744073709551615 \<le> requested"
      using True that
      by (simp add: safe_minimum_active_memory_ceiling_bytes_def word_less_nat_alt unat_saturating_add
          unat_saturating_sub requested_def active_def retained_def not_less min_le_iff_disj)
    with small show ?thesis by (simp add: min_le_iff_disj)
  qed
  from True show ?thesis
    using demote safe
    by (auto simp: ceiling_change_decide_def Let_def not_less word_less_nat_alt word_le_nat_alt
        unat_saturating_sub requested_def active_def retained_def)
next
  case False
  then show ?thesis
    by (auto simp: ceiling_change_decide_def Let_def word_less_nat_alt word_unat_eq_iff unat_saturating_sub
        requested_def)
qed

text \<open>The ceiling the engine plans against is the least of the machine bound, the configured value and
  the plannable part of the wired claim, and each part is exact: the machine keeps 8 GB for the system
  (but serves at least 1 GB), and the plannable part leaves free at least 2.5 percent of the claim,
  short of it by less than 25 bytes from rounding.\<close>

lemma resolved_ceiling_exact:
  fixes ram configured claimed
  defines "c \<equiv> unat (effective_mlx_memory_ceiling_after_wired_claim
     (effective_mlx_memory_ceiling_bytes configured (machine_ceiling_from_physical_ram_bytes ram)) claimed)"
    and "machine \<equiv> max (unat ram - 8589934592) 1073741824"
  shows "c = min machine (min (case configured of Some v \<Rightarrow> unat v | None \<Rightarrow> machine)
                              (case claimed of Some w \<Rightarrow> unat (plannable_wired_residency_bytes w) | None \<Rightarrow> machine))
     \<and> (\<forall>w. 1000 * unat (plannable_wired_residency_bytes w) < 975 * unat w + 25000
          \<and> 975 * unat w \<le> 1000 * unat (plannable_wired_residency_bytes w))"
proof
  show "c = min machine (min (case configured of Some v \<Rightarrow> unat v | None \<Rightarrow> machine)
      (case claimed of Some w \<Rightarrow> unat (plannable_wired_residency_bytes w) | None \<Rightarrow> machine))"
    unfolding c_def machine_def
    by (simp add: unat_ceiling_after_claim unat_effective_ceiling unat_machine_ceiling unat_plannable min.commute
        min.left_commute split: option.split)
  show "\<forall>w. 1000 * unat (plannable_wired_residency_bytes w) < 975 * unat w + 25000
      \<and> 975 * unat w \<le> 1000 * unat (plannable_wired_residency_bytes w)"
  proof
    fix w :: u64
    define q m where "q = unat w div 1000" and "m = unat w mod 1000"
    have "unat w = 1000 * q + m" "m < 1000" by (simp_all add: q_def m_def)
    then show "1000 * unat (plannable_wired_residency_bytes w) < 975 * unat w + 25000
        \<and> 975 * unat w \<le> 1000 * unat (plannable_wired_residency_bytes w)"
      unfolding unat_plannable q_def [symmetric] by simp
  qed
qed

text \<open>A watch over the wired memory of Neural Engine programs that reports settled after any readings
  has seen at least their weights; every reading is within one meaningful rise of what it reports;
  what it reports is either the weights or a reading, and the last rise lies at least 1.5 seconds back.\<close>

lemma program_watch_settled:
  fixes readings weights g t
  defines "w \<equiv> watch_run readings (program_watch_new weights)"
  assumes "watch_observe w g t = (w', True)"
  shows "weights \<le> pw_highest_growth_bytes w' \<and> wired_bytes w' = pw_highest_growth_bytes w'
     \<and> (\<forall>(h, s) \<in> set (readings @ [(g, t)]).
          unat h \<le> unat (wired_bytes w') + unat (smallest_meaningful_rise_bytes w'))
     \<and> (pw_highest_growth_bytes w', pw_last_rise_at w') \<in> insert (0, 0) (set (readings @ [(g, t)]))
     \<and> pw_last_rise_at w' + 1500000000 \<le> t"
proof -
  have w': "w' = watch_run (readings @ [(g, t)]) (program_watch_new weights)"
  proof -
    have "watch_run (xs @ [(g, t)]) v = fst (watch_observe (watch_run xs v) g t)" for xs v
      by (induction xs v rule: watch_run.induct) simp_all
    with assms show ?thesis by simp
  qed
  have weight: "pw_weight_bytes w' = weights" by (simp add: w' program_watch_new_def)
  have settled: "pw_weight_bytes w' \<le> pw_highest_growth_bytes w'" "1500000000 \<le> t - pw_last_rise_at w'"
    using assms(2) by (auto simp: watch_observe_def Let_def SETTLED_WIRED_GROWTH_DURATION_def)
  then have wired: "wired_bytes w' = pw_highest_growth_bytes w'" by (auto simp: wired_bytes_def)
  have "smallest_meaningful_rise_bytes (program_watch_new weights) = smallest_meaningful_rise_bytes w'"
    by (rule smallest_rise_weight) (simp add: weight program_watch_new_def)
  then have "\<forall>(h, s) \<in> set (readings @ [(g, t)]).
      unat h \<le> unat (wired_bytes w') + unat (smallest_meaningful_rise_bytes w')"
    using watch_run_highest [where w = "program_watch_new weights" and readings = "readings @ [(g, t)]"] wired
    by (auto simp: w' [symmetric])
  moreover have "(pw_highest_growth_bytes w', pw_last_rise_at w') \<in> insert (0, 0) (set (readings @ [(g, t)]))"
    using watch_run_origin [of "readings @ [(g, t)]" "program_watch_new weights"]
    unfolding w' [symmetric] by (simp add: program_watch_new_def)
  ultimately show ?thesis using settled wired weight by auto
qed

end
