(* ===== verification/Placement.thy ===== *)
theory Placement
  imports Admission
begin

text \<open>
  Where the experts live: the placement lifecycle of a loaded worker (\<^verbatim>\<open>placement/engine_placement.rs\<close>),
  the gate that returns a demoted worker to the resident engine (\<^verbatim>\<open>placement/resident_promotion.rs\<close>,
  \<^verbatim>\<open>residency/promotion_on_raise.rs\<close>), the headroom boundary (\<^verbatim>\<open>residency/complete_headroom.rs\<close>) and
  the two classifications of ownership reported to the user (\<^verbatim>\<open>residency/ownership_mode.rs\<close>,
  \<^verbatim>\<open>residency/observed_mode.rs\<close>).
\<close>

section \<open>Placement\<close>

datatype EnginePlacement =
    CompleteResidencyFits
  | CompleteResidencyDoesNotFit u64
  | DemotedForRequest StreamingEngineRequirement usize
  | PromotedAfterPressureResolved

fun from_startup_complete_residency_decision ::
  "CompleteResidencyDecision \<Rightarrow> ExpertMemoryAdmissionError + EnginePlacement" where
  "from_startup_complete_residency_decision (ResidencyAdmit _ _) = Inr CompleteResidencyFits"
| "from_startup_complete_residency_decision (DoesNotFit _ shortfall_bytes _ _) =
     Inr (CompleteResidencyDoesNotFit shortfall_bytes)"
| "from_startup_complete_residency_decision (RejectInvalidObservation e) = Inl e"

fun runs_resident_engine :: "EnginePlacement \<Rightarrow> bool" where
  "runs_resident_engine CompleteResidencyFits = True"
| "runs_resident_engine PromotedAfterPressureResolved = True"
| "runs_resident_engine _ = False"

fun is_demoted_for_request :: "EnginePlacement \<Rightarrow> bool" where
  "is_demoted_for_request (DemotedForRequest _ _) = True"
| "is_demoted_for_request _ = False"

fun demotion_cause :: "EnginePlacement \<Rightarrow> StreamingEngineRequirement option" where
  "demotion_cause (DemotedForRequest cause _) = Some cause"
| "demotion_cause _ = None"

fun demoted_total_context_token_count :: "EnginePlacement \<Rightarrow> usize option" where
  "demoted_total_context_token_count (DemotedForRequest _ tokens) = Some tokens"
| "demoted_total_context_token_count _ = None"

fun placement_log_label :: "EnginePlacement \<Rightarrow> string" where
  "placement_log_label CompleteResidencyFits = ''complete_residency_fits''"
| "placement_log_label (CompleteResidencyDoesNotFit _) = ''complete_residency_does_not_fit''"
| "placement_log_label (DemotedForRequest _ _) = ''demoted_for_request''"
| "placement_log_label PromotedAfterPressureResolved = ''promoted_after_pressure_resolved''"

section \<open>The promotion gate\<close>

record StreamingStartupResidencyFacts =
  sf_model_core_payload_bytes :: u64
  sf_complete_expert_payload_bytes :: u64
  sf_startup_complete_residency_headroom_bytes :: u64
  sf_sequence_state_bytes_per_token :: u64

definition startup_requirements ::
  "StreamingStartupResidencyFacts \<Rightarrow> u64 \<Rightarrow> u64 \<Rightarrow> CompleteResidencyRequirements" where
  "startup_requirements self required_headroom_bytes ceiling_bytes =
     \<lparr>cr_current_active_memory_bytes = sf_model_core_payload_bytes self,
      cr_retained_paged_expert_payload_bytes = 0,
      cr_complete_expert_payload_bytes = sf_complete_expert_payload_bytes self,
      cr_required_headroom_bytes = required_headroom_bytes,
      cr_active_memory_ceiling_bytes = ceiling_bytes\<rparr>"

definition raised_ceiling_selects_complete_residency :: "StreamingStartupResidencyFacts \<Rightarrow> u64 \<Rightarrow> bool" where
  "raised_ceiling_selects_complete_residency self raised_ceiling_bytes =
     (case complete_residency_decide (startup_requirements self
             (sf_startup_complete_residency_headroom_bytes self) raised_ceiling_bytes) of
        ResidencyAdmit _ _ \<Rightarrow> True | _ \<Rightarrow> False)"

definition complete_residency_admits_request_context ::
  "StreamingStartupResidencyFacts \<Rightarrow> u64 \<Rightarrow> usize \<Rightarrow> bool" where
  "complete_residency_admits_request_context self effective_ceiling_bytes total_context_tokens =
     (let request_context_reserve_bytes =
            saturating_mul (sf_sequence_state_bytes_per_token self) total_context_tokens
      in case complete_residency_decide (startup_requirements self
             (saturating_add (sf_startup_complete_residency_headroom_bytes self) request_context_reserve_bytes)
             effective_ceiling_bytes) of
           ResidencyAdmit _ _ \<Rightarrow> True | _ \<Rightarrow> False)"

datatype ResidentPromotionBlocker =
    NotDemotedForRequest
  | ResidentPromotionUnsupportedByFactory
  | CompleteResidencyDoesNotFitAtEffectiveCeiling
  | IncomingContextNotBelowDemotionContext usize usize
  | IncomingRequestContextDoesNotFitCompleteResidency usize

datatype ResidentPromotionDecision = PromoteToResident | StayStreaming ResidentPromotionBlocker

definition should_promote_demoted_streaming_engine_to_resident ::
  "EnginePlacement \<Rightarrow> bool \<Rightarrow> StreamingStartupResidencyFacts \<Rightarrow> u64 \<Rightarrow> usize \<Rightarrow> ResidentPromotionDecision" where
  "should_promote_demoted_streaming_engine_to_resident placement factory_supports facts effective_ceiling
     incoming_tokens =
     (if \<not> is_demoted_for_request placement then StayStreaming NotDemotedForRequest
      else if \<not> factory_supports then StayStreaming ResidentPromotionUnsupportedByFactory
      else if \<not> raised_ceiling_selects_complete_residency facts effective_ceiling
      then StayStreaming CompleteResidencyDoesNotFitAtEffectiveCeiling
      else case demoted_total_context_token_count placement of
             None \<Rightarrow> StayStreaming NotDemotedForRequest
           | Some demoted_tokens \<Rightarrow>
               if demoted_tokens \<le> incoming_tokens
               then StayStreaming (IncomingContextNotBelowDemotionContext incoming_tokens demoted_tokens)
               else if \<not> complete_residency_admits_request_context facts effective_ceiling incoming_tokens
               then StayStreaming (IncomingRequestContextDoesNotFitCompleteResidency incoming_tokens)
               else PromoteToResident)"

section \<open>Headroom boundary and ownership modes\<close>

record CompleteResidencyHeadroomBoundary =
  hb_static_complete_residency_bytes :: u64
  hb_complete_expert_payload_bytes :: u64
  hb_required_headroom_bytes :: u64

definition from_model_geometry ::
  "MlxRamBudgetModelGeometry \<Rightarrow> u64 \<Rightarrow> CompleteResidencyHeadroomBoundary" where
  "from_model_geometry geometry required_headroom_bytes =
     \<lparr>hb_static_complete_residency_bytes =
        saturating_add (geo_model_core_payload_bytes geometry) (geo_complete_expert_payload_bytes geometry),
      hb_complete_expert_payload_bytes = geo_complete_expert_payload_bytes geometry,
      hb_required_headroom_bytes = required_headroom_bytes\<rparr>"

definition paging_ceiling_bytes :: "CompleteResidencyHeadroomBoundary \<Rightarrow> u64 option" where
  "paging_ceiling_bytes self =
     (if hb_complete_expert_payload_bytes self = 0 \<or> hb_required_headroom_bytes self = 0 then None
      else Some (saturating_sub
             (saturating_add (hb_complete_expert_payload_bytes self) (hb_required_headroom_bytes self)) 1))"

datatype ExpertMemoryMode = ModeResident | ModeHybrid | ModePaged

definition classify_expert_memory_mode :: "bool \<Rightarrow> bool \<Rightarrow> u64 \<Rightarrow> ExpertMemoryMode" where
  "classify_expert_memory_mode complete_sparse_owner_is_installed sparse_expert_paging_is_configured
     retained_paged_expert_payload_bytes =
     (if complete_sparse_owner_is_installed \<or> \<not> sparse_expert_paging_is_configured then ModeResident
      else if 0 < retained_paged_expert_payload_bytes then ModeHybrid
      else ModePaged)"

definition observed_expert_memory_mode :: "ExpertMemoryMode \<Rightarrow> u64 \<Rightarrow> ExpertMemoryMode" where
  "observed_expert_memory_mode engine_ownership_classification observed_expert_storage_read_bytes =
     (if observed_expert_storage_read_bytes = 0 then ModeResident
      else case engine_ownership_classification of
             ModeResident \<Rightarrow> ModeHybrid
           | classified \<Rightarrow> classified)"

definition sample_facts :: StreamingStartupResidencyFacts where
  "sample_facts = \<lparr>sf_model_core_payload_bytes = 100, sf_complete_expert_payload_bytes = 600,
     sf_startup_complete_residency_headroom_bytes = 50, sf_sequence_state_bytes_per_token = 2\<rparr>"

section \<open>Lemmas\<close>

lemma residency_admits_iff:
  "(case complete_residency_decide (startup_requirements facts h c) of ResidencyAdmit _ _ \<Rightarrow> True | _ \<Rightarrow> False)
   \<longleftrightarrow> unat (sf_model_core_payload_bytes facts) + unat (sf_complete_expert_payload_bytes facts) + unat h \<le> unat c"
proof -
  let ?r = "startup_requirements facts h c"
  have valid: "cr_retained_paged_expert_payload_bytes ?r \<le> cr_current_active_memory_bytes ?r"
    by (simp add: startup_requirements_def)
  have "(case complete_residency_decide ?r of ResidencyAdmit _ _ \<Rightarrow> True | _ \<Rightarrow> False) \<longleftrightarrow>
      complete_residency_decide ?r = ResidencyAdmit (cr_current_active_memory_bytes ?r
        - cr_retained_paged_expert_payload_bytes ?r + cr_complete_expert_payload_bytes ?r)
        (cr_required_headroom_bytes ?r)"
    by (auto simp: complete_residency_decide_def startup_requirements_def checked_sub_def checked_add_def
        projected_active_memory_after_complete_expert_replacement_def)
  then show ?thesis
    unfolding residency.admits_iff [OF valid] by (simp add: residency_demand_def startup_requirements_def)
qed

lemma startup_selects_iff:
  "raised_ceiling_selects_complete_residency facts c \<longleftrightarrow>
     unat (sf_model_core_payload_bytes facts) + unat (sf_complete_expert_payload_bytes facts)
       + unat (sf_startup_complete_residency_headroom_bytes facts) \<le> unat c"
  by (simp only: raised_ceiling_selects_complete_residency_def residency_admits_iff)

lemma request_context_fits_iff:
  assumes "c \<noteq> max_value"
  shows "complete_residency_admits_request_context facts c n \<longleftrightarrow>
     unat (sf_model_core_payload_bytes facts) + unat (sf_complete_expert_payload_bytes facts)
       + unat (sf_startup_complete_residency_headroom_bytes facts)
       + unat (sf_sequence_state_bytes_per_token facts) * unat n \<le> unat c"
proof -
  have "unat c < 18446744073709551615"
    using assms u64_bound_le [of c] by (simp add: word_unat_eq_iff unat_max_value)
  then show ?thesis
    unfolding complete_residency_admits_request_context_def Let_def residency_admits_iff
    by (auto simp: unat_saturating_add unat_saturating_mul min_def)
qed

text \<open>The reported mode is never resident for a request that read expert storage.\<close>

lemma observed_mode_resident_iff: "observed_expert_memory_mode mode bytes = ModeResident \<longleftrightarrow> bytes = 0"
  by (cases mode) (simp_all add: observed_expert_memory_mode_def)

lemma paging_ceiling_between:
  "\<lbrakk>paging_ceiling_bytes b = Some c;
    unat (hb_complete_expert_payload_bytes b) + unat (hb_required_headroom_bytes b) < 18446744073709551616\<rbrakk>
   \<Longrightarrow> hb_complete_expert_payload_bytes b \<le> c
     \<and> unat c < unat (hb_complete_expert_payload_bytes b) + unat (hb_required_headroom_bytes b)"
  by (auto simp: paging_ceiling_bytes_def word_le_nat_alt unat_saturating_sub unat_saturating_add
      word_unat_eq_iff min_def split: if_splits)

section \<open>Properties\<close>

text \<open>The gate promotes a worker exactly when a request demoted it, the factory can build a resident
  engine, the incoming context is strictly smaller than the one that demoted it, and core, experts,
  startup headroom and the request's own decoder state together fit the effective ceiling. A
  promotion never disagrees with startup: the same facts at the same ceiling place a new worker on
  the resident engine.\<close>

lemma promotion_gate_exact:
  assumes "c \<noteq> max_value"
  shows "(should_promote_demoted_streaming_engine_to_resident p supports facts c n = PromoteToResident \<longleftrightarrow>
       supports \<and> (\<exists>cause demoted. p = DemotedForRequest cause demoted \<and> n < demoted)
       \<and> unat (sf_model_core_payload_bytes facts) + unat (sf_complete_expert_payload_bytes facts)
           + unat (sf_startup_complete_residency_headroom_bytes facts)
           + unat (sf_sequence_state_bytes_per_token facts) * unat n \<le> unat c)
     \<and> (should_promote_demoted_streaming_engine_to_resident p supports facts c n = PromoteToResident \<longrightarrow>
         from_startup_complete_residency_decision (complete_residency_decide
           (startup_requirements facts (sf_startup_complete_residency_headroom_bytes facts) c))
         = Inr CompleteResidencyFits)"
proof -
  have "from_startup_complete_residency_decision (complete_residency_decide
      (startup_requirements facts (sf_startup_complete_residency_headroom_bytes facts) c)) = Inr CompleteResidencyFits
      \<longleftrightarrow> raised_ceiling_selects_complete_residency facts c"
    by (auto simp: raised_ceiling_selects_complete_residency_def split: CompleteResidencyDecision.split)
  then show ?thesis
    by (cases p) (auto simp: should_promote_demoted_streaming_engine_to_resident_def not_le
        startup_selects_iff request_context_fits_iff [OF assms])
qed

end
