(* ===== verification/Residency_Types.thy ===== *)
theory Residency_Types
  imports Vocabulary
begin

text \<open>
  \<^verbatim>\<open>residency/types.rs\<close> and \<^verbatim>\<open>residency/validation.rs\<close>: the geometry and the current ownership of the
  sparse layers, the targets of a plan, and the fail-closed validation every plan starts with.
  Layer indexes and expert identifiers are only compared and used as positions, so they are natural
  numbers; every byte count and every capacity keeps its 64 bits. \<open>inputs_wf\<close> is what validation
  establishes and every planner relies on.
\<close>

section \<open>Types\<close>

datatype RetainedExpertPageClass = StableCompleteLayer | ElasticRoutedExperts

record ExpertLayerGeometry =
  lg_layer_index :: nat
  lg_complete_layer_payload_bytes :: u64
  lg_expert_payload_bytes :: u64
  lg_expert_capacity :: usize
  lg_experts_per_token :: usize

record CurrentExpertLayerResidency =
  lr_layer_index :: nat
  lr_class :: RetainedExpertPageClass
  lr_retained_expert_ids :: "nat list"
  lr_payload_bytes :: u64
  lr_covered_weighted_demand :: u64

datatype ExpertLayerResidencyTarget =
    PreserveComplete
  | PromoteCompleteOnMandatoryRead
  | PreservePartial
  | AdmitPartialOnMandatoryRouteRead
  | StreamOperationLocal
  | ReleasePartial
  | ReleaseCompleteForExactDeficit
  | AdmitCompleteOnMandatoryRead

record ExpertResidencyPlan =
  plan_phase :: MemoryPhase
  plan_retained_expert_ceiling_bytes :: u64
  plan_complete_layer_targets :: "nat list"
  plan_layer_targets :: "ExpertLayerResidencyTarget list"
  plan_reserved_routed_overlay_bytes :: u64
  plan_expected_preserved_bytes :: u64
  plan_maximum_new_retained_bytes :: u64
  plan_deterministic_release_order :: "nat list"
  plan_is_low_budget_partial_mode :: bool

datatype ExpertResidencyPlanError =
    EmptyGeometry
  | NonContiguousLayerIndex nat nat
  | ZeroGeometry nat
  | InconsistentCompletePayload nat
  | DuplicateOrUnorderedCurrentLayer nat
  | CurrentLayerOutOfRange nat
  | InvalidRetainedExpertIds nat
  | InconsistentCurrentPayload nat u64 u64 nat u64
  | CurrentResidencyExceedsCeiling
  | PlannedResidencyExceedsCeiling
  | ByteCountOverflow

section \<open>Validation\<close>

text \<open>The checked conversion of a length to 64 bits.\<close>

definition u64_try_from_len :: "nat \<Rightarrow> u64 option" where
  "u64_try_from_len n = (if n < 18446744073709551616 then Some (word_of_nat n) else None)"

lemma u64_try_from_len_code [code]:
  "u64_try_from_len n = (if int n < 18446744073709551616 then Some (word_of_int (int n)) else None)"
  by (simp add: u64_try_from_len_def)

definition validate_geometry :: "nat \<Rightarrow> ExpertLayerGeometry \<Rightarrow> ExpertResidencyPlanError + unit" where
  "validate_geometry expected_layer_index geometry =
     (if lg_layer_index geometry \<noteq> expected_layer_index
      then Inl (NonContiguousLayerIndex expected_layer_index (lg_layer_index geometry))
      else if lg_expert_capacity geometry = 0 \<or> lg_expert_payload_bytes geometry = 0
              \<or> lg_complete_layer_payload_bytes geometry = 0 \<or> lg_experts_per_token geometry = 0
      then Inl (ZeroGeometry (lg_layer_index geometry))
      else result_bind
             (ok_or (checked_mul (lg_expert_payload_bytes geometry) (lg_expert_capacity geometry))
                ByteCountOverflow)
             (\<lambda>expected_complete_bytes.
                if expected_complete_bytes \<noteq> lg_complete_layer_payload_bytes geometry
                then Inl (InconsistentCompletePayload (lg_layer_index geometry))
                else Inr ()))"

fun strictly_ascending :: "nat list \<Rightarrow> bool" where
  "strictly_ascending (x # y # xs) \<longleftrightarrow> x < y \<and> strictly_ascending (y # xs)"
| "strictly_ascending _ \<longleftrightarrow> True"

definition validate_current_residency ::
  "ExpertLayerGeometry \<Rightarrow> CurrentExpertLayerResidency \<Rightarrow> ExpertResidencyPlanError + unit" where
  "validate_current_residency geometry residency =
     (let ids = lr_retained_expert_ids residency;
          ids_are_valid = (ids \<noteq> [] \<and> strictly_ascending ids
            \<and> list_all (\<lambda>expert_id. expert_id < unat (lg_expert_capacity geometry)) ids)
      in if \<not> ids_are_valid then Inl (InvalidRetainedExpertIds (lr_layer_index residency))
         else result_bind
                (result_bind (ok_or (u64_try_from_len (length ids)) ByteCountOverflow)
                   (\<lambda>count. ok_or (checked_mul (lg_expert_payload_bytes geometry) count) ByteCountOverflow))
                (\<lambda>expected_payload_bytes.
                   let class_is_consistent =
                         (case lr_class residency of
                            StableCompleteLayer \<Rightarrow> length ids = unat (lg_expert_capacity geometry)
                          | ElasticRoutedExperts \<Rightarrow> length ids < unat (lg_expert_capacity geometry))
                   in if expected_payload_bytes \<noteq> lr_payload_bytes residency \<or> \<not> class_is_consistent
                      then Inl (InconsistentCurrentPayload (lr_layer_index residency)
                                  (lr_payload_bytes residency) (lg_expert_payload_bytes geometry)
                                  (length ids) expected_payload_bytes)
                      else Inr ()))"

text \<open>One round of the loop over current residencies: the table by layer, the previous index and
  the running total.\<close>

type_synonym residency_table = "CurrentExpertLayerResidency option list"

definition validate_step ::
  "ExpertLayerGeometry list \<Rightarrow> residency_table \<times> nat option \<times> u64 \<Rightarrow> CurrentExpertLayerResidency \<Rightarrow>
   ExpertResidencyPlanError + (residency_table \<times> nat option \<times> u64)" where
  "validate_step geometries state residency =
     (case state of (table, previous, total_bytes) \<Rightarrow>
        let i = lr_layer_index residency
        in if length geometries \<le> i then Inl (CurrentLayerOutOfRange i)
           else if (case previous of Some p \<Rightarrow> i \<le> p | None \<Rightarrow> False)
           then Inl (DuplicateOrUnorderedCurrentLayer i)
           else result_bind (validate_current_residency (geometries ! i) residency) (\<lambda>_.
                result_bind (ok_or (checked_add total_bytes (lr_payload_bytes residency)) ByteCountOverflow)
                  (\<lambda>total_bytes'. Inr (table[i := Some residency], Some i, total_bytes'))))"

definition validate_inputs ::
  "u64 \<Rightarrow> ExpertLayerGeometry list \<Rightarrow> CurrentExpertLayerResidency list \<Rightarrow>
   ExpertResidencyPlanError + residency_table" where
  "validate_inputs ceiling_bytes geometries current_residencies =
     (if geometries = [] then Inl EmptyGeometry
      else result_bind
             (try_fold (\<lambda>_ (i, geometry). validate_geometry i geometry) () (enumerate 0 geometries))
             (\<lambda>_. result_bind
                (try_fold (validate_step geometries) (replicate (length geometries) None, None, 0)
                   current_residencies)
                (\<lambda>(table, _, total_bytes).
                   if ceiling_bytes < total_bytes then Inl CurrentResidencyExceedsCeiling
                   else Inr table)))"

definition routed_floor_payload_bytes :: "ExpertLayerGeometry \<Rightarrow> ExpertResidencyPlanError + u64" where
  "routed_floor_payload_bytes geometry =
     ok_or (checked_mul (lg_expert_payload_bytes geometry)
              (min (lg_experts_per_token geometry) (lg_expert_capacity geometry))) ByteCountOverflow"

definition checked_sum :: "u64 list \<Rightarrow> ExpertResidencyPlanError + u64" where
  "checked_sum byte_counts =
     try_fold (\<lambda>total_bytes byte_count. ok_or (checked_add total_bytes byte_count) ByteCountOverflow)
       0 byte_counts"

section \<open>Specification\<close>

text \<open>A layer's geometry is consistent; a residency belongs to its layer.\<close>

definition geometry_wf :: "ExpertLayerGeometry \<Rightarrow> bool" where
  "geometry_wf g \<longleftrightarrow> 0 < unat (lg_expert_capacity g) \<and> 0 < unat (lg_expert_payload_bytes g)
     \<and> 0 < unat (lg_experts_per_token g)
     \<and> unat (lg_complete_layer_payload_bytes g) = unat (lg_expert_payload_bytes g) * unat (lg_expert_capacity g)"

definition residency_wf :: "ExpertLayerGeometry \<Rightarrow> CurrentExpertLayerResidency \<Rightarrow> bool" where
  "residency_wf g r \<longleftrightarrow>
     (let n = length (lr_retained_expert_ids r) in
      0 < n \<and> unat (lr_payload_bytes r) = unat (lg_expert_payload_bytes g) * n
      \<and> sorted_wrt (<) (lr_retained_expert_ids r)
      \<and> (\<forall>e \<in> set (lr_retained_expert_ids r). e < unat (lg_expert_capacity g))
      \<and> (lr_class r = StableCompleteLayer \<longrightarrow> n = unat (lg_expert_capacity g))
      \<and> (lr_class r = ElasticRoutedExperts \<longrightarrow> n < unat (lg_expert_capacity g)))"

definition resident_bytes :: "residency_table \<Rightarrow> nat \<Rightarrow> nat" where
  "resident_bytes table i = (case table ! i of Some r \<Rightarrow> unat (lr_payload_bytes r) | None \<Rightarrow> 0)"

definition inputs_wf :: "u64 \<Rightarrow> ExpertLayerGeometry list \<Rightarrow> residency_table \<Rightarrow> bool" where
  "inputs_wf ceiling_bytes gs table \<longleftrightarrow>
     gs \<noteq> [] \<and> length table = length gs
     \<and> (\<forall>i < length gs. lg_layer_index (gs ! i) = i \<and> geometry_wf (gs ! i))
     \<and> (\<forall>i < length gs. \<forall>r. table ! i = Some r \<longrightarrow> lr_layer_index r = i \<and> residency_wf (gs ! i) r)
     \<and> (\<Sum>i < length gs. resident_bytes table i) \<le> unat ceiling_bytes"

text \<open>The table validation builds, and the loop's way of building it.\<close>

definition residency_table_of :: "nat \<Rightarrow> CurrentExpertLayerResidency list \<Rightarrow> residency_table" where
  "residency_table_of n rs = map (\<lambda>i. find (\<lambda>r. lr_layer_index r = i) rs) [0..<n]"

definition write_residencies :: "CurrentExpertLayerResidency list \<Rightarrow> residency_table \<Rightarrow> residency_table" where
  "write_residencies rs table = fold (\<lambda>r t. t[lr_layer_index r := Some r]) rs table"

definition above :: "nat option \<Rightarrow> nat \<Rightarrow> bool" where
  "above previous i = (case previous of Some p \<Rightarrow> p < i | None \<Rightarrow> True)"

definition sample_geometries :: "ExpertLayerGeometry list" where
  "sample_geometries = map (\<lambda>i. \<lparr>lg_layer_index = i, lg_complete_layer_payload_bytes = 40,
     lg_expert_payload_bytes = 10, lg_expert_capacity = 4, lg_experts_per_token = 2\<rparr>) [0, 1, 2]"

definition sample_residency :: "nat \<Rightarrow> RetainedExpertPageClass \<Rightarrow> nat list \<Rightarrow> u64 \<Rightarrow> CurrentExpertLayerResidency" where
  "sample_residency i cls ids payload = \<lparr>lr_layer_index = i, lr_class = cls, lr_retained_expert_ids = ids,
     lr_payload_bytes = payload, lr_covered_weighted_demand = 5\<rparr>"

section \<open>Lemmas\<close>

lemma strictly_ascending_iff: "strictly_ascending xs \<longleftrightarrow> sorted_wrt (<) xs"
  by (induction xs rule: strictly_ascending.induct) (auto intro: less_trans)

lemma validate_geometry_iff:
  "validate_geometry i g = Inr u \<longleftrightarrow> lg_layer_index g = i \<and> geometry_wf g"
proof -
  have pos: "unat (lg_complete_layer_payload_bytes g) = unat (lg_expert_payload_bytes g) * unat (lg_expert_capacity g)
      \<Longrightarrow> 0 < unat (lg_expert_capacity g) \<Longrightarrow> 0 < unat (lg_expert_payload_bytes g)
      \<Longrightarrow> lg_complete_layer_payload_bytes g \<noteq> 0"
    by (auto simp: word_unat_eq_iff)
  show ?thesis
    by (auto simp: validate_geometry_def geometry_wf_def checked_mul_Some_iff unat_gt_0 dest: pos split: if_splits)
qed

lemma u64_try_from_len_Some_iff: "u64_try_from_len n = Some w \<longleftrightarrow> unat w = n"
  using u64_bound [of w]
  by (auto simp: u64_try_from_len_def unsigned_of_nat take_bit_nat_eq_self word_unat_eq_iff)

lemma validate_current_residency_iff:
  "validate_current_residency g r = Inr u \<longleftrightarrow> residency_wf g r"
proof -
  let ?n = "length (lr_retained_expert_ids r)"
  let ?cls = "case lr_class r of StableCompleteLayer \<Rightarrow> ?n = unat (lg_expert_capacity g)
    | ElasticRoutedExperts \<Rightarrow> ?n < unat (lg_expert_capacity g)"
  have code: "validate_current_residency g r = Inr u \<longleftrightarrow>
      lr_retained_expert_ids r \<noteq> [] \<and> sorted_wrt (<) (lr_retained_expert_ids r)
      \<and> (\<forall>e \<in> set (lr_retained_expert_ids r). e < unat (lg_expert_capacity g))
      \<and> (\<exists>count :: u64. unat count = ?n
          \<and> unat (lr_payload_bytes r) = unat (lg_expert_payload_bytes g) * unat count) \<and> ?cls"
    by (auto simp: validate_current_residency_def Let_def strictly_ascending_iff list_all_iff
        u64_try_from_len_Some_iff checked_mul_Some_iff split: if_splits)
  have count: "(\<exists>count :: u64. unat count = ?n
      \<and> unat (lr_payload_bytes r) = unat (lg_expert_payload_bytes g) * unat count) \<longleftrightarrow>
      unat (lr_payload_bytes r) = unat (lg_expert_payload_bytes g) * ?n" if ?cls
  proof -
    have "?n < 18446744073709551616"
      using that u64_bound [of "lg_expert_capacity g"] by (auto split: RetainedExpertPageClass.splits)
    then have "unat (word_of_nat ?n :: u64) = ?n" by (simp add: unsigned_of_nat take_bit_nat_eq_self)
    then show ?thesis by metis
  qed
  show ?thesis
    unfolding code residency_wf_def Let_def using count by (cases "lr_class r") auto
qed

lemma checked_sum_from:
  fixes a :: u64
  shows "try_fold (\<lambda>total_bytes byte_count. ok_or (checked_add total_bytes byte_count) ByteCountOverflow) a bs =
     (if unat a + sum_list (map unat bs) < 18446744073709551616
      then Inr (a + sum_list bs) else Inl ByteCountOverflow)"
proof (induction bs arbitrary: a)
  case (Cons b bs)
  then show ?case
    by (cases "unat a + unat b < 2 ^ 64") (auto simp: checked_add_def unat_add_exact add.assoc)
qed (use u64_bound in auto)

lemma unat_sum_list_exact:
  "sum_list (map unat bs) < 18446744073709551616 \<Longrightarrow> unat (sum_list (bs :: u64 list)) = sum_list (map unat bs)"
proof (induction bs)
  case (Cons b bs)
  then have "unat (sum_list bs) = sum_list (map unat bs)" by simp
  with Cons.prems show ?case by (simp add: unat_add_exact)
qed simp

lemma checked_sum_Inr_iff:
  "checked_sum bs = Inr s \<longleftrightarrow> unat s = sum_list (map unat bs)"
proof -
  have "checked_sum bs = Inr s \<longleftrightarrow> sum_list (map unat bs) < 18446744073709551616 \<and> sum_list bs = s"
    by (auto simp: checked_sum_def checked_sum_from)
  then show ?thesis
    using unat_sum_list_exact [of bs] u64_bound [of s] by (auto simp: word_unat_eq_iff)
qed

lemma checked_sum_Inl_iff:
  "checked_sum bs = Inl e \<longleftrightarrow> e = ByteCountOverflow \<and> 18446744073709551616 \<le> sum_list (map unat bs)"
  by (auto simp: checked_sum_def checked_sum_from)

lemma geometry_floor_le:
  assumes "geometry_wf g"
  shows "\<exists>f. routed_floor_payload_bytes g = Inr f
     \<and> unat f = unat (lg_expert_payload_bytes g) * min (unat (lg_experts_per_token g)) (unat (lg_expert_capacity g))
     \<and> f \<le> lg_complete_layer_payload_bytes g"
proof -
  let ?n = "unat (lg_expert_payload_bytes g) * min (unat (lg_experts_per_token g)) (unat (lg_expert_capacity g))"
  have le: "?n \<le> unat (lg_complete_layer_payload_bytes g)"
    using assms by (simp add: geometry_wf_def)
  then have "unat (word_of_nat ?n :: u64) = ?n"
    using u64_bound [of "lg_complete_layer_payload_bytes g"]
    by (simp add: unsigned_of_nat take_bit_nat_eq_self del: of_nat_mult)
  with le show ?thesis
    by (intro exI [of _ "word_of_nat ?n"])
       (simp add: routed_floor_payload_bytes_def checked_mul_Some_iff unat_min word_le_nat_alt del: of_nat_mult)
qed

lemma validate_geometries_iff:
  "try_fold (\<lambda>_ (i, geometry). validate_geometry i geometry) () (enumerate n gs) = Inr u \<longleftrightarrow>
     (\<forall>i < length gs. lg_layer_index (gs ! i) = n + i \<and> geometry_wf (gs ! i))"
proof (induction gs arbitrary: n)
  case (Cons g gs)
  have all: "(\<forall>i < length (g # gs). P ((g # gs) ! i) i) \<longleftrightarrow> P g 0 \<and> (\<forall>i < length gs. P (gs ! i) (Suc i))" for P
    by (auto simp: less_Suc_eq_0_disj)
  show ?case
  proof (cases "validate_geometry n g")
    case (Inl e)
    then have "\<not> (lg_layer_index g = n \<and> geometry_wf g)" using validate_geometry_iff [of n g "()"] by auto
    with Inl show ?thesis
      unfolding all [of "\<lambda>g i. lg_layer_index g = n + i \<and> geometry_wf g"] by (simp, blast)
  next
    case (Inr v)
    then have "lg_layer_index g = n \<and> geometry_wf g" by (simp add: validate_geometry_iff)
    with Inr Cons.IH [of "Suc n"] show ?thesis
      unfolding all [of "\<lambda>g i. lg_layer_index g = n + i \<and> geometry_wf g"] by simp
  qed
qed simp

lemma validate_fold_iff:
  "try_fold (validate_step gs) (table, previous, total_bytes) rs = Inr (table', previous', total_bytes') \<longleftrightarrow>
     sorted_wrt (<) (map lr_layer_index rs)
     \<and> (\<forall>r \<in> set rs. above previous (lr_layer_index r) \<and> lr_layer_index r < length gs
          \<and> residency_wf (gs ! lr_layer_index r) r)
     \<and> unat total_bytes' = unat total_bytes + sum_list (map (\<lambda>r. unat (lr_payload_bytes r)) rs)
     \<and> table' = write_residencies rs table
     \<and> previous' = (if rs = [] then previous else Some (lr_layer_index (last rs)))"
proof (induction rs arbitrary: table previous total_bytes)
  case Nil
  then show ?case by (auto simp: write_residencies_def word_unat_eq_iff)
next
  case (Cons r rs)
  let ?i = "lr_layer_index r"
  let ?ok = "?i < length gs \<and> above previous ?i \<and> residency_wf (gs ! ?i) r"
  show ?case
  proof (cases "?ok \<and> unat total_bytes + unat (lr_payload_bytes r) < 2 ^ 64")
    case True
    then have step: "validate_step gs (table, previous, total_bytes) r =
        Inr (table[?i := Some r], Some ?i, total_bytes + lr_payload_bytes r)"
      using validate_current_residency_iff [of "gs ! ?i" r "()"]
      by (auto simp: validate_step_def Let_def above_def checked_add_def split: option.splits)
    show ?thesis
      using True
      by (auto simp: step Cons.IH unat_add_exact write_residencies_def above_def split: option.splits)
  next
    case False
    have fail: "\<exists>e. validate_step gs (table, previous, total_bytes) r = Inl e"
    proof (cases ?ok)
      case True
      with False show ?thesis
        using validate_current_residency_iff [of "gs ! ?i" r "()"]
        by (auto simp: validate_step_def Let_def above_def checked_add_def split: option.splits)
    next
      case bad: False
      then show ?thesis
      proof (cases "validate_current_residency (gs ! ?i) r")
        case (Inr u)
        with bad show ?thesis
          by (auto simp: validate_current_residency_iff validate_step_def Let_def above_def split: option.splits)
      qed (auto simp: validate_step_def Let_def)
    qed
    have "unat total_bytes' \<noteq> unat total_bytes + sum_list (map (\<lambda>r. unat (lr_payload_bytes r)) (r # rs))"
      if "?ok"
      using that False u64_bound [of total_bytes'] by auto
    with fail False show ?thesis by (auto simp del: sorted_wrt.simps)
  qed
qed

lemma length_write_residencies [simp]: "length (write_residencies rs table) = length table"
  unfolding write_residencies_def by (induction rs arbitrary: table) auto

lemma write_residencies_nth:
  "\<lbrakk>distinct (map lr_layer_index rs); i < length table\<rbrakk> \<Longrightarrow> write_residencies rs table ! i =
     (case find (\<lambda>r. lr_layer_index r = i) rs of Some r \<Rightarrow> Some r | None \<Rightarrow> table ! i)"
proof (induction rs arbitrary: table)
  case (Cons r rs)
  have none: "find (\<lambda>q. lr_layer_index q = lr_layer_index r) rs = None"
    using Cons.prems(1) by (auto simp: find_None_iff intro: rev_image_eqI)
  show ?case
    using Cons.IH [of "table[lr_layer_index r := Some r]"] Cons.prems none
    by (auto simp: write_residencies_def nth_list_update split: option.split)
qed (simp add: write_residencies_def)

lemma write_residencies_table:
  "distinct (map lr_layer_index rs) \<Longrightarrow> write_residencies rs (replicate n None) = residency_table_of n rs"
  by (rule nth_equalityI) (auto simp: residency_table_of_def write_residencies_nth split: option.split)

lemma sum_resident_update:
  assumes "j < length table" "table ! j = None"
  shows "(\<Sum>i < length table. resident_bytes (table[j := Some r]) i) =
         (\<Sum>i < length table. resident_bytes table i) + unat (lr_payload_bytes r)"
proof -
  have j: "j \<in> {..<length table}" using assms(1) by simp
  have "(\<Sum>i \<in> {..<length table} - {j}. resident_bytes (table[j := Some r]) i) =
      (\<Sum>i \<in> {..<length table} - {j}. resident_bytes table i)"
    by (rule sum.cong) (auto simp: resident_bytes_def)
  then show ?thesis
    using assms by (simp add: sum.remove [OF finite_lessThan j] resident_bytes_def)
qed

lemma sum_resident_write:
  "\<lbrakk>distinct (map lr_layer_index rs); \<forall>r \<in> set rs. lr_layer_index r < length table \<and> table ! lr_layer_index r = None\<rbrakk>
   \<Longrightarrow> (\<Sum>i < length table. resident_bytes (write_residencies rs table) i) =
        (\<Sum>i < length table. resident_bytes table i) + sum_list (map (\<lambda>r. unat (lr_payload_bytes r)) rs)"
proof (induction rs arbitrary: table)
  case (Cons r rs)
  let ?t = "table[lr_layer_index r := Some r]"
  have "(\<Sum>i < length ?t. resident_bytes (write_residencies rs ?t) i) =
      (\<Sum>i < length ?t. resident_bytes ?t i) + sum_list (map (\<lambda>r. unat (lr_payload_bytes r)) rs)"
    using Cons.prems by (intro Cons.IH) (auto simp: nth_list_update)
  then show ?case
    using Cons.prems sum_resident_update [of "lr_layer_index r" table r]
    by (simp add: write_residencies_def)
qed (simp add: write_residencies_def)

lemma validate_inputs_iff:
  "validate_inputs c gs rs = Inr table \<longleftrightarrow>
     gs \<noteq> [] \<and> (\<forall>i < length gs. lg_layer_index (gs ! i) = i \<and> geometry_wf (gs ! i))
     \<and> sorted_wrt (<) (map lr_layer_index rs)
     \<and> (\<forall>r \<in> set rs. lr_layer_index r < length gs \<and> residency_wf (gs ! lr_layer_index r) r)
     \<and> sum_list (map (\<lambda>r. unat (lr_payload_bytes r)) rs) \<le> unat c
     \<and> table = residency_table_of (length gs) rs"
proof -
  let ?sum = "sum_list (map (\<lambda>r. unat (lr_payload_bytes r)) rs)"
  have w: "?sum \<le> unat c \<Longrightarrow> \<exists>w :: u64. unat w \<le> unat c \<and> (unat w \<le> unat c \<longrightarrow> unat w = ?sum)"
    using u64_bound [of c] by (intro exI [of _ "word_of_nat ?sum"]) (simp add: unsigned_of_nat take_bit_nat_eq_self)
  have fold: "try_fold (validate_step gs) (replicate (length gs) None, None, 0) rs = Inr (t, p, total_bytes) \<longleftrightarrow>
      sorted_wrt (<) (map lr_layer_index rs)
      \<and> (\<forall>r \<in> set rs. lr_layer_index r < length gs \<and> residency_wf (gs ! lr_layer_index r) r)
      \<and> unat total_bytes = ?sum \<and> t = residency_table_of (length gs) rs
      \<and> p = (if rs = [] then None else Some (lr_layer_index (last rs)))" for t p total_bytes
    unfolding validate_fold_iff
    by (auto simp: above_def write_residencies_table strict_sorted_iff)
  show ?thesis
    by (auto simp: validate_inputs_def validate_geometries_iff fold word_less_nat_alt not_less split: if_splits
        intro: w)
qed

lemma validate_inputs_wf:
  assumes "validate_inputs c gs rs = Inr table"
  shows "inputs_wf c gs table"
proof -
  have v: "gs \<noteq> []" "\<forall>i < length gs. lg_layer_index (gs ! i) = i \<and> geometry_wf (gs ! i)"
    "sorted_wrt (<) (map lr_layer_index rs)"
    "\<forall>r \<in> set rs. lr_layer_index r < length gs \<and> residency_wf (gs ! lr_layer_index r) r"
    "sum_list (map (\<lambda>r. unat (lr_payload_bytes r)) rs) \<le> unat c"
    "table = residency_table_of (length gs) rs"
    using assms by (simp_all add: validate_inputs_iff)
  have d: "distinct (map lr_layer_index rs)" using v(3) strict_sorted_iff by blast
  have table: "table = write_residencies rs (replicate (length gs) None)"
    by (simp only: v(6) write_residencies_table [OF d])
  have found: "table ! i = Some r \<longleftrightarrow> find (\<lambda>r. lr_layer_index r = i) rs = Some r" if "i < length gs" for i r
    using that by (simp add: v(6) residency_table_of_def)
  have "(\<Sum>i < length gs. resident_bytes table i) = sum_list (map (\<lambda>r. unat (lr_payload_bytes r)) rs)"
    using sum_resident_write [OF d, of "replicate (length gs) None"] v(4)
    unfolding table by (simp add: resident_bytes_def)
  moreover have "lr_layer_index r = i \<and> residency_wf (gs ! i) r"
    if "i < length gs" "table ! i = Some r" for i r
  proof -
    have "find (\<lambda>r. lr_layer_index r = i) rs = Some r" using found [OF that(1)] that(2) by blast
    then have "lr_layer_index r = i" "r \<in> set rs" by (auto simp: find_Some_iff)
    with v show ?thesis by blast
  qed
  moreover have "length table = length gs" by (simp add: table)
  ultimately show ?thesis
    using v unfolding inputs_wf_def by metis
qed

end
