(* ===== verification/Residency_Order.thy ===== *)
theory Residency_Order
  imports Residency_Types
begin

text \<open>
  The orders and the greedy loop the planners share (\<^verbatim>\<open>residency/planner.rs\<close>): retained pages are compared
  by covered demand per byte, cross-multiplied in 128 bits, with the layer index as tie break. Over
  one residency table these comparisons are strict total orders, which is what makes a plan
  deterministic (\<open>strict_comparator\<close>). The locale \<open>byte_budget_loop\<close> is the contract of every loop that
  spends a byte budget on a list of candidates.
\<close>

section \<open>Comparisons\<close>

type_synonym layer_entry = "nat \<times> CurrentExpertLayerResidency"

definition compare_partial_coverage :: "layer_entry \<Rightarrow> layer_entry \<Rightarrow> ordering" where
  "compare_partial_coverage left right =
     (let left_score = (ucast (lr_covered_weighted_demand (snd left)) :: u128)
            * ucast (lr_payload_bytes (snd right));
          right_score = (ucast (lr_covered_weighted_demand (snd right)) :: u128)
            * ucast (lr_payload_bytes (snd left))
      in then_with (cmp_of left_score right_score) (cmp_of (fst right) (fst left)))"

definition is_complete :: "CurrentExpertLayerResidency \<Rightarrow> bool" where
  "is_complete r \<longleftrightarrow> lr_class r = StableCompleteLayer"

definition compare_preservation_priority :: "layer_entry \<Rightarrow> layer_entry \<Rightarrow> ordering" where
  "compare_preservation_priority left right =
     then_with (cmp_of (is_complete (snd left)) (is_complete (snd right)))
       (compare_partial_coverage right left)"

text \<open>The entries of a table in layer order, as \<^verbatim>\<open>iter().enumerate().filter_map(..)\<close> yields them.\<close>

definition table_entries :: "residency_table \<Rightarrow> layer_entry list" where
  "table_entries table = map (\<lambda>(i, r). (i, the r)) (filter (\<lambda>(i, r). r \<noteq> None) (enumerate 0 table))"

definition release_order :: "residency_table \<Rightarrow> nat list" where
  "release_order table =
     map fst (sort_by compare_partial_coverage
       (filter (\<lambda>(_, r). lr_class r = ElasticRoutedExperts) (table_entries table)))
     @ map fst (filter (\<lambda>(_, r). is_complete r) (rev (table_entries table)))"

section \<open>Spending a byte budget\<close>

definition take_within_ceiling ::
  "u64 \<Rightarrow> bool list \<times> u64 \<Rightarrow> nat \<times> u64 \<Rightarrow> ExpertResidencyPlanError + (bool list \<times> u64)" where
  "take_within_ceiling ceiling_bytes state candidate =
     (case (state, candidate) of ((selected, used_bytes), (i, cost_bytes)) \<Rightarrow>
        if cost_bytes \<le> saturating_sub ceiling_bytes used_bytes
        then result_bind (ok_or (checked_add used_bytes cost_bytes) ByteCountOverflow)
               (\<lambda>used_bytes'. Inr (selected[i := True], used_bytes'))
        else Inr state)"

section \<open>Specification\<close>

definition entries_of :: "residency_table \<Rightarrow> layer_entry set" where
  "entries_of table = {(i, r). i < length table \<and> table ! i = Some r \<and> 0 < unat (lr_payload_bytes r)}"

text \<open>Less covered demand per byte, or the same with the larger layer index first.\<close>

definition colder :: "layer_entry \<Rightarrow> layer_entry \<Rightarrow> bool" where
  "colder a b \<longleftrightarrow>
     (let x = unat (lr_covered_weighted_demand (snd a)) * unat (lr_payload_bytes (snd b));
          y = unat (lr_covered_weighted_demand (snd b)) * unat (lr_payload_bytes (snd a))
      in x < y \<or> x = y \<and> fst b \<le> fst a)"

locale byte_budget_loop =
  fixes step :: "'s \<Rightarrow> 'c \<Rightarrow> 'e + 's"
    and spent :: "'s \<Rightarrow> nat"
    and budget :: nat
    and ok :: "'s \<Rightarrow> bool"
    and candidate :: "'c \<Rightarrow> bool"
  assumes step_total: "\<lbrakk>ok s; candidate c; spent s \<le> budget\<rbrakk> \<Longrightarrow>
    \<exists>s'. step s c = Inr s' \<and> ok s' \<and> spent s \<le> spent s' \<and> spent s' \<le> budget"
begin

lemma loop_total:
  "\<lbrakk>ok s; \<forall>c \<in> set cs. candidate c; spent s \<le> budget\<rbrakk> \<Longrightarrow>
   \<exists>s'. try_fold step s cs = Inr s' \<and> ok s' \<and> spent s \<le> spent s' \<and> spent s' \<le> budget"
proof (induction cs arbitrary: s)
  case (Cons c cs)
  then obtain s' where s': "step s c = Inr s'" "ok s'" "spent s \<le> spent s'" "spent s' \<le> budget"
    using step_total [of s c] by auto
  with Cons.IH [of s'] Cons.prems show ?case by (auto intro: order.trans)
qed simp

lemma loop_never_fails:
  "\<lbrakk>ok s; \<forall>c \<in> set cs. candidate c; spent s \<le> budget\<rbrakk> \<Longrightarrow> try_fold step s cs \<noteq> Inl e"
  using loop_total [of s cs] by auto

end

section \<open>Lemmas\<close>

lemma cmp_of_simps [simp]:
  "cmp_of a b = Greater \<longleftrightarrow> b < a" "cmp_of a b = Less \<longleftrightarrow> a < b" "cmp_of a b = Equal \<longleftrightarrow> a = b"
  by (auto simp: cmp_of_def)

lemma then_with_not_Greater:
  "then_with o1 o2 \<noteq> Greater \<longleftrightarrow> o1 = Less \<or> o1 = Equal \<and> o2 \<noteq> Greater"
  by (cases o1) (auto simp: then_with_def)

lemma unat_score:
  "unat ((ucast (a :: u64) :: u128) * ucast (b :: u64)) = unat a * unat b"
proof -
  have "unat a * unat b < 2 ^ 64 * 2 ^ 64"
    using u64_bound [of a] u64_bound [of b] by (intro mult_strict_mono) auto
  then show ?thesis by (subst unat_mult_exact) (simp_all add: rust_nat)
qed

lemma compare_partial_iff: "compare_partial_coverage a b \<noteq> Greater \<longleftrightarrow> colder a b"
  unfolding compare_partial_coverage_def colder_def Let_def then_with_not_Greater
  by (simp add: word_less_nat_alt word_unat_eq_iff unat_score not_less)

lemma colder_total: "colder a b \<or> colder b a"
  by (auto simp: colder_def Let_def)

lemma colder_antisym: "\<lbrakk>colder a b; colder b a\<rbrakk> \<Longrightarrow> fst a = fst b"
  by (auto simp: colder_def Let_def)

lemma cross_trans:
  fixes d1 d2 d3 p1 p2 p3 :: nat
  assumes "0 < p2"
  shows "\<lbrakk>d1 * p2 \<le> d2 * p1; d2 * p3 \<le> d3 * p2\<rbrakk> \<Longrightarrow> d1 * p3 \<le> d3 * p1"
    and "\<lbrakk>d1 * p2 < d2 * p1; d2 * p3 \<le> d3 * p2; 0 < p3\<rbrakk> \<Longrightarrow> d1 * p3 < d3 * p1"
    and "\<lbrakk>d1 * p2 \<le> d2 * p1; d2 * p3 < d3 * p2; 0 < p1\<rbrakk> \<Longrightarrow> d1 * p3 < d3 * p1"
proof -
  assume a: "d1 * p2 \<le> d2 * p1" "d2 * p3 \<le> d3 * p2"
  have "d1 * p3 * p2 \<le> d3 * p1 * p2"
  proof -
    have "d1 * p3 * p2 \<le> d2 * p1 * p3" using mult_right_mono [OF a(1), of p3] by (simp add: ac_simps)
    also have "\<dots> \<le> d3 * p2 * p1" using mult_right_mono [OF a(2), of p1] by (simp add: ac_simps)
    finally show ?thesis by (simp add: ac_simps)
  qed
  with assms show "d1 * p3 \<le> d3 * p1" by simp
next
  assume a: "d1 * p2 < d2 * p1" "d2 * p3 \<le> d3 * p2" "0 < p3"
  have "d1 * p3 * p2 < d2 * p1 * p3" using mult_strict_right_mono [OF a(1,3)] by (simp add: ac_simps)
  also have "\<dots> \<le> d3 * p1 * p2" using mult_right_mono [OF a(2), of p1] by (simp add: ac_simps)
  finally show "d1 * p3 < d3 * p1" by simp
next
  assume a: "d1 * p2 \<le> d2 * p1" "d2 * p3 < d3 * p2" "0 < p1"
  have "d1 * p3 * p2 \<le> d2 * p1 * p3" using mult_right_mono [OF a(1), of p3] by (simp add: ac_simps)
  also have "\<dots> < d3 * p1 * p2" using mult_strict_right_mono [OF a(2,3)] by (simp add: ac_simps)
  finally show "d1 * p3 < d3 * p1" by simp
qed

lemma colder_trans:
  assumes "0 < unat (lr_payload_bytes (snd a))" "0 < unat (lr_payload_bytes (snd b))"
    "0 < unat (lr_payload_bytes (snd c))" "colder a b" "colder b c"
  shows "colder a c"
proof -
  let ?d = "\<lambda>e. unat (lr_covered_weighted_demand (snd e))" and ?p = "\<lambda>e. unat (lr_payload_bytes (snd e))"
  have ab: "?d a * ?p b < ?d b * ?p a \<or> ?d a * ?p b = ?d b * ?p a \<and> fst b \<le> fst a"
    and bc: "?d b * ?p c < ?d c * ?p b \<or> ?d b * ?p c = ?d c * ?p b \<and> fst c \<le> fst b"
    using assms(4,5) by (simp_all add: colder_def Let_def)
  have le: "?d a * ?p c \<le> ?d c * ?p a"
    using ab bc by (intro cross_trans(1) [OF assms(2), of "?d a" "?d b" "?p a" "?p c" "?d c"]) auto
  from ab show ?thesis
  proof
    assume "?d a * ?p b < ?d b * ?p a"
    with bc cross_trans(2) [OF assms(2), of "?d a" "?d b" "?p a" "?p c" "?d c"] assms(3)
    have "?d a * ?p c < ?d c * ?p a" by auto
    then show ?thesis by (simp add: colder_def Let_def)
  next
    assume eq: "?d a * ?p b = ?d b * ?p a \<and> fst b \<le> fst a"
    from bc show ?thesis
    proof
      assume "?d b * ?p c < ?d c * ?p b"
      with eq cross_trans(3) [OF assms(2), of "?d a" "?d b" "?p a" "?p c" "?d c"] assms(1)
      have "?d a * ?p c < ?d c * ?p a" by auto
      then show ?thesis by (simp add: colder_def Let_def)
    next
      assume "?d b * ?p c = ?d c * ?p b \<and> fst c \<le> fst b"
      with eq le show ?thesis by (auto simp: colder_def Let_def)
    qed
  qed
qed

lemma entries_of_payload: "e \<in> entries_of table \<Longrightarrow> 0 < unat (lr_payload_bytes (snd e))"
  by (auto simp: entries_of_def)

lemma entries_of_unique: "\<lbrakk>a \<in> entries_of table; b \<in> entries_of table; fst a = fst b\<rbrakk> \<Longrightarrow> a = b"
  by (auto simp: entries_of_def)

interpretation coverage: strict_comparator compare_partial_coverage "entries_of table" for table
proof unfold_locales
  show "\<lbrakk>a \<in> entries_of table; b \<in> entries_of table; compare_partial_coverage a b = Greater\<rbrakk>
      \<Longrightarrow> compare_partial_coverage b a \<noteq> Greater" for a b
    using colder_total [of a b] compare_partial_iff [of a b] compare_partial_iff [of b a] by blast
  show "\<lbrakk>a \<in> entries_of table; b \<in> entries_of table; c \<in> entries_of table;
      compare_partial_coverage a b \<noteq> Greater; compare_partial_coverage b c \<noteq> Greater\<rbrakk>
      \<Longrightarrow> compare_partial_coverage a c \<noteq> Greater" for a b c
    unfolding compare_partial_iff by (blast intro: colder_trans entries_of_payload)
  show "\<lbrakk>a \<in> entries_of table; b \<in> entries_of table; compare_partial_coverage a b \<noteq> Greater;
      compare_partial_coverage b a \<noteq> Greater\<rbrakk> \<Longrightarrow> a = b" for a b
    unfolding compare_partial_iff by (blast intro: colder_antisym entries_of_unique)
qed

lemma compare_preservation_iff:
  "compare_preservation_priority a b \<noteq> Greater \<longleftrightarrow>
     \<not> is_complete (snd a) \<and> is_complete (snd b)
     \<or> is_complete (snd a) = is_complete (snd b) \<and> colder b a"
  unfolding compare_preservation_priority_def then_with_not_Greater compare_partial_iff by auto

interpretation preservation: strict_comparator compare_preservation_priority "entries_of table" for table
proof unfold_locales
  show "\<lbrakk>a \<in> entries_of table; b \<in> entries_of table; compare_preservation_priority a b = Greater\<rbrakk>
      \<Longrightarrow> compare_preservation_priority b a \<noteq> Greater" for a b
    using colder_total [of a b] compare_preservation_iff [of a b] compare_preservation_iff [of b a] by blast
  show "\<lbrakk>a \<in> entries_of table; b \<in> entries_of table; c \<in> entries_of table;
      compare_preservation_priority a b \<noteq> Greater; compare_preservation_priority b c \<noteq> Greater\<rbrakk>
      \<Longrightarrow> compare_preservation_priority a c \<noteq> Greater" for a b c
    unfolding compare_preservation_iff by (metis colder_trans entries_of_payload)
  show "\<lbrakk>a \<in> entries_of table; b \<in> entries_of table; compare_preservation_priority a b \<noteq> Greater;
      compare_preservation_priority b a \<noteq> Greater\<rbrakk> \<Longrightarrow> a = b" for a b
    unfolding compare_preservation_iff by (metis colder_antisym entries_of_unique)
qed

text \<open>A table's entries: every resident layer once, in layer order.\<close>

lemma table_entries_set: "(i, r) \<in> set (table_entries table) \<longleftrightarrow> i < length table \<and> table ! i = Some r"
  by (force simp: table_entries_def in_set_enumerate_eq image_iff)

lemma table_entries_sorted: "sorted_wrt (<) (map fst (table_entries table))"
proof -
  have "sorted_wrt (<) (map fst (filter P (enumerate n xs)))" for P n and xs :: "'a list"
    by (induction xs arbitrary: n) (auto simp: in_set_enumerate_eq)
  moreover have "map fst (table_entries table) = map fst (filter (\<lambda>(i, r). r \<noteq> None) (enumerate 0 table))"
    by (simp add: table_entries_def comp_def case_prod_unfold)
  ultimately show ?thesis by simp
qed

lemma table_entries_distinct: "distinct (map fst (table_entries table))"
  using table_entries_sorted strict_sorted_iff by blast

interpretation ceiling_loop: byte_budget_loop "take_within_ceiling c" "\<lambda>s. unat (snd s)" "unat c" "\<lambda>s. True" "\<lambda>k. True" for c
proof
  fix s :: "bool list \<times> u64" and k :: "nat \<times> u64"
  assume used: "unat (snd s) \<le> unat c"
  show "\<exists>s'. take_within_ceiling c s k = Inr s' \<and> True \<and> unat (snd s) \<le> unat (snd s') \<and> unat (snd s') \<le> unat c"
    using used u64_bound [of c]
    by (cases s; cases k)
       (auto simp: take_within_ceiling_def checked_add_def unat_add_exact word_le_nat_alt unat_saturating_sub)
qed

text \<open>What the loop spends is what its selection costs.\<close>

lemma take_within_ceiling_spent:
  assumes "distinct (map fst cs)" "\<forall>(i, k) \<in> set cs. i < length selected \<and> \<not> selected ! i"
    and "try_fold (take_within_ceiling c) (selected, used) cs = Inr (selected', used')"
  shows "length selected' = length selected
    \<and> (\<forall>i. i \<notin> fst ` set cs \<longrightarrow> selected' ! i = selected ! i)
    \<and> unat used' = unat used + sum_list (map (\<lambda>(i, k). if selected' ! i then unat k else 0) cs)"
  using assms
proof (induction cs arbitrary: selected used)
  case (Cons ik cs)
  obtain i k where ik: "ik = (i, k)" by fastforce
  define sel where "sel = (if k \<le> saturating_sub c used then selected[i := True] else selected)"
  from Cons.prems(3) obtain st where step: "take_within_ceiling c (selected, used) (i, k) = Inr st"
    and rest': "try_fold (take_within_ceiling c) st cs = Inr (selected', used')"
    unfolding ik by (auto split: sum.splits)
  from step obtain u where st: "st = (sel, u)"
    and u: "unat u = unat used + (if k \<le> saturating_sub c used then unat k else 0)"
    by (auto simp: take_within_ceiling_def sel_def checked_add_Some_iff split: if_splits)
  note rest = rest' [unfolded st]
  have d: "distinct (map fst cs)" "i \<notin> fst ` set cs" using Cons.prems(1) by (auto simp: ik)
  have fresh: "\<forall>(j, l) \<in> set cs. j < length sel \<and> \<not> sel ! j"
    using Cons.prems(2) d(2) by (force simp: sel_def ik nth_list_update)
  note IH = Cons.IH [OF d(1) fresh rest]
  have i: "selected' ! i = (k \<le> saturating_sub c used)"
    using IH d(2) Cons.prems(2) by (auto simp: sel_def ik)
  have "length selected' = length selected" using IH by (simp add: sel_def)
  moreover have "\<forall>j. j \<notin> fst ` set (ik # cs) \<longrightarrow> selected' ! j = selected ! j"
    using IH by (auto simp: ik sel_def)
  moreover have "unat used' = unat used + sum_list (map (\<lambda>(i, k). if selected' ! i then unat k else 0) (ik # cs))"
    using IH u i by (simp add: ik)
  ultimately show ?case by blast
qed auto

text \<open>A budget that covers every candidate takes every candidate.\<close>

lemma take_within_ceiling_all:
  "\<lbrakk>unat used + sum_list (map (\<lambda>(i, k). unat k) cs) \<le> unat c\<rbrakk> \<Longrightarrow>
   \<exists>used'. try_fold (take_within_ceiling c) (selected, used) cs =
       Inr (fold (\<lambda>(i, _) sel. sel[i := True]) cs selected, used')
     \<and> unat used' = unat used + sum_list (map (\<lambda>(i, k). unat k) cs)"
proof (induction cs arbitrary: selected used)
  case (Cons ik cs)
  obtain i k where ik: "ik = (i, k)" by fastforce
  have le: "unat used + unat k \<le> unat c" using Cons.prems by (simp add: ik)
  then have "unat used + unat k < 2 ^ 64" using u64_bound [of c] by simp
  then have sum: "unat (used + k) = unat used + unat k" by (simp add: unat_add_exact)
  have "take_within_ceiling c (selected, used) (i, k) = Inr (selected[i := True], used + k)"
    using le u64_bound [of c]
    by (auto simp: take_within_ceiling_def checked_add_def word_le_nat_alt unat_saturating_sub)
  with Cons.IH [of "used + k" "selected[i := True]"] Cons.prems sum show ?case by (simp add: ik add.assoc)
qed simp

lemma fold_mark_nth:
  "i < length selected \<Longrightarrow> fold (\<lambda>(i, _) sel. sel[i := True]) cs selected ! i \<longleftrightarrow> selected ! i \<or> i \<in> fst ` set cs"
proof (induction cs arbitrary: selected)
  case (Cons k cs)
  then show ?case
    by (cases k; cases "i = fst k") (auto simp: Cons.IH [of "selected[fst k := True]"])
qed simp

lemma length_fold_mark [simp]: "length (fold (\<lambda>(i, _) sel. sel[i := True]) cs selected) = length selected"
  by (induction cs arbitrary: selected) auto

text \<open>A sum over candidates with distinct layers is a sum over layers.\<close>

lemma sum_list_by_layer:
  fixes h :: "nat \<Rightarrow> nat"
  assumes "distinct (map ix cs)" "\<forall>k \<in> set cs. ix k < n" "\<forall>i < n. i \<notin> ix ` set cs \<longrightarrow> h i = 0"
  shows "sum_list (map (\<lambda>k. h (ix k)) cs) = (\<Sum>i < n. h i)"
proof -
  have "sum_list (map (\<lambda>k. h (ix k)) cs) = sum_list (map h (map ix cs))" by (simp add: comp_def)
  also have "\<dots> = sum h (set (map ix cs))" using assms(1) by (rule sum_list_distinct_conv_sum_set)
  also have "\<dots> = (\<Sum>i < n. h i)"
    using assms(2,3) by (intro sum.mono_neutral_left) auto
  finally show ?thesis .
qed

lemma sum_list_sort_by: "sum_list (map f (sort_by cmp xs)) = sum_list (map f xs)" for f :: "'a \<Rightarrow> nat"
proof -
  have "sum_list (map f ys) = sum_mset (image_mset f (mset ys))" for ys
    by (metis mset_map sum_mset_sum_list)
  then show ?thesis by simp
qed

lemma distinct_map_sort_by: "distinct (map f (sort_by cmp xs)) \<longleftrightarrow> distinct (map f xs)"
proof -
  have "mset (map f (sort_by cmp xs)) = mset (map f xs)" by simp
  then show ?thesis by (metis mset_eq_imp_distinct_iff)
qed

lemma sum_table_entries:
  "sum_list (map (\<lambda>(i, r). unat (lr_payload_bytes r)) (table_entries table)) =
     (\<Sum>i < length table. resident_bytes table i)"
proof -
  have "sum_list (map (\<lambda>e. resident_bytes table (fst e)) (table_entries table)) =
      (\<Sum>i < length table. resident_bytes table i)"
  proof (rule sum_list_by_layer [OF table_entries_distinct])
    show "\<forall>k \<in> set (table_entries table). fst k < length table"
      by (auto simp: table_entries_set)
    show "\<forall>i < length table. i \<notin> fst ` set (table_entries table) \<longrightarrow> resident_bytes table i = 0"
    proof (intro allI impI)
      fix i assume i: "i < length table" "i \<notin> fst ` set (table_entries table)"
      then have "table ! i = None"
        by (metis fst_conv image_eqI not_Some_eq table_entries_set)
      then show "resident_bytes table i = 0" by (simp add: resident_bytes_def)
    qed
  qed
  moreover have "map (\<lambda>e. resident_bytes table (fst e)) (table_entries table) =
      map (\<lambda>(i, r). unat (lr_payload_bytes r)) (table_entries table)"
    by (rule map_cong) (auto simp: table_entries_set resident_bytes_def)
  ultimately show ?thesis by simp
qed

text \<open>The release order names every resident layer once: partial pages first, the coldest first,
  then complete layers from the last to the first.\<close>

lemma release_order_set: "set (release_order table) = {i. i < length table \<and> table ! i \<noteq> None}"
proof -
  have "lr_class r = ElasticRoutedExperts \<or> is_complete r" for r
    by (cases "lr_class r") (simp_all add: is_complete_def)
  then show ?thesis
    by (force simp: release_order_def table_entries_set image_iff)
qed

lemma release_order_distinct: "distinct (release_order table)"
proof -
  let ?p = "filter (\<lambda>(_, r). lr_class r = ElasticRoutedExperts) (table_entries table)"
  let ?c = "filter (\<lambda>(_, r). is_complete r) (rev (table_entries table))"
  have "distinct (map fst (filter P xs))" if "distinct (map fst xs)" for P and xs :: "layer_entry list"
    using that by (rule distinct_map_filter)
  then have "distinct (map fst ?p)" "distinct (map fst ?c)"
    using table_entries_distinct [of table] by (simp_all add: rev_map [symmetric])
  moreover have "fst ` set ?p \<inter> fst ` set ?c = {}"
    by (auto simp: table_entries_set is_complete_def)
  ultimately show ?thesis by (simp add: release_order_def distinct_map_sort_by)
qed

end
