(* ===== verification/Foundation_Overlay.thy ===== *)
theory Foundation_Overlay
  imports Residency_Order "HOL-Library.Product_Lexorder"
begin

text \<open>
  \<^verbatim>\<open>residency/foundation_overlay.rs\<close>: the plan for a ceiling that holds every routed floor but not every
  complete layer. Complete layers are chosen greedily on top of the floors (seated ones first, then
  cheapest), then resident partial pages are kept from what is left. The lemmas account for every
  byte of the ceiling.
\<close>

section \<open>The strategy\<close>

definition complete_candidates ::
  "ExpertLayerGeometry list \<Rightarrow> residency_table \<Rightarrow> u64 list \<Rightarrow> (nat \<times> u64 \<times> bool) list" where
  "complete_candidates gs table floors =
     map (\<lambda>g. let i = lg_layer_index g in
            (i, lg_complete_layer_payload_bytes g - floors ! i,
             case table ! i of Some r \<Rightarrow> is_complete r | None \<Rightarrow> False)) gs"

definition complete_candidate_key :: "nat \<times> u64 \<times> bool \<Rightarrow> bool \<times> u64 \<times> nat" where
  "complete_candidate_key k = (case k of (i, incremental, seated) \<Rightarrow> (\<not> seated, incremental, i))"

definition select_complete_layers_within_ceiling ::
  "ExpertLayerGeometry list \<Rightarrow> residency_table \<Rightarrow> u64 list \<Rightarrow> u64 \<Rightarrow> u64 \<Rightarrow>
   ExpertResidencyPlanError + (bool list \<times> u64)" where
  "select_complete_layers_within_ceiling gs table floors ceiling_bytes all_layer_routed_floor_bytes =
     try_fold (take_within_ceiling ceiling_bytes)
       (replicate (length gs) False, all_layer_routed_floor_bytes)
       (map (\<lambda>(i, incremental, _). (i, incremental))
          (sort_by (\<lambda>a b. cmp_of (complete_candidate_key a) (complete_candidate_key b))
             (complete_candidates gs table floors)))"

definition keep_partial_step :: "u64 list \<Rightarrow> layer_entry \<Rightarrow> bool list \<times> u64 \<Rightarrow> bool list \<times> u64" where
  "keep_partial_step floors entry state =
     (case (entry, state) of ((i, r), (preserve, overlay_extra_bytes)) \<Rightarrow>
        let incremental_bytes = saturating_sub (lr_payload_bytes r) (floors ! i)
        in if incremental_bytes \<le> overlay_extra_bytes
           then (preserve[i := True], saturating_sub overlay_extra_bytes incremental_bytes)
           else state)"

definition select_preserved_partial_layers ::
  "ExpertLayerGeometry list \<Rightarrow> residency_table \<Rightarrow> u64 list \<Rightarrow> u64 \<Rightarrow> u64 \<Rightarrow> bool list \<Rightarrow> bool list" where
  "select_preserved_partial_layers gs table floors ceiling_bytes foundation_and_floor_bytes complete_targets =
     fst (fold (keep_partial_step floors)
       (sort_by (\<lambda>a b. compare_partial_coverage b a)
          (filter (\<lambda>(i, r). \<not> complete_targets ! i \<and> lr_class r = ElasticRoutedExperts) (table_entries table)))
       (replicate (length gs) False, saturating_sub ceiling_bytes foundation_and_floor_bytes))"

definition overlay_target ::
  "CurrentExpertLayerResidency option \<Rightarrow> bool \<Rightarrow> bool \<Rightarrow> ExpertLayerResidencyTarget" where
  "overlay_target current complete_target preserve =
     (if complete_target
      then (if (case current of Some r \<Rightarrow> is_complete r | None \<Rightarrow> False)
            then PreserveComplete else PromoteCompleteOnMandatoryRead)
      else case current of
             Some r \<Rightarrow> if is_complete r then ReleaseCompleteForExactDeficit
                       else if preserve then PreservePartial else ReleasePartial
           | None \<Rightarrow> AdmitPartialOnMandatoryRouteRead)"

definition account_step ::
  "ExpertLayerGeometry list \<Rightarrow> residency_table \<Rightarrow> u64 list \<Rightarrow> bool list \<Rightarrow> bool list \<Rightarrow>
   u64 \<times> u64 \<times> ExpertLayerResidencyTarget list \<Rightarrow> nat \<Rightarrow>
   ExpertResidencyPlanError + (u64 \<times> u64 \<times> ExpertLayerResidencyTarget list)" where
  "account_step gs table floors complete_targets preserve_partial state i =
     (case state of (preserved_bytes, new_retained_bytes, targets) \<Rightarrow>
        let current = table ! i;
            target = overlay_target current (complete_targets ! i) (preserve_partial ! i);
            charged_capacity_bytes =
              (if complete_targets ! i then lg_complete_layer_payload_bytes (gs ! i) else floors ! i);
            charge = (\<lambda>preserved new_retained.
              result_bind (ok_or (checked_add preserved_bytes preserved) ByteCountOverflow) (\<lambda>preserved'.
              result_bind (ok_or (checked_add new_retained_bytes new_retained) ByteCountOverflow) (\<lambda>new'.
              Inr (preserved', new', targets @ [target]))))
        in if target \<in> {PreserveComplete, PreservePartial, PromoteCompleteOnMandatoryRead}
           then (case current of
                   Some r \<Rightarrow>
                     let kept_charged_bytes = min (lr_payload_bytes r) charged_capacity_bytes
                     in charge (lr_payload_bytes r) (charged_capacity_bytes - kept_charged_bytes)
                 | None \<Rightarrow> Inr (preserved_bytes, new_retained_bytes, targets @ [target]))
           else if target = ReleaseCompleteForExactDeficit
           then (let retained_floor_bytes =
                       (case current of Some r \<Rightarrow> min (lr_payload_bytes r) (floors ! i) | None \<Rightarrow> 0)
                 in charge retained_floor_bytes (charged_capacity_bytes - retained_floor_bytes))
           else result_bind (ok_or (checked_add new_retained_bytes charged_capacity_bytes) ByteCountOverflow)
                  (\<lambda>new'. Inr (preserved_bytes, new', targets @ [target])))"

definition account_planned_layer_charges ::
  "ExpertLayerGeometry list \<Rightarrow> residency_table \<Rightarrow> u64 list \<Rightarrow> bool list \<Rightarrow> bool list \<Rightarrow>
   ExpertResidencyPlanError + (u64 \<times> u64 \<times> ExpertLayerResidencyTarget list)" where
  "account_planned_layer_charges gs table floors complete_targets preserve_partial =
     try_fold (account_step gs table floors complete_targets preserve_partial) (0, 0, []) [0..<length gs]"

definition selected_indexes :: "bool list \<Rightarrow> nat list" where
  "selected_indexes flags = map fst (filter snd (enumerate 0 flags))"

definition foundation_and_overlay_plan ::
  "MemoryPhase \<Rightarrow> u64 \<Rightarrow> ExpertLayerGeometry list \<Rightarrow> residency_table \<Rightarrow> u64 list \<Rightarrow> u64 \<Rightarrow>
   ExpertResidencyPlanError + ExpertResidencyPlan" where
  "foundation_and_overlay_plan phase ceiling_bytes gs table floors all_layer_routed_floor_bytes =
     result_bind (select_complete_layers_within_ceiling gs table floors ceiling_bytes all_layer_routed_floor_bytes)
       (\<lambda>(complete_targets, foundation_and_floor_bytes).
     let preserve_partial = select_preserved_partial_layers gs table floors ceiling_bytes
           foundation_and_floor_bytes complete_targets
     in result_bind (account_planned_layer_charges gs table floors complete_targets preserve_partial)
       (\<lambda>(preserved_bytes, new_retained_bytes, layer_targets).
     result_bind (checked_sum (map snd (filter (\<lambda>(i, _). \<not> complete_targets ! i) (enumerate 0 floors))))
       (\<lambda>reserved_routed_overlay_bytes.
     result_bind (checked_sum (map (\<lambda>g. if complete_targets ! lg_layer_index g
                                       then lg_complete_layer_payload_bytes g
                                       else floors ! lg_layer_index g) gs))
       (\<lambda>target_capacity_bytes.
     if ceiling_bytes < target_capacity_bytes then Inl PlannedResidencyExceedsCeiling
     else Inr \<lparr>plan_phase = phase,
               plan_retained_expert_ceiling_bytes = ceiling_bytes,
               plan_complete_layer_targets = selected_indexes complete_targets,
               plan_layer_targets = layer_targets,
               plan_reserved_routed_overlay_bytes = reserved_routed_overlay_bytes,
               plan_expected_preserved_bytes = preserved_bytes,
               plan_maximum_new_retained_bytes = new_retained_bytes,
               plan_deterministic_release_order = release_order table,
               plan_is_low_budget_partial_mode = False\<rparr>))))"

section \<open>Specification\<close>

abbreviation layer_bytes :: "ExpertLayerGeometry list \<Rightarrow> nat \<Rightarrow> nat" where
  "layer_bytes gs i \<equiv> unat (lg_complete_layer_payload_bytes (gs ! i))"

text \<open>The bytes a plan keeps or promises to a layer: the complete payload of a complete target, the
  resident payload of a preserved partial page.\<close>

definition planned_bytes ::
  "ExpertLayerGeometry list \<Rightarrow> residency_table \<Rightarrow> ExpertResidencyPlan \<Rightarrow> nat \<Rightarrow> nat" where
  "planned_bytes gs table plan i =
     (if i \<in> set (plan_complete_layer_targets plan) then layer_bytes gs i
      else if plan_layer_targets plan ! i = PreservePartial then resident_bytes table i
      else 0)"

definition plan_wf :: "u64 \<Rightarrow> ExpertLayerGeometry list \<Rightarrow> residency_table \<Rightarrow> ExpertResidencyPlan \<Rightarrow> bool" where
  "plan_wf c gs table plan \<longleftrightarrow>
     length (plan_layer_targets plan) = length gs
     \<and> set (plan_complete_layer_targets plan) =
         {i. i < length gs \<and> plan_layer_targets plan ! i \<in> {PreserveComplete, PromoteCompleteOnMandatoryRead}}
     \<and> (\<forall>i < length gs. plan_layer_targets plan ! i = PreserveComplete \<longrightarrow>
           (\<exists>r. table ! i = Some r \<and> is_complete r))
     \<and> (\<forall>i < length gs. plan_layer_targets plan ! i \<in> {PreservePartial, ReleasePartial} \<longrightarrow>
           (\<exists>r. table ! i = Some r \<and> \<not> is_complete r))
     \<and> (\<Sum>i < length gs. planned_bytes gs table plan i) \<le> unat c
     \<and> plan_deterministic_release_order plan = release_order table"

text \<open>The premises of the strategy: validated inputs and their routed floors, which fit the ceiling.\<close>

definition overlay_inputs ::
  "u64 \<Rightarrow> ExpertLayerGeometry list \<Rightarrow> residency_table \<Rightarrow> u64 list \<Rightarrow> u64 \<Rightarrow> bool" where
  "overlay_inputs c gs table floors total_floor \<longleftrightarrow>
     inputs_wf c gs table \<and> length floors = length gs
     \<and> (\<forall>i < length gs. floors ! i \<le> lg_complete_layer_payload_bytes (gs ! i))
     \<and> unat total_floor = (\<Sum>i < length gs. unat (floors ! i)) \<and> total_floor \<le> c"

definition capacity_of :: "ExpertLayerGeometry list \<Rightarrow> u64 list \<Rightarrow> bool list \<Rightarrow> nat \<Rightarrow> nat" where
  "capacity_of gs floors flags i = (if flags ! i then layer_bytes gs i else unat (floors ! i))"

section \<open>Lemmas\<close>

lemma overlay_inputsD:
  assumes "overlay_inputs c gs table floors total_floor" "i < length gs"
  shows "lg_layer_index (gs ! i) = i" "unat (floors ! i) \<le> layer_bytes gs i"
    "table ! i = Some r \<Longrightarrow> residency_wf (gs ! i) r"
  using assms by (auto simp: overlay_inputs_def inputs_wf_def word_le_nat_alt)

lemma complete_candidates_indexes:
  assumes "overlay_inputs c gs table floors total_floor"
  shows "map fst (complete_candidates gs table floors) = [0..<length gs]"
    and "k \<in> set (complete_candidates gs table floors) \<Longrightarrow>
      fst k < length gs \<and> unat (fst (snd k)) = layer_bytes gs (fst k) - unat (floors ! fst k)"
proof -
  show "map fst (complete_candidates gs table floors) = [0..<length gs]"
    by (rule nth_equalityI)
       (auto simp: complete_candidates_def Let_def overlay_inputsD [OF assms])
  assume "k \<in> set (complete_candidates gs table floors)"
  then obtain i where i: "i < length gs" and k: "k = (let j = lg_layer_index (gs ! i) in
      (j, lg_complete_layer_payload_bytes (gs ! i) - floors ! j,
       case table ! j of Some r \<Rightarrow> is_complete r | None \<Rightarrow> False))"
    unfolding complete_candidates_def by (auto simp: in_set_conv_nth)
  show "fst k < length gs \<and> unat (fst (snd k)) = layer_bytes gs (fst k) - unat (floors ! fst k)"
    using i overlay_inputsD [OF assms i]
    by (simp add: k Let_def unat_sub_exact word_le_nat_alt)
qed

lemma select_complete_candidates:
  assumes "overlay_inputs c gs table floors total_floor"
  obtains cs where
    "select_complete_layers_within_ceiling gs table floors c total_floor =
       try_fold (take_within_ceiling c) (replicate (length gs) False, total_floor) cs"
    "distinct (map fst cs)" "fst ` set cs = {..<length gs}"
    "\<And>k. k \<in> set cs \<Longrightarrow> unat (snd k) = layer_bytes gs (fst k) - unat (floors ! fst k)"
proof
  let ?sorted = "sort_by (\<lambda>a b. cmp_of (complete_candidate_key a) (complete_candidate_key b))
    (complete_candidates gs table floors)"
  let ?cs = "map (\<lambda>(i, incremental, _). (i, incremental)) ?sorted"
  show "select_complete_layers_within_ceiling gs table floors c total_floor =
      try_fold (take_within_ceiling c) (replicate (length gs) False, total_floor) ?cs"
    by (simp add: select_complete_layers_within_ceiling_def)
  have fst_cs: "map fst ?cs = map fst ?sorted" by (simp add: comp_def case_prod_unfold)
  show "distinct (map fst ?cs)"
    unfolding fst_cs distinct_map_sort_by complete_candidates_indexes(1) [OF assms] by simp
  have "set (map fst ?cs) = set (map fst (complete_candidates gs table floors))" unfolding fst_cs by simp
  then show "fst ` set ?cs = {..<length gs}"
    unfolding complete_candidates_indexes(1) [OF assms] by (simp only: set_map set_upt atLeast0LessThan)
  show "unat (snd k) = layer_bytes gs (fst k) - unat (floors ! fst k)" if "k \<in> set ?cs" for k
    using that complete_candidates_indexes(2) [OF assms] by (force simp: case_prod_unfold)
qed

lemma select_complete_total:
  assumes "overlay_inputs c gs table floors total_floor"
  shows "\<exists>flags used. select_complete_layers_within_ceiling gs table floors c total_floor = Inr (flags, used)
     \<and> length flags = length gs \<and> used \<le> c
     \<and> unat used = (\<Sum>i < length gs. capacity_of gs floors flags i)"
proof -
  let ?start = "(replicate (length gs) False, total_floor)"
  obtain cs where select: "select_complete_layers_within_ceiling gs table floors c total_floor =
      try_fold (take_within_ceiling c) ?start cs"
    and d: "distinct (map fst cs)" and range: "fst ` set cs = {..<length gs}"
    and cost: "\<And>k. k \<in> set cs \<Longrightarrow> unat (snd k) = layer_bytes gs (fst k) - unat (floors ! fst k)"
    using select_complete_candidates [OF assms] by blast
  have le: "unat total_floor \<le> unat c" using assms by (simp add: overlay_inputs_def word_le_nat_alt)
  obtain flags used where loop: "try_fold (take_within_ceiling c) ?start cs = Inr (flags, used)"
    and used: "unat used \<le> unat c"
    using ceiling_loop.loop_total [where s = ?start and cs = cs and c = c] le by auto
  have inside: "fst k < length gs" if "k \<in> set cs" for k
    using imageI [OF that, of fst] unfolding range by simp
  have fresh: "\<forall>(i, k) \<in> set cs. i < length (replicate (length gs) False) \<and> \<not> replicate (length gs) False ! i"
    using inside by (auto dest!: inside)
  note spent = take_within_ceiling_spent [OF d fresh loop]
  let ?h = "\<lambda>i. if flags ! i then layer_bytes gs i - unat (floors ! i) else 0"
  have "map (\<lambda>(i, k). if flags ! i then unat k else 0) cs = map (\<lambda>k. ?h (fst k)) cs"
    by (rule map_cong [OF refl]) (simp add: case_prod_unfold cost)
  moreover have "sum_list (map (\<lambda>k. ?h (fst k)) cs) = (\<Sum>i < length gs. ?h i)"
    by (rule sum_list_by_layer [OF d]) (use range inside in \<open>simp_all\<close>)
  ultimately have "unat used = (\<Sum>i < length gs. unat (floors ! i)) + (\<Sum>i < length gs. ?h i)"
    using spent assms unfolding overlay_inputs_def by (simp only:)
  also have "\<dots> = (\<Sum>i < length gs. capacity_of gs floors flags i)"
    unfolding sum.distrib [symmetric]
    by (rule sum.cong) (use overlay_inputsD(2) [OF assms] in \<open>auto simp: capacity_of_def\<close>)
  finally have "unat used = (\<Sum>i < length gs. capacity_of gs floors flags i)" .
  moreover have "length flags = length gs" using spent by simp
  ultimately show ?thesis
    using used by (intro exI conjI) (auto simp: select loop word_le_nat_alt)
qed

lemma keep_partial_fold:
  assumes "distinct (map fst es)" "\<forall>(i, r) \<in> set es. i < length preserve \<and> \<not> preserve ! i"
    and "fold (keep_partial_step floors) es (preserve, extra) = (preserve', extra')"
  shows "length preserve' = length preserve
    \<and> (\<forall>i. i \<notin> fst ` set es \<longrightarrow> preserve' ! i = preserve ! i)
    \<and> sum_list (map (\<lambda>(i, r). if preserve' ! i then unat (lr_payload_bytes r) - unat (floors ! i) else 0) es)
        + unat extra' = unat extra"
  using assms
proof (induction es arbitrary: preserve extra)
  case (Cons e es)
  obtain i r where e: "e = (i, r)" by fastforce
  define inc where "inc = saturating_sub (lr_payload_bytes r) (floors ! i)"
  define pre where "pre = (if inc \<le> extra then preserve[i := True] else preserve)"
  define ex where "ex = (if inc \<le> extra then saturating_sub extra inc else extra)"
  have inc: "unat inc = unat (lr_payload_bytes r) - unat (floors ! i)"
    by (simp add: inc_def unat_saturating_sub)
  have "keep_partial_step floors (i, r) (preserve, extra) = (pre, ex)"
    by (simp add: keep_partial_step_def Let_def inc_def [symmetric] pre_def ex_def)
  then have rest: "fold (keep_partial_step floors) es (pre, ex) = (preserve', extra')"
    using Cons.prems(3) by (simp add: e)
  have d: "distinct (map fst es)" "i \<notin> fst ` set es" using Cons.prems(1) by (auto simp: e)
  have fresh: "\<forall>(j, q) \<in> set es. j < length pre \<and> \<not> pre ! j"
    using Cons.prems(2) d(2) by (force simp: pre_def e nth_list_update)
  note IH = Cons.IH [OF d(1) fresh rest]
  have i: "preserve' ! i = (inc \<le> extra)" using IH d(2) Cons.prems(2) by (auto simp: pre_def e)
  have "length preserve' = length preserve" using IH by (simp add: pre_def)
  moreover have "\<forall>j. j \<notin> fst ` set (e # es) \<longrightarrow> preserve' ! j = preserve ! j"
    using IH by (auto simp: e pre_def)
  moreover have "sum_list (map (\<lambda>(i, r). if preserve' ! i then unat (lr_payload_bytes r) - unat (floors ! i) else 0)
      (e # es)) + unat extra' = unat extra"
    using IH i inc by (auto simp: e ex_def unat_saturating_sub word_le_nat_alt)
  ultimately show ?case by blast
qed simp

lemma preserved_partial_bytes:
  fixes used :: u64
  assumes "overlay_inputs c gs table floors total_floor" "length flags = length gs"
  defines "preserve \<equiv> select_preserved_partial_layers gs table floors c used flags"
  shows "length preserve = length gs
    \<and> (\<forall>i < length gs. preserve ! i \<longrightarrow> \<not> flags ! i \<and> (\<exists>r. table ! i = Some r \<and> \<not> is_complete r))
    \<and> (\<Sum>i < length gs. if preserve ! i then resident_bytes table i - unat (floors ! i) else 0)
        \<le> unat c - unat used"
proof -
  let ?es = "sort_by (\<lambda>a b. compare_partial_coverage b a)
    (filter (\<lambda>(i, r). \<not> flags ! i \<and> lr_class r = ElasticRoutedExperts) (table_entries table))"
  have len: "length table = length gs" using assms(1) by (simp add: overlay_inputs_def inputs_wf_def)
  obtain extra' where loop: "fold (keep_partial_step floors) ?es
      (replicate (length gs) False, saturating_sub c used) = (preserve, extra')"
    unfolding preserve_def select_preserved_partial_layers_def by (metis prod.collapse)
  have mem: "(i, r) \<in> set ?es \<longleftrightarrow> i < length gs \<and> table ! i = Some r \<and> \<not> flags ! i \<and> \<not> is_complete r" for i r
    using len by (cases "lr_class r") (auto simp: table_entries_set is_complete_def)
  have d: "distinct (map fst ?es)"
    unfolding distinct_map_sort_by by (rule distinct_map_filter [OF table_entries_distinct])
  have fresh: "\<forall>(i, r) \<in> set ?es. i < length (replicate (length gs) False) \<and> \<not> replicate (length gs) False ! i"
  proof (rule ballI, clarify)
    fix i r assume "(i, r) \<in> set ?es"
    then have "i < length gs" using mem by blast
    then show "i < length (replicate (length gs) False) \<and> \<not> replicate (length gs) False ! i" by simp
  qed
  note facts = keep_partial_fold [OF d fresh loop]
  have outside: "\<not> preserve ! i" if "i < length gs" "i \<notin> fst ` set ?es" for i
    using facts that by simp
  let ?h = "\<lambda>i. if preserve ! i then resident_bytes table i - unat (floors ! i) else 0"
  have "map (\<lambda>(i, r). if preserve ! i then unat (lr_payload_bytes r) - unat (floors ! i) else 0) ?es =
      map (\<lambda>e. ?h (fst e)) ?es"
    by (rule map_cong [OF refl]) (auto simp: mem resident_bytes_def simp del: set_sort_by)
  moreover have "sum_list (map (\<lambda>e. ?h (fst e)) ?es) = (\<Sum>i < length gs. ?h i)"
  proof (rule sum_list_by_layer [OF d])
    show "\<forall>k \<in> set ?es. fst k < length gs" using mem by (metis prod.collapse)
    show "\<forall>i < length gs. i \<notin> fst ` set ?es \<longrightarrow> ?h i = 0" using outside by simp
  qed
  moreover have "sum_list (map (\<lambda>(i, r). if preserve ! i then unat (lr_payload_bytes r) - unat (floors ! i) else 0) ?es)
      + unat extra' = unat (saturating_sub c used)"
    using facts by blast
  ultimately have "(\<Sum>i < length gs. ?h i) + unat extra' = unat (saturating_sub c used)" by (simp only:)
  then have "(\<Sum>i < length gs. ?h i) \<le> unat c - unat used" by (simp add: unat_saturating_sub)
  moreover have "\<not> flags ! i \<and> (\<exists>r. table ! i = Some r \<and> \<not> is_complete r)" if "i < length gs" "preserve ! i" for i
  proof -
    from that outside obtain r where "(i, r) \<in> set ?es" by force
    with mem show ?thesis by blast
  qed
  ultimately show ?thesis using facts by simp
qed

text \<open>Charging the targets never overflows: preserved bytes stay below the resident bytes, new bytes
  below the planned capacity.\<close>

lemma account_total:
  assumes "overlay_inputs c gs table floors total_floor"
    and "(\<Sum>i < length gs. capacity_of gs floors flags i) \<le> unat c" and "n \<le> length gs"
  shows "\<exists>p q. try_fold (account_step gs table floors flags preserve) (0, 0, []) [0..<n] =
       Inr (p, q, map (\<lambda>i. overlay_target (table ! i) (flags ! i) (preserve ! i)) [0..<n])
     \<and> unat p \<le> (\<Sum>i < n. resident_bytes table i)
     \<and> unat q \<le> (\<Sum>i < n. capacity_of gs floors flags i)"
  using assms(3)
proof (induction n)
  case (Suc n)
  then obtain p q where IH: "try_fold (account_step gs table floors flags preserve) (0, 0, []) [0..<n] =
       Inr (p, q, map (\<lambda>i. overlay_target (table ! i) (flags ! i) (preserve ! i)) [0..<n])"
    "unat p \<le> (\<Sum>i < n. resident_bytes table i)" "unat q \<le> (\<Sum>i < n. capacity_of gs floors flags i)"
    by auto
  have res: "(\<Sum>i < Suc n. resident_bytes table i) \<le> unat c"
    using Suc.prems assms(1) order.trans [OF sum_mono2 [of "{..<length gs}" "{..<Suc n}" "resident_bytes table"]]
    by (auto simp: overlay_inputs_def inputs_wf_def)
  have cap: "(\<Sum>i < Suc n. capacity_of gs floors flags i) \<le> unat c"
    using Suc.prems assms(2)
      order.trans [OF sum_mono2 [of "{..<length gs}" "{..<Suc n}" "capacity_of gs floors flags"]] by auto
  have room: "unat p + x < 2 ^ 64" "unat q + y < 2 ^ 64"
    if "x \<le> resident_bytes table n" "y \<le> capacity_of gs floors flags n" for x y
    using that IH(2,3) res cap u64_bound [of c] by auto
  let ?cap = "if flags ! n then lg_complete_layer_payload_bytes (gs ! n) else floors ! n"
  have capn: "unat ?cap = capacity_of gs floors flags n" by (simp add: capacity_of_def)
  have pay: "unat (lr_payload_bytes r) = resident_bytes table n" if "table ! n = Some r" for r
    using that by (simp add: resident_bytes_def)
  have sub: "unat (?cap - min x ?cap) \<le> capacity_of gs floors flags n" for x
    by (simp add: unat_sub_exact capn)
  have subf: "unat (?cap - min x (floors ! n)) \<le> capacity_of gs floors flags n"
    if "\<not> flags ! n" for x
    using that by (simp add: unat_sub_exact capacity_of_def)
  have "\<exists>p' q'. account_step gs table floors flags preserve
        (p, q, map (\<lambda>i. overlay_target (table ! i) (flags ! i) (preserve ! i)) [0..<n]) n =
      Inr (p', q', map (\<lambda>i. overlay_target (table ! i) (flags ! i) (preserve ! i)) [0..<Suc n])
      \<and> unat p' \<le> unat p + resident_bytes table n \<and> unat q' \<le> unat q + capacity_of gs floors flags n"
  proof (cases "table ! n")
    case None
    have "unat q + unat ?cap < 2 ^ 64" using room(2) [of 0 "capacity_of gs floors flags n"] capn by simp
    then show ?thesis
      using None capn
      by (cases "flags ! n") (auto simp: account_step_def Let_def overlay_target_def checked_add_def unat_add_exact)
  next
    case (Some r)
    have p_room: "unat p + unat x < 2 ^ 64" if "unat x \<le> unat (lr_payload_bytes r)" for x :: u64
      using room(1) [of "unat x" 0] that pay [OF Some] by simp
    have q_room: "unat q + unat y < 2 ^ 64" if "unat y \<le> capacity_of gs floors flags n" for y :: u64
      using room(2) [of 0 "unat y"] that by simp
    show ?thesis
      using Some pay [OF Some] capn sub [of "lr_payload_bytes r"] subf [of "lr_payload_bytes r"]
        p_room [of "lr_payload_bytes r"] p_room [of "min (lr_payload_bytes r) (floors ! n)"]
        q_room [of ?cap] q_room [of "?cap - min (lr_payload_bytes r) ?cap"]
        q_room [of "?cap - min (lr_payload_bytes r) (floors ! n)"]
      by (auto simp: account_step_def Let_def overlay_target_def checked_add_def unat_add_exact unat_min
          split: if_splits)
  qed
  then show ?case using IH by (force simp: try_fold_append)
qed simp

lemma checked_sum_total:
  "sum_list (map unat bs) < 18446744073709551616 \<Longrightarrow>
   \<exists>s. checked_sum bs = Inr s \<and> unat s = sum_list (map unat bs)"
  by (simp add: checked_sum_def checked_sum_from unat_sum_list_exact)

lemma sum_enumerate_filter:
  "sum_list (map unat (map snd (filter (\<lambda>(i, _). P i) (enumerate 0 ws)))) =
     (\<Sum>i < length ws. if P i then unat (ws ! i :: u64) else 0)"
  by (induction ws rule: rev_induct) (auto simp: enumerate_append_eq nth_append intro!: sum.cong)

lemma sum_list_nth_lt: "sum_list (map f xs) = (\<Sum>i < length xs. f (xs ! i))" for f :: "'a \<Rightarrow> nat"
  by (induction xs rule: rev_induct) (auto simp: nth_append intro!: sum.cong)

lemma set_selected_indexes: "set (selected_indexes flags) = {i. i < length flags \<and> flags ! i}"
  by (force simp: selected_indexes_def in_set_enumerate_eq image_iff)

lemma overlay_target_complete:
  "overlay_target current complete preserve \<in> {PreserveComplete, PromoteCompleteOnMandatoryRead} \<longleftrightarrow> complete"
  by (auto simp: overlay_target_def split: option.splits)

lemma overlay_target_partial:
  "overlay_target current complete preserve = PreservePartial \<longleftrightarrow>
     \<not> complete \<and> preserve \<and> (\<exists>r. current = Some r \<and> \<not> is_complete r)"
  by (auto simp: overlay_target_def split: option.splits)

text \<open>The strategy always produces a plan: its capacity check cannot fail.\<close>

lemma foundation_and_overlay_total:
  assumes "overlay_inputs c gs table floors total_floor"
  shows "\<exists>flags preserve plan. foundation_and_overlay_plan phase c gs table floors total_floor = Inr plan
     \<and> length flags = length gs
     \<and> plan_layer_targets plan =
         map (\<lambda>i. overlay_target (table ! i) (flags ! i) (preserve ! i)) [0..<length gs]
     \<and> plan_complete_layer_targets plan = selected_indexes flags
     \<and> plan_deterministic_release_order plan = release_order table \<and> plan_phase plan = phase
     \<and> unat (plan_reserved_routed_overlay_bytes plan) = (\<Sum>i < length gs. if flags ! i then 0 else unat (floors ! i))
     \<and> (\<Sum>i < length gs. capacity_of gs floors flags i)
         + (\<Sum>i < length gs. if preserve ! i then resident_bytes table i - unat (floors ! i) else 0) \<le> unat c
     \<and> (\<forall>i < length gs. preserve ! i \<longrightarrow> \<not> flags ! i)"
proof -
  obtain flags used where select: "select_complete_layers_within_ceiling gs table floors c total_floor = Inr (flags, used)"
    and flags: "length flags = length gs" and used: "used \<le> c"
      "unat used = (\<Sum>i < length gs. capacity_of gs floors flags i)"
    using select_complete_total [OF assms] by blast
  define preserve where "preserve = select_preserved_partial_layers gs table floors c used flags"
  note partial = preserved_partial_bytes [OF assms flags, of used, folded preserve_def]
  have cap: "(\<Sum>i < length gs. capacity_of gs floors flags i) \<le> unat c"
    using used by (simp add: word_le_nat_alt)
  obtain p q where charges: "account_planned_layer_charges gs table floors flags preserve =
      Inr (p, q, map (\<lambda>i. overlay_target (table ! i) (flags ! i) (preserve ! i)) [0..<length gs])"
    using account_total [OF assms cap, of "length gs" preserve]
    unfolding account_planned_layer_charges_def by blast
  have len: "length floors = length gs" and ix: "\<And>i. i < length gs \<Longrightarrow> lg_layer_index (gs ! i) = i"
    using assms by (simp_all add: overlay_inputs_def inputs_wf_def)
  have "(\<Sum>i < length gs. if \<not> flags ! i then unat (floors ! i) else 0) \<le>
      (\<Sum>i < length gs. capacity_of gs floors flags i)"
    by (rule sum_mono) (simp add: capacity_of_def)
  then have "sum_list (map unat (map snd (filter (\<lambda>(i, _). \<not> flags ! i) (enumerate 0 floors)))) < 18446744073709551616"
    unfolding sum_enumerate_filter len using cap u64_bound [of c] by linarith
  from checked_sum_total [OF this] obtain reserved where
    reserved: "checked_sum (map snd (filter (\<lambda>(i, _). \<not> flags ! i) (enumerate 0 floors))) = Inr reserved"
      "unat reserved = (\<Sum>i < length gs. if \<not> flags ! i then unat (floors ! i) else 0)"
    unfolding sum_enumerate_filter len by blast
  let ?caps = "map (\<lambda>g. if flags ! lg_layer_index g then lg_complete_layer_payload_bytes g
      else floors ! lg_layer_index g) gs"
  have caps: "sum_list (map unat ?caps) = (\<Sum>i < length gs. capacity_of gs floors flags i)"
    unfolding map_map sum_list_nth_lt by (rule sum.cong) (simp_all add: ix capacity_of_def)
  have "sum_list (map unat ?caps) < 18446744073709551616"
    unfolding caps using cap u64_bound [of c] by linarith
  from checked_sum_total [OF this] obtain target where
    target: "checked_sum ?caps = Inr target" "unat target \<le> unat c"
    unfolding caps using cap by auto
  show ?thesis
    apply (rule exI [of _ flags], rule exI [of _ preserve], intro exI conjI)
    apply (simp add: foundation_and_overlay_plan_def select preserve_def [symmetric] Let_def charges reserved(1)
        target(1) word_less_nat_alt not_less [THEN iffD2, OF target(2)])
    using flags reserved(2) partial used cap by (auto intro!: sum.cong)
qed

end
