(* ===== verification/Planner.thy ===== *)
theory Planner
  imports Foundation_Overlay
begin

text \<open>
  \<^verbatim>\<open>residency/planner.rs\<close>, \<^verbatim>\<open>residency/release.rs\<close> and \<^verbatim>\<open>residency/decode_seating.rs\<close>: the dispatch
  over the four strategies of a residency plan (whole model, generation, low budget, foundation
  with overlay), and how a plan's releases and promotions are enacted.
\<close>

section \<open>Strategies\<close>

definition complete_model_step ::
  "u64 \<times> ExpertLayerResidencyTarget list \<Rightarrow> CurrentExpertLayerResidency option \<Rightarrow>
   ExpertResidencyPlanError + (u64 \<times> ExpertLayerResidencyTarget list)" where
  "complete_model_step state current =
     (case state of (preserved_bytes, targets) \<Rightarrow>
        let targets' = targets @ [if (case current of Some r \<Rightarrow> is_complete r | None \<Rightarrow> False)
                                  then PreserveComplete else PromoteCompleteOnMandatoryRead]
        in case current of
             Some r \<Rightarrow> result_bind (ok_or (checked_add preserved_bytes (lr_payload_bytes r)) ByteCountOverflow)
                         (\<lambda>preserved'. Inr (preserved', targets'))
           | None \<Rightarrow> Inr (preserved_bytes, targets'))"

definition complete_model_plan ::
  "MemoryPhase \<Rightarrow> u64 \<Rightarrow> ExpertLayerGeometry list \<Rightarrow> residency_table \<Rightarrow> u64 \<Rightarrow>
   ExpertResidencyPlanError + ExpertResidencyPlan" where
  "complete_model_plan phase ceiling_bytes gs table complete_model_payload_bytes =
     result_bind (try_fold complete_model_step (0, []) table)
       (\<lambda>(preserved_bytes, layer_targets).
     Inr \<lparr>plan_phase = phase,
          plan_retained_expert_ceiling_bytes = ceiling_bytes,
          plan_complete_layer_targets = [0..<length gs],
          plan_layer_targets = layer_targets,
          plan_reserved_routed_overlay_bytes = 0,
          plan_expected_preserved_bytes = preserved_bytes,
          plan_maximum_new_retained_bytes = saturating_sub complete_model_payload_bytes preserved_bytes,
          plan_deterministic_release_order = release_order table,
          plan_is_low_budget_partial_mode = False\<rparr>)"

text \<open>Both strategies below full fit first keep resident pages in priority order.\<close>

definition preserve_resident_pages ::
  "u64 \<Rightarrow> ExpertLayerGeometry list \<Rightarrow> residency_table \<Rightarrow> ExpertResidencyPlanError + (bool list \<times> u64)" where
  "preserve_resident_pages ceiling_bytes gs table =
     try_fold (take_within_ceiling ceiling_bytes) (replicate (length gs) False, 0)
       (map (\<lambda>(i, r). (i, lr_payload_bytes r))
          (sort_by compare_preservation_priority (table_entries table)))"

definition completion_candidate_step ::
  "residency_table \<Rightarrow> bool list \<Rightarrow> (u64 \<times> nat \<times> u64) list \<times> u64 \<Rightarrow> nat \<times> ExpertLayerGeometry \<Rightarrow>
   ExpertResidencyPlanError + ((u64 \<times> nat \<times> u64) list \<times> u64)" where
  "completion_candidate_step table selected state layer =
     (case (state, layer) of ((candidates, unretained_routed_floor_bytes), (i, g)) \<Rightarrow>
        case table ! i of
          None \<Rightarrow>
            result_bind (routed_floor_payload_bytes g) (\<lambda>floor_bytes.
            result_bind (ok_or (checked_add unretained_routed_floor_bytes floor_bytes) ByteCountOverflow)
              (\<lambda>unretained'.
            Inr (candidates @ [(lg_complete_layer_payload_bytes g, i, floor_bytes)], unretained')))
        | Some r \<Rightarrow>
            if selected ! i \<and> lr_class r = ElasticRoutedExperts
            then Inr (candidates
                   @ [(saturating_sub (lg_complete_layer_payload_bytes g) (lr_payload_bytes r), i, 0)],
                   unretained_routed_floor_bytes)
            else Inr state)"

definition completion_step ::
  "u64 \<times> nat \<times> u64 \<Rightarrow> bool list \<times> u64 \<times> u64 \<Rightarrow> bool list \<times> u64 \<times> u64" where
  "completion_step candidate state =
     (case (candidate, state) of ((cost_bytes, i, floor_bytes), (promoted, remaining, unretained)) \<Rightarrow>
        let reserve_after_promotion_bytes = saturating_sub unretained floor_bytes
        in if saturating_add cost_bytes reserve_after_promotion_bytes \<le> remaining
           then (promoted[i := True], remaining - cost_bytes, reserve_after_promotion_bytes)
           else state)"

definition generation_completion_promotions ::
  "u64 \<Rightarrow> ExpertLayerGeometry list \<Rightarrow> residency_table \<Rightarrow> bool list \<Rightarrow> ExpertResidencyPlanError + bool list" where
  "generation_completion_promotions leftover_bytes gs table selected =
     result_bind (try_fold (completion_candidate_step table selected) ([], 0) (enumerate 0 gs))
       (\<lambda>(candidates, unretained_routed_floor_bytes).
     Inr (fst (fold completion_step (sort_by cmp_of candidates)
            (replicate (length gs) False, leftover_bytes, unretained_routed_floor_bytes))))"

definition generation_target ::
  "CurrentExpertLayerResidency option \<Rightarrow> bool \<Rightarrow> bool \<Rightarrow> ExpertLayerResidencyTarget" where
  "generation_target current selected promoted =
     (if promoted then PromoteCompleteOnMandatoryRead
      else case current of
             Some r \<Rightarrow>
               if selected then (if is_complete r then PreserveComplete else PreservePartial)
               else if is_complete r then ReleaseCompleteForExactDeficit else ReleasePartial
           | None \<Rightarrow> AdmitPartialOnMandatoryRouteRead)"

definition preserve_existing_expert_pages_for_generation ::
  "MemoryPhase \<Rightarrow> u64 \<Rightarrow> ExpertLayerGeometry list \<Rightarrow> residency_table \<Rightarrow>
   ExpertResidencyPlanError + ExpertResidencyPlan" where
  "preserve_existing_expert_pages_for_generation phase ceiling_bytes gs table =
     result_bind (preserve_resident_pages ceiling_bytes gs table)
       (\<lambda>(selected, preserved_bytes).
     result_bind (generation_completion_promotions (saturating_sub ceiling_bytes preserved_bytes) gs table selected)
       (\<lambda>promoted.
     Inr \<lparr>plan_phase = phase,
          plan_retained_expert_ceiling_bytes = ceiling_bytes,
          plan_complete_layer_targets =
            filter (\<lambda>i. promoted ! i
                      \<or> selected ! i \<and> (case table ! i of Some r \<Rightarrow> is_complete r | None \<Rightarrow> False))
              [0..<length gs],
          plan_layer_targets =
            map (\<lambda>(i, current). generation_target current (selected ! i) (promoted ! i)) (enumerate 0 table),
          plan_reserved_routed_overlay_bytes = 0,
          plan_expected_preserved_bytes = preserved_bytes,
          plan_maximum_new_retained_bytes = saturating_sub ceiling_bytes preserved_bytes,
          plan_deterministic_release_order = release_order table,
          plan_is_low_budget_partial_mode = False\<rparr>))"

definition low_budget_target ::
  "CurrentExpertLayerResidency option \<Rightarrow> bool \<Rightarrow> ExpertLayerResidencyTarget" where
  "low_budget_target current selected =
     (case current of
        Some r \<Rightarrow>
          if selected then (if is_complete r then PreserveComplete else PreservePartial)
          else if is_complete r then ReleaseCompleteForExactDeficit else ReleasePartial
      | None \<Rightarrow> StreamOperationLocal)"

definition low_budget_partial_plan ::
  "MemoryPhase \<Rightarrow> u64 \<Rightarrow> ExpertLayerGeometry list \<Rightarrow> residency_table \<Rightarrow>
   ExpertResidencyPlanError + ExpertResidencyPlan" where
  "low_budget_partial_plan phase ceiling_bytes gs table =
     result_bind (preserve_resident_pages ceiling_bytes gs table)
       (\<lambda>(selected, preserved_bytes).
     Inr \<lparr>plan_phase = phase,
          plan_retained_expert_ceiling_bytes = ceiling_bytes,
          plan_complete_layer_targets =
            filter (\<lambda>i. selected ! i \<and> (case table ! i of Some r \<Rightarrow> is_complete r | None \<Rightarrow> False))
              [0..<length selected],
          plan_layer_targets =
            map (\<lambda>(i, current). low_budget_target current (selected ! i)) (enumerate 0 table),
          plan_reserved_routed_overlay_bytes = 0,
          plan_expected_preserved_bytes = preserved_bytes,
          plan_maximum_new_retained_bytes = 0,
          plan_deterministic_release_order = release_order table,
          plan_is_low_budget_partial_mode = True\<rparr>)"

section \<open>Dispatch\<close>

text \<open>\<^verbatim>\<open>map(..).collect::<Result<Vec<_>, _>>()\<close>\<close>

definition routed_floors :: "ExpertLayerGeometry list \<Rightarrow> ExpertResidencyPlanError + u64 list" where
  "routed_floors gs =
     try_fold (\<lambda>floors g. result_bind (routed_floor_payload_bytes g) (\<lambda>f. Inr (floors @ [f]))) [] gs"

definition plan_expert_residency ::
  "MemoryPhase \<Rightarrow> u64 \<Rightarrow> ExpertLayerGeometry list \<Rightarrow> CurrentExpertLayerResidency list \<Rightarrow>
   ExpertResidencyPlanError + ExpertResidencyPlan" where
  "plan_expert_residency phase ceiling_bytes gs current_residencies =
     result_bind (validate_inputs ceiling_bytes gs current_residencies) (\<lambda>table.
     result_bind (checked_sum (map lg_complete_layer_payload_bytes gs)) (\<lambda>complete_model_payload_bytes.
     if complete_model_payload_bytes \<le> ceiling_bytes
     then complete_model_plan phase ceiling_bytes gs table complete_model_payload_bytes
     else if phase \<in> {GenerationPreparation, Decode} \<and> current_residencies \<noteq> []
     then preserve_existing_expert_pages_for_generation phase ceiling_bytes gs table
     else result_bind (routed_floors gs) (\<lambda>floors.
          result_bind (checked_sum floors) (\<lambda>all_layer_routed_floor_bytes.
          if ceiling_bytes < all_layer_routed_floor_bytes
          then low_budget_partial_plan phase ceiling_bytes gs table
          else foundation_and_overlay_plan phase ceiling_bytes gs table floors all_layer_routed_floor_bytes))))"

section \<open>Enactment\<close>

definition should_enact_planned_expert_release :: "MemoryPhase \<Rightarrow> ExpertLayerResidencyTarget \<Rightarrow> bool" where
  "should_enact_planned_expert_release phase target =
     (case target of
        ReleasePartial \<Rightarrow> phase \<in> {Prefill, Idle}
      | ReleaseCompleteForExactDeficit \<Rightarrow> phase = Idle
      | _ \<Rightarrow> False)"

definition complete_layer_indexes_required_before_decode :: "ExpertResidencyPlan \<Rightarrow> nat list" where
  "complete_layer_indexes_required_before_decode plan =
     filter (\<lambda>i. i < length (plan_layer_targets plan)
               \<and> plan_layer_targets plan ! i = PromoteCompleteOnMandatoryRead)
       (plan_complete_layer_targets plan)"

section \<open>Lemmas\<close>

text \<open>Resident pages passed validation, so their bytes fit the ceiling and every one is kept.\<close>

lemma preserve_resident_pages_all:
  assumes "inputs_wf c gs table"
  shows "\<exists>selected used. preserve_resident_pages c gs table = Inr (selected, used)
     \<and> length selected = length gs \<and> (\<forall>i < length gs. selected ! i \<longleftrightarrow> table ! i \<noteq> None)
     \<and> unat used = (\<Sum>i < length gs. resident_bytes table i)"
proof -
  define es where "es = sort_by compare_preservation_priority (table_entries table)"
  define cs where "cs = map (\<lambda>(i, r). (i, lr_payload_bytes r)) es"
  have len: "length table = length gs" using assms by (simp add: inputs_wf_def)
  have sum: "sum_list (map (\<lambda>(i, k). unat k) cs) = (\<Sum>i < length gs. resident_bytes table i)"
    unfolding cs_def es_def map_map
    using sum_table_entries [of table] len by (simp add: sum_list_sort_by comp_def case_prod_unfold)
  have le: "unat (0 :: u64) + sum_list (map (\<lambda>(i, k). unat k) cs) \<le> unat c"
    unfolding sum using assms by (simp add: inputs_wf_def)
  from take_within_ceiling_all [OF le, of "replicate (length gs) False"] obtain used where
    loop: "try_fold (take_within_ceiling c) (replicate (length gs) False, 0) cs =
        Inr (fold (\<lambda>(i, _) sel. sel[i := True]) cs (replicate (length gs) False), used)"
    and used: "unat used = (\<Sum>i < length gs. resident_bytes table i)"
    unfolding sum by auto
  have "i \<in> fst ` set cs \<longleftrightarrow> table ! i \<noteq> None" if "i < length gs" for i
  proof -
    have "fst ` set cs = fst ` set (table_entries table)" by (force simp: cs_def es_def)
    then have "i \<in> fst ` set cs \<longleftrightarrow> (\<exists>r. (i, r) \<in> set (table_entries table))" by force
    then show ?thesis using that len by (simp add: table_entries_set)
  qed
  then show ?thesis
    using loop used by (simp add: preserve_resident_pages_def cs_def es_def fold_mark_nth)
qed

lemma complete_model_fold:
  assumes "unat preserved + (\<Sum>i < length table. resident_bytes table i) < 18446744073709551616"
  shows "\<exists>p. try_fold complete_model_step (preserved, targets) table =
      Inr (p, targets @ map (\<lambda>c. if (case c of Some r \<Rightarrow> is_complete r | None \<Rightarrow> False)
          then PreserveComplete else PromoteCompleteOnMandatoryRead) table)
    \<and> unat p = unat preserved + (\<Sum>i < length table. resident_bytes table i)"
  using assms
proof (induction table arbitrary: preserved targets)
  case (Cons c table)
  have sum: "(\<Sum>i < length (c # table). resident_bytes (c # table) i) =
      (case c of Some r \<Rightarrow> unat (lr_payload_bytes r) | None \<Rightarrow> 0) + (\<Sum>i < length table. resident_bytes table i)"
    unfolding length_Cons sum.lessThan_Suc_shift by (simp add: resident_bytes_def)
  show ?case
  proof (cases c)
    case None
    then show ?thesis
      using Cons.IH [of preserved "targets @ [PromoteCompleteOnMandatoryRead]"] Cons.prems [unfolded sum]
      unfolding sum by (simp add: complete_model_step_def Let_def)
  next
    case (Some r)
    have room: "unat preserved + unat (lr_payload_bytes r) < 2 ^ 64"
      using Cons.prems [unfolded sum] Some by simp
    then have "unat (preserved + lr_payload_bytes r) = unat preserved + unat (lr_payload_bytes r)"
      by (simp add: unat_add_exact)
    then show ?thesis
      using Cons.IH [of "preserved + lr_payload_bytes r"
          "targets @ [if is_complete r then PreserveComplete else PromoteCompleteOnMandatoryRead]"] Cons.prems [unfolded sum] room
      unfolding sum using Some by (simp add: complete_model_step_def Let_def checked_add_def add.assoc)
  qed
qed simp

lemma complete_model_plan_total:
  assumes "inputs_wf c gs table"
  shows "\<exists>plan. complete_model_plan phase c gs table total_bytes = Inr plan
     \<and> plan_complete_layer_targets plan = [0..<length gs]
     \<and> plan_layer_targets plan = map (\<lambda>c. if (case c of Some r \<Rightarrow> is_complete r | None \<Rightarrow> False)
          then PreserveComplete else PromoteCompleteOnMandatoryRead) table
     \<and> plan_deterministic_release_order plan = release_order table \<and> plan_phase plan = phase
     \<and> unat (plan_expected_preserved_bytes plan) = (\<Sum>i < length gs. resident_bytes table i)"
proof -
  have len: "length table = length gs" using assms by (simp add: inputs_wf_def)
  have "unat (0 :: u64) + (\<Sum>i < length table. resident_bytes table i) < 18446744073709551616"
    using assms u64_bound [of c] by (simp add: inputs_wf_def)
  from complete_model_fold [OF this, of "[]"] show ?thesis
    by (auto simp: complete_model_plan_def len)
qed

text \<open>Completing layers with leftover bytes. \<open>floor_word\<close> is the routed floor as a value, \<open>completion_cost\<close>
  what completing a layer costs on top of what is resident.\<close>

definition floor_word :: "ExpertLayerGeometry \<Rightarrow> u64" where
  "floor_word g = (case routed_floor_payload_bytes g of Inr f \<Rightarrow> f | Inl _ \<Rightarrow> 0)"

abbreviation layer_floor :: "ExpertLayerGeometry list \<Rightarrow> nat \<Rightarrow> nat" where
  "layer_floor gs i \<equiv> unat (floor_word (gs ! i))"

definition completion_cost :: "ExpertLayerGeometry list \<Rightarrow> residency_table \<Rightarrow> nat \<Rightarrow> nat" where
  "completion_cost gs table i = layer_bytes gs i - resident_bytes table i"

definition may_complete :: "residency_table \<Rightarrow> bool list \<Rightarrow> nat \<Rightarrow> bool" where
  "may_complete table selected i \<longleftrightarrow>
     (case table ! i of None \<Rightarrow> True | Some r \<Rightarrow> selected ! i \<and> lr_class r = ElasticRoutedExperts)"

definition completion_candidate ::
  "ExpertLayerGeometry list \<Rightarrow> residency_table \<Rightarrow> nat \<Rightarrow> u64 \<times> nat \<times> u64" where
  "completion_candidate gs table i =
     (case table ! i of
        None \<Rightarrow> (lg_complete_layer_payload_bytes (gs ! i), i, floor_word (gs ! i))
      | Some r \<Rightarrow> (saturating_sub (lg_complete_layer_payload_bytes (gs ! i)) (lr_payload_bytes r), i, 0))"

lemma floor_word:
  assumes "geometry_wf g"
  shows "routed_floor_payload_bytes g = Inr (floor_word g)"
    and "unat (floor_word g) \<le> unat (lg_complete_layer_payload_bytes g)"
  using geometry_floor_le [OF assms] by (auto simp: floor_word_def word_le_nat_alt)

lemma enumerate_map_upt': "enumerate 0 gs = map (\<lambda>i. (i, gs ! i)) [0..<length gs]"
  by (rule nth_equalityI) (simp_all add: nth_enumerate_eq)

lemma completion_candidate_simps:
  "fst (snd (completion_candidate gs table i)) = i"
  "unat (fst (completion_candidate gs table i)) = completion_cost gs table i"
  "unat (snd (snd (completion_candidate gs table i))) = (if table ! i = None then layer_floor gs i else 0)"
  by (auto simp: completion_candidate_def completion_cost_def resident_bytes_def unat_saturating_sub
      split: option.splits)

lemma completion_candidates_total:
  assumes "inputs_wf c gs table" "(\<Sum>i < length gs. layer_bytes gs i) < 18446744073709551616" "n \<le> length gs"
  shows "\<exists>u. try_fold (completion_candidate_step table selected) ([], 0) (map (\<lambda>i. (i, gs ! i)) [0..<n]) =
       Inr (map (completion_candidate gs table) (filter (may_complete table selected) [0..<n]), u)
     \<and> unat u = (\<Sum>i < n. if table ! i = None then layer_floor gs i else 0)"
  using assms(3)
proof (induction n)
  case (Suc n)
  then obtain u where IH: "try_fold (completion_candidate_step table selected) ([], 0) (map (\<lambda>i. (i, gs ! i)) [0..<n]) =
       Inr (map (completion_candidate gs table) (filter (may_complete table selected) [0..<n]), u)"
    "unat u = (\<Sum>i < n. if table ! i = None then layer_floor gs i else 0)" by auto
  have wf: "geometry_wf (gs ! i)" if "i < length gs" for i using that assms(1) by (simp add: inputs_wf_def)
  have "(\<Sum>i < Suc n. if table ! i = None then layer_floor gs i else 0) \<le> (\<Sum>i < Suc n. layer_bytes gs i)"
    using Suc.prems floor_word(2) [OF wf] by (intro sum_mono) auto
  also have "\<dots> \<le> (\<Sum>i < length gs. layer_bytes gs i)" using Suc.prems by (intro sum_mono2) auto
  finally have bound: "(\<Sum>i < Suc n. if table ! i = None then layer_floor gs i else 0) < 18446744073709551616"
    using assms(2) by simp
  have floor: "routed_floor_payload_bytes (gs ! n) = Inr (floor_word (gs ! n))"
    using Suc.prems floor_word(1) [OF wf] by simp
  show ?case
  proof (cases "table ! n")
    case None
    have room: "unat u + layer_floor gs n < 2 ^ 64" using bound IH(2) None by simp
    then have "unat (u + floor_word (gs ! n)) = unat u + layer_floor gs n" by (simp add: unat_add_exact)
    moreover have "completion_candidate_step table selected (cs, u) (n, gs ! n) =
        Inr (cs @ [completion_candidate gs table n], u + floor_word (gs ! n))" for cs
      using None room by (simp add: completion_candidate_step_def floor checked_add_def completion_candidate_def)
    moreover have "may_complete table selected n" using None by (simp add: may_complete_def)
    ultimately show ?thesis using IH None by (simp add: try_fold_append)
  next
    case (Some r)
    then have "completion_candidate_step table selected (cs, u) (n, gs ! n) =
        Inr (cs @ (if may_complete table selected n then [completion_candidate gs table n] else []), u)" for cs
      by (simp add: completion_candidate_step_def may_complete_def completion_candidate_def)
    then show ?thesis using IH Some by (simp add: try_fold_append)
  qed
qed simp

text \<open>One round, with what it spends and what it leaves reserved.\<close>

lemma completion_step_cases:
  assumes "unat unretained = unat f + rest"
  obtains taken promoted' remaining' unretained' where
    "completion_step (cost, i, f) (promoted, remaining, unretained) = (promoted', remaining', unretained')"
    "promoted' = (if taken then promoted[i := True] else promoted)"
    "unat remaining = (if taken then unat cost else 0) + unat remaining'"
    "unat unretained' = (if taken then 0 else unat f) + rest"
    "\<lbrakk>taken; unat remaining < 18446744073709551615\<rbrakk> \<Longrightarrow> unretained' \<le> remaining'"
proof -
  define after where "after = saturating_sub unretained f"
  have after: "unat after = rest" using assms by (simp add: after_def unat_saturating_sub)
  have step: "completion_step (cost, i, f) (promoted, remaining, unretained) =
      (if saturating_add cost after \<le> remaining
       then (promoted[i := True], remaining - cost, after) else (promoted, remaining, unretained))"
    by (simp add: completion_step_def Let_def after_def [symmetric])
  show thesis
  proof (cases "saturating_add cost after \<le> remaining")
    case True
    then have sat: "min (unat cost + rest) 18446744073709551615 \<le> unat remaining"
      by (simp add: word_le_nat_alt unat_saturating_add after)
    then have cost: "unat cost \<le> unat remaining" using u64_bound [of cost] by linarith
    then have sub: "unat (remaining - cost) = unat remaining - unat cost"
      by (simp add: unat_sub_exact word_le_nat_alt)
    show thesis
    proof (rule that [of "promoted[i := True]" "remaining - cost" after True])
      show "after \<le> remaining - cost" if "unat remaining < 18446744073709551615"
        using sat that cost unfolding word_le_nat_alt sub after by linarith
    qed (use True step sub cost after in \<open>simp_all\<close>)
  next
    case False
    show thesis
      by (rule that [of promoted remaining unretained False]) (use False step assms in \<open>simp_all\<close>)
  qed
qed

lemma completion_fold:
  assumes "distinct (map (\<lambda>k. fst (snd k)) cs)"
    and "\<forall>k \<in> set cs. fst (snd k) < length promoted \<and> \<not> promoted ! fst (snd k)"
    and "unat unretained = base + sum_list (map (\<lambda>k. unat (snd (snd k))) cs)"
    and "fold completion_step cs (promoted, remaining, unretained) = (promoted', remaining', unretained')"
  shows "length promoted' = length promoted
    \<and> (\<forall>i. i \<notin> (\<lambda>k. fst (snd k)) ` set cs \<longrightarrow> promoted' ! i = promoted ! i)
    \<and> sum_list (map (\<lambda>k. if promoted' ! fst (snd k) then unat (fst k) else 0) cs) + unat remaining' = unat remaining
    \<and> unat unretained' = base + sum_list (map (\<lambda>k. if promoted' ! fst (snd k) then 0 else unat (snd (snd k))) cs)
    \<and> (unat remaining < 18446744073709551615 \<longrightarrow>
         unretained \<le> remaining \<or> (\<exists>k \<in> set cs. promoted' ! fst (snd k)) \<longrightarrow> unretained' \<le> remaining')"
  using assms
proof (induction cs arbitrary: promoted remaining unretained base)
  case (Cons k cs)
  obtain cost i f where k: "k = (cost, i, f)" by (metis prod_cases3)
  let ?later = "sum_list (map (\<lambda>k. unat (snd (snd k))) cs)"
  have "unat unretained = unat f + (base + ?later)" using Cons.prems(3) by (simp add: k)
  then obtain taken pro rm unr where
    step: "completion_step (cost, i, f) (promoted, remaining, unretained) = (pro, rm, unr)"
    and pro: "pro = (if taken then promoted[i := True] else promoted)"
    and rm: "unat remaining = (if taken then unat cost else 0) + unat rm"
    and unr: "unat unr = (if taken then 0 else unat f) + (base + ?later)"
    and fits: "\<lbrakk>taken; unat remaining < 18446744073709551615\<rbrakk> \<Longrightarrow> unr \<le> rm"
    by (rule completion_step_cases [where cost = cost and i = i and promoted = promoted and remaining = remaining]) blast
  have rest: "fold completion_step cs (pro, rm, unr) = (promoted', remaining', unretained')"
    using Cons.prems(4) by (simp add: k step)
  have d: "distinct (map (\<lambda>k. fst (snd k)) cs)" "i \<notin> (\<lambda>k. fst (snd k)) ` set cs"
    using Cons.prems(1) by (simp_all add: k)
  have new: "i < length promoted" "\<not> promoted ! i" using Cons.prems(2) by (simp_all add: k)
  have fresh: "\<forall>k \<in> set cs. fst (snd k) < length pro \<and> \<not> pro ! fst (snd k)"
  proof
    fix q assume q: "q \<in> set cs"
    then have "fst (snd q) \<noteq> i" using d(2) by blast
    then show "fst (snd q) < length pro \<and> \<not> pro ! fst (snd q)"
      using q Cons.prems(2) by (simp add: pro)
  qed
  have unr': "unat unr = ((if taken then 0 else unat f) + base) + ?later" using unr by simp
  note IH = Cons.IH [OF d(1) fresh unr' rest]
  have outside: "\<forall>j. j \<notin> (\<lambda>k. fst (snd k)) ` set cs \<longrightarrow> promoted' ! j = pro ! j" using IH by blast
  have i: "promoted' ! i = taken" using outside d(2) new by (simp add: pro)
  have spent: "sum_list (map (\<lambda>k. if promoted' ! fst (snd k) then unat (fst k) else 0) cs) + unat remaining' = unat rm"
    using IH by blast
  have left: "unat unretained' = ((if taken then 0 else unat f) + base)
      + sum_list (map (\<lambda>k. if promoted' ! fst (snd k) then 0 else unat (snd (snd k))) cs)"
    using IH by blast
  have reserve: "unretained' \<le> remaining'"
    if "unat rm < 18446744073709551615" "unr \<le> rm \<or> (\<exists>k \<in> set cs. promoted' ! fst (snd k))"
    using IH that by blast
  have "length promoted' = length promoted" using IH pro by (simp split: if_splits)
  moreover have "\<forall>j. j \<notin> (\<lambda>k. fst (snd k)) ` set (k # cs) \<longrightarrow> promoted' ! j = promoted ! j"
    using outside by (simp add: k pro)
  moreover have "sum_list (map (\<lambda>k. if promoted' ! fst (snd k) then unat (fst k) else 0) (k # cs)) + unat remaining'
      = unat remaining"
    using spent i rm by (simp add: k)
  moreover have "unat unretained' =
      base + sum_list (map (\<lambda>k. if promoted' ! fst (snd k) then 0 else unat (snd (snd k))) (k # cs))"
    using left i by (simp add: k)
  moreover have "unretained' \<le> remaining'"
    if max: "unat remaining < 18446744073709551615"
      and c: "unretained \<le> remaining \<or> (\<exists>k \<in> set (k # cs). promoted' ! fst (snd k))"
  proof (cases taken)
    case True
    with max fits rm reserve show ?thesis by simp
  next
    case False
    then have "unat rm = unat remaining" "unat unr = unat unretained"
      using rm unr Cons.prems(3) by (simp_all add: k)
    then show ?thesis using reserve max c i False by (simp add: k word_le_nat_alt)
  qed
  ultimately show ?case by blast
qed simp

text \<open>The loop over candidates, read back as sums over layers.\<close>

definition promoted_cost :: "ExpertLayerGeometry list \<Rightarrow> residency_table \<Rightarrow> bool list \<Rightarrow> nat" where
  "promoted_cost gs table promoted =
     (\<Sum>i < length gs. if promoted ! i then completion_cost gs table i else 0)"

definition streamed_floors :: "ExpertLayerGeometry list \<Rightarrow> residency_table \<Rightarrow> bool list \<Rightarrow> nat" where
  "streamed_floors gs table complete =
     (\<Sum>i < length gs. if table ! i = None \<and> \<not> complete ! i then layer_floor gs i else 0)"

lemma generation_promotions_total:
  assumes "inputs_wf c gs table" "(\<Sum>i < length gs. layer_bytes gs i) < 18446744073709551616"
  shows "\<exists>promoted. generation_completion_promotions leftover gs table selected = Inr promoted
     \<and> length promoted = length gs
     \<and> (\<forall>i < length gs. promoted ! i \<longrightarrow> may_complete table selected i)
     \<and> promoted_cost gs table promoted \<le> unat leftover
     \<and> (unat leftover < 18446744073709551615 \<longrightarrow> (\<exists>i < length gs. promoted ! i) \<longrightarrow>
          promoted_cost gs table promoted + streamed_floors gs table promoted \<le> unat leftover)"
proof -
  let ?n = "length gs"
  define cs0 where "cs0 = map (completion_candidate gs table) (filter (may_complete table selected) [0..<?n])"
  define cs where "cs = sort_by cmp_of cs0"
  obtain u where u: "try_fold (completion_candidate_step table selected) ([], 0) (enumerate 0 gs) = Inr (cs0, u)"
    "unat u = (\<Sum>i < ?n. if table ! i = None then layer_floor gs i else 0)"
    using completion_candidates_total [OF assms order.refl] unfolding enumerate_map_upt' cs0_def by blast
  have set_cs: "set cs = completion_candidate gs table ` {i. i < ?n \<and> may_complete table selected i}"
    by (auto simp: cs_def cs0_def)
  have layers: "(\<lambda>k. fst (snd k)) ` set cs = {i. i < ?n \<and> may_complete table selected i}"
    unfolding set_cs by (simp add: image_image completion_candidate_simps)
  have inside: "fst (snd k) < ?n" if "k \<in> set cs" for k
    using imageI [OF that, of "\<lambda>k. fst (snd k)"] unfolding layers by simp
  have "map (\<lambda>k. fst (snd k)) cs0 = filter (may_complete table selected) [0..<?n]"
    by (simp add: cs0_def comp_def completion_candidate_simps)
  then have d: "distinct (map (\<lambda>k. fst (snd k)) cs)" by (simp add: cs_def distinct_map_sort_by)
  have cost: "unat (fst k) = completion_cost gs table (fst (snd k))"
    and floor: "unat (snd (snd k)) = (if table ! fst (snd k) = None then layer_floor gs (fst (snd k)) else 0)"
    if "k \<in> set cs" for k
    using that unfolding set_cs by (auto simp del: split_paired_All simp: completion_candidate_simps)
  have by_layer: "sum_list (map (\<lambda>k. h (fst (snd k))) cs) = (\<Sum>i < ?n. h i)"
    if "\<And>i. \<lbrakk>i < ?n; \<not> may_complete table selected i\<rbrakk> \<Longrightarrow> h i = 0" for h :: "nat \<Rightarrow> nat"
    by (rule sum_list_by_layer [OF d]) (use that layers inside in \<open>auto\<close>)
  have none: "may_complete table selected i" if "table ! i = None" for i using that by (simp add: may_complete_def)
  let ?floor = "\<lambda>i. if table ! i = None then layer_floor gs i else 0"
  have "sum_list (map (\<lambda>k. unat (snd (snd k))) cs) = sum_list (map (\<lambda>k. ?floor (fst (snd k))) cs)"
    by (rule arg_cong [of _ _ sum_list], rule map_cong [OF refl]) (simp add: floor)
  also have "\<dots> = (\<Sum>i < ?n. ?floor i)" by (rule by_layer) (use none in auto)
  finally have start: "unat u = 0 + sum_list (map (\<lambda>k. unat (snd (snd k))) cs)" using u(2) by simp
  obtain promoted remaining unretained where
    loop: "fold completion_step cs (replicate ?n False, leftover, u) = (promoted, remaining, unretained)"
    by (metis prod_cases3)
  have fresh: "\<forall>k \<in> set cs. fst (snd k) < length (replicate ?n False) \<and> \<not> replicate ?n False ! fst (snd k)"
    using inside by simp
  note facts = completion_fold [OF d fresh start loop]
  have outside: "may_complete table selected i" if "i < ?n" "promoted ! i" for i
  proof (rule ccontr)
    assume "\<not> may_complete table selected i"
    then have "i \<notin> (\<lambda>k. fst (snd k)) ` set cs" unfolding layers by simp
    then show False using facts that by auto
  qed
  have "sum_list (map (\<lambda>k. if promoted ! fst (snd k) then unat (fst k) else 0) cs) =
      sum_list (map (\<lambda>k. (\<lambda>i. if promoted ! i then completion_cost gs table i else 0) (fst (snd k))) cs)"
    by (rule arg_cong [of _ _ sum_list], rule map_cong [OF refl]) (simp add: cost)
  also have "\<dots> = promoted_cost gs table promoted"
    unfolding promoted_cost_def by (rule by_layer) (use outside in auto)
  finally have spent: "promoted_cost gs table promoted + unat remaining = unat leftover" using facts by simp
  have "sum_list (map (\<lambda>k. if promoted ! fst (snd k) then 0 else unat (snd (snd k))) cs) =
      sum_list (map (\<lambda>k. (\<lambda>i. if table ! i = None \<and> \<not> promoted ! i then layer_floor gs i else 0) (fst (snd k))) cs)"
    by (rule arg_cong [of _ _ sum_list], rule map_cong [OF refl]) (simp add: floor)
  also have "\<dots> = streamed_floors gs table promoted"
    unfolding streamed_floors_def by (rule by_layer) (use none in auto)
  finally have left: "unat unretained = streamed_floors gs table promoted" using facts by simp
  have reserve: "promoted_cost gs table promoted + streamed_floors gs table promoted \<le> unat leftover"
    if "unat leftover < 18446744073709551615" "i < ?n" "promoted ! i" for i
  proof -
    have "i \<in> (\<lambda>k. fst (snd k)) ` set cs" using that outside unfolding layers by blast
    then have "unretained \<le> remaining" using facts that by blast
    then show ?thesis using spent by (simp add: left [symmetric] word_le_nat_alt)
  qed
  have "length promoted = ?n" using facts by simp
  moreover have "generation_completion_promotions leftover gs table selected = Inr promoted"
    by (simp add: generation_completion_promotions_def u(1) cs_def [symmetric] loop)
  moreover have "promoted_cost gs table promoted \<le> unat leftover" using spent by simp
  ultimately show ?thesis using outside reserve by blast
qed

lemma residency_payload:
  assumes "geometry_wf g" "residency_wf g r"
  shows "unat (lr_payload_bytes r) \<le> unat (lg_complete_layer_payload_bytes g)"
    and "is_complete r \<Longrightarrow> unat (lr_payload_bytes r) = unat (lg_complete_layer_payload_bytes g)"
proof -
  let ?n = "length (lr_retained_expert_ids r)"
  have pay: "unat (lr_payload_bytes r) = unat (lg_expert_payload_bytes g) * ?n"
    and layer: "unat (lg_complete_layer_payload_bytes g) = unat (lg_expert_payload_bytes g) * unat (lg_expert_capacity g)"
    using assms by (simp_all add: residency_wf_def geometry_wf_def Let_def)
  have "?n \<le> unat (lg_expert_capacity g)"
    using assms(2) by (cases "lr_class r") (simp_all add: residency_wf_def Let_def)
  then show "unat (lr_payload_bytes r) \<le> unat (lg_complete_layer_payload_bytes g)"
    unfolding pay layer by (rule mult_le_mono2)
  assume "is_complete r"
  then have "?n = unat (lg_expert_capacity g)" using assms(2) by (simp add: residency_wf_def Let_def is_complete_def)
  then show "unat (lr_payload_bytes r) = unat (lg_complete_layer_payload_bytes g)" unfolding pay layer by simp
qed

lemma resident_le_layer:
  assumes "inputs_wf c gs table" "i < length gs"
  shows "resident_bytes table i \<le> layer_bytes gs i"
    and "\<lbrakk>table ! i = Some r; is_complete r\<rbrakk> \<Longrightarrow> resident_bytes table i = layer_bytes gs i"
proof -
  have g: "geometry_wf (gs ! i)" and r: "\<And>r. table ! i = Some r \<Longrightarrow> residency_wf (gs ! i) r"
    using assms unfolding inputs_wf_def by blast+
  show "resident_bytes table i \<le> layer_bytes gs i"
    using residency_payload(1) [OF g r] by (simp add: resident_bytes_def split: option.split)
  show "resident_bytes table i = layer_bytes gs i" if "table ! i = Some r" "is_complete r"
    using residency_payload(2) [OF g r [OF that(1)] that(2)] that(1) by (simp add: resident_bytes_def)
qed

abbreviation completely_resident :: "residency_table \<Rightarrow> nat \<Rightarrow> bool" where
  "completely_resident table i \<equiv> (case table ! i of Some r \<Rightarrow> is_complete r | None \<Rightarrow> False)"

text \<open>Generation: every resident page stays, leftover bytes complete layers.\<close>

lemma generation_plan_total:
  assumes "inputs_wf c gs table" "(\<Sum>i < length gs. layer_bytes gs i) < 18446744073709551616"
  shows "\<exists>promoted plan. preserve_existing_expert_pages_for_generation phase c gs table = Inr plan
     \<and> plan_layer_targets plan =
         map (\<lambda>i. generation_target (table ! i) (table ! i \<noteq> None) (promoted ! i)) [0..<length gs]
     \<and> plan_complete_layer_targets plan = filter (\<lambda>i. promoted ! i \<or> completely_resident table i) [0..<length gs]
     \<and> plan_deterministic_release_order plan = release_order table \<and> plan_phase plan = phase
     \<and> unat (plan_expected_preserved_bytes plan) = (\<Sum>i < length gs. resident_bytes table i)
     \<and> (\<forall>i < length gs. promoted ! i \<longrightarrow> \<not> completely_resident table i)
     \<and> (\<Sum>i < length gs. resident_bytes table i) + promoted_cost gs table promoted \<le> unat c
     \<and> (unat c < 18446744073709551615 \<longrightarrow> (\<exists>i < length gs. promoted ! i) \<longrightarrow>
          (\<Sum>i < length gs. resident_bytes table i) + promoted_cost gs table promoted
            + streamed_floors gs table promoted \<le> unat c)"
proof -
  let ?resident = "\<Sum>i < length gs. resident_bytes table i"
  have len: "length table = length gs" and fit: "?resident \<le> unat c"
    using assms(1) by (simp_all add: inputs_wf_def)
  obtain selected used where keep: "preserve_resident_pages c gs table = Inr (selected, used)"
    and sel: "length selected = length gs" "\<forall>i < length gs. selected ! i \<longleftrightarrow> table ! i \<noteq> None"
    and used: "unat used = ?resident"
    using preserve_resident_pages_all [OF assms(1)] by blast
  have leftover: "unat (saturating_sub c used) = unat c - ?resident" by (simp add: unat_saturating_sub used)
  obtain promoted where go: "generation_completion_promotions (saturating_sub c used) gs table selected = Inr promoted"
    and p: "length promoted = length gs" "\<forall>i < length gs. promoted ! i \<longrightarrow> may_complete table selected i"
      "promoted_cost gs table promoted \<le> unat c - ?resident"
      "unat c - ?resident < 18446744073709551615 \<longrightarrow> (\<exists>i < length gs. promoted ! i) \<longrightarrow>
          promoted_cost gs table promoted + streamed_floors gs table promoted \<le> unat c - ?resident"
    using generation_promotions_total [OF assms, of "saturating_sub c used" selected] unfolding leftover by blast
  obtain plan where plan: "preserve_existing_expert_pages_for_generation phase c gs table = Inr plan"
    "plan_layer_targets plan = map (\<lambda>(i, current). generation_target current (selected ! i) (promoted ! i)) (enumerate 0 table)"
    "plan_complete_layer_targets plan = filter (\<lambda>i. promoted ! i \<or> selected ! i \<and> completely_resident table i) [0..<length gs]"
    "plan_deterministic_release_order plan = release_order table" "plan_phase plan = phase"
    "plan_expected_preserved_bytes plan = used"
    by (simp add: preserve_existing_expert_pages_for_generation_def keep go)
  have "plan_layer_targets plan =
      map (\<lambda>i. generation_target (table ! i) (table ! i \<noteq> None) (promoted ! i)) [0..<length gs]"
    unfolding plan(2) by (rule nth_equalityI) (simp_all add: len sel nth_enumerate_eq)
  moreover have "plan_complete_layer_targets plan = filter (\<lambda>i. promoted ! i \<or> completely_resident table i) [0..<length gs]"
    unfolding plan(3) by (rule filter_cong) (auto simp: sel split: option.splits)
  moreover have "\<not> completely_resident table i" if "i < length gs" "promoted ! i" for i
    using p(2) that by (auto simp: may_complete_def is_complete_def split: option.splits)
  moreover have "?resident + promoted_cost gs table promoted \<le> unat c" using p(3) fit by linarith
  moreover have "?resident + promoted_cost gs table promoted + streamed_floors gs table promoted \<le> unat c"
    if "unat c < 18446744073709551615" "i < length gs" "promoted ! i" for i
  proof -
    have "unat c - ?resident < 18446744073709551615" using that(1) by linarith
    then show ?thesis using p(4) that fit by (metis (no_types, lifting) Nat.le_diff_conv2 add.assoc add.commute)
  qed
  ultimately show ?thesis using plan used by (intro exI [of _ promoted] exI [of _ plan]) blast
qed

lemma low_budget_plan_total:
  assumes "inputs_wf c gs table"
  shows "\<exists>plan. low_budget_partial_plan phase c gs table = Inr plan
     \<and> plan_layer_targets plan = map (\<lambda>i. low_budget_target (table ! i) (table ! i \<noteq> None)) [0..<length gs]
     \<and> plan_complete_layer_targets plan = filter (completely_resident table) [0..<length gs]
     \<and> plan_deterministic_release_order plan = release_order table \<and> plan_phase plan = phase
     \<and> unat (plan_expected_preserved_bytes plan) = (\<Sum>i < length gs. resident_bytes table i)"
proof -
  have len: "length table = length gs" using assms by (simp add: inputs_wf_def)
  obtain selected used where keep: "preserve_resident_pages c gs table = Inr (selected, used)"
    and sel: "length selected = length gs" "\<forall>i < length gs. selected ! i \<longleftrightarrow> table ! i \<noteq> None"
    and used: "unat used = (\<Sum>i < length gs. resident_bytes table i)"
    using preserve_resident_pages_all [OF assms] by blast
  have "map (\<lambda>(i, current). low_budget_target current (selected ! i)) (enumerate 0 table) =
      map (\<lambda>i. low_budget_target (table ! i) (table ! i \<noteq> None)) [0..<length gs]"
    by (rule nth_equalityI) (simp_all add: len sel nth_enumerate_eq)
  moreover have "filter (\<lambda>i. selected ! i \<and> completely_resident table i) [0..<length selected] =
      filter (completely_resident table) [0..<length gs]"
    unfolding sel(1) by (rule filter_cong) (auto simp: sel split: option.splits)
  ultimately show ?thesis by (simp add: low_budget_partial_plan_def keep used)
qed

text \<open>The routed floors, collected.\<close>

lemma routed_floors_total:
  assumes "\<forall>i < length gs. geometry_wf (gs ! i)"
  shows "routed_floors gs = Inr (map floor_word gs)"
proof -
  have "try_fold (\<lambda>floors g. result_bind (routed_floor_payload_bytes g) (\<lambda>f. Inr (floors @ [f]))) acc gs =
      Inr (acc @ map floor_word gs)" if "\<forall>g \<in> set gs. geometry_wf g" for acc
    using that by (induction gs arbitrary: acc) (simp_all add: floor_word(1))
  then show ?thesis using assms by (simp add: routed_floors_def all_set_conv_all_nth)
qed

definition complete_total :: "ExpertLayerGeometry list \<Rightarrow> nat" where
  "complete_total gs = (\<Sum>i < length gs. layer_bytes gs i)"

definition floor_total :: "ExpertLayerGeometry list \<Rightarrow> nat" where
  "floor_total gs = (\<Sum>i < length gs. layer_floor gs i)"

lemma floor_total_le:
  assumes "\<forall>i < length gs. geometry_wf (gs ! i)"
  shows "floor_total gs \<le> complete_total gs"
  unfolding floor_total_def complete_total_def by (rule sum_mono) (use assms floor_word(2) in auto)

lemma checked_sum_complete:
  "checked_sum (map lg_complete_layer_payload_bytes gs) = (if complete_total gs < 18446744073709551616
     then Inr (sum_list (map lg_complete_layer_payload_bytes gs)) else Inl ByteCountOverflow)"
  and unat_complete_total: "complete_total gs < 18446744073709551616 \<Longrightarrow>
     unat (sum_list (map lg_complete_layer_payload_bytes gs)) = complete_total gs"
proof -
  have eq: "sum_list (map unat (map lg_complete_layer_payload_bytes gs)) = complete_total gs"
    unfolding map_map complete_total_def sum_list_nth_lt by simp
  show "checked_sum (map lg_complete_layer_payload_bytes gs) = (if complete_total gs < 18446744073709551616
     then Inr (sum_list (map lg_complete_layer_payload_bytes gs)) else Inl ByteCountOverflow)"
    using eq by (simp add: checked_sum_def checked_sum_from)
  show "complete_total gs < 18446744073709551616 \<Longrightarrow>
     unat (sum_list (map lg_complete_layer_payload_bytes gs)) = complete_total gs"
    using unat_sum_list_exact [of "map lg_complete_layer_payload_bytes gs"] eq by simp
qed

text \<open>Which strategy a plan follows.\<close>

datatype plan_strategy = WholeModel | Generation | LowBudget | Overlay

definition strategy_of :: "MemoryPhase \<Rightarrow> u64 \<Rightarrow> ExpertLayerGeometry list \<Rightarrow> CurrentExpertLayerResidency list \<Rightarrow> plan_strategy" where
  "strategy_of phase c gs rs =
     (if complete_total gs \<le> unat c then WholeModel
      else if phase \<in> {GenerationPreparation, Decode} \<and> rs \<noteq> [] then Generation
      else if unat c < floor_total gs then LowBudget else Overlay)"

lemma plan_expert_residency_strategy:
  assumes v: "validate_inputs c gs rs = Inr table" and total: "complete_total gs < 18446744073709551616"
  shows "plan_expert_residency phase c gs rs =
     (case strategy_of phase c gs rs of
        WholeModel \<Rightarrow> complete_model_plan phase c gs table (sum_list (map lg_complete_layer_payload_bytes gs))
      | Generation \<Rightarrow> preserve_existing_expert_pages_for_generation phase c gs table
      | LowBudget \<Rightarrow> low_budget_partial_plan phase c gs table
      | Overlay \<Rightarrow> foundation_and_overlay_plan phase c gs table (map floor_word gs) (sum_list (map floor_word gs)))"
    and "unat (sum_list (map floor_word gs)) = floor_total gs"
proof -
  have g: "\<forall>i < length gs. geometry_wf (gs ! i)" using validate_inputs_wf [OF v] by (simp add: inputs_wf_def)
  have eq: "sum_list (map unat (map floor_word gs)) = floor_total gs"
    unfolding map_map floor_total_def sum_list_nth_lt by simp
  have lt: "floor_total gs < 18446744073709551616" using floor_total_le [OF g] total by simp
  have floors: "checked_sum (map floor_word gs) = Inr (sum_list (map floor_word gs))"
    using lt eq by (simp add: checked_sum_def checked_sum_from)
  show sum: "unat (sum_list (map floor_word gs)) = floor_total gs"
    using unat_sum_list_exact [of "map floor_word gs"] lt unfolding eq by simp
  show "plan_expert_residency phase c gs rs =
     (case strategy_of phase c gs rs of
        WholeModel \<Rightarrow> complete_model_plan phase c gs table (sum_list (map lg_complete_layer_payload_bytes gs))
      | Generation \<Rightarrow> preserve_existing_expert_pages_for_generation phase c gs table
      | LowBudget \<Rightarrow> low_budget_partial_plan phase c gs table
      | Overlay \<Rightarrow> foundation_and_overlay_plan phase c gs table (map floor_word gs) (sum_list (map floor_word gs)))"
    using total
    by (simp add: plan_expert_residency_def v checked_sum_complete unat_complete_total strategy_of_def
        routed_floors_total [OF g] floors word_le_nat_alt word_less_nat_alt sum)
qed

lemma overlay_inputs_validated:
  assumes "validate_inputs c gs rs = Inr table" "complete_total gs < 18446744073709551616"
    and "\<not> unat c < floor_total gs"
  shows "overlay_inputs c gs table (map floor_word gs) (sum_list (map floor_word gs))"
  using validate_inputs_wf [OF assms(1)] plan_expert_residency_strategy(2) [OF assms(1,2)] assms(3) floor_word(2)
  by (auto simp: overlay_inputs_def inputs_wf_def word_le_nat_alt floor_total_def)

end
