(* ===== verification/Residency_Plan.thy ===== *)
theory Residency_Plan
  imports Planner
begin

text \<open>
  What a residency plan promises, over all four strategies: it exists for every validated input, keeps
  its promises within the ceiling, does not release a resident page during generation, and keeps a
  routed floor for every layer it does not complete. What every plan promises is stated here.
\<close>

section \<open>The plans are well formed\<close>

lemma whole_model_plan_wf:
  assumes "inputs_wf c gs table" "complete_total gs \<le> unat c"
    and "plan_complete_layer_targets plan = [0..<length gs]"
    and "plan_layer_targets plan = map (\<lambda>c. if (case c of Some r \<Rightarrow> is_complete r | None \<Rightarrow> False)
          then PreserveComplete else PromoteCompleteOnMandatoryRead) table"
    and "plan_deterministic_release_order plan = release_order table"
  shows "plan_wf c gs table plan"
proof -
  have len: "length table = length gs" using assms(1) by (simp add: inputs_wf_def)
  have "(\<Sum>i < length gs. planned_bytes gs table plan i) = complete_total gs"
    unfolding complete_total_def by (rule sum.cong) (simp_all add: planned_bytes_def assms(3))
  then show ?thesis
    using assms len by (auto simp: plan_wf_def split: option.splits if_splits)
qed

lemma generation_plan_wf:
  assumes "inputs_wf c gs table"
    and targets: "plan_layer_targets plan =
      map (\<lambda>i. generation_target (table ! i) (table ! i \<noteq> None) (promoted ! i)) [0..<length gs]"
    and complete: "plan_complete_layer_targets plan =
      filter (\<lambda>i. promoted ! i \<or> completely_resident table i) [0..<length gs]"
    and "plan_deterministic_release_order plan = release_order table"
    and "(\<Sum>i < length gs. resident_bytes table i) + promoted_cost gs table promoted \<le> unat c"
    and "\<forall>i < length gs. promoted ! i \<longrightarrow> \<not> completely_resident table i"
  shows "plan_wf c gs table plan"
    and "(\<Sum>i < length gs. planned_bytes gs table plan i) =
      (\<Sum>i < length gs. resident_bytes table i) + promoted_cost gs table promoted"
proof -
  have "planned_bytes gs table plan i =
      resident_bytes table i + (if promoted ! i then completion_cost gs table i else 0)" if i: "i < length gs" for i
  proof (cases "promoted ! i")
    case True
    then show ?thesis
      using i resident_le_layer(1) [OF assms(1) i]
      by (simp add: planned_bytes_def complete completion_cost_def)
  next
    case False
    then show ?thesis
      using i resident_le_layer(2) [OF assms(1) i]
      by (auto simp: planned_bytes_def complete targets generation_target_def resident_bytes_def split: option.splits)
  qed
  then show sum: "(\<Sum>i < length gs. planned_bytes gs table plan i) =
      (\<Sum>i < length gs. resident_bytes table i) + promoted_cost gs table promoted"
    unfolding promoted_cost_def sum.distrib [symmetric] by (intro sum.cong) simp_all
  show "plan_wf c gs table plan"
    unfolding plan_wf_def sum
    using assms(4-6) by (auto simp: targets complete generation_target_def split: option.splits if_splits)
qed

lemma low_budget_plan_wf:
  assumes "inputs_wf c gs table"
    and targets: "plan_layer_targets plan = map (\<lambda>i. low_budget_target (table ! i) (table ! i \<noteq> None)) [0..<length gs]"
    and complete: "plan_complete_layer_targets plan = filter (completely_resident table) [0..<length gs]"
    and "plan_deterministic_release_order plan = release_order table"
  shows "plan_wf c gs table plan"
proof -
  have "planned_bytes gs table plan i = resident_bytes table i" if i: "i < length gs" for i
    using i resident_le_layer(2) [OF assms(1) i]
    by (auto simp: planned_bytes_def complete targets low_budget_target_def resident_bytes_def split: option.splits)
  then have "(\<Sum>i < length gs. planned_bytes gs table plan i) \<le> unat c"
    using assms(1) by (simp add: inputs_wf_def)
  then show ?thesis
    unfolding plan_wf_def
    using assms(4) by (auto simp: targets complete low_budget_target_def split: option.splits if_splits)
qed

text \<open>Overlay: what the plan holds for a layer is never less than its routed floor.\<close>

definition guaranteed_bytes ::
  "ExpertLayerGeometry list \<Rightarrow> residency_table \<Rightarrow> ExpertResidencyPlan \<Rightarrow> nat \<Rightarrow> nat" where
  "guaranteed_bytes gs table plan i = max (planned_bytes gs table plan i) (layer_floor gs i)"

lemma overlay_plan_wf:
  assumes inputs: "overlay_inputs c gs table (map floor_word gs) total_floor"
  obtains plan where "foundation_and_overlay_plan phase c gs table (map floor_word gs) total_floor = Inr plan"
    "plan_phase plan = phase" "plan_wf c gs table plan"
    "(\<Sum>i < length gs. guaranteed_bytes gs table plan i) \<le> unat c"
    "unat (plan_reserved_routed_overlay_bytes plan) =
       (\<Sum>i < length gs. if i \<in> set (plan_complete_layer_targets plan) then 0 else layer_floor gs i)"
proof -
  obtain flags preserve plan where
    plan: "foundation_and_overlay_plan phase c gs table (map floor_word gs) total_floor = Inr plan"
    and flags: "length flags = length gs"
    and targets: "plan_layer_targets plan =
         map (\<lambda>i. overlay_target (table ! i) (flags ! i) (preserve ! i)) [0..<length gs]"
    and complete: "plan_complete_layer_targets plan = selected_indexes flags"
    and order: "plan_deterministic_release_order plan = release_order table" and ph: "plan_phase plan = phase"
    and reserved: "unat (plan_reserved_routed_overlay_bytes plan) =
         (\<Sum>i < length gs. if flags ! i then 0 else unat (map floor_word gs ! i))"
    and room: "(\<Sum>i < length gs. capacity_of gs (map floor_word gs) flags i)
         + (\<Sum>i < length gs. if preserve ! i then resident_bytes table i - unat (map floor_word gs ! i) else 0) \<le> unat c"
    and once: "\<forall>i < length gs. preserve ! i \<longrightarrow> \<not> flags ! i"
    using foundation_and_overlay_total [OF inputs, of phase] by blast
  have mem: "i \<in> set (plan_complete_layer_targets plan) \<longleftrightarrow> i < length gs \<and> flags ! i" for i
    by (simp add: complete set_selected_indexes flags)
  have "guaranteed_bytes gs table plan i \<le> capacity_of gs (map floor_word gs) flags i
      + (if preserve ! i then resident_bytes table i - unat (map floor_word gs ! i) else 0)" if i: "i < length gs" for i
    using i overlay_inputsD(2) [OF inputs i]
    by (auto simp: guaranteed_bytes_def planned_bytes_def mem targets capacity_of_def overlay_target_partial)
  then have "(\<Sum>i < length gs. guaranteed_bytes gs table plan i) \<le>
      (\<Sum>i < length gs. capacity_of gs (map floor_word gs) flags i
        + (if preserve ! i then resident_bytes table i - unat (map floor_word gs ! i) else 0))"
    by (intro sum_mono) simp
  with room have sum: "(\<Sum>i < length gs. guaranteed_bytes gs table plan i) \<le> unat c"
    unfolding sum.distrib by linarith
  have "(\<Sum>i < length gs. planned_bytes gs table plan i) \<le> (\<Sum>i < length gs. guaranteed_bytes gs table plan i)"
    by (rule sum_mono) (simp add: guaranteed_bytes_def)
  with sum have fit: "(\<Sum>i < length gs. planned_bytes gs table plan i) \<le> unat c" by linarith
  have wf: "plan_wf c gs table plan"
    unfolding plan_wf_def using fit order
    by (auto simp: targets mem overlay_target_def split: option.splits if_splits)
  have "unat (plan_reserved_routed_overlay_bytes plan) =
       (\<Sum>i < length gs. if i \<in> set (plan_complete_layer_targets plan) then 0 else layer_floor gs i)"
    unfolding reserved by (rule sum.cong) (simp_all add: mem)
  with plan ph wf sum show thesis by (rule that)
qed

section \<open>Plans exist for exactly the valid inputs\<close>

lemma plan_success:
  assumes "plan_expert_residency phase c gs rs = Inr plan"
  obtains table where "validate_inputs c gs rs = Inr table" "table = residency_table_of (length gs) rs"
    "complete_total gs < 18446744073709551616" "inputs_wf c gs table"
proof -
  from assms obtain table where v: "validate_inputs c gs rs = Inr table"
    and s: "checked_sum (map lg_complete_layer_payload_bytes gs) =
      Inr (sum_list (map lg_complete_layer_payload_bytes gs))"
    by (auto simp: plan_expert_residency_def checked_sum_complete split: if_splits)
  show thesis
  proof (rule that [OF v])
    show "table = residency_table_of (length gs) rs" using v by (simp add: validate_inputs_iff)
    show "complete_total gs < 18446744073709551616" using s by (simp add: checked_sum_complete split: if_splits)
    show "inputs_wf c gs table" using v by (rule validate_inputs_wf)
  qed
qed

lemma plan_exists:
  assumes v: "validate_inputs c gs rs = Inr table" and total: "complete_total gs < 18446744073709551616"
  shows "\<exists>plan. plan_expert_residency phase c gs rs = Inr plan \<and> plan_phase plan = phase \<and> plan_wf c gs table plan"
proof -
  note wf = validate_inputs_wf [OF v]
  note strategy = plan_expert_residency_strategy(1) [OF v total, of phase]
  note total' = total [unfolded complete_total_def]
  show ?thesis
  proof (cases "strategy_of phase c gs rs")
    case WholeModel
    then have "complete_total gs \<le> unat c" by (auto simp: strategy_of_def split: if_splits)
    then show ?thesis
      using complete_model_plan_total [OF wf, of phase] whole_model_plan_wf [OF wf] by (force simp: strategy WholeModel)
  next
    case Generation
    then show ?thesis
      using generation_plan_total [OF wf total', of phase] generation_plan_wf(1) [OF wf]
      by (simp add: strategy) blast
  next
    case LowBudget
    then show ?thesis
      using low_budget_plan_total [OF wf, of phase] low_budget_plan_wf [OF wf]
      by (simp add: strategy) blast
  next
    case Overlay
    then have "\<not> unat c < floor_total gs" by (auto simp: strategy_of_def split: if_splits)
    from overlay_plan_wf [OF overlay_inputs_validated [OF v total this], of phase] show ?thesis
      using Overlay by (auto simp: strategy)
  qed
qed

section \<open>Properties\<close>

text \<open>Validation accepts exactly the well-formed planner inputs, and its table is the current
  residency by layer: contiguous non-zero geometries whose complete payload is the product of expert
  payload and capacity, residencies in strictly ascending layer order with strictly ascending expert
  identifiers, exact payloads and a class that matches the number of experts, within the ceiling.\<close>

lemma plan_validation_exact:
  "validate_inputs c gs rs = Inr table \<longleftrightarrow>
     gs \<noteq> [] \<and> (\<forall>i < length gs. lg_layer_index (gs ! i) = i \<and> geometry_wf (gs ! i))
     \<and> sorted_wrt (<) (map lr_layer_index rs)
     \<and> (\<forall>r \<in> set rs. lr_layer_index r < length gs \<and> residency_wf (gs ! lr_layer_index r) r)
     \<and> sum_list (map (\<lambda>r. unat (lr_payload_bytes r)) rs) \<le> unat c
     \<and> table = residency_table_of (length gs) rs"
  by (rule validate_inputs_iff)

definition sample_residencies :: "CurrentExpertLayerResidency list" where
  "sample_residencies = [sample_residency 0 StableCompleteLayer [0, 1, 2, 3] 40,
     sample_residency 2 ElasticRoutedExperts [1] 10]"

lemma sample_validated:
  "validate_inputs 90 sample_geometries sample_residencies =
     Inr [Some (sample_residency 0 StableCompleteLayer [0, 1, 2, 3] 40), None,
          Some (sample_residency 2 ElasticRoutedExperts [1] 10)]"
  by code_simp

text \<open>C7. Planning fails only on invalid inputs and on a model whose complete payload overflows; on
  every other input it returns a plan for the phase, with a target per layer, complete targets that
  agree with them, no preserved layer that is not resident in that form, and promised bytes within the
  ceiling. In particular the planned-residency error is unreachable.\<close>

theorem plan_total_within_ceiling:
  "case validate_inputs c gs rs of
     Inl e \<Rightarrow> plan_expert_residency phase c gs rs = Inl e
   | Inr table \<Rightarrow>
       if 18446744073709551616 \<le> complete_total gs
       then plan_expert_residency phase c gs rs = Inl ByteCountOverflow
       else \<exists>plan. plan_expert_residency phase c gs rs = Inr plan \<and> plan_phase plan = phase
              \<and> plan_wf c gs table plan"
proof (cases "validate_inputs c gs rs")
  case (Inr table)
  then show ?thesis
    using plan_exists [OF Inr, of phase] by (simp add: plan_expert_residency_def checked_sum_complete)
qed (simp add: plan_expert_residency_def)

text \<open>C8. Outside the overlay strategy (the whole model fits, generation is being prepared or running,
  or not even the routed floors fit) a plan releases no resident page: every resident layer is kept
  or completed, and a complete layer stays complete.\<close>

theorem resident_pages_survive:
  assumes "plan_expert_residency phase c gs rs = Inr plan" and "r \<in> set rs"
    and "phase \<in> {GenerationPreparation, Decode} \<or> unat c < floor_total gs \<or> complete_total gs \<le> unat c"
  shows "plan_layer_targets plan ! lr_layer_index r \<in>
           {PreserveComplete, PreservePartial, PromoteCompleteOnMandatoryRead}
         \<and> (is_complete r \<longrightarrow> plan_layer_targets plan ! lr_layer_index r = PreserveComplete)"
proof -
  obtain table where v: "validate_inputs c gs rs = Inr table" and table: "table = residency_table_of (length gs) rs"
    and total: "complete_total gs < 18446744073709551616" and wf: "inputs_wf c gs table"
    by (rule plan_success [OF assms(1)])
  note strategy = plan_expert_residency_strategy(1) [OF v total, of phase]
  note total' = total [unfolded complete_total_def]
  let ?i = "lr_layer_index r"
  have i: "?i < length gs" and len: "length table = length gs"
    using v assms(2) wf by (auto simp: validate_inputs_iff inputs_wf_def)
  have d: "distinct (map lr_layer_index rs)" using v by (auto simp: validate_inputs_iff strict_sorted_iff)
  have "find (\<lambda>q. lr_layer_index q = ?i) rs = Some r"
    using assms(2) d
  proof (induction rs)
    case (Cons q rs)
    then show ?case by (auto intro: rev_image_eqI)
  qed simp
  then have resident: "table ! ?i = Some r" using i by (simp add: table residency_table_of_def)
  show ?thesis
  proof (cases "strategy_of phase c gs rs")
    case WholeModel
    have "plan_layer_targets plan = map (\<lambda>c. if (case c of Some r \<Rightarrow> is_complete r | None \<Rightarrow> False)
          then PreserveComplete else PromoteCompleteOnMandatoryRead) table"
      using complete_model_plan_total [OF wf, of phase "sum_list (map lg_complete_layer_payload_bytes gs)"] assms(1)
      by (auto simp: strategy WholeModel)
    then show ?thesis using i resident len by simp
  next
    case Generation
    obtain promoted where targets: "plan_layer_targets plan =
        map (\<lambda>i. generation_target (table ! i) (table ! i \<noteq> None) (promoted ! i)) [0..<length gs]"
      and once: "\<forall>i < length gs. promoted ! i \<longrightarrow> \<not> completely_resident table i"
      using generation_plan_total [OF wf total', of phase] assms(1) by (auto simp: strategy Generation)
    show ?thesis using i resident once by (auto simp: targets generation_target_def)
  next
    case LowBudget
    have "plan_layer_targets plan =
        map (\<lambda>i. low_budget_target (table ! i) (table ! i \<noteq> None)) [0..<length gs]"
      using low_budget_plan_total [OF wf, of phase] assms(1) by (auto simp: strategy LowBudget)
    then show ?thesis using i resident by (simp add: low_budget_target_def)
  next
    case Overlay
    then show ?thesis using assms(2,3) by (auto simp: strategy_of_def split: if_splits)
  qed
qed

lemma complete_total_list: "complete_total gs = sum_list (map (\<lambda>g. unat (lg_complete_layer_payload_bytes g)) gs)"
  unfolding complete_total_def sum_list_nth_lt by simp

lemma floor_total_list: "floor_total gs = sum_list (map (\<lambda>g. unat (floor_word g)) gs)"
  unfolding floor_total_def sum_list_nth_lt by simp

lemma sample_generation_plan:
  "\<exists>plan. plan_expert_residency Decode 100 sample_geometries sample_residencies = Inr plan
     \<and> plan_layer_targets plan = [PreserveComplete, AdmitPartialOnMandatoryRouteRead, PromoteCompleteOnMandatoryRead]
     \<and> plan_complete_layer_targets plan = [0, 2]"
proof -
  have "(case plan_expert_residency Decode 100 sample_geometries sample_residencies of
      Inr plan \<Rightarrow> plan_layer_targets plan = [PreserveComplete, AdmitPartialOnMandatoryRouteRead, PromoteCompleteOnMandatoryRead]
        \<and> plan_complete_layer_targets plan = [0, 2]
    | Inl _ \<Rightarrow> False)"
    by code_simp
  then show ?thesis by (auto split: sum.splits)
qed

theorem resident_pages_survive_witness:
  "\<exists>plan. plan_expert_residency Decode 100 sample_geometries sample_residencies = Inr plan
     \<and> plan_layer_targets plan ! 0 = PreserveComplete"
proof -
  obtain plan where plan: "plan_expert_residency Decode 100 sample_geometries sample_residencies = Inr plan"
    using sample_generation_plan by blast
  have "sample_residency 0 StableCompleteLayer [0, 1, 2, 3] 40 \<in> set sample_residencies"
    by (simp add: sample_residencies_def)
  from resident_pages_survive [OF plan this] plan show ?thesis
    by (simp add: sample_residency_def is_complete_def)
qed

text \<open>A generation plan that completes a layer with leftover bytes has kept a routed floor for
  every layer that stays without resident pages: all it promises, with those floors, fits the ceiling.\<close>

lemma generation_completion_keeps_floors:
  assumes "plan_expert_residency phase c gs rs = Inr plan" and "phase \<in> {GenerationPreparation, Decode}"
    and "rs \<noteq> []" and "unat c < complete_total gs"
    and "i < length gs" and "plan_layer_targets plan ! i = PromoteCompleteOnMandatoryRead"
  defines "table \<equiv> residency_table_of (length gs) rs"
  shows "(\<Sum>j < length gs. planned_bytes gs table plan j)
       + (\<Sum>j < length gs. if table ! j = None \<and> j \<notin> set (plan_complete_layer_targets plan)
                          then layer_floor gs j else 0) \<le> unat c"
proof -
  have v: "validate_inputs c gs rs = Inr table" and total: "complete_total gs < 18446744073709551616"
    and wf: "inputs_wf c gs table"
    by (rule plan_success [OF assms(1)]; simp add: table_def)+
  have "strategy_of phase c gs rs = Generation" using assms(2-4) by (simp add: strategy_of_def)
  then have "preserve_existing_expert_pages_for_generation phase c gs table = Inr plan"
    using assms(1) by (simp add: plan_expert_residency_strategy(1) [OF v total])
  then obtain promoted where
    targets: "plan_layer_targets plan =
        map (\<lambda>i. generation_target (table ! i) (table ! i \<noteq> None) (promoted ! i)) [0..<length gs]"
    and complete: "plan_complete_layer_targets plan =
        filter (\<lambda>i. promoted ! i \<or> completely_resident table i) [0..<length gs]"
    and order: "plan_deterministic_release_order plan = release_order table"
    and once: "\<forall>i < length gs. promoted ! i \<longrightarrow> \<not> completely_resident table i"
    and fit: "(\<Sum>i < length gs. resident_bytes table i) + promoted_cost gs table promoted \<le> unat c"
    and reserve: "unat c < 18446744073709551615 \<longrightarrow> (\<exists>i < length gs. promoted ! i) \<longrightarrow>
          (\<Sum>i < length gs. resident_bytes table i) + promoted_cost gs table promoted
            + streamed_floors gs table promoted \<le> unat c"
    using generation_plan_total [OF wf total [unfolded complete_total_def], of phase] by auto
  have "promoted ! i"
    using assms(5,6) by (auto simp: targets generation_target_def split: if_splits option.splits)
  moreover have "unat c < 18446744073709551615" using assms(4) total by linarith
  ultimately have "(\<Sum>i < length gs. resident_bytes table i) + promoted_cost gs table promoted
      + streamed_floors gs table promoted \<le> unat c" using reserve assms(5) by blast
  moreover have "streamed_floors gs table promoted =
      (\<Sum>j < length gs. if table ! j = None \<and> j \<notin> set (plan_complete_layer_targets plan) then layer_floor gs j else 0)"
    unfolding streamed_floors_def by (rule sum.cong) (auto simp: complete)
  ultimately show ?thesis
    using generation_plan_wf(2) [OF wf targets complete order fit once] by simp
qed

text \<open>C9. When the routed floors of all layers fit but the whole model does not, and no generation is
  pending, the plan guarantees every layer at least its routed floor: complete layers, preserved partial
  pages (counted at their floor where they are smaller) and the floors of all other layers together
  fit the ceiling, and the floors of the incomplete layers are reported as reserved.\<close>

theorem overlay_plan_guarantees_floors:
  assumes "plan_expert_residency phase c gs rs = Inr plan"
    and "unat c < complete_total gs" and "floor_total gs \<le> unat c"
    and "phase \<in> {Prefill, Idle} \<or> rs = []"
  defines "table \<equiv> residency_table_of (length gs) rs"
  shows "(\<Sum>i < length gs. guaranteed_bytes gs table plan i) \<le> unat c
    \<and> unat (plan_reserved_routed_overlay_bytes plan) =
       (\<Sum>i < length gs. if i \<in> set (plan_complete_layer_targets plan) then 0 else layer_floor gs i)"
proof -
  have v: "validate_inputs c gs rs = Inr table" and total: "complete_total gs < 18446744073709551616"
    by (rule plan_success [OF assms(1)]; simp add: table_def)+
  have "strategy_of phase c gs rs = Overlay" using assms(2-4) by (auto simp: strategy_of_def)
  then have run: "foundation_and_overlay_plan phase c gs table (map floor_word gs) (sum_list (map floor_word gs)) = Inr plan"
    using assms(1) by (simp add: plan_expert_residency_strategy(1) [OF v total])
  from assms(3) have "\<not> unat c < floor_total gs" by simp
  from overlay_plan_wf [OF overlay_inputs_validated [OF v total this], of phase] run show ?thesis by auto
qed

lemma sample_overlay_plan:
  "\<exists>plan. plan_expert_residency Prefill 90 sample_geometries sample_residencies = Inr plan
     \<and> plan_reserved_routed_overlay_bytes plan = 40
     \<and> plan_layer_targets plan = [PreserveComplete, AdmitPartialOnMandatoryRouteRead, PreservePartial]"
proof -
  have "(case plan_expert_residency Prefill 90 sample_geometries sample_residencies of
      Inr plan \<Rightarrow> plan_reserved_routed_overlay_bytes plan = 40
        \<and> plan_layer_targets plan = [PreserveComplete, AdmitPartialOnMandatoryRouteRead, PreservePartial]
    | Inl _ \<Rightarrow> False)"
    by code_simp
  then show ?thesis by (auto split: sum.splits)
qed

lemma sample_floors: "map floor_word sample_geometries = [20, 20, 20]"
  by code_simp

theorem overlay_plan_guarantees_floors_witness:
  "\<exists>plan. plan_expert_residency Prefill 90 sample_geometries sample_residencies = Inr plan
     \<and> (\<Sum>i < 3. guaranteed_bytes sample_geometries (residency_table_of 3 sample_residencies) plan i) \<le> 90"
proof -
  obtain plan where plan: "plan_expert_residency Prefill 90 sample_geometries sample_residencies = Inr plan"
    using sample_overlay_plan by blast
  have n: "length sample_geometries = 3" by (simp add: sample_geometries_def)
  have big: "unat (90 :: u64) < complete_total sample_geometries"
    by (simp add: complete_total_list sample_geometries_def)
  have "map (\<lambda>g. unat (floor_word g)) sample_geometries = map unat (map floor_word sample_geometries)" by simp
  also have "\<dots> = [20, 20, 20]" unfolding sample_floors by simp
  finally have floors: "floor_total sample_geometries \<le> unat (90 :: u64)" by (simp add: floor_total_list)
  from overlay_plan_guarantees_floors [OF plan big floors] plan show ?thesis unfolding n by auto
qed

text \<open>The order in which two layers are released.\<close>

definition released_before :: "residency_table \<Rightarrow> nat \<Rightarrow> nat \<Rightarrow> bool" where
  "released_before table i j \<longleftrightarrow>
     (case (table ! i, table ! j) of
        (Some r, Some q) \<Rightarrow>
          if is_complete r then is_complete q \<and> j < i
          else is_complete q \<or> colder (i, r) (j, q)
      | _ \<Rightarrow> False)"

text \<open>The release order names every resident layer exactly once: partial pages before complete
  layers, partial pages by ascending covered demand per byte (the larger layer first on a tie),
  complete layers from the last to the first.\<close>

lemma release_order_correct:
  assumes "validate_inputs c gs rs = Inr table"
  shows "distinct (release_order table)
    \<and> set (release_order table) = {i. i < length gs \<and> table ! i \<noteq> None}
    \<and> sorted_wrt (released_before table) (release_order table)"
proof -
  have wf: "inputs_wf c gs table" by (rule validate_inputs_wf [OF assms])
  then have len: "length table = length gs" by (simp add: inputs_wf_def)
  have pay: "0 < unat (lr_payload_bytes r)" if "i < length gs" "table ! i = Some r" for i r
    using wf that by (auto simp: inputs_wf_def residency_wf_def geometry_wf_def Let_def)
  let ?p = "filter (\<lambda>(_, r). lr_class r = ElasticRoutedExperts) (table_entries table)"
  let ?s = "sort_by compare_partial_coverage ?p"
  let ?c = "filter (\<lambda>(_, r). is_complete r) (rev (table_entries table))"
  have partial: "(i, r) \<in> set ?s \<Longrightarrow> table ! i = Some r \<and> \<not> is_complete r" for i r
    by (auto simp: table_entries_set is_complete_def)
  have complete: "(i, r) \<in> set ?c \<Longrightarrow> table ! i = Some r \<and> is_complete r" for i r
    by (auto simp: table_entries_set)
  have "set ?p \<subseteq> entries_of table" using pay len by (auto simp: table_entries_set entries_of_def)
  then have "sorted_wrt (\<lambda>a b. compare_partial_coverage a b \<noteq> Greater) ?s" by (rule coverage.sorted_sort_by)
  then have "sorted_wrt (\<lambda>a b. released_before table (fst a) (fst b)) ?s"
    by (rule sorted_wrt_mono_rel [rotated])
       (auto simp: compare_partial_iff released_before_def dest!: partial simp del: set_sort_by)
  moreover have "sorted_wrt (\<lambda>a b. fst b < fst a) (rev (table_entries table))"
    using table_entries_sorted [of table] by (simp add: sorted_wrt_rev sorted_wrt_map)
  then have "sorted_wrt (\<lambda>a b. fst b < fst a) ?c" by (rule sorted_wrt_filter)
  then have "sorted_wrt (\<lambda>a b. released_before table (fst a) (fst b)) ?c"
    by (rule sorted_wrt_mono_rel [rotated]) (auto simp: released_before_def table_entries_set)
  moreover have "released_before table (fst a) (fst b)" if "a \<in> set ?s" "b \<in> set ?c" for a b
    using partial [of "fst a" "snd a"] complete [of "fst b" "snd b"] that by (simp add: released_before_def)
  ultimately have "sorted_wrt (released_before table) (release_order table)"
    unfolding release_order_def sorted_wrt_append sorted_wrt_map by auto
  then show ?thesis using release_order_distinct release_order_set len by metis
qed

text \<open>The layers read before decode starts are exactly the layers a plan promotes to complete
  on their mandatory read.\<close>

lemma decode_seating_exact:
  assumes "plan_expert_residency phase c gs rs = Inr plan"
  shows "set (complete_layer_indexes_required_before_decode plan) =
      {i. i < length gs \<and> plan_layer_targets plan ! i = PromoteCompleteOnMandatoryRead}"
proof -
  obtain table where v: "validate_inputs c gs rs = Inr table" and total: "complete_total gs < 18446744073709551616"
    by (rule plan_success [OF assms])
  have "plan_wf c gs table plan" using plan_exists [OF v total, of phase] assms by auto
  then show ?thesis by (auto simp: plan_wf_def complete_layer_indexes_required_before_decode_def)
qed

end
