(* ===== verification/Request_Plan.thy ===== *)
theory Request_Plan
  imports Residency_Plan
begin

text \<open>
  \<^verbatim>\<open>residency/request_plan.rs\<close>: the contract a request opens with its first prefill plan. Each layer is
  pinned, streamed, or demoted by a capacity failure; a contract only ever shrinks, and every later
  prefill plan is rewritten to agree with it within the ceiling. \<open>publication\<close> is the step relation of
  the publications of one request.
\<close>

section \<open>The contract\<close>

datatype RequestExpertLayerRole = PinnedComplete | Streamed | DemotedByCapacityFailure

record RequestExpertResidency =
  layer_roles :: "RequestExpertLayerRole list"

text \<open>\<^verbatim>\<open>layer_geometries.get(i).map(..).unwrap_or(default)\<close>\<close>

definition payload_or :: "u64 \<Rightarrow> ExpertLayerGeometry list \<Rightarrow> nat \<Rightarrow> u64" where
  "payload_or default_bytes gs i =
     (if i < length gs then lg_complete_layer_payload_bytes (gs ! i) else default_bytes)"

definition open_prefill :: "ExpertResidencyPlan \<Rightarrow> RequestExpertResidency" where
  "open_prefill candidate_plan =
     \<lparr>layer_roles =
        fold (\<lambda>i roles. if i < length roles then roles[i := PinnedComplete] else roles)
          (plan_complete_layer_targets candidate_plan)
          (replicate (length (plan_layer_targets candidate_plan)) Streamed)\<rparr>"

definition layer_role :: "RequestExpertResidency \<Rightarrow> nat \<Rightarrow> RequestExpertLayerRole option" where
  "layer_role contract i = (if i < length (layer_roles contract) then Some (layer_roles contract ! i) else None)"

definition pinned_complete_layer_indexes :: "RequestExpertResidency \<Rightarrow> nat list" where
  "pinned_complete_layer_indexes contract =
     map fst (filter (\<lambda>(_, role). role = PinnedComplete) (enumerate 0 (layer_roles contract)))"

fun shrink_loop ::
  "ExpertLayerGeometry list \<Rightarrow> nat list \<Rightarrow> RequestExpertLayerRole list \<Rightarrow> u64 \<Rightarrow> RequestExpertLayerRole list" where
  "shrink_loop gs [] roles remaining = roles"
| "shrink_loop gs (i # is) roles remaining =
     (if remaining = 0 then roles
      else if roles ! i \<noteq> PinnedComplete then shrink_loop gs is roles remaining
      else shrink_loop gs is (roles[i := DemotedByCapacityFailure])
             (saturating_sub remaining (payload_or 0 gs i)))"

definition shrink_after_capacity_failure ::
  "RequestExpertResidency \<Rightarrow> u64 \<Rightarrow> ExpertLayerGeometry list \<Rightarrow> RequestExpertResidency" where
  "shrink_after_capacity_failure contract required_reclamation_bytes gs =
     (if required_reclamation_bytes = 0 then contract
      else \<lparr>layer_roles = shrink_loop gs (rev [0..<length (layer_roles contract)])
              (layer_roles contract) required_reclamation_bytes\<rparr>)"

section \<open>Stabilizing a plan\<close>

definition currently_complete_layer_flags :: "nat \<Rightarrow> CurrentExpertLayerResidency list \<Rightarrow> bool list" where
  "currently_complete_layer_flags layer_count current_residencies =
     fold (\<lambda>r flags. if lr_layer_index r < length flags \<and> lr_class r = StableCompleteLayer
                     then flags[lr_layer_index r := True] else flags)
       current_residencies (replicate layer_count False)"

record PrefillFundingState =
  fs_pin_claim_is_funded :: "bool list"
  fs_stream_admission_headroom_bytes :: u64
  fs_expected_preserved_bytes :: u64

definition charge_seated_step ::
  "RequestExpertLayerRole list \<Rightarrow> bool list \<Rightarrow> CurrentExpertLayerResidency list \<Rightarrow> ExpertLayerGeometry list \<Rightarrow>
   nat \<Rightarrow> PrefillFundingState \<Rightarrow> PrefillFundingState" where
  "charge_seated_step roles complete current_residencies gs i state =
     (if \<not> (roles ! i \<in> {PinnedComplete, Streamed} \<and> complete ! i) then state
      else
        let funded = (if roles ! i = PinnedComplete then (fs_pin_claim_is_funded state)[i := True]
                      else fs_pin_claim_is_funded state);
            seated_complete_claim_bytes = payload_or 0 gs i
        in \<lparr>fs_pin_claim_is_funded = funded,
            fs_stream_admission_headroom_bytes =
              saturating_sub (fs_stream_admission_headroom_bytes state) seated_complete_claim_bytes,
            fs_expected_preserved_bytes =
              (case find (\<lambda>r. lr_layer_index r = i) current_residencies of
                 Some r \<Rightarrow> saturating_add (fs_expected_preserved_bytes state) (lr_payload_bytes r)
               | None \<Rightarrow> fs_expected_preserved_bytes state)\<rparr>)"

definition fund_pin_step ::
  "RequestExpertLayerRole list \<Rightarrow> bool list \<Rightarrow> ExpertLayerGeometry list \<Rightarrow>
   nat \<Rightarrow> PrefillFundingState \<Rightarrow> PrefillFundingState" where
  "fund_pin_step roles complete gs i state =
     (if roles ! i \<noteq> PinnedComplete \<or> complete ! i then state
      else
        let pinned_complete_claim_bytes = payload_or 0 gs i
        in if pinned_complete_claim_bytes \<le> fs_stream_admission_headroom_bytes state
           then state\<lparr>fs_pin_claim_is_funded := (fs_pin_claim_is_funded state)[i := True],
                      fs_stream_admission_headroom_bytes :=
                        saturating_sub (fs_stream_admission_headroom_bytes state) pinned_complete_claim_bytes\<rparr>
           else state)"

definition prefill_funding_state ::
  "RequestExpertResidency \<Rightarrow> bool list \<Rightarrow> CurrentExpertLayerResidency list \<Rightarrow> ExpertLayerGeometry list \<Rightarrow> u64 \<Rightarrow>
   PrefillFundingState" where
  "prefill_funding_state contract complete current_residencies gs retained_expert_ceiling_bytes =
     (let roles = layer_roles contract;
          start = \<lparr>fs_pin_claim_is_funded = replicate (length roles) False,
                   fs_stream_admission_headroom_bytes = retained_expert_ceiling_bytes,
                   fs_expected_preserved_bytes = 0\<rparr>;
          seated = fold (charge_seated_step roles complete current_residencies gs) [0..<length roles] start
      in fold (fund_pin_step roles complete gs) [0..<length roles] seated)"

definition stabilized_layer_target ::
  "RequestExpertLayerRole \<Rightarrow> nat \<Rightarrow> bool \<Rightarrow> bool \<Rightarrow> ExpertLayerGeometry list \<Rightarrow> u64 \<times> u64 \<Rightarrow>
   ExpertLayerResidencyTarget \<times> u64 \<times> u64" where
  "stabilized_layer_target role i is_complete_now pin_claim_is_funded gs budget =
     (case budget of (headroom, new_retained) \<Rightarrow>
        case role of
          DemotedByCapacityFailure \<Rightarrow> (StreamOperationLocal, budget)
        | _ \<Rightarrow>
            if role = PinnedComplete \<and> is_complete_now then (PreserveComplete, budget)
            else if role = PinnedComplete \<and> pin_claim_is_funded then (PromoteCompleteOnMandatoryRead, budget)
            else if role = Streamed \<and> is_complete_now then (PreserveComplete, budget)
            else
              let complete_layer_payload_bytes = payload_or max_value gs i
              in if complete_layer_payload_bytes \<le> headroom
                 then (AdmitCompleteOnMandatoryRead,
                       saturating_sub headroom complete_layer_payload_bytes,
                       saturating_add new_retained complete_layer_payload_bytes)
                 else (StreamOperationLocal, budget))"

definition stabilize_step ::
  "RequestExpertLayerRole list \<Rightarrow> bool list \<Rightarrow> bool list \<Rightarrow> ExpertLayerGeometry list \<Rightarrow>
   nat \<Rightarrow> ExpertLayerResidencyTarget list \<times> u64 \<times> u64 \<Rightarrow> ExpertLayerResidencyTarget list \<times> u64 \<times> u64" where
  "stabilize_step roles complete funded gs i state =
     (case state of (targets, budget) \<Rightarrow>
        case stabilized_layer_target (roles ! i) i (complete ! i) (funded ! i) gs budget of
          (target, budget') \<Rightarrow> (targets[i := target], budget'))"

definition stabilize_prefill_plan ::
  "RequestExpertResidency \<Rightarrow> ExpertResidencyPlan \<Rightarrow> CurrentExpertLayerResidency list \<Rightarrow> ExpertLayerGeometry list \<Rightarrow>
   ExpertResidencyPlan" where
  "stabilize_prefill_plan contract candidate_plan current_residencies gs =
     (let roles = layer_roles contract;
          complete = currently_complete_layer_flags (length roles) current_residencies;
          targets = plan_layer_targets candidate_plan
                    @ replicate (length roles - length (plan_layer_targets candidate_plan)) StreamOperationLocal;
          funding = prefill_funding_state contract complete current_residencies gs
                      (plan_retained_expert_ceiling_bytes candidate_plan);
          funded = fs_pin_claim_is_funded funding
      in case fold (stabilize_step roles complete funded gs) [0..<length roles]
                (targets, fs_stream_admission_headroom_bytes funding, 0) of
           (layer_targets, _, maximum_new_retained_bytes) \<Rightarrow>
             candidate_plan
               \<lparr>plan_layer_targets := layer_targets,
                plan_complete_layer_targets :=
                  filter (\<lambda>i. funded ! i)
                    (map fst (filter (\<lambda>(_, role). role = PinnedComplete) (enumerate 0 roles))),
                plan_reserved_routed_overlay_bytes := 0,
                plan_expected_preserved_bytes := fs_expected_preserved_bytes funding,
                plan_maximum_new_retained_bytes := maximum_new_retained_bytes,
                plan_is_low_budget_partial_mode := False\<rparr>)"

section \<open>Publication\<close>

definition seated_complete_layer_count :: "CurrentExpertLayerResidency list \<Rightarrow> nat" where
  "seated_complete_layer_count current_residencies =
     length (filter (\<lambda>r. lr_class r = StableCompleteLayer) current_residencies)"

definition retained_complete_layer_ceiling_after_prefill_budget_refresh :: "u64 \<Rightarrow> u64 \<Rightarrow> u64" where
  "retained_complete_layer_ceiling_after_prefill_budget_refresh leftover_expert_budget_bytes
      current_complete_layer_payload_bytes =
     (if current_complete_layer_payload_bytes < leftover_expert_budget_bytes
      then leftover_expert_budget_bytes else current_complete_layer_payload_bytes)"

definition retained_resident_ceiling_after_budget_refresh :: "u64 \<Rightarrow> u64 \<Rightarrow> u64" where
  "retained_resident_ceiling_after_budget_refresh leftover_expert_budget_bytes current_resident_payload_bytes =
     (if current_resident_payload_bytes < leftover_expert_budget_bytes
      then leftover_expert_budget_bytes else current_resident_payload_bytes)"

definition publish_request_stable_residency_plan ::
  "MemoryPhase \<Rightarrow> RequestExpertResidency option \<Rightarrow> ExpertResidencyPlan \<Rightarrow> CurrentExpertLayerResidency list \<Rightarrow>
   u64 \<Rightarrow> ExpertLayerGeometry list \<Rightarrow> RequestExpertResidency option \<times> ExpertResidencyPlan" where
  "publish_request_stable_residency_plan phase existing_contract candidate_plan current_residencies
      released_complete_payload_bytes gs =
     (if phase = Prefill
      then
        let opened = (case existing_contract of Some contract \<Rightarrow> contract | None \<Rightarrow> open_prefill candidate_plan);
            contract = (if existing_contract \<noteq> None \<and> 0 < released_complete_payload_bytes
                        then shrink_after_capacity_failure opened released_complete_payload_bytes gs
                        else opened)
        in (Some contract, stabilize_prefill_plan contract candidate_plan current_residencies gs)
      else (None, candidate_plan))"

text \<open>The publications of one prefill, from an open contract.\<close>

inductive prefill_run ::
  "ExpertLayerGeometry list \<Rightarrow> RequestExpertResidency \<Rightarrow> RequestExpertResidency \<Rightarrow> bool"
  for gs :: "ExpertLayerGeometry list" where
  opened: "prefill_run gs contract contract"
| republished: "\<lbrakk>prefill_run gs contract contract';
     publish_request_stable_residency_plan Prefill (Some contract') candidate rs released gs = (Some contract'', plan)\<rbrakk>
    \<Longrightarrow> prefill_run gs contract contract''"

section \<open>Specification\<close>

text \<open>The complete payload of the pinned layers of a set, and a contract with the pinned layers from
  index \<open>k\<close> on demoted.\<close>

definition pinned_bytes :: "RequestExpertLayerRole list \<Rightarrow> ExpertLayerGeometry list \<Rightarrow> nat set \<Rightarrow> nat" where
  "pinned_bytes roles gs S = (\<Sum>i \<in> S. if roles ! i = PinnedComplete then unat (payload_or 0 gs i) else 0)"

definition demote_from :: "nat \<Rightarrow> RequestExpertLayerRole list \<Rightarrow> RequestExpertLayerRole list" where
  "demote_from k roles =
     map (\<lambda>i. if k \<le> i \<and> roles ! i = PinnedComplete then DemotedByCapacityFailure else roles ! i) [0..<length roles]"

definition seated_now :: "CurrentExpertLayerResidency list \<Rightarrow> nat \<Rightarrow> bool" where
  "seated_now rs i \<longleftrightarrow> (\<exists>r \<in> set rs. lr_layer_index r = i \<and> is_complete r)"

definition agrees :: "RequestExpertLayerRole \<Rightarrow> bool \<Rightarrow> ExpertLayerResidencyTarget \<Rightarrow> bool" where
  "agrees role seated target \<longleftrightarrow>
     (case role of
        DemotedByCapacityFailure \<Rightarrow> target = StreamOperationLocal
      | PinnedComplete \<Rightarrow>
          if seated then target = PreserveComplete
          else target \<in> {PromoteCompleteOnMandatoryRead, AdmitCompleteOnMandatoryRead, StreamOperationLocal}
      | Streamed \<Rightarrow>
          if seated then target = PreserveComplete
          else target \<in> {AdmitCompleteOnMandatoryRead, StreamOperationLocal})"

text \<open>Bytes of the seated layers a contract preserves, and bytes a rewritten plan newly admits.\<close>

definition seated_bytes ::
  "RequestExpertLayerRole list \<Rightarrow> (nat \<Rightarrow> bool) \<Rightarrow> ExpertLayerGeometry list \<Rightarrow> nat \<Rightarrow> nat" where
  "seated_bytes roles seated gs n =
     (\<Sum>i < n. if roles ! i \<noteq> DemotedByCapacityFailure \<and> seated i then unat (payload_or 0 gs i) else 0)"

definition admitted_bytes :: "ExpertLayerResidencyTarget list \<Rightarrow> ExpertLayerGeometry list \<Rightarrow> nat \<Rightarrow> nat" where
  "admitted_bytes targets gs n =
     (\<Sum>i < n. if targets ! i = AdmitCompleteOnMandatoryRead then unat (payload_or max_value gs i) else 0)"

definition promoted_bytes :: "ExpertLayerResidencyTarget list \<Rightarrow> ExpertLayerGeometry list \<Rightarrow> nat \<Rightarrow> nat" where
  "promoted_bytes targets gs n =
     (\<Sum>i < n. if targets ! i = PromoteCompleteOnMandatoryRead then unat (payload_or 0 gs i) else 0)"

section \<open>Lemmas\<close>

lemma pinned_bytes_insert:
  "\<lbrakk>finite S; n \<notin> S\<rbrakk> \<Longrightarrow> pinned_bytes roles gs (insert n S) =
     pinned_bytes roles gs S + (if roles ! n = PinnedComplete then unat (payload_or 0 gs n) else 0)"
  by (simp add: pinned_bytes_def)

lemma pinned_bytes_Suc:
  "k \<le> n \<Longrightarrow> pinned_bytes roles gs {k..<Suc n} =
     pinned_bytes roles gs {k..<n} + (if roles ! n = PinnedComplete then unat (payload_or 0 gs n) else 0)"
  "i < n \<Longrightarrow> pinned_bytes roles gs {i<..<Suc n} =
     pinned_bytes roles gs {i<..<n} + (if roles ! n = PinnedComplete then unat (payload_or 0 gs n) else 0)"
proof -
  show "pinned_bytes roles gs {k..<Suc n} =
     pinned_bytes roles gs {k..<n} + (if roles ! n = PinnedComplete then unat (payload_or 0 gs n) else 0)" if "k \<le> n"
    unfolding atLeastLessThanSuc using that by (simp add: pinned_bytes_insert)
  have "{i<..<Suc n} = insert n {i<..<n}" if "i < n" using that by auto
  then show "pinned_bytes roles gs {i<..<Suc n} =
     pinned_bytes roles gs {i<..<n} + (if roles ! n = PinnedComplete then unat (payload_or 0 gs n) else 0)" if "i < n"
    using that by (simp add: pinned_bytes_insert)
qed

lemma shrink_loop_spec:
  assumes "n \<le> length roles"
  shows "\<exists>k \<le> n. length (shrink_loop gs (rev [0..<n]) roles rem) = length roles
     \<and> (\<forall>i < length roles. shrink_loop gs (rev [0..<n]) roles rem ! i =
          (if k \<le> i \<and> i < n \<and> roles ! i = PinnedComplete then DemotedByCapacityFailure else roles ! i))
     \<and> (unat rem \<le> pinned_bytes roles gs {k..<n} \<or> k = 0)
     \<and> (\<forall>i. k \<le> i \<and> i < n \<and> roles ! i = PinnedComplete \<longrightarrow> pinned_bytes roles gs {i<..<n} < unat rem)"
  using assms
proof (induction n arbitrary: roles rem)
  case 0
  then show ?case by simp
next
  case (Suc n)
  consider "rem = 0" | "rem \<noteq> 0" "roles ! n \<noteq> PinnedComplete" | "rem \<noteq> 0" "roles ! n = PinnedComplete" by blast
  then show ?case
  proof cases
    case 1
    then show ?thesis by (intro exI [of _ "Suc n"]) simp
  next
    case 2
    obtain k where k: "k \<le> n" "length (shrink_loop gs (rev [0..<n]) roles rem) = length roles"
      "\<forall>i < length roles. shrink_loop gs (rev [0..<n]) roles rem ! i =
          (if k \<le> i \<and> i < n \<and> roles ! i = PinnedComplete then DemotedByCapacityFailure else roles ! i)"
      "unat rem \<le> pinned_bytes roles gs {k..<n} \<or> k = 0"
      "\<forall>i. k \<le> i \<and> i < n \<and> roles ! i = PinnedComplete \<longrightarrow> pinned_bytes roles gs {i<..<n} < unat rem"
      using Suc.IH [of roles rem] Suc.prems by auto
    show ?thesis
    proof (intro exI [of _ k] conjI)
      show "\<forall>i. k \<le> i \<and> i < Suc n \<and> roles ! i = PinnedComplete \<longrightarrow> pinned_bytes roles gs {i<..<Suc n} < unat rem"
        using k(5) 2 by (auto simp: pinned_bytes_Suc(2) less_Suc_eq)
    qed (use k 2 in \<open>auto simp: pinned_bytes_Suc(1) less_Suc_eq\<close>)
  next
    case 3
    let ?b = "payload_or 0 gs n" and ?r = "roles[n := DemotedByCapacityFailure]"
    let ?rem = "saturating_sub rem ?b"
    have same: "pinned_bytes ?r gs S = pinned_bytes roles gs S" if "n \<notin> S" for S
      unfolding pinned_bytes_def
    proof (rule sum.cong [OF refl])
      fix x assume "x \<in> S"
      then have "x \<noteq> n" using that by blast
      then show "(if ?r ! x = PinnedComplete then unat (payload_or 0 gs x) else 0) =
          (if roles ! x = PinnedComplete then unat (payload_or 0 gs x) else 0)" by simp
    qed
    obtain k where k: "k \<le> n" "length (shrink_loop gs (rev [0..<n]) ?r ?rem) = length roles"
      "\<forall>i < length roles. shrink_loop gs (rev [0..<n]) ?r ?rem ! i =
          (if k \<le> i \<and> i < n \<and> ?r ! i = PinnedComplete then DemotedByCapacityFailure else ?r ! i)"
      "unat ?rem \<le> pinned_bytes ?r gs {k..<n} \<or> k = 0"
      "\<forall>i. k \<le> i \<and> i < n \<and> ?r ! i = PinnedComplete \<longrightarrow> pinned_bytes ?r gs {i<..<n} < unat ?rem"
      using Suc.IH [of ?r ?rem] Suc.prems by auto
    have loop: "shrink_loop gs (rev [0..<Suc n]) roles rem = shrink_loop gs (rev [0..<n]) ?r ?rem"
      using 3 by simp
    have pos: "0 < unat rem" using 3 by (simp add: unat_gt_0)
    show ?thesis unfolding loop
    proof (intro exI [of _ k] conjI)
      show "\<forall>i < length roles. shrink_loop gs (rev [0..<n]) ?r ?rem ! i =
          (if k \<le> i \<and> i < Suc n \<and> roles ! i = PinnedComplete then DemotedByCapacityFailure else roles ! i)"
        using k(1,3) 3 Suc.prems by (auto simp: nth_list_update less_Suc_eq)
      show "unat rem \<le> pinned_bytes roles gs {k..<Suc n} \<or> k = 0"
        using k(1,4) 3 by (auto simp: same pinned_bytes_Suc(1) unat_saturating_sub)
      show "\<forall>i. k \<le> i \<and> i < Suc n \<and> roles ! i = PinnedComplete \<longrightarrow> pinned_bytes roles gs {i<..<Suc n} < unat rem"
      proof (intro allI impI, elim conjE)
        fix i assume i: "k \<le> i" "i < Suc n" "roles ! i = PinnedComplete"
        show "pinned_bytes roles gs {i<..<Suc n} < unat rem"
        proof (cases "i = n")
          case True
          have "{n<..<Suc n} = {}" by auto
          then show ?thesis using pos True by (simp add: pinned_bytes_def)
        next
          case False
          then have lt: "i < n" using i(2) by simp
          then have "pinned_bytes roles gs {i<..<n} < unat rem - unat ?b"
            using k(5) i(1,3) by (simp add: same unat_saturating_sub)
          then show ?thesis using lt 3 by (simp add: pinned_bytes_Suc(2))
        qed
      qed
    qed (use k(1,2) in simp_all)
  qed
qed

lemma currently_complete_flags:
  "length (currently_complete_layer_flags n rs) = n"
  "i < n \<Longrightarrow> currently_complete_layer_flags n rs ! i \<longleftrightarrow> seated_now rs i"
proof -
  have "length (fold (\<lambda>r flags. if lr_layer_index r < length flags \<and> lr_class r = StableCompleteLayer
                     then flags[lr_layer_index r := True] else flags) rs flags) = length flags
    \<and> (\<forall>i < length flags. fold (\<lambda>r flags. if lr_layer_index r < length flags \<and> lr_class r = StableCompleteLayer
                     then flags[lr_layer_index r := True] else flags) rs flags ! i \<longleftrightarrow> flags ! i \<or> seated_now rs i)" for flags
  proof (induction rs arbitrary: flags)
    case (Cons r rs)
    then show ?case by (auto simp: seated_now_def is_complete_def nth_list_update)
  qed (simp add: seated_now_def)
  from this [of "replicate n False"] show "length (currently_complete_layer_flags n rs) = n"
    "i < n \<Longrightarrow> currently_complete_layer_flags n rs ! i \<longleftrightarrow> seated_now rs i"
    unfolding currently_complete_layer_flags_def by simp_all
qed

lemma open_prefill_roles:
  "length (layer_roles (open_prefill plan)) = length (plan_layer_targets plan)"
  "i < length (plan_layer_targets plan) \<Longrightarrow> layer_roles (open_prefill plan) ! i =
     (if i \<in> set (plan_complete_layer_targets plan) then PinnedComplete else Streamed)"
proof -
  have "length (fold (\<lambda>i roles. if i < length roles then roles[i := PinnedComplete] else roles) is roles) = length roles
    \<and> (\<forall>j < length roles. fold (\<lambda>i roles. if i < length roles then roles[i := PinnedComplete] else roles) is roles ! j =
         (if j \<in> set is then PinnedComplete else roles ! j))" for "is" roles
  proof (induction "is" arbitrary: roles)
    case (Cons i "is")
    then show ?case by (auto simp: nth_list_update)
  qed simp
  from this [of "plan_complete_layer_targets plan" "replicate (length (plan_layer_targets plan)) Streamed"]
  show "length (layer_roles (open_prefill plan)) = length (plan_layer_targets plan)"
    "i < length (plan_layer_targets plan) \<Longrightarrow> layer_roles (open_prefill plan) ! i =
     (if i \<in> set (plan_complete_layer_targets plan) then PinnedComplete else Streamed)"
    unfolding open_prefill_def by simp_all
qed

text \<open>The three passes over the layers of a contract.\<close>

lemma charge_seated_fold:
  assumes "n \<le> length (fs_pin_claim_is_funded s)"
    and s': "s' = fold (charge_seated_step roles complete rs gs) [0..<n] s"
  shows "length (fs_pin_claim_is_funded s') = length (fs_pin_claim_is_funded s)
    \<and> (\<forall>i < length (fs_pin_claim_is_funded s). fs_pin_claim_is_funded s' ! i \<longleftrightarrow>
         fs_pin_claim_is_funded s ! i \<or> i < n \<and> roles ! i = PinnedComplete \<and> complete ! i)
    \<and> unat (fs_stream_admission_headroom_bytes s') =
         unat (fs_stream_admission_headroom_bytes s) - seated_bytes roles (\<lambda>i. complete ! i) gs n"
  using assms(1) unfolding s'
proof (induction n)
  case 0
  then show ?case by (simp add: seated_bytes_def)
next
  case (Suc n)
  have two: "roles ! n \<in> {PinnedComplete, Streamed} \<longleftrightarrow> roles ! n \<noteq> DemotedByCapacityFailure"
    by (cases "roles ! n") simp_all
  show ?case
    using Suc two
    by (auto simp: charge_seated_step_def Let_def nth_list_update less_Suc_eq seated_bytes_def unat_saturating_sub)
qed

lemma fund_pin_fold:
  assumes "n \<le> length (fs_pin_claim_is_funded s)"
    and "\<forall>i < length (fs_pin_claim_is_funded s). fs_pin_claim_is_funded s ! i \<longrightarrow> roles ! i = PinnedComplete \<and> complete ! i"
    and s': "s' = fold (fund_pin_step roles complete gs) [0..<n] s"
  shows "length (fs_pin_claim_is_funded s') = length (fs_pin_claim_is_funded s)
    \<and> (\<forall>i < length (fs_pin_claim_is_funded s). fs_pin_claim_is_funded s' ! i \<longrightarrow> roles ! i = PinnedComplete)
    \<and> (\<forall>i < length (fs_pin_claim_is_funded s). fs_pin_claim_is_funded s ! i \<or> n \<le> i \<longrightarrow>
         fs_pin_claim_is_funded s' ! i = fs_pin_claim_is_funded s ! i)
    \<and> unat (fs_stream_admission_headroom_bytes s')
        + (\<Sum>i < n. if roles ! i = PinnedComplete \<and> \<not> complete ! i \<and> fs_pin_claim_is_funded s' ! i
                    then unat (payload_or 0 gs i) else 0)
      = unat (fs_stream_admission_headroom_bytes s)"
  using assms(1) unfolding s'
proof (induction n)
  case 0
  then show ?case using assms(2) by simp
next
  case (Suc n)
  let ?s = "fold (fund_pin_step roles complete gs) [0..<n] s"
  let ?t = "fund_pin_step roles complete gs n ?s"
  let ?b = "unat (payload_or 0 gs n)"
  define taken where "taken \<longleftrightarrow> roles ! n = PinnedComplete \<and> \<not> complete ! n
      \<and> payload_or 0 gs n \<le> fs_stream_admission_headroom_bytes ?s"
  have IH: "length (fs_pin_claim_is_funded ?s) = length (fs_pin_claim_is_funded s)"
    "\<forall>i < length (fs_pin_claim_is_funded s). fs_pin_claim_is_funded ?s ! i \<longrightarrow> roles ! i = PinnedComplete"
    "\<forall>i < length (fs_pin_claim_is_funded s). fs_pin_claim_is_funded s ! i \<or> n \<le> i \<longrightarrow>
       fs_pin_claim_is_funded ?s ! i = fs_pin_claim_is_funded s ! i"
    "unat (fs_stream_admission_headroom_bytes ?s)
        + (\<Sum>i < n. if roles ! i = PinnedComplete \<and> \<not> complete ! i \<and> fs_pin_claim_is_funded ?s ! i
                    then unat (payload_or 0 gs i) else 0)
      = unat (fs_stream_admission_headroom_bytes s)"
    using Suc by auto
  have funded: "fs_pin_claim_is_funded ?t = (if taken then (fs_pin_claim_is_funded ?s)[n := True] else fs_pin_claim_is_funded ?s)"
    and headroom: "unat (fs_stream_admission_headroom_bytes ?t) + (if taken then ?b else 0) =
        unat (fs_stream_admission_headroom_bytes ?s)"
    by (auto simp: fund_pin_step_def Let_def taken_def unat_saturating_sub word_le_nat_alt)
  have n: "n < length (fs_pin_claim_is_funded s)" using Suc.prems by simp
  have now: "fs_pin_claim_is_funded ?t ! n \<longleftrightarrow> taken \<or> fs_pin_claim_is_funded s ! n"
    using IH(1,3) n by (auto simp: funded)
  have old: "fs_pin_claim_is_funded ?t ! i = fs_pin_claim_is_funded ?s ! i" if "i \<noteq> n" for i
    using that by (simp add: funded)
  have new: "roles ! n = PinnedComplete \<and> \<not> complete ! n \<and> fs_pin_claim_is_funded ?t ! n \<longleftrightarrow> taken"
    using now assms(2) n by (auto simp: taken_def)
  have "(\<Sum>i < n. if roles ! i = PinnedComplete \<and> \<not> complete ! i \<and> fs_pin_claim_is_funded ?t ! i
                    then unat (payload_or 0 gs i) else 0) =
      (\<Sum>i < n. if roles ! i = PinnedComplete \<and> \<not> complete ! i \<and> fs_pin_claim_is_funded ?s ! i
                    then unat (payload_or 0 gs i) else 0)"
    by (rule sum.cong) (simp_all add: old)
  then have "unat (fs_stream_admission_headroom_bytes ?t)
        + (\<Sum>i < Suc n. if roles ! i = PinnedComplete \<and> \<not> complete ! i \<and> fs_pin_claim_is_funded ?t ! i
                    then unat (payload_or 0 gs i) else 0)
      = unat (fs_stream_admission_headroom_bytes s)"
    using IH(4) headroom by (simp add: new)
  moreover have "fs_pin_claim_is_funded ?t ! i \<longrightarrow> roles ! i = PinnedComplete"
    if "i < length (fs_pin_claim_is_funded s)" for i
    using IH(2) old that now assms(2) by (cases "i = n") (auto simp: taken_def)
  moreover have "fs_pin_claim_is_funded ?t ! i = fs_pin_claim_is_funded s ! i"
    if "i < length (fs_pin_claim_is_funded s)" "fs_pin_claim_is_funded s ! i \<or> Suc n \<le> i" for i
    using IH(3) old that now by (cases "i = n") auto
  moreover have "length (fs_pin_claim_is_funded ?t) = length (fs_pin_claim_is_funded s)"
    using IH(1) by (simp add: funded)
  ultimately show ?case by simp
qed

lemma stabilized_target:
  assumes "stabilized_layer_target role i seated funded gs (headroom, new) = (target, headroom', new')"
    and "unat new + unat headroom < 18446744073709551616"
  shows "agrees role seated target"
    and "target = PromoteCompleteOnMandatoryRead \<longleftrightarrow> role = PinnedComplete \<and> \<not> seated \<and> funded"
    and "unat headroom = unat headroom'
      + (if target = AdmitCompleteOnMandatoryRead then unat (payload_or max_value gs i) else 0)"
    and "unat new' = unat new
      + (if target = AdmitCompleteOnMandatoryRead then unat (payload_or max_value gs i) else 0)"
  using assms
  by (auto simp: stabilized_layer_target_def agrees_def Let_def unat_saturating_sub unat_saturating_add word_le_nat_alt
      split: RequestExpertLayerRole.splits if_splits)

lemma stabilize_fold:
  assumes "n \<le> length targets" and "unat new + unat headroom < 18446744073709551616"
    and "fold (stabilize_step roles complete funded gs) [0..<n] (targets, headroom, new) = (targets', headroom', new')"
  shows "length targets' = length targets
    \<and> (\<forall>i < n. agrees (roles ! i) (complete ! i) (targets' ! i)
          \<and> (targets' ! i = PromoteCompleteOnMandatoryRead \<longleftrightarrow>
               roles ! i = PinnedComplete \<and> \<not> complete ! i \<and> funded ! i))
    \<and> (\<forall>i. n \<le> i \<longrightarrow> targets' ! i = targets ! i)
    \<and> unat headroom' + admitted_bytes targets' gs n = unat headroom
    \<and> unat new' = unat new + admitted_bytes targets' gs n"
  using assms(1,3)
proof (induction n arbitrary: targets' headroom' new')
  case 0
  then show ?case by (simp add: admitted_bytes_def)
next
  case (Suc n)
  obtain ts h m where before: "fold (stabilize_step roles complete funded gs) [0..<n] (targets, headroom, new) = (ts, h, m)"
    by (metis prod_cases3)
  obtain target h' m' where step: "stabilized_layer_target (roles ! n) n (complete ! n) (funded ! n) gs (h, m) = (target, h', m')"
    by (metis prod_cases3)
  have "stabilize_step roles complete funded gs n (ts, h, m) = (ts[n := target], h', m')"
    by (simp add: stabilize_step_def step)
  then have result: "targets' = ts[n := target]" "headroom' = h'" "new' = m'"
    using Suc.prems(2) by (simp_all add: before)
  note IH = Suc.IH [OF _ before]
  have IH': "length ts = length targets"
    "\<And>i. i < n \<Longrightarrow> agrees (roles ! i) (complete ! i) (ts ! i)"
    "\<And>i. i < n \<Longrightarrow> ts ! i = PromoteCompleteOnMandatoryRead \<longleftrightarrow> roles ! i = PinnedComplete \<and> \<not> complete ! i \<and> funded ! i"
    "\<And>i. n \<le> i \<Longrightarrow> ts ! i = targets ! i"
    "unat h + admitted_bytes ts gs n = unat headroom" "unat m = unat new + admitted_bytes ts gs n"
    using IH Suc.prems(1) by simp_all
  have room: "unat m + unat h < 18446744073709551616" using IH'(5,6) assms(2) by simp
  note this_layer = stabilized_target [OF step room]
  have n: "n < length ts" using Suc.prems(1) IH'(1) by simp
  have old: "targets' ! i = ts ! i" if "i \<noteq> n" for i using that by (simp add: result)
  have now: "targets' ! n = target" using n by (simp add: result)
  have "admitted_bytes targets' gs n = admitted_bytes ts gs n"
    unfolding admitted_bytes_def by (rule sum.cong) (simp_all add: old)
  then have admitted: "admitted_bytes targets' gs (Suc n) = admitted_bytes ts gs n
      + (if target = AdmitCompleteOnMandatoryRead then unat (payload_or max_value gs n) else 0)"
    by (simp add: admitted_bytes_def now)
  have "agrees (roles ! i) (complete ! i) (targets' ! i)
      \<and> (targets' ! i = PromoteCompleteOnMandatoryRead \<longleftrightarrow> roles ! i = PinnedComplete \<and> \<not> complete ! i \<and> funded ! i)"
    if "i < Suc n" for i
    using that this_layer(1,2) IH'(2,3) [of i] now old [of i] by (cases "i = n") simp_all
  moreover have "targets' ! i = targets ! i" if "Suc n \<le> i" for i
    using that IH'(4) [of i] old [of i] by simp
  moreover have "length targets' = length targets" using IH'(1) by (simp add: result)
  moreover have "unat headroom' + admitted_bytes targets' gs (Suc n) = unat headroom"
    using IH'(5) this_layer(3) unfolding admitted result(2) by linarith
  moreover have "unat new' = unat new + admitted_bytes targets' gs (Suc n)"
    using IH'(6) this_layer(4) unfolding admitted result(3) by linarith
  ultimately show ?case by blast
qed

lemma stabilize_prefill_plan_spec:
  fixes contract candidate rs gs
  defines "roles \<equiv> layer_roles contract"
    and "plan \<equiv> stabilize_prefill_plan contract candidate rs gs"
  shows "length (plan_layer_targets plan) = max (length roles) (length (plan_layer_targets candidate))
    \<and> (\<forall>i < length roles. agrees (roles ! i) (seated_now rs i) (plan_layer_targets plan ! i))
    \<and> (\<forall>i. length roles \<le> i \<longrightarrow> i < length (plan_layer_targets candidate) \<longrightarrow>
         plan_layer_targets plan ! i = plan_layer_targets candidate ! i)
    \<and> promoted_bytes (plan_layer_targets plan) gs (length roles) + admitted_bytes (plan_layer_targets plan) gs (length roles)
        \<le> unat (plan_retained_expert_ceiling_bytes candidate) - seated_bytes roles (seated_now rs) gs (length roles)
    \<and> unat (plan_maximum_new_retained_bytes plan) = admitted_bytes (plan_layer_targets plan) gs (length roles)
    \<and> set (plan_complete_layer_targets plan) \<subseteq> {i. i < length roles \<and> roles ! i = PinnedComplete}"
proof -
  let ?n = "length roles" and ?c = "plan_retained_expert_ceiling_bytes candidate"
  define complete where "complete = currently_complete_layer_flags ?n rs"
  have seated: "complete ! i = seated_now rs i" if "i < ?n" for i
    using that by (simp add: complete_def currently_complete_flags)
  define start where "start = \<lparr>fs_pin_claim_is_funded = replicate ?n False,
      fs_stream_admission_headroom_bytes = ?c, fs_expected_preserved_bytes = (0 :: u64)\<rparr>"
  have len: "length (fs_pin_claim_is_funded start) = ?n" by (simp add: start_def)
  define s where "s = fold (charge_seated_step roles complete rs gs) [0..<?n] start"
  note charged = charge_seated_fold [OF _ s_def, unfolded len, OF order.refl]
  define f where "f = fold (fund_pin_step roles complete gs) [0..<?n] s"
  have len_s: "length (fs_pin_claim_is_funded s) = ?n" using charged by simp
  have "\<forall>i < ?n. fs_pin_claim_is_funded s ! i \<longrightarrow> roles ! i = PinnedComplete \<and> complete ! i"
    using charged by (simp add: start_def)
  note funded = fund_pin_fold [OF _ _ f_def, unfolded len_s, OF order.refl this]
  have funding: "prefill_funding_state contract complete rs gs ?c = f"
    by (simp add: prefill_funding_state_def roles_def [symmetric] Let_def start_def [symmetric] s_def [symmetric]
        f_def [symmetric])
  define ts where "ts = plan_layer_targets candidate @ replicate (?n - length (plan_layer_targets candidate)) StreamOperationLocal"
  obtain targets' headroom' new' where loop: "fold (stabilize_step roles complete (fs_pin_claim_is_funded f) gs) [0..<?n]
      (ts, fs_stream_admission_headroom_bytes f, 0) = (targets', headroom', new')"
    by (metis prod_cases3)
  have "?n \<le> length ts" "unat (0 :: u64) + unat (fs_stream_admission_headroom_bytes f) < 18446744073709551616"
    using u64_bound by (simp_all add: ts_def)
  note final = stabilize_fold [OF this loop]
  have plan: "plan_layer_targets plan = targets'" "plan_maximum_new_retained_bytes plan = new'"
    "plan_complete_layer_targets plan = filter (\<lambda>i. fs_pin_claim_is_funded f ! i)
                    (map fst (filter (\<lambda>(_, role). role = PinnedComplete) (enumerate 0 roles)))"
    by (simp_all add: plan_def stabilize_prefill_plan_def roles_def [symmetric] Let_def complete_def [symmetric]
        funding ts_def [symmetric] loop)
  have promoted: "promoted_bytes targets' gs ?n =
      (\<Sum>i < ?n. if roles ! i = PinnedComplete \<and> \<not> complete ! i \<and> fs_pin_claim_is_funded f ! i
                then unat (payload_or 0 gs i) else 0)"
    unfolding promoted_bytes_def by (rule sum.cong) (use final in simp_all)
  have same: "seated_bytes roles (\<lambda>i. complete ! i) gs ?n = seated_bytes roles (seated_now rs) gs ?n"
    unfolding seated_bytes_def by (rule sum.cong) (simp_all add: seated)
  have "unat headroom' + admitted_bytes targets' gs ?n + promoted_bytes targets' gs ?n =
      unat ?c - seated_bytes roles (seated_now rs) gs ?n"
    using final funded charged unfolding promoted same by (simp add: start_def)
  then have "promoted_bytes targets' gs ?n + admitted_bytes targets' gs ?n \<le>
      unat ?c - seated_bytes roles (seated_now rs) gs ?n" by linarith
  moreover have "set (plan_complete_layer_targets plan) \<subseteq> {i. i < ?n \<and> roles ! i = PinnedComplete}"
    unfolding plan(3) by (auto simp: in_set_enumerate_eq)
  moreover have "length targets' = max ?n (length (plan_layer_targets candidate))"
    using final by (simp add: ts_def)
  moreover have "targets' ! i = plan_layer_targets candidate ! i"
    if "?n \<le> i" "i < length (plan_layer_targets candidate)" for i
    using final that by (simp add: ts_def nth_append)
  moreover have "agrees (roles ! i) (seated_now rs i) (targets' ! i)" if "i < ?n" for i
    using final that seated [OF that] by auto
  moreover have "unat new' = admitted_bytes targets' gs ?n" using final by simp
  ultimately show ?thesis unfolding plan(1,2) by blast
qed

text \<open>A role only ever moves from pinned to demoted.\<close>

definition shrunk_from :: "RequestExpertResidency \<Rightarrow> RequestExpertResidency \<Rightarrow> bool" where
  "shrunk_from contract contract' \<longleftrightarrow>
     length (layer_roles contract') = length (layer_roles contract)
     \<and> (\<forall>i < length (layer_roles contract). layer_roles contract' ! i = layer_roles contract ! i
          \<or> layer_roles contract ! i = PinnedComplete \<and> layer_roles contract' ! i = DemotedByCapacityFailure)"

lemma shrunk_from_refl: "shrunk_from contract contract"
  by (simp add: shrunk_from_def)

lemma shrunk_from_trans: "\<lbrakk>shrunk_from a b; shrunk_from b c\<rbrakk> \<Longrightarrow> shrunk_from a c"
  unfolding shrunk_from_def by (metis RequestExpertLayerRole.distinct(3))

lemma shrink_result:
  "\<exists>k \<le> length (layer_roles contract).
     layer_roles (shrink_after_capacity_failure contract required gs) = demote_from k (layer_roles contract)
     \<and> (unat required \<le> pinned_bytes (layer_roles contract) gs {k..<length (layer_roles contract)} \<or> k = 0)
     \<and> (\<forall>i. k \<le> i \<and> i < length (layer_roles contract) \<and> layer_roles contract ! i = PinnedComplete \<longrightarrow>
          pinned_bytes (layer_roles contract) gs {i<..<length (layer_roles contract)} < unat required)"
proof (cases "required = 0")
  case True
  have "demote_from (length roles) roles = roles" for roles
    unfolding demote_from_def by (rule nth_equalityI) simp_all
  with True show ?thesis
    by (intro exI [of _ "length (layer_roles contract)"]) (simp add: shrink_after_capacity_failure_def)
next
  case False
  let ?roles = "layer_roles contract"
  let ?n = "length ?roles"
  have loop: "layer_roles (shrink_after_capacity_failure contract required gs) =
      shrink_loop gs (rev [0..<?n]) ?roles required"
    using False by (simp add: shrink_after_capacity_failure_def)
  obtain k where k: "k \<le> ?n" "length (shrink_loop gs (rev [0..<?n]) ?roles required) = ?n"
    "\<forall>i < ?n. shrink_loop gs (rev [0..<?n]) ?roles required ! i =
       (if k \<le> i \<and> i < ?n \<and> ?roles ! i = PinnedComplete then DemotedByCapacityFailure else ?roles ! i)"
    "unat required \<le> pinned_bytes ?roles gs {k..<?n} \<or> k = 0"
    "\<forall>i. k \<le> i \<and> i < ?n \<and> ?roles ! i = PinnedComplete \<longrightarrow> pinned_bytes ?roles gs {i<..<?n} < unat required"
    using shrink_loop_spec [OF order.refl] by blast
  have "shrink_loop gs (rev [0..<?n]) ?roles required = demote_from k ?roles"
    unfolding demote_from_def by (rule nth_equalityI) (use k(2,3) in simp_all)
  then show ?thesis unfolding loop using k(1,4,5) by blast
qed

lemma shrunk_from_shrink: "shrunk_from contract (shrink_after_capacity_failure contract required gs)"
proof -
  obtain k where "layer_roles (shrink_after_capacity_failure contract required gs) = demote_from k (layer_roles contract)"
    using shrink_result by blast
  then show ?thesis by (auto simp: shrunk_from_def demote_from_def)
qed

lemma publish_prefill_some:
  "publish_request_stable_residency_plan Prefill (Some contract) candidate rs released gs =
     (let contract' = (if 0 < released then shrink_after_capacity_failure contract released gs else contract)
      in (Some contract', stabilize_prefill_plan contract' candidate rs gs))"
  by (simp add: publish_request_stable_residency_plan_def Let_def)

lemma prefill_run_shrinks: "prefill_run gs contract contract' \<Longrightarrow> shrunk_from contract contract'"
proof (induction rule: prefill_run.induct)
  case (opened contract)
  show ?case by (rule shrunk_from_refl)
next
  case (republished contract contract' candidate rs released contract'' plan)
  have "contract'' = (if 0 < released then shrink_after_capacity_failure contract' released gs else contract')"
    using republished.hyps(2) by (simp add: publish_prefill_some Let_def)
  then have "shrunk_from contract' contract''" by (simp add: shrunk_from_refl shrunk_from_shrink)
  with republished.IH show ?case by (rule shrunk_from_trans)
qed

section \<open>Properties\<close>

text \<open>C10. After a capacity failure the contract demotes pinned layers from the tail: from some index on
  every pinned layer is demoted and nothing else changes, the demoted layers cover the required bytes
  unless every pinned layer was demoted, and no demotion was unnecessary: before each demoted layer the
  bytes demoted behind it did not suffice.\<close>

theorem shrink_covers_deficit:
  "\<exists>k \<le> length (layer_roles contract).
     layer_roles (shrink_after_capacity_failure contract required gs) = demote_from k (layer_roles contract)
     \<and> (unat required \<le> pinned_bytes (layer_roles contract) gs {k..<length (layer_roles contract)} \<or> k = 0)
     \<and> (\<forall>i. k \<le> i \<and> i < length (layer_roles contract) \<and> layer_roles contract ! i = PinnedComplete \<longrightarrow>
          pinned_bytes (layer_roles contract) gs {i<..<length (layer_roles contract)} < unat required)"
  by (rule shrink_result)

definition sample_contract :: RequestExpertResidency where
  "sample_contract = \<lparr>layer_roles = [PinnedComplete, Streamed, PinnedComplete]\<rparr>"

theorem shrink_covers_deficit_witness:
  "(\<exists>k \<le> 3. layer_roles (shrink_after_capacity_failure sample_contract 10 sample_geometries) =
       demote_from k [PinnedComplete, Streamed, PinnedComplete])
   \<and> layer_roles (shrink_after_capacity_failure sample_contract 10 sample_geometries) =
       [PinnedComplete, Streamed, DemotedByCapacityFailure]"
proof
  show "\<exists>k \<le> 3. layer_roles (shrink_after_capacity_failure sample_contract 10 sample_geometries) =
       demote_from k [PinnedComplete, Streamed, PinnedComplete]"
  proof -
    have len: "length (layer_roles sample_contract) = 3" by (simp add: sample_contract_def)
    have "\<exists>k \<le> length (layer_roles sample_contract).
        layer_roles (shrink_after_capacity_failure sample_contract 10 sample_geometries) =
          demote_from k (layer_roles sample_contract)"
      using shrink_covers_deficit [of sample_contract 10 sample_geometries] by blast
    then show ?thesis unfolding len by (simp add: sample_contract_def)
  qed
qed code_simp

text \<open>C11. A rewritten prefill plan agrees with its contract and its ceiling: seated layers are preserved,
  only unseated pinned layers are promoted, demoted layers stream, layers beyond the contract keep the
  planner's target, and the payloads of all promoted and newly admitted layers fit in what the seated
  layers leave of the ceiling.\<close>

theorem stabilized_plan_within_ceiling:
  fixes contract candidate rs gs
  defines "roles \<equiv> layer_roles contract"
    and "plan \<equiv> stabilize_prefill_plan contract candidate rs gs"
  shows "length (plan_layer_targets plan) = max (length roles) (length (plan_layer_targets candidate))
    \<and> (\<forall>i < length roles. agrees (roles ! i) (seated_now rs i) (plan_layer_targets plan ! i))
    \<and> (\<forall>i. length roles \<le> i \<longrightarrow> i < length (plan_layer_targets candidate) \<longrightarrow>
         plan_layer_targets plan ! i = plan_layer_targets candidate ! i)
    \<and> promoted_bytes (plan_layer_targets plan) gs (length roles) + admitted_bytes (plan_layer_targets plan) gs (length roles)
        \<le> unat (plan_retained_expert_ceiling_bytes candidate) - seated_bytes roles (seated_now rs) gs (length roles)
    \<and> unat (plan_maximum_new_retained_bytes plan) = admitted_bytes (plan_layer_targets plan) gs (length roles)
    \<and> set (plan_complete_layer_targets plan) \<subseteq> {i. i < length roles \<and> roles ! i = PinnedComplete}"
  unfolding roles_def plan_def by (rule stabilize_prefill_plan_spec)

definition sample_candidate :: ExpertResidencyPlan where
  "sample_candidate = \<lparr>plan_phase = Prefill, plan_retained_expert_ceiling_bytes = 90,
     plan_complete_layer_targets = [0, 2],
     plan_layer_targets = [PreserveComplete, AdmitPartialOnMandatoryRouteRead, PromoteCompleteOnMandatoryRead],
     plan_reserved_routed_overlay_bytes = 0, plan_expected_preserved_bytes = 0, plan_maximum_new_retained_bytes = 0,
     plan_deterministic_release_order = [], plan_is_low_budget_partial_mode = False\<rparr>"

theorem stabilized_plan_within_ceiling_witness:
  "agrees Streamed False (plan_layer_targets (stabilize_prefill_plan sample_contract sample_candidate
       sample_residencies sample_geometries) ! 1)
   \<and> plan_layer_targets (stabilize_prefill_plan sample_contract sample_candidate sample_residencies sample_geometries) =
       [PreserveComplete, StreamOperationLocal, PromoteCompleteOnMandatoryRead]"
proof
  have "\<not> seated_now sample_residencies 1" by code_simp
  then show "agrees Streamed False (plan_layer_targets (stabilize_prefill_plan sample_contract sample_candidate
       sample_residencies sample_geometries) ! 1)"
    using stabilized_plan_within_ceiling [where contract = sample_contract and candidate = sample_candidate
        and rs = sample_residencies and gs = sample_geometries]
    by (auto simp: sample_contract_def)
qed code_simp

text \<open>C12. Over any run of prefill publications a role changes only from pinned to demoted, and a demoted
  layer streams in every later plan of the run.\<close>

theorem prefill_contract_only_shrinks:
  assumes "prefill_run gs contract contract'"
  shows "shrunk_from contract contract'
    \<and> (\<forall>i < length (layer_roles contract). layer_roles contract ! i = DemotedByCapacityFailure \<longrightarrow>
         (\<forall>candidate rs released.
            plan_layer_targets (snd (publish_request_stable_residency_plan Prefill (Some contract') candidate rs released gs)) ! i
              = StreamOperationLocal))"
proof (intro conjI allI impI)
  show run: "shrunk_from contract contract'" by (rule prefill_run_shrinks [OF assms])
  fix i candidate rs released
  assume i: "i < length (layer_roles contract)" "layer_roles contract ! i = DemotedByCapacityFailure"
  let ?k = "if 0 < released then shrink_after_capacity_failure contract' released gs else contract'"
  have "shrunk_from contract' ?k" by (simp add: shrunk_from_refl shrunk_from_shrink)
  then have "shrunk_from contract ?k" by (rule shrunk_from_trans [OF run])
  then have k: "length (layer_roles ?k) = length (layer_roles contract)" "layer_roles ?k ! i = DemotedByCapacityFailure"
    using i unfolding shrunk_from_def by auto
  have "agrees (layer_roles ?k ! i) (seated_now rs i) (plan_layer_targets (stabilize_prefill_plan ?k candidate rs gs) ! i)"
    using stabilize_prefill_plan_spec [of ?k candidate rs gs] i(1) k(1) by metis
  then have "plan_layer_targets (stabilize_prefill_plan ?k candidate rs gs) ! i = StreamOperationLocal"
    unfolding k(2) by (simp add: agrees_def)
  then show "plan_layer_targets (snd (publish_request_stable_residency_plan Prefill (Some contract') candidate rs released gs)) ! i
      = StreamOperationLocal"
    by (simp add: publish_prefill_some Let_def)
qed

theorem prefill_contract_only_shrinks_witness:
  "shrunk_from sample_contract (shrink_after_capacity_failure sample_contract 10 sample_geometries)"
proof -
  have "prefill_run sample_geometries sample_contract (shrink_after_capacity_failure sample_contract 10 sample_geometries)"
    by (rule prefill_run.republished [OF prefill_run.opened, where released = 10])
       (simp add: publish_prefill_some Let_def)
  from prefill_contract_only_shrinks [OF this] show ?thesis by blast
qed

end
