(* ===== verification/Page_Commit.thy ===== *)
theory Page_Commit
  imports Residency_Plan
begin

text \<open>
  \<^verbatim>\<open>residency/page_commit.rs\<close>: whether experts that were just read may stay in the retained cache, and
  which complete layers make room for the decode warm floor.
\<close>

section \<open>Commit predicates\<close>

text \<open>The targets that fund a layer's complete claim.\<close>

definition funds_complete_claim :: "ExpertLayerResidencyTarget option \<Rightarrow> bool" where
  "funds_complete_claim target \<longleftrightarrow>
     target \<in> {Some PromoteCompleteOnMandatoryRead, Some AdmitCompleteOnMandatoryRead}"

definition should_commit_mandatory_complete_layer ::
  "32 word \<Rightarrow> bool \<Rightarrow> ExpertLayerResidencyTarget option \<Rightarrow> bool" where
  "should_commit_mandatory_complete_layer route_token_count production_default_paging residency_target \<longleftrightarrow>
     production_default_paging \<and> funds_complete_claim residency_target"

definition should_commit_mandatory_routed_page ::
  "32 word \<Rightarrow> bool \<Rightarrow> ExpertLayerResidencyTarget option \<Rightarrow> bool \<Rightarrow> bool" where
  "should_commit_mandatory_routed_page route_token_count production_default_paging residency_target
      layer_has_no_retained_page =
     (if \<not> production_default_paging then False
      else case residency_target of
             Some StreamOperationLocal \<Rightarrow> False
           | Some ReleasePartial \<Rightarrow> False
           | Some ReleaseCompleteForExactDeficit \<Rightarrow> False
           | _ \<Rightarrow> True)"

text \<open>The token count is signed, the expert counts are not.\<close>

definition should_commit_multi_token_union_as_complete_layer ::
  "32 word \<Rightarrow> bool \<Rightarrow> ExpertLayerResidencyTarget option \<Rightarrow> usize \<Rightarrow> usize \<Rightarrow> bool" where
  "should_commit_multi_token_union_as_complete_layer route_token_count production_default_paging residency_target
      routed_expert_count expert_capacity \<longleftrightarrow>
     1 < sint route_token_count \<and> production_default_paging \<and> 0 < expert_capacity
     \<and> routed_expert_count = expert_capacity \<and> funds_complete_claim residency_target"

definition should_seed_partial_layer_on_prefill_read ::
  "32 word \<Rightarrow> bool \<Rightarrow> ExpertLayerResidencyTarget option \<Rightarrow> usize \<Rightarrow> usize \<Rightarrow> usize \<Rightarrow> bool" where
  "should_seed_partial_layer_on_prefill_read route_token_count production_default_paging residency_target
      resident_expert_count routed_expert_count expert_capacity \<longleftrightarrow>
     1 < sint route_token_count \<and> production_default_paging \<and> resident_expert_count = 0 \<and> 0 < expert_capacity
     \<and> 0 < routed_expert_count \<and> routed_expert_count < expert_capacity \<and> funds_complete_claim residency_target"

definition should_complete_partial_layer_on_prefill_read ::
  "bool \<Rightarrow> ExpertLayerResidencyTarget option \<Rightarrow> usize \<Rightarrow> usize \<Rightarrow> bool" where
  "should_complete_partial_layer_on_prefill_read production_default_paging residency_target
      resident_expert_count expert_capacity \<longleftrightarrow>
     production_default_paging \<and> 0 < expert_capacity \<and> 0 < resident_expert_count
     \<and> resident_expert_count < expert_capacity \<and> funds_complete_claim residency_target"

section \<open>The decode warm floor\<close>

definition hot_expert_warm_slot_count :: "usize \<Rightarrow> usize" where
  "hot_expert_warm_slot_count expert_capacity = expert_capacity"

definition minimum_decode_warm_slot_count :: "usize \<Rightarrow> usize" where
  "minimum_decode_warm_slot_count experts_per_token =
     (if experts_per_token = 0 then 1 else saturating_mul experts_per_token 2)"

text \<open>The loop over the complete layers, coldest first. \<open>minimum_warm_budget_bytes\<close> is recomputed for the
  layers that are unseated once the evictions so far are done.\<close>

definition minimum_warm_budget_bytes :: "u64 \<Rightarrow> nat \<Rightarrow> usize \<Rightarrow> u128" where
  "minimum_warm_budget_bytes per_expert_payload_bytes unseated_sparse_layer_count minimum_warm_slot_count =
     saturating_mul (saturating_mul (ucast per_expert_payload_bytes) (word_of_nat unseated_sparse_layer_count))
       (ucast minimum_warm_slot_count)"

fun warm_floor_loop ::
  "u64 \<Rightarrow> u64 \<Rightarrow> usize \<Rightarrow> usize \<Rightarrow> nat \<Rightarrow> CurrentExpertLayerResidency list \<Rightarrow> u64 \<Rightarrow> nat list \<Rightarrow> nat list" where
  "warm_floor_loop warm per_expert slots sparse complete_layer_count [] freed evicted = evicted"
| "warm_floor_loop warm per_expert slots sparse complete_layer_count (r # rs) freed evicted =
     (let unseated = unat sparse - (complete_layer_count - length evicted)
      in if minimum_warm_budget_bytes per_expert unseated slots \<le> ucast (saturating_add warm freed)
         then evicted
         else warm_floor_loop warm per_expert slots sparse complete_layer_count rs
                (saturating_add freed (lr_payload_bytes r)) (evicted @ [lr_layer_index r]))"

definition coldest_complete_layers :: "CurrentExpertLayerResidency list \<Rightarrow> CurrentExpertLayerResidency list" where
  "coldest_complete_layers layer_residencies =
     sort_key (\<lambda>r. (lr_covered_weighted_demand r, lr_layer_index r))
       (filter (\<lambda>r. lr_class r = StableCompleteLayer) layer_residencies)"

definition decode_warm_floor_eviction_indexes ::
  "CurrentExpertLayerResidency list \<Rightarrow> u64 \<Rightarrow> u64 \<Rightarrow> usize \<Rightarrow> usize \<Rightarrow> nat list" where
  "decode_warm_floor_eviction_indexes layer_residencies warm_budget_bytes per_expert_payload_bytes
      minimum_warm_slot_count sparse_layer_count =
     (let cs = coldest_complete_layers layer_residencies
      in if cs = [] then []
         else warm_floor_loop warm_budget_bytes per_expert_payload_bytes minimum_warm_slot_count
                sparse_layer_count (length cs) cs 0 [])"

section \<open>Specification\<close>

text \<open>With the \<open>j\<close> coldest complete layers evicted, the warm budget (in 64 bits) covers the floor of every
  unseated layer.\<close>

definition warm_floor_met ::
  "u64 \<Rightarrow> u64 \<Rightarrow> usize \<Rightarrow> usize \<Rightarrow> CurrentExpertLayerResidency list \<Rightarrow> nat \<Rightarrow> bool" where
  "warm_floor_met warm per_expert slots sparse cs j \<longleftrightarrow>
     unat per_expert * (unat sparse - (length cs - j)) * unat slots
       \<le> min (unat warm + sum_list (map (\<lambda>r. unat (lr_payload_bytes r)) (take j cs))) 18446744073709551615"

section \<open>Lemmas\<close>

lemma saturated_product_le_iff:
  fixes a m s w :: nat
  assumes "w < m"
  shows "min (min a m * s) m \<le> w \<longleftrightarrow> a * s \<le> w"
proof (cases "s = 0")
  case False
  then have "m \<le> m * s" and "a \<le> m \<or> m \<le> a * s" by (simp_all, metis le_trans linear mult.right_neutral mult_le_mono2 not_less_eq_eq One_nat_def neq0_conv Suc_leI)
  then show ?thesis using assms by (cases "a \<le> m") (auto simp: min_def)
qed simp

lemma minimum_warm_budget_le_iff:
  assumes "unseated < 18446744073709551616"
  shows "minimum_warm_budget_bytes per_expert unseated slots \<le> (ucast (w :: u64) :: u128) \<longleftrightarrow>
    unat per_expert * unseated * unat slots \<le> unat w"
proof -
  have "unat (word_of_nat unseated :: u128) = unseated"
    using assms by (simp add: unsigned_of_nat take_bit_nat_eq_self)
  then have "unat (minimum_warm_budget_bytes per_expert unseated slots) =
      min (min (unat per_expert * unseated) 340282366920938463463374607431768211455 * unat slots)
        340282366920938463463374607431768211455"
    by (simp add: minimum_warm_budget_bytes_def unat_saturating_mul unat_ucast_u128)
  then show ?thesis
    using saturated_product_le_iff [of "unat w" 340282366920938463463374607431768211455] u64_bound [of w]
    by (simp add: word_le_nat_alt unat_ucast_u128)
qed

lemma warm_floor_loop_spec:
  fixes cs :: "CurrentExpertLayerResidency list"
  assumes "done @ rs = cs"
    and "unat freed = min (sum_list (map (\<lambda>r. unat (lr_payload_bytes r)) done)) 18446744073709551615"
    and "\<forall>j < length done. \<not> warm_floor_met warm per_expert slots sparse cs j"
  shows "\<exists>k \<le> length cs. warm_floor_loop warm per_expert slots sparse (length cs) rs freed (map lr_layer_index done) =
       map lr_layer_index (take k cs)
     \<and> (\<forall>j < k. \<not> warm_floor_met warm per_expert slots sparse cs j)
     \<and> (k = length cs \<or> warm_floor_met warm per_expert slots sparse cs k)"
  using assms
proof (induction rs arbitrary: "done" freed)
  case Nil
  then show ?case by (intro exI [of _ "length cs"]) simp
next
  case (Cons r rs)
  let ?unseated = "unat sparse - (length cs - length done)"
  have "unat (saturating_add warm freed) =
      min (unat warm + sum_list (map (\<lambda>r. unat (lr_payload_bytes r)) done)) 18446744073709551615"
    by (simp add: unat_saturating_add Cons.prems(2) min_def)
  moreover have "take (length done) cs = done" using Cons.prems(1) by auto
  ultimately have met: "minimum_warm_budget_bytes per_expert ?unseated slots \<le> ucast (saturating_add warm freed) \<longleftrightarrow>
      warm_floor_met warm per_expert slots sparse cs (length done)"
    using u64_bound [of sparse] by (simp add: minimum_warm_budget_le_iff warm_floor_met_def)
  show ?case
  proof (cases "warm_floor_met warm per_expert slots sparse cs (length done)")
    case True
    then have "warm_floor_loop warm per_expert slots sparse (length cs) (r # rs) freed (map lr_layer_index done) =
        map lr_layer_index (take (length done) cs)"
      using met Cons.prems(1) by (auto simp: Let_def)
    moreover have "length done \<le> length cs" using Cons.prems(1) by auto
    ultimately show ?thesis using True Cons.prems(3) by blast
  next
    case False
    have "unat (saturating_add freed (lr_payload_bytes r)) =
        min (sum_list (map (\<lambda>r. unat (lr_payload_bytes r)) (done @ [r]))) 18446744073709551615"
      by (simp add: unat_saturating_add Cons.prems(2) min_def)
    moreover have "\<forall>j < length (done @ [r]). \<not> warm_floor_met warm per_expert slots sparse cs j"
      using Cons.prems(3) False by (auto simp: less_Suc_eq)
    moreover have "(done @ [r]) @ rs = cs" using Cons.prems(1) by simp
    ultimately have "\<exists>k \<le> length cs. warm_floor_loop warm per_expert slots sparse (length cs) rs
          (saturating_add freed (lr_payload_bytes r)) (map lr_layer_index (done @ [r])) = map lr_layer_index (take k cs)
        \<and> (\<forall>j < k. \<not> warm_floor_met warm per_expert slots sparse cs j)
        \<and> (k = length cs \<or> warm_floor_met warm per_expert slots sparse cs k)"
      using Cons.IH by blast
    moreover have "warm_floor_loop warm per_expert slots sparse (length cs) (r # rs) freed (map lr_layer_index done) =
        warm_floor_loop warm per_expert slots sparse (length cs) rs
          (saturating_add freed (lr_payload_bytes r)) (map lr_layer_index (done @ [r]))"
      using met False by (simp add: Let_def)
    ultimately show ?thesis by simp
  qed
qed

section \<open>Properties\<close>

text \<open>C13. The decode warm floor evicts complete layers only, coldest first, and as few as possible: the
  shortest prefix of the coldest layers after which the warm budget covers the floor of every unseated
  sparse layer, or all complete layers when no prefix does.\<close>

theorem warm_floor_eviction_minimal:
  fixes rs warm per_expert slots sparse
  defines "cs \<equiv> coldest_complete_layers rs"
  shows "\<exists>k \<le> length cs. decode_warm_floor_eviction_indexes rs warm per_expert slots sparse =
       map lr_layer_index (take k cs)
     \<and> (\<forall>j < k. \<not> warm_floor_met warm per_expert slots sparse cs j)
     \<and> (k = length cs \<or> warm_floor_met warm per_expert slots sparse cs k)"
proof (cases "cs = []")
  case True
  then show ?thesis by (simp add: decode_warm_floor_eviction_indexes_def cs_def [symmetric] Let_def)
next
  case False
  then show ?thesis
    using warm_floor_loop_spec [of "[]" cs cs 0 warm per_expert slots sparse]
    by (simp add: decode_warm_floor_eviction_indexes_def cs_def [symmetric] Let_def)
qed

theorem warm_floor_eviction_minimal_witness:
  "(\<exists>k. decode_warm_floor_eviction_indexes sample_residencies 30 10 4 3 =
      map lr_layer_index (take k (coldest_complete_layers sample_residencies)))
   \<and> decode_warm_floor_eviction_indexes sample_residencies 30 10 4 3 = [0]"
proof
  show "\<exists>k. decode_warm_floor_eviction_indexes sample_residencies 30 10 4 3 =
      map lr_layer_index (take k (coldest_complete_layers sample_residencies))"
    using warm_floor_eviction_minimal [of sample_residencies 30 10 4 3] by blast
qed code_simp

end
