(* ===== verification/Download_Path.thy ===== *)
theory Download_Path
  imports Prelude "HOL-Library.Sublist" "HOL-Library.Char_ord" "HOL-Library.List_Lexorder"
begin

text \<open>
  Portable paths and identities of a model download: \<^verbatim>\<open>download/job/download_job/path_validation.rs\<close>,
  \<^verbatim>\<open>hub/hugging_face_bounds.rs\<close>, \<^verbatim>\<open>download/path_selection.rs\<close> and the validators of
  \<^verbatim>\<open>catalog/download_catalog.rs\<close> (under \<^verbatim>\<open>apps/daemon/src/library\<close>). A \<^verbatim>\<open>str\<close> is the list of its bytes, a
  \<^verbatim>\<open>BTreeSet\<close> of strings is a sorted list without duplicates. \<open>unix_components\<close> is \<^verbatim>\<open>Path::components\<close> of the
  standard library on Unix.
\<close>

section \<open>Strings\<close>

abbreviation slash :: char where "slash \<equiv> CHR ''/''"

text \<open>\<^verbatim>\<open>split('/')\<close>, and the join with a separator.\<close>

fun split_on :: "char \<Rightarrow> string \<Rightarrow> string list" where
  "split_on c [] = [[]]"
| "split_on c (x # xs) =
     (if x = c then [] # split_on c xs
      else case split_on c xs of [] \<Rightarrow> [[x]] | y # ys \<Rightarrow> (x # y) # ys)"

fun join_with :: "char \<Rightarrow> string list \<Rightarrow> string" where
  "join_with c [] = []"
| "join_with c [x] = x"
| "join_with c (x # y # ys) = x @ c # join_with c (y # ys)"

definition byte_value :: "char \<Rightarrow> nat" where
  "byte_value c = of_char c"

definition is_ascii :: "string \<Rightarrow> bool" where
  "is_ascii s \<longleftrightarrow> list_all (\<lambda>c. byte_value c < 128) s"

text \<open>\<^verbatim>\<open>char::is_control\<close> and \<^verbatim>\<open>is_ascii_control\<close> on ASCII characters.\<close>

definition is_control :: "char \<Rightarrow> bool" where
  "is_control c \<longleftrightarrow> byte_value c < 32 \<or> byte_value c = 127"

definition to_ascii_lowercase :: "string \<Rightarrow> string" where
  "to_ascii_lowercase = map (\<lambda>c. if 65 \<le> byte_value c \<and> byte_value c \<le> 90 then char_of (byte_value c + 32) else c)"

definition is_lowercase_hex_character :: "char \<Rightarrow> bool" where
  "is_lowercase_hex_character c \<longleftrightarrow>
     48 \<le> byte_value c \<and> byte_value c \<le> 57 \<or> 97 \<le> byte_value c \<and> byte_value c \<le> 102"

definition is_lowercase_hex :: "string \<Rightarrow> nat \<Rightarrow> bool" where
  "is_lowercase_hex digest expected_character_count \<longleftrightarrow>
     length digest = expected_character_count \<and> list_all is_lowercase_hex_character digest"

text \<open>\<^verbatim>\<open>BTreeSet::insert\<close> on a sorted list; the set keeps an element it already has.\<close>

fun path_insert :: "string \<Rightarrow> string list \<Rightarrow> string list" where
  "path_insert p [] = [p]"
| "path_insert p (q # qs) = (if p < q then p # q # qs else if p = q then q # qs else q # path_insert p qs)"

section \<open>Relative paths of a job\<close>

datatype path_component = RootDir | CurDir | ParentDir | Normal string

definition relative_component :: "string \<Rightarrow> path_component option" where
  "relative_component s =
     (if s = [] \<or> s = ''.'' then None else if s = ''..'' then Some ParentDir else Some (Normal s))"

definition unix_components :: "string \<Rightarrow> path_component list" where
  "unix_components p =
     (if p \<noteq> [] \<and> hd p = slash
      then RootDir # List.map_filter relative_component (split_on slash p)
      else (if hd (split_on slash p) = ''.'' then [CurDir] else [])
             @ List.map_filter relative_component (split_on slash p))"

definition is_absolute :: "string \<Rightarrow> bool" where
  "is_absolute p \<longleftrightarrow> p \<noteq> [] \<and> hd p = slash"

fun component_string :: "path_component \<Rightarrow> string" where
  "component_string RootDir = ''/''"
| "component_string CurDir = ''.''"
| "component_string ParentDir = ''..''"
| "component_string (Normal s) = s"

fun is_normal :: "path_component \<Rightarrow> bool" where
  "is_normal (Normal s) = True"
| "is_normal _ = False"

definition MAXIMUM_RELATIVE_PATH_BYTES :: nat where
  "MAXIMUM_RELATIVE_PATH_BYTES = 1024"

definition is_safe_relative_path :: "string \<Rightarrow> bool" where
  "is_safe_relative_path relative_path =
     (if relative_path = [] \<or> MAXIMUM_RELATIVE_PATH_BYTES < length relative_path \<or> \<not> is_ascii relative_path
         \<or> CHR 0x5C \<in> set relative_path \<or> list_ex is_control relative_path
      then False
      else if is_absolute relative_path \<or> \<not> list_all is_normal (unix_components relative_path) then False
      else join_with slash (map component_string (unix_components relative_path)) = relative_path)"

text \<open>The ancestors of a candidate are its prefixes that end before a separator.\<close>

fun has_ancestor_in :: "string list \<Rightarrow> string \<Rightarrow> string \<Rightarrow> bool" where
  "has_ancestor_in paths ancestor [] = False"
| "has_ancestor_in paths ancestor (c # rest) =
     (if c = slash \<and> ancestor \<in> set paths then True else has_ancestor_in paths (ancestor @ [c]) rest)"

definition has_descendant_path :: "string list \<Rightarrow> string \<Rightarrow> bool" where
  "has_descendant_path paths candidate_path =
     (let descendant_prefix = candidate_path @ [slash]
      in case find (\<lambda>p. descendant_prefix \<le> p) paths of
           Some path \<Rightarrow> take (length descendant_prefix) path = descendant_prefix
         | None \<Rightarrow> False)"

definition has_path_hierarchy_conflict :: "string list \<Rightarrow> string \<Rightarrow> bool" where
  "has_path_hierarchy_conflict paths candidate_path =
     (if has_ancestor_in paths [] candidate_path then True else has_descendant_path paths candidate_path)"

section \<open>The bounds of the hub and the selection of files\<close>

definition is_canonical_ascii_path :: "string \<Rightarrow> nat \<Rightarrow> bool" where
  "is_canonical_ascii_path relative_path maximum_path_bytes \<longleftrightarrow>
     relative_path \<noteq> [] \<and> length relative_path \<le> maximum_path_bytes \<and> is_ascii relative_path
     \<and> CHR 0x5C \<notin> set relative_path \<and> \<not> list_ex is_control relative_path
     \<and> list_all (\<lambda>component. component \<noteq> [] \<and> component \<noteq> ''.'' \<and> component \<noteq> ''..'') (split_on slash relative_path)"

definition hub_has_ancestor_path :: "string list \<Rightarrow> string \<Rightarrow> bool" where
  "hub_has_ancestor_path file_paths candidate_path =
     list_ex (\<lambda>i. candidate_path ! i = slash \<and> take i candidate_path \<in> set file_paths) [0..<length candidate_path]"

definition is_valid_hugging_face_component :: "string \<Rightarrow> bool" where
  "is_valid_hugging_face_component component =
     (if component = [] \<or> 96 < length component
         \<or> hd component \<in> {CHR ''-'', CHR ''.''} \<or> last component \<in> {CHR ''-'', CHR ''.''}
         \<or> sublist ''--'' component \<or> sublist ''..'' component
      then False
      else list_all (\<lambda>c. 48 \<le> byte_value c \<and> byte_value c \<le> 57 \<or> 65 \<le> byte_value c \<and> byte_value c \<le> 90
             \<or> 97 \<le> byte_value c \<and> byte_value c \<le> 122 \<or> c \<in> {CHR ''-'', CHR ''_'', CHR ''.''}) component)"

text \<open>The next component of the identity, or the empty one when there is none.\<close>

definition identity_component :: "nat \<Rightarrow> string \<Rightarrow> string" where
  "identity_component n huggingface_id =
     (if n < length (split_on slash huggingface_id) then split_on slash huggingface_id ! n else [])"

definition is_valid_huggingface_id :: "string \<Rightarrow> bool" where
  "is_valid_huggingface_id huggingface_id \<longleftrightarrow>
     length (split_on slash huggingface_id) \<le> 2
     \<and> is_valid_hugging_face_component (identity_component 0 huggingface_id)
     \<and> is_valid_hugging_face_component (identity_component 1 huggingface_id)
     \<and> \<not> suffix ''.git'' (identity_component 1 huggingface_id)"

definition is_valid_immutable_revision :: "string \<Rightarrow> bool" where
  "is_valid_immutable_revision revision \<longleftrightarrow>
     length revision = 40 \<and> list_all is_lowercase_hex_character revision"

definition ends_with_slash :: "string \<Rightarrow> bool" where
  "ends_with_slash p \<longleftrightarrow> p \<noteq> [] \<and> last p = slash"

definition strip_slash_suffix :: "string \<Rightarrow> string" where
  "strip_slash_suffix p = (if ends_with_slash p then butlast p else p)"

definition trim_end_slashes :: "string \<Rightarrow> string" where
  "trim_end_slashes p = rev (dropWhile (\<lambda>c. c = slash) (rev p))"

definition is_valid_included_path :: "string \<Rightarrow> bool" where
  "is_valid_included_path included_path =
     (if included_path = [] \<or> 1024 < length included_path \<or> \<not> is_ascii included_path
         \<or> CHR 0x5C \<in> set included_path \<or> list_ex is_control included_path \<or> hd included_path = slash
      then False
      else let path_without_directory_marker = strip_slash_suffix included_path
           in if path_without_directory_marker = [] \<or> ends_with_slash path_without_directory_marker then False
              else is_canonical_ascii_path path_without_directory_marker 1024)"

definition selectors_overlap :: "string \<Rightarrow> string \<Rightarrow> bool" where
  "selectors_overlap first_path second_path \<longleftrightarrow>
     trim_end_slashes first_path = trim_end_slashes second_path
     \<or> ends_with_slash first_path \<and> prefix first_path second_path
     \<or> ends_with_slash second_path \<and> prefix second_path first_path"

record DownloadPathSelection =
  ps_included_paths :: "string list option"

definition select_path_step :: "string list \<Rightarrow> string \<Rightarrow> unit + string list" where
  "select_path_step validated_paths included_path =
     (if \<not> is_valid_included_path included_path then Inl ()
      else let normalized_path = to_ascii_lowercase included_path
           in if list_ex (\<lambda>existing_path. selectors_overlap existing_path normalized_path) validated_paths
              then Inl () else Inr (validated_paths @ [normalized_path]))"

definition path_selection_try_new :: "string list option \<Rightarrow> unit + DownloadPathSelection" where
  "path_selection_try_new included_paths =
     (case included_paths of
        None \<Rightarrow> Inr \<lparr>ps_included_paths = None\<rparr>
      | Some paths \<Rightarrow>
          if paths = [] \<or> 64 < length paths then Inl ()
          else result_bind (try_fold select_path_step [] paths)
                 (\<lambda>validated. Inr \<lparr>ps_included_paths = Some validated\<rparr>))"

definition selector_matches :: "string \<Rightarrow> string \<Rightarrow> bool" where
  "selector_matches included_path normalized_path =
     (if ends_with_slash included_path then prefix included_path normalized_path else normalized_path = included_path)"

definition path_selection_includes :: "DownloadPathSelection \<Rightarrow> string \<Rightarrow> bool" where
  "path_selection_includes self relative_path =
     (case ps_included_paths self of
        None \<Rightarrow> True
      | Some included_paths \<Rightarrow>
          let normalized_path = to_ascii_lowercase relative_path
          in list_ex (\<lambda>included_path. selector_matches included_path normalized_path) included_paths)"

section \<open>Lemmas\<close>

lemma split_on_nonempty [simp]: "split_on c s \<noteq> []"
  by (induction s) (auto split: list.split)

lemma join_split: "join_with c (split_on c s) = s"
proof (induction s)
  case (Cons x s)
  obtain y ys where split: "split_on c s = y # ys" by (cases "split_on c s") simp_all
  then show ?case using Cons.IH by (cases ys) auto
qed simp

lemma split_on_no_separator: "c \<notin> set s \<Longrightarrow> split_on c s = [s]"
  by (induction s) auto

lemma split_on_append: "c \<notin> set s \<Longrightarrow> split_on c (s @ c # t) = s # split_on c t"
  by (induction s) auto

lemma split_join:
  "\<lbrakk>ss \<noteq> []; \<forall>s \<in> set ss. c \<notin> set s\<rbrakk> \<Longrightarrow> split_on c (join_with c ss) = ss"
  by (induction c ss rule: join_with.induct) (auto simp: split_on_no_separator split_on_append)

lemma split_on_members: "s \<in> set (split_on c p) \<Longrightarrow> c \<notin> set s"
proof (induction p arbitrary: s)
  case (Cons x p)
  obtain y ys where split: "split_on c p = y # ys" by (cases "split_on c p") simp_all
  with Cons show ?case by (auto split: if_splits)
qed simp

lemma relative_component_cases:
  "relative_component s = None \<longleftrightarrow> s = [] \<or> s = ''.''"
  "relative_component s = Some x \<Longrightarrow> is_normal x \<Longrightarrow> x = Normal s \<and> s \<noteq> [] \<and> s \<noteq> ''.'' \<and> s \<noteq> ''..''"
  by (auto simp: relative_component_def split: if_splits)

lemma map_filter_all_normal:
  assumes "list_all is_normal (List.map_filter relative_component ss)"
  shows "map component_string (List.map_filter relative_component ss) = filter (\<lambda>s. s \<noteq> [] \<and> s \<noteq> ''.'') ss
    \<and> (\<forall>s \<in> set ss. s \<noteq> ''..'')"
  using assms
proof (induction ss)
  case (Cons s ss)
  then show ?case
    by (auto simp: List.map_filter_simps relative_component_def split: if_splits)
qed (simp add: List.map_filter_simps)

lemma map_filter_canonical:
  assumes "list_all (\<lambda>s. s \<noteq> [] \<and> s \<noteq> ''.'' \<and> s \<noteq> ''..'') ss"
  shows "List.map_filter relative_component ss = map Normal ss"
  using assms by (induction ss) (auto simp: List.map_filter_simps relative_component_def)

lemma relative_unix_components:
  assumes "\<not> is_absolute p"
  shows "unix_components p = (if hd (split_on slash p) = ''.'' then [CurDir] else [])
    @ List.map_filter relative_component (split_on slash p)"
  using assms unfolding unix_components_def is_absolute_def by (simp only: if_False)

lemma normal_without_current:
  "list_all is_normal (unix_components p) \<Longrightarrow> \<not> is_absolute p \<Longrightarrow>
   unix_components p = List.map_filter relative_component (split_on slash p)"
  by (cases "hd (split_on slash p) = ''.''") (simp_all only: relative_unix_components if_True if_False
    append_Cons append_Nil list.pred_inject is_normal.simps simp_thms)

lemma split_filtered:
  assumes "join_with slash (filter P (split_on slash p)) = p" "p \<noteq> []"
  shows "list_all P (split_on slash p)"
proof -
  have "filter P (split_on slash p) \<noteq> []" using assms by (metis join_with.simps(1))
  moreover have "\<forall>s \<in> set (filter P (split_on slash p)). slash \<notin> set s" using split_on_members by fastforce
  ultimately have "split_on slash (join_with slash (filter P (split_on slash p))) = filter P (split_on slash p)"
    by (rule split_join)
  then have "split_on slash p = filter P (split_on slash p)" using assms(1) by (simp only:)
  then have "\<forall>s \<in> set (split_on slash p). P s" by (metis filter_id_conv)
  then show ?thesis by (simp add: list_all_iff)
qed

lemma normal_components_only_if:
  assumes relative: "\<not> is_absolute p" and normal: "list_all is_normal (unix_components p)"
    and joined: "join_with slash (map component_string (unix_components p)) = p" and p: "p \<noteq> []"
  shows "list_all (\<lambda>s. s \<noteq> [] \<and> s \<noteq> ''.'' \<and> s \<noteq> ''..'') (split_on slash p)"
proof -
  note comps = normal_without_current [OF normal relative]
  have names: "map component_string (List.map_filter relative_component (split_on slash p))
      = filter (\<lambda>s. s \<noteq> [] \<and> s \<noteq> ''.'') (split_on slash p)"
    and no_parent: "\<forall>s \<in> set (split_on slash p). s \<noteq> ''..''"
    using map_filter_all_normal [of "split_on slash p"] normal unfolding comps by blast+
  have "list_all (\<lambda>s. s \<noteq> [] \<and> s \<noteq> ''.'') (split_on slash p)"
    using joined p unfolding comps names by (rule split_filtered)
  then show ?thesis using no_parent by (simp only: list_all_iff) blast
qed

lemma normal_components_if:
  assumes relative: "\<not> is_absolute p"
    and canonical: "list_all (\<lambda>s. s \<noteq> [] \<and> s \<noteq> ''.'' \<and> s \<noteq> ''..'') (split_on slash p)"
  shows "list_all is_normal (unix_components p)" "join_with slash (map component_string (unix_components p)) = p"
proof -
  have "hd (split_on slash p) \<in> set (split_on slash p)" by simp
  then have "hd (split_on slash p) \<noteq> ''.''" using canonical unfolding list_all_iff by blast
  then have comps: "unix_components p = map Normal (split_on slash p)"
    unfolding relative_unix_components [OF relative] map_filter_canonical [OF canonical] by (simp only: if_False append_Nil)
  show "list_all is_normal (unix_components p)" unfolding comps by (simp add: list_all_iff)
  show "join_with slash (map component_string (unix_components p)) = p"
    unfolding comps by (simp add: comp_def join_split)
qed

text \<open>A path that starts with a separator has an empty first component.\<close>

lemma absolute_split: "is_absolute p \<Longrightarrow> [] \<in> set (split_on slash p)"
  by (cases p) (auto simp: is_absolute_def)

lemma check_with_components:
  "\<lbrakk>\<not> absolute; normal \<and> joined \<and> \<not> emptyp \<longrightarrow> canonical; canonical \<longrightarrow> normal \<and> joined\<rbrakk> \<Longrightarrow>
   (if emptyp \<or> long \<or> \<not> ascii \<or> backslash \<or> control then False
    else if absolute \<or> \<not> normal then False else joined) \<longleftrightarrow>
   (\<not> emptyp \<and> \<not> long \<and> ascii \<and> \<not> backslash \<and> \<not> control \<and> canonical)"
  by (cases emptyp; cases normal; cases joined; cases canonical; cases absolute) simp_all

lemma safe_iff_canonical: "is_safe_relative_path p \<longleftrightarrow> is_canonical_ascii_path p 1024"
proof (cases "is_absolute p")
  case True
  then have "[] \<in> set (split_on slash p)" by (rule absolute_split)
  then have "\<not> is_canonical_ascii_path p 1024" unfolding is_canonical_ascii_path_def list_all_iff by blast
  with True show ?thesis by (simp add: is_safe_relative_path_def)
next
  case False
  show ?thesis
    unfolding is_safe_relative_path_def is_canonical_ascii_path_def MAXIMUM_RELATIVE_PATH_BYTES_def linorder_not_less [symmetric]
    by (rule check_with_components [OF False])
      (use normal_components_only_if [OF False] normal_components_if [OF False] in blast)+
qed

text \<open>Ancestors and descendants.\<close>

lemma has_ancestor_in_iff:
  "has_ancestor_in paths a rest \<longleftrightarrow> (\<exists>i < length rest. rest ! i = slash \<and> a @ take i rest \<in> set paths)"
proof (induction rest arbitrary: a)
  case (Cons c rest)
  have "(\<exists>i < length (c # rest). (c # rest) ! i = slash \<and> a @ take i (c # rest) \<in> set paths) \<longleftrightarrow>
      c = slash \<and> a \<in> set paths \<or> (\<exists>i < length rest. rest ! i = slash \<and> (a @ [c]) @ take i rest \<in> set paths)"
    by (auto simp: less_Suc_eq_0_disj)
  then show ?case using Cons.IH [of "a @ [c]"] by auto
qed simp

lemma prefix_at_separator:
  "(\<exists>i < length c. c ! i = x \<and> take i c = p) \<longleftrightarrow> prefix (p @ [x]) c"
proof
  assume "\<exists>i < length c. c ! i = x \<and> take i c = p"
  then obtain i where i: "i < length c" "c ! i = x" "take i c = p" by blast
  then have "take (Suc i) c = p @ [x]" by (simp add: take_Suc_conv_app_nth)
  then show "prefix (p @ [x]) c" by (metis take_is_prefix)
next
  assume "prefix (p @ [x]) c"
  then obtain s where "c = p @ x # s" by (auto simp: prefix_def)
  then show "\<exists>i < length c. c ! i = x \<and> take i c = p" by (intro exI [of _ "length p"]) simp
qed

lemma has_ancestor_iff: "has_ancestor_in paths [] c \<longleftrightarrow> (\<exists>p \<in> set paths. prefix (p @ [slash]) c)"
    unfolding has_ancestor_in_iff append_Nil by (metis prefix_at_separator)

lemma hub_ancestor_agrees: "hub_has_ancestor_path paths c \<longleftrightarrow> has_ancestor_in paths [] c"
  by (auto simp: hub_has_ancestor_path_def has_ancestor_in_iff list_ex_iff)

lemma between_prefixes: "\<lbrakk>d \<le> x; x \<le> y; prefix d y\<rbrakk> \<Longrightarrow> prefix d (x :: string)"
proof (induction d arbitrary: x y)
  case (Cons a d)
  obtain y' where y: "y = a # y'" "prefix d y'" using Cons.prems(3) by (cases y) auto
  have "x \<noteq> []" using Cons.prems(1) by (cases x) simp_all
  then obtain b x' where x: "x = b # x'" by (cases x) simp_all
  have ab: "a < b \<or> a = b \<and> d \<le> x'" using Cons.prems(1) unfolding x by (simp only: Cons_le_Cons)
  have ba: "b < a \<or> b = a \<and> x' \<le> y'" using Cons.prems(2) unfolding x y(1) by (simp only: Cons_le_Cons)
  have "b = a" "d \<le> x'" "x' \<le> y'" using ab ba by (meson order_less_asym)+
  then show ?case using Cons.IH [of x' y'] y(2) by (simp add: x)
qed simp

lemma prefix_le: "prefix d (y :: string) \<Longrightarrow> d \<le> y"
proof (induction d arbitrary: y)
  case (Cons a d)
  then show ?case by (cases y) auto
qed simp

lemma has_descendant_iff:
  assumes "sorted paths"
  shows "has_descendant_path paths c \<longleftrightarrow> (\<exists>p \<in> set paths. prefix (c @ [slash]) p)"
proof -
  let ?d = "c @ [slash]"
  have take_iff: "take (length ?d) p = ?d \<longleftrightarrow> prefix ?d p" for p :: string
    by (metis append_eq_conv_conj append_take_drop_id prefix_def)
  show ?thesis
  proof (cases "find (\<lambda>p. ?d \<le> p) paths")
    case None
    then have "\<not> ?d \<le> p" if "p \<in> set paths" for p using that by (simp add: find_None_iff)
    then have "\<not> (\<exists>p \<in> set paths. prefix ?d p)" using prefix_le by blast
    moreover have "\<not> has_descendant_path paths c" using None by (simp add: has_descendant_path_def Let_def)
    ultimately show ?thesis by simp
  next
    case (Some q)
    then obtain i where i: "i < length paths" "q = paths ! i" "?d \<le> q" "\<forall>j < i. \<not> ?d \<le> paths ! j"
      by (auto simp: find_Some_iff)
    have "prefix ?d q" if "p \<in> set paths" "prefix ?d p" for p
    proof -
      obtain j where j: "j < length paths" "p = paths ! j" using \<open>p \<in> set paths\<close> by (auto simp: in_set_conv_nth)
      have "?d \<le> p" using that(2) by (rule prefix_le)
      then have "i \<le> j" using i(4) j(2) by (meson not_le)
      then have "q \<le> p" using assms i(2) j by (simp add: sorted_nth_mono)
      then show ?thesis using between_prefixes [OF i(3) _ that(2)] by blast
    qed
    moreover have "has_descendant_path paths c \<longleftrightarrow> prefix ?d q"
      using take_iff [of q] Some by (simp add: has_descendant_path_def Let_def)
    moreover have "q \<in> set paths" using i by simp
    ultimately show ?thesis by blast
  qed
qed

lemma hierarchy_conflict_iff:
  "sorted paths \<Longrightarrow> has_path_hierarchy_conflict paths c \<longleftrightarrow>
     (\<exists>p \<in> set paths. prefix (p @ [slash]) c \<or> prefix (c @ [slash]) p)"
  by (auto simp: has_path_hierarchy_conflict_def has_ancestor_iff has_descendant_iff)

text \<open>The sorted set of paths.\<close>

lemma set_path_insert [simp]: "set (path_insert p qs) = insert p (set qs)"
  by (induction qs) auto

lemma sorted_path_insert: "sorted qs \<Longrightarrow> sorted (path_insert p qs)"
  by (induction qs) auto

text \<open>Selectors: two that match the same path overlap.\<close>

lemma matching_selectors_overlap:
  assumes "selector_matches s p" "selector_matches t p"
  shows "selectors_overlap s t"
proof (cases "ends_with_slash s \<and> ends_with_slash t")
  case True
  then have "prefix s p" "prefix t p" using assms by (simp_all add: selector_matches_def)
  then have "prefix s t \<or> prefix t s" by (metis prefix_same_cases)
  with True show ?thesis by (auto simp: selectors_overlap_def)
next
  case False
  with assms show ?thesis by (auto simp: selectors_overlap_def selector_matches_def split: if_splits)
qed

definition selectors_apart :: "string list \<Rightarrow> bool" where
  "selectors_apart paths \<longleftrightarrow> sorted_wrt (\<lambda>s t. \<not> selectors_overlap s t) paths"

lemma select_path_step_Inr:
  "select_path_step validated p = Inr v \<longleftrightarrow>
     is_valid_included_path p \<and> (\<forall>s \<in> set validated. \<not> selectors_overlap s (to_ascii_lowercase p))
     \<and> v = validated @ [to_ascii_lowercase p]"
  by (auto simp: select_path_step_def Let_def list_ex_iff)

lemma select_path_fold_Inr:
  "selectors_apart validated \<Longrightarrow> try_fold select_path_step validated paths = Inr v \<longleftrightarrow>
     list_all is_valid_included_path paths \<and> selectors_apart (validated @ map to_ascii_lowercase paths)
     \<and> v = validated @ map to_ascii_lowercase paths"
proof (induction paths arbitrary: validated)
  case (Cons p paths)
  let ?p = "to_ascii_lowercase p"
  have "try_fold select_path_step validated (p # paths) = Inr v \<longleftrightarrow>
      (\<exists>w. select_path_step validated p = Inr w \<and> try_fold select_path_step w paths = Inr v)"
    by (auto split: sum.splits)
  also have "\<dots> \<longleftrightarrow> is_valid_included_path p \<and> (\<forall>s \<in> set validated. \<not> selectors_overlap s ?p)
      \<and> try_fold select_path_step (validated @ [?p]) paths = Inr v"
    by (auto simp: select_path_step_Inr)
  also have "\<dots> \<longleftrightarrow> is_valid_included_path p \<and> selectors_apart (validated @ [?p])
      \<and> try_fold select_path_step (validated @ [?p]) paths = Inr v"
    using Cons.prems by (auto simp: selectors_apart_def sorted_wrt_append)
  also have "\<dots> \<longleftrightarrow> is_valid_included_path p \<and> selectors_apart (validated @ [?p])
      \<and> list_all is_valid_included_path paths \<and> selectors_apart ((validated @ [?p]) @ map to_ascii_lowercase paths)
      \<and> v = (validated @ [?p]) @ map to_ascii_lowercase paths"
    using Cons.IH [of "validated @ [?p]"] by blast
  finally show ?case by (auto simp: selectors_apart_def sorted_wrt_append)
qed auto

lemma path_selection_exact:
  "path_selection_try_new (Some paths) = Inr selection \<longleftrightarrow>
     1 \<le> length paths \<and> length paths \<le> 64 \<and> list_all is_valid_included_path paths
     \<and> sorted_wrt (\<lambda>s t. \<not> selectors_overlap s t) (map to_ascii_lowercase paths)
     \<and> selection = \<lparr>ps_included_paths = Some (map to_ascii_lowercase paths)\<rparr>"
  using select_path_fold_Inr [of "[]" paths]
  by (cases paths) (auto simp: path_selection_try_new_def selectors_apart_def)

lemma apart_at_most_one:
  "sorted_wrt (\<lambda>s t. \<not> selectors_overlap s t) v \<Longrightarrow> length (filter (\<lambda>s. selector_matches s p) v) \<le> 1"
proof (induction v)
  case (Cons s v)
  show ?case
  proof (cases "selector_matches s p")
    case True
    have "\<not> selector_matches t p" if "t \<in> set v" for t
      using Cons.prems that matching_selectors_overlap [OF True] by auto
    then have "filter (\<lambda>t. selector_matches t p) v = []" by (simp add: filter_empty_conv)
    with True show ?thesis by simp
  next
    case False
    with Cons show ?thesis by simp
  qed
qed simp

section \<open>Properties\<close>

text \<open>The two components that check paths agree: the durable job accepts a relative path exactly when the
  hub accepts it under the default limit, although one reads the components of the operating system's path
  parser and the other splits the text; and both find the same ancestors among known paths.\<close>

lemma path_checks_agree:
  "(is_safe_relative_path p \<longleftrightarrow> is_canonical_ascii_path p 1024)
   \<and> (hub_has_ancestor_path paths p \<longleftrightarrow> has_ancestor_in paths [] p)"
  using safe_iff_canonical hub_ancestor_agrees by blast

text \<open>A selection of files that was accepted reads each path of the repository through at most one of its
  selectors, and includes exactly the paths that one of the authored selectors names, whatever their case.\<close>

lemma selection_unambiguous:
  assumes "path_selection_try_new (Some paths) = Inr selection"
  shows "(path_selection_includes selection p \<longleftrightarrow>
      (\<exists>s \<in> set paths. selector_matches (to_ascii_lowercase s) (to_ascii_lowercase p)))
    \<and> length (filter (\<lambda>s. selector_matches (to_ascii_lowercase s) (to_ascii_lowercase p)) paths) \<le> 1"
proof -
  have ok: "sorted_wrt (\<lambda>s t. \<not> selectors_overlap s t) (map to_ascii_lowercase paths)"
    "selection = \<lparr>ps_included_paths = Some (map to_ascii_lowercase paths)\<rparr>"
    using assms unfolding path_selection_exact by blast+
  show ?thesis
    using apart_at_most_one [OF ok(1), of "to_ascii_lowercase p"]
    by (auto simp: path_selection_includes_def ok(2) Let_def list_ex_iff filter_map comp_def)
qed

end
