(* ===== verification/Download_Job.thy ===== *)
theory Download_Job
  imports Download_Path
begin

text \<open>
  The durable state of one model download, \<^verbatim>\<open>download/job/download_job.rs\<close> and
  \<^verbatim>\<open>download_job/transitions.rs\<close> (under \<^verbatim>\<open>apps/daemon/src/library\<close>), with the digests of
  \<^verbatim>\<open>download/transfer/file_digest.rs\<close>. A method that takes \<^verbatim>\<open>&mut self\<close> is a function that returns its
  result beside the job it leaves behind, so a failing call that has already written to the job shows.
  File indexes are natural numbers (a job holds at most 65536 files).
\<close>

section \<open>Data\<close>

datatype DownloadFileDigest = Sha256 string | GitBlobSha1 string

fun digest_is_valid :: "DownloadFileDigest \<Rightarrow> bool" where
  "digest_is_valid (Sha256 digest) = is_lowercase_hex digest 64"
| "digest_is_valid (GitBlobSha1 digest) = is_lowercase_hex digest 40"

fun digest_hex :: "DownloadFileDigest \<Rightarrow> string" where
  "digest_hex (Sha256 digest) = digest"
| "digest_hex (GitBlobSha1 digest) = digest"

datatype DownloadJobState =
  CheckingDisk | FetchingManifest | Downloading | Paused | Verifying | Publishing | Failed

datatype DownloadJobPublicErrorCode =
  LibraryBusy | CatalogEntryNotFound | ModelNotPublic | InsufficientDisk | DownloadGated | ChecksumMismatch
| DownloadFailed | ModelAlreadyPresent | ModelNotExecutable

datatype DownloadJobError =
  DocumentTooLarge | ParseError | InvalidHuggingFaceId | InvalidRevision | TooManyFiles
| UnsafeRelativePath nat | DuplicateFilePath | FilePathHierarchyConflict | InvalidDigest nat
| InvalidFileProgress nat | InconsistentByteTotals | InvalidCurrentFile | InvalidErrorState
| InvalidStateTransition

record DownloadJobFile =
  df_relative_path :: string
  df_expected_bytes :: u64
  df_expected_digest :: DownloadFileDigest
  df_bytes_on_disk :: u64

record DownloadJob =
  dj_huggingface_id :: string
  dj_revision :: string
  dj_state :: DownloadJobState
  dj_bytes_completed :: u64
  dj_bytes_total :: u64
  dj_current_file_relative_path :: "string option"
  dj_files :: "DownloadJobFile list"
  dj_error_code :: "DownloadJobPublicErrorCode option"
  dj_updated_at_unix_millis :: u64

definition MAXIMUM_DOWNLOAD_JOB_FILE_COUNT :: nat where
  "MAXIMUM_DOWNLOAD_JOB_FILE_COUNT = 65536"

definition MAXIMUM_JAVASCRIPT_SAFE_INTEGER :: u64 where
  "MAXIMUM_JAVASCRIPT_SAFE_INTEGER = 9007199254740991"

definition has_exact_manifest :: "DownloadJob \<Rightarrow> bool" where
  "has_exact_manifest self \<longleftrightarrow> dj_files self \<noteq> []"

definition remaining_bytes :: "DownloadJob \<Rightarrow> u64" where
  "remaining_bytes self = dj_bytes_total self - dj_bytes_completed self"

definition is_interrupted_by_restart :: "DownloadJobState \<Rightarrow> bool" where
  "is_interrupted_by_restart self \<longleftrightarrow> self \<in> {CheckingDisk, FetchingManifest, Downloading, Verifying}"

definition can_replace_with :: "DownloadJobState \<Rightarrow> DownloadJobState \<Rightarrow> bool" where
  "can_replace_with self replacement_state \<longleftrightarrow>
     (case self of
        CheckingDisk \<Rightarrow> replacement_state \<in> {CheckingDisk, FetchingManifest, Failed}
      | FetchingManifest \<Rightarrow> replacement_state \<in> {FetchingManifest, Paused, Failed}
      | Downloading \<Rightarrow> replacement_state \<in> {Downloading, Paused, Verifying, Failed}
      | Paused \<Rightarrow> replacement_state \<in> {Paused, FetchingManifest, Downloading, Failed}
      | Verifying \<Rightarrow> replacement_state \<in> {Verifying, Paused, Publishing, Failed}
      | Publishing \<Rightarrow> replacement_state = Publishing
      | Failed \<Rightarrow> replacement_state \<in> {Failed, FetchingManifest, Downloading})"

section \<open>Validation\<close>

type_synonym validated_files = "string list \<times> u64 \<times> u64"

definition validate_file :: "validated_files \<Rightarrow> nat \<times> DownloadJobFile \<Rightarrow> DownloadJobError + validated_files" where
  "validate_file acc indexed_file =
     (case (acc, indexed_file) of
       ((normalized_relative_paths, expected_bytes_total, completed_bytes_total), (file_index, download_file)) \<Rightarrow>
         if \<not> is_safe_relative_path (df_relative_path download_file) then Inl (UnsafeRelativePath file_index)
         else let normalized_relative_path = to_ascii_lowercase (df_relative_path download_file)
              in if has_path_hierarchy_conflict normalized_relative_paths normalized_relative_path
                 then Inl FilePathHierarchyConflict
                 else if normalized_relative_path \<in> set normalized_relative_paths then Inl DuplicateFilePath
                 else if \<not> digest_is_valid (df_expected_digest download_file) then Inl (InvalidDigest file_index)
                 else if df_expected_bytes download_file < df_bytes_on_disk download_file
                 then Inl (InvalidFileProgress file_index)
                 else result_bind (ok_or (checked_add expected_bytes_total (df_expected_bytes download_file)) InconsistentByteTotals)
                   (\<lambda>expected_bytes_total.
                      result_bind (ok_or (checked_add completed_bytes_total (df_bytes_on_disk download_file)) InconsistentByteTotals)
                        (\<lambda>completed_bytes_total.
                           Inr (path_insert normalized_relative_path normalized_relative_paths,
                                expected_bytes_total, completed_bytes_total))))"

definition validate_totals :: "DownloadJob \<Rightarrow> u64 \<Rightarrow> u64 \<Rightarrow> DownloadJobError + unit" where
  "validate_totals self expected_bytes_total completed_bytes_total =
     (if MAXIMUM_JAVASCRIPT_SAFE_INTEGER < dj_bytes_total self \<or> dj_bytes_total self = 0
         \<or> dj_bytes_total self < dj_bytes_completed self
         \<or> dj_bytes_completed self \<noteq> completed_bytes_total
         \<or> (dj_files self \<noteq> [] \<and> dj_bytes_total self \<noteq> expected_bytes_total)
      then Inl InconsistentByteTotals
      else if dj_files self = [] \<and> dj_bytes_completed self \<noteq> 0 then Inl InconsistentByteTotals
      else Inr ())"

definition validate_state :: "DownloadJob \<Rightarrow> DownloadJobError + unit" where
  "validate_state self =
     (case dj_state self of
        CheckingDisk \<Rightarrow> if dj_files self \<noteq> [] then Inl InconsistentByteTotals else Inr ()
      | FetchingManifest \<Rightarrow> if dj_files self \<noteq> [] then Inl InconsistentByteTotals else Inr ()
      | Downloading \<Rightarrow> if dj_files self = [] then Inl InconsistentByteTotals else Inr ()
      | Verifying \<Rightarrow> if dj_files self = [] \<or> dj_bytes_completed self \<noteq> dj_bytes_total self
                    then Inl InconsistentByteTotals else Inr ()
      | Publishing \<Rightarrow> if dj_files self = [] \<or> dj_bytes_completed self \<noteq> dj_bytes_total self
                    then Inl InconsistentByteTotals else Inr ()
      | Paused \<Rightarrow> Inr ()
      | Failed \<Rightarrow> Inr ())"

definition validate_current_file :: "DownloadJob \<Rightarrow> DownloadJobError + unit" where
  "validate_current_file self =
     (case dj_current_file_relative_path self of
        None \<Rightarrow> Inr ()
      | Some current_file_relative_path \<Rightarrow>
          if dj_state self \<noteq> Downloading
             \<or> \<not> list_ex (\<lambda>f. df_relative_path f = current_file_relative_path) (dj_files self)
          then Inl InvalidCurrentFile else Inr ())"

definition job_validate :: "DownloadJob \<Rightarrow> DownloadJobError + unit" where
  "job_validate self =
     (if \<not> is_valid_huggingface_id (dj_huggingface_id self) then Inl InvalidHuggingFaceId
      else if \<not> is_valid_immutable_revision (dj_revision self) then Inl InvalidRevision
      else if MAXIMUM_DOWNLOAD_JOB_FILE_COUNT < length (dj_files self) then Inl TooManyFiles
      else result_bind (try_fold validate_file ([], 0, 0) (List.enumerate 0 (dj_files self)))
        (\<lambda>(normalized_relative_paths, expected_bytes_total, completed_bytes_total).
           result_bind (validate_totals self expected_bytes_total completed_bytes_total)
             (\<lambda>_. result_bind (validate_state self)
               (\<lambda>_. result_bind (validate_current_file self)
                 (\<lambda>_. if (dj_state self = Failed) \<noteq> (dj_error_code self \<noteq> None) then Inl InvalidErrorState
                      else Inr ())))))"

section \<open>Creation\<close>

definition new_checking_disk :: "string \<Rightarrow> string \<Rightarrow> u64 \<Rightarrow> u64 \<Rightarrow> DownloadJobError + DownloadJob" where
  "new_checking_disk huggingface_id revision catalog_approximate_bytes updated_at_unix_millis =
     (let download_job =
        \<lparr>dj_huggingface_id = huggingface_id, dj_revision = revision, dj_state = CheckingDisk,
         dj_bytes_completed = 0, dj_bytes_total = catalog_approximate_bytes,
         dj_current_file_relative_path = None, dj_files = [], dj_error_code = None,
         dj_updated_at_unix_millis = updated_at_unix_millis\<rparr>
      in result_bind (job_validate download_job) (\<lambda>_. Inr download_job))"

text \<open>
  \<^verbatim>\<open>parse_json\<close>: the JSON decoder is a parameter, with the byte length of the document.
\<close>

definition job_parse_json :: "(string \<Rightarrow> DownloadJob option) \<Rightarrow> string \<Rightarrow> DownloadJobError + DownloadJob" where
  "job_parse_json from_str job_json =
     (if 8000000 < length job_json then Inl DocumentTooLarge
      else case from_str job_json of
             None \<Rightarrow> Inl ParseError
           | Some download_job \<Rightarrow> result_bind (job_validate download_job) (\<lambda>_. Inr download_job))"

section \<open>Operations\<close>

type_synonym job_result = "(DownloadJobError + unit) \<times> DownloadJob"

definition validated :: "DownloadJob \<Rightarrow> job_result" where
  "validated self = (job_validate self, self)"

definition mark_fetching_manifest :: "DownloadJob \<Rightarrow> u64 \<Rightarrow> job_result" where
  "mark_fetching_manifest self updated_at =
     (if has_exact_manifest self \<or> dj_state self \<notin> {CheckingDisk, Paused, Failed}
      then (Inl InvalidStateTransition, self)
      else validated (self\<lparr>dj_state := FetchingManifest, dj_error_code := None,
                           dj_updated_at_unix_millis := updated_at\<rparr>))"

definition mark_downloading :: "DownloadJob \<Rightarrow> u64 \<Rightarrow> job_result" where
  "mark_downloading self updated_at =
     (if \<not> has_exact_manifest self \<or> dj_state self \<notin> {Paused, Failed}
      then (Inl InvalidStateTransition, self)
      else validated (self\<lparr>dj_state := Downloading, dj_error_code := None,
                           dj_current_file_relative_path := None, dj_updated_at_unix_millis := updated_at\<rparr>))"

definition select_download_file :: "DownloadJob \<Rightarrow> string \<Rightarrow> u64 \<Rightarrow> job_result" where
  "select_download_file self relative_path updated_at =
     (if dj_state self \<noteq> Downloading
         \<or> \<not> list_ex (\<lambda>f. df_relative_path f = relative_path \<and> df_bytes_on_disk f < df_expected_bytes f) (dj_files self)
      then (Inl InvalidStateTransition, self)
      else validated (self\<lparr>dj_current_file_relative_path := Some relative_path,
                           dj_updated_at_unix_millis := updated_at\<rparr>))"

text \<open>\<^verbatim>\<open>Iterator::position\<close> of the file with a path.\<close>

fun file_position :: "string \<Rightarrow> DownloadJobFile list \<Rightarrow> nat option" where
  "file_position relative_path [] = None"
| "file_position relative_path (f # fs) =
     (if df_relative_path f = relative_path then Some 0 else map_option Suc (file_position relative_path fs))"

definition record_file_progress :: "DownloadJob \<Rightarrow> string \<Rightarrow> u64 \<Rightarrow> u64 \<Rightarrow> job_result" where
  "record_file_progress self relative_path bytes_on_disk updated_at =
     (if dj_state self \<noteq> Downloading then (Inl InvalidStateTransition, self)
      else case file_position relative_path (dj_files self) of
        None \<Rightarrow> (Inl InvalidStateTransition, self)
      | Some file_index \<Rightarrow>
          let download_file = dj_files self ! file_index
          in if bytes_on_disk < df_bytes_on_disk download_file \<or> df_expected_bytes download_file < bytes_on_disk
             then (Inl (InvalidFileProgress file_index), self)
             else let progress_increment = bytes_on_disk - df_bytes_on_disk download_file;
                      self1 = self\<lparr>dj_files := (dj_files self)[file_index := download_file\<lparr>df_bytes_on_disk := bytes_on_disk\<rparr>]\<rparr>
                  in case checked_add (dj_bytes_completed self) progress_increment of
                       None \<Rightarrow> (Inl InconsistentByteTotals, self1)
                     | Some bytes_completed \<Rightarrow>
                         let self2 = self1\<lparr>dj_bytes_completed := bytes_completed\<rparr>;
                             self3 = (if bytes_on_disk = df_expected_bytes download_file
                                         \<and> dj_current_file_relative_path self2 = Some relative_path
                                      then self2\<lparr>dj_current_file_relative_path := None\<rparr> else self2)
                         in validated (self3\<lparr>dj_updated_at_unix_millis := updated_at\<rparr>))"

definition mark_verifying :: "DownloadJob \<Rightarrow> u64 \<Rightarrow> job_result" where
  "mark_verifying self updated_at =
     (if dj_state self \<noteq> Downloading \<or> dj_bytes_completed self \<noteq> dj_bytes_total self
      then (Inl InvalidStateTransition, self)
      else validated (self\<lparr>dj_state := Verifying, dj_current_file_relative_path := None,
                           dj_updated_at_unix_millis := updated_at\<rparr>))"

definition mark_publishing :: "DownloadJob \<Rightarrow> u64 \<Rightarrow> job_result" where
  "mark_publishing self updated_at =
     (if dj_state self \<noteq> Verifying then (Inl InvalidStateTransition, self)
      else validated (self\<lparr>dj_state := Publishing, dj_updated_at_unix_millis := updated_at\<rparr>))"

definition mark_failed :: "DownloadJob \<Rightarrow> DownloadJobPublicErrorCode \<Rightarrow> u64 \<Rightarrow> job_result" where
  "mark_failed self error_code updated_at =
     (if dj_state self = Publishing then (Inl InvalidStateTransition, self)
      else validated (self\<lparr>dj_state := Failed, dj_error_code := Some error_code,
                           dj_current_file_relative_path := None, dj_updated_at_unix_millis := updated_at\<rparr>))"

definition mark_checksum_failed_for_retry :: "DownloadJob \<Rightarrow> string \<Rightarrow> u64 \<Rightarrow> job_result" where
  "mark_checksum_failed_for_retry self relative_path updated_at =
     (if dj_state self \<noteq> Verifying then (Inl InvalidStateTransition, self)
      else case file_position relative_path (dj_files self) of
        None \<Rightarrow> (Inl InvalidStateTransition, self)
      | Some file_index \<Rightarrow>
          let download_file = dj_files self ! file_index;
              invalid_file_bytes = df_bytes_on_disk download_file;
              self1 = self\<lparr>dj_files := (dj_files self)[file_index := download_file\<lparr>df_bytes_on_disk := 0\<rparr>]\<rparr>
          in case checked_sub (dj_bytes_completed self) invalid_file_bytes of
               None \<Rightarrow> (Inl InconsistentByteTotals, self1)
             | Some bytes_completed \<Rightarrow>
                 validated (self1\<lparr>dj_bytes_completed := bytes_completed, dj_state := Failed,
                                  dj_error_code := Some ChecksumMismatch, dj_current_file_relative_path := None,
                                  dj_updated_at_unix_millis := updated_at\<rparr>))"

text \<open>
  \<open>reconcile_files\<close> is the loop of \<open>reconcile_file_progress\<close>: it returns the files it leaves behind, which a
  failing file has already changed before its own position.
\<close>

fun reconcile_files ::
    "nat \<Rightarrow> u64 \<Rightarrow> DownloadJobFile list \<Rightarrow> u64 list \<Rightarrow> (DownloadJobError + u64) \<times> DownloadJobFile list" where
  "reconcile_files file_index bytes_completed (f # fs) (bytes_on_disk # rest) =
     (if df_expected_bytes f < bytes_on_disk then (Inl (InvalidFileProgress file_index), f # fs)
      else let f' = f\<lparr>df_bytes_on_disk := bytes_on_disk\<rparr>
           in case checked_add bytes_completed bytes_on_disk of
                None \<Rightarrow> (Inl InconsistentByteTotals, f' # fs)
              | Some bytes_completed' \<Rightarrow>
                  (case reconcile_files (Suc file_index) bytes_completed' fs rest of
                     (result, fs') \<Rightarrow> (result, f' # fs')))"
| "reconcile_files file_index bytes_completed fs _ = (Inr bytes_completed, fs)"

definition reconcile_file_progress :: "DownloadJob \<Rightarrow> u64 list \<Rightarrow> u64 \<Rightarrow> bool \<Rightarrow> job_result" where
  "reconcile_file_progress self bytes_on_disk_by_file updated_at should_pause_interrupted_state =
     (if length bytes_on_disk_by_file \<noteq> length (dj_files self) then (Inl InconsistentByteTotals, self)
      else case reconcile_files 0 0 (dj_files self) bytes_on_disk_by_file of
        (Inl e, files) \<Rightarrow> (Inl e, self\<lparr>dj_files := files\<rparr>)
      | (Inr bytes_completed, files) \<Rightarrow>
          let self1 = self\<lparr>dj_files := files, dj_bytes_completed := bytes_completed,
                           dj_current_file_relative_path := None\<rparr>;
              self2 = (if should_pause_interrupted_state \<and> is_interrupted_by_restart (dj_state self1)
                       then self1\<lparr>dj_state := Paused, dj_error_code := None\<rparr> else self1)
          in validated (self2\<lparr>dj_updated_at_unix_millis := updated_at\<rparr>))"

definition force_paused :: "DownloadJob \<Rightarrow> u64 \<Rightarrow> DownloadJob" where
  "force_paused self updated_at =
     self\<lparr>dj_state := Paused, dj_error_code := None, dj_current_file_relative_path := None,
          dj_updated_at_unix_millis := updated_at\<rparr>"

section \<open>Lemmas\<close>

text \<open>What validation means, without the order of the checks.\<close>

definition path_apart :: "string \<Rightarrow> string \<Rightarrow> bool" where
  "path_apart a b \<longleftrightarrow> a \<noteq> b \<and> \<not> prefix (a @ [slash]) b \<and> \<not> prefix (b @ [slash]) a"

definition normalized_path :: "DownloadJobFile \<Rightarrow> string" where
  "normalized_path f = to_ascii_lowercase (df_relative_path f)"

definition valid_file :: "DownloadJobFile \<Rightarrow> bool" where
  "valid_file f \<longleftrightarrow> is_safe_relative_path (df_relative_path f) \<and> digest_is_valid (df_expected_digest f)
     \<and> df_bytes_on_disk f \<le> df_expected_bytes f"

definition expected_sum :: "DownloadJobFile list \<Rightarrow> nat" where
  "expected_sum files = sum_list (map (\<lambda>f. unat (df_expected_bytes f)) files)"

definition on_disk_sum :: "DownloadJobFile list \<Rightarrow> nat" where
  "on_disk_sum files = sum_list (map (\<lambda>f. unat (df_bytes_on_disk f)) files)"

definition valid_identity :: "string \<Rightarrow> string \<Rightarrow> bool" where
  "valid_identity huggingface_id revision \<longleftrightarrow>
     is_valid_huggingface_id huggingface_id \<and> is_valid_immutable_revision revision"

definition valid_files :: "DownloadJobFile list \<Rightarrow> bool" where
  "valid_files files \<longleftrightarrow> length files \<le> 65536 \<and> (\<forall>f \<in> set files. valid_file f)
     \<and> sorted_wrt path_apart (map normalized_path files)"

definition valid_totals :: "DownloadJob \<Rightarrow> bool" where
  "valid_totals j \<longleftrightarrow> 0 < dj_bytes_total j \<and> dj_bytes_total j \<le> 9007199254740991
     \<and> unat (dj_bytes_completed j) = on_disk_sum (dj_files j)
     \<and> (dj_files j \<noteq> [] \<longrightarrow> unat (dj_bytes_total j) = expected_sum (dj_files j))"

definition valid_phase :: "DownloadJob \<Rightarrow> bool" where
  "valid_phase j \<longleftrightarrow>
     (dj_state j \<in> {CheckingDisk, FetchingManifest} \<longrightarrow> dj_files j = [])
     \<and> (dj_state j \<in> {Downloading, Verifying, Publishing} \<longrightarrow> dj_files j \<noteq> [])
     \<and> (dj_state j \<in> {Verifying, Publishing} \<longrightarrow> dj_bytes_completed j = dj_bytes_total j)
     \<and> (\<forall>p. dj_current_file_relative_path j = Some p \<longrightarrow>
          dj_state j = Downloading \<and> (\<exists>f \<in> set (dj_files j). df_relative_path f = p))
     \<and> (dj_state j = Failed \<longleftrightarrow> dj_error_code j \<noteq> None)"

definition valid_job :: "DownloadJob \<Rightarrow> bool" where
  "valid_job j \<longleftrightarrow> valid_identity (dj_huggingface_id j) (dj_revision j) \<and> valid_files (dj_files j)
     \<and> valid_totals j \<and> valid_phase j"

lemma file_sums_simps [simp]:
  "expected_sum [] = 0" "expected_sum (f # fs) = unat (df_expected_bytes f) + expected_sum fs"
  "on_disk_sum [] = 0" "on_disk_sum (f # fs) = unat (df_bytes_on_disk f) + on_disk_sum fs"
  by (simp_all add: expected_sum_def on_disk_sum_def)

lemma on_disk_le_expected: "\<forall>f \<in> set files. valid_file f \<Longrightarrow> on_disk_sum files \<le> expected_sum files"
  by (induction files) (auto simp: valid_file_def word_le_nat_alt add_mono)

lemma apart_conflict:
  "sorted paths \<Longrightarrow>
   (\<not> has_path_hierarchy_conflict paths c \<and> c \<notin> set paths) \<longleftrightarrow> (\<forall>p \<in> set paths. path_apart p c)"
  by (auto simp: hierarchy_conflict_iff path_apart_def)

lemma validate_file_Inr:
  assumes "sorted paths"
  shows "validate_file (paths, e, c) (i, f) = Inr (paths', e', c') \<longleftrightarrow>
    valid_file f \<and> (\<forall>p \<in> set paths. path_apart p (normalized_path f))
    \<and> paths' = path_insert (normalized_path f) paths
    \<and> unat e' = unat e + unat (df_expected_bytes f) \<and> unat c' = unat c + unat (df_bytes_on_disk f)"
  unfolding apart_conflict [OF assms, symmetric]
  by (auto simp: validate_file_def valid_file_def normalized_path_def Let_def checked_add_Some_iff not_less)

lemma validate_files_Inr:
  assumes "sorted paths"
  shows "(\<exists>paths'. try_fold validate_file (paths, e, c) (List.enumerate n files) = Inr (paths', e', c')) \<longleftrightarrow>
    (\<forall>f \<in> set files. valid_file f) \<and> (\<forall>p \<in> set paths. \<forall>f \<in> set files. path_apart p (normalized_path f))
    \<and> sorted_wrt path_apart (map normalized_path files)
    \<and> unat e' = unat e + expected_sum files \<and> unat c' = unat c + on_disk_sum files"
  using assms
proof (induction files arbitrary: paths e c n)
  case Nil
  then show ?case by (auto simp: word_unat_eq_iff)
next
  case (Cons f files)
  let ?insert = "path_insert (normalized_path f) paths"
  have "(\<exists>paths'. try_fold validate_file (paths, e, c) (List.enumerate n (f # files)) = Inr (paths', e', c')) \<longleftrightarrow>
      (\<exists>e1 c1. validate_file (paths, e, c) (n, f) = Inr (?insert, e1, c1)
        \<and> (\<exists>paths'. try_fold validate_file (?insert, e1, c1) (List.enumerate (Suc n) files) = Inr (paths', e', c')))"
    (is "?lhs \<longleftrightarrow> _")
  proof
    assume ?lhs
    then obtain paths' where "try_fold validate_file (paths, e, c) (List.enumerate n (f # files)) = Inr (paths', e', c')"
      by blast
    then obtain p1 e1 c1 where step: "validate_file (paths, e, c) (n, f) = Inr (p1, e1, c1)"
      and rest: "try_fold validate_file (p1, e1, c1) (List.enumerate (Suc n) files) = Inr (paths', e', c')"
      by (auto split: sum.splits)
    moreover have "p1 = ?insert" using step validate_file_Inr [OF Cons.prems] by blast
    ultimately show "\<exists>e1 c1. validate_file (paths, e, c) (n, f) = Inr (?insert, e1, c1)
        \<and> (\<exists>paths'. try_fold validate_file (?insert, e1, c1) (List.enumerate (Suc n) files) = Inr (paths', e', c'))" by blast
  qed auto
  also have "\<dots> \<longleftrightarrow> (\<exists>(e1 :: u64) (c1 :: u64). valid_file f \<and> (\<forall>p \<in> set paths. path_apart p (normalized_path f))
      \<and> unat e1 = unat e + unat (df_expected_bytes f) \<and> unat c1 = unat c + unat (df_bytes_on_disk f)
      \<and> (\<forall>f \<in> set files. valid_file f)
      \<and> (\<forall>p \<in> insert (normalized_path f) (set paths). \<forall>f \<in> set files. path_apart p (normalized_path f))
      \<and> sorted_wrt path_apart (map normalized_path files)
      \<and> unat e' = unat e1 + expected_sum files \<and> unat c' = unat c1 + on_disk_sum files)"
    unfolding Cons.IH [OF sorted_path_insert [OF Cons.prems, of "normalized_path f"]] validate_file_Inr [OF Cons.prems]
      set_path_insert by (simp only: simp_thms conj_assoc)
  also have "\<dots> \<longleftrightarrow> valid_file f \<and> (\<forall>p \<in> set paths. path_apart p (normalized_path f))
      \<and> (\<forall>f \<in> set files. valid_file f)
      \<and> (\<forall>p \<in> insert (normalized_path f) (set paths). \<forall>f \<in> set files. path_apart p (normalized_path f))
      \<and> sorted_wrt path_apart (map normalized_path files)
      \<and> unat e' = unat e + expected_sum (f # files) \<and> unat c' = unat c + on_disk_sum (f # files)"
    (is "(\<exists>e1 c1. ?P e1 c1) \<longleftrightarrow> ?Q")
  proof
    assume q: ?Q
    have "unat e + unat (df_expected_bytes f) < 2 ^ LENGTH(64)" "unat c + unat (df_bytes_on_disk f) < 2 ^ LENGTH(64)"
      using q u64_bound [of e'] u64_bound [of c'] by simp_all
    then have "unat (e + df_expected_bytes f) = unat e + unat (df_expected_bytes f)"
      "unat (c + df_bytes_on_disk f) = unat c + unat (df_bytes_on_disk f)" by (simp_all add: unat_add_exact)
    then have "?P (e + df_expected_bytes f) (c + df_bytes_on_disk f)" using q by simp
    then show "\<exists>e1 c1. ?P e1 c1" by blast
  qed auto
  finally show ?case by auto
qed

lemma validate_totals_Inr:
  assumes "unat e = expected_sum (dj_files j)" "unat c = on_disk_sum (dj_files j)" "\<forall>f \<in> set (dj_files j). valid_file f"
  shows "validate_totals j e c = Inr () \<longleftrightarrow> valid_totals j"
proof -
  have c: "dj_bytes_completed j = c \<longleftrightarrow> unat (dj_bytes_completed j) = on_disk_sum (dj_files j)"
    and e: "dj_bytes_total j = e \<longleftrightarrow> unat (dj_bytes_total j) = expected_sum (dj_files j)"
    using assms(1,2) by (simp_all add: word_unat_eq_iff)
  have le: "dj_bytes_completed j \<le> dj_bytes_total j" if "valid_totals j"
    using that on_disk_le_expected [OF assms(3)]
    by (cases "dj_files j = []") (simp_all add: valid_totals_def word_le_nat_alt)
  have zero: "dj_bytes_completed j = 0" if "valid_totals j" "dj_files j = []"
    using that by (simp add: valid_totals_def unat_eq_0)
  show ?thesis
  proof
    assume "validate_totals j e c = Inr ()"
    then show "valid_totals j"
      unfolding validate_totals_def valid_totals_def MAXIMUM_JAVASCRIPT_SAFE_INTEGER_def c [symmetric] e [symmetric]
        word_gt_0 by (auto split: if_splits)
  next
    assume v: "valid_totals j"
    show "validate_totals j e c = Inr ()"
      using v le [OF v] zero [OF v]
      unfolding validate_totals_def valid_totals_def MAXIMUM_JAVASCRIPT_SAFE_INTEGER_def c [symmetric] e [symmetric]
        word_gt_0 by (cases "dj_files j = []") (auto simp: not_less)
  qed
qed

lemma validate_phase_Inr:
  "(validate_state j = Inr () \<and> validate_current_file j = Inr ()
    \<and> (dj_state j = Failed) = (dj_error_code j \<noteq> None)) \<longleftrightarrow> valid_phase j"
  by (cases "dj_state j"; cases "dj_current_file_relative_path j")
    (simp_all add: validate_state_def validate_current_file_def valid_phase_def list_ex_iff)

lemma unit_result_bind_Inr: "result_bind r (\<lambda>_. f) = Inr () \<longleftrightarrow> r = Inr () \<and> f = Inr ()"
  by (cases r) auto

lemma sums_of_valid_totals:
  assumes "valid_totals j"
  shows "\<exists>(e :: u64) (c :: u64). unat e = expected_sum (dj_files j) \<and> unat c = on_disk_sum (dj_files j)"
proof -
  have "\<exists>e :: u64. unat e = expected_sum (dj_files j)"
  proof (cases "dj_files j = []")
    case True
    then show ?thesis by (intro exI [of _ 0]) simp
  next
    case False
    then show ?thesis using assms unfolding valid_totals_def by blast
  qed
  then obtain e :: u64 where "unat e = expected_sum (dj_files j)" ..
  moreover have "unat (dj_bytes_completed j) = on_disk_sum (dj_files j)" using assms by (simp add: valid_totals_def)
  ultimately show ?thesis by blast
qed

lemma job_validate_iff: "job_validate j = Inr () \<longleftrightarrow> valid_job j"
proof -
  let ?files = "dj_files j"
  have fold: "(\<exists>p. try_fold validate_file ([], 0, 0) (List.enumerate 0 ?files) = Inr (p, e, c)) \<longleftrightarrow>
      (\<forall>f \<in> set ?files. valid_file f) \<and> sorted_wrt path_apart (map normalized_path ?files)
      \<and> unat e = expected_sum ?files \<and> unat c = on_disk_sum ?files" for e c
    using validate_files_Inr [of "[]" 0 0 0 ?files e c] by simp
  have "job_validate j = Inr () \<longleftrightarrow>
      is_valid_huggingface_id (dj_huggingface_id j) \<and> is_valid_immutable_revision (dj_revision j) \<and> length ?files \<le> 65536
      \<and> (\<exists>p e c. try_fold validate_file ([], 0, 0) (List.enumerate 0 ?files) = Inr (p, e, c)
          \<and> validate_totals j e c = Inr () \<and> validate_state j = Inr () \<and> validate_current_file j = Inr ()
          \<and> (dj_state j = Failed) = (dj_error_code j \<noteq> None))"
    by (auto simp: job_validate_def MAXIMUM_DOWNLOAD_JOB_FILE_COUNT_def unit_result_bind_Inr not_less)
  also have "\<dots> \<longleftrightarrow> valid_identity (dj_huggingface_id j) (dj_revision j) \<and> length ?files \<le> 65536
      \<and> (\<exists>e c. (\<exists>p. try_fold validate_file ([], 0, 0) (List.enumerate 0 ?files) = Inr (p, e, c))
          \<and> validate_totals j e c = Inr ()) \<and> valid_phase j"
    unfolding valid_identity_def validate_phase_Inr by blast
  also have "\<dots> \<longleftrightarrow> valid_identity (dj_huggingface_id j) (dj_revision j) \<and> valid_files ?files
      \<and> (\<exists>(e :: u64) (c :: u64). unat e = expected_sum ?files \<and> unat c = on_disk_sum ?files \<and> valid_totals j) \<and> valid_phase j"
  proof -
    have "(\<exists>p. try_fold validate_file ([], 0, 0) (List.enumerate 0 ?files) = Inr (p, e, c)) \<and> validate_totals j e c = Inr ()
      \<longleftrightarrow> ((\<forall>f \<in> set ?files. valid_file f) \<and> sorted_wrt path_apart (map normalized_path ?files))
        \<and> unat e = expected_sum ?files \<and> unat c = on_disk_sum ?files \<and> valid_totals j" for e c
      unfolding fold using validate_totals_Inr [of e j c] by auto
    then show ?thesis unfolding valid_files_def by simp
  qed
  also have "\<dots> \<longleftrightarrow> valid_job j"
    unfolding valid_job_def using sums_of_valid_totals by blast
  finally show ?thesis .
qed

text \<open>A changed file keeps the manifest valid.\<close>

lemma file_position_Some:
  "file_position p fs = Some i \<Longrightarrow> i < length fs \<and> df_relative_path (fs ! i) = p"
  by (induction fs arbitrary: i) (auto split: if_splits)

lemma file_position_None: "file_position p fs = None \<longleftrightarrow> (\<forall>f \<in> set fs. df_relative_path f \<noteq> p)"
  by (induction fs) auto

lemma on_disk_sum_update:
  "i < length fs \<Longrightarrow> on_disk_sum (fs[i := f']) + unat (df_bytes_on_disk (fs ! i)) = on_disk_sum fs + unat (df_bytes_on_disk f')"
  by (induction fs arbitrary: i) (auto split: nat.split)

lemma on_disk_le_sum: "i < length fs \<Longrightarrow> unat (df_bytes_on_disk (fs ! i)) \<le> on_disk_sum fs"
  by (induction fs arbitrary: i) (auto simp: nth_Cons split: nat.splits intro: trans_le_add2)

lemma expected_sum_update:
  "\<lbrakk>i < length fs; df_expected_bytes f' = df_expected_bytes (fs ! i)\<rbrakk> \<Longrightarrow> expected_sum (fs[i := f']) = expected_sum fs"
  by (induction fs arbitrary: i) (auto split: nat.split)

definition file_identity :: "DownloadJobFile \<Rightarrow> string \<times> u64 \<times> DownloadFileDigest" where
  "file_identity f = (df_relative_path f, df_expected_bytes f, df_expected_digest f)"

lemma file_identity_on_disk [simp]: "file_identity (f\<lparr>df_bytes_on_disk := b\<rparr>) = file_identity f"
  by (simp add: file_identity_def)

lemma normalized_of_identity: "file_identity f = file_identity g \<Longrightarrow> normalized_path f = normalized_path g"
  by (simp add: file_identity_def normalized_path_def)

lemma map_file_identity_update:
  "i < length fs \<Longrightarrow> map file_identity (fs[i := (fs ! i)\<lparr>df_bytes_on_disk := b\<rparr>]) = map file_identity fs"
  by (simp add: map_update list_update_same_conv)

lemma same_identities:
  assumes "map file_identity fs = map file_identity gs"
  shows "length fs = length gs" "map normalized_path fs = map normalized_path gs" "expected_sum fs = expected_sum gs"
    "map df_relative_path fs = map df_relative_path gs"
proof -
  have parts: "df_relative_path = fst \<circ> file_identity" "normalized_path = to_ascii_lowercase \<circ> fst \<circ> file_identity"
    "(\<lambda>f. unat (df_expected_bytes f)) = unat \<circ> fst \<circ> snd \<circ> file_identity"
    by (simp_all add: fun_eq_iff file_identity_def normalized_path_def)
  show "map normalized_path fs = map normalized_path gs" "map df_relative_path fs = map df_relative_path gs"
    "expected_sum fs = expected_sum gs"
    using assms unfolding expected_sum_def parts by (simp_all only: map_map [symmetric])
  show "length fs = length gs" using assms by (rule map_eq_imp_length_eq)
qed

lemma valid_files_same_identities:
  assumes same: "map file_identity fs = map file_identity gs" and valid: "valid_files gs"
    and on_disk: "\<forall>f \<in> set fs. df_bytes_on_disk f \<le> df_expected_bytes f"
  shows "valid_files fs"
proof -
  have "valid_file f" if "f \<in> set fs" for f
  proof -
    have "file_identity f \<in> set (map file_identity gs)" using same that by (metis image_eqI image_set)
    then obtain g where "g \<in> set gs" "file_identity f = file_identity g" by auto
    then show ?thesis using valid on_disk that by (auto simp: valid_files_def valid_file_def file_identity_def)
  qed
  then show ?thesis using valid same_identities(1,2) [OF same] by (simp add: valid_files_def)
qed

lemma on_disk_bounds: "\<lbrakk>valid_files fs; f \<in> set fs\<rbrakk> \<Longrightarrow> df_bytes_on_disk f \<le> df_expected_bytes f"
  by (simp add: valid_files_def valid_file_def)

lemma valid_files_update:
  assumes "valid_files fs" "i < length fs" "b \<le> df_expected_bytes (fs ! i)"
  shows "valid_files (fs[i := (fs ! i)\<lparr>df_bytes_on_disk := b\<rparr>])"
proof (rule valid_files_same_identities [OF map_file_identity_update [OF assms(2)] assms(1)])
  show "\<forall>f \<in> set (fs[i := (fs ! i)\<lparr>df_bytes_on_disk := b\<rparr>]). df_bytes_on_disk f \<le> df_expected_bytes f"
    using set_update_subset_insert [of fs i] on_disk_bounds [OF assms(1)] assms(3) by fastforce
qed

lemma validated_valid: "valid_job j \<Longrightarrow> validated j = (Inr (), j)"
  by (simp add: validated_def job_validate_iff)

lemma completed_le_total: "valid_job j \<Longrightarrow> dj_bytes_completed j \<le> dj_bytes_total j"
  using on_disk_le_expected [of "dj_files j"]
  by (cases "dj_files j = []") (auto simp: valid_job_def valid_totals_def valid_files_def word_le_nat_alt)

lemmas valid_job_defs = valid_job_def valid_totals_def valid_phase_def

section \<open>Validation as a property\<close>

text \<open>C14. Validation of a durable job accepts exactly the jobs with a Hugging Face identity and an immutable
  revision, at most 65536 files with safe paths, provider digests and no more bytes than expected, no two
  of which collide or nest when their case is ignored, byte totals that are the exact sums of the files
  and safe for JavaScript, and a state that fits: no manifest before it is fetched, a complete one when
  verifying or publishing, a current file only while downloading, an error code only when failed.\<close>

theorem job_validation_exact:
  "job_validate j = Inr () \<longleftrightarrow>
     is_valid_huggingface_id (dj_huggingface_id j) \<and> is_valid_immutable_revision (dj_revision j)
     \<and> length (dj_files j) \<le> 65536
     \<and> (\<forall>f \<in> set (dj_files j). is_safe_relative_path (df_relative_path f) \<and> digest_is_valid (df_expected_digest f)
          \<and> df_bytes_on_disk f \<le> df_expected_bytes f)
     \<and> sorted_wrt path_apart (map (\<lambda>f. to_ascii_lowercase (df_relative_path f)) (dj_files j))
     \<and> 0 < dj_bytes_total j \<and> dj_bytes_total j \<le> 9007199254740991
     \<and> unat (dj_bytes_completed j) = sum_list (map (\<lambda>f. unat (df_bytes_on_disk f)) (dj_files j))
     \<and> (dj_files j \<noteq> [] \<longrightarrow> unat (dj_bytes_total j) = sum_list (map (\<lambda>f. unat (df_expected_bytes f)) (dj_files j)))
     \<and> valid_phase j"
  unfolding job_validate_iff valid_job_def valid_identity_def valid_files_def valid_file_def valid_totals_def
    expected_sum_def on_disk_sum_def normalized_path_def [abs_def] by blast

definition sample_file :: DownloadJobFile where
  "sample_file = \<lparr>df_relative_path = ''w'', df_expected_bytes = 3, df_expected_digest = Sha256 (replicate 64 CHR ''b''),
     df_bytes_on_disk = 1\<rparr>"

definition sample_job :: DownloadJob where
  "sample_job = \<lparr>dj_huggingface_id = ''o/m'', dj_revision = replicate 40 CHR ''a'', dj_state = Paused,
     dj_bytes_completed = 1, dj_bytes_total = 3, dj_current_file_relative_path = None, dj_files = [sample_file],
     dj_error_code = None, dj_updated_at_unix_millis = 5\<rparr>"

lemma sample_identity: "is_valid_huggingface_id ''o/m''" "is_valid_immutable_revision (replicate 40 CHR ''a'')"
  by code_simp+

lemma sample_path: "is_safe_relative_path ''w''"
  unfolding safe_iff_canonical by code_simp

lemma sample_digest: "digest_is_valid (Sha256 (replicate 64 CHR ''b''))"
  by code_simp

lemma sample_valid: "valid_job sample_job"
  using sample_identity sample_path sample_digest
  by (simp add: valid_job_defs valid_identity_def sample_job_def sample_file_def valid_files_def valid_file_def)

theorem job_validation_exact_witness:
  "job_validate sample_job = Inr () \<and> job_validate (sample_job\<lparr>dj_bytes_completed := 2\<rparr>) \<noteq> Inr ()"
  using sample_identity sample_path sample_digest
    job_validation_exact [of sample_job] job_validation_exact [of "sample_job\<lparr>dj_bytes_completed := 2\<rparr>"]
  by (simp add: sample_job_def sample_file_def valid_phase_def)

text \<open>The same job when every byte has arrived, and while it is verified or published.\<close>

definition sample_complete :: "DownloadJobState \<Rightarrow> DownloadJob" where
  "sample_complete st = sample_job\<lparr>dj_state := st, dj_bytes_completed := 3, dj_files := [sample_file\<lparr>df_bytes_on_disk := 3\<rparr>]\<rparr>"

lemma sample_complete_valid: "st \<in> {Downloading, Verifying, Publishing, Paused} \<Longrightarrow> valid_job (sample_complete st)"
  using sample_identity sample_path sample_digest
  by (auto simp: sample_complete_def valid_job_defs valid_identity_def sample_job_def sample_file_def valid_files_def
      valid_file_def)

end
