(* ===== verification/Hub_Manifest.thy ===== *)
theory Hub_Manifest
  imports Download_Job
begin

text \<open>
  Discovery of an immutable manifest on the Hugging Face hub: \<^verbatim>\<open>hub/hugging_face.rs\<close> and the pagination and
  metadata bounds of \<^verbatim>\<open>hub/hugging_face_bounds.rs\<close> (under \<^verbatim>\<open>apps/daemon/src/library\<close>), and the conversion of
  a manifest into a job, \<^verbatim>\<open>DownloadJob::from_manifest\<close>. The HTTP transport and the JSON decoders are
  arguments: \<open>transport n url\<close> is the answer to the \<open>n\<close>-th request of one fetch. The page loop runs on fuel,
  because its page counter saturates; \<open>None\<close> is a loop that has not ended. Header values are ASCII.
\<close>

section \<open>Data\<close>

record HuggingFaceHubLimits =
  hl_maximum_tree_page_count :: usize
  hl_maximum_file_count :: usize
  hl_maximum_path_bytes :: usize
  hl_maximum_total_bytes :: u64
  hl_maximum_job_metadata_bytes :: usize

record HubManifestFile =
  hf_relative_path :: string
  hf_expected_bytes :: u64
  hf_digest :: DownloadFileDigest
  hf_xet_hash :: "string option"

record HuggingFaceManifest =
  hm_repository_id :: string
  hm_revision :: string
  hm_files :: "HubManifestFile list"
  hm_total_bytes :: u64

datatype HuggingFaceHubError =
  Transport string | HubDownloadGated | UnexpectedStatus "16 word" | InvalidRepositoryId | HubInvalidRevision
| InvalidMetadataJson | InvalidTreeJson | RevisionMismatch | RepositoryMismatch | InvalidVisibility
| TooManyTreePages | HubTooManyFiles | TooManyTreeEntries | InvalidEntryType | InvalidEntrySize | InvalidEntryPath
| CaseInsensitivePathCollision | HubFilePathHierarchyConflict | InvalidLfsMetadata | InvalidGitBlobSha1
| InvalidXetHash | MissingIndependentDigest | TotalBytesTooLarge | JobMetadataTooLarge | EmptyManifest
| UnsafePaginationLink

datatype GatedStatus = GatedBoolean bool | GatedMode string

record ModelMetadataDocument =
  md_id :: "string option"
  md_sha :: string
  md_private :: "bool option"
  md_gated :: "GatedStatus option"

record LfsDocument =
  lfs_oid :: string
  lfs_size :: u64
  lfs_pointer_size :: u64

record TreeEntryDocument =
  te_entry_type :: string
  te_size :: u64
  te_path :: string
  te_oid :: "string option"
  te_lfs :: "LfsDocument option"
  te_xet_hash :: "string option"

record HubHttpResponse =
  hr_status :: "16 word"
  hr_body :: string
  hr_link :: "string option"

type_synonym hub_transport = "nat \<Rightarrow> string \<Rightarrow> string + HubHttpResponse"

definition default_limits :: HuggingFaceHubLimits where
  "default_limits = \<lparr>hl_maximum_tree_page_count = 128, hl_maximum_file_count = 65536, hl_maximum_path_bytes = 1024,
     hl_maximum_total_bytes = MAXIMUM_JAVASCRIPT_SAFE_INTEGER, hl_maximum_job_metadata_bytes = 8000000\<rparr>"

section \<open>Pagination\<close>

definition is_ascii_whitespace :: "char \<Rightarrow> bool" where
  "is_ascii_whitespace c \<longleftrightarrow> 9 \<le> byte_value c \<and> byte_value c \<le> 13 \<or> byte_value c = 32"

definition str_trim :: "string \<Rightarrow> string" where
  "str_trim s = rev (dropWhile is_ascii_whitespace (rev (dropWhile is_ascii_whitespace s)))"

definition is_next_parameter :: "string \<Rightarrow> bool" where
  "is_next_parameter parameter = (str_trim parameter = ''rel=next'' \<or> str_trim parameter = ''rel=\"next\"'')"

definition parse_link_segment :: "string option \<Rightarrow> string \<Rightarrow> HuggingFaceHubError + string option" where
  "parse_link_segment next_url link_segment =
     (let segment_parts = split_on (CHR '';'') (str_trim link_segment);
          target = str_trim (hd segment_parts)
      in if list_ex is_next_parameter (tl segment_parts)
         then if next_url \<noteq> None \<or> \<not> prefix ''<'' target \<or> \<not> suffix ''>'' target
              then Inl UnsafePaginationLink
              else Inr (Some (drop 1 (take (length target - 1) target)))
         else Inr next_url)"

definition parse_next_link :: "string option \<Rightarrow> HuggingFaceHubError + string option" where
  "parse_next_link link_header =
     (case link_header of
        None \<Rightarrow> Inr None
      | Some link_header \<Rightarrow> try_fold parse_link_segment None (split_on (CHR '','') link_header))"

definition validate_tree_page_url :: "string \<Rightarrow> string \<Rightarrow> HuggingFaceHubError + unit" where
  "validate_tree_page_url page_url expected_tree_url =
     (if \<not> prefix expected_tree_url page_url then Inl UnsafePaginationLink
      else let query = drop (length expected_tree_url) page_url
           in if 8192 < length page_url \<or> \<not> is_ascii page_url \<or> CHR ''#'' \<in> set page_url \<or> \<not> prefix ''?'' query
                 \<or> ''recursive=true'' \<notin> set (split_on (CHR ''&'') (drop 1 query))
              then Inl UnsafePaginationLink else Inr ())"

section \<open>Entries of the tree\<close>

definition estimated_durable_file_metadata_bytes :: "HubManifestFile \<Rightarrow> usize" where
  "estimated_durable_file_metadata_bytes manifest_file =
     saturating_add
       (saturating_add (saturating_mul (of_nat (length (hf_relative_path manifest_file))) 2)
         (of_nat (length (digest_hex (hf_digest manifest_file)))))
       256"

definition validate_tree_entry_common :: "TreeEntryDocument \<Rightarrow> usize \<Rightarrow> HuggingFaceHubError + unit" where
  "validate_tree_entry_common tree_entry maximum_path_bytes =
     (if MAXIMUM_JAVASCRIPT_SAFE_INTEGER < te_size tree_entry then Inl InvalidEntrySize
      else if \<not> is_canonical_ascii_path (te_path tree_entry) (unat maximum_path_bytes) then Inl InvalidEntryPath
      else Inr ())"

definition invalid_git_oid :: "string option \<Rightarrow> bool" where
  "invalid_git_oid oid = (case oid of None \<Rightarrow> False | Some git_oid \<Rightarrow> \<not> is_lowercase_hex git_oid 40)"

definition validate_directory_entry :: "TreeEntryDocument \<Rightarrow> HuggingFaceHubError + unit" where
  "validate_directory_entry tree_entry =
     (if te_size tree_entry \<noteq> 0 then Inl InvalidEntrySize
      else if te_lfs tree_entry \<noteq> None \<or> te_xet_hash tree_entry \<noteq> None then Inl InvalidLfsMetadata
      else if invalid_git_oid (te_oid tree_entry) then Inl InvalidGitBlobSha1
      else Inr ())"

definition validated_digest :: "TreeEntryDocument \<Rightarrow> HuggingFaceHubError + DownloadFileDigest" where
  "validated_digest tree_entry =
     (case te_lfs tree_entry of
        Some lfs \<Rightarrow>
          if lfs_size lfs \<noteq> te_size tree_entry \<or> lfs_pointer_size lfs = 0
             \<or> MAXIMUM_JAVASCRIPT_SAFE_INTEGER < lfs_pointer_size lfs \<or> \<not> is_lowercase_hex (lfs_oid lfs) 64
          then Inl InvalidLfsMetadata
          else if invalid_git_oid (te_oid tree_entry) then Inl InvalidGitBlobSha1
          else Inr (Sha256 (lfs_oid lfs))
      | None \<Rightarrow>
          (case te_oid tree_entry of
             None \<Rightarrow> Inl MissingIndependentDigest
           | Some git_oid \<Rightarrow>
               if \<not> is_lowercase_hex git_oid 40 then Inl InvalidGitBlobSha1 else Inr (GitBlobSha1 git_oid)))"

definition validated_file :: "TreeEntryDocument \<Rightarrow> HuggingFaceHubError + HubManifestFile" where
  "validated_file tree_entry =
     (if (case te_xet_hash tree_entry of None \<Rightarrow> False | Some xet_hash \<Rightarrow> \<not> is_lowercase_hex xet_hash 64)
      then Inl InvalidXetHash
      else result_bind (validated_digest tree_entry)
        (\<lambda>digest. Inr \<lparr>hf_relative_path = te_path tree_entry, hf_expected_bytes = te_size tree_entry,
                       hf_digest = digest, hf_xet_hash = te_xet_hash tree_entry\<rparr>))"

text \<open>The accumulators of the page loop.\<close>

record tree_walk =
  tw_entry_count :: usize
  tw_files :: "HubManifestFile list"
  tw_normalized_paths :: "string list"
  tw_normalized_file_paths :: "string list"
  tw_total_bytes :: u64
  tw_estimated_job_metadata_bytes :: usize

definition tree_walk_start :: tree_walk where
  "tree_walk_start = \<lparr>tw_entry_count = 0, tw_files = [], tw_normalized_paths = [], tw_normalized_file_paths = [],
     tw_total_bytes = 0, tw_estimated_job_metadata_bytes = 4096\<rparr>"

definition select_file_entry ::
    "HuggingFaceHubLimits \<Rightarrow> tree_walk \<Rightarrow> TreeEntryDocument \<Rightarrow> HuggingFaceHubError + tree_walk" where
  "select_file_entry limits walk tree_entry =
     (if unat (hl_maximum_file_count limits) \<le> length (tw_files walk) then Inl HubTooManyFiles
      else result_bind (ok_or (checked_add (tw_total_bytes walk) (te_size tree_entry)) TotalBytesTooLarge)
        (\<lambda>total_bytes.
           if hl_maximum_total_bytes limits < total_bytes \<or> MAXIMUM_JAVASCRIPT_SAFE_INTEGER < total_bytes
           then Inl TotalBytesTooLarge
           else result_bind (validated_file tree_entry)
             (\<lambda>manifest_file.
                result_bind (ok_or (checked_add (tw_estimated_job_metadata_bytes walk)
                                     (estimated_durable_file_metadata_bytes manifest_file)) JobMetadataTooLarge)
                  (\<lambda>estimated.
                     if min (hl_maximum_job_metadata_bytes limits) 8000000 < estimated then Inl JobMetadataTooLarge
                     else Inr (walk\<lparr>tw_files := tw_files walk @ [manifest_file], tw_total_bytes := total_bytes,
                                    tw_estimated_job_metadata_bytes := estimated\<rparr>)))))"

definition walk_tree_entry ::
    "HuggingFaceHubLimits \<Rightarrow> DownloadPathSelection \<Rightarrow> tree_walk \<Rightarrow> TreeEntryDocument \<Rightarrow> HuggingFaceHubError + tree_walk" where
  "walk_tree_entry limits path_selection walk tree_entry =
     (let entry_count = saturating_add (tw_entry_count walk) 1
      in if hl_maximum_file_count limits < entry_count then Inl TooManyTreeEntries
         else result_bind (validate_tree_entry_common tree_entry (hl_maximum_path_bytes limits))
           (\<lambda>_. let normalized_path = to_ascii_lowercase (te_path tree_entry)
                in if hub_has_ancestor_path (tw_normalized_file_paths walk) normalized_path
                   then Inl HubFilePathHierarchyConflict
                   else if normalized_path \<in> set (tw_normalized_paths walk) then Inl CaseInsensitivePathCollision
                   else let walk1 = walk\<lparr>tw_entry_count := entry_count,
                                         tw_normalized_paths := path_insert normalized_path (tw_normalized_paths walk)\<rparr>
                        in if te_entry_type tree_entry = ''directory''
                           then result_bind (validate_directory_entry tree_entry) (\<lambda>_. Inr walk1)
                           else if te_entry_type tree_entry = ''file''
                           then if has_descendant_path (tw_normalized_paths walk1) normalized_path
                                then Inl HubFilePathHierarchyConflict
                                else result_bind
                                  (if path_selection_includes path_selection (te_path tree_entry)
                                   then select_file_entry limits walk1 tree_entry else Inr walk1)
                                  (\<lambda>walk2. Inr (walk2\<lparr>tw_normalized_file_paths :=
                                     path_insert normalized_path (tw_normalized_file_paths walk2)\<rparr>))
                           else Inl InvalidEntryType))"

section \<open>The fetch\<close>

definition HUGGING_FACE_ORIGIN :: string where
  "HUGGING_FACE_ORIGIN = ''https://huggingface.co''"

definition execute_metadata_get ::
    "hub_transport \<Rightarrow> nat \<Rightarrow> string \<Rightarrow> HuggingFaceHubError + HubHttpResponse" where
  "execute_metadata_get transport n url =
     (case transport n url of
        Inl e \<Rightarrow> Inl (Transport e)
      | Inr response \<Rightarrow>
          if 200 \<le> hr_status response \<and> hr_status response \<le> 299 then Inr response
          else if hr_status response = 401 \<or> hr_status response = 403 then Inl HubDownloadGated
          else Inl (UnexpectedStatus (hr_status response)))"

definition metadata_url :: "string \<Rightarrow> string \<Rightarrow> string" where
  "metadata_url repository_id revision =
     HUGGING_FACE_ORIGIN @ ''/api/models/'' @ repository_id @ ''/revision/'' @ revision"

definition tree_url :: "string \<Rightarrow> string \<Rightarrow> string" where
  "tree_url repository_id revision =
     HUGGING_FACE_ORIGIN @ ''/api/models/'' @ repository_id @ ''/tree/'' @ revision"

definition fetch_and_validate_metadata ::
    "hub_transport \<Rightarrow> (string \<Rightarrow> ModelMetadataDocument option) \<Rightarrow> string \<Rightarrow> string \<Rightarrow> HuggingFaceHubError + unit" where
  "fetch_and_validate_metadata transport parse_metadata repository_id revision =
     result_bind (execute_metadata_get transport 0 (metadata_url repository_id revision))
       (\<lambda>response. result_bind (ok_or (parse_metadata (hr_body response)) InvalidMetadataJson)
         (\<lambda>document.
            if md_sha document \<noteq> revision then Inl RevisionMismatch
            else if md_id document \<noteq> Some repository_id then Inl RepositoryMismatch
            else if md_private document = Some True then Inl HubDownloadGated
            else if md_private document \<noteq> Some False then Inl InvalidVisibility
            else case md_gated document of
                   Some (GatedBoolean False) \<Rightarrow> Inr ()
                 | Some (GatedBoolean True) \<Rightarrow> Inl HubDownloadGated
                 | Some (GatedMode gating_mode) \<Rightarrow>
                     if gating_mode \<noteq> [] then Inl HubDownloadGated else Inl InvalidVisibility
                 | None \<Rightarrow> Inl InvalidVisibility))"

definition finish_manifest :: "string \<Rightarrow> string \<Rightarrow> tree_walk \<Rightarrow> HuggingFaceHubError + HuggingFaceManifest" where
  "finish_manifest repository_id revision walk =
     (if tw_files walk = [] \<or> tw_total_bytes walk = 0 then Inl EmptyManifest
      else Inr \<lparr>hm_repository_id = repository_id, hm_revision = revision, hm_files = tw_files walk,
                hm_total_bytes = tw_total_bytes walk\<rparr>)"

text \<open>One page: its entries are walked, then its link header names the next page.\<close>

definition fetch_tree_page ::
    "hub_transport \<Rightarrow> (string \<Rightarrow> TreeEntryDocument list option) \<Rightarrow> HuggingFaceHubLimits \<Rightarrow> DownloadPathSelection
     \<Rightarrow> string \<Rightarrow> nat \<Rightarrow> string \<Rightarrow> tree_walk \<Rightarrow> HuggingFaceHubError + (tree_walk \<times> string option)" where
  "fetch_tree_page transport parse_tree limits path_selection expected_tree_url n page_url walk =
     result_bind (validate_tree_page_url page_url expected_tree_url)
       (\<lambda>_. result_bind (execute_metadata_get transport n page_url)
         (\<lambda>response. result_bind (ok_or (parse_tree (hr_body response)) InvalidTreeJson)
           (\<lambda>tree_entries. result_bind (try_fold (walk_tree_entry limits path_selection) walk tree_entries)
             (\<lambda>walk'. result_bind (parse_next_link (hr_link response))
               (\<lambda>next_page_url. Inr (walk', next_page_url))))))"

fun fetch_tree_pages ::
    "nat \<Rightarrow> hub_transport \<Rightarrow> (string \<Rightarrow> TreeEntryDocument list option) \<Rightarrow> HuggingFaceHubLimits \<Rightarrow> DownloadPathSelection
     \<Rightarrow> string \<Rightarrow> nat \<Rightarrow> usize \<Rightarrow> string option \<Rightarrow> tree_walk \<Rightarrow> (HuggingFaceHubError + tree_walk) option" where
  "fetch_tree_pages fuel transport parse_tree limits path_selection expected_tree_url n page_count None walk = Some (Inr walk)"
| "fetch_tree_pages 0 transport parse_tree limits path_selection expected_tree_url n page_count (Some page_url) walk = None"
| "fetch_tree_pages (Suc fuel) transport parse_tree limits path_selection expected_tree_url n page_count (Some page_url) walk =
     (let fetched_page_count = saturating_add page_count 1
      in if hl_maximum_tree_page_count limits < fetched_page_count then Some (Inl TooManyTreePages)
         else case fetch_tree_page transport parse_tree limits path_selection expected_tree_url n page_url walk of
                Inl e \<Rightarrow> Some (Inl e)
              | Inr (walk', next_page_url) \<Rightarrow>
                  fetch_tree_pages fuel transport parse_tree limits path_selection expected_tree_url (Suc n)
                    fetched_page_count next_page_url walk')"

definition fetch_recursive_tree ::
    "nat \<Rightarrow> hub_transport \<Rightarrow> (string \<Rightarrow> TreeEntryDocument list option) \<Rightarrow> HuggingFaceHubLimits \<Rightarrow> DownloadPathSelection
     \<Rightarrow> string \<Rightarrow> string \<Rightarrow> (HuggingFaceHubError + HuggingFaceManifest) option" where
  "fetch_recursive_tree fuel transport parse_tree limits path_selection repository_id revision =
     map_option (\<lambda>result. result_bind result (finish_manifest repository_id revision))
       (fetch_tree_pages fuel transport parse_tree limits path_selection (tree_url repository_id revision) 1 0
         (Some (tree_url repository_id revision @ ''?recursive=true'')) tree_walk_start)"

definition fetch_selected_manifest ::
    "nat \<Rightarrow> hub_transport \<Rightarrow> (string \<Rightarrow> ModelMetadataDocument option) \<Rightarrow> (string \<Rightarrow> TreeEntryDocument list option)
     \<Rightarrow> HuggingFaceHubLimits \<Rightarrow> string \<Rightarrow> string \<Rightarrow> DownloadPathSelection
     \<Rightarrow> (HuggingFaceHubError + HuggingFaceManifest) option" where
  "fetch_selected_manifest fuel transport parse_metadata parse_tree limits repository_id revision path_selection =
     (if \<not> is_valid_huggingface_id repository_id then Some (Inl InvalidRepositoryId)
      else if \<not> is_valid_immutable_revision revision then Some (Inl HubInvalidRevision)
      else case fetch_and_validate_metadata transport parse_metadata repository_id revision of
             Inl e \<Rightarrow> Some (Inl e)
           | Inr _ \<Rightarrow> fetch_recursive_tree fuel transport parse_tree limits path_selection repository_id revision)"

section \<open>From a manifest to a job\<close>

definition manifest_job_file :: "HubManifestFile \<Rightarrow> DownloadJobFile" where
  "manifest_job_file manifest_file =
     \<lparr>df_relative_path = hf_relative_path manifest_file, df_expected_bytes = hf_expected_bytes manifest_file,
      df_expected_digest = hf_digest manifest_file, df_bytes_on_disk = 0\<rparr>"

definition job_from_manifest :: "HuggingFaceManifest \<Rightarrow> u64 \<Rightarrow> DownloadJobError + DownloadJob" where
  "job_from_manifest manifest updated_at_unix_millis =
     (let download_job =
        \<lparr>dj_huggingface_id = hm_repository_id manifest, dj_revision = hm_revision manifest, dj_state = Paused,
         dj_bytes_completed = 0, dj_bytes_total = hm_total_bytes manifest, dj_current_file_relative_path = None,
         dj_files = map manifest_job_file (hm_files manifest), dj_error_code = None,
         dj_updated_at_unix_millis = updated_at_unix_millis\<rparr>
      in result_bind (job_validate download_job) (\<lambda>_. Inr download_job))"

section \<open>Lemmas\<close>

text \<open>The inventory the walk has collected.\<close>

definition normalized_manifest_path :: "HubManifestFile \<Rightarrow> string" where
  "normalized_manifest_path f = to_ascii_lowercase (hf_relative_path f)"

definition walk_paths_ok :: "tree_walk \<Rightarrow> bool" where
  "walk_paths_ok walk \<longleftrightarrow> sorted (tw_normalized_paths walk)
     \<and> set (tw_normalized_file_paths walk) \<subseteq> set (tw_normalized_paths walk)
     \<and> (\<forall>a \<in> set (tw_normalized_file_paths walk). \<forall>b \<in> set (tw_normalized_file_paths walk). a \<noteq> b \<longrightarrow> path_apart a b)
     \<and> set (map normalized_manifest_path (tw_files walk)) \<subseteq> set (tw_normalized_file_paths walk)
     \<and> distinct (map normalized_manifest_path (tw_files walk))"

definition walk_files_ok :: "HuggingFaceHubLimits \<Rightarrow> tree_walk \<Rightarrow> bool" where
  "walk_files_ok limits walk \<longleftrightarrow>
     (\<forall>f \<in> set (tw_files walk). is_canonical_ascii_path (hf_relative_path f) (unat (hl_maximum_path_bytes limits))
        \<and> digest_is_valid (hf_digest f))
     \<and> unat (tw_total_bytes walk) = sum_list (map (\<lambda>f. unat (hf_expected_bytes f)) (tw_files walk))
     \<and> tw_total_bytes walk \<le> 9007199254740991
     \<and> length (tw_files walk) \<le> unat (hl_maximum_file_count limits)"

lemma validated_file_Inr:
  "validated_file e = Inr f \<Longrightarrow>
   hf_relative_path f = te_path e \<and> hf_expected_bytes f = te_size e \<and> digest_is_valid (hf_digest f)"
  by (auto simp: validated_file_def validated_digest_def split: if_splits option.splits)

lemma select_file_entry_Inr:
  assumes "select_file_entry limits walk e = Inr walk'"
  obtains f total estimated where "walk' = walk\<lparr>tw_files := tw_files walk @ [f], tw_total_bytes := total,
      tw_estimated_job_metadata_bytes := estimated\<rparr>"
    "validated_file e = Inr f" "unat total = unat (tw_total_bytes walk) + unat (te_size e)"
    "total \<le> 9007199254740991" "length (tw_files walk) < unat (hl_maximum_file_count limits)"
proof -
  from assms show ?thesis
    by (auto simp: select_file_entry_def checked_add_Some_iff not_less not_le MAXIMUM_JAVASCRIPT_SAFE_INTEGER_def
      split: if_splits intro!: that)
qed

lemma no_conflict_apart:
  assumes "sorted np" "set nfp \<subseteq> set np" "\<not> hub_has_ancestor_path nfp c" "c \<notin> set np"
    "\<not> has_descendant_path (path_insert c np) c" "p \<in> set nfp"
  shows "path_apart p c" "path_apart c p"
proof -
  have "\<not> prefix (p @ [slash]) c" using assms(3,6) by (auto simp: hub_ancestor_agrees has_ancestor_iff)
  moreover have "\<not> prefix (c @ [slash]) p"
    using assms(2,5,6) has_descendant_iff [OF sorted_path_insert [OF assms(1)], of c c] by auto
  moreover have "p \<noteq> c" using assms(2,4,6) by auto
  ultimately show "path_apart p c" "path_apart c p" by (auto simp: path_apart_def)
qed

text \<open>The walk reads a file entry or a directory entry.\<close>

lemma walk_tree_entry_cases:
  assumes "walk_tree_entry limits selection walk e = Inr walk'"
  defines "c \<equiv> to_ascii_lowercase (te_path e)"
  defines "walk1 \<equiv> walk\<lparr>tw_entry_count := saturating_add (tw_entry_count walk) 1,
    tw_normalized_paths := path_insert c (tw_normalized_paths walk)\<rparr>"
  shows "is_canonical_ascii_path (te_path e) (unat (hl_maximum_path_bytes limits))
    \<and> \<not> hub_has_ancestor_path (tw_normalized_file_paths walk) c \<and> c \<notin> set (tw_normalized_paths walk)
    \<and> (walk' = walk1
      \<or> \<not> has_descendant_path (path_insert c (tw_normalized_paths walk)) c
        \<and> (\<exists>walk2. (walk2 = walk1 \<or> select_file_entry limits walk1 e = Inr walk2)
            \<and> walk' = walk2\<lparr>tw_normalized_file_paths := path_insert c (tw_normalized_file_paths walk2)\<rparr>))"
proof -
  note run = assms(1) [unfolded walk_tree_entry_def Let_def, folded c_def, folded walk1_def]
  have guards: "is_canonical_ascii_path (te_path e) (unat (hl_maximum_path_bytes limits))"
    "\<not> hub_has_ancestor_path (tw_normalized_file_paths walk) c" "c \<notin> set (tw_normalized_paths walk)"
    using run unfolding validate_tree_entry_common_def by (auto split: if_split_asm)
  consider (directory) "walk' = walk1"
    | (entry) "\<not> has_descendant_path (tw_normalized_paths walk1) c"
        "\<exists>walk2. (walk2 = walk1 \<or> select_file_entry limits walk1 e = Inr walk2)
            \<and> walk' = walk2\<lparr>tw_normalized_file_paths := path_insert c (tw_normalized_file_paths walk2)\<rparr>"
    using run guards unfolding validate_tree_entry_common_def by (auto split: if_split_asm)
  then show ?thesis
  proof cases
    case directory
    with guards show ?thesis by blast
  next
    case entry
    with guards show ?thesis unfolding walk1_def by auto
  qed
qed

lemma walk_tree_entry_paths:
  assumes "walk_tree_entry limits selection walk e = Inr walk'" "walk_paths_ok walk"
  shows "walk_paths_ok walk'"
proof -
  let ?c = "to_ascii_lowercase (te_path e)"
  let ?walk1 = "walk\<lparr>tw_entry_count := saturating_add (tw_entry_count walk) 1,
    tw_normalized_paths := path_insert ?c (tw_normalized_paths walk)\<rparr>"
  note ok = assms(2) [unfolded walk_paths_ok_def]
  have walk1: "walk_paths_ok ?walk1" using ok by (auto simp: walk_paths_ok_def sorted_path_insert)
  consider (directory) "walk' = ?walk1"
    | (entry) walk2 where "\<not> hub_has_ancestor_path (tw_normalized_file_paths walk) ?c" "?c \<notin> set (tw_normalized_paths walk)"
        "\<not> has_descendant_path (path_insert ?c (tw_normalized_paths walk)) ?c"
        "walk2 = ?walk1 \<or> select_file_entry limits ?walk1 e = Inr walk2"
        "walk' = walk2\<lparr>tw_normalized_file_paths := path_insert ?c (tw_normalized_file_paths walk2)\<rparr>"
    using walk_tree_entry_cases [OF assms(1)] by blast
  then show ?thesis
  proof cases
    case directory
    with walk1 show ?thesis by simp
  next
    case entry
    have apart: "path_apart p ?c \<and> path_apart ?c p" if "p \<in> set (tw_normalized_file_paths walk)" for p
      using no_conflict_apart [OF _ _ entry(1,2,3) that] ok by blast
    have new: "?c \<notin> set (tw_normalized_file_paths walk)" using ok entry(2) by blast
    from entry(4) show ?thesis
    proof
      assume "walk2 = ?walk1"
      then show ?thesis using ok apart unfolding entry(5) by (auto simp: walk_paths_ok_def sorted_path_insert)
    next
      assume "select_file_entry limits ?walk1 e = Inr walk2"
      then obtain f total estimated where walk2: "walk2 = ?walk1\<lparr>tw_files := tw_files ?walk1 @ [f], tw_total_bytes := total,
          tw_estimated_job_metadata_bytes := estimated\<rparr>" and f: "validated_file e = Inr f"
        by (rule select_file_entry_Inr)
      have "normalized_manifest_path f = ?c" using validated_file_Inr [OF f] by (simp add: normalized_manifest_path_def)
      then show ?thesis using ok apart new unfolding entry(5) walk2 by (auto simp: walk_paths_ok_def sorted_path_insert)
    qed
  qed
qed

lemma walk_tree_entry_files:
  assumes "walk_tree_entry limits selection walk e = Inr walk'" "walk_files_ok limits walk"
  shows "walk_files_ok limits walk'"
proof -
  let ?c = "to_ascii_lowercase (te_path e)"
  let ?walk1 = "walk\<lparr>tw_entry_count := saturating_add (tw_entry_count walk) 1,
    tw_normalized_paths := path_insert ?c (tw_normalized_paths walk)\<rparr>"
  have path: "is_canonical_ascii_path (te_path e) (unat (hl_maximum_path_bytes limits))"
    using walk_tree_entry_cases [OF assms(1)] by blast
  consider (same) "tw_files walk' = tw_files walk" "tw_total_bytes walk' = tw_total_bytes walk"
    | (entry) walk2 where "select_file_entry limits ?walk1 e = Inr walk2"
        "tw_files walk' = tw_files walk2" "tw_total_bytes walk' = tw_total_bytes walk2"
    using walk_tree_entry_cases [OF assms(1)] by auto
  then show ?thesis
  proof cases
    case same
    with assms(2) show ?thesis by (simp add: walk_files_ok_def)
  next
    case entry
    from entry(1) obtain f total estimated where walk2: "walk2 = ?walk1\<lparr>tw_files := tw_files ?walk1 @ [f],
        tw_total_bytes := total, tw_estimated_job_metadata_bytes := estimated\<rparr>"
      and f: "validated_file e = Inr f" "unat total = unat (tw_total_bytes ?walk1) + unat (te_size e)"
        "total \<le> 9007199254740991" "length (tw_files ?walk1) < unat (hl_maximum_file_count limits)"
      by (rule select_file_entry_Inr)
    show ?thesis using assms(2) path f validated_file_Inr [OF f(1)]
      unfolding walk_files_ok_def entry(2,3) walk2 by auto
  qed
qed

text \<open>The page loop keeps the inventory, asks only trusted addresses, and ends.\<close>

definition walk_ok :: "HuggingFaceHubLimits \<Rightarrow> tree_walk \<Rightarrow> bool" where
  "walk_ok limits walk \<longleftrightarrow> walk_paths_ok walk \<and> walk_files_ok limits walk"

lemma walk_ok_start: "walk_ok limits tree_walk_start"
  by (simp add: walk_ok_def walk_paths_ok_def walk_files_ok_def tree_walk_start_def)

lemma fetch_tree_page_ok:
  assumes "fetch_tree_page transport parse_tree limits selection expected n url walk = Inr (walk', following)" "walk_ok limits walk"
  shows "walk_ok limits walk'"
proof -
  obtain entries where fold: "try_fold (walk_tree_entry limits selection) walk entries = Inr walk'"
    using assms(1) by (auto simp: fetch_tree_page_def)
  show ?thesis
    by (rule try_fold_invariant [where P = "walk_ok limits", OF _ assms(2) fold])
      (simp add: walk_ok_def walk_tree_entry_paths walk_tree_entry_files)
qed

lemma fetch_tree_pages_ok:
  "\<lbrakk>fetch_tree_pages fuel transport parse_tree limits selection expected n pages url walk = Some (Inr walk');
    walk_ok limits walk\<rbrakk> \<Longrightarrow> walk_ok limits walk'"
  by (induction fuel transport parse_tree limits selection expected n pages url walk rule: fetch_tree_pages.induct)
    (auto simp: Let_def split: if_splits sum.splits dest: fetch_tree_page_ok)

lemma fetch_tree_pages_fuel:
  assumes "hl_maximum_tree_page_count limits < max_value"
  shows "unat (hl_maximum_tree_page_count limits) + 1 \<le> fuel + unat pages \<Longrightarrow> 1 \<le> fuel \<Longrightarrow>
    fetch_tree_pages fuel transport parse_tree limits selection expected n pages url walk \<noteq> None"
proof (induction fuel arbitrary: n pages url walk)
  case (Suc fuel)
  note Suc_fuel = Suc
  show ?case
  proof (cases url)
    case (Some page_url)
    let ?pages = "saturating_add pages (1 :: u64)"
    show ?thesis
    proof (cases "hl_maximum_tree_page_count limits < ?pages")
      case False
      then have "unat ?pages \<le> unat (hl_maximum_tree_page_count limits)" by (simp add: not_less word_le_nat_alt)
      moreover have limit: "unat (hl_maximum_tree_page_count limits) < 18446744073709551615"
        using assms by (simp add: word_less_nat_alt unat_max_value)
      ultimately have pages: "unat ?pages = unat pages + 1" by (simp add: unat_saturating_add min_def split: if_splits)
      with False have "unat pages < unat (hl_maximum_tree_page_count limits)" by (simp add: not_less word_le_nat_alt)
      then have "1 \<le> fuel" "unat (hl_maximum_tree_page_count limits) + 1 \<le> fuel + unat ?pages"
        using Suc_fuel(2) pages by simp_all
      then show ?thesis using Suc_fuel(1) False Some by (auto simp: Let_def split: sum.split)
    qed (simp add: Some Let_def)
  qed simp
qed simp

definition same_answers :: "hub_transport \<Rightarrow> hub_transport \<Rightarrow> string \<Rightarrow> string \<Rightarrow> bool" where
  "same_answers transport transport' repository_id revision \<longleftrightarrow>
     transport 0 (metadata_url repository_id revision) = transport' 0 (metadata_url repository_id revision)
     \<and> (\<forall>n url. validate_tree_page_url url (tree_url repository_id revision) = Inr () \<longrightarrow> transport n url = transport' n url)"

lemma fetch_tree_page_trusted:
  assumes "\<forall>n url. validate_tree_page_url url expected = Inr () \<longrightarrow> transport n url = transport' n url"
  shows "fetch_tree_page transport parse_tree limits selection expected n url walk
    = fetch_tree_page transport' parse_tree limits selection expected n url walk"
  using assms
  by (cases "validate_tree_page_url url expected") (simp_all add: fetch_tree_page_def execute_metadata_get_def)

lemma fetch_tree_pages_trusted:
  assumes "\<forall>n url. validate_tree_page_url url expected = Inr () \<longrightarrow> transport n url = transport' n url"
  shows "fetch_tree_pages fuel transport parse_tree limits selection expected n pages url walk
    = fetch_tree_pages fuel transport' parse_tree limits selection expected n pages url walk"
proof (induction fuel arbitrary: n pages url walk)
  case 0
  then show ?case by (cases url) simp_all
next
  case (Suc fuel)
  then show ?case
    by (cases url) (simp_all add: Let_def fetch_tree_page_trusted [OF assms] split: sum.split)
qed

lemma trusted_fetch:
  assumes "same_answers transport transport' repository_id revision"
  shows "fetch_selected_manifest fuel transport parse_metadata parse_tree limits repository_id revision selection
    = fetch_selected_manifest fuel transport' parse_metadata parse_tree limits repository_id revision selection"
proof -
  have "fetch_tree_pages fuel transport parse_tree limits selection (tree_url repository_id revision) n pages url walk
    = fetch_tree_pages fuel transport' parse_tree limits selection (tree_url repository_id revision) n pages url walk"
    for n pages url walk using assms by (intro fetch_tree_pages_trusted) (simp add: same_answers_def)
  moreover have "fetch_and_validate_metadata transport parse_metadata repository_id revision
    = fetch_and_validate_metadata transport' parse_metadata repository_id revision"
    using assms by (simp add: fetch_and_validate_metadata_def execute_metadata_get_def same_answers_def)
  ultimately show ?thesis unfolding fetch_selected_manifest_def fetch_recursive_tree_def by (simp only:)
qed

lemma fetch_ends:
  assumes "hl_maximum_tree_page_count limits < max_value" "unat (hl_maximum_tree_page_count limits) < fuel"
  shows "fetch_selected_manifest fuel transport parse_metadata parse_tree limits repository_id revision selection \<noteq> None"
proof -
  have "fetch_tree_pages fuel transport parse_tree limits selection (tree_url repository_id revision) 1 0
      (Some (tree_url repository_id revision @ ''?recursive=true'')) tree_walk_start \<noteq> None"
    using assms(2) by (intro fetch_tree_pages_fuel [OF assms(1)]) auto
  then show ?thesis by (auto simp: fetch_selected_manifest_def fetch_recursive_tree_def split: sum.split)
qed

text \<open>A fetched manifest is a valid job.\<close>

lemma fetched_walk:
  assumes "fetch_selected_manifest fuel transport parse_metadata parse_tree limits repository_id revision selection = Some (Inr m)"
  obtains walk where "walk_ok limits walk" "finish_manifest repository_id revision walk = Inr m"
    "is_valid_huggingface_id repository_id" "is_valid_immutable_revision revision"
proof -
  from assms have ids: "is_valid_huggingface_id repository_id" "is_valid_immutable_revision revision"
    and "fetch_recursive_tree fuel transport parse_tree limits selection repository_id revision = Some (Inr m)"
    by (auto simp: fetch_selected_manifest_def split: if_splits sum.splits)
  then obtain walk where walk: "fetch_tree_pages fuel transport parse_tree limits selection (tree_url repository_id revision) 1 0
      (Some (tree_url repository_id revision @ ''?recursive=true'')) tree_walk_start = Some (Inr walk)"
      "finish_manifest repository_id revision walk = Inr m"
    by (auto simp: fetch_recursive_tree_def)
  show ?thesis by (rule that [OF fetch_tree_pages_ok [OF walk(1) walk_ok_start] walk(2) ids])
qed

lemma distinct_apart_sorted:
  "\<lbrakk>distinct xs; \<forall>a \<in> set xs. \<forall>b \<in> set xs. a \<noteq> b \<longrightarrow> path_apart a b\<rbrakk> \<Longrightarrow> sorted_wrt path_apart xs"
  by (induction xs) auto

lemma canonical_shorter: "\<lbrakk>is_canonical_ascii_path p n; n \<le> m\<rbrakk> \<Longrightarrow> is_canonical_ascii_path p m"
  by (simp add: is_canonical_ascii_path_def)

lemma walk_ok_valid_files:
  assumes "walk_ok limits walk" "unat (hl_maximum_path_bytes limits) \<le> 1024" "unat (hl_maximum_file_count limits) \<le> 65536"
  shows "valid_files (map manifest_job_file (tw_files walk))"
    "unat (tw_total_bytes walk) = expected_sum (map manifest_job_file (tw_files walk))"
    "on_disk_sum (map manifest_job_file (tw_files walk)) = 0"
proof -
  note ok = assms(1) [unfolded walk_ok_def walk_paths_ok_def walk_files_ok_def]
  have norm: "map normalized_path (map manifest_job_file (tw_files walk)) = map normalized_manifest_path (tw_files walk)"
    by (simp add: comp_def normalized_path_def manifest_job_file_def normalized_manifest_path_def)
  have "sorted_wrt path_apart (map normalized_manifest_path (tw_files walk))"
    using ok by (intro distinct_apart_sorted) blast+
  moreover have "valid_file (manifest_job_file f)" if "f \<in> set (tw_files walk)" for f
    using ok that canonical_shorter [OF _ assms(2)]
    by (simp add: valid_file_def manifest_job_file_def safe_iff_canonical)
  ultimately show "valid_files (map manifest_job_file (tw_files walk))"
    using ok assms(3) unfolding valid_files_def norm by auto
  show "unat (tw_total_bytes walk) = expected_sum (map manifest_job_file (tw_files walk))"
    using ok by (simp add: expected_sum_def comp_def manifest_job_file_def)
  show "on_disk_sum (map manifest_job_file (tw_files walk)) = 0"
    by (simp add: on_disk_sum_def comp_def manifest_job_file_def)
qed

lemma fetched_manifest_accepted:
  assumes "fetch_selected_manifest fuel transport parse_metadata parse_tree limits repository_id revision selection = Some (Inr m)"
    "unat (hl_maximum_path_bytes limits) \<le> 1024" "unat (hl_maximum_file_count limits) \<le> 65536"
  shows "\<exists>j. job_from_manifest m t = Inr j \<and> valid_job j \<and> hm_files m \<noteq> []
    \<and> hm_repository_id m = repository_id \<and> hm_revision m = revision"
proof -
  obtain walk where walk: "walk_ok limits walk" "finish_manifest repository_id revision walk = Inr m"
    "is_valid_huggingface_id repository_id" "is_valid_immutable_revision revision"
    using assms(1) by (rule fetched_walk)
  then have m: "tw_files walk \<noteq> []" "tw_total_bytes walk \<noteq> 0" "m = \<lparr>hm_repository_id = repository_id,
      hm_revision = revision, hm_files = tw_files walk, hm_total_bytes = tw_total_bytes walk\<rparr>"
    by (auto simp: finish_manifest_def split: if_splits)
  let ?j = "\<lparr>dj_huggingface_id = repository_id, dj_revision = revision, dj_state = Paused,
         dj_bytes_completed = 0, dj_bytes_total = tw_total_bytes walk, dj_current_file_relative_path = None,
         dj_files = map manifest_job_file (tw_files walk), dj_error_code = None,
         dj_updated_at_unix_millis = t\<rparr>"
  have "tw_total_bytes walk \<le> 9007199254740991" using walk(1) by (simp add: walk_ok_def walk_files_ok_def)
  then have "valid_job ?j"
    using walk(3,4) m(2) walk_ok_valid_files [OF walk(1) assms(2,3)]
    by (simp add: valid_job_defs valid_identity_def word_gt_0)
  moreover have "job_from_manifest m t = Inr ?j"
    using \<open>valid_job ?j\<close> by (simp add: job_from_manifest_def m(3) Let_def job_validate_iff [THEN iffD2])
  ultimately show ?thesis using m(1,3) by (intro exI [of _ ?j]) simp
qed

lemma job_from_manifest_parts:
  assumes "job_from_manifest m t = Inr j"
  shows "dj_huggingface_id j = hm_repository_id m" "dj_revision j = hm_revision m" "dj_state j = Paused"
    "dj_files j = map manifest_job_file (hm_files m)" "dj_bytes_total j = hm_total_bytes m" "dj_bytes_completed j = 0"
    "dj_current_file_relative_path j = None" "dj_updated_at_unix_millis j = t"
  using assms by (auto simp: job_from_manifest_def Let_def result_bind_def split: sum.splits)

lemma manifest_files_parts:
  "map file_identity (map manifest_job_file fs) = map (\<lambda>f. (hf_relative_path f, hf_expected_bytes f, hf_digest f)) fs"
  "map df_bytes_on_disk (map manifest_job_file fs) = replicate (length fs) 0"
  "expected_sum (map manifest_job_file fs) = (\<Sum>f\<leftarrow>fs. unat (hf_expected_bytes f))"
  by (induction fs) (simp_all add: manifest_job_file_def file_identity_def)

section \<open>Properties\<close>

text \<open>A repository of one file, served by a hub that answers every request.\<close>

definition sample_tree_entry :: TreeEntryDocument where
  "sample_tree_entry = \<lparr>te_entry_type = ''file'', te_size = 3, te_path = ''w'', te_oid = Some (replicate 40 CHR ''c''),
     te_lfs = None, te_xet_hash = None\<rparr>"

definition sample_metadata :: ModelMetadataDocument where
  "sample_metadata = \<lparr>md_id = Some ''o/m'', md_sha = replicate 40 CHR ''a'', md_private = Some False,
     md_gated = Some (GatedBoolean False)\<rparr>"

definition sample_transport :: hub_transport where
  "sample_transport n url = Inr \<lparr>hr_status = 200, hr_body = [], hr_link = None\<rparr>"

definition sample_manifest :: HuggingFaceManifest where
  "sample_manifest = \<lparr>hm_repository_id = ''o/m'', hm_revision = replicate 40 CHR ''a'',
     hm_files = [\<lparr>hf_relative_path = ''w'', hf_expected_bytes = 3, hf_digest = GitBlobSha1 (replicate 40 CHR ''c''),
                 hf_xet_hash = None\<rparr>], hm_total_bytes = 3\<rparr>"

definition complete_repository :: DownloadPathSelection where
  "complete_repository = \<lparr>ps_included_paths = None\<rparr>"

definition sample_fetch :: "hub_transport \<Rightarrow> (HuggingFaceHubError + HuggingFaceManifest) option" where
  "sample_fetch transport = fetch_selected_manifest 2 transport (\<lambda>_. Some sample_metadata) (\<lambda>_. Some [sample_tree_entry])
     default_limits ''o/m'' (replicate 40 CHR ''a'') complete_repository"

definition sample_walk :: tree_walk where
  "sample_walk = \<lparr>tw_entry_count = 1, tw_files = hm_files sample_manifest, tw_normalized_paths = [''w''],
     tw_normalized_file_paths = [''w''], tw_total_bytes = 3, tw_estimated_job_metadata_bytes = 4394\<rparr>"

lemma sample_entry_walk: "walk_tree_entry default_limits complete_repository tree_walk_start sample_tree_entry = Inr sample_walk"
proof -
  have "select_file_entry default_limits (tree_walk_start\<lparr>tw_entry_count := 1, tw_normalized_paths := [''w'']\<rparr>) sample_tree_entry
      = Inr (tree_walk_start\<lparr>tw_entry_count := 1, tw_normalized_paths := [''w''], tw_files := hm_files sample_manifest,
          tw_total_bytes := 3, tw_estimated_job_metadata_bytes := 4394\<rparr>)"
  proof -
    have "validated_file sample_tree_entry = Inr (hd (hm_files sample_manifest))"
      "estimated_durable_file_metadata_bytes (hd (hm_files sample_manifest)) = 298"
      "checked_add 0 3 = Some (3 :: u64)" "checked_add 4096 298 = Some (4394 :: u64)" by code_simp+
    then show ?thesis
      by (simp add: select_file_entry_def tree_walk_start_def default_limits_def MAXIMUM_JAVASCRIPT_SAFE_INTEGER_def
        sample_manifest_def sample_tree_entry_def)
  qed
  moreover have "is_canonical_ascii_path ''w'' 1024" "to_ascii_lowercase ''w'' = ''w''"
    "\<not> has_descendant_path [''w''] ''w''" "saturating_add 0 1 = (1 :: u64)" by code_simp+
  ultimately show ?thesis
    by (simp add: walk_tree_entry_def validate_tree_entry_common_def Let_def tree_walk_start_def sample_tree_entry_def
      default_limits_def MAXIMUM_JAVASCRIPT_SAFE_INTEGER_def hub_has_ancestor_path_def list_ex_iff
      path_selection_includes_def complete_repository_def sample_walk_def)
qed

lemma sample_tree_page:
  "fetch_tree_page sample_transport (\<lambda>_. Some [sample_tree_entry]) default_limits complete_repository
     (tree_url ''o/m'' (replicate 40 CHR ''a'')) 1 (tree_url ''o/m'' (replicate 40 CHR ''a'') @ ''?recursive=true'') tree_walk_start
   = Inr (sample_walk, None)"
proof -
  have "validate_tree_page_url (tree_url ''o/m'' (replicate 40 CHR ''a'') @ ''?recursive=true'')
      (tree_url ''o/m'' (replicate 40 CHR ''a'')) = Inr ()" by code_simp
  then show ?thesis
    by (simp add: fetch_tree_page_def execute_metadata_get_def sample_transport_def sample_entry_walk parse_next_link_def)
qed

lemma sample_metadata_accepted:
  "fetch_and_validate_metadata sample_transport (\<lambda>_. Some sample_metadata) ''o/m'' (replicate 40 CHR ''a'') = Inr ()"
  by (simp add: fetch_and_validate_metadata_def execute_metadata_get_def sample_transport_def sample_metadata_def)

lemma sample_fetch_result: "sample_fetch sample_transport = Some (Inr sample_manifest)"
proof -
  have "fetch_tree_pages (Suc 1) sample_transport (\<lambda>_. Some [sample_tree_entry]) default_limits complete_repository
     (tree_url ''o/m'' (replicate 40 CHR ''a'')) 1 0 (Some (tree_url ''o/m'' (replicate 40 CHR ''a'') @ ''?recursive=true'')) tree_walk_start
     = Some (Inr sample_walk)"
  proof -
    have "saturating_add 0 1 = (1 :: u64)" by code_simp
    then show ?thesis
      unfolding fetch_tree_pages.simps Let_def sample_tree_page by (simp add: default_limits_def)
  qed
  moreover have "finish_manifest ''o/m'' (replicate 40 CHR ''a'') sample_walk = Inr sample_manifest" by code_simp
  ultimately show ?thesis
    using sample_identity sample_metadata_accepted
    by (simp add: sample_fetch_def fetch_selected_manifest_def fetch_recursive_tree_def numeral_2_eq_2)
qed

text \<open>C17. What the hub accepts, the job accepts: every manifest a fetch returns under limits of at most 65536 files
  and 1024 path bytes (the defaults) becomes a valid paused job with the same identity and exactly the
  manifest's files: the same paths, sizes and digests in the same order, none of them begun, their sizes
  adding up to the total of the job; discovery leaves no collision, nesting, size or digest for the job
  to refuse.\<close>

theorem fetched_manifest_starts_job:
  assumes "fetch_selected_manifest fuel transport parse_metadata parse_tree limits repository_id revision selection = Some (Inr m)"
    "unat (hl_maximum_path_bytes limits) \<le> 1024" "unat (hl_maximum_file_count limits) \<le> 65536"
  shows "\<exists>j. job_from_manifest m t = Inr j \<and> job_validate j = Inr () \<and> dj_state j = Paused \<and> has_exact_manifest j
    \<and> dj_huggingface_id j = repository_id \<and> dj_revision j = revision
    \<and> map file_identity (dj_files j) = map (\<lambda>f. (hf_relative_path f, hf_expected_bytes f, hf_digest f)) (hm_files m)
    \<and> map df_bytes_on_disk (dj_files j) = replicate (length (hm_files m)) 0
    \<and> dj_bytes_total j = hm_total_bytes m \<and> unat (hm_total_bytes m) = (\<Sum>f\<leftarrow>hm_files m. unat (hf_expected_bytes f))
    \<and> dj_bytes_completed j = 0 \<and> dj_current_file_relative_path j = None \<and> dj_updated_at_unix_millis j = t"
proof -
  obtain j where j: "job_from_manifest m t = Inr j" "valid_job j" "hm_files m \<noteq> []"
    "hm_repository_id m = repository_id" "hm_revision m = revision"
    using fetched_manifest_accepted [OF assms, of t] by blast
  note parts = job_from_manifest_parts [OF j(1)]
  have files: "dj_files j \<noteq> []" using parts(4) j(3) by simp
  then have "unat (hm_total_bytes m) = (\<Sum>f\<leftarrow>hm_files m. unat (hf_expected_bytes f))"
    using j(2) parts(4,5) manifest_files_parts(3) by (simp add: valid_job_def valid_totals_def)
  then show ?thesis using j files parts manifest_files_parts(1,2) [of "hm_files m"]
    by (intro exI [of _ j]) (simp add: job_validate_iff has_exact_manifest_def)
qed

theorem fetched_manifest_starts_job_witness:
  "\<exists>j. job_from_manifest sample_manifest 7 = Inr j \<and> job_validate j = Inr () \<and> dj_huggingface_id j = ''o/m''
    \<and> map file_identity (dj_files j) = [(''w'', 3, GitBlobSha1 (replicate 40 CHR ''c''))] \<and> dj_bytes_total j = 3"
proof -
  have "unat (hl_maximum_path_bytes default_limits) \<le> 1024" "unat (hl_maximum_file_count default_limits) \<le> 65536"
    by (simp_all add: default_limits_def)
  from fetched_manifest_starts_job [OF sample_fetch_result [unfolded sample_fetch_def] this, of 7]
  obtain j where "job_from_manifest sample_manifest 7 = Inr j" "job_validate j = Inr ()" "dj_huggingface_id j = ''o/m''"
    "map file_identity (dj_files j) = map (\<lambda>f. (hf_relative_path f, hf_expected_bytes f, hf_digest f)) (hm_files sample_manifest)"
    "dj_bytes_total j = hm_total_bytes sample_manifest" by blast
  then show ?thesis by (intro exI [of _ j]) (simp add: sample_manifest_def)
qed

text \<open>C18. A fetch asks only the addresses of its own repository and revision: two hubs that answer alike at the
  metadata address and at the addresses under the tree of that revision give the same result, whatever
  either would answer anywhere else, and whatever links the pages carry.\<close>

theorem fetch_stays_in_repository:
  assumes "transport 0 (metadata_url repository_id revision) = transport' 0 (metadata_url repository_id revision)"
    "\<forall>n query. transport n (tree_url repository_id revision @ CHR ''?'' # query)
      = transport' n (tree_url repository_id revision @ CHR ''?'' # query)"
  shows "fetch_selected_manifest fuel transport parse_metadata parse_tree limits repository_id revision selection
    = fetch_selected_manifest fuel transport' parse_metadata parse_tree limits repository_id revision selection"
proof (rule trusted_fetch)
  have "\<exists>query. url = tree_url repository_id revision @ CHR ''?'' # query"
    if "validate_tree_page_url url (tree_url repository_id revision) = Inr ()" for url
    using that by (auto simp: validate_tree_page_url_def Let_def prefix_def split: if_splits)
  then show "same_answers transport transport' repository_id revision"
    using assms unfolding same_answers_def by metis
qed

theorem fetch_stays_in_repository_witness:
  "sample_fetch (\<lambda>n url. if url = ''https://elsewhere'' then Inl ''refused'' else sample_transport n url)
    = Some (Inr sample_manifest)"
proof -
  have "metadata_url ''o/m'' (replicate 40 CHR ''a'') \<noteq> ''https://elsewhere''"
    "\<forall>query. tree_url ''o/m'' (replicate 40 CHR ''a'') @ CHR ''?'' # query \<noteq> ''https://elsewhere''"
    by (simp_all add: metadata_url_def tree_url_def HUGGING_FACE_ORIGIN_def)
  then have "fetch_selected_manifest 2 sample_transport (\<lambda>_. Some sample_metadata) (\<lambda>_. Some [sample_tree_entry])
      default_limits ''o/m'' (replicate 40 CHR ''a'') complete_repository
    = fetch_selected_manifest 2 (\<lambda>n url. if url = ''https://elsewhere'' then Inl ''refused'' else sample_transport n url)
      (\<lambda>_. Some sample_metadata) (\<lambda>_. Some [sample_tree_entry])
      default_limits ''o/m'' (replicate 40 CHR ''a'') complete_repository"
    by (intro fetch_stays_in_repository) simp_all
  then show ?thesis using sample_fetch_result by (simp add: sample_fetch_def)
qed

text \<open>A fetch under the default limits ends after at most 128 pages, whatever links the hub sends: with fuel
  for one page more, the loop has a result.\<close>

lemma fetch_always_ends:
  "fetch_selected_manifest 129 transport parse_metadata parse_tree default_limits repository_id revision selection \<noteq> None"
  by (rule fetch_ends) (simp_all add: default_limits_def max_value_def)

end
