(* ===== verification/Download_Transitions.thy ===== *)
theory Download_Transitions
  imports Download_Job
begin

text \<open>
  The operations of a download job on a valid job: each either succeeds with a valid job of the same
  download, or refuses. \<open>job_operation\<close> lists the ten methods of \<^verbatim>\<open>download_job.rs\<close> and
  \<^verbatim>\<open>download_job/transitions.rs\<close> that change a job. Nine of them leave a job they refuse as it was (one of
  these, \<open>force_paused\<close>, never refuses); \<open>reconcile_file_progress\<close> writes the progress of the files before it
  can fail, so a refused reconciliation leaves a job whose progress has changed, and its callers drop it.
\<close>

section \<open>The operations on a valid job\<close>

datatype job_operation =
  FetchManifest u64 | StartDownload u64 | SelectFile string u64 | RecordProgress string u64 u64
| StartVerification u64 | StartPublication u64 | Fail DownloadJobPublicErrorCode u64 | FailChecksum string u64
| ReconcileProgress "u64 list" u64 bool | ForcePause u64

fun apply_operation :: "job_operation \<Rightarrow> DownloadJob \<Rightarrow> job_result" where
  "apply_operation (FetchManifest t) j = mark_fetching_manifest j t"
| "apply_operation (StartDownload t) j = mark_downloading j t"
| "apply_operation (SelectFile p t) j = select_download_file j p t"
| "apply_operation (RecordProgress p b t) j = record_file_progress j p b t"
| "apply_operation (StartVerification t) j = mark_verifying j t"
| "apply_operation (StartPublication t) j = mark_publishing j t"
| "apply_operation (Fail c t) j = mark_failed j c t"
| "apply_operation (FailChecksum p t) j = mark_checksum_failed_for_retry j p t"
| "apply_operation (ReconcileProgress lengths t pause) j = reconcile_file_progress j lengths t pause"
| "apply_operation (ForcePause t) j = (Inr (), force_paused j t)"

fun operation_time :: "job_operation \<Rightarrow> u64" where
  "operation_time (FetchManifest t) = t"
| "operation_time (StartDownload t) = t"
| "operation_time (SelectFile p t) = t"
| "operation_time (RecordProgress p b t) = t"
| "operation_time (StartVerification t) = t"
| "operation_time (StartPublication t) = t"
| "operation_time (Fail c t) = t"
| "operation_time (FailChecksum p t) = t"
| "operation_time (ReconcileProgress lengths t pause) = t"
| "operation_time (ForcePause t) = t"

text \<open>The operations that may pause a job whatever state the store would let follow.\<close>

fun may_pause :: "job_operation \<Rightarrow> bool" where
  "may_pause (ReconcileProgress lengths t pause) \<longleftrightarrow> pause"
| "may_pause (ForcePause t) \<longleftrightarrow> True"
| "may_pause _ \<longleftrightarrow> False"

text \<open>When an operation is allowed, read off the state and the manifest.\<close>

fun operation_enabled :: "job_operation \<Rightarrow> DownloadJob \<Rightarrow> bool" where
  "operation_enabled (FetchManifest t) j \<longleftrightarrow> dj_files j = [] \<and> dj_state j \<in> {CheckingDisk, Paused, Failed}"
| "operation_enabled (StartDownload t) j \<longleftrightarrow> dj_files j \<noteq> [] \<and> dj_state j \<in> {Paused, Failed}"
| "operation_enabled (SelectFile p t) j \<longleftrightarrow> dj_state j = Downloading
     \<and> (\<exists>f \<in> set (dj_files j). df_relative_path f = p \<and> df_bytes_on_disk f < df_expected_bytes f)"
| "operation_enabled (RecordProgress p b t) j \<longleftrightarrow> dj_state j = Downloading
     \<and> (\<exists>f \<in> set (dj_files j). df_relative_path f = p \<and> df_bytes_on_disk f \<le> b \<and> b \<le> df_expected_bytes f)"
| "operation_enabled (StartVerification t) j \<longleftrightarrow> dj_state j = Downloading \<and> dj_bytes_completed j = dj_bytes_total j"
| "operation_enabled (StartPublication t) j \<longleftrightarrow> dj_state j = Verifying"
| "operation_enabled (Fail c t) j \<longleftrightarrow> dj_state j \<noteq> Publishing"
| "operation_enabled (FailChecksum p t) j \<longleftrightarrow> dj_state j = Verifying
     \<and> (\<exists>f \<in> set (dj_files j). df_relative_path f = p)"
| "operation_enabled (ReconcileProgress lengths t pause) j \<longleftrightarrow>
     list_all2 (\<lambda>f b. b \<le> df_expected_bytes f) (dj_files j) lengths
     \<and> (dj_state j = Publishing \<or> dj_state j = Verifying \<and> \<not> pause \<longrightarrow> sum_list (map unat lengths) = unat (dj_bytes_total j))"
| "operation_enabled (ForcePause t) j \<longleftrightarrow> True"

definition same_download :: "DownloadJob \<Rightarrow> DownloadJob \<Rightarrow> bool" where
  "same_download j k \<longleftrightarrow> dj_huggingface_id k = dj_huggingface_id j \<and> dj_revision k = dj_revision j
     \<and> dj_bytes_total k = dj_bytes_total j \<and> map file_identity (dj_files k) = map file_identity (dj_files j)"

definition operation_succeeds :: "u64 \<Rightarrow> DownloadJob \<Rightarrow> job_result \<Rightarrow> bool" where
  "operation_succeeds t j result \<longleftrightarrow> (case result of (r, k) \<Rightarrow> r = Inr () \<and> valid_job k
     \<and> can_replace_with (dj_state j) (dj_state k) \<and> same_download j k \<and> dj_updated_at_unix_millis k = t)"

lemma operation_succeedsI:
  "\<lbrakk>valid_job k; can_replace_with (dj_state j) (dj_state k); same_download j k; dj_updated_at_unix_millis k = t\<rbrakk>
   \<Longrightarrow> operation_succeeds t j (validated k)"
  by (simp add: operation_succeeds_def validated_valid)

lemma paths_distinct:
  assumes "valid_files fs" "i < length fs" "j < length fs" "df_relative_path (fs ! i) = df_relative_path (fs ! j)"
  shows "i = j"
proof (rule ccontr)
  assume "i \<noteq> j"
  have "sorted_wrt path_apart (map normalized_path fs)" using assms(1) by (simp add: valid_files_def)
  then have "path_apart (normalized_path (fs ! a)) (normalized_path (fs ! b))" if "a < b" "b < length fs" for a b
    using that by (simp add: sorted_wrt_iff_nth_less)
  then have "normalized_path (fs ! i) \<noteq> normalized_path (fs ! j)"
    using \<open>i \<noteq> j\<close> assms(2,3) by (metis nat_neq_iff path_apart_def)
  then show False using assms(4) by (simp add: normalized_path_def)
qed

lemma file_position_valid:
  assumes "valid_files fs" "f \<in> set fs"
  shows "\<exists>i. file_position (df_relative_path f) fs = Some i \<and> i < length fs \<and> fs ! i = f"
proof -
  obtain i where i: "file_position (df_relative_path f) fs = Some i"
    using assms(2) file_position_None by (metis option.exhaust)
  obtain k where k: "k < length fs" "fs ! k = f" using assms(2) by (auto simp: in_set_conv_nth)
  have "i = k" using file_position_Some [OF i] k by (intro paths_distinct [OF assms(1)]) auto
  with i k show ?thesis by auto
qed


lemma not_enabled_unchanged:
  assumes "valid_job j" "\<not> operation_enabled oper j" "\<nexists>bs t pause. oper = ReconcileProgress bs t pause"
  shows "\<exists>e. apply_operation oper j = (Inl e, j)"
proof (cases oper)
  case (RecordProgress p b t)
  show ?thesis
  proof (cases "dj_state j = Downloading")
    case True
    show ?thesis
    proof (cases "file_position p (dj_files j)")
      case (Some i)
      note i = file_position_Some [OF Some]
      then have "\<not> (df_bytes_on_disk (dj_files j ! i) \<le> b \<and> b \<le> df_expected_bytes (dj_files j ! i))"
        using assms(2) True RecordProgress by (auto dest: nth_mem)
      then show ?thesis using True Some RecordProgress by (auto simp: record_file_progress_def not_le)
    qed (simp add: True RecordProgress record_file_progress_def)
  qed (simp add: RecordProgress record_file_progress_def)
next
  case (FailChecksum p t)
  show ?thesis
  proof (cases "file_position p (dj_files j)")
    case None
    then show ?thesis using FailChecksum by (simp add: mark_checksum_failed_for_retry_def)
  next
    case (Some i)
    then show ?thesis using FailChecksum assms(2) file_position_Some [OF Some]
      by (auto simp: mark_checksum_failed_for_retry_def dest: nth_mem)
  qed
qed (use assms(2,3) in \<open>auto simp: mark_fetching_manifest_def mark_downloading_def select_download_file_def
    mark_verifying_def mark_publishing_def mark_failed_def has_exact_manifest_def list_ex_iff\<close>)

lemma simple_operations_succeed:
  assumes "valid_job j"
  shows "operation_enabled (FetchManifest t) j \<Longrightarrow> operation_succeeds t j (mark_fetching_manifest j t)"
    "operation_enabled (StartDownload t) j \<Longrightarrow> operation_succeeds t j (mark_downloading j t)"
    "operation_enabled (SelectFile p t) j \<Longrightarrow> operation_succeeds t j (select_download_file j p t)"
    "operation_enabled (StartVerification t) j \<Longrightarrow> operation_succeeds t j (mark_verifying j t)"
    "operation_enabled (StartPublication t) j \<Longrightarrow> operation_succeeds t j (mark_publishing j t)"
    "operation_enabled (Fail c t) j \<Longrightarrow> operation_succeeds t j (mark_failed j c t)"
proof -
  note v = assms [unfolded valid_job_defs]
  show "operation_enabled (FetchManifest t) j \<Longrightarrow> operation_succeeds t j (mark_fetching_manifest j t)"
    using v by (simp add: mark_fetching_manifest_def has_exact_manifest_def)
      (rule operation_succeedsI; auto simp: valid_job_defs can_replace_with_def same_download_def)
  show "operation_enabled (StartDownload t) j \<Longrightarrow> operation_succeeds t j (mark_downloading j t)"
    using v by (simp add: mark_downloading_def has_exact_manifest_def)
      (rule operation_succeedsI; auto simp: valid_job_defs can_replace_with_def same_download_def)
  show "operation_enabled (SelectFile p t) j \<Longrightarrow> operation_succeeds t j (select_download_file j p t)"
    using v by (simp add: select_download_file_def list_ex_iff)
      (rule operation_succeedsI; auto simp: valid_job_defs can_replace_with_def same_download_def)
  show "operation_enabled (StartVerification t) j \<Longrightarrow> operation_succeeds t j (mark_verifying j t)"
    using v by (simp add: mark_verifying_def)
      (rule operation_succeedsI; auto simp: valid_job_defs can_replace_with_def same_download_def)
  show "operation_enabled (StartPublication t) j \<Longrightarrow> operation_succeeds t j (mark_publishing j t)"
    using v by (simp add: mark_publishing_def)
      (rule operation_succeedsI; auto simp: valid_job_defs can_replace_with_def same_download_def)
  show "operation_enabled (Fail c t) j \<Longrightarrow> operation_succeeds t j (mark_failed j c t)"
    using v by (simp add: mark_failed_def)
      (rule operation_succeedsI; auto simp: valid_job_defs can_replace_with_def same_download_def split: DownloadJobState.split)
qed

lemma same_download_update:
  "i < length (dj_files j) \<Longrightarrow>
   map file_identity ((dj_files j)[i := (dj_files j ! i)\<lparr>df_bytes_on_disk := b\<rparr>]) = map file_identity (dj_files j)"
  by (rule map_file_identity_update)

text \<open>Recording progress, and a file that failed its checksum.\<close>

lemma valid_job_with_file:
  assumes j: "valid_job j" and i: "i < length (dj_files j)" and b: "b \<le> df_expected_bytes (dj_files j ! i)"
    and files: "dj_files k = (dj_files j)[i := (dj_files j ! i)\<lparr>df_bytes_on_disk := b\<rparr>]"
    and same: "dj_huggingface_id k = dj_huggingface_id j" "dj_revision k = dj_revision j" "dj_bytes_total k = dj_bytes_total j"
    and completed: "unat (dj_bytes_completed k) + unat (df_bytes_on_disk (dj_files j ! i)) = unat (dj_bytes_completed j) + unat b"
    and phase: "valid_phase k"
  shows "valid_job k \<and> same_download j k"
proof -
  have ids: "map file_identity (dj_files k) = map file_identity (dj_files j)"
    using same_download_update [OF i] files by simp
  have "valid_files (dj_files k)" using j i b unfolding files by (intro valid_files_update) (simp_all add: valid_job_def)
  moreover have "valid_totals k"
    using j same(3) completed on_disk_sum_update [OF i, of "(dj_files j ! i)\<lparr>df_bytes_on_disk := b\<rparr>"]
      expected_sum_update [OF i, of "(dj_files j ! i)\<lparr>df_bytes_on_disk := b\<rparr>"] files
    by (simp add: valid_job_def valid_totals_def)
  ultimately show ?thesis using j phase same ids by (simp add: valid_job_def same_download_def)
qed

lemma exists_path:
  fixes fs gs :: "DownloadJobFile list"
  assumes "set (map df_relative_path fs) = set (map df_relative_path gs)"
  shows "(\<exists>g \<in> set fs. df_relative_path g = q) \<longleftrightarrow> (\<exists>g \<in> set gs. df_relative_path g = q)"
proof -
  have "(\<exists>g \<in> set hs. df_relative_path g = q) \<longleftrightarrow> q \<in> set (map df_relative_path hs)" for hs :: "DownloadJobFile list" by auto
  then show ?thesis using assms by (simp only:)
qed

lemma record_progress_succeeds:
  assumes j: "valid_job j" and enabled: "operation_enabled (RecordProgress p b t) j"
  shows "operation_succeeds t j (record_file_progress j p b t)"
proof -
  obtain f where f: "f \<in> set (dj_files j)" "df_relative_path f = p" "df_bytes_on_disk f \<le> b" "b \<le> df_expected_bytes f"
    and downloading: "dj_state j = Downloading" using enabled by auto
  have files: "valid_files (dj_files j)" using j by (simp add: valid_job_def)
  obtain i where i: "file_position p (dj_files j) = Some i" "i < length (dj_files j)" "dj_files j ! i = f"
    using file_position_valid [OF files f(1)] f(2) by blast
  let ?fs = "(dj_files j)[i := f\<lparr>df_bytes_on_disk := b\<rparr>]"
  have v: "unat (dj_bytes_completed j) = on_disk_sum (dj_files j)" "unat (dj_bytes_total j) = expected_sum ?fs"
    using j f(1) expected_sum_update [OF i(2), of "f\<lparr>df_bytes_on_disk := b\<rparr>"] i(3)
    by (auto simp: valid_job_def valid_totals_def)
  have sum: "on_disk_sum ?fs + unat (df_bytes_on_disk f) = on_disk_sum (dj_files j) + unat b"
    using on_disk_sum_update [OF i(2), of "f\<lparr>df_bytes_on_disk := b\<rparr>"] i(3) by simp
  have "valid_files ?fs" using valid_files_update [OF files i(2), of b] f(4) i(3) by simp
  then have "on_disk_sum ?fs \<le> unat (dj_bytes_total j)" using on_disk_le_expected [of ?fs] v(2) by (simp add: valid_files_def)
  moreover have increment: "unat (b - df_bytes_on_disk f) = unat b - unat (df_bytes_on_disk f)"
    "unat (df_bytes_on_disk f) \<le> unat b"
    using f(3) by (simp_all add: unat_sub_exact word_le_nat_alt)
  ultimately have "unat (dj_bytes_completed j) + unat (b - df_bytes_on_disk f) < 2 ^ LENGTH(64)"
    using sum v(1) u64_bound [of "dj_bytes_total j"] by simp
  then have add: "checked_add (dj_bytes_completed j) (b - df_bytes_on_disk f) = Some (dj_bytes_completed j + (b - df_bytes_on_disk f))"
    and completed: "unat (dj_bytes_completed j + (b - df_bytes_on_disk f)) + unat (df_bytes_on_disk f) = unat (dj_bytes_completed j) + unat b"
    using increment by (simp_all add: checked_add_def unat_add_exact)
  let ?k = "j\<lparr>dj_files := ?fs, dj_bytes_completed := dj_bytes_completed j + (b - df_bytes_on_disk f),
    dj_current_file_relative_path := (if b = df_expected_bytes f \<and> dj_current_file_relative_path j = Some p then None
      else dj_current_file_relative_path j), dj_updated_at_unix_millis := t\<rparr>"
  have in_bounds: "\<not> b < df_bytes_on_disk f" "\<not> df_expected_bytes f < b" using f(3,4) by (simp_all add: not_less)
  have run: "record_file_progress j p b t = validated ?k"
  proof (cases "b = df_expected_bytes f \<and> dj_current_file_relative_path j = Some p")
    case True
    then show ?thesis using downloading i in_bounds add by (simp add: record_file_progress_def Let_def)
  next
    case False
    then show ?thesis using downloading i in_bounds add by (auto simp: record_file_progress_def Let_def)
  qed
  have paths: "set (map df_relative_path ?fs) = set (map df_relative_path (dj_files j))"
    using same_identities(4) [OF same_download_update [OF i(2), of b]] i(3) by simp
  have paths: "(\<exists>g \<in> set ?fs. df_relative_path g = q) \<longleftrightarrow> (\<exists>g \<in> set (dj_files j). df_relative_path g = q)" for q
    using exists_path [OF paths] .
  have "?fs \<noteq> []" using i(2) by auto
  have phase: "valid_phase j" using j by (simp add: valid_job_def)
  have current: "\<exists>g \<in> set ?fs. df_relative_path g = q" if "dj_current_file_relative_path j = Some q" for q
    unfolding paths using phase that by (simp add: valid_phase_def)
  have no_error: "dj_error_code j = None" using phase downloading by (simp add: valid_phase_def)
  have "valid_phase ?k" unfolding valid_phase_def
    using current by (simp add: downloading no_error, use \<open>?fs \<noteq> []\<close> in auto)
  then have "valid_job ?k \<and> same_download j ?k"
    using valid_job_with_file [OF j i(2), of b ?k] f(4) i(3) completed by simp
  then show ?thesis unfolding run using downloading
    by (intro operation_succeedsI) (simp_all add: can_replace_with_def)
qed

lemma checksum_failure_succeeds:
  assumes j: "valid_job j" and enabled: "operation_enabled (FailChecksum p t) j"
  shows "operation_succeeds t j (mark_checksum_failed_for_retry j p t)"
proof -
  obtain f where f: "f \<in> set (dj_files j)" "df_relative_path f = p" and verifying: "dj_state j = Verifying"
    using enabled by auto
  have files: "valid_files (dj_files j)" using j by (simp add: valid_job_def)
  obtain i where i: "file_position p (dj_files j) = Some i" "i < length (dj_files j)" "dj_files j ! i = f"
    using file_position_valid [OF files f(1)] f(2) by blast
  have "df_bytes_on_disk f \<le> dj_bytes_completed j"
    using j on_disk_le_sum [OF i(2)] i(3) by (simp add: valid_job_def valid_totals_def word_le_nat_alt)
  then have sub: "checked_sub (dj_bytes_completed j) (df_bytes_on_disk f) = Some (dj_bytes_completed j - df_bytes_on_disk f)"
    and completed: "unat (dj_bytes_completed j - df_bytes_on_disk f) + unat (df_bytes_on_disk f) = unat (dj_bytes_completed j)"
    by (simp_all add: checked_sub_def unat_sub_exact word_le_nat_alt)
  let ?k = "j\<lparr>dj_files := (dj_files j)[i := f\<lparr>df_bytes_on_disk := 0\<rparr>],
    dj_bytes_completed := dj_bytes_completed j - df_bytes_on_disk f, dj_state := Failed,
    dj_error_code := Some ChecksumMismatch, dj_current_file_relative_path := None, dj_updated_at_unix_millis := t\<rparr>"
  have run: "mark_checksum_failed_for_retry j p t = validated ?k"
    using verifying i sub by (simp add: mark_checksum_failed_for_retry_def Let_def)
  have "valid_job ?k \<and> same_download j ?k"
    using valid_job_with_file [OF j i(2), of 0 ?k] i(3) completed by (simp add: valid_phase_def)
  then show ?thesis unfolding run using verifying
    by (intro operation_succeedsI) (simp_all add: can_replace_with_def)
qed

text \<open>Reconciliation: the files take the given lengths, one after the other.\<close>

definition with_progress :: "DownloadJobFile list \<Rightarrow> u64 list \<Rightarrow> DownloadJobFile list" where
  "with_progress = map2 (\<lambda>f b. f\<lparr>df_bytes_on_disk := b\<rparr>)"

lemma with_progress_simps [simp]:
  "with_progress [] bs = []" "with_progress fs [] = []"
  "with_progress (f # fs) (b # bs) = f\<lparr>df_bytes_on_disk := b\<rparr> # with_progress fs bs"
  by (simp_all add: with_progress_def)

lemma with_progress_parts:
  assumes "length fs = length bs"
  shows "map file_identity (with_progress fs bs) = map file_identity fs"
    "map df_bytes_on_disk (with_progress fs bs) = bs"
  using assms by (induction fs bs rule: list_induct2) simp_all

lemma with_progress_fits:
  "list_all2 (\<lambda>f b. b \<le> df_expected_bytes f) fs bs \<Longrightarrow>
   \<forall>f \<in> set (with_progress fs bs). df_bytes_on_disk f \<le> df_expected_bytes f"
  by (induction rule: list_all2_induct) auto

lemma on_disk_sum_map: "on_disk_sum fs = sum_list (map unat (map df_bytes_on_disk fs))"
  by (simp add: on_disk_sum_def comp_def)

lemma reconcile_files_fitting:
  assumes "list_all2 (\<lambda>f b. b \<le> df_expected_bytes f) fs bs" "unat c + sum_list (map unat bs) < 2 ^ 64"
  shows "\<exists>c'. reconcile_files n c fs bs = (Inr c', with_progress fs bs) \<and> unat c' = unat c + sum_list (map unat bs)"
  using assms
proof (induction arbitrary: n c rule: list_all2_induct)
  case (Cons f fs b bs)
  have sum: "unat c + unat b < 2 ^ LENGTH(64)" using Cons.prems by simp
  then have add: "unat (c + b) = unat c + unat b" by (rule unat_add_exact)
  then obtain c' where "reconcile_files (Suc n) (c + b) fs bs = (Inr c', with_progress fs bs)"
    "unat c' = unat (c + b) + sum_list (map unat bs)"
    using Cons.IH [of "c + b" "Suc n"] Cons.prems by auto
  then show ?case using Cons.hyps(1) sum add by (simp add: not_less checked_add_def Let_def)
qed simp

lemma reconcile_files_identities: "map file_identity (snd (reconcile_files n c fs bs)) = map file_identity fs"
  by (induction n c fs bs rule: reconcile_files.induct) (auto simp: Let_def case_prod_beta split: option.split)

lemma reconcile_files_Inr:
  "\<lbrakk>reconcile_files n c fs bs = (Inr c', fs'); length fs = length bs\<rbrakk> \<Longrightarrow>
   list_all2 (\<lambda>f b. b \<le> df_expected_bytes f) fs bs"
  by (induction n c fs bs arbitrary: fs' rule: reconcile_files.induct)
    (auto simp: Let_def not_less split: if_splits option.splits prod.splits)

definition reconciled_to :: "u64 list \<Rightarrow> u64 \<Rightarrow> bool \<Rightarrow> DownloadJob \<Rightarrow> DownloadJob" where
  "reconciled_to bs t pause j =
     (let k = j\<lparr>dj_files := with_progress (dj_files j) bs, dj_bytes_completed := of_nat (sum_list (map unat bs)),
                dj_current_file_relative_path := None, dj_updated_at_unix_millis := t\<rparr>
      in if pause \<and> is_interrupted_by_restart (dj_state j) then k\<lparr>dj_state := Paused, dj_error_code := None\<rparr> else k)"

lemma fitting_lengths_bound:
  assumes j: "valid_job j" and fits: "list_all2 (\<lambda>f b. b \<le> df_expected_bytes f) (dj_files j) bs"
  shows "sum_list (map unat bs) \<le> unat (dj_bytes_total j)"
proof -
  have "sum_list (map unat bs) \<le> expected_sum (dj_files j)"
    using fits by (induction rule: list_all2_induct) (simp_all add: word_le_nat_alt add_mono)
  also have "\<dots> \<le> unat (dj_bytes_total j)"
    using j by (cases "dj_files j = []") (simp_all add: valid_job_def valid_totals_def)
  finally show ?thesis .
qed

lemma reconcile_run:
  assumes j: "valid_job j" and fits: "list_all2 (\<lambda>f b. b \<le> df_expected_bytes f) (dj_files j) bs"
  shows "reconcile_file_progress j bs t pause = validated (reconciled_to bs t pause j)"
proof -
  have bound: "unat (0 :: u64) + sum_list (map unat bs) < 2 ^ 64"
    using fitting_lengths_bound [OF assms] u64_bound [of "dj_bytes_total j"] by simp
  obtain c where c: "reconcile_files 0 0 (dj_files j) bs = (Inr c, with_progress (dj_files j) bs)"
    "unat c = sum_list (map unat bs)" using reconcile_files_fitting [OF fits bound] by auto
  have "c = of_nat (sum_list (map unat bs))" by (simp flip: c(2))
  then show ?thesis using c(1) list_all2_lengthD [OF fits]
    by (cases j) (simp add: reconcile_file_progress_def reconciled_to_def Let_def)
qed

lemma reconciled_parts:
  assumes j: "valid_job j" and fits: "list_all2 (\<lambda>f b. b \<le> df_expected_bytes f) (dj_files j) bs"
  shows "valid_files (dj_files (reconciled_to bs t pause j))" "valid_totals (reconciled_to bs t pause j)"
    "same_download j (reconciled_to bs t pause j)" "map df_bytes_on_disk (dj_files (reconciled_to bs t pause j)) = bs"
    "unat (dj_bytes_completed (reconciled_to bs t pause j)) = sum_list (map unat bs)"
proof -
  let ?fs = "with_progress (dj_files j) bs"
  have files: "dj_files (reconciled_to bs t pause j) = ?fs" by (simp add: reconciled_to_def Let_def)
  note parts = with_progress_parts [OF list_all2_lengthD [OF fits]]
  show "valid_files (dj_files (reconciled_to bs t pause j))" unfolding files
    using j with_progress_fits [OF fits] by (intro valid_files_same_identities [OF parts(1)]) (simp_all add: valid_job_def)
  show "same_download j (reconciled_to bs t pause j)"
    using parts(1) by (simp add: same_download_def reconciled_to_def Let_def)
  show "map df_bytes_on_disk (dj_files (reconciled_to bs t pause j)) = bs" unfolding files by (rule parts(2))
  show completed: "unat (dj_bytes_completed (reconciled_to bs t pause j)) = sum_list (map unat bs)"
    using fitting_lengths_bound [OF assms] u64_bound [of "dj_bytes_total j"]
    by (simp add: reconciled_to_def Let_def unsigned_of_nat take_bit_nat_eq_self)
  have "?fs \<noteq> [] \<longrightarrow> dj_files j \<noteq> []" by auto
  then show "valid_totals (reconciled_to bs t pause j)"
    using j completed parts(2) same_identities(3) [OF parts(1)] on_disk_sum_map [of ?fs]
    unfolding valid_totals_def files by (auto simp: valid_job_def valid_totals_def reconciled_to_def Let_def)
qed

lemma reconciled_valid_iff:
  assumes j: "valid_job j" and fits: "list_all2 (\<lambda>f b. b \<le> df_expected_bytes f) (dj_files j) bs"
  shows "valid_job (reconciled_to bs t pause j) \<longleftrightarrow> operation_enabled (ReconcileProgress bs t pause) j"
proof -
  note parts = reconciled_parts [OF assms, of t pause]
  have "valid_identity (dj_huggingface_id (reconciled_to bs t pause j)) (dj_revision (reconciled_to bs t pause j))"
    using j by (simp add: valid_job_def reconciled_to_def Let_def)
  then have "valid_job (reconciled_to bs t pause j) \<longleftrightarrow> valid_phase (reconciled_to bs t pause j)"
    using parts by (simp add: valid_job_def)
  also have "\<dots> \<longleftrightarrow> (dj_state j = Publishing \<or> dj_state j = Verifying \<and> \<not> pause \<longrightarrow>
      dj_bytes_completed (reconciled_to bs t pause j) = dj_bytes_total j)"
    using j list_all2_lengthD [OF fits] unfolding valid_job_def valid_phase_def
    by (cases "dj_state j") (auto simp: reconciled_to_def Let_def is_interrupted_by_restart_def with_progress_def)
  finally show ?thesis using fits parts(5) by (simp add: word_unat_eq_iff)
qed

lemma reconcile_refused:
  assumes j: "valid_job j" and refused: "\<not> operation_enabled (ReconcileProgress bs t pause) j"
  shows "\<exists>e k. reconcile_file_progress j bs t pause = (Inl e, k) \<and> same_download j k \<and> dj_state k = dj_state j"
proof (cases "list_all2 (\<lambda>f b. b \<le> df_expected_bytes f) (dj_files j) bs")
  case True
  have "\<not> (pause \<and> is_interrupted_by_restart (dj_state j))"
    using refused True by (auto simp: is_interrupted_by_restart_def)
  then have state: "dj_state (reconciled_to bs t pause j) = dj_state j" by (auto simp: reconciled_to_def Let_def)
  have "job_validate (reconciled_to bs t pause j) \<noteq> Inr ()"
    using reconciled_valid_iff [OF j True] refused by (simp add: job_validate_iff)
  then obtain e where "validated (reconciled_to bs t pause j) = (Inl e, reconciled_to bs t pause j)"
    by (cases "job_validate (reconciled_to bs t pause j)") (auto simp: validated_def)
  then show ?thesis using reconcile_run [OF j True] state reconciled_parts(3) [OF j True] by simp
next
  case False
  show ?thesis
  proof (cases "length bs = length (dj_files j)")
    case True
    then obtain e fs where "reconcile_files 0 0 (dj_files j) bs = (Inl e, fs)"
      using False reconcile_files_Inr [of 0 0 "dj_files j" bs]
      by (cases "reconcile_files 0 0 (dj_files j) bs"; cases "fst (reconcile_files 0 0 (dj_files j) bs)") auto
    then show ?thesis using True reconcile_files_identities [of 0 0 "dj_files j" bs]
      by (simp add: reconcile_file_progress_def same_download_def)
  next
    case False
    then show ?thesis by (simp add: reconcile_file_progress_def same_download_def)
  qed
qed

text \<open>What every operation does to a valid job: the success of the two that may pause leaves out the store's
  order of states, the refusal of a reconciliation the unchanged job.\<close>

definition operation_pauses :: "u64 \<Rightarrow> DownloadJob \<Rightarrow> job_result \<Rightarrow> bool" where
  "operation_pauses t j result \<longleftrightarrow> (case result of (r, k) \<Rightarrow> r = Inr () \<and> valid_job k
     \<and> same_download j k \<and> dj_updated_at_unix_millis k = t \<and> dj_state k \<in> {dj_state j, Paused})"

lemma force_paused_valid:
  assumes "valid_identity (dj_huggingface_id j) (dj_revision j)" "valid_files (dj_files j)" "valid_totals j"
  shows "valid_job (force_paused j t)"
  using assms by (simp add: force_paused_def valid_job_def valid_totals_def valid_phase_def)

lemma reconcile_succeeds:
  assumes j: "valid_job j" and enabled: "operation_enabled (ReconcileProgress bs t pause) j"
  shows "reconcile_file_progress j bs t pause = (Inr (), reconciled_to bs t pause j)"
    "operation_pauses t j (reconcile_file_progress j bs t pause)"
    "\<not> pause \<Longrightarrow> operation_succeeds t j (reconcile_file_progress j bs t pause)"
proof -
  have fits: "list_all2 (\<lambda>f b. b \<le> df_expected_bytes f) (dj_files j) bs" using enabled by simp
  have valid: "valid_job (reconciled_to bs t pause j)" using reconciled_valid_iff [OF j fits] enabled by blast
  show run: "reconcile_file_progress j bs t pause = (Inr (), reconciled_to bs t pause j)"
    using reconcile_run [OF j fits] validated_valid [OF valid] by simp
  note parts = reconciled_parts(3) [OF j fits, of t pause]
  show "operation_pauses t j (reconcile_file_progress j bs t pause)"
    unfolding run operation_pauses_def using valid parts by (simp add: reconciled_to_def Let_def)
  show "operation_succeeds t j (reconcile_file_progress j bs t pause)" if "\<not> pause"
    unfolding run operation_succeeds_def using valid parts that
    by (simp add: reconciled_to_def Let_def can_replace_with_def split: DownloadJobState.split)
qed

lemma force_pause_succeeds: "valid_job j \<Longrightarrow> operation_pauses t j (Inr (), force_paused j t)"
  using force_paused_valid [of j t] by (simp add: operation_pauses_def valid_job_def same_download_def force_paused_def)

lemma operation_exact:
  assumes "valid_job j"
  shows "if operation_enabled oper j
    then (if may_pause oper then operation_pauses else operation_succeeds) (operation_time oper) j (apply_operation oper j)
    else \<exists>e k. apply_operation oper j = (Inl e, k) \<and> same_download j k \<and> dj_state k = dj_state j
      \<and> (k = j \<or> (\<exists>bs t pause. oper = ReconcileProgress bs t pause))"
proof (cases "operation_enabled oper j")
  case True
  show ?thesis
  proof (cases oper)
    case (ReconcileProgress bs t pause)
    then show ?thesis using True reconcile_succeeds(2,3) [OF assms, of bs t pause]
      by (cases pause) (simp_all del: operation_enabled.simps)
  next
    case (ForcePause t)
    then show ?thesis using force_pause_succeeds [OF assms] by simp
  qed (use True simple_operations_succeed [OF assms] record_progress_succeeds [OF assms]
      checksum_failure_succeeds [OF assms] in \<open>simp_all del: operation_enabled.simps\<close>)
next
  case False
  show ?thesis
  proof (cases "\<exists>bs t pause. oper = ReconcileProgress bs t pause")
    case True
    then show ?thesis using False reconcile_refused [OF assms] by (auto simp del: operation_enabled.simps)
  next
    case other: False
    then show ?thesis using False not_enabled_unchanged [OF assms False] by (auto simp: same_download_def)
  qed
qed

section \<open>A download that runs to the end\<close>

fun run_operations :: "job_operation list \<Rightarrow> DownloadJob \<Rightarrow> DownloadJobError + DownloadJob" where
  "run_operations [] j = Inr j"
| "run_operations (oper # opers) j =
     (case apply_operation oper j of (Inl e, k) \<Rightarrow> Inl e | (Inr _, k) \<Rightarrow> run_operations opers k)"

lemma run_operations_append:
  "run_operations (xs @ ys) j = (case run_operations xs j of Inl e \<Rightarrow> Inl e | Inr k \<Rightarrow> run_operations ys k)"
  by (induction xs arbitrary: j) (auto split: sum.splits prod.splits)

lemma run_enabled:
  assumes "valid_job j" "operation_enabled oper j"
  shows "\<exists>k. apply_operation oper j = (Inr (), k) \<and> valid_job k \<and> same_download j k
    \<and> run_operations (oper # opers) j = run_operations opers k"
  using operation_exact [OF assms(1), of oper] assms(2)
  by (auto simp: operation_succeeds_def operation_pauses_def split: prod.splits if_splits)

lemma same_download_trans: "\<lbrakk>same_download i j; same_download j k\<rbrakk> \<Longrightarrow> same_download i k"
  by (simp add: same_download_def)

lemma same_download_refl: "same_download j j"
  by (simp add: same_download_def)

lemma record_progress_effect:
  assumes "record_file_progress j p b t = (Inr (), k)"
  shows "dj_state k = Downloading" "\<exists>i. file_position p (dj_files j) = Some i
    \<and> dj_files k = (dj_files j)[i := (dj_files j ! i)\<lparr>df_bytes_on_disk := b\<rparr>]"
  using assms by (auto simp: record_file_progress_def Let_def validated_def split: if_splits option.splits)

text \<open>The progress calls that finish every file of a job.\<close>

definition finish_file :: "u64 \<Rightarrow> DownloadJobFile \<Rightarrow> job_operation" where
  "finish_file t f = RecordProgress (df_relative_path f) (df_expected_bytes f) t"

definition complete_file :: "DownloadJob \<Rightarrow> string \<times> u64 \<times> DownloadFileDigest \<Rightarrow> bool" where
  "complete_file j identity \<longleftrightarrow>
     (\<forall>f \<in> set (dj_files j). file_identity f = identity \<longrightarrow> df_bytes_on_disk f = df_expected_bytes f)"

lemma finish_one:
  assumes j: "valid_job j" "dj_state j = Downloading" and g: "file_identity g \<in> set (map file_identity (dj_files j))"
  shows "\<exists>k. apply_operation (finish_file t g) j = (Inr (), k) \<and> valid_job k \<and> same_download j k
    \<and> dj_state k = Downloading \<and> complete_file k (file_identity g)
    \<and> (\<forall>x. complete_file j x \<longrightarrow> complete_file k x)"
proof -
  obtain f where f: "f \<in> set (dj_files j)" "file_identity f = file_identity g" using g by auto
  then have parts: "df_relative_path f = df_relative_path g" "df_expected_bytes f = df_expected_bytes g"
    by (simp_all add: file_identity_def)
  have files: "valid_files (dj_files j)" using j by (simp add: valid_job_def)
  have "operation_enabled (finish_file t g) j"
    using j f parts on_disk_bounds [OF files f(1)] by (auto simp: finish_file_def)
  then obtain k where k: "apply_operation (finish_file t g) j = (Inr (), k)" "valid_job k" "same_download j k"
    using run_enabled [OF j(1)] by blast
  then have run: "record_file_progress j (df_relative_path g) (df_expected_bytes g) t = (Inr (), k)"
    by (simp add: finish_file_def)
  obtain i where i: "file_position (df_relative_path f) (dj_files j) = Some i" "i < length (dj_files j)" "dj_files j ! i = f"
    using file_position_valid [OF files f(1)] by blast
  have update: "dj_files k = (dj_files j)[i := f\<lparr>df_bytes_on_disk := df_expected_bytes f\<rparr>]"
    using record_progress_effect(2) [OF run] i parts by auto
  have files_k: "h = f\<lparr>df_bytes_on_disk := df_expected_bytes f\<rparr> \<or> h \<in> set (dj_files j)" if "h \<in> set (dj_files k)" for h
    using that set_update_subset_insert [of "dj_files j" i] unfolding update by blast
  have "complete_file k (file_identity g)"
  proof (unfold complete_file_def, intro ballI impI)
    fix h assume h: "h \<in> set (dj_files k)" "file_identity h = file_identity g"
    obtain n where n: "n < length (dj_files k)" "dj_files k ! n = h" using h(1) by (auto simp: in_set_conv_nth)
    have i_k: "i < length (dj_files k)" "dj_files k ! i = f\<lparr>df_bytes_on_disk := df_expected_bytes f\<rparr>"
      using i(2) by (simp_all add: update)
    have "n = i" using k(2) n i_k h(2) parts
      by (intro paths_distinct [of "dj_files k"]) (simp_all add: valid_job_def file_identity_def)
    then show "df_bytes_on_disk h = df_expected_bytes h" using n i_k by auto
  qed
  moreover have "complete_file k x" if "complete_file j x" for x
  proof (unfold complete_file_def, intro ballI impI)
    fix h assume h: "h \<in> set (dj_files k)" "file_identity h = x"
    show "df_bytes_on_disk h = df_expected_bytes h"
      using files_k [OF h(1)] that h(2) by (auto simp: complete_file_def)
  qed
  ultimately show ?thesis using k record_progress_effect(1) [OF run] by blast
qed

lemma finish_all:
  assumes "valid_job j" "dj_state j = Downloading" "\<forall>g \<in> set gs. file_identity g \<in> set (map file_identity (dj_files j))"
  shows "\<exists>k. run_operations (map (finish_file t) gs) j = Inr k \<and> valid_job k \<and> same_download j k
    \<and> dj_state k = Downloading \<and> (\<forall>g \<in> set gs. complete_file k (file_identity g))
    \<and> (\<forall>x. complete_file j x \<longrightarrow> complete_file k x)"
  using assms
proof (induction gs arbitrary: j)
  case Nil
  then show ?case by (simp add: same_download_refl)
next
  case (Cons g gs)
  obtain k where k: "apply_operation (finish_file t g) j = (Inr (), k)" "valid_job k" "same_download j k"
    "dj_state k = Downloading" "complete_file k (file_identity g)" "\<forall>x. complete_file j x \<longrightarrow> complete_file k x"
    using finish_one [OF Cons.prems(1,2), of g t] Cons.prems(3) by auto
  have "\<forall>g \<in> set gs. file_identity g \<in> set (map file_identity (dj_files k))"
    using Cons.prems(3) k(3) by (simp only: same_download_def list.set insert_iff) blast
  then obtain l where "run_operations (map (finish_file t) gs) k = Inr l" "valid_job l" "same_download k l"
    "dj_state l = Downloading" "\<forall>g \<in> set gs. complete_file l (file_identity g)" "\<forall>x. complete_file k x \<longrightarrow> complete_file l x"
    using Cons.IH [OF k(2,4)] by blast
  moreover from this k(5) have "complete_file l (file_identity g)" by blast
  moreover have "run_operations (map (finish_file t) (g # gs)) j = run_operations (map (finish_file t) gs) k"
    using k(1) by simp
  ultimately show ?case using k(3,6) same_download_trans
    by (intro exI [of _ l]) (simp only: list.set ball_simps simp_thms, blast)
qed

lemma all_complete_sums:
  "\<forall>f \<in> set fs. df_bytes_on_disk f = df_expected_bytes f \<Longrightarrow> on_disk_sum fs = expected_sum fs"
  by (induction fs) auto

lemma complete_run:
  assumes j: "valid_job j" and files: "dj_files j \<noteq> []" and state: "dj_state j \<in> {Paused, Failed}"
  shows "\<exists>k. run_operations (StartDownload t # map (finish_file t) (dj_files j) @ [StartVerification t, StartPublication t]) j = Inr k
    \<and> valid_job k \<and> same_download j k \<and> dj_state k = Publishing"
proof -
  have "operation_enabled (StartDownload t) j" using files state by simp
  from run_enabled [OF j this] obtain d where d: "mark_downloading j t = (Inr (), d)" "valid_job d" "same_download j d"
    by auto
  have downloading: "dj_state d = Downloading"
    using d(1) by (auto simp: mark_downloading_def validated_def split: if_splits)
  have "\<forall>g \<in> set (dj_files j). file_identity g \<in> set (map file_identity (dj_files d))"
    using d(3) unfolding same_download_def by (metis image_eqI image_set)
  from finish_all [OF d(2) downloading this, of t] obtain c where c:
    "run_operations (map (finish_file t) (dj_files j)) d = Inr c" "valid_job c" "same_download d c" "dj_state c = Downloading"
    "\<forall>g \<in> set (dj_files j). complete_file c (file_identity g)" by blast
  have same: "same_download j c" using d(3) c(3) by (rule same_download_trans)
  have "df_bytes_on_disk f = df_expected_bytes f" if "f \<in> set (dj_files c)" for f
  proof -
    have "file_identity f \<in> set (map file_identity (dj_files j))"
      using that same unfolding same_download_def by (metis image_eqI image_set)
    then obtain g where "g \<in> set (dj_files j)" "file_identity f = file_identity g" by auto
    then show ?thesis using c(5) that unfolding complete_file_def by blast
  qed
  then have "on_disk_sum (dj_files c) = expected_sum (dj_files c)" using all_complete_sums by blast
  moreover have "dj_files c \<noteq> []" using c(2,4) by (simp add: valid_job_def valid_phase_def)
  ultimately have "dj_bytes_completed c = dj_bytes_total c"
    using c(2) by (simp add: valid_job_def valid_totals_def word_unat_eq_iff)
  then have "operation_enabled (StartVerification t) c" using c(4) by simp
  from run_enabled [OF c(2) this] obtain v where v: "mark_verifying c t = (Inr (), v)" "valid_job v" "same_download c v"
    by auto
  have "dj_state v = Verifying" using v(1) by (auto simp: mark_verifying_def validated_def split: if_splits)
  then have "operation_enabled (StartPublication t) v" by simp
  from run_enabled [OF v(2) this] obtain p where p: "mark_publishing v t = (Inr (), p)" "valid_job p" "same_download v p"
    by auto
  have "dj_state p = Publishing" using p(1) by (auto simp: mark_publishing_def validated_def split: if_splits)
  moreover have "same_download j p" using same_download_trans [OF same_download_trans [OF same v(3)] p(3)] .
  moreover have "run_operations (StartDownload t # map (finish_file t) (dj_files j) @ [StartVerification t, StartPublication t]) j = Inr p"
    using d(1) c(1) v(1) p(1) by (simp add: run_operations_append)
  ultimately show ?thesis using p(2) by blast
qed

section \<open>Properties\<close>

text \<open>C15. What each of the ten operations does to a valid job. When the state and the manifest allow it, it
  succeeds with a valid job of the same download (identity, revision, files and totals), stamped with
  the new time, in a state the store may replace the old one with; the two operations that may pause
  (a reconciliation at a restart and a forced pause) leave the state or the pause, and a reconciliation
  gives every file exactly the length it was told. Otherwise it fails, in the same state of the same
  download; the job is left as it was, except by a refused reconciliation, which has already written
  the progress of files before it fails (its callers drop that job).\<close>

theorem job_operations_atomic:
  assumes "job_validate j = Inr ()"
  shows "if operation_enabled oper j
    then \<exists>k. apply_operation oper j = (Inr (), k) \<and> job_validate k = Inr ()
      \<and> (if may_pause oper then dj_state k \<in> {dj_state j, Paused} else can_replace_with (dj_state j) (dj_state k))
      \<and> dj_huggingface_id k = dj_huggingface_id j
      \<and> dj_revision k = dj_revision j \<and> dj_bytes_total k = dj_bytes_total j
      \<and> map file_identity (dj_files k) = map file_identity (dj_files j)
      \<and> dj_updated_at_unix_millis k = operation_time oper
      \<and> (\<forall>lengths t pause. oper = ReconcileProgress lengths t pause \<longrightarrow> map df_bytes_on_disk (dj_files k) = lengths)
    else \<exists>e k. apply_operation oper j = (Inl e, k) \<and> dj_state k = dj_state j
      \<and> dj_huggingface_id k = dj_huggingface_id j
      \<and> dj_revision k = dj_revision j \<and> dj_bytes_total k = dj_bytes_total j
      \<and> map file_identity (dj_files k) = map file_identity (dj_files j)
      \<and> (k = j \<or> (\<exists>lengths t pause. oper = ReconcileProgress lengths t pause))"
proof -
  have j: "valid_job j" using assms by (simp add: job_validate_iff)
  show ?thesis
  proof (cases "operation_enabled oper j")
    case True
    then obtain k where k: "apply_operation oper j = (Inr (), k)" "valid_job k" "same_download j k"
      "dj_updated_at_unix_millis k = operation_time oper"
      "if may_pause oper then dj_state k \<in> {dj_state j, Paused} else can_replace_with (dj_state j) (dj_state k)"
      using operation_exact [OF j, of oper]
      by (auto simp: operation_succeeds_def operation_pauses_def split: if_splits prod.splits)
    moreover have "map df_bytes_on_disk (dj_files k) = lengths" if "oper = ReconcileProgress lengths t pause" for lengths t pause
      using that True k(1) reconcile_succeeds(1) [OF j, of lengths t pause] reconciled_parts(4) [OF j, of lengths t pause]
      by simp
    ultimately show ?thesis using True by (auto simp: job_validate_iff same_download_def)
  next
    case False
    then show ?thesis using operation_exact [OF j, of oper] by (auto simp: same_download_def)
  qed
qed

theorem job_operations_atomic_witness:
  "\<exists>k. apply_operation (StartDownload 7) sample_job = (Inr (), k) \<and> can_replace_with Paused (dj_state k)"
proof -
  have "job_validate sample_job = Inr ()" using sample_valid by (simp add: job_validate_iff)
  from job_operations_atomic [OF this, of "StartDownload 7"] show ?thesis
    by (auto simp: sample_job_def)
qed

text \<open>The exception is real: a reconciliation that fails at the second file has moved the first.\<close>

lemma refused_reconciliation_moves_progress:
  "reconcile_files 0 0 [sample_file, sample_file\<lparr>df_expected_bytes := 1\<rparr>] [3, 2]
   = (Inl (InvalidFileProgress 1), [sample_file\<lparr>df_bytes_on_disk := 3\<rparr>, sample_file\<lparr>df_expected_bytes := 1\<rparr>])"
  by (simp add: sample_file_def checked_add_def)

text \<open>C16. A download can always be brought to publication: from any valid job that is paused or failed and has
  its manifest, starting it, receiving the rest of every file, verifying and publishing all succeed,
  and the job that results is valid, publishing, and complete.\<close>

theorem download_reaches_publishing:
  assumes "job_validate j = Inr ()" "has_exact_manifest j" "dj_state j \<in> {Paused, Failed}"
  shows "\<exists>k. run_operations (StartDownload t # map (finish_file t) (dj_files j) @ [StartVerification t, StartPublication t]) j = Inr k
    \<and> job_validate k = Inr () \<and> dj_state k = Publishing \<and> dj_bytes_completed k = dj_bytes_total j
    \<and> map file_identity (dj_files k) = map file_identity (dj_files j)"
proof -
  obtain k where "run_operations (StartDownload t # map (finish_file t) (dj_files j) @ [StartVerification t, StartPublication t]) j = Inr k"
    "valid_job k" "same_download j k" "dj_state k = Publishing"
    using complete_run [of j t] assms unfolding job_validate_iff has_exact_manifest_def by blast
  then show ?thesis by (auto simp: job_validate_iff same_download_def valid_job_def valid_phase_def)
qed

theorem download_reaches_publishing_witness:
  "\<exists>k. run_operations (StartDownload 9 # map (finish_file 9) [sample_file] @ [StartVerification 9, StartPublication 9]) sample_job = Inr k
    \<and> dj_bytes_completed k = 3"
proof -
  have "job_validate sample_job = Inr ()" "has_exact_manifest sample_job" "dj_state sample_job \<in> {Paused, Failed}"
    using sample_valid by (simp_all add: job_validate_iff has_exact_manifest_def sample_job_def)
  from download_reaches_publishing [OF this, of 9] show ?thesis by (auto simp: sample_job_def)
qed

end
