(* ===== verification/Download_Store.thy ===== *)
theory Download_Store
  imports Download_Transitions
begin

text \<open>
  The store of the one durable download job and its publication: \<^verbatim>\<open>download/job/store.rs\<close>,
  \<^verbatim>\<open>store/publication.rs\<close>, \<^verbatim>\<open>transfer/payload_verification.rs\<close> and
  \<^verbatim>\<open>publication/provenance.rs\<close> (under \<^verbatim>\<open>apps/daemon/src/library\<close>). The store under the models directory is
  the job document, the staging trees and the published trees by model identity; a tree maps a relative path
  to the bytes of its file. A document is held as the job it decodes to: the serializer is represented by the
  length of the text it writes. The system calls themselves succeed (a failing call leaves before the state
  changes), the two locks make an operation atomic, and the digests are arguments.
\<close>

section \<open>State\<close>

type_synonym tree = "string \<Rightarrow> string option"

record library_store =
  ls_job :: "DownloadJob option"
  ls_staging :: "string \<Rightarrow> tree option"
  ls_published :: "string \<Rightarrow> tree option"

datatype DownloadJobStoreError =
  JobDocumentTooLarge | InvalidJob DownloadJobError | JobAlreadyExists | JobNotFound | JobIdentityMismatch
| InvalidJobReplacement | PublishingRecoveryRequired | StagedFileTooLarge string | InconsistentPublicationState
| PublishedModelAlreadyExists | DiscoveryRefresh

text \<open>What verification of a tree reports: a file that cannot be opened, or one with the wrong bytes.\<close>

datatype PayloadError = WritePayload string | PayloadChecksumMismatch string

type_synonym 'a store_result = "(DownloadJobStoreError + 'a) \<times> library_store"

definition store_validate :: "DownloadJob \<Rightarrow> DownloadJobStoreError + unit" where
  "store_validate job = (case job_validate job of Inl e \<Rightarrow> Inl (InvalidJob e) | Inr _ \<Rightarrow> Inr ())"

section \<open>The job document\<close>

definition load_unlocked :: "(DownloadJob \<Rightarrow> nat) \<Rightarrow> library_store \<Rightarrow> DownloadJobStoreError + DownloadJob option" where
  "load_unlocked document_length store =
     (case ls_job store of
        None \<Rightarrow> Inr None
      | Some job \<Rightarrow>
          if 8000000 < document_length job then Inl JobDocumentTooLarge
          else result_bind (store_validate job) (\<lambda>_. Inr (Some job)))"

definition store_create :: "(DownloadJob \<Rightarrow> nat) \<Rightarrow> DownloadJob \<Rightarrow> library_store \<Rightarrow> unit store_result" where
  "store_create document_length job store =
     (case store_validate job of
        Inl e \<Rightarrow> (Inl e, store)
      | Inr _ \<Rightarrow>
          if 8000000 < document_length job then (Inl JobDocumentTooLarge, store)
          else if ls_job store \<noteq> None then (Inl JobAlreadyExists, store)
          else (Inr (), store\<lparr>ls_job := Some job\<rparr>))"

definition save_unlocked :: "(DownloadJob \<Rightarrow> nat) \<Rightarrow> DownloadJob \<Rightarrow> library_store \<Rightarrow> unit store_result" where
  "save_unlocked document_length job store =
     (case store_validate job of
        Inl e \<Rightarrow> (Inl e, store)
      | Inr _ \<Rightarrow>
          if 8000000 < document_length job then (Inl JobDocumentTooLarge, store)
          else (Inr (), store\<lparr>ls_job := Some job\<rparr>))"

definition resets_invalid_file_for_retry :: "DownloadJob \<Rightarrow> DownloadJob \<Rightarrow> bool" where
  "resets_invalid_file_for_retry current_job replacement_job \<longleftrightarrow>
     dj_state current_job = Verifying \<and> dj_state replacement_job = Failed
     \<and> dj_error_code replacement_job = Some ChecksumMismatch"

definition replace_current :: "(DownloadJob \<Rightarrow> nat) \<Rightarrow> DownloadJob \<Rightarrow> library_store \<Rightarrow> unit store_result" where
  "replace_current document_length replacement_job store =
     (case load_unlocked document_length store of
        Inl e \<Rightarrow> (Inl e, store)
      | Inr None \<Rightarrow> (Inl JobNotFound, store)
      | Inr (Some current_job) \<Rightarrow>
          if dj_state current_job = Publishing then (Inl PublishingRecoveryRequired, store)
          else if dj_huggingface_id current_job \<noteq> dj_huggingface_id replacement_job
                  \<or> dj_revision current_job \<noteq> dj_revision replacement_job
          then (Inl JobIdentityMismatch, store)
          else if dj_updated_at_unix_millis replacement_job < dj_updated_at_unix_millis current_job
                  \<or> (dj_bytes_completed replacement_job < dj_bytes_completed current_job
                      \<and> \<not> resets_invalid_file_for_retry current_job replacement_job)
                  \<or> (has_exact_manifest current_job \<and> \<not> has_exact_manifest replacement_job)
                  \<or> \<not> can_replace_with (dj_state current_job) (dj_state replacement_job)
          then (Inl InvalidJobReplacement, store)
          else save_unlocked document_length replacement_job store)"

text \<open>The lengths of the staged files; a file that is absent has received nothing.\<close>

definition staged_length :: "tree option \<Rightarrow> string \<Rightarrow> nat" where
  "staged_length staging relative_path =
     (case staging of
        None \<Rightarrow> 0
      | Some tree \<Rightarrow> (case tree relative_path of None \<Rightarrow> 0 | Some bytes \<Rightarrow> length bytes))"

fun read_staged_lengths :: "tree option \<Rightarrow> DownloadJobFile list \<Rightarrow> DownloadJobStoreError + u64 list" where
  "read_staged_lengths staging [] = Inr []"
| "read_staged_lengths staging (f # fs) =
     (if unat (df_expected_bytes f) < staged_length staging (df_relative_path f)
      then Inl (StagedFileTooLarge (df_relative_path f))
      else result_bind (read_staged_lengths staging fs)
             (\<lambda>rest. Inr (of_nat (staged_length staging (df_relative_path f)) # rest)))"

definition read_staged_file_lengths :: "library_store \<Rightarrow> DownloadJob \<Rightarrow> DownloadJobStoreError + u64 list" where
  "read_staged_file_lengths store job =
     read_staged_lengths (ls_staging store (dj_huggingface_id job)) (dj_files job)"

definition load_recovering_interrupted_job ::
    "(DownloadJob \<Rightarrow> nat) \<Rightarrow> u64 \<Rightarrow> library_store \<Rightarrow> DownloadJob option store_result" where
  "load_recovering_interrupted_job document_length updated_at store =
     (case load_unlocked document_length store of
        Inl e \<Rightarrow> (Inl e, store)
      | Inr None \<Rightarrow> (Inr None, store)
      | Inr (Some job) \<Rightarrow>
          if dj_state job = Publishing then (Inl PublishingRecoveryRequired, store)
          else case read_staged_file_lengths store job of
            Inl e \<Rightarrow> (Inl e, store)
          | Inr lengths \<Rightarrow>
              (case reconcile_file_progress job lengths updated_at True of
                 (Inl e, _) \<Rightarrow> (Inl (InvalidJob e), store)
               | (Inr _, recovered) \<Rightarrow>
                   (case save_unlocked document_length recovered store of
                      (Inl e, store') \<Rightarrow> (Inl e, store')
                    | (Inr _, store') \<Rightarrow> (Inr (Some recovered), store'))))"

definition pause_current_job ::
    "(DownloadJob \<Rightarrow> nat) \<Rightarrow> u64 \<Rightarrow> library_store \<Rightarrow> DownloadJob option store_result" where
  "pause_current_job document_length updated_at store =
     (case load_unlocked document_length store of
        Inl e \<Rightarrow> (Inl e, store)
      | Inr None \<Rightarrow> (Inr None, store)
      | Inr (Some job) \<Rightarrow>
          if dj_state job = Publishing then (Inl PublishingRecoveryRequired, store)
          else case read_staged_file_lengths store job of
            Inl e \<Rightarrow> (Inl e, store)
          | Inr lengths \<Rightarrow>
              (case reconcile_file_progress job lengths updated_at False of
                 (Inl e, _) \<Rightarrow> (Inl (InvalidJob e), store)
               | (Inr _, reconciled) \<Rightarrow>
                   let paused = force_paused reconciled updated_at
                   in case store_validate paused of
                        Inl e \<Rightarrow> (Inl e, store)
                      | Inr _ \<Rightarrow>
                          (case save_unlocked document_length paused store of
                             (Inl e, store') \<Rightarrow> (Inl e, store')
                           | (Inr _, store') \<Rightarrow> (Inr (Some paused), store'))))"

definition cancel_current_job :: "(DownloadJob \<Rightarrow> nat) \<Rightarrow> library_store \<Rightarrow> bool store_result" where
  "cancel_current_job document_length store =
     (case load_unlocked document_length store of
        Inl e \<Rightarrow> (Inl e, store)
      | Inr None \<Rightarrow> (Inr False, store)
      | Inr (Some job) \<Rightarrow>
          if dj_state job = Publishing then (Inl PublishingRecoveryRequired, store)
          else (Inr True, store\<lparr>ls_staging := (ls_staging store)(dj_huggingface_id job := None), ls_job := None\<rparr>))"

section \<open>Verification and provenance\<close>

record digest_functions =
  hash_sha256 :: "string \<Rightarrow> string"
  hash_sha1 :: "string \<Rightarrow> string"

fun hash_file :: "digest_functions \<Rightarrow> string \<Rightarrow> u64 \<Rightarrow> DownloadFileDigest \<Rightarrow> string" where
  "hash_file hashes bytes expected_bytes (Sha256 _) = hash_sha256 hashes bytes"
| "hash_file hashes bytes expected_bytes (GitBlobSha1 _) =
     hash_sha1 hashes (''blob '' @ decimal (unat expected_bytes) @ [CHR 0x00] @ bytes)"

fun verify_files :: "digest_functions \<Rightarrow> tree \<Rightarrow> DownloadJobFile list \<Rightarrow> PayloadError + unit" where
  "verify_files hashes tree [] = Inr ()"
| "verify_files hashes tree (f # fs) =
     (case tree (df_relative_path f) of
        None \<Rightarrow> Inl (WritePayload (df_relative_path f))
      | Some bytes \<Rightarrow>
          if length bytes \<noteq> unat (df_expected_bytes f) then Inl (PayloadChecksumMismatch (df_relative_path f))
          else if hash_file hashes bytes (df_expected_bytes f) (df_expected_digest f) \<noteq> digest_hex (df_expected_digest f)
          then Inl (PayloadChecksumMismatch (df_relative_path f))
          else verify_files hashes tree fs)"

definition verify_download_job_at_directory ::
    "digest_functions \<Rightarrow> tree \<Rightarrow> DownloadJob \<Rightarrow> PayloadError + unit" where
  "verify_download_job_at_directory hashes tree job = verify_files hashes tree (dj_files job)"

definition CONFIG_REVISION_METADATA_PATH :: string where
  "CONFIG_REVISION_METADATA_PATH = ''.cache/huggingface/download/config.json.metadata''"

definition LIBRARY_PROVENANCE_FILE_NAME :: string where
  "LIBRARY_PROVENANCE_FILE_NAME = ''.astronomical-library-provenance.json''"

text \<open>\<open>provenance_json\<close> is the JSON text of the provenance document, which the serializer writes.\<close>

definition write_revision_metadata :: "string \<Rightarrow> tree \<Rightarrow> tree" where
  "write_revision_metadata revision tree = tree(CONFIG_REVISION_METADATA_PATH \<mapsto> revision @ [CHR 0x0A])"

definition write_publication_provenance :: "(string \<Rightarrow> string \<Rightarrow> string) \<Rightarrow> string \<Rightarrow> string \<Rightarrow> tree \<Rightarrow> tree" where
  "write_publication_provenance provenance_json provider_model_id revision tree =
     (write_revision_metadata revision tree)
       (LIBRARY_PROVENANCE_FILE_NAME \<mapsto> provenance_json provider_model_id revision)"

section \<open>Publication\<close>

record publication_environment =
  pe_document_length :: "DownloadJob \<Rightarrow> nat"
  pe_hashes :: digest_functions
  pe_provenance_json :: "string \<Rightarrow> string \<Rightarrow> string"

definition job_provenance :: "publication_environment \<Rightarrow> DownloadJob \<Rightarrow> tree \<Rightarrow> tree" where
  "job_provenance env job =
     write_publication_provenance (pe_provenance_json env) (dj_huggingface_id job) (dj_revision job)"

definition replace_current_for_publication ::
    "publication_environment \<Rightarrow> DownloadJob \<Rightarrow> library_store \<Rightarrow> unit store_result" where
  "replace_current_for_publication env replacement_job store =
     (case load_unlocked (pe_document_length env) store of
        Inl e \<Rightarrow> (Inl e, store)
      | Inr None \<Rightarrow> (Inl JobNotFound, store)
      | Inr (Some current_job) \<Rightarrow>
          if dj_state current_job \<noteq> Verifying \<or> dj_state replacement_job \<noteq> Publishing
             \<or> dj_huggingface_id current_job \<noteq> dj_huggingface_id replacement_job
             \<or> dj_revision current_job \<noteq> dj_revision replacement_job
             \<or> dj_updated_at_unix_millis replacement_job < dj_updated_at_unix_millis current_job
             \<or> dj_bytes_completed replacement_job \<noteq> dj_bytes_completed current_job
          then (Inl InvalidJobReplacement, store)
          else let huggingface_id = dj_huggingface_id replacement_job
               in case ls_staging store huggingface_id of
                    None \<Rightarrow> (Inl InconsistentPublicationState, store)
                  | Some staging \<Rightarrow>
                      (case ls_published store huggingface_id of
                         Some published \<Rightarrow>
                           (case verify_download_job_at_directory (pe_hashes env) published replacement_job of
                              Inl _ \<Rightarrow> (Inl PublishedModelAlreadyExists, store)
                            | Inr _ \<Rightarrow>
                                save_unlocked (pe_document_length env) replacement_job
                                  (store\<lparr>ls_published := (ls_published store)(huggingface_id \<mapsto> job_provenance env replacement_job published)\<rparr>))
                       | None \<Rightarrow>
                           save_unlocked (pe_document_length env) replacement_job
                             (store\<lparr>ls_staging := (ls_staging store)(huggingface_id \<mapsto> job_provenance env replacement_job staging)\<rparr>)))"

text \<open>
  The durable effects of a publication, in the order the code performs them. The two provenance files are put in
  place one after the other, each by one rename, so a crash may leave the first alone. The removal of the staging
  directory is one effect: a removal that a crash cuts short leaves a smaller staging directory, which the next
  publication removes like the whole one, since it looks at the published tree only.
\<close>

datatype publish_effect = RenameStaging | WriteRevisionMetadata | WriteProvenance | RemoveStaging

fun apply_effect :: "publication_environment \<Rightarrow> DownloadJob \<Rightarrow> publish_effect \<Rightarrow> library_store \<Rightarrow> library_store" where
  "apply_effect env job RenameStaging store =
     store\<lparr>ls_published := (ls_published store)(dj_huggingface_id job := ls_staging store (dj_huggingface_id job)),
           ls_staging := (ls_staging store)(dj_huggingface_id job := None)\<rparr>"
| "apply_effect env job WriteRevisionMetadata store =
     store\<lparr>ls_published := (ls_published store)
             (dj_huggingface_id job := map_option (write_revision_metadata (dj_revision job)) (ls_published store (dj_huggingface_id job)))\<rparr>"
| "apply_effect env job WriteProvenance store =
     store\<lparr>ls_published := (ls_published store)
             (dj_huggingface_id job := map_option (job_provenance env job) (ls_published store (dj_huggingface_id job)))\<rparr>"
| "apply_effect env job RemoveStaging store =
     store\<lparr>ls_staging := (ls_staging store)(dj_huggingface_id job := None)\<rparr>"

definition publish_effects :: "publication_environment \<Rightarrow> DownloadJob \<Rightarrow> library_store \<Rightarrow> DownloadJobStoreError + publish_effect list" where
  "publish_effects env job store =
     (case (ls_staging store (dj_huggingface_id job), ls_published store (dj_huggingface_id job)) of
        (Some staging, None) \<Rightarrow> Inr [RenameStaging]
      | (None, Some published) \<Rightarrow> Inr []
      | (Some staging, Some published) \<Rightarrow>
          (case verify_download_job_at_directory (pe_hashes env) published job of
             Inl _ \<Rightarrow> Inl PublishedModelAlreadyExists
           | Inr _ \<Rightarrow> Inr [WriteRevisionMetadata, WriteProvenance, RemoveStaging])
      | (None, None) \<Rightarrow> Inl InconsistentPublicationState)"

definition publish_current_job ::
    "publication_environment \<Rightarrow> bool \<Rightarrow> library_store \<Rightarrow> string store_result" where
  "publish_current_job env refresh_succeeds store =
     (case load_unlocked (pe_document_length env) store of
        Inl e \<Rightarrow> (Inl e, store)
      | Inr None \<Rightarrow> (Inl JobNotFound, store)
      | Inr (Some job) \<Rightarrow>
          if dj_state job \<noteq> Publishing then (Inl PublishingRecoveryRequired, store)
          else case publish_effects env job store of
            Inl e \<Rightarrow> (Inl e, store)
          | Inr effects \<Rightarrow>
              let store' = fold (apply_effect env job) effects store
              in if refresh_succeeds then (Inr (dj_huggingface_id job), store'\<lparr>ls_job := None\<rparr>)
                 else (Inl DiscoveryRefresh, store'))"

section \<open>Lemmas\<close>

lemma unat_of_nat_u64: "n < 18446744073709551616 \<Longrightarrow> unat (of_nat n :: u64) = n"
  by (simp add: unsigned_of_nat take_bit_nat_eq_self)

lemma store_validate_Inr [simp]: "store_validate j = Inr () \<longleftrightarrow> valid_job j"
  by (auto simp: store_validate_def job_validate_iff [symmetric] split: sum.splits)

lemma store_validate_valid: "valid_job j \<Longrightarrow> store_validate j = Inr ()"
  by simp

lemma store_validate_cases: "(\<exists>e. store_validate j = Inl e) \<or> store_validate j = Inr () \<and> valid_job j"
  by (cases "store_validate j") auto

lemma load_unlocked_Some:
  "load_unlocked dl store = Inr (Some j) \<longleftrightarrow> ls_job store = Some j \<and> valid_job j \<and> dl j \<le> 8000000"
  by (auto simp: load_unlocked_def result_bind_def store_validate_def job_validate_iff [symmetric] split: option.splits sum.splits)

lemma load_unlocked_None: "load_unlocked dl store = Inr None \<longleftrightarrow> ls_job store = None"
  by (auto simp: load_unlocked_def result_bind_def split: option.splits sum.splits)

lemma save_unlocked_effect:
  "save_unlocked dl j store = (Inr (), store') \<longleftrightarrow> valid_job j \<and> dl j \<le> 8000000 \<and> store' = store\<lparr>ls_job := Some j\<rparr>"
proof (cases "valid_job j")
  case True
  then show ?thesis by (auto simp: save_unlocked_def store_validate_valid)
next
  case False
  then obtain e where "store_validate j = Inl e" using store_validate_cases by blast
  with False show ?thesis by (simp add: save_unlocked_def)
qed

lemma save_unlocked_error: "save_unlocked dl j store = (Inl e, store') \<Longrightarrow> store' = store"
  by (auto simp: save_unlocked_def split: sum.splits if_splits)

lemma save_unlocked_valid: "\<lbrakk>valid_job j; dl j \<le> 8000000\<rbrakk> \<Longrightarrow> save_unlocked dl j store = (Inr (), store\<lparr>ls_job := Some j\<rparr>)"
  by (simp add: save_unlocked_effect)

text \<open>Replacing the document.\<close>

definition rolls_forward :: "DownloadJob \<Rightarrow> DownloadJob \<Rightarrow> bool" where
  "rolls_forward j k \<longleftrightarrow> dj_huggingface_id k = dj_huggingface_id j \<and> dj_revision k = dj_revision j
     \<and> dj_updated_at_unix_millis j \<le> dj_updated_at_unix_millis k
     \<and> (dj_bytes_completed j \<le> dj_bytes_completed k \<or> resets_invalid_file_for_retry j k)
     \<and> (dj_files j \<noteq> [] \<longrightarrow> dj_files k \<noteq> []) \<and> can_replace_with (dj_state j) (dj_state k)"

lemma replace_current_effect:
  "replace_current dl k store = (Inr (), store') \<longleftrightarrow>
     (\<exists>j. load_unlocked dl store = Inr (Some j) \<and> dj_state j \<noteq> Publishing \<and> rolls_forward j k)
     \<and> valid_job k \<and> dl k \<le> 8000000 \<and> store' = store\<lparr>ls_job := Some k\<rparr>"
proof (cases "load_unlocked dl store")
  case (Inl e)
  then show ?thesis by (simp add: replace_current_def)
next
  case (Inr loaded)
  show ?thesis
  proof (cases loaded)
    case None
    with Inr show ?thesis by (simp add: replace_current_def)
  next
    case (Some j)
    have "replace_current dl k store = (Inr (), store') \<longleftrightarrow> dj_state j \<noteq> Publishing \<and> rolls_forward j k
        \<and> save_unlocked dl k store = (Inr (), store')"
      using Inr Some by (auto simp: replace_current_def rolls_forward_def has_exact_manifest_def not_less)
    with Inr Some show ?thesis by (auto simp: save_unlocked_effect)
  qed
qed

lemma replace_current_error: "replace_current dl k store = (Inl e, store') \<Longrightarrow> store' = store"
  by (auto simp: replace_current_def split: sum.splits option.splits if_splits dest: save_unlocked_error)

text \<open>Progress read back from the staged files.\<close>

definition recovered_file :: "tree option \<Rightarrow> DownloadJobFile \<Rightarrow> DownloadJobFile" where
  "recovered_file staging f = f\<lparr>df_bytes_on_disk := of_nat (staged_length staging (df_relative_path f))\<rparr>"

definition staging_fits :: "tree option \<Rightarrow> DownloadJobFile list \<Rightarrow> bool" where
  "staging_fits staging fs \<longleftrightarrow> (\<forall>f \<in> set fs. staged_length staging (df_relative_path f) \<le> unat (df_expected_bytes f))"

lemma read_staged_lengths_Inr:
  "read_staged_lengths staging fs = Inr lengths \<longleftrightarrow>
     staging_fits staging fs \<and> lengths = map (\<lambda>f. of_nat (staged_length staging (df_relative_path f))) fs"
  by (induction fs arbitrary: lengths) (auto simp: staging_fits_def not_less)

lemma recovered_fits:
  assumes "staging_fits staging fs" "f \<in> set fs"
  shows "df_bytes_on_disk (recovered_file staging f) \<le> df_expected_bytes f"
proof -
  have "staged_length staging (df_relative_path f) \<le> unat (df_expected_bytes f)"
    using assms by (simp add: staging_fits_def)
  moreover from this have "unat (of_nat (staged_length staging (df_relative_path f)) :: u64) = staged_length staging (df_relative_path f)"
    using u64_bound [of "df_expected_bytes f"] by (intro unat_of_nat_u64) simp
  ultimately show ?thesis by (simp add: recovered_file_def word_le_nat_alt)
qed

lemma map_recovered_identity: "map file_identity (map (recovered_file staging) fs) = map file_identity fs"
  by (simp add: recovered_file_def)

lemma staged_lengths_fit:
  assumes "staging_fits staging fs"
  shows "list_all2 (\<lambda>f b. b \<le> df_expected_bytes f) fs (map (\<lambda>f. of_nat (staged_length staging (df_relative_path f))) fs)"
  using recovered_fits [OF assms] by (simp add: list_all2_conv_all_nth recovered_file_def)

lemma recovered_progress:
  "with_progress fs (map (\<lambda>f. of_nat (staged_length staging (df_relative_path f))) fs) = map (recovered_file staging) fs"
  by (induction fs) (simp_all add: recovered_file_def)

text \<open>The job that reconciliation computes, before it is paused.\<close>

definition reconciled_job :: "tree option \<Rightarrow> u64 \<Rightarrow> DownloadJob \<Rightarrow> DownloadJob" where
  "reconciled_job staging updated_at j =
     j\<lparr>dj_files := map (recovered_file staging) (dj_files j),
       dj_bytes_completed := of_nat (on_disk_sum (map (recovered_file staging) (dj_files j))),
       dj_current_file_relative_path := None, dj_updated_at_unix_millis := updated_at\<rparr>"

definition restart_state :: "DownloadJobState \<Rightarrow> DownloadJobState" where
  "restart_state st = (if is_interrupted_by_restart st then Paused else st)"

lemma reconciled_job_to:
  "reconciled_to (map (\<lambda>f. of_nat (staged_length staging (df_relative_path f))) (dj_files j)) t pause j
   = (if pause \<and> is_interrupted_by_restart (dj_state j)
      then (reconciled_job staging t j)\<lparr>dj_state := Paused, dj_error_code := None\<rparr> else reconciled_job staging t j)"
proof -
  have "on_disk_sum (map (recovered_file staging) fs)
      = sum_list (map unat (map (\<lambda>f. of_nat (staged_length staging (df_relative_path f)) :: u64) fs))" for fs
    by (induction fs) (simp_all add: recovered_file_def)
  then show ?thesis by (simp add: reconciled_to_def reconciled_job_def recovered_progress Let_def)
qed

lemma reconcile_effect:
  assumes "valid_job j" "staging_fits staging (dj_files j)"
  defines "lengths \<equiv> map (\<lambda>f. of_nat (staged_length staging (df_relative_path f))) (dj_files j)"
  shows "reconcile_file_progress j lengths t pause = validated
    (if pause \<and> is_interrupted_by_restart (dj_state j)
     then (reconciled_job staging t j)\<lparr>dj_state := Paused, dj_error_code := None\<rparr> else reconciled_job staging t j)"
  using reconcile_run [OF assms(1) staged_lengths_fit [OF assms(2)], of t pause]
  unfolding lengths_def reconciled_job_to .

lemma reconciled_totals:
  assumes "valid_job j" "staging_fits staging (dj_files j)"
  shows "valid_files (dj_files (reconciled_job staging t j))" "valid_totals (reconciled_job staging t j)"
  using reconciled_parts(1,2) [OF assms(1) staged_lengths_fit [OF assms(2)], of t False]
  unfolding reconciled_job_to by simp_all

section \<open>Recovery and pause\<close>

definition restarted_job :: "tree option \<Rightarrow> u64 \<Rightarrow> DownloadJob \<Rightarrow> DownloadJob" where
  "restarted_job staging t j =
     (if is_interrupted_by_restart (dj_state j)
      then (reconciled_job staging t j)\<lparr>dj_state := Paused, dj_error_code := None\<rparr> else reconciled_job staging t j)"

lemma same_download_reconciled: "same_download j (reconciled_job staging t j)"
  unfolding same_download_def reconciled_job_def by (simp add: map_recovered_identity [unfolded map_map])

lemma restarted_valid:
  assumes "valid_job j" "staging_fits staging (dj_files j)" "dj_state j \<noteq> Publishing"
  shows "valid_job (restarted_job staging t j)" "dj_state (restarted_job staging t j) \<in> {Paused, Failed}"
    "same_download j (restarted_job staging t j)"
proof -
  show st: "dj_state (restarted_job staging t j) \<in> {Paused, Failed}"
    using assms(3) by (cases "dj_state j") (simp_all add: restarted_job_def is_interrupted_by_restart_def reconciled_job_def)
  have "valid_phase (restarted_job staging t j)"
    using assms(1) st by (auto simp: valid_job_def valid_phase_def restarted_job_def reconciled_job_def)
  then show "valid_job (restarted_job staging t j)"
    using assms(1) reconciled_totals [OF assms(1,2), of t]
    by (auto simp: valid_job_def valid_totals_def restarted_job_def reconciled_job_def)
  show "same_download j (restarted_job staging t j)"
    using same_download_reconciled [of j staging t] by (auto simp: restarted_job_def same_download_def)
qed

lemma recovery_effect:
  assumes j: "ls_job store = Some j" "valid_job j" "dl j \<le> 8000000" "dj_state j \<noteq> Publishing"
    and fits: "staging_fits (ls_staging store (dj_huggingface_id j)) (dj_files j)"
    and k: "k = restarted_job (ls_staging store (dj_huggingface_id j)) t j"
  shows "load_recovering_interrupted_job dl t store
    = (if dl k \<le> 8000000 then (Inr (Some k), store\<lparr>ls_job := Some k\<rparr>) else (Inl JobDocumentTooLarge, store))"
proof -
  have "load_unlocked dl store = Inr (Some j)" using j by (simp add: load_unlocked_Some)
  moreover have "read_staged_file_lengths store j
      = Inr (map (\<lambda>f. of_nat (staged_length (ls_staging store (dj_huggingface_id j)) (df_relative_path f))) (dj_files j))"
    using fits by (simp add: read_staged_file_lengths_def read_staged_lengths_Inr)
  moreover have "valid_job k" unfolding k by (rule restarted_valid(1) [OF j(2) fits j(4)])
  moreover have "validated k = (Inr (), k)" by (rule validated_valid) fact
  moreover have "save_unlocked dl k store
      = (if dl k \<le> 8000000 then (Inr (), store\<lparr>ls_job := Some k\<rparr>) else (Inl JobDocumentTooLarge, store))"
    using \<open>valid_job k\<close> by (simp add: save_unlocked_def store_validate_valid)
  ultimately show ?thesis
    using j(4) reconcile_effect [OF j(2) fits, of t True]
    by (simp add: load_recovering_interrupted_job_def k [unfolded restarted_job_def, symmetric])
qed

lemma recovery_refuses_oversized:
  assumes "ls_job store = Some j" "valid_job j" "dl j \<le> 8000000" "dj_state j \<noteq> Publishing"
    "\<not> staging_fits (ls_staging store (dj_huggingface_id j)) (dj_files j)"
  shows "\<exists>e. load_recovering_interrupted_job dl t store = (Inl e, store)"
proof -
  have "load_unlocked dl store = Inr (Some j)" using assms by (simp add: load_unlocked_Some)
  moreover obtain e where "read_staged_file_lengths store j = Inl e"
    using assms(5) by (cases "read_staged_file_lengths store j")
      (auto simp: read_staged_file_lengths_def read_staged_lengths_Inr)
  ultimately show ?thesis using assms(4) by (simp add: load_recovering_interrupted_job_def)
qed

text \<open>A pause validates the reconciled job before it changes its state.\<close>

lemma reconciled_valid:
  assumes "valid_job j" "staging_fits staging (dj_files j)"
    "dj_state j \<in> {Verifying, Publishing} \<longrightarrow> dj_bytes_completed (reconciled_job staging t j) = dj_bytes_total j"
  shows "valid_job (reconciled_job staging t j)"
proof -
  have "valid_phase (reconciled_job staging t j)"
    using assms(1,3) unfolding valid_job_def valid_phase_def by (cases "dj_state j") (auto simp: reconciled_job_def)
  moreover have "valid_identity (dj_huggingface_id (reconciled_job staging t j)) (dj_revision (reconciled_job staging t j))"
    using assms(1) by (simp add: valid_job_def reconciled_job_def)
  ultimately show ?thesis using reconciled_totals [OF assms(1,2), of t] by (simp add: valid_job_def)
qed

lemma pause_run:
  assumes "load_unlocked dl store = Inr (Some j)" "dj_state j \<noteq> Publishing"
    "read_staged_file_lengths store j = Inr lengths" "reconcile_file_progress j lengths t False = validated r"
    "valid_job r" "valid_job (force_paused r t)" "dl (force_paused r t) \<le> 8000000"
  shows "pause_current_job dl t store = (Inr (Some (force_paused r t)), store\<lparr>ls_job := Some (force_paused r t)\<rparr>)"
  using assms(2)
  by (simp add: pause_current_job_def Let_def assms(1,3,4) validated_valid [OF assms(5)] store_validate_valid [OF assms(6)]
    save_unlocked_valid [where dl = dl, OF assms(6,7)])

lemma pause_effect:
  assumes j: "ls_job store = Some j" "valid_job j" "dl j \<le> 8000000" "dj_state j \<noteq> Publishing"
    and fits: "staging_fits (ls_staging store (dj_huggingface_id j)) (dj_files j)"
    and complete: "dj_state j = Verifying \<longrightarrow>
      dj_bytes_completed (reconciled_job (ls_staging store (dj_huggingface_id j)) t j) = dj_bytes_total j"
    and k: "k = force_paused (reconciled_job (ls_staging store (dj_huggingface_id j)) t j) t" and dl: "dl k \<le> 8000000"
  shows "pause_current_job dl t store = (Inr (Some k), store\<lparr>ls_job := Some k\<rparr>) \<and> valid_job k \<and> dj_state k = Paused"
proof -
  let ?r = "reconciled_job (ls_staging store (dj_huggingface_id j)) t j"
  have load: "load_unlocked dl store = Inr (Some j)" using j by (simp add: load_unlocked_Some)
  have lengths: "read_staged_file_lengths store j
      = Inr (map (\<lambda>f. of_nat (staged_length (ls_staging store (dj_huggingface_id j)) (df_relative_path f))) (dj_files j))"
    using fits by (simp add: read_staged_file_lengths_def read_staged_lengths_Inr)
  have run: "reconcile_file_progress j (map (\<lambda>f. of_nat (staged_length (ls_staging store (dj_huggingface_id j)) (df_relative_path f))) (dj_files j)) t False
      = validated ?r"
    using reconcile_effect [OF j(2) fits, of t False] by (simp only: simp_thms if_False)
  have r: "valid_job ?r" using j(4) complete by (intro reconciled_valid [OF j(2) fits]) blast
  then have "valid_job (force_paused ?r t)" by (intro force_paused_valid) (simp_all add: valid_job_def)
  moreover have "dj_state (force_paused ?r t) = Paused" by (simp add: force_paused_def)
  ultimately show ?thesis
    using pause_run [OF load j(4) lengths run r] dl unfolding k by blast
qed

lemma pause_verifying_incomplete:
  assumes j: "ls_job store = Some j" "valid_job j" "dl j \<le> 8000000" "dj_state j = Verifying"
    and fits: "staging_fits (ls_staging store (dj_huggingface_id j)) (dj_files j)"
    and incomplete: "dj_bytes_completed (reconciled_job (ls_staging store (dj_huggingface_id j)) t j) \<noteq> dj_bytes_total j"
  shows "\<exists>e. pause_current_job dl t store = (Inl e, store)"
proof -
  let ?r = "reconciled_job (ls_staging store (dj_huggingface_id j)) t j"
  have load: "load_unlocked dl store = Inr (Some j)" using j by (simp add: load_unlocked_Some)
  have lengths: "read_staged_file_lengths store j
      = Inr (map (\<lambda>f. of_nat (staged_length (ls_staging store (dj_huggingface_id j)) (df_relative_path f))) (dj_files j))"
    using fits by (simp add: read_staged_file_lengths_def read_staged_lengths_Inr)
  have "dj_state ?r = Verifying" "dj_bytes_total ?r = dj_bytes_total j" using j(4) by (simp_all add: reconciled_job_def)
  then have "\<not> valid_job ?r" using incomplete by (simp add: valid_job_def valid_phase_def)
  then obtain e where "validated ?r = (Inl e, ?r)"
    using job_validate_iff [of ?r] by (cases "job_validate ?r") (auto simp: validated_def)
  then show ?thesis
    using load lengths j(4) reconcile_effect [OF j(2) fits, of t False] by (simp add: pause_current_job_def)
qed

section \<open>Publication and crashes\<close>

definition manifest_avoids_provenance :: "DownloadJob \<Rightarrow> bool" where
  "manifest_avoids_provenance j \<longleftrightarrow>
     (\<forall>f \<in> set (dj_files j). df_relative_path f \<noteq> CONFIG_REVISION_METADATA_PATH
        \<and> df_relative_path f \<noteq> LIBRARY_PROVENANCE_FILE_NAME)"

lemma verify_files_cong:
  "\<forall>f \<in> set fs. t (df_relative_path f) = t' (df_relative_path f) \<Longrightarrow> verify_files h t fs = verify_files h t' fs"
  by (induction fs) (auto split: option.split)

lemma verify_with_provenance:
  assumes "manifest_avoids_provenance j"
  shows "verify_download_job_at_directory h (job_provenance env k tree) j = verify_download_job_at_directory h tree j"
    "verify_download_job_at_directory h (write_revision_metadata revision tree) j = verify_download_job_at_directory h tree j"
  unfolding verify_download_job_at_directory_def
  by (rule verify_files_cong, use assms in \<open>auto simp: manifest_avoids_provenance_def job_provenance_def
    write_publication_provenance_def write_revision_metadata_def\<close>)+

lemma job_provenance_idem:
  "job_provenance env j (job_provenance env j tree) = job_provenance env j tree"
  "job_provenance env j (write_revision_metadata (dj_revision j) tree) = job_provenance env j tree"
  by (auto simp: job_provenance_def write_publication_provenance_def write_revision_metadata_def fun_eq_iff)

lemma three_effects_cases:
  obtains "n = 0" | "n = 1" | "n = 2" | m where "n = Suc (Suc (Suc m))"
  by (metis One_nat_def Suc_1 not0_implies_Suc)

lemma effects_keep_job: "ls_job (fold (apply_effect env j) es store) = ls_job store"
proof (induction es arbitrary: store)
  case (Cons e es)
  then show ?case by (cases e) simp_all
qed simp

lemma publish_current_job_run:
  assumes "ls_job store = Some j" "valid_job j" "pe_document_length env j \<le> 8000000" "dj_state j = Publishing"
  shows "publish_current_job env refresh store =
    (case publish_effects env j store of
       Inl e \<Rightarrow> (Inl e, store)
     | Inr es \<Rightarrow> if refresh then (Inr (dj_huggingface_id j), (fold (apply_effect env j) es store)\<lparr>ls_job := None\<rparr>)
               else (Inl DiscoveryRefresh, fold (apply_effect env j) es store))"
proof -
  have "load_unlocked (pe_document_length env) store = Inr (Some j)" using assms by (simp add: load_unlocked_Some)
  then show ?thesis using assms(4) by (cases "publish_effects env j store") (simp_all add: publish_current_job_def Let_def)
qed

text \<open>After any number of its effects, a publication has the same effects left.\<close>

lemma publish_effects_resume:
  assumes es: "publish_effects env j store = Inr es" and free: "manifest_avoids_provenance j"
  defines "crashed n \<equiv> fold (apply_effect env j) (take n es) store"
  shows "\<exists>rest. publish_effects env j (crashed n) = Inr rest
    \<and> fold (apply_effect env j) rest (crashed n) = fold (apply_effect env j) es store"
proof -
  let ?id = "dj_huggingface_id j"
  consider (rename) c where "ls_staging store ?id = Some c" "ls_published store ?id = None" "es = [RenameStaging]"
    | (present) p where "ls_staging store ?id = None" "ls_published store ?id = Some p" "es = []"
    | (adopt) c p where "ls_staging store ?id = Some c" "ls_published store ?id = Some p"
        "verify_download_job_at_directory (pe_hashes env) p j = Inr ()" "es = [WriteRevisionMetadata, WriteProvenance, RemoveStaging]"
    using es by (auto simp: publish_effects_def split: option.splits sum.splits)
  then show ?thesis
  proof cases
    case rename
    then show ?thesis by (cases n) (auto simp: crashed_def publish_effects_def)
  next
    case present
    then show ?thesis by (auto simp: crashed_def publish_effects_def)
  next
    case adopt
    have again: "verify_download_job_at_directory (pe_hashes env) (job_provenance env j p) j = Inr ()"
      "verify_download_job_at_directory (pe_hashes env) (write_revision_metadata (dj_revision j) p) j = Inr ()"
      using adopt(3) by (simp_all add: verify_with_provenance [OF free])
    show ?thesis
    proof (rule three_effects_cases [of n])
      assume "n = 0"
      then show ?thesis using es by (simp add: crashed_def)
    next
      assume "n = 1"
      then have "crashed n = store\<lparr>ls_published := (ls_published store)(?id \<mapsto> write_revision_metadata (dj_revision j) p)\<rparr>"
        using adopt by (simp add: crashed_def)
      then show ?thesis using adopt again
        by (intro exI [of _ "[WriteRevisionMetadata, WriteProvenance, RemoveStaging]"])
          (simp add: publish_effects_def job_provenance_idem)
    next
      assume "n = 2"
      then have "crashed n = store\<lparr>ls_published := (ls_published store)(?id \<mapsto> job_provenance env j p)\<rparr>"
        using adopt by (simp add: crashed_def numeral_2_eq_2 job_provenance_idem)
      then show ?thesis using adopt again
        by (intro exI [of _ "[WriteRevisionMetadata, WriteProvenance, RemoveStaging]"])
          (simp add: publish_effects_def job_provenance_idem)
    next
      fix m assume "n = Suc (Suc (Suc m))"
      then show ?thesis using adopt by (auto simp: crashed_def publish_effects_def)
    qed
  qed
qed

lemma publish_after_crash:
  assumes j: "ls_job store = Some j" "valid_job j" "pe_document_length env j \<le> 8000000" "dj_state j = Publishing"
    and es: "publish_effects env j store = Inr es" and free: "manifest_avoids_provenance j"
  shows "publish_current_job env True (fold (apply_effect env j) (take n es) store) = publish_current_job env True store"
proof -
  let ?crashed = "fold (apply_effect env j) (take n es) store"
  obtain rest where rest: "publish_effects env j ?crashed = Inr rest"
    "fold (apply_effect env j) rest ?crashed = fold (apply_effect env j) es store"
    using publish_effects_resume [OF es free] by blast
  have "ls_job ?crashed = Some j" using j(1) by (simp add: effects_keep_job)
  from publish_current_job_run [OF this j(2-4), of True] show ?thesis
    using rest es publish_current_job_run [OF j, of True] by simp
qed

lemma publish_outcome:
  assumes j: "ls_job store = Some j" "valid_job j" "pe_document_length env j \<le> 8000000" "dj_state j = Publishing"
    and es: "publish_effects env j store = Inr es"
  shows "\<exists>final tree. publish_current_job env True store = (Inr (dj_huggingface_id j), final) \<and> ls_job final = None
    \<and> ls_staging final (dj_huggingface_id j) = None \<and> ls_published final (dj_huggingface_id j) = Some tree"
  using es publish_current_job_run [OF j, of True]
  by (auto simp: publish_effects_def split: option.splits sum.splits)

section \<open>The steps of the store\<close>

inductive store_step :: "publication_environment \<Rightarrow> library_store \<Rightarrow> library_store \<Rightarrow> bool" for env where
  create: "store_step env s (snd (store_create (pe_document_length env) k s))"
| replace: "store_step env s (snd (replace_current (pe_document_length env) k s))"
| recover: "store_step env s (snd (load_recovering_interrupted_job (pe_document_length env) t s))"
| pause: "store_step env s (snd (pause_current_job (pe_document_length env) t s))"
| cancel: "store_step env s (snd (cancel_current_job (pe_document_length env) s))"
| intent: "store_step env s (snd (replace_current_for_publication env k s))"
| publish: "store_step env s (snd (publish_current_job env refresh s))"
| crash: "\<lbrakk>load_unlocked (pe_document_length env) s = Inr (Some j); dj_state j = Publishing;
           publish_effects env j s = Inr es\<rbrakk> \<Longrightarrow> store_step env s (fold (apply_effect env j) (take n es) s)"
| transfer: "\<lbrakk>ls_job s = Some j; dj_state j \<in> {Downloading, Verifying}\<rbrakk> \<Longrightarrow>
           store_step env s (s\<lparr>ls_staging := (ls_staging s)(dj_huggingface_id j \<mapsto> tree)\<rparr>)"

definition document_ok :: "publication_environment \<Rightarrow> library_store \<Rightarrow> bool" where
  "document_ok env s \<longleftrightarrow> (\<forall>j. ls_job s = Some j \<longrightarrow> valid_job j \<and> pe_document_length env j \<le> 8000000)"

lemma save_document_ok:
  "document_ok env s \<Longrightarrow> document_ok env (snd (save_unlocked (pe_document_length env) k s))"
proof (cases "fst (save_unlocked (pe_document_length env) k s)")
  case (Inr u)
  then have "save_unlocked (pe_document_length env) k s = (Inr (), snd (save_unlocked (pe_document_length env) k s))"
    by (metis prod.collapse unit_eq)
  then show ?thesis by (simp add: save_unlocked_effect document_ok_def)
next
  case (Inl e)
  moreover assume "document_ok env s"
  ultimately show ?thesis by (metis prod.collapse save_unlocked_error)
qed

lemma document_ok_job: "ls_job s = ls_job s' \<Longrightarrow> document_ok env s = document_ok env s'"
  by (simp add: document_ok_def)

lemma create_document_ok:
  "document_ok env s \<Longrightarrow> document_ok env (snd (store_create (pe_document_length env) k s))"
  using store_validate_cases [of k] by (auto simp: store_create_def document_ok_def split: sum.split)

lemma case_save_snd:
  "snd (case save_unlocked dl k s of (Inl e, s') \<Rightarrow> (Inl e, s') | (Inr u, s') \<Rightarrow> (Inr x, s')) = snd (save_unlocked dl k s)"
  by (auto split: prod.split sum.split)

lemma recover_document_ok:
  assumes "document_ok env s"
  shows "document_ok env (snd (load_recovering_interrupted_job (pe_document_length env) t s))"
  using assms save_document_ok [OF assms]
  by (auto simp: load_recovering_interrupted_job_def case_save_snd split: sum.split option.split prod.split)

lemma pause_document_ok:
  assumes "document_ok env s"
  shows "document_ok env (snd (pause_current_job (pe_document_length env) t s))"
  using assms save_document_ok [OF assms]
  by (auto simp: pause_current_job_def Let_def case_save_snd split: sum.split option.split prod.split)

lemma replace_document_ok:
  assumes "document_ok env s"
  shows "document_ok env (snd (replace_current (pe_document_length env) k s))"
  using assms save_document_ok [OF assms]
  by (auto simp: replace_current_def split: sum.split option.split)

lemma cancel_document_ok:
  "document_ok env s \<Longrightarrow> document_ok env (snd (cancel_current_job (pe_document_length env) s))"
  by (auto simp: cancel_current_job_def document_ok_def split: sum.split option.split)

lemma intent_document_ok:
  assumes "document_ok env s"
  shows "document_ok env (snd (replace_current_for_publication env k s))"
proof -
  have "document_ok env (snd (save_unlocked (pe_document_length env) k s'))" if "ls_job s' = ls_job s" for s'
    using assms that document_ok_job by (intro save_document_ok) metis
  then show ?thesis using assms
    by (auto simp: replace_current_for_publication_def Let_def split: sum.split option.split)
qed

lemma publish_document_ok:
  assumes "document_ok env s"
  shows "document_ok env (snd (publish_current_job env refresh s))"
proof -
  have "document_ok env (fold (apply_effect env j) es s)" for j es
    using assms document_ok_job [OF effects_keep_job] by blast
  moreover have "document_ok env (s'\<lparr>ls_job := None\<rparr>)" for s' by (simp add: document_ok_def)
  ultimately show ?thesis using assms
    by (auto simp: publish_current_job_def Let_def split: sum.split option.split)
qed

lemma store_step_document_ok: "\<lbrakk>store_step env s s'; document_ok env s\<rbrakk> \<Longrightarrow> document_ok env s'"
proof (induction rule: store_step.induct)
  case (crash s j es n)
  then show ?case using document_ok_job [OF effects_keep_job] by blast
next
  case (transfer s j tree)
  then show ?case by (simp add: document_ok_def)
qed (simp_all add: create_document_ok replace_document_ok recover_document_ok pause_document_ok cancel_document_ok
    intent_document_ok publish_document_ok)

lemma store_reachable_document_ok:
  assumes "(store_step env)\<^sup>*\<^sup>* s s'" "ls_job s = None"
  shows "document_ok env s'"
  using assms(1)
proof (induction rule: rtranclp_induct)
  case base
  then show ?case using assms(2) by (simp add: document_ok_def)
next
  case (step y z)
  then show ?case using store_step_document_ok by blast
qed

text \<open>A publishing job leaves the store only when its tree is at the destination.\<close>

lemma publishing_operations_refuse:
  assumes "load_unlocked (pe_document_length env) s = Inr (Some j)" "dj_state j = Publishing"
  shows "snd (store_create (pe_document_length env) k s) = s"
    "snd (replace_current (pe_document_length env) k s) = s"
    "snd (load_recovering_interrupted_job (pe_document_length env) t s) = s"
    "snd (pause_current_job (pe_document_length env) t s) = s"
    "snd (cancel_current_job (pe_document_length env) s) = s"
    "snd (replace_current_for_publication env k s) = s"
proof -
  have "ls_job s = Some j" using assms(1) by (simp add: load_unlocked_Some)
  then show "snd (store_create (pe_document_length env) k s) = s"
    by (simp add: store_create_def split: sum.split)
qed (simp_all add: assms replace_current_def load_recovering_interrupted_job_def pause_current_job_def
    cancel_current_job_def replace_current_for_publication_def)

lemma publishing_step:
  assumes "store_step env s s'" "load_unlocked (pe_document_length env) s = Inr (Some j)" "dj_state j = Publishing"
  shows "s' = s
    \<or> (\<exists>es n. publish_effects env j s = Inr es \<and> s' = fold (apply_effect env j) (take n es) s)
    \<or> (\<exists>es. publish_effects env j s = Inr es \<and> s' = (fold (apply_effect env j) es s)\<lparr>ls_job := None\<rparr>)"
proof -
  have j: "ls_job s = Some j" "valid_job j" "pe_document_length env j \<le> 8000000"
    using assms(2) by (simp_all add: load_unlocked_Some)
  note refuse = publishing_operations_refuse [OF assms(2,3)]
  from assms(1) show ?thesis
  proof cases
    case (publish refresh)
    show ?thesis
    proof (cases "publish_effects env j s")
      case (Inl e)
      then show ?thesis using publish publish_current_job_run [OF j assms(3), of refresh] by simp
    next
      case (Inr es)
      then have "s' = (fold (apply_effect env j) es s)\<lparr>ls_job := None\<rparr> \<or> s' = fold (apply_effect env j) (take (length es) es) s"
        using publish publish_current_job_run [OF j assms(3), of refresh] by (cases refresh) simp_all
      then show ?thesis using Inr by blast
    qed
  next
    case (crash j' es n)
    then have "j' = j" using assms(2) by simp
    then show ?thesis using crash by blast
  next
    case (transfer j' tree)
    then show ?thesis using j(1) assms(3) by simp
  qed (use refuse in simp_all)
qed

text \<open>The tree a publication leads to, read off the store it starts from. While the publication runs it stays
  the same, or (when the provenance it has just written spoils an adopted tree) there is none any more.\<close>

definition destination_tree :: "publication_environment \<Rightarrow> DownloadJob \<Rightarrow> library_store \<Rightarrow> tree option" where
  "destination_tree env j s =
     (case (ls_staging s (dj_huggingface_id j), ls_published s (dj_huggingface_id j)) of
        (Some staged, None) \<Rightarrow> Some staged
      | (None, at_destination) \<Rightarrow> at_destination
      | (Some staged, Some old) \<Rightarrow>
          if verify_download_job_at_directory (pe_hashes env) old j = Inr () then Some (job_provenance env j old) else None)"

lemma destination_tree_effects:
  assumes es: "publish_effects env j s = Inr es"
  shows "destination_tree env j (fold (apply_effect env j) (take n es) s) \<in> {None, destination_tree env j s}"
    "ls_staging (fold (apply_effect env j) es s) (dj_huggingface_id j) = None"
    "ls_published (fold (apply_effect env j) es s) (dj_huggingface_id j) = destination_tree env j s"
    "destination_tree env j s \<noteq> None"
proof -
  consider (rename) c where "ls_staging s (dj_huggingface_id j) = Some c" "ls_published s (dj_huggingface_id j) = None"
      "es = [RenameStaging]"
    | (present) p where "ls_staging s (dj_huggingface_id j) = None" "ls_published s (dj_huggingface_id j) = Some p" "es = []"
    | (adopt) c p where "ls_staging s (dj_huggingface_id j) = Some c" "ls_published s (dj_huggingface_id j) = Some p"
        "verify_download_job_at_directory (pe_hashes env) p j = Inr ()" "es = [WriteRevisionMetadata, WriteProvenance, RemoveStaging]"
    using es by (auto simp: publish_effects_def split: option.splits sum.splits)
  note cases = this
  show "destination_tree env j (fold (apply_effect env j) (take n es) s) \<in> {None, destination_tree env j s}"
    using cases
  proof cases
    case adopt
    show ?thesis
    proof (rule three_effects_cases [of n])
      assume "n = 0"
      then show ?thesis by simp
    next
      assume "n = 1"
      then show ?thesis using adopt by (simp add: destination_tree_def job_provenance_idem)
    next
      assume "n = 2"
      then show ?thesis using adopt by (simp add: destination_tree_def job_provenance_idem numeral_2_eq_2)
    next
      fix m assume "n = Suc (Suc (Suc m))"
      then show ?thesis using adopt by (simp add: destination_tree_def job_provenance_idem)
    qed
  qed (cases n; simp add: destination_tree_def)+
  show "ls_staging (fold (apply_effect env j) es s) (dj_huggingface_id j) = None"
    "ls_published (fold (apply_effect env j) es s) (dj_huggingface_id j) = destination_tree env j s"
    "destination_tree env j s \<noteq> None"
    using cases by (cases; simp add: destination_tree_def job_provenance_idem)+
qed

text \<open>A run of the store while a job is in it: every step starts with the job still there.\<close>

definition step_with_job :: "publication_environment \<Rightarrow> DownloadJob \<Rightarrow> library_store \<Rightarrow> library_store \<Rightarrow> bool" where
  "step_with_job env j s s' \<longleftrightarrow> ls_job s = Some j \<and> store_step env s s'"

lemma publishing_run:
  assumes "(step_with_job env j)\<^sup>*\<^sup>* s s'" "load_unlocked (pe_document_length env) s = Inr (Some j)" "dj_state j = Publishing"
  shows "ls_job s' = Some j \<and> destination_tree env j s' \<in> {None, destination_tree env j s}
    \<or> ls_job s' = None \<and> ls_staging s' (dj_huggingface_id j) = None
      \<and> ls_published s' (dj_huggingface_id j) = destination_tree env j s \<and> destination_tree env j s \<noteq> None"
  using assms(1)
proof (induction rule: rtranclp_induct)
  case base
  then show ?case using assms(2) by (simp add: load_unlocked_Some)
next
  case (step y z)
  have y: "ls_job y = Some j" "store_step env y z" using step.hyps(2) by (simp_all add: step_with_job_def)
  then have tree: "destination_tree env j y \<in> {None, destination_tree env j s}" using step.IH by auto
  have "load_unlocked (pe_document_length env) y = Inr (Some j)" using y(1) assms(2) by (simp add: load_unlocked_Some)
  from publishing_step [OF y(2) this assms(3)] show ?case
  proof (elim disjE exE conjE)
    assume "z = y"
    then show ?thesis using y(1) tree by simp
  next
    fix es n assume "publish_effects env j y = Inr es" "z = fold (apply_effect env j) (take n es) y"
    then show ?thesis using destination_tree_effects(1) [of env j y es n] tree y(1) by (auto simp: effects_keep_job)
  next
    fix es assume "publish_effects env j y = Inr es" "z = (fold (apply_effect env j) es y)\<lparr>ls_job := None\<rparr>"
    then show ?thesis using destination_tree_effects(2-4) [of env j y es] tree by auto
  qed
qed

text \<open>The intent to publish is recorded over a staged tree, or over a published one whose digests match.\<close>

lemma intent_destination:
  assumes intent: "replace_current_for_publication env j s0 = (Inr (), s)" and free: "manifest_avoids_provenance j"
    and staged: "\<forall>staged. ls_staging s0 (dj_huggingface_id j) = Some staged \<longrightarrow>
      verify_download_job_at_directory (pe_hashes env) staged j = Inr ()"
  shows "\<exists>tree. destination_tree env j s = Some tree \<and> verify_download_job_at_directory (pe_hashes env) tree j = Inr ()"
proof -
  let ?id = "dj_huggingface_id j"
  obtain c where c: "ls_staging s0 ?id = Some c"
    using intent by (auto simp: replace_current_for_publication_def Let_def split: sum.splits option.splits if_splits)
  show ?thesis
  proof (cases "ls_published s0 ?id")
    case None
    then have "s = s0\<lparr>ls_staging := (ls_staging s0)(?id \<mapsto> job_provenance env j c), ls_job := Some j\<rparr>"
      using intent c by (auto simp: replace_current_for_publication_def Let_def save_unlocked_effect
          split: sum.splits option.splits if_splits)
    then show ?thesis using None c staged by (simp add: destination_tree_def verify_with_provenance [OF free])
  next
    case (Some p)
    then have "s = s0\<lparr>ls_published := (ls_published s0)(?id \<mapsto> job_provenance env j p), ls_job := Some j\<rparr>"
      "verify_download_job_at_directory (pe_hashes env) p j = Inr ()"
      using intent c by (auto simp: replace_current_for_publication_def Let_def save_unlocked_effect
          split: sum.splits option.splits if_splits)
    then show ?thesis using c by (simp add: destination_tree_def verify_with_provenance [OF free] job_provenance_idem)
  qed
qed

section \<open>Properties\<close>

text \<open>An environment whose documents are small and whose digests are fixed.\<close>

definition sample_environment :: publication_environment where
  "sample_environment = \<lparr>pe_document_length = (\<lambda>_. 100),
     pe_hashes = \<lparr>hash_sha256 = (\<lambda>_. replicate 64 CHR ''b''), hash_sha1 = (\<lambda>_. [])\<rparr>, pe_provenance_json = (\<lambda>_ _. [])\<rparr>"

definition empty_store :: library_store where
  "empty_store = \<lparr>ls_job = None, ls_staging = (\<lambda>_. None), ls_published = (\<lambda>_. None)\<rparr>"

definition sample_store :: "DownloadJobState \<Rightarrow> library_store" where
  "sample_store st = empty_store\<lparr>ls_job := Some (sample_complete st), ls_staging := [''o/m'' \<mapsto> [''w'' \<mapsto> ''xyz'']]\<rparr>"

lemma sample_loads:
  "st \<in> {Downloading, Verifying, Publishing, Paused} \<Longrightarrow>
   load_unlocked (pe_document_length sample_environment) (sample_store st) = Inr (Some (sample_complete st))"
  using sample_complete_valid [of st] by (simp add: load_unlocked_Some sample_store_def sample_environment_def)

lemma sample_complete_fields:
  "dj_state (sample_complete st) = st" "dj_huggingface_id (sample_complete st) = ''o/m''"
  "dj_files (sample_complete st) = [sample_file\<lparr>df_bytes_on_disk := 3\<rparr>]" "dj_bytes_total (sample_complete st) = 3"
  by (simp_all add: sample_complete_def sample_job_def)

text \<open>C19. A job that is being published stays in the store until its tree is at its destination, over any run of
  operations and crashes: creating, replacing, recovering, pausing and cancelling refuse it and a crash in
  the middle of its publication keeps it. When it leaves, no staging is left and the destination holds
  the tree that was staged, when there was none there before; with nothing staged, the tree that was
  already moved there; and where a tree was in the way, that tree only if it holds every file of the
  manifest with its length and digest, with the provenance of the job written into it. So when the
  publication was recorded by \<open>replace_current_for_publication\<close> over a verified staging (as the transfer does;
  the manifest not naming the two provenance files), the tree at the destination has every file of the
  manifest with its length and digest.\<close>

theorem publishing_job_kept_until_published:
  assumes "load_unlocked (pe_document_length env) s = Inr (Some j)" "dj_state j = Publishing"
    "(step_with_job env j)\<^sup>*\<^sup>* s s'"
  shows "ls_job s' = Some j \<or>
    (ls_job s' = None \<and> ls_staging s' (dj_huggingface_id j) = None
     \<and> (\<exists>tree. ls_published s' (dj_huggingface_id j) = Some tree
        \<and> (case (ls_staging s (dj_huggingface_id j), ls_published s (dj_huggingface_id j)) of
             (Some staged, None) \<Rightarrow> tree = staged
           | (None, Some old) \<Rightarrow> tree = old
           | (Some staged, Some old) \<Rightarrow>
               verify_download_job_at_directory (pe_hashes env) old j = Inr () \<and> tree = job_provenance env j old
           | (None, None) \<Rightarrow> False)
        \<and> (\<forall>s0. replace_current_for_publication env j s0 = (Inr (), s) \<and> manifest_avoids_provenance j
             \<and> (\<forall>staged. ls_staging s0 (dj_huggingface_id j) = Some staged \<longrightarrow>
                  verify_download_job_at_directory (pe_hashes env) staged j = Inr ())
             \<longrightarrow> verify_download_job_at_directory (pe_hashes env) tree j = Inr ())))"
proof (cases "ls_job s' = Some j")
  case False
  then have left: "ls_job s' = None" "ls_staging s' (dj_huggingface_id j) = None"
    "ls_published s' (dj_huggingface_id j) = destination_tree env j s" "destination_tree env j s \<noteq> None"
    using publishing_run [OF assms(3,1,2)] by auto
  then obtain tree where tree: "destination_tree env j s = Some tree" by blast
  have start: "case (ls_staging s (dj_huggingface_id j), ls_published s (dj_huggingface_id j)) of
      (Some staged, None) \<Rightarrow> tree = staged
    | (None, Some old) \<Rightarrow> tree = old
    | (Some staged, Some old) \<Rightarrow>
        verify_download_job_at_directory (pe_hashes env) old j = Inr () \<and> tree = job_provenance env j old
    | (None, None) \<Rightarrow> False"
    using tree by (auto simp: destination_tree_def split: option.splits if_splits)
  have verified: "verify_download_job_at_directory (pe_hashes env) tree j = Inr ()"
    if "replace_current_for_publication env j s0 = (Inr (), s)" "manifest_avoids_provenance j"
      "\<forall>staged. ls_staging s0 (dj_huggingface_id j) = Some staged \<longrightarrow>
         verify_download_job_at_directory (pe_hashes env) staged j = Inr ()" for s0
    using intent_destination [OF that] tree by simp
  have "ls_published s' (dj_huggingface_id j) = Some tree" using left(3) tree by simp
  then show ?thesis using left(1,2) start verified by (intro disjI2 conjI exI [of _ tree] allI impI) (simp, blast+)
qed simp

theorem publishing_job_kept_until_published_witness:
  "ls_published (snd (publish_current_job sample_environment True (sample_store Publishing))) ''o/m'' = Some [''w'' \<mapsto> ''xyz'']"
proof -
  let ?s = "sample_store Publishing"
  let ?final = "snd (publish_current_job sample_environment True ?s)"
  have "publish_effects sample_environment (sample_complete Publishing) ?s = Inr [RenameStaging]"
    by (simp add: publish_effects_def sample_complete_fields sample_store_def empty_store_def)
  then have "ls_job ?final = None"
    using publish_outcome [where env = sample_environment and j = "sample_complete Publishing" and store = ?s]
      sample_loads [of Publishing] by (auto simp: load_unlocked_Some sample_complete_fields)
  moreover have "(step_with_job sample_environment (sample_complete Publishing))\<^sup>*\<^sup>* ?s ?final"
    using sample_loads [of Publishing] store_step.publish [of sample_environment ?s True]
    by (intro r_into_rtranclp) (simp add: step_with_job_def load_unlocked_Some)
  ultimately show ?thesis
    using publishing_job_kept_until_published [OF sample_loads [of Publishing], of ?final]
    by (simp add: sample_complete_fields) (simp add: sample_store_def empty_store_def)
qed

text \<open>The document is always valid: whatever sequence of creations, replacements, recoveries, pauses,
  cancellations, publications, crashes and transfers follows on a store without a job, the document that
  is left is absent or a valid job within its size limit.\<close>

lemma stored_document_always_valid:
  assumes "(store_step env)\<^sup>*\<^sup>* s s'" "ls_job s = None" "ls_job s' = Some j"
  shows "job_validate j = Inr () \<and> pe_document_length env j \<le> 8000000"
  using store_reachable_document_ok [OF assms(1,2)] assms(3) by (simp add: document_ok_def job_validate_iff)

text \<open>C20. Recovery after a restart is exact. It refuses a staged file that is longer than its manifest entry and
  changes nothing. Otherwise the recovered job is a valid job of the same download, paused (or still
  failed), whose progress is the length of every staged file and nothing else; when the document of that
  job is within the size limit of the store (8,000,000 bytes) it is returned and stored, and when it is
  longer the recovery fails and changes nothing.\<close>

theorem recovery_exact:
  assumes "load_unlocked dl store = Inr (Some j)" "dj_state j \<noteq> Publishing"
  defines "staged \<equiv> \<lambda>f. staged_length (ls_staging store (dj_huggingface_id j)) (df_relative_path f)"
  shows "if \<exists>f \<in> set (dj_files j). unat (df_expected_bytes f) < staged f
    then \<exists>e. load_recovering_interrupted_job dl t store = (Inl e, store)
    else \<exists>k. load_recovering_interrupted_job dl t store
          = (if dl k \<le> 8000000 then (Inr (Some k), store\<lparr>ls_job := Some k\<rparr>) else (Inl JobDocumentTooLarge, store))
      \<and> job_validate k = Inr () \<and> dj_state k \<in> {Paused, Failed}
      \<and> dj_huggingface_id k = dj_huggingface_id j \<and> dj_revision k = dj_revision j
      \<and> map file_identity (dj_files k) = map file_identity (dj_files j)
      \<and> map df_bytes_on_disk (dj_files k) = map (\<lambda>f. of_nat (staged f)) (dj_files j)"
proof -
  have j: "ls_job store = Some j" "valid_job j" "dl j \<le> 8000000" using assms(1) by (simp_all add: load_unlocked_Some)
  let ?staging = "ls_staging store (dj_huggingface_id j)"
  have fits: "staging_fits ?staging (dj_files j) \<longleftrightarrow> \<not> (\<exists>f \<in> set (dj_files j). unat (df_expected_bytes f) < staged f)"
    by (auto simp: staging_fits_def staged_def not_less)
  show ?thesis
  proof (cases "\<exists>f \<in> set (dj_files j). unat (df_expected_bytes f) < staged f")
    case True
    then show ?thesis using recovery_refuses_oversized [where dl = dl, OF j assms(2)] fits by simp
  next
    case False
    then have ok: "staging_fits ?staging (dj_files j)" using fits by blast
    let ?k = "restarted_job ?staging t j"
    have "map df_bytes_on_disk (dj_files ?k) = map (\<lambda>f. of_nat (staged f)) (dj_files j)"
      by (auto simp: restarted_job_def reconciled_job_def recovered_file_def staged_def)
    then show ?thesis using False restarted_valid [OF j(2) ok assms(2), of t]
        recovery_effect [where dl = dl, OF j assms(2) ok refl, of t]
      unfolding if_not_P [OF False] by (intro exI [of _ ?k]) (simp add: job_validate_iff same_download_def)
  qed
qed

theorem recovery_exact_witness:
  "\<exists>k. load_recovering_interrupted_job (\<lambda>_. 100) 9 (sample_store Verifying) = (Inr (Some k), (sample_store Verifying)\<lparr>ls_job := Some k\<rparr>)
    \<and> dj_state k \<in> {Paused, Failed} \<and> map df_bytes_on_disk (dj_files k) = [3]"
proof -
  let ?j = "sample_complete Verifying"
  let ?staged = "\<lambda>f. staged_length (ls_staging (sample_store Verifying) (dj_huggingface_id ?j)) (df_relative_path f)"
  have load: "load_unlocked (\<lambda>_. 100) (sample_store Verifying) = Inr (Some ?j)"
    using sample_loads [of Verifying] by (simp add: sample_environment_def)
  have st: "dj_state ?j \<noteq> Publishing" by (simp add: sample_complete_fields)
  have fits: "\<not> (\<exists>f \<in> set (dj_files ?j). unat (df_expected_bytes f) < ?staged f)"
    and lengths: "map (\<lambda>f. of_nat (?staged f)) (dj_files ?j) = [3 :: u64]"
    by (simp_all add: sample_complete_fields sample_file_def sample_store_def staged_length_def)
  from recovery_exact [where dl = "\<lambda>_. 100", OF load st, of 9]
  obtain k where "load_recovering_interrupted_job (\<lambda>_. 100) 9 (sample_store Verifying)
      = (if (100 :: nat) \<le> 8000000 then (Inr (Some k), (sample_store Verifying)\<lparr>ls_job := Some k\<rparr>)
         else (Inl JobDocumentTooLarge, sample_store Verifying))" "dj_state k \<in> {Paused, Failed}"
    "map df_bytes_on_disk (dj_files k) = map (\<lambda>f. of_nat (?staged f)) (dj_files ?j)"
    unfolding if_not_P [OF fits] by (elim exE conjE)
  then show ?thesis unfolding lengths by (intro exI [of _ k] conjI) simp_all
qed

text \<open>C21. Publication survives a crash after any of its effects: run again from the store the crash left, it
  reaches the same outcome and the same store as the run that did not crash. The manifest must not name
  the two provenance files that publication itself writes.\<close>

theorem publication_survives_crash:
  assumes "load_unlocked (pe_document_length env) store = Inr (Some j)" "dj_state j = Publishing"
    "publish_effects env j store = Inr effects" "manifest_avoids_provenance j"
  shows "publish_current_job env True (fold (apply_effect env j) (take n effects) store) = publish_current_job env True store
    \<and> (\<exists>final tree. publish_current_job env True store = (Inr (dj_huggingface_id j), final) \<and> ls_job final = None
        \<and> ls_staging final (dj_huggingface_id j) = None \<and> ls_published final (dj_huggingface_id j) = Some tree)"
proof -
  have j: "ls_job store = Some j" "valid_job j" "pe_document_length env j \<le> 8000000"
    using assms(1) by (simp_all add: load_unlocked_Some)
  show ?thesis
    using publish_after_crash [OF j assms(2-4)] publish_outcome [OF j assms(2,3)] by blast
qed

theorem publication_survives_crash_witness:
  "publish_current_job sample_environment True
     (fold (apply_effect sample_environment (sample_complete Publishing)) (take 1 [RenameStaging]) (sample_store Publishing))
   = publish_current_job sample_environment True (sample_store Publishing)"
proof -
  have "publish_effects sample_environment (sample_complete Publishing) (sample_store Publishing) = Inr [RenameStaging]"
    by (simp add: publish_effects_def sample_complete_fields sample_store_def empty_store_def)
  moreover have "manifest_avoids_provenance (sample_complete Publishing)"
    by (simp add: manifest_avoids_provenance_def sample_complete_fields sample_file_def CONFIG_REVISION_METADATA_PATH_def
        LIBRARY_PROVENANCE_FILE_NAME_def)
  ultimately show ?thesis
    using publication_survives_crash [OF sample_loads [of Publishing], of "[RenameStaging]" 1]
    by (simp add: sample_complete_fields)
qed

text \<open>A verifying job whose staged files no longer hold every byte cannot be paused: the pause fails and
  changes nothing, because the reconciled job is validated in the state it is leaving; recovery of the
  same store succeeds (the recovered document fitting the size limit).\<close>

lemma verifying_job_with_lost_bytes_cannot_pause:
  assumes "load_unlocked dl store = Inr (Some j)" "dj_state j = Verifying"
    "dl (restarted_job (ls_staging store (dj_huggingface_id j)) t j) \<le> 8000000"
    "\<forall>f \<in> set (dj_files j). staged_length (ls_staging store (dj_huggingface_id j)) (df_relative_path f) \<le> unat (df_expected_bytes f)"
    "dj_bytes_completed (reconciled_job (ls_staging store (dj_huggingface_id j)) t j) \<noteq> dj_bytes_total j"
  shows "(\<exists>e. pause_current_job dl t store = (Inl e, store))
    \<and> (\<exists>k. fst (load_recovering_interrupted_job dl t store) = Inr (Some k) \<and> dj_state k = Paused)"
proof -
  have j: "ls_job store = Some j" "valid_job j" "dl j \<le> 8000000" using assms(1) by (simp_all add: load_unlocked_Some)
  have fits: "staging_fits (ls_staging store (dj_huggingface_id j)) (dj_files j)" using assms(4) by (simp add: staging_fits_def)
  have not_publishing: "dj_state j \<noteq> Publishing" using assms(2) by simp
  have "dj_state (restarted_job (ls_staging store (dj_huggingface_id j)) t j) = Paused"
    using assms(2) by (simp add: restarted_job_def is_interrupted_by_restart_def)
  then show ?thesis
    using pause_verifying_incomplete [where dl = dl, OF j assms(2) fits assms(5)]
      recovery_effect [where dl = dl, OF j not_publishing fits refl, of t] assms(3) by simp
qed

end
