(* ===== verification/Download_Transfer.thy ===== *)
theory Download_Transfer
  imports Download_Store BTree "HOL-Library.Option_ord"
begin

text \<open>
  The payload transfer: \<^verbatim>\<open>transfer/payload_transfer_segment.rs\<close> (segments and the ordered assembler of one
  file), \<^verbatim>\<open>transfer/payload_transfer_window.rs\<close> (the order in which segments start),
  \<^verbatim>\<open>transfer/payload_response.rs\<close>, the streaming loop of \<^verbatim>\<open>transfer/payload_transfer.rs\<close> and
  \<^verbatim>\<open>disk_preflight.rs\<close> (under \<^verbatim>\<open>apps/daemon/src/library/download\<close>). The staged file of an assembler is the
  list of its bytes. The segments of a file stream concurrently: each yields a list of chunk writes, and the
  assembler sees them in any order.
\<close>

section \<open>Disk admission\<close>

datatype DownloadDiskPreflightError =
  ExactManifestRequired | RequiredBytesOverflow u64 u64 | QueryCapacity u64 | InsufficientSpace u64 u64

record DownloadDiskCapacityCheck =
  cc_required_bytes :: u64
  cc_available_bytes :: u64

text \<open>The capacity query is an argument: the free bytes of the volume, or a failing system call.\<close>

definition check_required_bytes :: "u64 option \<Rightarrow> u64 \<Rightarrow> DownloadDiskPreflightError + DownloadDiskCapacityCheck" where
  "check_required_bytes available_space required_bytes =
     (case available_space of
        None \<Rightarrow> Inl (QueryCapacity required_bytes)
      | Some available_bytes \<Rightarrow>
          if available_bytes < required_bytes then Inl (InsufficientSpace required_bytes available_bytes)
          else Inr \<lparr>cc_required_bytes = required_bytes, cc_available_bytes = available_bytes\<rparr>)"

definition check_initial_download :: "u64 option \<Rightarrow> u64 \<Rightarrow> DownloadDiskPreflightError + DownloadDiskCapacityCheck" where
  "check_initial_download available_space catalog_approximate_bytes =
     (let margin_bytes = max (saturating_add (catalog_approximate_bytes div 100)
                           (if catalog_approximate_bytes mod 100 = 0 then 0 else 1)) 1
      in case checked_add catalog_approximate_bytes margin_bytes of
           None \<Rightarrow> Inl (RequiredBytesOverflow catalog_approximate_bytes margin_bytes)
         | Some required_bytes \<Rightarrow> check_required_bytes available_space required_bytes)"

definition check_job_remaining_bytes :: "u64 option \<Rightarrow> DownloadJob \<Rightarrow> DownloadDiskPreflightError + DownloadDiskCapacityCheck" where
  "check_job_remaining_bytes available_space download_job =
     (if \<not> has_exact_manifest download_job then Inl ExactManifestRequired
      else check_required_bytes available_space (remaining_bytes download_job))"

section \<open>Segments\<close>

definition PAYLOAD_TRANSFER_SEGMENT_BYTES :: u64 where
  "PAYLOAD_TRANSFER_SEGMENT_BYTES = 32 * 1024 * 1024"

record PayloadSegment =
  ps_start_offset_bytes :: u64
  ps_end_offset_bytes :: u64

definition plan_payload_segment :: "u64 \<Rightarrow> u64 \<Rightarrow> nat \<Rightarrow> PayloadSegment" where
  "plan_payload_segment resume_offset_bytes expected_file_bytes segment_index =
     (let start_offset_bytes = resume_offset_bytes + of_nat segment_index * PAYLOAD_TRANSFER_SEGMENT_BYTES
      in \<lparr>ps_start_offset_bytes = start_offset_bytes,
          ps_end_offset_bytes =
            min (saturating_add start_offset_bytes PAYLOAD_TRANSFER_SEGMENT_BYTES) expected_file_bytes\<rparr>)"

definition plan_payload_segments :: "u64 \<Rightarrow> u64 \<Rightarrow> PayloadSegment list" where
  "plan_payload_segments resume_offset_bytes expected_file_bytes =
     (let remaining_bytes = expected_file_bytes - resume_offset_bytes;
          segment_count = div_ceil remaining_bytes PAYLOAD_TRANSFER_SEGMENT_BYTES
      in map (plan_payload_segment resume_offset_bytes expected_file_bytes) [0..<unat segment_count])"

section \<open>The assembler\<close>

record SegmentAssembly =
  sa_staged_file :: string
  sa_contiguous_end_bytes :: u64
  sa_buffered_chunks_by_offset :: "(u64, string) btree_map"

definition assembler_open :: "string \<Rightarrow> u64 \<Rightarrow> SegmentAssembly" where
  "assembler_open staged_file resume_offset_bytes =
     \<lparr>sa_staged_file = staged_file, sa_contiguous_end_bytes = resume_offset_bytes, sa_buffered_chunks_by_offset = []\<rparr>"

definition append_chunk :: "SegmentAssembly \<Rightarrow> string \<Rightarrow> SegmentAssembly" where
  "append_chunk self chunk_bytes =
     self\<lparr>sa_staged_file := sa_staged_file self @ chunk_bytes,
          sa_contiguous_end_bytes := sa_contiguous_end_bytes self + of_nat (length chunk_bytes)\<rparr>"

definition remove_buffered :: "u64 \<Rightarrow> SegmentAssembly \<Rightarrow> SegmentAssembly" where
  "remove_buffered offset self =
     self\<lparr>sa_buffered_chunks_by_offset := filter (\<lambda>(k, _). k \<noteq> offset) (sa_buffered_chunks_by_offset self)\<rparr>"

lemma remove_buffered_shorter:
  "map_of (sa_buffered_chunks_by_offset self) offset = Some chunk \<Longrightarrow>
   length (filter (\<lambda>(k, _). k \<noteq> offset) (sa_buffered_chunks_by_offset self)) < length (sa_buffered_chunks_by_offset self)"
  by (rule length_filter_less [where x = "(offset, chunk)"]) (auto dest: map_of_SomeD)

function drain_buffered_chunks :: "SegmentAssembly \<Rightarrow> SegmentAssembly" where
  "drain_buffered_chunks self =
     (case map_of (sa_buffered_chunks_by_offset self) (sa_contiguous_end_bytes self) of
        None \<Rightarrow> self
      | Some chunk_bytes \<Rightarrow>
          drain_buffered_chunks (append_chunk (remove_buffered (sa_contiguous_end_bytes self) self) chunk_bytes))"
  by pat_completeness auto

termination
  by (relation "measure (\<lambda>self. length (sa_buffered_chunks_by_offset self))")
    (auto simp: append_chunk_def remove_buffered_def dest: remove_buffered_shorter)

declare drain_buffered_chunks.simps [simp del]

definition write_chunk :: "SegmentAssembly \<Rightarrow> u64 \<Rightarrow> string \<Rightarrow> SegmentAssembly" where
  "write_chunk assembly start_offset_bytes chunk_bytes =
     (if start_offset_bytes = sa_contiguous_end_bytes assembly
      then drain_buffered_chunks (append_chunk assembly chunk_bytes)
      else assembly\<lparr>sa_buffered_chunks_by_offset :=
             bt_insert start_offset_bytes chunk_bytes (sa_buffered_chunks_by_offset assembly)\<rparr>)"

definition assembler_finalize :: "SegmentAssembly \<Rightarrow> SegmentAssembly" where
  "assembler_finalize assembly = drain_buffered_chunks assembly"

section \<open>One segment's stream\<close>

datatype PayloadTransferError =
  TransportFailed string | PayloadDownloadGated | InvalidRangeResponse | InvalidPayloadLength

definition validate_payload_response ::
    "16 word \<Rightarrow> string option \<Rightarrow> u64 option \<Rightarrow> u64 \<Rightarrow> u64 \<Rightarrow> PayloadTransferError + unit" where
  "validate_payload_response status content_range content_length resume_offset_bytes expected_file_bytes =
     (let expected_transfer_bytes = expected_file_bytes - resume_offset_bytes
      in if (case content_length of None \<Rightarrow> False | Some reported \<Rightarrow> reported \<noteq> expected_transfer_bytes)
         then Inl InvalidPayloadLength
         else if resume_offset_bytes = 0 \<and> status = 200 \<and> content_range = None then Inr ()
         else if status \<noteq> 206 then Inl InvalidRangeResponse
         else let expected_range = ''bytes '' @ decimal (unat resume_offset_bytes) @ ''-''
                    @ decimal (unat (expected_file_bytes - 1)) @ ''/'' @ decimal (unat expected_file_bytes)
              in if content_range \<noteq> Some expected_range then Inl InvalidRangeResponse else Inr ())"

text \<open>
  The loop over the byte stream: a pair holds the next item of the stream and whether a pause has been requested
  when the loop looks after writing it. The result is the chunk writes and how the loop ended.
\<close>

fun stream_segment ::
    "u64 \<Rightarrow> u64 \<Rightarrow> u64 \<Rightarrow> ((string + string) \<times> bool) list \<Rightarrow> (u64 \<times> string) list \<times> (PayloadTransferError + u64)" where
  "stream_segment segment_start_bytes expected_segment_bytes transferred_bytes [] = ([], Inr transferred_bytes)"
| "stream_segment segment_start_bytes expected_segment_bytes transferred_bytes ((Inl transport_error, _) # _) =
     ([], Inl (TransportFailed transport_error))"
| "stream_segment segment_start_bytes expected_segment_bytes transferred_bytes ((Inr payload_chunk, pause_requested) # rest) =
     (let remaining_segment_bytes = expected_segment_bytes - transferred_bytes;
          consumed_chunk = (if unat remaining_segment_bytes < length payload_chunk
                            then take (unat remaining_segment_bytes) payload_chunk else payload_chunk)
      in case checked_add transferred_bytes (of_nat (length consumed_chunk)) of
           None \<Rightarrow> ([], Inl InvalidPayloadLength)
         | Some transferred_bytes' \<Rightarrow>
             let chunk_write = (segment_start_bytes + transferred_bytes' - of_nat (length consumed_chunk), consumed_chunk)
             in if transferred_bytes' = expected_segment_bytes \<or> pause_requested
                then ([chunk_write], Inr transferred_bytes')
                else (case stream_segment segment_start_bytes expected_segment_bytes transferred_bytes' rest of
                        (chunk_writes, outcome) \<Rightarrow> (chunk_write # chunk_writes, outcome)))"

definition check_transferred :: "bool \<Rightarrow> u64 \<Rightarrow> PayloadTransferError + u64 \<Rightarrow> PayloadTransferError + u64" where
  "check_transferred pause_requested expected_segment_bytes outcome =
     result_bind outcome
       (\<lambda>transferred_bytes.
          if \<not> pause_requested \<and> transferred_bytes \<noteq> expected_segment_bytes then Inl InvalidPayloadLength
          else Inr transferred_bytes)"

definition segment_file_completed :: "bool \<Rightarrow> SegmentAssembly \<Rightarrow> DownloadJobFile \<Rightarrow> bool" where
  "segment_file_completed pause_requested assembly download_file \<longleftrightarrow>
     \<not> pause_requested \<and> sa_contiguous_end_bytes assembly = df_expected_bytes download_file"

section \<open>The window\<close>

definition compare_remaining :: "DownloadJobFile \<Rightarrow> DownloadJobFile \<Rightarrow> ordering" where
  "compare_remaining left_file right_file =
     cmp_of (checked_sub (df_expected_bytes left_file) (df_bytes_on_disk left_file))
            (checked_sub (df_expected_bytes right_file) (df_bytes_on_disk right_file))"

definition pending_files :: "DownloadJob \<Rightarrow> DownloadJobFile list" where
  "pending_files download_job =
     sort_by compare_remaining
       (filter (\<lambda>download_file. df_bytes_on_disk download_file < df_expected_bytes download_file) (dj_files download_job))"

definition planned_segments :: "DownloadJob \<Rightarrow> (DownloadJobFile \<times> PayloadSegment list) list" where
  "planned_segments download_job =
     map (\<lambda>pending_file. (pending_file, plan_payload_segments (df_bytes_on_disk pending_file) (df_expected_bytes pending_file)))
       (pending_files download_job)"

definition segment_round ::
    "(DownloadJobFile \<times> PayloadSegment list) list \<Rightarrow> nat \<Rightarrow> (DownloadJobFile \<times> PayloadSegment) list" where
  "segment_round planned segment_index =
     List.map_filter
       (\<lambda>(pending_file, segments). if segment_index < length segments then Some (pending_file, segments ! segment_index) else None)
       planned"

definition maximum_segment_count :: "(DownloadJobFile \<times> PayloadSegment list) list \<Rightarrow> nat" where
  "maximum_segment_count planned = fold (\<lambda>(_, segments) m. max m (length segments)) planned 0"

definition pending_segment_queue :: "DownloadJob \<Rightarrow> (DownloadJobFile \<times> PayloadSegment) list" where
  "pending_segment_queue download_job =
     (let planned = planned_segments download_job
      in concat (map (segment_round planned) [0..<maximum_segment_count planned]))"

datatype TransferWindowStop = WindowPaused | TransferFailed PayloadTransferError

definition transfer_window_stop :: "PayloadTransferError option \<Rightarrow> bool \<Rightarrow> TransferWindowStop + unit" where
  "transfer_window_stop deferred_transfer_error is_pause_requested =
     (case deferred_transfer_error of
        Some transfer_error \<Rightarrow> Inl (TransferFailed transfer_error)
      | None \<Rightarrow> if is_pause_requested then Inl WindowPaused else Inr ())"

section \<open>Lemmas\<close>

text \<open>Disk admission over natural numbers.\<close>

lemma check_required_bytes_Inr:
  "check_required_bytes available required = Inr check \<longleftrightarrow>
     (\<exists>a. available = Some a \<and> required \<le> a \<and> check = \<lparr>cc_required_bytes = required, cc_available_bytes = a\<rparr>)"
  by (auto simp: check_required_bytes_def not_less split: option.splits)

definition initial_margin :: "nat \<Rightarrow> nat" where
  "initial_margin bytes = max 1 (ceil_div bytes 100)"

lemma initial_margin_word:
  "unat (max (saturating_add (b div 100) (if b mod 100 = 0 then 0 else 1)) (1 :: u64)) = initial_margin (unat b)"
proof -
  have mod: "b mod 100 = 0 \<longleftrightarrow> unat b mod 100 = 0"
    by (simp add: word_unat_eq_iff unat_mod)
  have "unat b div 100 + 1 < 18446744073709551616" using u64_bound [of b] by simp
  then have "unat (saturating_add (b div 100) (if b mod 100 = 0 then 0 else 1)) = ceil_div (unat b) 100"
    by (auto simp: unat_saturating_add unat_div mod ceil_div_eq)
  then show ?thesis by (simp add: unat_max initial_margin_def max.commute)
qed

lemma check_initial_download_exact:
  "check_initial_download (Some a) b =
     (if 2 ^ 64 \<le> unat b + initial_margin (unat b) then Inl (RequiredBytesOverflow b (of_nat (initial_margin (unat b))))
      else if unat a < unat b + initial_margin (unat b)
      then Inl (InsufficientSpace (of_nat (unat b + initial_margin (unat b))) a)
      else Inr \<lparr>cc_required_bytes = of_nat (unat b + initial_margin (unat b)), cc_available_bytes = a\<rparr>)"
proof -
  let ?m = "max (saturating_add (b div 100) (if b mod 100 = 0 then 0 else 1)) (1 :: u64)"
  have m: "unat ?m = initial_margin (unat b)" by (rule initial_margin_word)
  have conv: "of_nat (initial_margin (unat b)) = ?m" "of_nat (unat b + initial_margin (unat b)) = b + ?m"
    by (simp_all flip: m)
  have run: "check_initial_download (Some a) b =
      (case checked_add b ?m of None \<Rightarrow> Inl (RequiredBytesOverflow b ?m) | Some r \<Rightarrow> check_required_bytes (Some a) r)"
    by (simp add: check_initial_download_def Let_def)
  show ?thesis
  proof (cases "unat b + unat ?m < 2 ^ LENGTH(64)")
    case True
    then have "unat (b + ?m) = unat b + initial_margin (unat b)" by (simp add: unat_add_exact m)
    with True show ?thesis unfolding run conv m [symmetric]
      by (simp add: checked_add_def check_required_bytes_def word_less_nat_alt)
  next
    case False
    then show ?thesis unfolding run conv m [symmetric] by (simp add: checked_add_def)
  qed
qed

text \<open>The segments of a file cover its remaining range once, in order.\<close>

definition segment_range :: "PayloadSegment \<Rightarrow> nat list" where
  "segment_range s = [unat (ps_start_offset_bytes s)..<unat (ps_end_offset_bytes s)]"

lemma segment_bytes: "unat PAYLOAD_TRANSFER_SEGMENT_BYTES = 33554432"
  by (simp add: PAYLOAD_TRANSFER_SEGMENT_BYTES_def)

lemma segment_count_nat:
  assumes "r \<le> e"
  shows "unat (div_ceil (e - r) PAYLOAD_TRANSFER_SEGMENT_BYTES) = ceil_div (unat e - unat r) 33554432"
  using assms by (simp add: unat_div_ceil segment_bytes unat_sub_exact)

lemma segment_before_end:
  assumes "i < ceil_div n 33554432"
  shows "i * 33554432 < n"
  using ceil_div_le_iff [of 33554432 n i] assms by simp

lemma segment_start_nat:
  assumes "unat r + i * 33554432 < unat (e :: u64)"
  shows "unat (r + of_nat i * PAYLOAD_TRANSFER_SEGMENT_BYTES) = unat r + i * 33554432"
proof -
  have e: "unat e < 18446744073709551616" by (rule u64_bound)
  have i: "unat (of_nat i :: u64) = i" using assms e by (intro unat_of_nat_u64) simp
  have prod: "unat (of_nat i * PAYLOAD_TRANSFER_SEGMENT_BYTES) = i * 33554432"
    using assms e i segment_bytes by (subst unat_mult_exact) simp_all
  show ?thesis using assms e by (subst unat_add_exact) (simp_all add: prod)
qed

lemma plan_payload_segment_nat:
  assumes "r \<le> e" "i < ceil_div (unat e - unat r) 33554432"
  shows "unat (ps_start_offset_bytes (plan_payload_segment r e i)) = unat r + i * 33554432"
    "unat (ps_end_offset_bytes (plan_payload_segment r e i)) = min (unat r + Suc i * 33554432) (unat e)"
proof -
  have "unat r + i * 33554432 < unat e"
    using segment_before_end [OF assms(2)] assms(1) by (simp add: word_le_nat_alt)
  then have start: "unat (r + of_nat i * PAYLOAD_TRANSFER_SEGMENT_BYTES) = unat r + i * 33554432"
    by (rule segment_start_nat)
  then show "unat (ps_start_offset_bytes (plan_payload_segment r e i)) = unat r + i * 33554432"
    by (simp add: plan_payload_segment_def Let_def)
  show "unat (ps_end_offset_bytes (plan_payload_segment r e i)) = min (unat r + Suc i * 33554432) (unat e)"
    using start u64_bound [of e]
    by (simp add: plan_payload_segment_def Let_def unat_min unat_saturating_add segment_bytes)
qed

lemma upt_join: "\<lbrakk>i \<le> j; j \<le> k\<rbrakk> \<Longrightarrow> [i..<j] @ [j..<k] = [i..<k]"
  using upt_add_eq_append [of i j "k - j"] by simp

lemma segments_prefix:
  assumes "r \<le> e" "n \<le> ceil_div (unat e - unat r) 33554432"
  shows "concat (map (\<lambda>i. segment_range (plan_payload_segment r e i)) [0..<n]) = [unat r..<min (unat r + n * 33554432) (unat e)]"
  using assms(2)
proof (induction n)
  case 0
  then show ?case using assms(1) by (simp add: word_le_nat_alt)
next
  case (Suc n)
  have n: "unat r + n * 33554432 < unat e"
    using segment_before_end [of n "unat e - unat r"] Suc.prems assms(1) by (simp add: word_le_nat_alt)
  have "segment_range (plan_payload_segment r e n) = [unat r + n * 33554432..<min (unat r + Suc n * 33554432) (unat e)]"
    unfolding segment_range_def using plan_payload_segment_nat [OF assms(1), of n] Suc.prems by simp
  then have "concat (map (\<lambda>i. segment_range (plan_payload_segment r e i)) [0..<Suc n])
      = [unat r..<unat r + n * 33554432] @ [unat r + n * 33554432..<min (unat r + Suc n * 33554432) (unat e)]"
    using Suc n by simp
  also have "\<dots> = [unat r..<min (unat r + Suc n * 33554432) (unat e)]"
    using n by (intro upt_join) simp_all
  finally show ?case .
qed

lemma segments_partition:
  assumes "r \<le> e"
  shows "concat (map segment_range (plan_payload_segments r e)) = [unat r..<unat e]"
    "\<forall>s \<in> set (plan_payload_segments r e). unat (ps_start_offset_bytes s) < unat (ps_end_offset_bytes s)
       \<and> unat (ps_end_offset_bytes s) - unat (ps_start_offset_bytes s) \<le> 33554432"
proof -
  let ?n = "ceil_div (unat e - unat r) 33554432"
  have plan: "plan_payload_segments r e = map (plan_payload_segment r e) [0..<?n]"
    by (simp add: plan_payload_segments_def Let_def segment_count_nat [OF assms])
  have "unat e \<le> unat r + ?n * 33554432"
    using ceil_div_mult_ge [of 33554432 "unat e - unat r"] by simp
  then show "concat (map segment_range (plan_payload_segments r e)) = [unat r..<unat e]"
    using segments_prefix [OF assms order_refl] unfolding plan by (simp add: comp_def)
  show "\<forall>s \<in> set (plan_payload_segments r e). unat (ps_start_offset_bytes s) < unat (ps_end_offset_bytes s)
       \<and> unat (ps_end_offset_bytes s) - unat (ps_start_offset_bytes s) \<le> 33554432"
  proof
    fix s assume "s \<in> set (plan_payload_segments r e)"
    then obtain i where i: "i < ?n" "s = plan_payload_segment r e i" unfolding plan by auto
    have "unat r + i * 33554432 < unat e"
      using segment_before_end [OF i(1)] assms by (simp add: word_le_nat_alt)
    then show "unat (ps_start_offset_bytes s) < unat (ps_end_offset_bytes s)
       \<and> unat (ps_end_offset_bytes s) - unat (ps_start_offset_bytes s) \<le> 33554432"
      using plan_payload_segment_nat [OF assms i(1)] i(2) by simp
  qed
qed

text \<open>The assembler against the bytes of the file.\<close>

definition chunk_of :: "string \<Rightarrow> u64 \<times> string \<Rightarrow> bool" where
  "chunk_of content w \<longleftrightarrow> (case w of (offset, chunk) \<Rightarrow> unat offset + length chunk \<le> length content
     \<and> chunk = take (length chunk) (drop (unat offset) content))"

definition assembly_ok :: "string \<Rightarrow> SegmentAssembly \<Rightarrow> bool" where
  "assembly_ok content a \<longleftrightarrow> length content < 2 ^ 64 \<and> bt_invar (sa_buffered_chunks_by_offset a)
     \<and> unat (sa_contiguous_end_bytes a) \<le> length content
     \<and> sa_staged_file a = take (unat (sa_contiguous_end_bytes a)) content
     \<and> (\<forall>w \<in> set (sa_buffered_chunks_by_offset a). chunk_of content w)"

lemma append_chunk_ok:
  assumes "assembly_ok content a" "chunk_of content (sa_contiguous_end_bytes a, chunk)"
  shows "assembly_ok content (append_chunk a chunk)"
    "unat (sa_contiguous_end_bytes (append_chunk a chunk)) = unat (sa_contiguous_end_bytes a) + length chunk"
proof -
  have bound: "unat (sa_contiguous_end_bytes a) + length chunk \<le> length content" "length content < 18446744073709551616"
    using assms by (simp_all add: chunk_of_def assembly_ok_def)
  then have "unat (of_nat (length chunk) :: u64) = length chunk" by (intro unat_of_nat_u64) simp
  then show "unat (sa_contiguous_end_bytes (append_chunk a chunk)) = unat (sa_contiguous_end_bytes a) + length chunk"
    using bound by (simp add: append_chunk_def unat_add_exact)
  then show "assembly_ok content (append_chunk a chunk)"
    using assms bound unfolding assembly_ok_def chunk_of_def
    by (simp add: append_chunk_def take_add)
qed

lemma remove_buffered_invar: "bt_invar m \<Longrightarrow> bt_invar (filter (\<lambda>(k, _). k \<noteq> x) m)"
  unfolding bt_invar_def by (induction m) auto

lemma remove_buffered_ok: "assembly_ok content a \<Longrightarrow> assembly_ok content (remove_buffered x a)"
  by (simp add: assembly_ok_def remove_buffered_def remove_buffered_invar)

lemma map_of_remove_buffered: "map_of (filter (\<lambda>(k, _). k \<noteq> x) m) k = (if k = x then None else map_of m k)"
  by (induction m) auto

text \<open>What one run of the drain loop preserves, and that it ends with nothing to drain.\<close>

lemma drain_induct:
  assumes "\<And>a c. \<lbrakk>map_of (sa_buffered_chunks_by_offset a) (sa_contiguous_end_bytes a) = Some c; P a\<rbrakk>
      \<Longrightarrow> P (append_chunk (remove_buffered (sa_contiguous_end_bytes a) a) c)"
    and "P a"
  shows "P (drain_buffered_chunks a)
    \<and> map_of (sa_buffered_chunks_by_offset (drain_buffered_chunks a)) (sa_contiguous_end_bytes (drain_buffered_chunks a)) = None"
  using assms(2)
proof (induction a rule: drain_buffered_chunks.induct)
  case (1 a)
  show ?case
  proof (cases "map_of (sa_buffered_chunks_by_offset a) (sa_contiguous_end_bytes a)")
    case None
    then show ?thesis using "1.prems" by (simp add: drain_buffered_chunks.simps [of a])
  next
    case (Some c)
    then show ?thesis using "1.IH" [OF Some] assms(1) [OF Some "1.prems"]
      by (simp add: drain_buffered_chunks.simps [of a])
  qed
qed

lemma drain_step_ok:
  assumes "map_of (sa_buffered_chunks_by_offset a) (sa_contiguous_end_bytes a) = Some c" "assembly_ok content a"
  shows "assembly_ok content (append_chunk (remove_buffered (sa_contiguous_end_bytes a) a) c)"
    "unat (sa_contiguous_end_bytes (append_chunk (remove_buffered (sa_contiguous_end_bytes a) a) c))
      = unat (sa_contiguous_end_bytes a) + length c"
proof -
  have "chunk_of content (sa_contiguous_end_bytes a, c)"
    using assms by (auto simp: assembly_ok_def dest: map_of_SomeD)
  then have "chunk_of content (sa_contiguous_end_bytes (remove_buffered (sa_contiguous_end_bytes a) a), c)"
    by (simp add: remove_buffered_def)
  from append_chunk_ok [OF remove_buffered_ok [OF assms(2)] this]
  show "assembly_ok content (append_chunk (remove_buffered (sa_contiguous_end_bytes a) a) c)"
    "unat (sa_contiguous_end_bytes (append_chunk (remove_buffered (sa_contiguous_end_bytes a) a) c))
      = unat (sa_contiguous_end_bytes a) + length c"
    by (simp_all add: remove_buffered_def)
qed

lemma drain_ok: "assembly_ok content a \<Longrightarrow> assembly_ok content (drain_buffered_chunks a)"
  using drain_induct [of "assembly_ok content" a] drain_step_ok(1) by blast

lemma set_bt_insert: "set (bt_insert k v m) \<subseteq> insert (k, v) (set m)"
  by (induction k v m rule: bt_insert.induct) auto

lemma write_chunk_ok:
  assumes "assembly_ok content a" "chunk_of content (offset, chunk)"
  shows "assembly_ok content (write_chunk a offset chunk)"
proof (cases "offset = sa_contiguous_end_bytes a")
  case True
  then show ?thesis using assms append_chunk_ok(1) drain_ok by (simp add: write_chunk_def)
next
  case False
  then show ?thesis using assms set_bt_insert [of offset chunk "sa_buffered_chunks_by_offset a"]
    by (auto simp: write_chunk_def assembly_ok_def bt_insert_invar)
qed

definition write_chunks :: "SegmentAssembly \<Rightarrow> (u64 \<times> string) list \<Rightarrow> SegmentAssembly" where
  "write_chunks a ws = fold (\<lambda>(offset, chunk) a. write_chunk a offset chunk) ws a"

lemma write_chunks_ok:
  "\<lbrakk>assembly_ok content a; \<forall>w \<in> set ws. chunk_of content w\<rbrakk> \<Longrightarrow> assembly_ok content (write_chunks a ws)"
  unfolding write_chunks_def by (induction ws arbitrary: a) (auto simp: write_chunk_ok)

text \<open>Chunks that follow one another from an offset, in the order of the file.\<close>

fun chunk_run :: "nat \<Rightarrow> (u64 \<times> string) list \<Rightarrow> bool" where
  "chunk_run n [] \<longleftrightarrow> True"
| "chunk_run n ((offset, chunk) # ws) \<longleftrightarrow> unat offset = n \<and> chunk \<noteq> [] \<and> chunk_run (n + length chunk) ws"

definition run_length :: "(u64 \<times> string) list \<Rightarrow> nat" where
  "run_length ws = sum_list (map (length \<circ> snd) ws)"

lemma run_length_simps [simp]:
  "run_length [] = 0" "run_length (w # ws) = length (snd w) + run_length ws"
  "run_length (ws @ ws') = run_length ws + run_length ws'"
  by (simp_all add: run_length_def)

lemma chunk_run_append: "chunk_run n (ws @ ws') \<longleftrightarrow> chunk_run n ws \<and> chunk_run (n + run_length ws) ws'"
  by (induction n ws rule: chunk_run.induct) (auto simp: add.assoc)

lemma chunk_run_bounds: "\<lbrakk>chunk_run n ws; (offset, chunk) \<in> set ws\<rbrakk> \<Longrightarrow>
    n \<le> unat offset \<and> chunk \<noteq> [] \<and> unat offset + length chunk \<le> n + run_length ws"
  by (induction n ws rule: chunk_run.induct) force+

lemma chunk_run_functional:
  "\<lbrakk>chunk_run n ws; (offset, chunk) \<in> set ws; (offset, chunk') \<in> set ws\<rbrakk> \<Longrightarrow> chunk = chunk'"
proof (induction n ws rule: chunk_run.induct)
  case (2 n o1 c1 ws)
  have later: "unat offset \<ge> n + length c1" if "(offset, c) \<in> set ws" for c
    using "2.prems"(1) chunk_run_bounds [of "n + length c1" ws offset c] that by simp
  have here: "unat offset = n" if "(offset, c) = (o1, c1)" for c using that "2.prems"(1) by simp
  show ?case using 2 later here by fastforce
qed simp

text \<open>A boundary of the run is its start or the end of a chunk; from each one the run goes on.\<close>

definition run_boundary :: "nat \<Rightarrow> (u64 \<times> string) list \<Rightarrow> nat \<Rightarrow> bool" where
  "run_boundary n ws b \<longleftrightarrow> b = n \<or> (\<exists>(offset, chunk) \<in> set ws. unat offset + length chunk = b)"

lemma run_continues:
  "\<lbrakk>chunk_run n ws; run_boundary n ws b; b < n + run_length ws\<rbrakk> \<Longrightarrow> \<exists>(offset, chunk) \<in> set ws. unat offset = b"
proof (induction n ws rule: chunk_run.induct)
  case (2 n o1 c1 ws)
  show ?case
  proof (cases "b = n")
    case True
    then show ?thesis using "2.prems"(1) by auto
  next
    case False
    then have "run_boundary (n + length c1) ws b" using "2.prems"(1,2) by (auto simp: run_boundary_def)
    then show ?thesis using "2.IH" "2.prems" by (auto simp: add.assoc)
  qed
qed (simp add: run_boundary_def)

text \<open>The state of an assembler after some of the chunks of a run have arrived.\<close>

definition arrived :: "nat \<Rightarrow> (u64 \<times> string) list \<Rightarrow> (u64 \<times> string) set \<Rightarrow> SegmentAssembly \<Rightarrow> bool" where
  "arrived n ws seen a \<longleftrightarrow> run_boundary n ws (unat (sa_contiguous_end_bytes a))
     \<and> (\<forall>w \<in> set (sa_buffered_chunks_by_offset a). w \<in> set ws)
     \<and> (\<forall>(offset, chunk) \<in> seen. unat offset < unat (sa_contiguous_end_bytes a)
          \<or> map_of (sa_buffered_chunks_by_offset a) offset = Some chunk)"

definition drained :: "SegmentAssembly \<Rightarrow> bool" where
  "drained a \<longleftrightarrow> map_of (sa_buffered_chunks_by_offset a) (sa_contiguous_end_bytes a) = None"

lemma drain_step_arrived:
  assumes chunk: "map_of (sa_buffered_chunks_by_offset a) (sa_contiguous_end_bytes a) = Some c"
    and ok: "assembly_ok content a" and arr: "arrived n ws seen a" and run: "chunk_run n ws"
  shows "arrived n ws seen (append_chunk (remove_buffered (sa_contiguous_end_bytes a) a) c)"
proof -
  let ?e = "sa_contiguous_end_bytes a"
  let ?a = "append_chunk (remove_buffered ?e a) c"
  have stop: "unat (sa_contiguous_end_bytes ?a) = unat ?e + length c" by (rule drain_step_ok(2) [OF chunk ok])
  have member: "(?e, c) \<in> set ws" using arr map_of_SomeD [OF chunk] by (auto simp: arrived_def)
  then have "c \<noteq> []" using chunk_run_bounds [OF run] by blast
  have buffered: "sa_buffered_chunks_by_offset ?a = filter (\<lambda>(k, _). k \<noteq> ?e) (sa_buffered_chunks_by_offset a)"
    by (simp add: append_chunk_def remove_buffered_def)
  have "run_boundary n ws (unat (sa_contiguous_end_bytes ?a))"
    unfolding stop run_boundary_def using member by blast
  moreover have "unat offset < unat (sa_contiguous_end_bytes ?a) \<or> map_of (sa_buffered_chunks_by_offset ?a) offset = Some chunk"
    if "(offset, chunk) \<in> seen" for offset chunk
  proof (cases "offset = ?e")
    case True
    then show ?thesis using stop \<open>c \<noteq> []\<close> by simp
  next
    case False
    then show ?thesis using arr that stop by (auto simp: arrived_def buffered map_of_remove_buffered)
  qed
  ultimately show ?thesis using arr by (auto simp: arrived_def buffered)
qed

lemma write_chunk_arrived:
  assumes ok: "assembly_ok content a" and arr: "arrived n ws seen a" and dr: "drained a" and run: "chunk_run n ws"
    and w: "(offset, chunk) \<in> set ws" "chunk_of content (offset, chunk)"
  shows "arrived n ws (insert (offset, chunk) seen) (write_chunk a offset chunk)" "drained (write_chunk a offset chunk)"
proof -
  have nonempty: "chunk \<noteq> []" using chunk_run_bounds [OF run w(1)] by simp
  have inv: "bt_invar (sa_buffered_chunks_by_offset a)" using ok by (simp add: assembly_ok_def)
  have "arrived n ws (insert (offset, chunk) seen) (write_chunk a offset chunk) \<and> drained (write_chunk a offset chunk)"
  proof (cases "offset = sa_contiguous_end_bytes a")
    case True
    let ?a = "append_chunk a chunk"
    have ok': "assembly_ok content ?a" "unat (sa_contiguous_end_bytes ?a) = unat offset + length chunk"
      using append_chunk_ok [OF ok] w(2) True by simp_all
    have buffered: "sa_buffered_chunks_by_offset ?a = sa_buffered_chunks_by_offset a" by (simp add: append_chunk_def)
    have "run_boundary n ws (unat (sa_contiguous_end_bytes ?a))"
      unfolding ok'(2) run_boundary_def using w(1) by blast
    then have "arrived n ws (insert (offset, chunk) seen) ?a"
      using arr ok'(2) nonempty True by (auto simp: arrived_def buffered)
    then have "arrived n ws (insert (offset, chunk) seen) (drain_buffered_chunks ?a) \<and> drained (drain_buffered_chunks ?a)"
      using drain_induct [of "\<lambda>b. assembly_ok content b \<and> arrived n ws (insert (offset, chunk) seen) b" ?a] ok'(1)
        drain_step_ok(1) drain_step_arrived [OF _ _ _ run] unfolding drained_def by blast
    then show ?thesis by (simp add: write_chunk_def True)
  next
    case False
    have conflict: "chunk' = chunk" if "map_of (sa_buffered_chunks_by_offset a) offset = Some chunk'" for chunk'
      using arr map_of_SomeD [OF that] chunk_run_functional [OF run w(1)] by (auto simp: arrived_def)
    have members: "w' \<in> set ws" if "w' \<in> set (bt_insert offset chunk (sa_buffered_chunks_by_offset a))" for w'
      using that set_bt_insert [of offset chunk "sa_buffered_chunks_by_offset a"] arr w(1) by (auto simp: arrived_def)
    let ?b = "write_chunk a offset chunk"
    have b: "sa_contiguous_end_bytes ?b = sa_contiguous_end_bytes a"
      "sa_buffered_chunks_by_offset ?b = bt_insert offset chunk (sa_buffered_chunks_by_offset a)"
      using False by (simp_all add: write_chunk_def)
    have "unat o' < unat (sa_contiguous_end_bytes a) \<or> map_of (bt_insert offset chunk (sa_buffered_chunks_by_offset a)) o' = Some c'"
      if "(o', c') \<in> insert (offset, chunk) seen" for o' c'
    proof (cases "(o', c') = (offset, chunk)")
      case True
      then show ?thesis by (simp add: map_of_bt_insert [OF inv])
    next
      case other: False
      then have "unat o' < unat (sa_contiguous_end_bytes a) \<or> map_of (sa_buffered_chunks_by_offset a) o' = Some c'"
        using arr that unfolding arrived_def by blast
      then show ?thesis using conflict by (cases "o' = offset") (auto simp: map_of_bt_insert [OF inv])
    qed
    moreover have "run_boundary n ws (unat (sa_contiguous_end_bytes a))" using arr by (simp add: arrived_def)
    moreover have "drained ?b" using dr False unfolding drained_def b map_of_bt_insert [OF inv] by simp
    ultimately show ?thesis using members unfolding arrived_def b by blast
  qed
  then show "arrived n ws (insert (offset, chunk) seen) (write_chunk a offset chunk)" "drained (write_chunk a offset chunk)"
    by simp_all
qed

lemma write_chunks_arrived:
  assumes "assembly_ok content a" "arrived n ws seen a" "drained a" "chunk_run n ws"
    "set ws' \<subseteq> set ws" "\<forall>w \<in> set ws. chunk_of content w"
  shows "arrived n ws (seen \<union> set ws') (write_chunks a ws') \<and> drained (write_chunks a ws')"
  using assms
proof (induction ws' arbitrary: a seen)
  case Nil
  then show ?case by (simp add: write_chunks_def)
next
  case (Cons w ws')
  obtain offset chunk where w: "w = (offset, chunk)" by (cases w)
  have member: "(offset, chunk) \<in> set ws" using Cons.prems(5) w by simp
  have good: "chunk_of content (offset, chunk)" using Cons.prems(6) member by blast
  have "arrived n ws (insert w seen \<union> set ws') (write_chunks (write_chunk a offset chunk) ws')
      \<and> drained (write_chunks (write_chunk a offset chunk) ws')"
    using Cons.prems write_chunk_arrived [OF Cons.prems(1-4) member good] write_chunk_ok [OF Cons.prems(1) good]
    by (intro Cons.IH) (simp_all add: w)
  then show ?case by (simp add: write_chunks_def w)
qed

lemma any_order_completes:
  assumes run: "chunk_run (unat resume) ws" and whole: "unat resume + run_length ws = length content"
    and content: "\<forall>w \<in> set ws. chunk_of content w" "length content < 2 ^ 64"
    and order: "set ws' = set ws"
  shows "sa_staged_file (write_chunks (assembler_open (take (unat resume) content) resume) ws') = content
    \<and> unat (sa_contiguous_end_bytes (write_chunks (assembler_open (take (unat resume) content) resume) ws')) = length content"
proof -
  let ?a = "assembler_open (take (unat resume) content) resume"
  let ?b = "write_chunks ?a ws'"
  have start: "assembly_ok content ?a" "arrived (unat resume) ws {} ?a" "drained ?a"
    using whole content(2)
    by (auto simp: assembly_ok_def assembler_open_def arrived_def drained_def run_boundary_def bt_invar_def)
  have ok: "assembly_ok content ?b" using start(1) content(1) order by (intro write_chunks_ok) auto
  have arr: "arrived (unat resume) ws (set ws) ?b" "drained ?b"
    using write_chunks_arrived [OF start run _ content(1), of ws'] order by auto
  have "\<not> unat (sa_contiguous_end_bytes ?b) < length content"
  proof
    assume less: "unat (sa_contiguous_end_bytes ?b) < length content"
    then obtain offset chunk where next_chunk: "(offset, chunk) \<in> set ws" "unat offset = unat (sa_contiguous_end_bytes ?b)"
      using run_continues [OF run, of "unat (sa_contiguous_end_bytes ?b)"] arr(1) whole by (auto simp: arrived_def)
    then have "offset = sa_contiguous_end_bytes ?b" by (simp add: word_unat_eq_iff)
    then show False using arr next_chunk(1) by (auto simp: arrived_def drained_def)
  qed
  then show ?thesis using ok by (auto simp: assembly_ok_def)
qed

section \<open>The streams of a file\<close>

fun stream_body :: "((string + string) \<times> bool) list \<Rightarrow> string" where
  "stream_body [] = []"
| "stream_body ((Inl e, _) # items) = []"
| "stream_body ((Inr chunk, _) # items) = chunk @ stream_body items"

definition chunks_nonempty :: "((string + string) \<times> bool) list \<Rightarrow> bool" where
  "chunks_nonempty items \<longleftrightarrow> (\<forall>(item, pause) \<in> set items. item \<noteq> Inr [])"

text \<open>One step of the loop while the segment is not complete.\<close>

definition consumed_share :: "u64 \<Rightarrow> u64 \<Rightarrow> string \<Rightarrow> string" where
  "consumed_share expected t chunk = take (unat expected - unat t) chunk"

lemma consumed_share_length:
  assumes "t < expected"
  shows "unat (of_nat (length (consumed_share expected t chunk)) :: u64) = length (consumed_share expected t chunk)"
    "unat (t + of_nat (length (consumed_share expected t chunk))) = unat t + length (consumed_share expected t chunk)"
    "unat t + length (consumed_share expected t chunk) \<le> unat expected"
proof -
  have "unat t < unat expected" using assms by (simp add: word_less_nat_alt)
  then show le: "unat t + length (consumed_share expected t chunk) \<le> unat expected" by (simp add: consumed_share_def)
  have "unat expected < 18446744073709551616" by (rule u64_bound)
  then show len: "unat (of_nat (length (consumed_share expected t chunk)) :: u64) = length (consumed_share expected t chunk)"
    using le by (intro unat_of_nat_u64) simp
  show "unat (t + of_nat (length (consumed_share expected t chunk))) = unat t + length (consumed_share expected t chunk)"
    using le \<open>unat expected < 18446744073709551616\<close> by (subst unat_add_exact) (simp_all only: len, simp)
qed

lemma stream_segment_step:
  fixes chunk :: string
  assumes "t < expected"
  defines "c \<equiv> consumed_share expected t chunk"
  shows "stream_segment start expected t ((Inr chunk, pause) # items) =
    (if t + of_nat (length c) = expected \<or> pause then ([(start + t, c)], Inr (t + of_nat (length c)))
     else (case stream_segment start expected (t + of_nat (length c)) items of
             (ws, outcome) \<Rightarrow> ((start + t, c) # ws, outcome)))"
proof -
  have share: "(if unat (expected - t) < length chunk then take (unat (expected - t)) chunk else chunk) = c"
    using assms(1) by (simp add: c_def consumed_share_def unat_sub_exact word_less_nat_alt word_le_nat_alt)
  have "unat t + length c < 18446744073709551616"
    using consumed_share_length(3) [OF assms(1), of chunk] u64_bound [of expected] unfolding c_def by linarith
  then have add: "checked_add t (of_nat (length c)) = Some (t + of_nat (length c))"
    unfolding checked_add_def using consumed_share_length(1) [OF assms(1), of chunk, folded c_def] by simp
  have offset: "start + (t + of_nat (length c)) - of_nat (length c) = start + t" by simp
  show ?thesis
    unfolding stream_segment.simps Let_def share add offset by simp
qed

lemma chunk_of_share:
  assumes "unat start + unat expected \<le> length content" "length content < 2 ^ 64" "t < expected"
    "prefix chunk (drop (unat start + unat t) content)"
  shows "chunk_of content (start + t, consumed_share expected t chunk)" "unat (start + t) = unat start + unat t"
proof -
  have t: "unat t < unat expected" using assms(3) by (simp add: word_less_nat_alt)
  then show offset: "unat (start + t) = unat start + unat t" using assms(1,2) by (intro unat_add_exact) simp
  obtain rest where rest: "drop (unat start + unat t) content = chunk @ rest" using assms(4) by (auto simp: prefix_def)
  have "consumed_share expected t chunk = take (length (consumed_share expected t chunk)) (drop (unat start + unat t) content)"
    unfolding rest by (simp add: consumed_share_def min_def)
  moreover have "unat start + unat t + length (consumed_share expected t chunk) \<le> length content"
    using assms(1) t by (simp add: consumed_share_def)
  ultimately show "chunk_of content (start + t, consumed_share expected t chunk)"
    by (simp add: chunk_of_def offset)
qed

lemma prefix_after_drop: "prefix (xs @ ys) (drop n zs) \<Longrightarrow> prefix ys (drop (n + length xs) zs)"
proof -
  assume "prefix (xs @ ys) (drop n zs)"
  then obtain rest where "drop n zs = xs @ ys @ rest" by (auto simp: prefix_def)
  then have "drop (length xs) (drop n zs) = ys @ rest" by simp
  then show ?thesis by (simp add: add.commute)
qed

lemma stream_segment_delivers:
  assumes "unat start + unat expected \<le> length content" "length content < 2 ^ 64" "t < expected"
    "chunks_nonempty items" "prefix (stream_body items) (drop (unat start + unat t) content)"
    "stream_segment start expected t items = (ws, outcome)"
  shows "chunk_run (unat start + unat t) ws \<and> (\<forall>w \<in> set ws. chunk_of content w)
    \<and> unat t + run_length ws \<le> unat expected \<and> (\<forall>n. outcome = Inr n \<longrightarrow> unat n = unat t + run_length ws)"
  using assms(3-6)
proof (induction items arbitrary: t ws outcome)
  case Nil
  then show ?case by (auto simp: word_less_nat_alt)
next
  case (Cons item items)
  obtain i pause where item: "item = (i, pause)" by (cases item)
  show ?case
  proof (cases i)
    case (Inl e)
    then show ?thesis using Cons.prems by (auto simp: item word_less_nat_alt)
  next
    case (Inr chunk)
    let ?c = "consumed_share expected t chunk"
    let ?t = "t + of_nat (length ?c)"
    note len = consumed_share_length [OF Cons.prems(1), of chunk]
    have nonempty: "chunk \<noteq> []" "chunks_nonempty items" using Cons.prems(2) by (auto simp: chunks_nonempty_def item Inr)
    have body: "prefix (chunk @ stream_body items) (drop (unat start + unat t) content)"
      using Cons.prems(3) by (simp add: item Inr)
    then have "prefix chunk (drop (unat start + unat t) content)" by (rule append_prefixD)
    note share = chunk_of_share [OF assms(1,2) Cons.prems(1) this]
    have c: "?c \<noteq> []" using nonempty Cons.prems(1) by (simp add: consumed_share_def word_less_nat_alt)
    note step = stream_segment_step [OF Cons.prems(1), of start chunk pause items]
    show ?thesis
    proof (cases "?t = expected \<or> pause")
      case True
      then have "ws = [(start + t, ?c)]" "outcome = Inr ?t" using Cons.prems(4) step by (simp_all add: item Inr)
      then show ?thesis using share c len by simp
    next
      case False
      obtain ws' where rec: "stream_segment start expected ?t items = (ws', outcome)" "ws = (start + t, ?c) # ws'"
        using Cons.prems(4) step False by (auto simp: item Inr split: prod.splits)
      have "unat ?t \<noteq> unat expected" using False by (simp add: word_unat_eq_iff)
      then have less: "?t < expected" using len by (simp add: word_less_nat_alt)
      then have "length ?c < unat expected - unat t" unfolding word_less_nat_alt len(2) by linarith
      then have "?c = chunk" by (simp add: consumed_share_def)
      then have "prefix (stream_body items) (drop (unat start + unat ?t) content)"
        using body len(2) by (simp add: prefix_after_drop add.assoc [symmetric])
      from Cons.IH [OF less nonempty(2) this rec(1)] show ?thesis
        using share c len(2) rec(2) by (auto simp: add.assoc)
    qed
  qed
qed

text \<open>A segment whose stream carries its bytes of the file, and was read to the end.\<close>

definition segment_bytes_width :: "PayloadSegment \<Rightarrow> u64" where
  "segment_bytes_width s = ps_end_offset_bytes s - ps_start_offset_bytes s"

definition segment_writes :: "PayloadSegment \<Rightarrow> ((string + string) \<times> bool) list \<Rightarrow> (u64 \<times> string) list" where
  "segment_writes s items = fst (stream_segment (ps_start_offset_bytes s) (segment_bytes_width s) 0 items)"

definition segment_outcome :: "PayloadSegment \<Rightarrow> ((string + string) \<times> bool) list \<Rightarrow> PayloadTransferError + u64" where
  "segment_outcome s items = check_transferred False (segment_bytes_width s)
     (snd (stream_segment (ps_start_offset_bytes s) (segment_bytes_width s) 0 items))"

definition segment_served :: "string \<Rightarrow> PayloadSegment \<Rightarrow> ((string + string) \<times> bool) list \<Rightarrow> bool" where
  "segment_served content s items \<longleftrightarrow> chunks_nonempty items
     \<and> prefix (stream_body items) (drop (unat (ps_start_offset_bytes s)) content)"

lemma segment_complete_run:
  assumes s: "unat (ps_start_offset_bytes s) < unat (ps_end_offset_bytes s)"
      "unat (ps_end_offset_bytes s) \<le> length content" "length content < 2 ^ 64"
    and served: "segment_served content s items" "segment_outcome s items = Inr n"
  shows "chunk_run (unat (ps_start_offset_bytes s)) (segment_writes s items)
    \<and> (\<forall>w \<in> set (segment_writes s items). chunk_of content w)
    \<and> run_length (segment_writes s items) = unat (ps_end_offset_bytes s) - unat (ps_start_offset_bytes s)"
proof -
  have width: "unat (segment_bytes_width s) = unat (ps_end_offset_bytes s) - unat (ps_start_offset_bytes s)"
    using s(1) by (simp add: segment_bytes_width_def unat_sub_exact word_le_nat_alt)
  obtain ws outcome where run: "stream_segment (ps_start_offset_bytes s) (segment_bytes_width s) 0 items = (ws, outcome)"
    by (cases "stream_segment (ps_start_offset_bytes s) (segment_bytes_width s) 0 items")
  have "outcome = Inr (segment_bytes_width s)"
    using served(2) run by (auto simp: segment_outcome_def check_transferred_def split: if_splits)
  moreover have "chunk_run (unat (ps_start_offset_bytes s) + unat (0 :: u64)) ws \<and> (\<forall>w \<in> set ws. chunk_of content w)
      \<and> unat (0 :: u64) + run_length ws \<le> unat (segment_bytes_width s)
      \<and> (\<forall>n. outcome = Inr n \<longrightarrow> unat n = unat (0 :: u64) + run_length ws)"
    by (rule stream_segment_delivers [OF _ s(3) _ _ _ run])
      (use s served(1) width in \<open>simp_all add: segment_served_def word_less_nat_alt\<close>)
  ultimately show ?thesis using width run by (simp add: segment_writes_def)
qed

lemma segments_complete_run:
  assumes "list_all2 (\<lambda>s items. unat (ps_start_offset_bytes s) < unat (ps_end_offset_bytes s)
      \<and> segment_served content s items \<and> (\<exists>n. segment_outcome s items = Inr n)) segments streams"
    "concat (map segment_range segments) = [n..<length content]" "n \<le> length content" "length content < 2 ^ 64"
  shows "chunk_run n (concat (map2 segment_writes segments streams))
    \<and> (\<forall>w \<in> set (concat (map2 segment_writes segments streams)). chunk_of content w)
    \<and> n + run_length (concat (map2 segment_writes segments streams)) = length content"
  using assms
proof (induction segments streams arbitrary: n rule: list_all2_induct)
  case Nil
  then have "[n..<length content] = []" by simp
  then have "length content \<le> n" using Nil(2) by auto
  with Nil show ?case by simp
next
  case (Cons s segments items streams)
  let ?start = "unat (ps_start_offset_bytes s)" and ?stop = "unat (ps_end_offset_bytes s)"
  have s: "?start < ?stop" "segment_served content s items" "\<exists>n. segment_outcome s items = Inr n" using Cons.hyps(1) by auto
  have cat: "[?start..<?stop] @ concat (map segment_range segments) = [n..<length content]"
    using Cons.prems(1) unfolding segment_range_def [of s, symmetric] by simp
  then have start: "?start = n" "n < length content" using s(1)
    by (metis append_Cons list.sel(1) upt_conv_Cons upt_rec list.distinct(1))+
  have stop: "?stop \<le> length content"
  proof -
    have "?stop - 1 \<in> set ([?start..<?stop] @ concat (map segment_range segments))" using s(1) by auto
    then have "?stop - 1 < length content" unfolding cat by simp
    then show ?thesis using s(1) by simp
  qed
  have "concat (map segment_range segments) = drop (?stop - ?start) [n..<length content]"
    unfolding cat [symmetric] by simp
  then have rest: "concat (map segment_range segments) = [?stop..<length content]"
    using start s(1) by simp
  have here: "chunk_run n (segment_writes s items)" "\<forall>w \<in> set (segment_writes s items). chunk_of content w"
    "run_length (segment_writes s items) = ?stop - n"
    using segment_complete_run [OF s(1) stop Cons.prems(3) s(2)] s(3) start(1) by auto
  have after: "chunk_run ?stop (concat (map2 segment_writes segments streams))
    \<and> (\<forall>w \<in> set (concat (map2 segment_writes segments streams)). chunk_of content w)
    \<and> ?stop + run_length (concat (map2 segment_writes segments streams)) = length content"
    by (rule Cons.IH [OF rest stop Cons.prems(3)])
  have "n + (?stop - n) = ?stop" using s(1) start(1) by simp
  then show ?case using here after by (auto simp: chunk_run_append)
qed

lemma file_transfer_run:
  assumes size: "length content = unat expected" "resume \<le> expected"
    and streams: "list_all2 (\<lambda>s items. segment_served content s items \<and> (\<exists>n. segment_outcome s items = Inr n))
      (plan_payload_segments resume expected) streams"
  shows "chunk_run (unat resume) (concat (map2 segment_writes (plan_payload_segments resume expected) streams))
    \<and> (\<forall>w \<in> set (concat (map2 segment_writes (plan_payload_segments resume expected) streams)). chunk_of content w)
    \<and> unat resume + run_length (concat (map2 segment_writes (plan_payload_segments resume expected) streams)) = length content"
proof -
  let ?plan = "plan_payload_segments resume expected"
  have bound: "length content < 2 ^ 64" using size(1) u64_bound [of expected] by simp
  have "list_all2 (\<lambda>s items. unat (ps_start_offset_bytes s) < unat (ps_end_offset_bytes s)
      \<and> segment_served content s items \<and> (\<exists>n. segment_outcome s items = Inr n)) ?plan streams"
    using streams segments_partition(2) [OF size(2)] by (auto simp: list_all2_conv_all_nth)
  moreover have "concat (map segment_range ?plan) = [unat resume..<length content]"
    using segments_partition(1) [OF size(2)] size(1) by simp
  moreover have "unat resume \<le> length content" using size by (simp add: word_le_nat_alt)
  ultimately show ?thesis using segments_complete_run bound by blast
qed

lemma file_transfer_completes:
  assumes size: "length content = unat expected" "resume \<le> expected"
    and streams: "list_all2 (\<lambda>s items. segment_served content s items \<and> (\<exists>n. segment_outcome s items = Inr n))
      (plan_payload_segments resume expected) streams"
    and order: "set ws = set (concat (map2 segment_writes (plan_payload_segments resume expected) streams))"
  shows "sa_staged_file (write_chunks (assembler_open (take (unat resume) content) resume) ws) = content
    \<and> sa_contiguous_end_bytes (write_chunks (assembler_open (take (unat resume) content) resume) ws) = expected"
proof -
  have bound: "length content < 2 ^ 64" using size(1) u64_bound [of expected] by simp
  show ?thesis
    using any_order_completes [of resume "concat (map2 segment_writes (plan_payload_segments resume expected) streams)" content ws]
      file_transfer_run [OF size streams] bound order size(1) by (simp add: word_unat_eq_iff)
qed

lemma file_writes_good:
  assumes "length content = unat expected" "resume \<le> expected"
    "list_all2 (\<lambda>s items. segment_served content s items \<and> (\<exists>n. segment_outcome s items = Inr n))
      (plan_payload_segments resume expected) streams"
  shows "\<forall>w \<in> set (concat (map2 segment_writes (plan_payload_segments resume expected) streams)). chunk_of content w"
  using file_transfer_run [OF assms] by blast

text \<open>A complete file has nothing left to drain.\<close>

lemma drain_complete:
  assumes "assembly_ok content a" "unat (sa_contiguous_end_bytes a) = length content"
  shows "unat (sa_contiguous_end_bytes (drain_buffered_chunks a)) = length content"
proof -
  have "unat (sa_contiguous_end_bytes (drain_buffered_chunks a)) \<le> length content"
    using drain_ok [OF assms(1)] by (simp add: assembly_ok_def)
  moreover have "length content \<le> unat (sa_contiguous_end_bytes (drain_buffered_chunks a))"
  proof -
    have "assembly_ok content (drain_buffered_chunks a) \<and> length content \<le> unat (sa_contiguous_end_bytes (drain_buffered_chunks a))"
    proof (rule drain_induct [THEN conjunct1])
      fix b c assume b: "map_of (sa_buffered_chunks_by_offset b) (sa_contiguous_end_bytes b) = Some c"
        "assembly_ok content b \<and> length content \<le> unat (sa_contiguous_end_bytes b)"
      then show "assembly_ok content (append_chunk (remove_buffered (sa_contiguous_end_bytes b) b) c)
        \<and> length content \<le> unat (sa_contiguous_end_bytes (append_chunk (remove_buffered (sa_contiguous_end_bytes b) b) c))"
        using drain_step_ok [OF b(1), of content] by simp
    qed (use assms in simp)
    then show ?thesis by blast
  qed
  ultimately show ?thesis by simp
qed

section \<open>The order of the segments\<close>

definition remaining_file_bytes :: "DownloadJobFile \<Rightarrow> nat" where
  "remaining_file_bytes f = unat (df_expected_bytes f) - unat (df_bytes_on_disk f)"

lemma pending_files_set:
  "f \<in> set (pending_files j) \<longleftrightarrow> f \<in> set (dj_files j) \<and> df_bytes_on_disk f < df_expected_bytes f"
  by (auto simp: pending_files_def)

interpretation remaining_order: total_comparator compare_remaining UNIV
  by unfold_locales (auto simp: compare_remaining_def cmp_of_def split: if_splits)

lemma pending_comparison:
  assumes "df_bytes_on_disk f < df_expected_bytes f" "df_bytes_on_disk g < df_expected_bytes g"
  shows "compare_remaining f g \<noteq> Greater \<longleftrightarrow> remaining_file_bytes f \<le> remaining_file_bytes g"
proof -
  have "checked_sub (df_expected_bytes h) (df_bytes_on_disk h) = Some (df_expected_bytes h - df_bytes_on_disk h)"
    "unat (df_expected_bytes h - df_bytes_on_disk h) = remaining_file_bytes h"
    if "df_bytes_on_disk h < df_expected_bytes h" for h :: DownloadJobFile
    using that by (simp_all add: checked_sub_def unat_sub_exact remaining_file_bytes_def)
  then show ?thesis using assms by (auto simp: compare_remaining_def cmp_of_def word_less_nat_alt word_unat_eq_iff)
qed

lemma pending_files_ascending:
  "sorted_wrt (\<lambda>f g. remaining_file_bytes f \<le> remaining_file_bytes g) (pending_files j)"
proof -
  have "sorted_wrt (\<lambda>f g. compare_remaining f g \<noteq> Greater) (pending_files j)"
    unfolding pending_files_def by (rule remaining_order.sorted_sort_by) simp
  then show ?thesis
    by (rule sorted_wrt_mono_rel [rotated]) (simp add: pending_files_set pending_comparison)
qed

text \<open>The queue starts with the first segment of a file that has the least left to receive.\<close>

lemma plan_nonempty:
  assumes "r < e"
  shows "plan_payload_segments r e \<noteq> []"
proof
  assume "plan_payload_segments r e = []"
  then have "[unat r..<unat e] = []" using segments_partition(1) [of r e] assms by simp
  then show False using assms by (simp add: word_less_nat_alt)
qed

lemma planned_segments_nonempty: "(f, segments) \<in> set (planned_segments j) \<Longrightarrow> segments \<noteq> []"
  by (auto simp: planned_segments_def pending_files_set dest: plan_nonempty)

lemma maximum_segment_count_ge: "(f, segments) \<in> set planned \<Longrightarrow> length segments \<le> maximum_segment_count planned"
proof -
  have "m \<le> fold (\<lambda>(_, segments) m. max m (length segments)) ps m
    \<and> (\<forall>(f, segments) \<in> set ps. length segments \<le> fold (\<lambda>(_, segments) m. max m (length segments)) ps m)"
    for ps :: "(DownloadJobFile \<times> PayloadSegment list) list" and m
  proof (induction ps arbitrary: m)
    case (Cons p ps)
    obtain f segments where p: "p = (f, segments)" by (cases p)
    show ?case using Cons.IH [of "max m (length segments)"] unfolding p by (auto intro: order_trans)
  qed simp
  then show "(f, segments) \<in> set planned \<Longrightarrow> length segments \<le> maximum_segment_count planned"
    unfolding maximum_segment_count_def by blast
qed

lemma smallest_file_first:
  assumes "pending_segment_queue j = (f, s) # rest"
  shows "f \<in> set (dj_files j) \<and> (\<forall>g \<in> set (dj_files j). df_bytes_on_disk g < df_expected_bytes g \<longrightarrow>
    remaining_file_bytes f \<le> remaining_file_bytes g)"
proof (cases "planned_segments j")
  case Nil
  then have "pending_segment_queue j = []"
    by (simp add: pending_segment_queue_def Let_def maximum_segment_count_def)
  then show ?thesis using assms by simp
next
  case (Cons p planned)
  obtain g segments where p: "p = (g, segments)" by (cases p)
  have nonempty: "segments \<noteq> []" using planned_segments_nonempty [of g segments j] Cons p by simp
  have "0 < maximum_segment_count (planned_segments j)"
    using maximum_segment_count_ge [of g segments "planned_segments j"] nonempty Cons p by (cases segments) auto
  then have "[0..<maximum_segment_count (planned_segments j)] = 0 # [1..<maximum_segment_count (planned_segments j)]"
    by (simp add: upt_conv_Cons)
  moreover have "segment_round (planned_segments j) 0 = (g, segments ! 0) # segment_round planned 0"
    using nonempty by (simp add: segment_round_def Cons p List.map_filter_simps)
  ultimately have "f = g" using assms by (simp add: pending_segment_queue_def Let_def)
  obtain files where files: "pending_files j = f # files"
    using Cons p \<open>f = g\<close> by (auto simp: planned_segments_def)
  have "remaining_file_bytes f \<le> remaining_file_bytes g" if "g \<in> set (pending_files j)" for g
    using that pending_files_ascending [of j] unfolding files by auto
  moreover have "f \<in> set (dj_files j)" using pending_files_set [of f j] unfolding files by simp
  ultimately show ?thesis by (simp add: pending_files_set)
qed

text \<open>Every file keeps its own segments, in order.\<close>

lemma segment_round_file:
  assumes "distinct (map fst planned)" "(f, segments) \<in> set planned"
  shows "filter (\<lambda>p. fst p = f) (segment_round planned i) = (if i < length segments then [(f, segments ! i)] else [])"
  using assms
proof (induction planned)
  case (Cons p planned)
  obtain g ss where p: "p = (g, ss)" by (cases p)
  have other: "filter (\<lambda>p. fst p = f) (segment_round qs i) = []" if "f \<notin> fst ` set qs" for qs
    using that by (induction qs) (auto simp: segment_round_def List.map_filter_simps)
  show ?case
  proof (cases "g = f")
    case True
    then have "ss = segments" "f \<notin> fst ` set planned" using Cons.prems p by force+
    then show ?thesis using other [of planned] True by (simp add: segment_round_def List.map_filter_simps p)
  next
    case False
    then have "(f, segments) \<in> set planned" "distinct (map fst planned)" using Cons.prems p by auto
    then show ?thesis using Cons.IH False by (simp add: segment_round_def List.map_filter_simps p)
  qed
qed simp

lemma rounds_of_file:
  assumes "length xs \<le> n"
  shows "concat (map (\<lambda>i. if i < length xs then [(f, xs ! i)] else []) [0..<n]) = map (Pair f) xs"
proof -
  have "concat (map (\<lambda>i. if i < length xs then [(f, xs ! i)] else []) [0..<m]) = map (Pair f) (take m xs)" for m
    by (induction m) (auto simp: take_Suc_conv_app_nth)
  then show ?thesis using assms by simp
qed

lemma queue_keeps_segments:
  assumes "valid_job j" "f \<in> set (dj_files j)" "df_bytes_on_disk f < df_expected_bytes f"
  shows "filter (\<lambda>p. fst p = f) (pending_segment_queue j)
    = map (Pair f) (plan_payload_segments (df_bytes_on_disk f) (df_expected_bytes f))"
proof -
  let ?segments = "plan_payload_segments (df_bytes_on_disk f) (df_expected_bytes f)"
  have member: "(f, ?segments) \<in> set (planned_segments j)"
    using assms(2,3) by (force simp: planned_segments_def pending_files_set)
  have "distinct (map df_relative_path (dj_files j))"
    using assms(1) paths_distinct [of "dj_files j"] by (auto simp: distinct_conv_nth valid_job_def)
  then have "distinct (dj_files j)" by (simp add: distinct_map)
  then have "distinct (pending_files j)"
    unfolding pending_files_def by (metis distinct_filter mset_eq_imp_distinct_iff mset_sort_by)
  then have "distinct (map fst (planned_segments j))" by (simp add: planned_segments_def comp_def)
  note rounds = segment_round_file [OF this member]
  show ?thesis
    unfolding pending_segment_queue_def Let_def filter_concat map_map comp_def rounds
    by (rule rounds_of_file [OF maximum_segment_count_ge [OF member]])
qed

section \<open>Properties\<close>

text \<open>C22. Concurrent segments rebuild the file. When every planned segment of the remaining range is served the
  bytes of the file from its start and is read to its end, the staged file is exactly the file and its
  contiguous end the expected size, in whatever order the chunks of all segments reach the assembler;
  and after any part of them, in any order, the staged file is a prefix of the file without a hole.\<close>

theorem segmented_transfer_rebuilds_file:
  assumes "length content = unat expected" "resume \<le> expected"
    "list_all2 (\<lambda>s items. segment_served content s items \<and> (\<exists>n. segment_outcome s items = Inr n))
      (plan_payload_segments resume expected) streams"
  defines "writes \<equiv> concat (map2 segment_writes (plan_payload_segments resume expected) streams)"
    and "assemble \<equiv> write_chunks (assembler_open (take (unat resume) content) resume)"
  shows "(set ws = set writes \<longrightarrow>
      sa_staged_file (assembler_finalize (assemble ws)) = content
      \<and> sa_contiguous_end_bytes (assembler_finalize (assemble ws)) = expected)
    \<and> (set ws \<subseteq> set writes \<longrightarrow>
      prefix (sa_staged_file (assembler_finalize (assemble ws))) content
      \<and> length (sa_staged_file (assembler_finalize (assemble ws))) = unat (sa_contiguous_end_bytes (assembler_finalize (assemble ws))))"
proof -
  have bound: "length content < 2 ^ 64" using assms(1) u64_bound [of expected] by simp
  have start: "assembly_ok content (assembler_open (take (unat resume) content) resume)"
    using assms(1,2) bound by (simp add: assembly_ok_def assembler_open_def bt_invar_def word_le_nat_alt)
  have good: "\<forall>w \<in> set writes. chunk_of content w"
    using file_writes_good [OF assms(1-3)] by (simp add: writes_def)
  have ok: "assembly_ok content (assembler_finalize (assemble ws))" if "set ws \<subseteq> set writes"
    unfolding assembler_finalize_def assemble_def
    using that good by (intro drain_ok write_chunks_ok start) blast
  have settled: "sa_contiguous_end_bytes a = expected \<Longrightarrow> assembly_ok content a \<Longrightarrow>
      sa_contiguous_end_bytes (drain_buffered_chunks a) = expected" for a
    using drain_complete [of content a] assms(1) by (simp add: word_unat_eq_iff)
  show ?thesis
  proof (intro conjI impI)
    assume all: "set ws = set writes"
    have "sa_contiguous_end_bytes (assemble ws) = expected"
      using file_transfer_completes [OF assms(1-3) all [unfolded writes_def]] by (simp add: assemble_def)
    moreover have "assembly_ok content (assemble ws)"
      unfolding assemble_def using all good by (intro write_chunks_ok start) blast
    ultimately show final: "sa_contiguous_end_bytes (assembler_finalize (assemble ws)) = expected"
      unfolding assembler_finalize_def by (rule settled)
    show "sa_staged_file (assembler_finalize (assemble ws)) = content"
      using ok all final assms(1) by (simp add: assembly_ok_def)
  next
    assume part: "set ws \<subseteq> set writes"
    show "prefix (sa_staged_file (assembler_finalize (assemble ws))) content"
      using ok [OF part] by (simp add: assembly_ok_def take_is_prefix)
    show "length (sa_staged_file (assembler_finalize (assemble ws))) = unat (sa_contiguous_end_bytes (assembler_finalize (assemble ws)))"
      using ok [OF part] by (simp add: assembly_ok_def)
  qed
qed

theorem segmented_transfer_rebuilds_file_witness:
  "sa_staged_file (assembler_finalize (write_chunks (assembler_open ''a'' 1) [(2, ''c''), (1, ''b'')])) = ''abc''"
proof -
  let ?items' = "[(Inr ''b'', False), (Inr ''c'', False)] :: ((string + string) \<times> bool) list"
  have plan: "plan_payload_segments 1 3 = [\<lparr>ps_start_offset_bytes = 1, ps_end_offset_bytes = 3\<rparr>]" by code_simp
  have stream: "stream_segment 1 2 0 ?items' = ([(1, ''b''), (2, ''c'')], Inr 2)" by code_simp
  have "segment_served ''abc'' \<lparr>ps_start_offset_bytes = 1, ps_end_offset_bytes = 3\<rparr> ?items'"
    by (simp add: segment_served_def chunks_nonempty_def)
  moreover have "\<exists>n. segment_outcome \<lparr>ps_start_offset_bytes = 1, ps_end_offset_bytes = 3\<rparr> ?items' = Inr n"
    by (simp add: segment_outcome_def segment_bytes_width_def check_transferred_def stream del: stream_segment.simps)
  ultimately have served: "list_all2 (\<lambda>s items. segment_served ''abc'' s items \<and> (\<exists>n. segment_outcome s items = Inr n))
      (plan_payload_segments 1 3) [?items']"
    unfolding plan by simp
  have writes: "concat (map2 segment_writes (plan_payload_segments 1 3) [?items']) = [(1, ''b''), (2, ''c'')]"
    unfolding plan by (simp add: segment_writes_def segment_bytes_width_def stream del: stream_segment.simps)
  have size: "length ''abc'' = unat (3 :: u64)" "(1 :: u64) \<le> 3" by simp_all
  have "set [(2 :: u64, ''c''), (1, ''b'')] = set [(1, ''b''), (2, ''c'')]" by auto
  then show ?thesis
    using segmented_transfer_rebuilds_file [OF size served, of "[(2, ''c''), (1, ''b'')]"] unfolding writes by simp
qed

text \<open>The window's queue keeps every pending file's planned segments in their order, and it starts with the
  pending file that has the fewest bytes left to receive.\<close>

lemma window_queue_order:
  assumes "job_validate j = Inr ()" "f \<in> set (dj_files j)" "df_bytes_on_disk f < df_expected_bytes f"
  shows "filter (\<lambda>p. fst p = f) (pending_segment_queue j)
      = map (Pair f) (plan_payload_segments (df_bytes_on_disk f) (df_expected_bytes f))
    \<and> (\<exists>g s rest. pending_segment_queue j = (g, s) # rest \<and> g \<in> set (dj_files j)
        \<and> unat (df_expected_bytes g) - unat (df_bytes_on_disk g) \<le> unat (df_expected_bytes f) - unat (df_bytes_on_disk f))"
proof -
  have keeps: "filter (\<lambda>p. fst p = f) (pending_segment_queue j)
      = map (Pair f) (plan_payload_segments (df_bytes_on_disk f) (df_expected_bytes f))"
    using queue_keeps_segments assms by (simp add: job_validate_iff)
  then have "pending_segment_queue j \<noteq> []" using plan_nonempty [OF assms(3)] by auto
  then obtain g s rest where queue: "pending_segment_queue j = (g, s) # rest" by (metis list.exhaust surj_pair)
  then show ?thesis using keeps smallest_file_first [OF queue] assms(2,3)
    by (auto simp: remaining_file_bytes_def)
qed

end
