(* ===== verification/Cache_Key.thy ===== *)
theory Cache_Key
  imports Prelude "HOL-Library.Sublist"
begin

text \<open>
  The identity of a persistent decoder-state block: \<^verbatim>\<open>persistent_cache/block_key.rs\<close> and
  \<^verbatim>\<open>persistent_cache/block_causal_input.rs\<close> of \<^verbatim>\<open>crates/model-serving/src\<close>. A block is addressed by a digest
  over its parent's digest, the fingerprint of the storage contract, the non-token input it introduces and
  its tokens. The digest function (SHA-256) is the argument \<open>sha\<close>, on lists of bytes; a fixed array of 32
  bytes is a list. The lemmas show that the digested bytes determine the whole chain of blocks.
\<close>

section \<open>Data\<close>

type_synonym byte = "8 word"
type_synonym digest = "byte list"

text \<open>The fields of the storage contract on which keys and lookups depend.\<close>

record model_contract =
  mc_block_token_count :: nat
  mc_common_prefix_checkpoint_stride_blocks :: u32
  mc_has_sequence_state :: bool
  mc_has_boundary_state :: bool
  mc_storage_contract_fingerprint :: digest

record BlockCausalInput =
  ci_canonical_digest :: "digest option"

definition causal_input_empty :: BlockCausalInput where
  "causal_input_empty = \<lparr>ci_canonical_digest = None\<rparr>"

definition from_canonical_bytes :: "(byte list \<Rightarrow> digest) \<Rightarrow> byte list \<Rightarrow> BlockCausalInput" where
  "from_canonical_bytes sha canonical_bytes =
     (if canonical_bytes = [] then causal_input_empty
      else \<lparr>ci_canonical_digest = Some (sha canonical_bytes)\<rparr>)"

definition causal_input_is_empty :: "BlockCausalInput \<Rightarrow> bool" where
  "causal_input_is_empty self \<longleftrightarrow> ci_canonical_digest self = None"

record BlockKey =
  bk_block_hash :: digest
  bk_block_index :: u32
  bk_token_count :: u32
  bk_block_token_count :: nat
  bk_storage_contract_fingerprint :: digest

datatype BlockKeyError =
  EmptyBlockTokens | BlockTokenCountExceedsBlock nat nat | KeyBlockTokenCountOverflow | BlockIndexOverflow

section \<open>Keys\<close>

text \<open>The bytes of an ASCII literal and the big-endian bytes of a token.\<close>

definition ascii_bytes :: "string \<Rightarrow> byte list" where
  "ascii_bytes s = map (\<lambda>c. of_nat (of_char c)) s"

definition u32_be_bytes :: "u32 \<Rightarrow> byte list" where
  "u32_be_bytes token = [ucast (drop_bit 24 token), ucast (drop_bit 16 token), ucast (drop_bit 8 token), ucast token]"

definition ROOT_SEED :: "byte list" where
  "ROOT_SEED = ascii_bytes ''astronomical-decoder-cache-root''"

definition CAUSAL_INPUT_DOMAIN :: "byte list" where
  "CAUSAL_INPUT_DOMAIN = ascii_bytes ''astronomical-decoder-cache-block-causal-input''"

definition validate_block_tokens :: "u32 list \<Rightarrow> nat \<Rightarrow> BlockKeyError + unit" where
  "validate_block_tokens block_tokens block_token_count =
     (if block_tokens = [] then Inl EmptyBlockTokens
      else if block_token_count < length block_tokens
      then Inl (BlockTokenCountExceedsBlock (length block_tokens) block_token_count)
      else Inr ())"

definition chain_preimage :: "digest option \<Rightarrow> digest \<Rightarrow> u32 list \<Rightarrow> BlockCausalInput \<Rightarrow> byte list" where
  "chain_preimage parent_hash fingerprint block_tokens block_causal_input =
     (case parent_hash of Some hash \<Rightarrow> hash | None \<Rightarrow> ROOT_SEED)
     @ fingerprint
     @ (case ci_canonical_digest block_causal_input of
          Some causal_digest \<Rightarrow> CAUSAL_INPUT_DOMAIN @ causal_digest
        | None \<Rightarrow> [])
     @ concat (map u32_be_bytes block_tokens)"

definition chain_hash_with_causal_input ::
    "(byte list \<Rightarrow> digest) \<Rightarrow> digest option \<Rightarrow> digest \<Rightarrow> u32 list \<Rightarrow> BlockCausalInput \<Rightarrow> digest" where
  "chain_hash_with_causal_input sha parent_hash fingerprint block_tokens block_causal_input =
     sha (chain_preimage parent_hash fingerprint block_tokens block_causal_input)"

text \<open>\<^verbatim>\<open>u32::try_from\<close> of a length.\<close>

definition u32_try_from_len :: "nat \<Rightarrow> u32 option" where
  "u32_try_from_len n = (if n < 2 ^ 32 then Some (of_nat n) else None)"

lemma u32_try_from_len_code [code]: "u32_try_from_len n = (if int n < 4294967296 then Some (of_nat n) else None)"
  by (auto simp: u32_try_from_len_def)

definition for_root_block_with_causal_input ::
    "(byte list \<Rightarrow> digest) \<Rightarrow> model_contract \<Rightarrow> u32 list \<Rightarrow> BlockCausalInput \<Rightarrow> BlockKeyError + BlockKey" where
  "for_root_block_with_causal_input sha contract block_tokens block_causal_input =
     result_bind (validate_block_tokens block_tokens (mc_block_token_count contract))
       (\<lambda>_. let fingerprint = mc_storage_contract_fingerprint contract;
                block_hash = chain_hash_with_causal_input sha None fingerprint block_tokens block_causal_input
            in result_bind (ok_or (u32_try_from_len (length block_tokens)) KeyBlockTokenCountOverflow)
              (\<lambda>token_count. Inr \<lparr>bk_block_hash = block_hash, bk_block_index = 0, bk_token_count = token_count,
                 bk_block_token_count = mc_block_token_count contract,
                 bk_storage_contract_fingerprint = fingerprint\<rparr>))"

definition for_child_block_with_causal_input ::
    "(byte list \<Rightarrow> digest) \<Rightarrow> BlockKey \<Rightarrow> u32 list \<Rightarrow> BlockCausalInput \<Rightarrow> BlockKeyError + BlockKey" where
  "for_child_block_with_causal_input sha self block_tokens block_causal_input =
     result_bind (validate_block_tokens block_tokens (bk_block_token_count self))
       (\<lambda>_. let block_hash = chain_hash_with_causal_input sha (Some (bk_block_hash self))
                  (bk_storage_contract_fingerprint self) block_tokens block_causal_input
            in result_bind (ok_or (checked_add (bk_block_index self) 1) BlockIndexOverflow)
              (\<lambda>next_block_index.
                 result_bind (ok_or (u32_try_from_len (length block_tokens)) KeyBlockTokenCountOverflow)
                   (\<lambda>token_count. Inr \<lparr>bk_block_hash = block_hash, bk_block_index = next_block_index,
                      bk_token_count = token_count, bk_block_token_count = bk_block_token_count self,
                      bk_storage_contract_fingerprint = bk_storage_contract_fingerprint self\<rparr>)))"

text \<open>The variants without non-token input.\<close>

definition for_root_block ::
    "(byte list \<Rightarrow> digest) \<Rightarrow> model_contract \<Rightarrow> u32 list \<Rightarrow> BlockKeyError + BlockKey" where
  "for_root_block sha contract block_tokens =
     for_root_block_with_causal_input sha contract block_tokens causal_input_empty"

definition for_child_block ::
    "(byte list \<Rightarrow> digest) \<Rightarrow> BlockKey \<Rightarrow> u32 list \<Rightarrow> BlockKeyError + BlockKey" where
  "for_child_block sha self block_tokens = for_child_block_with_causal_input sha self block_tokens causal_input_empty"

text \<open>\<^verbatim>\<open>capture_planning.rs\<close> chooses between the two constructors by the parent.\<close>

definition block_key_for_captured_block ::
    "(byte list \<Rightarrow> digest) \<Rightarrow> BlockKey option \<Rightarrow> model_contract \<Rightarrow> u32 list \<Rightarrow> BlockCausalInput \<Rightarrow> BlockKeyError + BlockKey" where
  "block_key_for_captured_block sha parent_key contract block_tokens block_causal_input =
     (case parent_key of
        None \<Rightarrow> for_root_block_with_causal_input sha contract block_tokens block_causal_input
      | Some parent \<Rightarrow> for_child_block_with_causal_input sha parent block_tokens block_causal_input)"

section \<open>Lemmas\<close>

text \<open>A chain of blocks, the key at its end, and the byte strings digested on the way.\<close>

type_synonym chain = "(u32 list \<times> BlockCausalInput) list"

fun extend_chain ::
    "(byte list \<Rightarrow> digest) \<Rightarrow> model_contract \<Rightarrow> BlockKey option \<Rightarrow> chain \<Rightarrow> BlockKeyError + BlockKey option" where
  "extend_chain sha contract parent_key [] = Inr parent_key"
| "extend_chain sha contract parent_key ((block_tokens, causal) # blocks) =
     result_bind (block_key_for_captured_block sha parent_key contract block_tokens causal)
       (\<lambda>key. extend_chain sha contract (Some key) blocks)"

fun chain_preimages :: "(byte list \<Rightarrow> digest) \<Rightarrow> digest \<Rightarrow> digest option \<Rightarrow> chain \<Rightarrow> byte list list" where
  "chain_preimages sha fingerprint parent_hash [] = []"
| "chain_preimages sha fingerprint parent_hash ((block_tokens, causal) # blocks) =
     (let preimage = chain_preimage parent_hash fingerprint block_tokens causal
      in preimage # chain_preimages sha fingerprint (Some (sha preimage)) blocks)"

definition chain_hash :: "(byte list \<Rightarrow> digest) \<Rightarrow> digest \<Rightarrow> chain \<Rightarrow> digest option" where
  "chain_hash sha fingerprint blocks =
     (case chain_preimages sha fingerprint None blocks of [] \<Rightarrow> None | ps \<Rightarrow> Some (sha (last ps)))"

text \<open>The digested bytes determine what was digested: their length modulo four tells whether non-token input was
  bound, and only a digest that starts with the root seed could pass for a root.\<close>

lemma u32_be_bytes_inj: "u32_be_bytes a = u32_be_bytes b \<Longrightarrow> a = b"
proof (rule bit_word_eqI)
  fix n
  assume eq: "u32_be_bytes a = u32_be_bytes b" and n: "n < LENGTH(32)"
  have bytes: "ucast (drop_bit k a) = (ucast (drop_bit k b) :: byte)" if "k \<in> {0, 8, 16, 24}" for k
    using eq that by (auto simp: u32_be_bytes_def)
  have "bit (drop_bit k a) m = bit (drop_bit k b) m" if "k \<in> {0, 8, 16, 24}" "m < 8" for k m
    using arg_cong [OF bytes [OF that(1)], of "\<lambda>w. bit w m"] that(2) by (simp add: bit_ucast_iff)
  then have step: "bit a (k + m) = bit b (k + m)" if "k \<in> {0, 8, 16, 24}" "m < 8" for k m
    using that by (simp add: bit_drop_bit_eq)
  have "n = (n div 8) * 8 + n mod 8" by simp
  moreover have "n div 8 \<in> {0, 1, 2, 3}" using n by auto
  ultimately show "bit a n \<longleftrightarrow> bit b n"
    using step [of "(n div 8) * 8" "n mod 8"] by auto
qed

lemma length_u32_be_bytes [simp]: "length (u32_be_bytes t) = 4"
  by (simp add: u32_be_bytes_def)

lemma length_token_bytes: "length (concat (map u32_be_bytes ts)) = 4 * length ts"
  by (induction ts) auto

lemma token_bytes_inj: "concat (map u32_be_bytes ts) = concat (map u32_be_bytes us) \<Longrightarrow> ts = us"
proof (induction ts arbitrary: us)
  case Nil
  from arg_cong [OF Nil, of length] show ?case by (simp add: length_token_bytes)
next
  case (Cons t ts)
  from arg_cong [OF Cons.prems, of length] obtain u us' where us: "us = u # us'"
    by (cases us) (simp_all add: length_token_bytes)
  then show ?case using Cons by (auto dest: u32_be_bytes_inj)
qed

lemma literal_lengths: "length ROOT_SEED = 31" "length CAUSAL_INPUT_DOMAIN = 45"
  by (simp_all add: ROOT_SEED_def CAUSAL_INPUT_DOMAIN_def ascii_bytes_def)

definition causal_wf :: "BlockCausalInput \<Rightarrow> bool" where
  "causal_wf causal \<longleftrightarrow> (case ci_canonical_digest causal of None \<Rightarrow> True | Some d \<Rightarrow> length d = 32)"

lemma causal_tokens_inj:
  assumes "causal_wf c" "causal_wf c'"
    "(case ci_canonical_digest c of Some d \<Rightarrow> CAUSAL_INPUT_DOMAIN @ d | None \<Rightarrow> []) @ concat (map u32_be_bytes ts)
     = (case ci_canonical_digest c' of Some d \<Rightarrow> CAUSAL_INPUT_DOMAIN @ d | None \<Rightarrow> []) @ concat (map u32_be_bytes us)"
  shows "c = c' \<and> ts = us"
proof -
  have len: "length ((case ci_canonical_digest c of Some d \<Rightarrow> CAUSAL_INPUT_DOMAIN @ d | None \<Rightarrow> []))
      = (if ci_canonical_digest c = None then 0 else 77)" if "causal_wf c" for c
    using that by (auto simp: causal_wf_def literal_lengths split: option.splits)
  have parity: "(if x then 0 else 77) + 4 * m = (if y then 0 else 77) + 4 * n \<Longrightarrow> x = y" for x y and m n :: nat
    by (auto split: if_splits) presburger+
  have same: "ci_canonical_digest c = None \<longleftrightarrow> ci_canonical_digest c' = None"
    using arg_cong [OF assms(3), of length] unfolding length_append len [OF assms(1)] len [OF assms(2)] length_token_bytes
    by (rule parity)
  have parts: "(case ci_canonical_digest c of Some d \<Rightarrow> CAUSAL_INPUT_DOMAIN @ d | None \<Rightarrow> [])
      = (case ci_canonical_digest c' of Some d \<Rightarrow> CAUSAL_INPUT_DOMAIN @ d | None \<Rightarrow> [])"
    "concat (map u32_be_bytes ts) = concat (map u32_be_bytes us)"
    using assms(3) same by (simp_all add: append_eq_append_conv len assms(1,2))
  have "ci_canonical_digest c = ci_canonical_digest c'" using parts(1) same by (auto split: option.splits)
  then show ?thesis using token_bytes_inj [OF parts(2)] by simp
qed

definition parent_wf :: "digest option \<Rightarrow> bool" where
  "parent_wf parent \<longleftrightarrow> (case parent of None \<Rightarrow> True | Some h \<Rightarrow> length h = 32 \<and> \<not> prefix ROOT_SEED h)"

lemma chain_preimage_inj:
  assumes "parent_wf p" "parent_wf p'" "length fp = 32" "length fp' = 32" "causal_wf c" "causal_wf c'"
    "chain_preimage p fp ts c = chain_preimage p' fp' us c'"
  shows "p = p' \<and> fp = fp' \<and> ts = us \<and> c = c'"
proof -
  let ?rest = "\<lambda>c ts. (case ci_canonical_digest c of Some d \<Rightarrow> CAUSAL_INPUT_DOMAIN @ d | None \<Rightarrow> []) @ concat (map u32_be_bytes ts)"
  have seeded: False if "ROOT_SEED @ xs = h @ ys" "length h = 32" "\<not> prefix ROOT_SEED h" for xs h ys
  proof -
    have "take 31 (ROOT_SEED @ xs) = ROOT_SEED" "take 31 (h @ ys) = take 31 h"
      using that(2) literal_lengths(1) by simp_all
    then have "ROOT_SEED = take 31 h" using that(1) by simp
    then show False using that(3) by (metis take_is_prefix)
  qed
  have heads: "p = p' \<and> fp @ ?rest c ts = fp' @ ?rest c' us"
  proof (cases p)
    case None
    then show ?thesis using assms(2,7) seeded
      by (cases p') (auto simp: chain_preimage_def parent_wf_def)
  next
    case (Some h)
    then show ?thesis using assms(1,2,7) seeded [OF sym]
      by (cases p') (auto simp: chain_preimage_def parent_wf_def)
  qed
  then have "fp = fp'" "?rest c ts = ?rest c' us" using assms(3,4) by simp_all
  then show ?thesis using heads causal_tokens_inj [OF assms(5,6)] by simp
qed

lemma chain_preimages_snoc:
  "chain_preimages sha fp p (bs @ [(ts, c)]) =
     chain_preimages sha fp p bs
     @ [chain_preimage (if bs = [] then p else Some (sha (last (chain_preimages sha fp p bs)))) fp ts c]"
proof (induction sha fp p bs rule: chain_preimages.induct)
  case (2 sha fp p ts' c' bs)
  then show ?case by (cases bs) (auto simp: Let_def)
qed (simp add: Let_def)

lemma chain_preimages_Nil [simp]: "chain_preimages sha fp p bs = [] \<longleftrightarrow> bs = []"
  by (cases bs) (auto simp: Let_def)

text \<open>Digests that neither collide nor look like the root seed, on the byte strings of the chains at hand.\<close>

definition digests_separate :: "(byte list \<Rightarrow> digest) \<Rightarrow> byte list set \<Rightarrow> bool" where
  "digests_separate sha preimages \<longleftrightarrow>
     inj_on sha preimages \<and> (\<forall>x \<in> preimages. length (sha x) = 32 \<and> \<not> prefix ROOT_SEED (sha x))"

lemma last_preimage_determines_chain:
  assumes "digests_separate sha (set (chain_preimages sha fp None bs) \<union> set (chain_preimages sha fp' None bs'))"
    "length fp = 32" "length fp' = 32" "\<forall>b \<in> set bs. causal_wf (snd b)" "\<forall>b \<in> set bs'. causal_wf (snd b)"
    "bs \<noteq> []" "bs' \<noteq> []"
    "last (chain_preimages sha fp None bs) = last (chain_preimages sha fp' None bs')"
  shows "bs = bs' \<and> fp = fp'"
  using assms
proof (induction bs arbitrary: bs' rule: rev_induct)
  case (snoc b bs)
  obtain ts c where b: "b = (ts, c)" by (cases b)
  obtain bs1 us c' where bs': "bs' = bs1 @ [(us, c')]" using snoc.prems(7) by (metis rev_exhaust surj_pair)
  let ?P = "chain_preimages sha fp None bs" and ?Q = "chain_preimages sha fp' None bs1"
  have sep: "digests_separate sha (set ?P \<union> set ?Q)"
    using snoc.prems(1) unfolding b bs' chain_preimages_snoc digests_separate_def by (auto intro: inj_on_subset)
  have wf: "parent_wf (if bs = [] then None else Some (sha (last ?P)))" "parent_wf (if bs1 = [] then None else Some (sha (last ?Q)))"
    using sep by (auto simp: parent_wf_def digests_separate_def)
  have eq0: "chain_preimage (if bs = [] then None else Some (sha (last ?P))) fp ts c
      = chain_preimage (if bs1 = [] then None else Some (sha (last ?Q))) fp' us c'"
    using snoc.prems(8) unfolding b bs' chain_preimages_snoc by simp
  have causal: "causal_wf c" "causal_wf c'" using snoc.prems(4,5) unfolding b bs' by simp_all
  note all = chain_preimage_inj [OF wf snoc.prems(2,3) causal eq0]
  note eq = conjunct1 [OF all] conjunct1 [OF conjunct2 [OF all]] conjunct1 [OF conjunct2 [OF conjunct2 [OF all]]]
    conjunct2 [OF conjunct2 [OF conjunct2 [OF all]]]
  have "bs = bs1"
  proof (cases "bs = []")
    case False
    then have ne: "bs1 \<noteq> []" and "sha (last ?P) = sha (last ?Q)" using eq(1)
      by (cases "bs1 = []"; simp only: if_True if_False option.simps; simp)+
    moreover have "last ?P \<in> set ?P \<union> set ?Q" "last ?Q \<in> set ?P \<union> set ?Q" using False ne by simp_all
    ultimately have "last ?P = last ?Q" using sep unfolding digests_separate_def by (meson inj_onD)
    then show ?thesis using snoc.IH [OF sep snoc.prems(2,3) _ _ False ne] snoc.prems(4,5) unfolding b bs' by simp
  next
    case True
    then show ?thesis using eq(1) by (cases "bs1 = []") simp_all
  qed
  then show ?case using eq b bs' by simp
qed simp

text \<open>The key at the end of a chain carries the digest of the chain.\<close>

lemma captured_key_fields:
  assumes "block_key_for_captured_block sha parent contract ts c = Inr key"
  shows "bk_block_hash key = sha (chain_preimage (map_option bk_block_hash parent)
      (case parent of None \<Rightarrow> mc_storage_contract_fingerprint contract | Some k \<Rightarrow> bk_storage_contract_fingerprint k) ts c)"
    "unat (bk_token_count key) = length ts" "ts \<noteq> []"
    "length ts \<le> (case parent of None \<Rightarrow> mc_block_token_count contract | Some k \<Rightarrow> bk_block_token_count k)"
    "unat (bk_block_index key) = (case parent of None \<Rightarrow> 0 | Some k \<Rightarrow> unat (bk_block_index k) + 1)"
    "bk_block_token_count key = (case parent of None \<Rightarrow> mc_block_token_count contract | Some k \<Rightarrow> bk_block_token_count k)"
    "bk_storage_contract_fingerprint key
      = (case parent of None \<Rightarrow> mc_storage_contract_fingerprint contract | Some k \<Rightarrow> bk_storage_contract_fingerprint k)"
  using assms
  by (auto simp: block_key_for_captured_block_def for_root_block_with_causal_input_def for_child_block_with_causal_input_def
      chain_hash_with_causal_input_def validate_block_tokens_def u32_try_from_len_def Let_def checked_add_Some_iff
      unsigned_of_nat take_bit_nat_eq_self split: option.splits if_splits)

text \<open>A key that belongs to the contract.\<close>

definition key_of_contract :: "model_contract \<Rightarrow> BlockKey option \<Rightarrow> bool" where
  "key_of_contract contract parent \<longleftrightarrow>
     (case parent of None \<Rightarrow> True
      | Some k \<Rightarrow> bk_block_token_count k = mc_block_token_count contract
          \<and> bk_storage_contract_fingerprint k = mc_storage_contract_fingerprint contract)"

lemma captured_key_exists:
  assumes "ts \<noteq> []" "length ts \<le> mc_block_token_count contract" "length ts < 2 ^ 32" "key_of_contract contract parent"
    "case parent of None \<Rightarrow> True | Some k \<Rightarrow> unat (bk_block_index k) + 1 < 2 ^ 32"
  shows "\<exists>key. block_key_for_captured_block sha parent contract ts c = Inr key"
  using assms
  by (auto simp: block_key_for_captured_block_def for_root_block_with_causal_input_def for_child_block_with_causal_input_def
      validate_block_tokens_def u32_try_from_len_def Let_def checked_add_def key_of_contract_def split: option.splits)

lemma extend_chain_key:
  assumes "extend_chain sha contract parent bs = Inr (Some key)" "bs \<noteq> []" "key_of_contract contract parent"
  shows "bk_block_hash key = sha (last (chain_preimages sha (mc_storage_contract_fingerprint contract) (map_option bk_block_hash parent) bs))"
    "key_of_contract contract (Some key)"
    "unat (bk_token_count key) = length (fst (last bs))"
    "unat (bk_block_index key) + 1 = (case parent of None \<Rightarrow> 0 | Some k \<Rightarrow> unat (bk_block_index k) + 1) + length bs"
  using assms
proof (induction bs arbitrary: parent)
  case (Cons b bs)
  obtain ts c where b: "b = (ts, c)" by (cases b)
  {
    case 1
    then obtain k where k: "block_key_for_captured_block sha parent contract ts c = Inr k"
      and rest: "extend_chain sha contract (Some k) bs = Inr (Some key)" by (auto simp: b)
    note fields = captured_key_fields [OF k]
    have kc: "key_of_contract contract (Some k)" using 1(3) fields by (auto simp: key_of_contract_def split: option.splits)
    show ?case
    proof (cases "bs = []")
      case True
      then show ?thesis using rest fields(1) 1(3) by (auto simp: b Let_def key_of_contract_def split: option.splits)
    next
      case False
      then show ?thesis using Cons.IH(1) [OF rest False kc] fields(1) 1(3)
        by (auto simp: b Let_def key_of_contract_def split: option.splits)
    qed
  next
    case 2
    then obtain k where k: "block_key_for_captured_block sha parent contract ts c = Inr k"
      and rest: "extend_chain sha contract (Some k) bs = Inr (Some key)" by (auto simp: b)
    have kc: "key_of_contract contract (Some k)"
      using 2(3) captured_key_fields [OF k] by (auto simp: key_of_contract_def split: option.splits)
    show ?case using rest kc Cons.IH(2) [OF rest _ kc] by (cases "bs = []") auto
  next
    case 3
    then obtain k where k: "block_key_for_captured_block sha parent contract ts c = Inr k"
      and rest: "extend_chain sha contract (Some k) bs = Inr (Some key)" by (auto simp: b)
    have kc: "key_of_contract contract (Some k)"
      using 3(3) captured_key_fields [OF k] by (auto simp: key_of_contract_def split: option.splits)
    show ?case using rest captured_key_fields(2) [OF k] Cons.IH(3) [OF rest _ kc] by (cases "bs = []") (auto simp: b)
  next
    case 4
    then obtain k where k: "block_key_for_captured_block sha parent contract ts c = Inr k"
      and rest: "extend_chain sha contract (Some k) bs = Inr (Some key)" by (auto simp: b)
    have kc: "key_of_contract contract (Some k)"
      using 4(3) captured_key_fields [OF k] by (auto simp: key_of_contract_def split: option.splits)
    show ?case using rest captured_key_fields(5) [OF k] Cons.IH(4) [OF rest _ kc]
      by (cases "bs = []") (auto simp: b split: option.splits)
  }
qed simp_all

end
