(* ===== verification/Cache_Index.thy ===== *)
theory Cache_Index
  imports Cache_Key "HOL-Library.AList" "HOL-Library.Char_ord" "HOL-Library.List_Lexorder"
begin

text \<open>
  The process-local index of a prompt-cache store: \<^verbatim>\<open>persistent_cache/disk_store_index.rs\<close>, the file
  kinds of \<^verbatim>\<open>disk_store_file.rs\<close> and the errors of \<^verbatim>\<open>disk_store_error.rs\<close>. A path is the list of its
  components, which is also how the library orders paths. A hash map is an association list; its iteration
  order is the order of the list, and no result proved here depends on it.
\<close>

section \<open>Data\<close>

type_synonym path = "string list"

datatype FileKind = SequenceStateBlock | BoundaryStateSnapshot | VisualEmbedding

record TrackedFile =
  tf_file_path :: path
  tf_file_size_bytes :: u64

record TrackedBlock =
  tb_block_directory_path :: path
  tb_block_index :: u32
  tb_parent_block_hash :: "digest option"
  tb_sequence_state_file :: "TrackedFile option"
  tb_boundary_state_file :: "TrackedFile option"

record DiskStoreIndex =
  ix_blocks :: "(digest \<times> TrackedBlock) list"
  ix_visual_embeddings :: "(digest \<times> TrackedFile) list"

text \<open>The errors that the modelled operations tell apart; the failures of file-system calls share one constructor
  that carries the path.\<close>

datatype DiskStoreError =
  ParentStateNotPublished u32
| ExistingBlockTopologyMismatch digest
| InvalidRequestedBlockAncestry u32
| StateKindTensorPresenceMismatch string bool nat
| SaveSafetensorsActiveMemoryLimitExceeded usize usize usize
| FileSystemFailure path
| ValidateBlock path
| WrittenFileSizeMismatch path u64 u64
| SizeBoundExceeded u64 u64
| GlobalPromptCacheSizeOverflow path
| GlobalPromptCacheQuotaNotSatisfied u64 u64

fun active_memory_deficit_bytes :: "DiskStoreError \<Rightarrow> usize option" where
  "active_memory_deficit_bytes (SaveSafetensorsActiveMemoryLimitExceeded active attempted allowed) =
     Some (saturating_sub (saturating_add active attempted) allowed)"
| "active_memory_deficit_bytes _ = None"

section \<open>The index\<close>

definition sequence_state_block_count :: "DiskStoreIndex \<Rightarrow> nat" where
  "sequence_state_block_count self =
     length (filter (\<lambda>(_, block). tb_sequence_state_file block \<noteq> None) (ix_blocks self))"

definition boundary_state_snapshot_count :: "DiskStoreIndex \<Rightarrow> nat" where
  "boundary_state_snapshot_count self =
     length (filter (\<lambda>(_, block). tb_boundary_state_file block \<noteq> None) (ix_blocks self))"

definition visual_embedding_count :: "DiskStoreIndex \<Rightarrow> nat" where
  "visual_embedding_count self = length (ix_visual_embeddings self)"

definition index_block :: "DiskStoreIndex \<Rightarrow> digest \<Rightarrow> TrackedBlock option" where
  "index_block self block_hash = map_of (ix_blocks self) block_hash"

definition insert_block :: "digest \<Rightarrow> TrackedBlock \<Rightarrow> DiskStoreIndex \<Rightarrow> DiskStoreIndex" where
  "insert_block block_hash tracked_block self =
     self\<lparr>ix_blocks := AList.update block_hash tracked_block (ix_blocks self)\<rparr>"

definition tracked_blocks :: "DiskStoreIndex \<Rightarrow> (digest \<times> TrackedBlock) list" where
  "tracked_blocks self = ix_blocks self"

definition remove_block :: "digest \<Rightarrow> DiskStoreIndex \<Rightarrow> DiskStoreIndex" where
  "remove_block block_hash self = self\<lparr>ix_blocks := AList.delete block_hash (ix_blocks self)\<rparr>"

text \<open>The walk from a chain tip to its root, bounded by the set of visited blocks.\<close>

function protected_walk :: "(digest \<times> TrackedBlock) list \<Rightarrow> digest list \<Rightarrow> digest option \<Rightarrow> path list" where
  "protected_walk blocks visited None = []"
| "protected_walk blocks visited (Some block_hash) =
     (if block_hash \<in> set visited then []
      else case map_of blocks block_hash of
             None \<Rightarrow> []
           | Some tracked_block \<Rightarrow>
               tb_block_directory_path tracked_block
               # protected_walk blocks (block_hash # visited) (tb_parent_block_hash tracked_block))"
  by pat_completeness auto

termination
proof (relation "measure (\<lambda>(blocks, visited, _). card (set (map fst blocks) - set visited))", goal_cases)
  case (2 blocks visited block_hash tracked_block)
  have "block_hash \<in> set (map fst blocks) - set visited"
    using map_of_SomeD [OF 2(2)] 2(1) by force
  then have "set (map fst blocks) - set (block_hash # visited) \<subset> set (map fst blocks) - set visited" by auto
  then show ?case by (simp add: psubset_card_mono del: set_map)
qed simp

definition protected_ancestry_directory_paths :: "DiskStoreIndex \<Rightarrow> digest \<Rightarrow> path list" where
  "protected_ancestry_directory_paths self chain_tip_block_hash =
     protected_walk (ix_blocks self) [] (Some chain_tip_block_hash)"

fun index_file :: "DiskStoreIndex \<Rightarrow> FileKind \<Rightarrow> digest \<Rightarrow> TrackedFile option" where
  "index_file self SequenceStateBlock file_hash = Option.bind (index_block self file_hash) tb_sequence_state_file"
| "index_file self BoundaryStateSnapshot file_hash = Option.bind (index_block self file_hash) tb_boundary_state_file"
| "index_file self VisualEmbedding file_hash = map_of (ix_visual_embeddings self) file_hash"

fun insert_file :: "FileKind \<Rightarrow> digest \<Rightarrow> TrackedFile \<Rightarrow> DiskStoreIndex \<Rightarrow> DiskStoreIndex" where
  "insert_file SequenceStateBlock file_hash tracked_file self =
     self\<lparr>ix_blocks := AList.map_entry file_hash (tb_sequence_state_file_update (\<lambda>_. Some tracked_file)) (ix_blocks self)\<rparr>"
| "insert_file BoundaryStateSnapshot file_hash tracked_file self =
     self\<lparr>ix_blocks := AList.map_entry file_hash (tb_boundary_state_file_update (\<lambda>_. Some tracked_file)) (ix_blocks self)\<rparr>"
| "insert_file VisualEmbedding file_hash tracked_file self =
     self\<lparr>ix_visual_embeddings := AList.update file_hash tracked_file (ix_visual_embeddings self)\<rparr>"

text \<open>The file that is removed, and the index without it.\<close>

fun remove_file :: "FileKind \<Rightarrow> digest \<Rightarrow> DiskStoreIndex \<Rightarrow> TrackedFile option \<times> DiskStoreIndex" where
  "remove_file SequenceStateBlock file_hash self =
     (index_file self SequenceStateBlock file_hash,
      self\<lparr>ix_blocks := AList.map_entry file_hash (tb_sequence_state_file_update (\<lambda>_. None)) (ix_blocks self)\<rparr>)"
| "remove_file BoundaryStateSnapshot file_hash self =
     (index_file self BoundaryStateSnapshot file_hash,
      self\<lparr>ix_blocks := AList.map_entry file_hash (tb_boundary_state_file_update (\<lambda>_. None)) (ix_blocks self)\<rparr>)"
| "remove_file VisualEmbedding file_hash self =
     (index_file self VisualEmbedding file_hash,
      self\<lparr>ix_visual_embeddings := AList.delete file_hash (ix_visual_embeddings self)\<rparr>)"

definition drop_removed_file :: "path list \<Rightarrow> TrackedFile option \<Rightarrow> TrackedFile option" where
  "drop_removed_file removed_file_paths tracked_file =
     (case tracked_file of
        None \<Rightarrow> None
      | Some tracked \<Rightarrow> if tf_file_path tracked \<in> set removed_file_paths then None else Some tracked)"

definition retain_files_not_removed :: "path list \<Rightarrow> (digest \<times> TrackedFile) list \<Rightarrow> (digest \<times> TrackedFile) list" where
  "retain_files_not_removed removed_file_paths tracked_files =
     filter (\<lambda>(_, tracked_file). tf_file_path tracked_file \<notin> set removed_file_paths) tracked_files"

definition remove_files_by_path :: "path list \<Rightarrow> DiskStoreIndex \<Rightarrow> DiskStoreIndex" where
  "remove_files_by_path removed_file_paths self =
     self\<lparr>ix_blocks := map (\<lambda>(block_hash, block). (block_hash,
            block\<lparr>tb_sequence_state_file := drop_removed_file removed_file_paths (tb_sequence_state_file block),
                  tb_boundary_state_file := drop_removed_file removed_file_paths (tb_boundary_state_file block)\<rparr>))
            (ix_blocks self),
          ix_visual_embeddings := retain_files_not_removed removed_file_paths (ix_visual_embeddings self)\<rparr>"

definition remove_blocks_by_directory_paths :: "path list \<Rightarrow> DiskStoreIndex \<Rightarrow> DiskStoreIndex" where
  "remove_blocks_by_directory_paths removed_directory_paths self =
     self\<lparr>ix_blocks := filter (\<lambda>(_, block). tb_block_directory_path block \<notin> set removed_directory_paths) (ix_blocks self)\<rparr>"

section \<open>Names\<close>

text \<open>\<^verbatim>\<open>hex_encode\<close> of \<^verbatim>\<open>disk_store_file.rs\<close>: the name of a block directory.\<close>

definition hex_digit :: "nat \<Rightarrow> char" where
  "hex_digit n = ''0123456789abcdef'' ! n"

definition hex_encode :: "digest \<Rightarrow> string" where
  "hex_encode block_hash_bytes =
     concat (map (\<lambda>byte. [hex_digit (unat byte div 16), hex_digit (unat byte mod 16)]) block_hash_bytes)"

section \<open>Lemmas\<close>

lemma hex_digit_inj: "m < 16 \<Longrightarrow> n < 16 \<Longrightarrow> hex_digit m = hex_digit n \<Longrightarrow> m = n"
proof -
  have "inj_on hex_digit {..<16}"
    unfolding hex_digit_def by (intro inj_on_nth) auto
  then show "m < 16 \<Longrightarrow> n < 16 \<Longrightarrow> hex_digit m = hex_digit n \<Longrightarrow> m = n"
    by (meson inj_onD lessThan_iff)
qed

lemma hex_encode_inj: "hex_encode xs = hex_encode ys \<Longrightarrow> xs = ys"
proof (induction xs arbitrary: ys)
  case Nil
  then show ?case by (cases ys) (simp_all add: hex_encode_def)
next
  case (Cons x xs)
  then obtain y ys' where ys: "ys = y # ys'" by (cases ys) (simp_all add: hex_encode_def)
  have byte: "unat b div 16 < 16" "unat b mod 16 < 16" for b :: byte
    using unsigned_less [of b, where ?'a = nat] by auto
  have "hex_digit (unat x div 16) = hex_digit (unat y div 16)" "hex_digit (unat x mod 16) = hex_digit (unat y mod 16)"
    "hex_encode xs = hex_encode ys'"
    using Cons.prems by (simp_all add: hex_encode_def ys)
  then have "unat x div 16 = unat y div 16" "unat x mod 16 = unat y mod 16" "xs = ys'"
    using byte hex_digit_inj Cons.IH by blast+
  then show ?case unfolding ys by (metis div_mult_mod_eq word_unat_eq_iff)
qed

text \<open>The walk protects a block of the chain and, with it, the blocks it descends from.\<close>

inductive_set ancestry :: "DiskStoreIndex \<Rightarrow> digest \<Rightarrow> digest set" for index tip where
  tip: "index_block index tip = Some block \<Longrightarrow> tip \<in> ancestry index tip"
| parent: "\<lbrakk>h \<in> ancestry index tip; index_block index h = Some block; tb_parent_block_hash block = Some p;
     index_block index p = Some parent\<rbrakk> \<Longrightarrow> p \<in> ancestry index tip"

lemma map_of_map_entry: "map_of (AList.map_entry k f al) h = (if h = k then map_option f (map_of al k) else map_of al h)"
  by (induction al) auto

lemma index_block_simps [simp]:
  "index_block (insert_block h b index) k = (if k = h then Some b else index_block index k)"
  "index_block (remove_block h index) k = (if k = h then None else index_block index k)"
  by (simp_all add: index_block_def insert_block_def remove_block_def update_conv' delete_conv' fun_upd_apply)


lemma protected_walk_closed:
  "\<exists>S. set (protected_walk blocks visited next_hash) = {tb_block_directory_path b | h b. h \<in> S \<and> map_of blocks h = Some b}
     \<and> (\<forall>t b. next_hash = Some t \<longrightarrow> map_of blocks t = Some b \<longrightarrow> t \<in> S \<union> set visited)
     \<and> (\<forall>h \<in> S. \<forall>b p c. map_of blocks h = Some b \<longrightarrow> tb_parent_block_hash b = Some p \<longrightarrow> map_of blocks p = Some c
          \<longrightarrow> p \<in> S \<union> set visited)"
proof (induction blocks visited next_hash rule: protected_walk.induct)
  case (1 blocks visited)
  then show ?case by (intro exI [of _ "{}"]) simp
next
  case (2 blocks visited t)
  show ?case
  proof (cases "t \<in> set visited \<or> map_of blocks t = None")
    case True
    then show ?thesis by (intro exI [of _ "{}"]) auto
  next
    case False
    then obtain b where b: "t \<notin> set visited" "map_of blocks t = Some b" by auto
    obtain S where S: "set (protected_walk blocks (t # visited) (tb_parent_block_hash b))
          = {tb_block_directory_path b | h b. h \<in> S \<and> map_of blocks h = Some b}"
      "\<forall>p c. tb_parent_block_hash b = Some p \<longrightarrow> map_of blocks p = Some c \<longrightarrow> p \<in> S \<union> set (t # visited)"
      "\<forall>h \<in> S. \<forall>b p c. map_of blocks h = Some b \<longrightarrow> tb_parent_block_hash b = Some p \<longrightarrow> map_of blocks p = Some c
          \<longrightarrow> p \<in> S \<union> set (t # visited)"
      using 2 [OF b] by blast
    have "set (protected_walk blocks visited (Some t))
        = {tb_block_directory_path b | h b. h \<in> insert t S \<and> map_of blocks h = Some b}"
      using b S(1) by auto
    then show ?thesis using S(2,3) b(2) by (intro exI [of _ "insert t S"]) auto
  qed
qed

lemma protected_ancestry_complete:
  assumes "h \<in> ancestry index tip" "index_block index h = Some b"
  shows "tb_block_directory_path b \<in> set (protected_ancestry_directory_paths index tip)"
proof -
  obtain S where S: "set (protected_walk (ix_blocks index) [] (Some tip))
      = {tb_block_directory_path b | h b. h \<in> S \<and> map_of (ix_blocks index) h = Some b}"
    and root: "\<forall>t b. Some tip = Some t \<longrightarrow> map_of (ix_blocks index) t = Some b \<longrightarrow> t \<in> S \<union> set []"
    and closed: "\<forall>h \<in> S. \<forall>b p c. map_of (ix_blocks index) h = Some b \<longrightarrow> tb_parent_block_hash b = Some p
        \<longrightarrow> map_of (ix_blocks index) p = Some c \<longrightarrow> p \<in> S \<union> set []"
    using protected_walk_closed [of "ix_blocks index" "[]" "Some tip"] by (elim exE conjE) (rule that)
  from assms(1) have "h \<in> S"
  proof induction
    case (tip block)
    then show ?case using root by (simp add: index_block_def)
  next
    case (parent h block p c)
    then show ?case using closed by (simp add: index_block_def)
  qed
  then show ?thesis using S assms(2) unfolding protected_ancestry_directory_paths_def index_block_def by blast
qed

end
