(* ===== verification/Cache_Quota.thy ===== *)
theory Cache_Quota
  imports Cache_Index "HOL-Library.Product_Lexorder"
begin

text \<open>
  The byte ceiling over every model's prompt cache: \<^verbatim>\<open>disk_store_global_quota_candidate.rs\<close>, the pure part
  of \<^verbatim>\<open>disk_store_global_quota_scan.rs\<close> (everything after the directory walk), the enforcement loop of
  \<^verbatim>\<open>disk_store_global_quota.rs\<close> and the counters of \<^verbatim>\<open>startup_cleanup_evidence.rs\<close>. The disk is what the
  walk reads from it: files, abandoned transactions, and block directories with their manifest's ancestry. A
  removal of the file system may fail, which is an argument of the model.
\<close>

section \<open>Eviction units\<close>

datatype StandaloneFileClassification = AbandonedTransaction | ObsoleteFormatFile | CommittedArtifact

datatype CleanupClassification = InterruptedTransactionRecovery | ObsoleteFormat | QuotaEviction

record GlobalPromptCacheFile =
  gf_file_path :: path
  gf_file_size_bytes :: u64
  gf_modified_at :: nat
  gf_is_visual_embedding :: bool
  gf_cleanup_classification :: StandaloneFileClassification

record GlobalPromptCacheStaleDirectory =
  gd_directory_path :: path
  gd_file_size_bytes :: u64
  gd_modified_at :: nat
  gd_tracked_file_paths :: "path list"

record GlobalPromptCacheBlockSubtree =
  gb_root_block_directory_path :: path
  gb_file_size_bytes :: u64
  gb_modified_at :: nat
  gb_block_directory_paths :: "path list"
  gb_tracked_file_paths :: "path list"

datatype EvictionCandidate =
  StandaloneFile GlobalPromptCacheFile
| StaleDirectory GlobalPromptCacheStaleDirectory
| BlockSubtree GlobalPromptCacheBlockSubtree

fun candidate_modified_at :: "EvictionCandidate \<Rightarrow> nat" where
  "candidate_modified_at (StandaloneFile f) = gf_modified_at f"
| "candidate_modified_at (StaleDirectory d) = gd_modified_at d"
| "candidate_modified_at (BlockSubtree b) = gb_modified_at b"

fun tie_breaker_path :: "EvictionCandidate \<Rightarrow> path" where
  "tie_breaker_path (StandaloneFile f) = gf_file_path f"
| "tie_breaker_path (StaleDirectory d) = gd_directory_path d"
| "tie_breaker_path (BlockSubtree b) = gb_root_block_directory_path b"

fun unconditional_cleanup_classification :: "EvictionCandidate \<Rightarrow> CleanupClassification option" where
  "unconditional_cleanup_classification (StandaloneFile f) =
     (case gf_cleanup_classification f of
        AbandonedTransaction \<Rightarrow> Some InterruptedTransactionRecovery
      | ObsoleteFormatFile \<Rightarrow> Some ObsoleteFormat
      | CommittedArtifact \<Rightarrow> None)"
| "unconditional_cleanup_classification (StaleDirectory d) = Some InterruptedTransactionRecovery"
| "unconditional_cleanup_classification (BlockSubtree b) = None"

definition is_unconditionally_removable :: "EvictionCandidate \<Rightarrow> bool" where
  "is_unconditionally_removable self \<longleftrightarrow> unconditional_cleanup_classification self \<noteq> None"

fun removed_artifact_count :: "EvictionCandidate \<Rightarrow> nat" where
  "removed_artifact_count (StandaloneFile f) = 1"
| "removed_artifact_count _ = 0"

fun removed_block_count :: "EvictionCandidate \<Rightarrow> nat" where
  "removed_block_count (StandaloneFile f) = 0"
| "removed_block_count (StaleDirectory d) = 1"
| "removed_block_count (BlockSubtree b) = length (gb_block_directory_paths b)"

fun candidate_file_size_bytes :: "EvictionCandidate \<Rightarrow> u64" where
  "candidate_file_size_bytes (StandaloneFile f) = gf_file_size_bytes f"
| "candidate_file_size_bytes (StaleDirectory d) = gd_file_size_bytes d"
| "candidate_file_size_bytes (BlockSubtree b) = gb_file_size_bytes b"

fun visual_embedding_size_bytes :: "EvictionCandidate \<Rightarrow> u64" where
  "visual_embedding_size_bytes (StandaloneFile f) = (if gf_is_visual_embedding f then gf_file_size_bytes f else 0)"
| "visual_embedding_size_bytes _ = 0"

fun tracked_file_paths :: "EvictionCandidate \<Rightarrow> path list" where
  "tracked_file_paths (StandaloneFile f) = [gf_file_path f]"
| "tracked_file_paths (StaleDirectory d) = gd_tracked_file_paths d"
| "tracked_file_paths (BlockSubtree b) = gb_tracked_file_paths b"

fun block_directory_paths :: "EvictionCandidate \<Rightarrow> path list" where
  "block_directory_paths (BlockSubtree b) = gb_block_directory_paths b"
| "block_directory_paths _ = []"

definition contains_protected_block_directory :: "EvictionCandidate \<Rightarrow> path list \<Rightarrow> bool" where
  "contains_protected_block_directory self protected_paths =
     list_ex (\<lambda>block_path. block_path \<in> set protected_paths) (block_directory_paths self)"

section \<open>The scan\<close>

record BlockIdentity =
  bi_blocks_directory_path :: path
  bi_storage_contract_fingerprint :: string
  bi_block_hash :: digest

record BlockDirectory =
  bd_identity :: BlockIdentity
  bd_parent_block_hash :: "digest option"
  bd_block_directory_path :: path
  bd_file_size_bytes :: u64
  bd_modified_at :: nat
  bd_tracked_file_paths :: "path list"

record cache_disk =
  dk_standalone_files :: "GlobalPromptCacheFile list"
  dk_stale_directories :: "GlobalPromptCacheStaleDirectory list"
  dk_block_directories :: "BlockDirectory list"

record QuotaScan =
  sc_eviction_candidates :: "EvictionCandidate list"
  sc_total_size_bytes :: u64
  sc_visual_embedding_total_size_bytes :: u64

definition checked_add_global_size :: "path \<Rightarrow> u64 \<Rightarrow> u64 \<Rightarrow> DiskStoreError + u64" where
  "checked_add_global_size root accumulated additional =
     ok_or (checked_add accumulated additional) (GlobalPromptCacheSizeOverflow root)"

text \<open>The stack of the depth-first search holds its top first; the children of a block are pushed in order.\<close>

function collect_subtree_block_identities ::
    "(BlockIdentity \<times> BlockIdentity list) list \<Rightarrow> BlockIdentity list \<Rightarrow> BlockIdentity list \<Rightarrow> BlockIdentity list" where
  "collect_subtree_block_identities children [] visited = []"
| "collect_subtree_block_identities children (block_identity # pending) visited =
     (if block_identity \<in> set visited then collect_subtree_block_identities children pending visited
      else block_identity
        # (case map_of children block_identity of
             None \<Rightarrow> collect_subtree_block_identities children pending (block_identity # visited)
           | Some child_identities \<Rightarrow>
               collect_subtree_block_identities children (rev child_identities @ pending) (block_identity # visited)))"
  by pat_completeness auto

termination
proof (relation "measures [\<lambda>(children, pending, visited). card (set (map fst children) - set visited),
    \<lambda>(children, pending, visited). length pending]", goal_cases)
  case (3 children block_identity pending visited)
  then have "set (map fst children) - set (block_identity # visited) = set (map fst children) - set visited"
    by (auto simp: map_of_eq_None_iff)
  then show ?case by simp
next
  case (4 children block_identity pending visited child_identities)
  have "block_identity \<in> set (map fst children) - set visited" using map_of_SomeD [OF 4(2)] 4(1) by force
  then have "set (map fst children) - set (block_identity # visited) \<subset> set (map fst children) - set visited" by auto
  then show ?case by (simp add: psubset_card_mono del: set_map)
qed simp_all

definition block_directory_by_identity :: "BlockDirectory list \<Rightarrow> (BlockIdentity \<times> BlockDirectory) list" where
  "block_directory_by_identity block_directories =
     fold (\<lambda>block_directory. AList.update (bd_identity block_directory) block_directory) block_directories []"

definition parent_identity_of :: "BlockDirectory \<Rightarrow> BlockIdentity option" where
  "parent_identity_of block_directory =
     map_option (\<lambda>parent_block_hash. (bd_identity block_directory)\<lparr>bi_block_hash := parent_block_hash\<rparr>)
       (bd_parent_block_hash block_directory)"

definition children_by_parent_identity :: "BlockDirectory list \<Rightarrow> (BlockIdentity \<times> BlockIdentity list) list" where
  "children_by_parent_identity block_directories =
     fold (\<lambda>block_directory children.
         case parent_identity_of block_directory of
           None \<Rightarrow> children
         | Some parent_identity \<Rightarrow>
             AList.update parent_identity
               ((case map_of children parent_identity of None \<Rightarrow> [] | Some siblings \<Rightarrow> siblings) @ [bd_identity block_directory])
               children)
       block_directories []"

text \<open>The totals of one subtree: its size, its directories and its files, in the order of the search.\<close>

definition subtree_step ::
    "(BlockIdentity \<times> BlockDirectory) list \<Rightarrow> u64 \<times> path list \<times> path list \<Rightarrow> BlockIdentity
     \<Rightarrow> DiskStoreError + (u64 \<times> path list \<times> path list)" where
  "subtree_step by_identity subtree block_identity =
     (case subtree of (file_size_bytes, directory_paths, file_paths) \<Rightarrow>
        (case map_of by_identity block_identity of
           None \<Rightarrow> Inr (file_size_bytes, directory_paths, file_paths)
         | Some block_directory \<Rightarrow>
             result_bind (ok_or (checked_add file_size_bytes (bd_file_size_bytes block_directory))
                 (GlobalPromptCacheSizeOverflow (bi_blocks_directory_path (bd_identity block_directory))))
               (\<lambda>file_size_bytes'. Inr (file_size_bytes', directory_paths @ [bd_block_directory_path block_directory],
                  file_paths @ bd_tracked_file_paths block_directory))))"

definition subtree_candidate ::
    "(BlockIdentity \<times> BlockDirectory) list \<Rightarrow> (BlockIdentity \<times> BlockIdentity list) list \<Rightarrow> BlockIdentity \<times> BlockDirectory
     \<Rightarrow> DiskStoreError + EvictionCandidate" where
  "subtree_candidate by_identity children root =
     (case root of (block_identity, root_block_directory) \<Rightarrow>
        result_bind (try_fold (subtree_step by_identity) (0, [], [])
            (collect_subtree_block_identities children [block_identity] []))
          (\<lambda>(file_size_bytes, directory_paths, file_paths).
             Inr (BlockSubtree \<lparr>gb_root_block_directory_path = bd_block_directory_path root_block_directory,
                gb_file_size_bytes = file_size_bytes, gb_modified_at = bd_modified_at root_block_directory,
                gb_block_directory_paths = directory_paths, gb_tracked_file_paths = file_paths\<rparr>)))"

definition build_block_subtree_candidates :: "BlockDirectory list \<Rightarrow> DiskStoreError + EvictionCandidate list" where
  "build_block_subtree_candidates block_directories =
     (let by_identity = block_directory_by_identity block_directories;
          children = children_by_parent_identity (map snd by_identity)
      in try_fold (\<lambda>candidates root. result_bind (subtree_candidate by_identity children root)
             (\<lambda>candidate. Inr (candidates @ [candidate]))) [] by_identity)"

definition eviction_order :: "EvictionCandidate \<Rightarrow> EvictionCandidate \<Rightarrow> ordering" where
  "eviction_order left right =
     then_with (cmp_of (\<not> is_unconditionally_removable left) (\<not> is_unconditionally_removable right))
       (then_with (cmp_of (candidate_modified_at left) (candidate_modified_at right))
          (cmp_of (tie_breaker_path left) (tie_breaker_path right)))"

definition not_excluded :: "path option \<Rightarrow> path \<Rightarrow> bool" where
  "not_excluded excluded_directory entry_path \<longleftrightarrow> excluded_directory \<noteq> Some entry_path"

text \<open>What the walk returns: every entry but the excluded directory.\<close>

definition walked :: "path option \<Rightarrow> cache_disk \<Rightarrow> cache_disk" where
  "walked excluded_directory disk =
     disk\<lparr>dk_standalone_files := filter (not_excluded excluded_directory \<circ> gf_file_path) (dk_standalone_files disk),
          dk_stale_directories := filter (not_excluded excluded_directory \<circ> gd_directory_path) (dk_stale_directories disk),
          dk_block_directories := filter (not_excluded excluded_directory \<circ> bd_block_directory_path) (dk_block_directories disk)\<rparr>"

definition add_standalone_file :: "path \<Rightarrow> u64 \<times> u64 \<Rightarrow> GlobalPromptCacheFile \<Rightarrow> DiskStoreError + (u64 \<times> u64)" where
  "add_standalone_file root sums standalone_file =
     result_bind (checked_add_global_size root (fst sums) (gf_file_size_bytes standalone_file))
       (\<lambda>file_total. result_bind (if gf_is_visual_embedding standalone_file
            then checked_add_global_size root (snd sums) (gf_file_size_bytes standalone_file) else Inr (snd sums))
         (\<lambda>visual_total. Inr (file_total, visual_total)))"

definition scan_global_prompt_cache_quota :: "path \<Rightarrow> path option \<Rightarrow> cache_disk \<Rightarrow> DiskStoreError + QuotaScan" where
  "scan_global_prompt_cache_quota root excluded_directory disk =
     (let found = walked excluded_directory disk
      in result_bind (try_fold (add_standalone_file root) (0, 0) (dk_standalone_files found))
         (\<lambda>(file_total, visual).
            result_bind (try_fold (\<lambda>total stale. checked_add_global_size root total (gd_file_size_bytes stale))
                file_total (dk_stale_directories found))
              (\<lambda>stale_total.
                 result_bind (try_fold (\<lambda>total block. checked_add_global_size root total (bd_file_size_bytes block))
                     stale_total (dk_block_directories found))
                   (\<lambda>total. result_bind (build_block_subtree_candidates (dk_block_directories found))
                      (\<lambda>subtrees. Inr \<lparr>sc_eviction_candidates = sort_by eviction_order
                           (map StandaloneFile (dk_standalone_files found)
                            @ map StaleDirectory (dk_stale_directories found) @ subtrees),
                         sc_total_size_bytes = total, sc_visual_embedding_total_size_bytes = visual\<rparr>)))))"


section \<open>Cleanup evidence\<close>

record CleanupCategory =
  cc_artifact_count :: u64
  cc_block_count :: u64
  cc_byte_count :: u64

record CleanupEvidence =
  ce_interrupted_transaction_recovery :: CleanupCategory
  ce_obsolete_format :: CleanupCategory
  ce_corrupt_current_format :: CleanupCategory
  ce_quota_eviction :: CleanupCategory

definition category_default :: CleanupCategory where
  "category_default = \<lparr>cc_artifact_count = 0, cc_block_count = 0, cc_byte_count = 0\<rparr>"

definition evidence_default :: CleanupEvidence where
  "evidence_default = \<lparr>ce_interrupted_transaction_recovery = category_default, ce_obsolete_format = category_default,
     ce_corrupt_current_format = category_default, ce_quota_eviction = category_default\<rparr>"

definition record_artifact :: "u64 \<Rightarrow> CleanupCategory \<Rightarrow> CleanupCategory" where
  "record_artifact removed_byte_count self =
     self\<lparr>cc_artifact_count := saturating_add (cc_artifact_count self) 1,
          cc_byte_count := saturating_add (cc_byte_count self) removed_byte_count\<rparr>"

definition record_blocks :: "nat \<Rightarrow> u64 \<Rightarrow> CleanupCategory \<Rightarrow> CleanupCategory" where
  "record_blocks removed_blocks removed_byte_count self =
     self\<lparr>cc_block_count := saturating_add (cc_block_count self) (of_nat removed_blocks),
          cc_byte_count := saturating_add (cc_byte_count self) removed_byte_count\<rparr>"

definition category_is_empty :: "CleanupCategory \<Rightarrow> bool" where
  "category_is_empty self \<longleftrightarrow> cc_artifact_count self = 0 \<and> cc_block_count self = 0 \<and> cc_byte_count self = 0"

definition category_merge :: "CleanupCategory \<Rightarrow> CleanupCategory \<Rightarrow> CleanupCategory" where
  "category_merge self additional =
     \<lparr>cc_artifact_count = saturating_add (cc_artifact_count self) (cc_artifact_count additional),
      cc_block_count = saturating_add (cc_block_count self) (cc_block_count additional),
      cc_byte_count = saturating_add (cc_byte_count self) (cc_byte_count additional)\<rparr>"

definition evidence_merge :: "CleanupEvidence \<Rightarrow> CleanupEvidence \<Rightarrow> CleanupEvidence" where
  "evidence_merge self additional =
     \<lparr>ce_interrupted_transaction_recovery =
        category_merge (ce_interrupted_transaction_recovery self) (ce_interrupted_transaction_recovery additional),
      ce_obsolete_format = category_merge (ce_obsolete_format self) (ce_obsolete_format additional),
      ce_corrupt_current_format = category_merge (ce_corrupt_current_format self) (ce_corrupt_current_format additional),
      ce_quota_eviction = category_merge (ce_quota_eviction self) (ce_quota_eviction additional)\<rparr>"

definition evidence_is_empty :: "CleanupEvidence \<Rightarrow> bool" where
  "evidence_is_empty self \<longleftrightarrow>
     category_is_empty (ce_interrupted_transaction_recovery self) \<and> category_is_empty (ce_obsolete_format self)
     \<and> category_is_empty (ce_corrupt_current_format self) \<and> category_is_empty (ce_quota_eviction self)"

definition record_removed_startup_candidate ::
    "CleanupClassification \<Rightarrow> EvictionCandidate \<Rightarrow> CleanupEvidence \<Rightarrow> CleanupEvidence" where
  "record_removed_startup_candidate classification removed_candidate evidence =
     (let count = (\<lambda>category.
            let artifacts = ((record_artifact 0) ^^ removed_artifact_count removed_candidate) category;
                blocks = record_blocks (removed_block_count removed_candidate) 0 artifacts
            in blocks\<lparr>cc_byte_count :=
                 saturating_add (cc_byte_count blocks) (candidate_file_size_bytes removed_candidate)\<rparr>)
      in case classification of
           InterruptedTransactionRecovery \<Rightarrow>
             evidence\<lparr>ce_interrupted_transaction_recovery := count (ce_interrupted_transaction_recovery evidence)\<rparr>
         | ObsoleteFormat \<Rightarrow> evidence\<lparr>ce_obsolete_format := count (ce_obsolete_format evidence)\<rparr>
         | QuotaEviction \<Rightarrow> evidence\<lparr>ce_quota_eviction := count (ce_quota_eviction evidence)\<rparr>)"

section \<open>Enforcement\<close>

record quota_policy =
  qp_root :: path
  qp_maximum_size_bytes :: u64
  qp_additional_committed_size_bytes :: u64
  qp_post_commit_reclaimable_size_bytes :: u64
  qp_protected_block_directory_paths :: "path list"
  qp_should_record_startup_cleanup :: bool

record quota_state =
  qs_disk :: cache_disk
  qs_index :: DiskStoreIndex
  qs_total_size_bytes :: u64
  qs_visual_embedding_total_size_bytes :: u64
  qs_removed_eviction_paths :: "path list"
  qs_evidence :: CleanupEvidence

definition eviction_candidate_was_already_removed :: "EvictionCandidate \<Rightarrow> path list \<Rightarrow> bool" where
  "eviction_candidate_was_already_removed candidate removed_eviction_paths \<longleftrightarrow>
     tie_breaker_path candidate \<in> set removed_eviction_paths
     \<or> list_ex (\<lambda>block_path. block_path \<in> set removed_eviction_paths) (block_directory_paths candidate)"

text \<open>The removals of the file system: a path that is absent counts as removed.\<close>

definition disk_without_file :: "path \<Rightarrow> cache_disk \<Rightarrow> cache_disk" where
  "disk_without_file file_path disk =
     disk\<lparr>dk_standalone_files := filter (\<lambda>f. gf_file_path f \<noteq> file_path) (dk_standalone_files disk)\<rparr>"

definition disk_without_directory :: "path \<Rightarrow> cache_disk \<Rightarrow> cache_disk" where
  "disk_without_directory directory_path disk =
     disk\<lparr>dk_stale_directories := filter (\<lambda>d. gd_directory_path d \<noteq> directory_path) (dk_stale_directories disk),
          dk_block_directories := filter (\<lambda>b. bd_block_directory_path b \<noteq> directory_path) (dk_block_directories disk)\<rparr>"

fun remove_directories :: "(path \<Rightarrow> bool) \<Rightarrow> path list \<Rightarrow> cache_disk \<Rightarrow> cache_disk \<times> DiskStoreError option" where
  "remove_directories removal_fails [] disk = (disk, None)"
| "remove_directories removal_fails (directory_path # paths) disk =
     (if removal_fails directory_path then (disk, Some (FileSystemFailure directory_path))
      else remove_directories removal_fails paths (disk_without_directory directory_path disk))"

fun remove_eviction_candidate ::
    "(path \<Rightarrow> bool) \<Rightarrow> EvictionCandidate \<Rightarrow> cache_disk \<Rightarrow> cache_disk \<times> DiskStoreError option" where
  "remove_eviction_candidate removal_fails (StandaloneFile f) disk =
     (if removal_fails (gf_file_path f) then (disk, Some (FileSystemFailure (gf_file_path f)))
      else (disk_without_file (gf_file_path f) disk, None))"
| "remove_eviction_candidate removal_fails (StaleDirectory d) disk =
     remove_directories removal_fails [gd_directory_path d] disk"
| "remove_eviction_candidate removal_fails (BlockSubtree b) disk =
     remove_directories removal_fails (gb_block_directory_paths b) disk"

definition committed_size_after_addition :: "u64 \<Rightarrow> u64 \<Rightarrow> u64 \<Rightarrow> path \<Rightarrow> DiskStoreError + u64" where
  "committed_size_after_addition current additional reclaimable root =
     ok_or (map_option (\<lambda>size_before. saturating_sub size_before reclaimable) (checked_add current additional))
       (GlobalPromptCacheSizeOverflow root)"

definition committed_size :: "quota_policy \<Rightarrow> quota_state \<Rightarrow> DiskStoreError + u64" where
  "committed_size policy state =
     committed_size_after_addition (qs_total_size_bytes state) (qp_additional_committed_size_bytes policy)
       (qp_post_commit_reclaimable_size_bytes policy) (qp_root policy)"

text \<open>The bookkeeping after one candidate is gone from the disk.\<close>

definition account_removed_candidate :: "quota_policy \<Rightarrow> EvictionCandidate \<Rightarrow> quota_state \<Rightarrow> quota_state" where
  "account_removed_candidate policy candidate state =
     (let index' = remove_blocks_by_directory_paths (block_directory_paths candidate)
            (remove_files_by_path (tracked_file_paths candidate) (qs_index state))
      in state\<lparr>qs_index := index',
           qs_total_size_bytes := saturating_sub (qs_total_size_bytes state) (candidate_file_size_bytes candidate),
           qs_visual_embedding_total_size_bytes :=
             saturating_sub (qs_visual_embedding_total_size_bytes state) (visual_embedding_size_bytes candidate),
           qs_removed_eviction_paths :=
             block_directory_paths candidate @ tie_breaker_path candidate # qs_removed_eviction_paths state,
           qs_evidence :=
             (if qp_should_record_startup_cleanup policy
              then record_removed_startup_candidate
                (case unconditional_cleanup_classification candidate of None \<Rightarrow> QuotaEviction | Some c \<Rightarrow> c)
                candidate (qs_evidence state)
              else qs_evidence state)\<rparr>)"

text \<open>Whether the loop passes over a candidate.\<close>

definition candidate_is_kept :: "quota_policy \<Rightarrow> quota_state \<Rightarrow> EvictionCandidate \<Rightarrow> DiskStoreError + bool" where
  "candidate_is_kept policy state candidate =
     (if eviction_candidate_was_already_removed candidate (qs_removed_eviction_paths state) then Inr True
      else if is_unconditionally_removable candidate then Inr False
      else if contains_protected_block_directory candidate (qp_protected_block_directory_paths policy) then Inr True
      else result_bind (committed_size policy state) (\<lambda>size_bytes. Inr (size_bytes \<le> qp_maximum_size_bytes policy)))"

fun evict_candidates ::
    "(path \<Rightarrow> bool) \<Rightarrow> quota_policy \<Rightarrow> EvictionCandidate list \<Rightarrow> quota_state \<Rightarrow> quota_state \<times> DiskStoreError option" where
  "evict_candidates removal_fails policy [] state = (state, None)"
| "evict_candidates removal_fails policy (candidate # candidates) state =
     (case candidate_is_kept policy state candidate of
        Inl e \<Rightarrow> (state, Some e)
      | Inr True \<Rightarrow> evict_candidates removal_fails policy candidates state
      | Inr False \<Rightarrow>
          (case remove_eviction_candidate removal_fails candidate (qs_disk state) of
             (disk', Some e) \<Rightarrow> (state\<lparr>qs_disk := disk'\<rparr>, Some e)
           | (disk', None) \<Rightarrow>
               evict_candidates removal_fails policy candidates
                 (account_removed_candidate policy candidate (state\<lparr>qs_disk := disk'\<rparr>))))"

text \<open>
  \<^verbatim>\<open>enforce_global_prompt_cache_quota_for_commit_internal\<close>: the state it leaves behind, and the error it
  returns. Its two totals are written to the store's counters as they change; without a scan they stay.
\<close>

definition enforce_global_prompt_cache_quota_for_commit ::
    "(path \<Rightarrow> bool) \<Rightarrow> quota_policy \<Rightarrow> path option \<Rightarrow> quota_state \<Rightarrow> quota_state \<times> DiskStoreError option" where
  "enforce_global_prompt_cache_quota_for_commit removal_fails policy excluded_directory state =
     (case scan_global_prompt_cache_quota (qp_root policy) excluded_directory (qs_disk state) of
        Inl e \<Rightarrow> (state, Some e)
      | Inr scan \<Rightarrow>
          (case evict_candidates removal_fails policy (sc_eviction_candidates scan)
                  (state\<lparr>qs_total_size_bytes := sc_total_size_bytes scan,
                         qs_visual_embedding_total_size_bytes := sc_visual_embedding_total_size_bytes scan,
                         qs_removed_eviction_paths := [], qs_evidence := evidence_default\<rparr>) of
             (state', Some e) \<Rightarrow> (state', Some e)
           | (state', None) \<Rightarrow>
               (case committed_size policy state' of
                  Inl e \<Rightarrow> (state', Some e)
                | Inr size_bytes \<Rightarrow>
                    (state', if qp_maximum_size_bytes policy < size_bytes
                             then Some (GlobalPromptCacheQuotaNotSatisfied (qp_maximum_size_bytes policy) size_bytes)
                             else None))))"

section \<open>Lemmas\<close>

text \<open>The search finds exactly the descendants, cycles included.\<close>

definition child_edges :: "(BlockIdentity \<times> BlockIdentity list) list \<Rightarrow> (BlockIdentity \<times> BlockIdentity) set" where
  "child_edges children = {(p, c). \<exists>cs. map_of children p = Some cs \<and> c \<in> set cs}"

lemma collect_subtree_sound:
  "set (collect_subtree_block_identities children pending visited) \<subseteq> (child_edges children)\<^sup>* `` set pending - set visited
   \<and> distinct (collect_subtree_block_identities children pending visited)"
proof (induction children pending visited rule: collect_subtree_block_identities.induct)
  case (2 children b pending visited)
  show ?case
  proof (cases "b \<in> set visited")
    case True
    then show ?thesis using 2(1) by auto
  next
    case new: False
    show ?thesis
    proof (cases "map_of children b")
      case None
      then show ?thesis using 2(2) [OF new None] new by auto
    next
      case (Some cs)
      have "(b, c) \<in> child_edges children" if "c \<in> set cs" for c using Some that by (auto simp: child_edges_def)
      then have "(child_edges children)\<^sup>* `` set (rev cs @ pending) \<subseteq> (child_edges children)\<^sup>* `` set (b # pending)"
        by (auto intro: converse_rtrancl_into_rtrancl)
      moreover have "b \<in> (child_edges children)\<^sup>* `` set (b # pending)" by auto
      ultimately show ?thesis using 2(3) [OF new Some] new Some by auto
    qed
  qed
qed simp

lemma collect_subtree_complete:
  "set pending \<subseteq> set visited \<union> set (collect_subtree_block_identities children pending visited)
   \<and> (\<forall>p \<in> set (collect_subtree_block_identities children pending visited). \<forall>c. (p, c) \<in> child_edges children
        \<longrightarrow> c \<in> set visited \<union> set (collect_subtree_block_identities children pending visited))"
proof (induction children pending visited rule: collect_subtree_block_identities.induct)
  case (2 children b pending visited)
  show ?case
  proof (cases "b \<in> set visited")
    case True
    then show ?thesis using 2(1) by auto
  next
    case new: False
    show ?thesis
    proof (cases "map_of children b")
      case None
      then show ?thesis using 2(2) [OF new None] new by (auto simp: child_edges_def)
    next
      case (Some cs)
      let ?rest = "collect_subtree_block_identities children (rev cs @ pending) (b # visited)"
      have eq: "set (collect_subtree_block_identities children (b # pending) visited) = insert b (set ?rest)"
        using new Some by simp
      have IH: "set (rev cs @ pending) \<subseteq> set (b # visited) \<union> set ?rest"
        "\<forall>p \<in> set ?rest. \<forall>c. (p, c) \<in> child_edges children \<longrightarrow> c \<in> set (b # visited) \<union> set ?rest"
        using 2(3) [OF new Some] by blast+
      have "c \<in> set cs" if "(b, c) \<in> child_edges children" for c using that Some by (auto simp: child_edges_def)
      then show ?thesis unfolding eq using IH by auto
    qed
  qed
qed simp

lemma collect_subtree_descendants:
  "set (collect_subtree_block_identities children [root] []) = (child_edges children)\<^sup>* `` {root}"
proof
  show "set (collect_subtree_block_identities children [root] []) \<subseteq> (child_edges children)\<^sup>* `` {root}"
    using collect_subtree_sound [of children "[root]" "[]"] by auto
  have "root \<in> set (collect_subtree_block_identities children [root] [])"
    and closed: "\<And>p c. p \<in> set (collect_subtree_block_identities children [root] []) \<Longrightarrow> (p, c) \<in> child_edges children
      \<Longrightarrow> c \<in> set (collect_subtree_block_identities children [root] [])"
    using collect_subtree_complete [of "[root]" "[]" children] by auto
  moreover have "x \<in> set (collect_subtree_block_identities children [root] [])" if "(root, x) \<in> (child_edges children)\<^sup>*" for x
    using that by induction (use \<open>root \<in> _\<close> closed in auto)
  ultimately show "(child_edges children)\<^sup>* `` {root} \<subseteq> set (collect_subtree_block_identities children [root] [])" by auto
qed


text \<open>A disk as the walk can find it: every entry has its own path, a block directory is named after its digest,
  and the files of a directory lie directly in it.\<close>

definition entry_paths :: "cache_disk \<Rightarrow> path list" where
  "entry_paths disk = map gf_file_path (dk_standalone_files disk) @ map gd_directory_path (dk_stale_directories disk)
     @ map bd_block_directory_path (dk_block_directories disk)"

definition disk_wf :: "cache_disk \<Rightarrow> bool" where
  "disk_wf disk \<longleftrightarrow>
     distinct (entry_paths disk)
     \<and> (\<forall>b \<in> set (dk_block_directories disk).
          bd_block_directory_path b = bi_blocks_directory_path (bd_identity b) @ [hex_encode (bi_block_hash (bd_identity b))]
          \<and> (\<forall>file \<in> set (bd_tracked_file_paths b). butlast file = bd_block_directory_path b))
     \<and> (\<forall>d \<in> set (dk_stale_directories disk). \<forall>file \<in> set (gd_tracked_file_paths d). butlast file = gd_directory_path d)
     \<and> (\<forall>f \<in> set (dk_standalone_files disk). butlast (gf_file_path f) \<notin> bd_block_directory_path ` set (dk_block_directories disk))"

definition disk_bytes :: "cache_disk \<Rightarrow> nat" where
  "disk_bytes disk =
     sum_list (map (unat \<circ> gf_file_size_bytes) (dk_standalone_files disk))
     + sum_list (map (unat \<circ> gd_file_size_bytes) (dk_stale_directories disk))
     + sum_list (map (unat \<circ> bd_file_size_bytes) (dk_block_directories disk))"

text \<open>The parent edges of the committed blocks: inside one blocks directory and one storage contract.\<close>

definition block_edges :: "BlockDirectory list \<Rightarrow> (BlockIdentity \<times> BlockIdentity) set" where
  "block_edges blocks = {(p, c). \<exists>b \<in> set blocks. parent_identity_of b = Some p \<and> bd_identity b = c}"

definition descendants :: "BlockDirectory list \<Rightarrow> BlockDirectory \<Rightarrow> BlockDirectory set" where
  "descendants blocks b = {d \<in> set blocks. (bd_identity b, bd_identity d) \<in> (block_edges blocks)\<^sup>*}"

lemma children_by_parent_fold:
  "map_of (fold (\<lambda>block_directory children.
         case parent_identity_of block_directory of
           None \<Rightarrow> children
         | Some parent_identity \<Rightarrow>
             AList.update parent_identity
               ((case map_of children parent_identity of None \<Rightarrow> [] | Some siblings \<Rightarrow> siblings) @ [bd_identity block_directory])
               children) blocks children) p = Some cs
   \<Longrightarrow> set cs = (case map_of children p of None \<Rightarrow> {} | Some cs0 \<Rightarrow> set cs0)
         \<union> {c. \<exists>b \<in> set blocks. parent_identity_of b = Some p \<and> bd_identity b = c}"
proof (induction blocks arbitrary: children)
  case (Cons b blocks)
  show ?case
  proof (cases "parent_identity_of b")
    case None
    then show ?thesis using Cons.IH [of children] Cons.prems by (simp split: option.splits)
  next
    case (Some q)
    then show ?thesis using Cons.IH Cons.prems
      by (cases "p = q"; cases "map_of children q"; cases "map_of children p") (force simp: update_conv')+
  qed
qed simp

lemma children_by_parent_None:
  "map_of (fold (\<lambda>block_directory children.
         case parent_identity_of block_directory of
           None \<Rightarrow> children
         | Some parent_identity \<Rightarrow>
             AList.update parent_identity
               ((case map_of children parent_identity of None \<Rightarrow> [] | Some siblings \<Rightarrow> siblings) @ [bd_identity block_directory])
               children) blocks children) p = None
   \<Longrightarrow> map_of children p = None \<and> (\<forall>b \<in> set blocks. parent_identity_of b \<noteq> Some p)"
proof (induction blocks arbitrary: children)
  case (Cons b blocks)
  show ?case
  proof (cases "parent_identity_of b")
    case None
    then show ?thesis using Cons.IH [of children] Cons.prems by simp
  next
    case (Some q)
    let ?update = "AList.update q ((case map_of children q of None \<Rightarrow> [] | Some siblings \<Rightarrow> siblings) @ [bd_identity b]) children"
    have "map_of ?update p = None \<and> (\<forall>b \<in> set blocks. parent_identity_of b \<noteq> Some p)"
      using Cons.prems Some by (intro Cons.IH) simp
    then show ?thesis using Some by (cases "p = q") (simp_all add: update_conv')
  qed
qed simp

lemma child_edges_blocks: "child_edges (children_by_parent_identity blocks) = block_edges blocks"
proof -
  have "(p, c) \<in> child_edges (children_by_parent_identity blocks) \<longleftrightarrow> (p, c) \<in> block_edges blocks" for p c
  proof (cases "map_of (children_by_parent_identity blocks) p")
    case None
    then show ?thesis using children_by_parent_None [of blocks "[]" p]
      by (auto simp: child_edges_def block_edges_def children_by_parent_identity_def)
  next
    case (Some cs)
    then show ?thesis using children_by_parent_fold [of blocks "[]" p cs]
      by (auto simp: child_edges_def block_edges_def children_by_parent_identity_def)
  qed
  then show ?thesis by auto
qed


lemma update_fresh: "k \<notin> fst ` set al \<Longrightarrow> AList.update k v al = al @ [(k, v)]"
  by (induction al) auto

lemma block_directory_by_identity_distinct:
  assumes "distinct (map bd_identity blocks)"
  shows "block_directory_by_identity blocks = map (\<lambda>b. (bd_identity b, b)) blocks"
proof -
  have "fold (\<lambda>b. AList.update (bd_identity b) b) blocks acc = acc @ map (\<lambda>b. (bd_identity b, b)) blocks"
    if "distinct (map bd_identity blocks)" "fst ` set acc \<inter> bd_identity ` set blocks = {}" for acc
    using that
  proof (induction blocks arbitrary: acc)
    case (Cons b blocks)
    then show ?case by (simp add: update_fresh)
  qed simp
  from this [OF assms, of "[]"] show ?thesis by (simp add: block_directory_by_identity_def)
qed

lemma subtree_step_fold:
  assumes "\<forall>i \<in> set ids. \<exists>b. map_of by_identity i = Some b" "try_fold (subtree_step by_identity) (sz, ds, fs) ids = Inr (sz', ds', fs')"
  defines "found \<equiv> map (\<lambda>i. the (map_of by_identity i)) ids"
  shows "ds' = ds @ map bd_block_directory_path found \<and> fs' = fs @ concat (map bd_tracked_file_paths found)
    \<and> unat sz' = unat sz + sum_list (map (unat \<circ> bd_file_size_bytes) found)"
  using assms(1,2) unfolding found_def
proof (induction ids arbitrary: sz ds fs)
  case (Cons i ids)
  from Cons.prems(1) obtain b where b: "map_of by_identity i = Some b" by auto
  have step: "subtree_step by_identity (sz, ds, fs) i
      = (case checked_add sz (bd_file_size_bytes b) of
           None \<Rightarrow> Inl (GlobalPromptCacheSizeOverflow (bi_blocks_directory_path (bd_identity b)))
         | Some sz1 \<Rightarrow> Inr (sz1, ds @ [bd_block_directory_path b], fs @ bd_tracked_file_paths b))"
    by (simp add: subtree_step_def b split: option.splits)
  obtain sz1 where sz1: "checked_add sz (bd_file_size_bytes b) = Some sz1"
    using Cons.prems(2) step by (cases "checked_add sz (bd_file_size_bytes b)") simp_all
  have rest: "try_fold (subtree_step by_identity) (sz1, ds @ [bd_block_directory_path b], fs @ bd_tracked_file_paths b) ids
      = Inr (sz', ds', fs')"
    using Cons.prems(2) by (simp add: step sz1)
  have "unat sz1 = unat sz + unat (bd_file_size_bytes b)" using sz1 by (simp add: checked_add_Some_iff)
  then show ?case using Cons.IH [OF _ rest] Cons.prems(1) b by simp
qed simp

lemma subtree_candidate_spec:
  assumes ids: "distinct (map bd_identity blocks)" and b: "b \<in> set blocks"
    and cand: "subtree_candidate (block_directory_by_identity blocks)
      (children_by_parent_identity (map snd (block_directory_by_identity blocks))) (bd_identity b, b) = Inr c"
  shows "\<exists>found sz. set found = descendants blocks b \<and> distinct found
    \<and> c = BlockSubtree \<lparr>gb_root_block_directory_path = bd_block_directory_path b, gb_file_size_bytes = sz,
        gb_modified_at = bd_modified_at b, gb_block_directory_paths = map bd_block_directory_path found,
        gb_tracked_file_paths = concat (map bd_tracked_file_paths found)\<rparr>
    \<and> unat sz = sum_list (map (unat \<circ> bd_file_size_bytes) found)"
proof -
  let ?by = "map (\<lambda>b. (bd_identity b, b)) blocks"
  let ?ids = "collect_subtree_block_identities (children_by_parent_identity blocks) [bd_identity b] []"
  have by_eq: "block_directory_by_identity blocks = ?by" "map snd ?by = blocks"
    using block_directory_by_identity_distinct [OF ids] by (simp_all add: comp_def)
  have lookup: "map_of ?by (bd_identity d) = Some d" if "d \<in> set blocks" for d
    using ids that by (intro map_of_is_SomeI) (auto simp: comp_def)
  have ids_eq: "set ?ids = (block_edges blocks)\<^sup>* `` {bd_identity b}"
    by (simp only: collect_subtree_descendants child_edges_blocks)
  have known: "\<exists>d \<in> set blocks. bd_identity d = i" if "(bd_identity b, i) \<in> (block_edges blocks)\<^sup>*" for i
    using that by induction (use b in \<open>auto simp: block_edges_def\<close>)
  have present: "\<forall>i \<in> set ?ids. \<exists>d. map_of ?by i = Some d"
    using known lookup unfolding ids_eq by force
  define found where "found = map (\<lambda>i. the (map_of ?by i)) ?ids"
  obtain sz ds fs where fold: "try_fold (subtree_step ?by) (0, [], []) ?ids = Inr (sz, ds, fs)"
    and c: "c = BlockSubtree \<lparr>gb_root_block_directory_path = bd_block_directory_path b, gb_file_size_bytes = sz,
        gb_modified_at = bd_modified_at b, gb_block_directory_paths = ds, gb_tracked_file_paths = fs\<rparr>"
    using cand unfolding by_eq subtree_candidate_def by auto
  note spec = subtree_step_fold [OF present fold, folded found_def]
  have found_ids: "map bd_identity found = ?ids"
  proof -
    have "bd_identity (the (map_of ?by i)) = i" if "i \<in> set ?ids" for i
      using known that lookup unfolding ids_eq by force
    then show ?thesis unfolding found_def by (simp add: map_idI)
  qed
  have "distinct found" using collect_subtree_sound [of "children_by_parent_identity blocks" "[bd_identity b]" "[]"]
    by (metis found_ids distinct_map)
  moreover have "set found = descendants blocks b"
  proof
    show "set found \<subseteq> descendants blocks b"
    proof
      fix d assume "d \<in> set found"
      then obtain i where i: "i \<in> set ?ids" "d = the (map_of ?by i)" by (auto simp: found_def)
      then obtain d' where "d' \<in> set blocks" "bd_identity d' = i" using known unfolding ids_eq by auto
      then show "d \<in> descendants blocks b" using i lookup unfolding ids_eq descendants_def by force
    qed
    show "descendants blocks b \<subseteq> set found"
    proof
      fix d assume d: "d \<in> descendants blocks b"
      then have "bd_identity d \<in> set ?ids" "d \<in> set blocks" unfolding ids_eq descendants_def by auto
      then show "d \<in> set found" using lookup unfolding found_def by force
    qed
  qed
  ultimately show ?thesis using c spec by auto
qed

lemma build_candidates_spec:
  assumes ids: "distinct (map bd_identity blocks)" and build: "build_block_subtree_candidates blocks = Inr cs"
  shows "list_all2 (\<lambda>b c. \<exists>found sz. set found = descendants blocks b \<and> distinct found
    \<and> c = BlockSubtree \<lparr>gb_root_block_directory_path = bd_block_directory_path b, gb_file_size_bytes = sz,
        gb_modified_at = bd_modified_at b, gb_block_directory_paths = map bd_block_directory_path found,
        gb_tracked_file_paths = concat (map bd_tracked_file_paths found)\<rparr>
    \<and> unat sz = sum_list (map (unat \<circ> bd_file_size_bytes) found)) blocks cs"
proof -
  let ?cand = "subtree_candidate (block_directory_by_identity blocks)
      (children_by_parent_identity (map snd (block_directory_by_identity blocks)))"
  have collect: "\<exists>cs'. cs = acc @ cs' \<and> list_all2 (\<lambda>root c. ?cand root = Inr c) roots cs'"
    if "try_fold (\<lambda>candidates root. result_bind (?cand root) (\<lambda>candidate. Inr (candidates @ [candidate]))) acc roots = Inr cs"
    for acc roots
    using that
  proof (induction roots arbitrary: acc)
    case (Cons root roots)
    then obtain c where c: "?cand root = Inr c" by (auto split: sum.splits)
    with Cons.prems Cons.IH [of "acc @ [c]"] obtain cs' where "cs = acc @ [c] @ cs'"
      "list_all2 (\<lambda>root c. ?cand root = Inr c) roots cs'" by auto
    with c show ?case by (intro exI [of _ "c # cs'"]) simp
  qed simp
  from build obtain cs' where "cs = [] @ cs'"
    "list_all2 (\<lambda>root c. ?cand root = Inr c) (block_directory_by_identity blocks) cs'"
    unfolding build_block_subtree_candidates_def Let_def using collect [of "[]"] by blast
  then have "list_all2 (\<lambda>b c. ?cand (bd_identity b, b) = Inr c) blocks cs"
    by (simp add: block_directory_by_identity_distinct [OF ids] list_all2_map1)
  then show ?thesis
    by (rule list.rel_mono_strong) (rule subtree_candidate_spec [OF ids])
qed

end
