(* ===== verification/Cache_Quota_Proofs.thy ===== *)
theory Cache_Quota_Proofs
  imports Cache_Quota
begin

text \<open>
  What the enforcement of the prompt-cache ceiling guarantees. The loop is related to the set of paths it has
  removed: the disk is the original one without them, they are closed under descendants and avoid the
  protected blocks, the running total is the size of what is left, and the index has lost exactly the blocks
  whose directories are gone.
\<close>

section \<open>The loop\<close>

definition disk_without :: "path set \<Rightarrow> cache_disk \<Rightarrow> cache_disk" where
  "disk_without removed disk =
     \<lparr>dk_standalone_files = filter (\<lambda>f. gf_file_path f \<notin> removed) (dk_standalone_files disk),
      dk_stale_directories = filter (\<lambda>d. gd_directory_path d \<notin> removed) (dk_stale_directories disk),
      dk_block_directories = filter (\<lambda>b. bd_block_directory_path b \<notin> removed) (dk_block_directories disk)\<rparr>"

fun candidate_paths :: "EvictionCandidate \<Rightarrow> path list" where
  "candidate_paths (StandaloneFile f) = [gf_file_path f]"
| "candidate_paths (StaleDirectory d) = [gd_directory_path d]"
| "candidate_paths (BlockSubtree b) = gb_block_directory_paths b"

definition subtree_of :: "BlockDirectory list \<Rightarrow> BlockDirectory \<Rightarrow> EvictionCandidate \<Rightarrow> bool" where
  "subtree_of blocks b c \<longleftrightarrow>
     (\<exists>found sz. set found = descendants blocks b \<and> distinct found
        \<and> c = BlockSubtree \<lparr>gb_root_block_directory_path = bd_block_directory_path b, gb_file_size_bytes = sz,
            gb_modified_at = bd_modified_at b, gb_block_directory_paths = map bd_block_directory_path found,
            gb_tracked_file_paths = concat (map bd_tracked_file_paths found)\<rparr>
        \<and> unat sz = sum_list (map (unat \<circ> bd_file_size_bytes) found))"

definition candidate_of :: "cache_disk \<Rightarrow> EvictionCandidate \<Rightarrow> bool" where
  "candidate_of disk c \<longleftrightarrow>
     (case c of
        StandaloneFile f \<Rightarrow> f \<in> set (dk_standalone_files disk)
      | StaleDirectory d \<Rightarrow> d \<in> set (dk_stale_directories disk)
      | BlockSubtree s \<Rightarrow> \<exists>b \<in> set (dk_block_directories disk). subtree_of (dk_block_directories disk) b c)"

definition index_on_disk :: "DiskStoreIndex \<Rightarrow> cache_disk \<Rightarrow> bool" where
  "index_on_disk index disk \<longleftrightarrow>
     (\<forall>(h, b) \<in> set (ix_blocks index).
        tb_block_directory_path b \<in> bd_block_directory_path ` set (dk_block_directories disk)
        \<and> (\<forall>file. tb_sequence_state_file b = Some file \<or> tb_boundary_state_file b = Some file
             \<longrightarrow> butlast (tf_file_path file) = tb_block_directory_path b))"

text \<open>The walked part of a disk determines what the loop touches.\<close>

definition loop_inv :: "cache_disk \<Rightarrow> cache_disk \<Rightarrow> DiskStoreIndex \<Rightarrow> path list \<Rightarrow> quota_state \<Rightarrow> bool" where
  "loop_inv disk found index protected state \<longleftrightarrow>
     (let R = set (qs_removed_eviction_paths state)
      in qs_disk state = disk_without R disk
         \<and> R \<subseteq> set (entry_paths found)
         \<and> (\<forall>b \<in> set (dk_block_directories found). bd_block_directory_path b \<in> R
              \<longrightarrow> bd_block_directory_path ` descendants (dk_block_directories found) b \<subseteq> R)
         \<and> R \<inter> set protected \<inter> bd_block_directory_path ` set (dk_block_directories found) = {}
         \<and> unat (qs_total_size_bytes state) = disk_bytes (disk_without R found)
         \<and> ix_blocks (qs_index state) = filter (\<lambda>(_, b). tb_block_directory_path b \<notin> R) (ix_blocks index))"

lemma disk_without_empty [simp]: "disk_without {} disk = disk"
  by (simp add: disk_without_def)

text \<open>Filtering by removed paths.\<close>

lemma filter_other: "(\<And>x. x \<in> set xs \<Longrightarrow> key x \<notin> P) \<Longrightarrow> filter (\<lambda>x. key x \<notin> R \<union> P) xs = filter (\<lambda>x. key x \<notin> R) xs"
  by (intro filter_cong) auto

lemma filter_more: "filter (\<lambda>x. key x \<notin> P) (filter (\<lambda>x. key x \<notin> R) xs) = filter (\<lambda>x. key x \<notin> R \<union> P) xs"
  by (simp add: filter_filter conj_commute)

lemma remove_directories_None:
  "remove_directories fails paths disk = (disk', None) \<Longrightarrow>
   disk' = disk\<lparr>dk_stale_directories := filter (\<lambda>d. gd_directory_path d \<notin> set paths) (dk_stale_directories disk),
                dk_block_directories := filter (\<lambda>b. bd_block_directory_path b \<notin> set paths) (dk_block_directories disk)\<rparr>"
proof (induction fails paths disk rule: remove_directories.induct)
  case (2 fails p paths disk)
  then show ?case by (auto simp: disk_without_directory_def filter_filter conj_commute split: if_splits)
qed simp

lemma entry_paths_apart:
  assumes "disk_wf disk"
  shows "\<lbrakk>f \<in> set (dk_standalone_files disk); d \<in> set (dk_stale_directories disk)\<rbrakk> \<Longrightarrow> gf_file_path f \<noteq> gd_directory_path d"
    "\<lbrakk>f \<in> set (dk_standalone_files disk); b \<in> set (dk_block_directories disk)\<rbrakk> \<Longrightarrow> gf_file_path f \<noteq> bd_block_directory_path b"
    "\<lbrakk>d \<in> set (dk_stale_directories disk); b \<in> set (dk_block_directories disk)\<rbrakk>
      \<Longrightarrow> gd_directory_path d \<noteq> bd_block_directory_path b"
proof -
  have "distinct (entry_paths disk)" using assms by (simp add: disk_wf_def)
  then have "gf_file_path ` set (dk_standalone_files disk) \<inter> gd_directory_path ` set (dk_stale_directories disk) = {}"
    "gf_file_path ` set (dk_standalone_files disk) \<inter> bd_block_directory_path ` set (dk_block_directories disk) = {}"
    "gd_directory_path ` set (dk_stale_directories disk) \<inter> bd_block_directory_path ` set (dk_block_directories disk) = {}"
    unfolding entry_paths_def distinct_append by auto
  then show "\<lbrakk>f \<in> set (dk_standalone_files disk); d \<in> set (dk_stale_directories disk)\<rbrakk> \<Longrightarrow> gf_file_path f \<noteq> gd_directory_path d"
    "\<lbrakk>f \<in> set (dk_standalone_files disk); b \<in> set (dk_block_directories disk)\<rbrakk> \<Longrightarrow> gf_file_path f \<noteq> bd_block_directory_path b"
    "\<lbrakk>d \<in> set (dk_stale_directories disk); b \<in> set (dk_block_directories disk)\<rbrakk>
      \<Longrightarrow> gd_directory_path d \<noteq> bd_block_directory_path b"
    by (simp_all only: disjoint_iff image_iff) blast+
qed

lemma block_path_inj: "disk_wf disk \<Longrightarrow> inj_on bd_block_directory_path (set (dk_block_directories disk))"
  by (simp add: disk_wf_def entry_paths_def distinct_map)

lemma block_identity_distinct:
  assumes "disk_wf disk"
  shows "distinct (map bd_identity (dk_block_directories disk))"
proof -
  have "bd_block_directory_path b = bi_blocks_directory_path (bd_identity b) @ [hex_encode (bi_block_hash (bd_identity b))]"
    if "b \<in> set (dk_block_directories disk)" for b
    using assms that unfolding disk_wf_def by blast
  then have eq: "map bd_block_directory_path (dk_block_directories disk)
      = map (\<lambda>i. bi_blocks_directory_path i @ [hex_encode (bi_block_hash i)]) (map bd_identity (dk_block_directories disk))"
    by simp
  have "distinct (map bd_block_directory_path (dk_block_directories disk))" using assms by (simp add: disk_wf_def entry_paths_def)
  then show ?thesis unfolding eq distinct_map by simp
qed

text \<open>The bytes of a list without some of its entries.\<close>

lemma bytes_without:
  assumes "distinct (map key xs)" "set found \<subseteq> set xs" "distinct found" "\<forall>x \<in> set found. key x \<notin> R"
  shows "sum_list (map f (filter (\<lambda>x. key x \<notin> R) xs))
    = sum_list (map f (filter (\<lambda>x. key x \<notin> R \<union> key ` set found) xs)) + (sum_list (map f found) :: nat)"
proof -
  have dist: "distinct xs" and inj: "inj_on key (set xs)" using assms(1) by (simp_all add: distinct_map)
  have "{x \<in> set xs. key x \<notin> R} = {x \<in> set xs. key x \<notin> R \<union> key ` set found} \<union> set found"
    using assms(2,4) inj by (auto dest: inj_onD)
  moreover have "{x \<in> set xs. key x \<notin> R \<union> key ` set found} \<inter> set found = {}" by auto
  ultimately have "sum f {x \<in> set xs. key x \<notin> R} = sum f {x \<in> set xs. key x \<notin> R \<union> key ` set found} + sum f (set found)"
    by (simp add: sum.union_disjoint)
  then show ?thesis using dist assms(3) by (simp add: sum_list_distinct_conv_sum_set)
qed


lemma subtree_found:
  assumes "candidate_of found (BlockSubtree s)"
  obtains b ds where "b \<in> set (dk_block_directories found)" "set ds = descendants (dk_block_directories found) b" "distinct ds"
    "set ds \<subseteq> set (dk_block_directories found)" "b \<in> set ds"
    "gb_root_block_directory_path s = bd_block_directory_path b"
    "gb_block_directory_paths s = map bd_block_directory_path ds"
    "gb_tracked_file_paths s = concat (map bd_tracked_file_paths ds)"
    "unat (gb_file_size_bytes s) = sum_list (map (unat \<circ> bd_file_size_bytes) ds)"
proof -
  from assms obtain b where b: "b \<in> set (dk_block_directories found)"
    "subtree_of (dk_block_directories found) b (BlockSubtree s)" by (auto simp: candidate_of_def)
  from b(2) obtain ds sz where ds: "set ds = descendants (dk_block_directories found) b" "distinct ds"
    "s = \<lparr>gb_root_block_directory_path = bd_block_directory_path b, gb_file_size_bytes = sz,
        gb_modified_at = bd_modified_at b, gb_block_directory_paths = map bd_block_directory_path ds,
        gb_tracked_file_paths = concat (map bd_tracked_file_paths ds)\<rparr>"
    "unat sz = sum_list (map (unat \<circ> bd_file_size_bytes) ds)" unfolding subtree_of_def by blast
  show ?thesis by (rule that [of b ds]) (use b(1) ds in \<open>auto simp: descendants_def\<close>)
qed

text \<open>One removal keeps the invariant: on the disk, \<dots>\<close>

lemma candidate_paths_entries:
  assumes wf: "disk_wf found" and cand: "candidate_of found c"
  shows "set (candidate_paths c) \<subseteq> set (entry_paths found)"
    "set (block_directory_paths c) \<union> {tie_breaker_path c} = set (candidate_paths c)"
proof -
  show "set (candidate_paths c) \<subseteq> set (entry_paths found)"
    using cand by (cases c) (auto simp: candidate_of_def entry_paths_def subtree_of_def descendants_def)
  show "set (block_directory_paths c) \<union> {tie_breaker_path c} = set (candidate_paths c)"
  proof (cases c)
    case (BlockSubtree s)
    then obtain b ds where "b \<in> set (dk_block_directories found)" "set ds = descendants (dk_block_directories found) b"
      "gb_root_block_directory_path s = bd_block_directory_path b" "gb_block_directory_paths s = map bd_block_directory_path ds"
      using cand by (auto simp: candidate_of_def subtree_of_def)
    moreover have "b \<in> descendants (dk_block_directories found) b" using calculation(1) by (simp add: descendants_def)
    ultimately show ?thesis using BlockSubtree by auto
  qed simp_all
qed

lemma remove_candidate_disk:
  assumes wf: "disk_wf disk" and sub: "set (dk_standalone_files found) \<subseteq> set (dk_standalone_files disk)"
      "set (dk_stale_directories found) \<subseteq> set (dk_stale_directories disk)"
      "set (dk_block_directories found) \<subseteq> set (dk_block_directories disk)"
    and cand: "candidate_of found c" and removed: "remove_eviction_candidate fails c (disk_without R disk) = (disk', None)"
  shows "disk' = disk_without (R \<union> set (candidate_paths c)) disk"
proof (cases c)
  case (StandaloneFile f)
  then have f: "f \<in> set (dk_standalone_files disk)" using cand sub by (auto simp: candidate_of_def)
  have "disk' = disk_without_file (gf_file_path f) (disk_without R disk)"
    using removed StandaloneFile by (simp split: if_splits)
  moreover have "filter (\<lambda>f'. gf_file_path f' \<noteq> gf_file_path f) (filter (\<lambda>f. gf_file_path f \<notin> R) (dk_standalone_files disk))
      = filter (\<lambda>f'. gf_file_path f' \<notin> R \<union> {gf_file_path f}) (dk_standalone_files disk)"
    using filter_more [of gf_file_path "{gf_file_path f}" R "dk_standalone_files disk"] by simp
  moreover have "filter (\<lambda>d. gd_directory_path d \<notin> R \<union> {gf_file_path f}) (dk_stale_directories disk)
      = filter (\<lambda>d. gd_directory_path d \<notin> R) (dk_stale_directories disk)"
    using entry_paths_apart(1) [OF wf f] by (intro filter_other) fastforce
  moreover have "filter (\<lambda>b. bd_block_directory_path b \<notin> R \<union> {gf_file_path f}) (dk_block_directories disk)
      = filter (\<lambda>b. bd_block_directory_path b \<notin> R) (dk_block_directories disk)"
    using entry_paths_apart(2) [OF wf f] by (intro filter_other) fastforce
  ultimately show ?thesis unfolding StandaloneFile by (simp add: disk_without_def disk_without_file_def del: Un_insert_right)
next
  case (StaleDirectory d)
  then have d: "d \<in> set (dk_stale_directories disk)" using cand sub by (auto simp: candidate_of_def)
  have none: "remove_directories fails [gd_directory_path d] (disk_without R disk) = (disk', None)"
    using removed unfolding StaleDirectory by (simp only: remove_eviction_candidate.simps)
  have "filter (\<lambda>f. gf_file_path f \<notin> R \<union> set [gd_directory_path d]) (dk_standalone_files disk)
      = filter (\<lambda>f. gf_file_path f \<notin> R) (dk_standalone_files disk)"
    using entry_paths_apart(1) [OF wf _ d] by (intro filter_other) fastforce
  then show ?thesis using remove_directories_None [OF none] unfolding StaleDirectory candidate_paths.simps
    by (simp only: disk_without_def cache_disk.select_convs cache_disk.update_convs filter_more)
next
  case (BlockSubtree s)
  have none: "remove_directories fails (gb_block_directory_paths s) (disk_without R disk) = (disk', None)"
    using removed unfolding BlockSubtree by (simp only: remove_eviction_candidate.simps)
  have "set (gb_block_directory_paths s) \<subseteq> bd_block_directory_path ` set (dk_block_directories disk)"
    by (rule subtree_found [OF cand [unfolded BlockSubtree]]) (use sub(3) in auto)
  then have "filter (\<lambda>f. gf_file_path f \<notin> R \<union> set (gb_block_directory_paths s)) (dk_standalone_files disk)
      = filter (\<lambda>f. gf_file_path f \<notin> R) (dk_standalone_files disk)"
    using entry_paths_apart(2) [OF wf] by (intro filter_other) fastforce
  then show ?thesis using remove_directories_None [OF none] unfolding BlockSubtree candidate_paths.simps
    by (simp only: disk_without_def cache_disk.select_convs cache_disk.update_convs filter_more)
qed

text \<open>\<dots> in the size of what is left, \<dots>\<close>

lemma remove_candidate_bytes:
  assumes wf: "disk_wf found" and cand: "candidate_of found c" and new: "set (candidate_paths c) \<inter> R = {}"
  shows "disk_bytes (disk_without R found)
     = disk_bytes (disk_without (R \<union> set (candidate_paths c)) found) + unat (candidate_file_size_bytes c)"
proof -
  have dist: "distinct (map gf_file_path (dk_standalone_files found))" "distinct (map gd_directory_path (dk_stale_directories found))"
    "distinct (map bd_block_directory_path (dk_block_directories found))"
    using wf by (simp_all add: disk_wf_def entry_paths_def)
  have other: "filter (\<lambda>x. key x \<notin> R \<union> P) xs = filter (\<lambda>x. key x \<notin> R) xs" if "P \<inter> key ` set xs = {}" for key P and xs :: "'x list"
    using that by (intro filter_cong) auto
  note apart = entry_paths_apart [OF wf]
  show ?thesis
  proof (cases c)
    case (StandaloneFile f)
    then have f: "f \<in> set (dk_standalone_files found)" using cand by (simp add: candidate_of_def)
    have "{gf_file_path f} \<inter> gd_directory_path ` set (dk_stale_directories found) = {}"
      "{gf_file_path f} \<inter> bd_block_directory_path ` set (dk_block_directories found) = {}"
      using apart(1,2) [OF f] by auto
    note others = other [OF this(1)] other [OF this(2)]
    show ?thesis using bytes_without [OF dist(1), of "[f]" R "unat \<circ> gf_file_size_bytes"] f new StandaloneFile others
      by (simp add: disk_bytes_def disk_without_def)
  next
    case (StaleDirectory d)
    then have d: "d \<in> set (dk_stale_directories found)" using cand by (simp add: candidate_of_def)
    have "{gd_directory_path d} \<inter> gf_file_path ` set (dk_standalone_files found) = {}"
      "{gd_directory_path d} \<inter> bd_block_directory_path ` set (dk_block_directories found) = {}"
      using apart(1) [OF _ d] apart(3) [OF d] by fastforce+
    note others = other [OF this(1)] other [OF this(2)]
    show ?thesis using bytes_without [OF dist(2), of "[d]" R "unat \<circ> gd_file_size_bytes"] d new StaleDirectory others
      by (simp add: disk_bytes_def disk_without_def)
  next
    case (BlockSubtree s)
    then obtain b ds where ds: "set ds = descendants (dk_block_directories found) b" "distinct ds"
      "gb_block_directory_paths s = map bd_block_directory_path ds"
      "unat (gb_file_size_bytes s) = sum_list (map (unat \<circ> bd_file_size_bytes) ds)"
      using cand by (auto simp: candidate_of_def subtree_of_def)
    have sub: "set ds \<subseteq> set (dk_block_directories found)" using ds(1) by (auto simp: descendants_def)
    have "bd_block_directory_path ` set ds \<inter> gf_file_path ` set (dk_standalone_files found) = {}"
      "bd_block_directory_path ` set ds \<inter> gd_directory_path ` set (dk_stale_directories found) = {}"
      using apart(2,3) sub by fastforce+
    note others = other [OF this(1)] other [OF this(2)]
    show ?thesis
      using bytes_without [OF dist(3) sub ds(2), of R "unat \<circ> bd_file_size_bytes"] new BlockSubtree others ds(3,4)
      by (auto simp: disk_bytes_def disk_without_def)
  qed
qed

text \<open>\<dots> and in the index.\<close>

definition strip_files :: "path list \<Rightarrow> TrackedBlock \<Rightarrow> TrackedBlock" where
  "strip_files removed b =
     b\<lparr>tb_sequence_state_file := drop_removed_file removed (tb_sequence_state_file b),
       tb_boundary_state_file := drop_removed_file removed (tb_boundary_state_file b)\<rparr>"

lemma strip_files_id:
  assumes "\<And>name. name \<in> set removed \<Longrightarrow> butlast name \<noteq> tb_block_directory_path b"
    "\<And>tracked. tb_sequence_state_file b = Some tracked \<or> tb_boundary_state_file b = Some tracked
      \<Longrightarrow> butlast (tf_file_path tracked) = tb_block_directory_path b"
  shows "strip_files removed b = b"
proof -
  have "drop_removed_file removed (tb_sequence_state_file b) = tb_sequence_state_file b"
    using assms by (cases "tb_sequence_state_file b") (auto simp: drop_removed_file_def)
  moreover have "drop_removed_file removed (tb_boundary_state_file b) = tb_boundary_state_file b"
    using assms by (cases "tb_boundary_state_file b") (auto simp: drop_removed_file_def)
  ultimately show ?thesis by (simp add: strip_files_def)
qed

lemma filter_stripped:
  assumes "\<And>e. e \<in> set es \<Longrightarrow> tb_block_directory_path (snd e) \<in> P \<longleftrightarrow> tb_block_directory_path (snd e) \<in> Q"
    "\<And>e. e \<in> set es \<Longrightarrow> tb_block_directory_path (snd e) \<notin> Q \<Longrightarrow> strip_files removed (snd e) = snd e"
  shows "filter (\<lambda>(_, b). tb_block_directory_path b \<notin> P) (map (\<lambda>(h, b). (h, strip_files removed b)) es)
    = filter (\<lambda>(_, b). tb_block_directory_path b \<notin> Q) es"
  using assms
proof (induction es)
  case (Cons e es)
  obtain h b where e: "e = (h, b)" by (cases e)
  have "tb_block_directory_path (strip_files removed b) = tb_block_directory_path b" by (simp add: strip_files_def)
  moreover have "filter (\<lambda>(_, b). tb_block_directory_path b \<notin> P) (map (\<lambda>(h, b). (h, strip_files removed b)) es)
    = filter (\<lambda>(_, b). tb_block_directory_path b \<notin> Q) es"
    using Cons.prems by (intro Cons.IH) simp_all
  ultimately show ?case using Cons.prems(1) [of e] Cons.prems(2) [of e] by (simp add: e)
qed simp

lemma remove_candidate_index:
  assumes wf: "disk_wf disk" and sub: "set (dk_standalone_files found) \<subseteq> set (dk_standalone_files disk)"
      "set (dk_stale_directories found) \<subseteq> set (dk_stale_directories disk)"
      "set (dk_block_directories found) \<subseteq> set (dk_block_directories disk)"
    and cand: "candidate_of found c" and on_disk: "index_on_disk index disk"
    and now: "ix_blocks index1 = filter (\<lambda>(_, b). tb_block_directory_path b \<notin> R) (ix_blocks index)"
  shows "ix_blocks (remove_blocks_by_directory_paths (block_directory_paths c) (remove_files_by_path (tracked_file_paths c) index1))
    = filter (\<lambda>(_, b). tb_block_directory_path b \<notin> R \<union> set (candidate_paths c)) (ix_blocks index)"
proof -
  have facts: "(tb_block_directory_path (snd e) \<in> set (block_directory_paths c)
        \<longleftrightarrow> tb_block_directory_path (snd e) \<in> set (candidate_paths c))
      \<and> (tb_block_directory_path (snd e) \<notin> set (candidate_paths c) \<longrightarrow> strip_files (tracked_file_paths c) (snd e) = snd e)"
    if e: "e \<in> set (ix_blocks index)" for e
  proof -
    obtain h b where hb: "e = (h, b)" by (cases e)
    obtain bd where dir: "bd \<in> set (dk_block_directories disk)" "tb_block_directory_path b = bd_block_directory_path bd"
      and files: "\<And>tracked. tb_sequence_state_file b = Some tracked \<or> tb_boundary_state_file b = Some tracked
        \<Longrightarrow> butlast (tf_file_path tracked) = tb_block_directory_path b"
      using on_disk e hb unfolding index_on_disk_def by fastforce
    show ?thesis
    proof (cases c)
      case (StandaloneFile f)
      then have f: "f \<in> set (dk_standalone_files disk)" using cand sub(1) by (auto simp: candidate_of_def)
      have "butlast (gf_file_path f) \<noteq> tb_block_directory_path b" using wf f dir unfolding disk_wf_def by auto
      then have "strip_files (tracked_file_paths c) b = b" using files by (intro strip_files_id) (simp_all add: StandaloneFile)
      then show ?thesis using entry_paths_apart(2) [OF wf f dir(1)] by (simp add: hb StandaloneFile dir(2))
    next
      case (StaleDirectory d)
      then have d: "d \<in> set (dk_stale_directories disk)" using cand sub(2) by (auto simp: candidate_of_def)
      note apart = entry_paths_apart(3) [OF wf d dir(1)]
      have "butlast name = gd_directory_path d" if "name \<in> set (gd_tracked_file_paths d)" for name
        using wf d that unfolding disk_wf_def by blast
      then have "strip_files (tracked_file_paths c) b = b"
        using files apart by (intro strip_files_id) (simp_all add: StaleDirectory dir(2))
      then show ?thesis using apart by (simp add: hb StaleDirectory dir(2))
    next
      case (BlockSubtree s)
      obtain ds where found_ds: "set ds \<subseteq> set (dk_block_directories found)"
        and ds_eq: "gb_block_directory_paths s = map bd_block_directory_path ds" "gb_tracked_file_paths s = concat (map bd_tracked_file_paths ds)"
        using cand [unfolded BlockSubtree] by (elim subtree_found) (rule that)
      note ds = order.trans [OF found_ds sub(3)] ds_eq
      have "strip_files (tracked_file_paths c) b = b" if out: "tb_block_directory_path b \<notin> bd_block_directory_path ` set ds"
      proof (rule strip_files_id)
        fix name assume "name \<in> set (tracked_file_paths c)"
        then obtain d where d: "d \<in> set ds" "name \<in> set (bd_tracked_file_paths d)" by (auto simp: BlockSubtree ds(3))
        then have "butlast name = bd_block_directory_path d" using wf ds(1) unfolding disk_wf_def by blast
        then show "butlast name \<noteq> tb_block_directory_path b" using out d(1) by (metis imageI)
      qed (rule files)
      then show ?thesis by (simp add: hb BlockSubtree ds(2))
    qed
  qed
  have "ix_blocks (remove_blocks_by_directory_paths (block_directory_paths c) (remove_files_by_path (tracked_file_paths c) index1))
      = filter (\<lambda>(_, b). tb_block_directory_path b \<notin> set (block_directory_paths c))
          (map (\<lambda>(h, b). (h, strip_files (tracked_file_paths c) b)) (ix_blocks index1))"
    by (simp add: remove_blocks_by_directory_paths_def remove_files_by_path_def strip_files_def)
  also have "\<dots> = filter (\<lambda>(_, b). tb_block_directory_path b \<notin> set (candidate_paths c)) (ix_blocks index1)"
    using facts by (intro filter_stripped) (simp_all add: now)
  also have "\<dots> = filter (\<lambda>(_, b). tb_block_directory_path b \<notin> R \<union> set (candidate_paths c)) (ix_blocks index)"
    by (simp add: now filter_filter split_def conj_commute)
  finally show ?thesis .
qed


text \<open>The loop, and the scan before it.\<close>

lemma candidate_is_kept_False:
  assumes "candidate_is_kept policy state c = Inr False"
  shows "set (qs_removed_eviction_paths state) \<inter> (set (block_directory_paths c) \<union> {tie_breaker_path c}) = {}"
    "is_unconditionally_removable c
      \<or> set (block_directory_paths c) \<inter> set (qp_protected_block_directory_paths policy) = {}"
  using assms
  by (auto simp: candidate_is_kept_def eviction_candidate_was_already_removed_def list_ex_iff
      contains_protected_block_directory_def split: if_splits)

lemma removed_closed:
  assumes b: "b \<in> set blocks" "d \<in> descendants blocks b"
  shows "descendants blocks d \<subseteq> descendants blocks b"
  using b unfolding descendants_def by (auto intro: rtrancl_trans)

lemma loop_inv_step:
  assumes wf: "disk_wf disk" "disk_wf found" and sub: "set (dk_standalone_files found) \<subseteq> set (dk_standalone_files disk)"
      "set (dk_stale_directories found) \<subseteq> set (dk_stale_directories disk)"
      "set (dk_block_directories found) \<subseteq> set (dk_block_directories disk)"
    and on_disk: "index_on_disk index disk"
    and inv: "loop_inv disk found index (qp_protected_block_directory_paths policy) state"
    and cand: "candidate_of found c" and kept: "candidate_is_kept policy state c = Inr False"
    and removed: "remove_eviction_candidate fails c (qs_disk state) = (disk', None)"
  shows "loop_inv disk found index (qp_protected_block_directory_paths policy)
    (account_removed_candidate policy c (state\<lparr>qs_disk := disk'\<rparr>))"
proof -
  define R where "R = set (qs_removed_eviction_paths state)"
  define P where "P = set (candidate_paths c)"
  let ?blocks = "dk_block_directories found" and ?after = "account_removed_candidate policy c (state\<lparr>qs_disk := disk'\<rparr>)"
  note inv' = inv [unfolded loop_inv_def Let_def, folded R_def]
  have paths: "set (block_directory_paths c) \<union> {tie_breaker_path c} = P"
    unfolding P_def by (rule candidate_paths_entries(2) [OF wf(2) cand])
  have after: "set (qs_removed_eviction_paths ?after) = R \<union> P" "qs_disk ?after = disk'"
    "qs_total_size_bytes ?after = saturating_sub (qs_total_size_bytes state) (candidate_file_size_bytes c)"
    "qs_index ?after = remove_blocks_by_directory_paths (block_directory_paths c)
       (remove_files_by_path (tracked_file_paths c) (qs_index state))"
    using paths unfolding R_def by (auto simp: account_removed_candidate_def Let_def)
  have new: "P \<inter> R = {}" using candidate_is_kept_False(1) [OF kept] paths unfolding R_def by blast
  have 1: "disk' = disk_without (R \<union> P) disk"
    unfolding P_def by (rule remove_candidate_disk [OF wf(1) sub cand]) (use removed inv' in simp)
  have 2: "R \<union> P \<subseteq> set (entry_paths found)"
    using inv' candidate_paths_entries(1) [OF wf(2) cand] unfolding P_def by blast
  have 3: "bd_block_directory_path ` descendants ?blocks b \<subseteq> R \<union> P"
    if b: "b \<in> set ?blocks" "bd_block_directory_path b \<in> R \<union> P" for b
  proof (cases "bd_block_directory_path b \<in> R")
    case True
    then show ?thesis using inv' b(1) by blast
  next
    case False
    then have P: "bd_block_directory_path b \<in> P" using b(2) by blast
    show ?thesis
    proof (cases c)
      case (StandaloneFile f)
      then show ?thesis using P entry_paths_apart(2) [OF wf(2) _ b(1), of f] cand by (simp add: P_def candidate_of_def)
    next
      case (StaleDirectory d)
      then show ?thesis using P entry_paths_apart(3) [OF wf(2) _ b(1), of d] cand by (simp add: P_def candidate_of_def)
    next
      case (BlockSubtree s)
      obtain root ds where root: "root \<in> set ?blocks" "set ds = descendants ?blocks root"
        "gb_block_directory_paths s = map bd_block_directory_path ds" "set ds \<subseteq> set ?blocks"
        using cand [unfolded BlockSubtree] by (elim subtree_found) (rule that)
      from P obtain d where d: "d \<in> set ds" "bd_block_directory_path d = bd_block_directory_path b"
        unfolding P_def BlockSubtree by (auto simp: root(3))
      then have "d = b" using block_path_inj [OF wf(2)] root(4) b(1) by (metis inj_onD subsetD)
      then have "descendants ?blocks b \<subseteq> set ds" using removed_closed [of root ?blocks b] root(1,2) d(1) by simp
      then show ?thesis unfolding P_def BlockSubtree by (auto simp: root(3))
    qed
  qed
  have 4: "(R \<union> P) \<inter> set (qp_protected_block_directory_paths policy) \<inter> bd_block_directory_path ` set ?blocks = {}"
  proof -
    have "P \<inter> set (qp_protected_block_directory_paths policy) \<inter> bd_block_directory_path ` set ?blocks = {}"
    proof (cases c)
      case (StandaloneFile f)
      then show ?thesis using entry_paths_apart(2) [OF wf(2), of f] cand by (fastforce simp: P_def candidate_of_def)
    next
      case (StaleDirectory d)
      then show ?thesis using entry_paths_apart(3) [OF wf(2), of d] cand by (fastforce simp: P_def candidate_of_def)
    next
      case (BlockSubtree s)
      then show ?thesis using candidate_is_kept_False(2) [OF kept]
        by (auto simp: P_def is_unconditionally_removable_def)
    qed
    then show ?thesis using inv' by blast
  qed
  have 5: "unat (qs_total_size_bytes ?after) = disk_bytes (disk_without (R \<union> P) found)"
    using remove_candidate_bytes [OF wf(2) cand, of R] new inv' unfolding after(3) P_def by (simp add: unat_saturating_sub)
  have 6: "ix_blocks (qs_index ?after) = filter (\<lambda>(_, b). tb_block_directory_path b \<notin> R \<union> P) (ix_blocks index)"
    unfolding after(4) P_def by (rule remove_candidate_index [OF wf(1) sub cand on_disk]) (use inv' in simp)
  show ?thesis unfolding loop_inv_def Let_def after(1,2) using 1 2 3 4 5 6 by blast
qed

lemma evict_candidates_inv:
  assumes "disk_wf disk" "disk_wf found" "set (dk_standalone_files found) \<subseteq> set (dk_standalone_files disk)"
      "set (dk_stale_directories found) \<subseteq> set (dk_stale_directories disk)"
      "set (dk_block_directories found) \<subseteq> set (dk_block_directories disk)" "index_on_disk index disk"
    and "loop_inv disk found index (qp_protected_block_directory_paths policy) state" "\<forall>c \<in> set cs. candidate_of found c"
    and "evict_candidates fails policy cs state = (state', e)" "\<forall>path. e \<noteq> Some (FileSystemFailure path)"
  shows "loop_inv disk found index (qp_protected_block_directory_paths policy) state'"
  using assms(7-10)
proof (induction cs arbitrary: state)
  case (Cons c cs)
  show ?case
  proof (cases "candidate_is_kept policy state c")
    case (Inl e')
    then show ?thesis using Cons.prems by simp
  next
    case (Inr kept)
    show ?thesis
    proof (cases kept)
      case True
      then show ?thesis using Cons.IH [OF Cons.prems(1)] Cons.prems Inr by simp
    next
      case False
      obtain disk' e' where removed: "remove_eviction_candidate fails c (qs_disk state) = (disk', e')" by force
      have "e' = None"
      proof (rule ccontr)
        assume "e' \<noteq> None"
        then obtain err where err: "e' = Some err" by blast
        have failure: "\<exists>path. x = FileSystemFailure path" if "remove_directories fails paths d = (d', Some x)" for paths d d' x
          using that by (induction fails paths d rule: remove_directories.induct) (auto split: if_splits)
        have "\<exists>path. err = FileSystemFailure path"
          using removed err failure by (cases c) (auto split: if_splits)
        then show False using Cons.prems(3,4) Inr False removed err by auto
      qed
      have cand: "candidate_of found c" using Cons.prems(2) by simp
      have kept: "candidate_is_kept policy state c = Inr False" using Inr False by simp
      note gone = removed [unfolded \<open>e' = None\<close>]
      show ?thesis
        using Cons.IH [OF loop_inv_step [OF assms(1-6) Cons.prems(1) cand kept gone]] Cons.prems(2-4) kept gone by simp
    qed
  qed
qed simp


lemma walked_without: "walked excluded (disk_without R disk) = disk_without R (walked excluded disk)"
  by (simp add: walked_def disk_without_def filter_filter conj_commute)

lemma distinct_three_filters:
  assumes "distinct (xs @ ys @ zs)"
  shows "set xs' \<subseteq> set xs \<Longrightarrow> set ys' \<subseteq> set ys \<Longrightarrow> set zs' \<subseteq> set zs \<Longrightarrow> distinct xs' \<Longrightarrow> distinct ys' \<Longrightarrow> distinct zs'
    \<Longrightarrow> distinct (xs' @ ys' @ zs')"
  using assms by (simp only: distinct_append set_append) blast

lemma walked_subset:
  "set (dk_standalone_files (walked excluded disk)) \<subseteq> set (dk_standalone_files disk)"
  "set (dk_stale_directories (walked excluded disk)) \<subseteq> set (dk_stale_directories disk)"
  "set (dk_block_directories (walked excluded disk)) \<subseteq> set (dk_block_directories disk)"
  by (auto simp: walked_def)

lemma walked_wf:
  assumes "disk_wf disk"
  shows "disk_wf (walked excluded disk)"
proof -
  have dist: "distinct (entry_paths disk)" using assms by (simp add: disk_wf_def)
  have maps: "distinct (map gf_file_path (dk_standalone_files disk))" "distinct (map gd_directory_path (dk_stale_directories disk))"
    "distinct (map bd_block_directory_path (dk_block_directories disk))"
    using dist by (simp_all add: entry_paths_def)
  have "distinct (entry_paths (walked excluded disk))"
    unfolding entry_paths_def
    by (rule distinct_three_filters [OF dist [unfolded entry_paths_def]])
      (use maps in \<open>auto simp: walked_def distinct_map_filter\<close>)
  moreover have "butlast (gf_file_path f) \<notin> bd_block_directory_path ` set (dk_block_directories (walked excluded disk))"
    if "f \<in> set (dk_standalone_files (walked excluded disk))" for f
    using assms walked_subset that unfolding disk_wf_def by blast
  ultimately show ?thesis using assms walked_subset [of excluded disk] unfolding disk_wf_def by blast
qed

lemma checked_sum:
  "try_fold (\<lambda>total x. checked_add_global_size root total (bytes x)) acc xs = Inr tot
   \<Longrightarrow> unat tot = unat acc + sum_list (map (unat \<circ> bytes) xs)"
proof (induction xs arbitrary: acc)
  case (Cons x xs)
  then obtain acc' where "checked_add acc (bytes x) = Some acc'"
    "try_fold (\<lambda>total x. checked_add_global_size root total (bytes x)) acc' xs = Inr tot"
    by (auto simp: checked_add_global_size_def ok_or_def split: option.splits)
  then show ?case using Cons.IH [of acc'] by (simp add: checked_add_Some_iff)
qed simp

lemma checked_file_sum:
  "try_fold (add_standalone_file root) acc fs = Inr sums
   \<Longrightarrow> unat (fst sums) = unat (fst acc) + sum_list (map (unat \<circ> gf_file_size_bytes) fs)"
proof (induction fs arbitrary: acc)
  case (Cons f fs)
  obtain acc' where step: "add_standalone_file root acc f = Inr acc'" and rest: "try_fold (add_standalone_file root) acc' fs = Inr sums"
    using Cons.prems by (cases "add_standalone_file root acc f") simp_all
  have "checked_add (fst acc) (gf_file_size_bytes f) = Some (fst acc')"
    using step by (auto simp: add_standalone_file_def checked_add_global_size_def split: if_splits)
  then show ?case using Cons.IH [OF rest] by (simp add: checked_add_Some_iff)
qed simp

lemma scan_spec:
  assumes wf: "disk_wf disk" and scan: "scan_global_prompt_cache_quota root excluded disk = Inr scan"
  shows "unat (sc_total_size_bytes scan) = disk_bytes (walked excluded disk)"
    "\<forall>c \<in> set (sc_eviction_candidates scan). candidate_of (walked excluded disk) c"
proof -
  let ?found = "walked excluded disk"
  obtain ft visual st tot subtrees where
    files: "try_fold (add_standalone_file root) (0, 0) (dk_standalone_files ?found) = Inr (ft, visual)"
    and stale: "try_fold (\<lambda>total stale. checked_add_global_size root total (gd_file_size_bytes stale)) ft
        (dk_stale_directories ?found) = Inr st"
    and blocks: "try_fold (\<lambda>total block. checked_add_global_size root total (bd_file_size_bytes block)) st
        (dk_block_directories ?found) = Inr tot"
    and build: "build_block_subtree_candidates (dk_block_directories ?found) = Inr subtrees"
    and scan_eq: "scan = \<lparr>sc_eviction_candidates = sort_by eviction_order (map StandaloneFile (dk_standalone_files ?found)
            @ map StaleDirectory (dk_stale_directories ?found) @ subtrees),
         sc_total_size_bytes = tot, sc_visual_embedding_total_size_bytes = visual\<rparr>"
    using scan unfolding scan_global_prompt_cache_quota_def Let_def by (auto split: prod.splits)
  show "unat (sc_total_size_bytes scan) = disk_bytes ?found"
    using checked_file_sum [OF files] checked_sum [OF stale] checked_sum [OF blocks]
    by (simp add: scan_eq disk_bytes_def)
  have "candidate_of ?found c" if c_in: "c \<in> set subtrees" for c
  proof -
    from build_candidates_spec [OF block_identity_distinct [OF walked_wf [OF wf]] build]
    have "list_all2 (subtree_of (dk_block_directories ?found)) (dk_block_directories ?found) subtrees"
      by (simp add: subtree_of_def [abs_def])
    moreover obtain i where "i < length subtrees" "c = subtrees ! i" using c_in by (auto simp: in_set_conv_nth)
    ultimately obtain b where b: "b \<in> set (dk_block_directories ?found)" "subtree_of (dk_block_directories ?found) b c"
      unfolding list_all2_conv_all_nth by (metis nth_mem)
    then obtain s where "c = BlockSubtree s" by (auto simp: subtree_of_def)
    then show ?thesis using b by (auto simp: candidate_of_def)
  qed
  then show "\<forall>c \<in> set (sc_eviction_candidates scan). candidate_of ?found c"
    by (auto simp: scan_eq candidate_of_def)
qed

lemma enforce_inv:
  assumes wf: "disk_wf (qs_disk state)" and on_disk: "index_on_disk (qs_index state) (qs_disk state)"
    and run: "enforce_global_prompt_cache_quota_for_commit fails policy excluded state = (state', e)"
    and ok: "\<forall>path. e \<noteq> Some (FileSystemFailure path)"
    and scanned: "scan_global_prompt_cache_quota (qp_root policy) excluded (qs_disk state) = Inr scan"
  shows "loop_inv (qs_disk state) (walked excluded (qs_disk state)) (qs_index state)
    (qp_protected_block_directory_paths policy) state'"
    "e = None \<Longrightarrow> \<exists>size_bytes. committed_size policy state' = Inr size_bytes \<and> size_bytes \<le> qp_maximum_size_bytes policy"
proof -
  let ?found = "walked excluded (qs_disk state)"
  let ?start = "state\<lparr>qs_total_size_bytes := sc_total_size_bytes scan,
                  qs_visual_embedding_total_size_bytes := sc_visual_embedding_total_size_bytes scan,
                  qs_removed_eviction_paths := [], qs_evidence := evidence_default\<rparr>"
  obtain s1 e1 where loop: "evict_candidates fails policy (sc_eviction_candidates scan) ?start = (s1, e1)" by force
  have state': "state' = s1" and e1: "\<forall>path. e1 \<noteq> Some (FileSystemFailure path)"
    and size: "e = None \<Longrightarrow> \<exists>size_bytes. committed_size policy s1 = Inr size_bytes \<and> size_bytes \<le> qp_maximum_size_bytes policy"
    using run ok unfolding enforce_global_prompt_cache_quota_for_commit_def scanned sum.case loop
    by (auto split: option.splits sum.splits if_splits)
  note scan_facts = scan_spec [OF wf scanned]
  have start: "loop_inv (qs_disk state) ?found (qs_index state) (qp_protected_block_directory_paths policy) ?start"
    using scan_facts(1) by (simp add: loop_inv_def)
  show "loop_inv (qs_disk state) ?found (qs_index state) (qp_protected_block_directory_paths policy) state'"
    unfolding state' by (rule evict_candidates_inv [OF wf walked_wf [OF wf] walked_subset on_disk start scan_facts(2) loop e1])
  show "e = None \<Longrightarrow> \<exists>size_bytes. committed_size policy state' = Inr size_bytes \<and> size_bytes \<le> qp_maximum_size_bytes policy"
    unfolding state' by (rule size)
qed


section \<open>Theorems\<close>

text \<open>C26. When the enforcement reports success, the bytes that are really left on the disk, outside the excluded
  staging directory, together with the bytes of the coming commit and without the parent boundary that the
  commit makes reclaimable, are within the maximum: no removed byte is counted twice, although the subtrees
  that the scan offers overlap.
\<close>

theorem quota_bounds_disk:
  assumes "disk_wf (qs_disk state)" "index_on_disk (qs_index state) (qs_disk state)"
    and "enforce_global_prompt_cache_quota_for_commit fails policy excluded state = (state', None)"
  shows "disk_bytes (walked excluded (qs_disk state')) + unat (qp_additional_committed_size_bytes policy)
      - unat (qp_post_commit_reclaimable_size_bytes policy) \<le> unat (qp_maximum_size_bytes policy)"
proof -
  obtain scan where scan: "scan_global_prompt_cache_quota (qp_root policy) excluded (qs_disk state) = Inr scan"
    using assms(3) by (auto simp: enforce_global_prompt_cache_quota_for_commit_def split: sum.splits)
  note inv = enforce_inv [OF assms _ scan]
  obtain size_bytes where size: "committed_size policy state' = Inr size_bytes" "size_bytes \<le> qp_maximum_size_bytes policy"
    using inv(2) by auto
  have "unat (qs_total_size_bytes state') = disk_bytes (walked excluded (qs_disk state'))"
    using inv(1) by (simp add: loop_inv_def Let_def walked_without)
  moreover obtain before where "checked_add (qs_total_size_bytes state') (qp_additional_committed_size_bytes policy) = Some before"
    "size_bytes = saturating_sub before (qp_post_commit_reclaimable_size_bytes policy)"
    using size(1) by (auto simp: committed_size_def committed_size_after_addition_def)
  ultimately show ?thesis using size(2)
    by (simp add: checked_add_Some_iff unat_saturating_sub word_le_nat_alt)
qed

text \<open>C27. Eviction removes whole subtrees: unless the file system itself refuses a removal, a block that is left on
  the disk still has its parent there, if its parent was there before; so no block remains whose sequence-state
  parent the eviction has taken.
\<close>

theorem eviction_leaves_no_orphan:
  assumes "disk_wf (qs_disk state)" "index_on_disk (qs_index state) (qs_disk state)"
    and "enforce_global_prompt_cache_quota_for_commit fails policy excluded state = (state', e)"
    and "\<forall>path. e \<noteq> Some (FileSystemFailure path)"
    and "parent \<in> set (dk_block_directories (walked excluded (qs_disk state)))"
    and "child \<in> set (dk_block_directories (walked excluded (qs_disk state')))"
    and "parent_identity_of child = Some (bd_identity parent)"
  shows "parent \<in> set (dk_block_directories (walked excluded (qs_disk state')))"
proof (cases "scan_global_prompt_cache_quota (qp_root policy) excluded (qs_disk state)")
  case (Inl err)
  then show ?thesis using assms(3,5) by (simp add: enforce_global_prompt_cache_quota_for_commit_def)
next
  case (Inr scan)
  let ?blocks = "dk_block_directories (walked excluded (qs_disk state))" and ?R = "set (qs_removed_eviction_paths state')"
  note inv = enforce_inv(1) [OF assms(1-4) Inr, unfolded loop_inv_def Let_def]
  have left: "dk_block_directories (walked excluded (qs_disk state')) = filter (\<lambda>b. bd_block_directory_path b \<notin> ?R) ?blocks"
    using inv by (simp add: walked_without) (simp add: disk_without_def)
  have child: "child \<in> set ?blocks" "bd_block_directory_path child \<notin> ?R" using assms(6) unfolding left by auto
  have "(bd_identity parent, bd_identity child) \<in> block_edges ?blocks"
    using child(1) assms(7) by (auto simp: block_edges_def)
  then have "child \<in> descendants ?blocks parent" using child(1) by (auto simp: descendants_def)
  then have "bd_block_directory_path parent \<notin> ?R" using inv assms(5) child(2) by blast
  then show ?thesis using assms(5) unfolding left by simp
qed

text \<open>C28. A protected block directory survives the enforcement, whether it reports success or that the maximum
  cannot be met: it stays on the disk, and every block that the index tracks there stays tracked with its files.
\<close>

theorem protected_blocks_survive:
  assumes "disk_wf (qs_disk state)" "index_on_disk (qs_index state) (qs_disk state)"
    and "enforce_global_prompt_cache_quota_for_commit fails policy excluded state = (state', e)"
    and "\<forall>path. e \<noteq> Some (FileSystemFailure path)"
    and "b \<in> set (dk_block_directories (walked excluded (qs_disk state)))"
    and "bd_block_directory_path b \<in> set (qp_protected_block_directory_paths policy)"
  shows "b \<in> set (dk_block_directories (walked excluded (qs_disk state')))
    \<and> (\<forall>(h, tracked) \<in> set (ix_blocks (qs_index state)). tb_block_directory_path tracked = bd_block_directory_path b
         \<longrightarrow> (h, tracked) \<in> set (ix_blocks (qs_index state')))"
proof (cases "scan_global_prompt_cache_quota (qp_root policy) excluded (qs_disk state)")
  case (Inl err)
  then show ?thesis using assms(3,5) by (auto simp: enforce_global_prompt_cache_quota_for_commit_def)
next
  case (Inr scan)
  let ?blocks = "dk_block_directories (walked excluded (qs_disk state))" and ?R = "set (qs_removed_eviction_paths state')"
  note inv = enforce_inv(1) [OF assms(1-4) Inr, unfolded loop_inv_def Let_def]
  have left: "dk_block_directories (walked excluded (qs_disk state')) = filter (\<lambda>b. bd_block_directory_path b \<notin> ?R) ?blocks"
    using inv by (simp add: walked_without) (simp add: disk_without_def)
  have kept: "bd_block_directory_path b \<notin> ?R" using inv assms(5,6) by blast
  have index: "ix_blocks (qs_index state') = filter (\<lambda>(_, b). tb_block_directory_path b \<notin> ?R) (ix_blocks (qs_index state))"
    using inv by blast
  have "b \<in> set (dk_block_directories (walked excluded (qs_disk state')))" using kept assms(5) unfolding left by simp
  moreover have "(h, tracked) \<in> set (ix_blocks (qs_index state'))"
    if "(h, tracked) \<in> set (ix_blocks (qs_index state))" "tb_block_directory_path tracked = bd_block_directory_path b" for h tracked
    using that kept unfolding index by auto
  ultimately show ?thesis by blast
qed

text \<open>A chain of two blocks; the parent's directory was written to after the child was published, as the removal of
  a boundary file does.\<close>

definition example_block :: "byte \<Rightarrow> digest option \<Rightarrow> u64 \<Rightarrow> nat \<Rightarrow> BlockDirectory" where
  "example_block name parent size_bytes modified_at =
     \<lparr>bd_identity = \<lparr>bi_blocks_directory_path = [''blocks''], bi_storage_contract_fingerprint = ''f'', bi_block_hash = [name]\<rparr>,
      bd_parent_block_hash = parent, bd_block_directory_path = [''blocks'', hex_encode [name]],
      bd_file_size_bytes = size_bytes, bd_modified_at = modified_at, bd_tracked_file_paths = []\<rparr>"

definition example_state :: "BlockDirectory list \<Rightarrow> quota_state" where
  "example_state blocks =
     \<lparr>qs_disk = \<lparr>dk_standalone_files = [], dk_stale_directories = [], dk_block_directories = blocks\<rparr>,
      qs_index = \<lparr>ix_blocks = [], ix_visual_embeddings = []\<rparr>, qs_total_size_bytes = 0,
      qs_visual_embedding_total_size_bytes = 0, qs_removed_eviction_paths = [], qs_evidence = evidence_default\<rparr>"

definition example_policy :: "u64 \<Rightarrow> path list \<Rightarrow> quota_policy" where
  "example_policy maximum protected =
     \<lparr>qp_root = [], qp_maximum_size_bytes = maximum, qp_additional_committed_size_bytes = 0,
      qp_post_commit_reclaimable_size_bytes = 0, qp_protected_block_directory_paths = protected,
      qp_should_record_startup_cleanup = False\<rparr>"

definition example_enforce :: "(path \<Rightarrow> bool) \<Rightarrow> u64 \<Rightarrow> path list \<Rightarrow> BlockDirectory list \<Rightarrow> quota_state \<times> DiskStoreError option" where
  "example_enforce fails maximum protected blocks =
     enforce_global_prompt_cache_quota_for_commit fails (example_policy maximum protected) None (example_state blocks)"

text \<open>The overlap rule can leave the ceiling unmet although nothing is protected: a parent whose directory is
  newer than its child's is offered after the child; once the child is gone, the parent's subtree counts as
  already removed because it contained the child, and the parent stays. Here 70 bytes are on the disk, 50 are
  allowed, evicting the whole chain is allowed, and the enforcement stops at 60 with an error.
\<close>

lemma quota_fails_with_evictable_parent:
  "map_prod (dk_block_directories \<circ> qs_disk) id
     (example_enforce (\<lambda>_. False) 50 [] [example_block 1 None 60 5, example_block 2 (Some [1]) 10 3])
   = ([example_block 1 None 60 5], Some (GlobalPromptCacheQuotaNotSatisfied 50 60))"
  by code_simp


text \<open>The directories of a subtree are removed from the root down, so a removal that the file system refuses
  part-way leaves a child on the disk whose parent is gone, although a subtree is meant to leave only whole.
\<close>

lemma interrupted_eviction_orphans_child:
  "map_prod (dk_block_directories \<circ> qs_disk) id
     (example_enforce (\<lambda>path. path = [''blocks'', hex_encode [2]]) 50 []
        [example_block 1 None 60 1, example_block 2 (Some [1]) 10 2])
   = ([example_block 2 (Some [1]) 10 2], Some (FileSystemFailure [''blocks'', hex_encode [2]]))"
  by code_simp

text \<open>Two unrelated blocks of which the older one must go; the younger one has a child that is protected.\<close>

definition example_blocks :: "BlockDirectory list" where
  "example_blocks = [example_block 1 None 60 1, example_block 2 None 10 2, example_block 3 (Some [2]) 20 3]"

definition example_protected :: "path list" where
  "example_protected = [[''blocks'', hex_encode [3]]]"

definition example_after :: quota_state where
  "example_after = fst (example_enforce (\<lambda>_. False) 50 example_protected example_blocks)"

lemma example_names: "hex_encode [1] = ''01''" "hex_encode [2] = ''02''" "hex_encode [3] = ''03''"
  by code_simp+

lemma example_disk: "disk_wf (qs_disk (example_state example_blocks))"
  "index_on_disk (qs_index (example_state example_blocks)) (qs_disk (example_state example_blocks))"
  by (simp_all add: disk_wf_def entry_paths_def example_state_def example_blocks_def example_block_def index_on_disk_def
      example_names)

lemma example_run:
  "enforce_global_prompt_cache_quota_for_commit (\<lambda>_. False) (example_policy 50 example_protected) None (example_state example_blocks)
     = (example_after, None)"
proof -
  have "snd (example_enforce (\<lambda>_. False) 50 example_protected example_blocks) = None" by code_simp
  then show ?thesis by (metis example_after_def example_enforce_def prod.collapse)
qed

lemma example_left:
  "dk_block_directories (walked None (qs_disk example_after)) = [example_block 2 None 10 2, example_block 3 (Some [2]) 20 3]"
  by code_simp

theorem quota_bounds_disk_witness: "disk_bytes (walked None (qs_disk example_after)) \<le> 50"
  using quota_bounds_disk [OF example_disk example_run] by (simp add: example_policy_def)

theorem eviction_leaves_no_orphan_witness:
  "example_block 2 None 10 2 \<in> set (dk_block_directories (walked None (qs_disk example_after)))"
  by (rule eviction_leaves_no_orphan [OF example_disk example_run, where child = "example_block 3 (Some [2]) 20 3"])
    (simp_all add: example_left, simp_all add: walked_def not_excluded_def example_state_def example_blocks_def
      parent_identity_of_def example_block_def)

theorem protected_blocks_survive_witness:
  "example_block 3 (Some [2]) 20 3 \<in> set (dk_block_directories (walked None (qs_disk example_after)))"
  using protected_blocks_survive [OF example_disk example_run, of "example_block 3 (Some [2]) 20 3"]
  by (simp add: walked_def not_excluded_def example_state_def example_blocks_def example_policy_def example_protected_def)
    (simp add: example_block_def)

end
