(* ===== verification/Cache_Store.thy ===== *)
theory Cache_Store
  imports Cache_Quota_Proofs
begin

text \<open>
  Publication into the prompt-cache store: \<^verbatim>\<open>disk_store_write.rs\<close>, \<^verbatim>\<open>disk_store_block_transaction.rs\<close>,
  \<^verbatim>\<open>retention_policy.rs\<close>, \<^verbatim>\<open>disk_store_retention_reconciliation.rs\<close> and the existence checks of
  \<^verbatim>\<open>disk_store.rs\<close>. What a publication asks of the machine and of the tensor library is the record
  \<open>host\<close>: the bytes that saving a file yields, the steps of the file system that may fail, and the clock. A
  staging directory belongs to its transaction and is no entry of the disk; every failure removes it.
\<close>

section \<open>Data\<close>

datatype PublicationOutcome = Published | AlreadyPublished

datatype store_step =
  PrepareDirectories | CreateStaging | SynchronizeStaging | RenameBlock | SynchronizeBlocks
| RemoveParentBoundary | SynchronizeParent | RenameBoundary | RemoveStaging | SynchronizeBlock

record host =
  ho_saved_file_bytes :: "FileKind \<Rightarrow> BlockKey \<Rightarrow> DiskStoreError + u64"
  ho_expected_file_bytes :: "FileKind \<Rightarrow> u32 \<Rightarrow> DiskStoreError + u64"
  ho_manifest_file_bytes :: "BlockKey \<Rightarrow> DiskStoreError + u64"
  ho_maximum_block_manifest_file_bytes :: u64
  ho_step_fails :: "store_step \<Rightarrow> DiskStoreError option"
  ho_removal_fails :: "path \<Rightarrow> bool"
  ho_validate_existing_block :: "BlockKey \<Rightarrow> BlockKey option \<Rightarrow> TrackedBlock \<Rightarrow> DiskStoreError option"
  ho_storage_contract_fingerprint :: string
  ho_now :: nat

record store =
  st_contract :: model_contract
  st_blocks_directory :: path
  st_root_directory :: path
  st_maximum_size_bytes :: u64
  st_total_size_bytes :: u64
  st_visual_embedding_total_size_bytes :: u64
  st_index :: DiskStoreIndex
  st_disk :: cache_disk
  st_startup_cleanup_evidence :: "CleanupEvidence option"

record StagedBlockFiles =
  sb_sequence_state_file :: "u64 option"
  sb_boundary_state_file :: "u64 option"
  sb_total_size_bytes :: u64

record ParentBoundaryReclaim =
  rc_block_hash :: digest
  rc_block_directory_path :: path
  rc_file_path :: path
  rc_file_size_bytes :: u64

definition SEQUENCE_STATE_FILE_NAME :: string where
  "SEQUENCE_STATE_FILE_NAME = ''sequence_state.safetensors''"

definition BOUNDARY_STATE_FILE_NAME :: string where
  "BOUNDARY_STATE_FILE_NAME = ''boundary_state.safetensors''"

definition BLOCK_MANIFEST_FILE_NAME :: string where
  "BLOCK_MANIFEST_FILE_NAME = ''manifest.json''"

section \<open>Small operations\<close>

text \<open>\<^verbatim>\<open>persistent_prompt_cache_boundary_is_common_prefix_checkpoint\<close>; a multiple of zero is zero.\<close>

definition boundary_is_common_prefix_checkpoint :: "u32 \<Rightarrow> u32 \<Rightarrow> bool" where
  "boundary_is_common_prefix_checkpoint block_index stride_blocks \<longleftrightarrow>
     block_index = 0 \<or> saturating_add block_index 1 mod stride_blocks = 0"

definition block_directory :: "store \<Rightarrow> digest \<Rightarrow> path" where
  "block_directory self block_hash = st_blocks_directory self @ [hex_encode block_hash]"

definition validate_state_kind_tensor_presence :: "string \<Rightarrow> bool \<Rightarrow> nat \<Rightarrow> DiskStoreError + unit" where
  "validate_state_kind_tensor_presence state_kind expected_present actual_tensor_count =
     (if expected_present = (0 < actual_tensor_count) then Inr ()
      else Inl (StateKindTensorPresenceMismatch state_kind expected_present actual_tensor_count))"

definition validate_requested_block_ancestry :: "BlockKey \<Rightarrow> BlockKey option \<Rightarrow> DiskStoreError + unit" where
  "validate_requested_block_ancestry block_key parent_block_key =
     (let ancestry_is_valid =
            (case parent_block_key of
               None \<Rightarrow> bk_block_index block_key = 0
             | Some parent \<Rightarrow> bk_block_index block_key \<noteq> 0
                 \<and> checked_add (bk_block_index parent) 1 = Some (bk_block_index block_key))
      in if ancestry_is_valid then Inr () else Inl (InvalidRequestedBlockAncestry (bk_block_index block_key)))"

definition record_startup_cleanup_evidence :: "CleanupEvidence \<Rightarrow> store \<Rightarrow> store" where
  "record_startup_cleanup_evidence additional_evidence self =
     (if evidence_is_empty additional_evidence then self
      else self\<lparr>st_startup_cleanup_evidence :=
             Some (case st_startup_cleanup_evidence self of
                     None \<Rightarrow> additional_evidence
                   | Some existing \<Rightarrow> evidence_merge existing additional_evidence)\<rparr>)"

definition refresh_global_prompt_cache_accounting :: "store \<Rightarrow> store \<times> DiskStoreError option" where
  "refresh_global_prompt_cache_accounting self =
     (case scan_global_prompt_cache_quota (st_root_directory self) None (st_disk self) of
        Inl e \<Rightarrow> (self, Some e)
      | Inr scan \<Rightarrow> (self\<lparr>st_total_size_bytes := sc_total_size_bytes scan,
                            st_visual_embedding_total_size_bytes := sc_visual_embedding_total_size_bytes scan\<rparr>, None))"

text \<open>The enforcement of the ceiling, on the disk, the index and the counters of the store.\<close>

definition enforce_store_quota ::
    "host \<Rightarrow> u64 \<Rightarrow> u64 \<Rightarrow> path list \<Rightarrow> path option \<Rightarrow> bool \<Rightarrow> store \<Rightarrow> store \<times> DiskStoreError option" where
  "enforce_store_quota host additional reclaimable protected excluded should_record self =
     (case enforce_global_prompt_cache_quota_for_commit (ho_removal_fails host)
             \<lparr>qp_root = st_root_directory self, qp_maximum_size_bytes = st_maximum_size_bytes self,
              qp_additional_committed_size_bytes = additional, qp_post_commit_reclaimable_size_bytes = reclaimable,
              qp_protected_block_directory_paths = protected, qp_should_record_startup_cleanup = should_record\<rparr>
             excluded
             \<lparr>qs_disk = st_disk self, qs_index = st_index self, qs_total_size_bytes = st_total_size_bytes self,
              qs_visual_embedding_total_size_bytes = st_visual_embedding_total_size_bytes self,
              qs_removed_eviction_paths = [], qs_evidence = evidence_default\<rparr> of
        (state, e) \<Rightarrow>
          (let self' = self\<lparr>st_disk := qs_disk state, st_index := qs_index state,
                 st_total_size_bytes := qs_total_size_bytes state,
                 st_visual_embedding_total_size_bytes := qs_visual_embedding_total_size_bytes state\<rparr>
           in (if e = None \<and> should_record then record_startup_cleanup_evidence (qs_evidence state) self' else self', e)))"

section \<open>One transaction\<close>

definition stage_state_file :: "host \<Rightarrow> FileKind \<Rightarrow> bool \<Rightarrow> BlockKey \<Rightarrow> path \<Rightarrow> DiskStoreError + u64 option" where
  "stage_state_file host kind present block_key file_path =
     (if \<not> present then Inr None
      else result_bind (ho_saved_file_bytes host kind block_key)
        (\<lambda>written. result_bind (ho_expected_file_bytes host kind (bk_token_count block_key))
          (\<lambda>expected. if written = expected then Inr (Some written)
                       else Inl (WrittenFileSizeMismatch file_path expected written))))"

definition or_zero :: "u64 option \<Rightarrow> u64" where
  "or_zero file_bytes = (case file_bytes of None \<Rightarrow> 0 | Some bytes \<Rightarrow> bytes)"

definition stage_complete_block :: "host \<Rightarrow> store \<Rightarrow> BlockKey \<Rightarrow> path \<Rightarrow> DiskStoreError + StagedBlockFiles" where
  "stage_complete_block host self block_key staging_directory =
     result_bind (stage_state_file host SequenceStateBlock (mc_has_sequence_state (st_contract self)) block_key
         (staging_directory @ [SEQUENCE_STATE_FILE_NAME]))
       (\<lambda>sequence_state_file.
          result_bind (stage_state_file host BoundaryStateSnapshot (mc_has_boundary_state (st_contract self)) block_key
              (staging_directory @ [BOUNDARY_STATE_FILE_NAME]))
            (\<lambda>boundary_state_file.
               result_bind (ho_manifest_file_bytes host block_key)
                 (\<lambda>manifest_file_size_bytes.
                    if ho_maximum_block_manifest_file_bytes host < manifest_file_size_bytes
                    then Inl (SizeBoundExceeded (ho_maximum_block_manifest_file_bytes host) manifest_file_size_bytes)
                    else result_bind
                      (ok_or (Option.bind (checked_add (or_zero sequence_state_file) (or_zero boundary_state_file))
                           (\<lambda>state_size_bytes. checked_add state_size_bytes manifest_file_size_bytes))
                        (GlobalPromptCacheSizeOverflow staging_directory))
                      (\<lambda>total_size_bytes.
                         if st_maximum_size_bytes self < total_size_bytes
                         then Inl (SizeBoundExceeded (st_maximum_size_bytes self) total_size_bytes)
                         else Inr \<lparr>sb_sequence_state_file = sequence_state_file,
                                   sb_boundary_state_file = boundary_state_file,
                                   sb_total_size_bytes = total_size_bytes\<rparr>))))"

definition parent_boundary_reclaim_after_commit :: "store \<Rightarrow> BlockKey option \<Rightarrow> u64 \<Rightarrow> ParentBoundaryReclaim option" where
  "parent_boundary_reclaim_after_commit self parent_block_key child_size_bytes =
     (if \<not> mc_has_sequence_state (st_contract self) \<or> \<not> mc_has_boundary_state (st_contract self) then None
      else Option.bind parent_block_key (\<lambda>parent.
        if boundary_is_common_prefix_checkpoint (bk_block_index parent)
             (mc_common_prefix_checkpoint_stride_blocks (st_contract self))
           \<or> saturating_add (st_total_size_bytes self) child_size_bytes \<le> st_maximum_size_bytes self
        then None
        else Option.bind (index_block (st_index self) (bk_block_hash parent)) (\<lambda>parent_block.
          map_option (\<lambda>parent_boundary_file.
              \<lparr>rc_block_hash = bk_block_hash parent, rc_block_directory_path = tb_block_directory_path parent_block,
               rc_file_path = tf_file_path parent_boundary_file,
               rc_file_size_bytes = tf_file_size_bytes parent_boundary_file\<rparr>)
            (tb_boundary_state_file parent_block))))"

definition protected_ancestry_for_commit :: "store \<Rightarrow> BlockKey option \<Rightarrow> path list" where
  "protected_ancestry_for_commit self parent_block_key =
     (case parent_block_key of
        None \<Rightarrow> []
      | Some parent \<Rightarrow> protected_ancestry_directory_paths (st_index self) (bk_block_hash parent))"

definition step :: "host \<Rightarrow> store_step \<Rightarrow> DiskStoreError + unit" where
  "step host s = (case ho_step_fails host s of None \<Rightarrow> Inr () | Some e \<Rightarrow> Inl e)"

text \<open>Staging, admission under the ceiling, and the refusal of a directory that is already there.\<close>

definition stage_and_admit_block ::
    "host \<Rightarrow> BlockKey \<Rightarrow> BlockKey option \<Rightarrow> path \<Rightarrow> path \<Rightarrow> store \<Rightarrow> store \<times> (DiskStoreError + StagedBlockFiles)" where
  "stage_and_admit_block host block_key parent_block_key staging_directory final_directory self =
     (case result_bind (step host CreateStaging)
             (\<lambda>_. result_bind (stage_complete_block host self block_key staging_directory)
               (\<lambda>staged. result_bind (step host SynchronizeStaging) (\<lambda>_. Inr staged))) of
        Inl e \<Rightarrow> (self, Inl e)
      | Inr staged \<Rightarrow>
          (case enforce_store_quota host (sb_total_size_bytes staged)
                  (case parent_boundary_reclaim_after_commit self parent_block_key (sb_total_size_bytes staged) of
                     None \<Rightarrow> 0 | Some reclaim \<Rightarrow> rc_file_size_bytes reclaim)
                  (protected_ancestry_for_commit self parent_block_key @ [final_directory])
                  (Some staging_directory) False self of
             (self', Some e) \<Rightarrow> (self', Inl e)
           | (self', None) \<Rightarrow>
               if final_directory \<in> set (entry_paths (st_disk self'))
               then (self', Inl (ExistingBlockTopologyMismatch (bk_block_hash block_key)))
               else (self', Inr staged)))"

definition tracked_file_in :: "path \<Rightarrow> string \<Rightarrow> u64 \<Rightarrow> TrackedFile" where
  "tracked_file_in directory_path file_name file_size_bytes =
     \<lparr>tf_file_path = directory_path @ [file_name], tf_file_size_bytes = file_size_bytes\<rparr>"

definition track_committed_block :: "BlockKey \<Rightarrow> BlockKey option \<Rightarrow> path \<Rightarrow> StagedBlockFiles \<Rightarrow> store \<Rightarrow> store" where
  "track_committed_block block_key parent_block_key final_directory staged self =
     self\<lparr>st_index := insert_block (bk_block_hash block_key)
            \<lparr>tb_block_directory_path = final_directory, tb_block_index = bk_block_index block_key,
             tb_parent_block_hash = map_option bk_block_hash parent_block_key,
             tb_sequence_state_file =
               map_option (tracked_file_in final_directory SEQUENCE_STATE_FILE_NAME) (sb_sequence_state_file staged),
             tb_boundary_state_file =
               map_option (tracked_file_in final_directory BOUNDARY_STATE_FILE_NAME) (sb_boundary_state_file staged)\<rparr>
            (st_index self)\<rparr>"

text \<open>What the rename of the staging directory puts on the disk.\<close>

definition committed_directory :: "host \<Rightarrow> BlockKey \<Rightarrow> BlockKey option \<Rightarrow> path \<Rightarrow> StagedBlockFiles \<Rightarrow> store \<Rightarrow> BlockDirectory" where
  "committed_directory host block_key parent_block_key final_directory staged self =
     \<lparr>bd_identity = \<lparr>bi_blocks_directory_path = st_blocks_directory self,
        bi_storage_contract_fingerprint = ho_storage_contract_fingerprint host, bi_block_hash = bk_block_hash block_key\<rparr>,
      bd_parent_block_hash = map_option bk_block_hash parent_block_key, bd_block_directory_path = final_directory,
      bd_file_size_bytes = sb_total_size_bytes staged, bd_modified_at = ho_now host,
      bd_tracked_file_paths =
        (if sb_sequence_state_file staged = None then [] else [final_directory @ [SEQUENCE_STATE_FILE_NAME]])
        @ (if sb_boundary_state_file staged = None then [] else [final_directory @ [BOUNDARY_STATE_FILE_NAME]])
        @ [final_directory @ [BLOCK_MANIFEST_FILE_NAME]]\<rparr>"

definition commit_and_publish_block ::
    "host \<Rightarrow> BlockKey \<Rightarrow> BlockKey option \<Rightarrow> path \<Rightarrow> StagedBlockFiles \<Rightarrow> store \<Rightarrow> store \<times> DiskStoreError option" where
  "commit_and_publish_block host block_key parent_block_key final_directory staged self =
     (case step host RenameBlock of
        Inl e \<Rightarrow> (self, Some e)
      | Inr _ \<Rightarrow>
          (let self' = self\<lparr>st_disk := (st_disk self)\<lparr>dk_block_directories :=
                 dk_block_directories (st_disk self)
                 @ [committed_directory host block_key parent_block_key final_directory staged self]\<rparr>\<rparr>
           in case step host SynchronizeBlocks of
                Inl e \<Rightarrow> (self', Some e)
              | Inr _ \<Rightarrow> (track_committed_block block_key parent_block_key final_directory staged self', None)))"

text \<open>The removal of one state file of a block directory, which writes to the directory.\<close>

definition disk_without_block_file :: "host \<Rightarrow> path \<Rightarrow> path \<Rightarrow> u64 \<Rightarrow> cache_disk \<Rightarrow> cache_disk" where
  "disk_without_block_file host directory_path file_path file_size_bytes disk =
     disk\<lparr>dk_block_directories := map (\<lambda>b.
        if bd_block_directory_path b = directory_path \<and> file_path \<in> set (bd_tracked_file_paths b)
        then b\<lparr>bd_file_size_bytes := bd_file_size_bytes b - file_size_bytes, bd_modified_at := ho_now host,
               bd_tracked_file_paths := removeAll file_path (bd_tracked_file_paths b)\<rparr>
        else b) (dk_block_directories disk)\<rparr>"

definition reclaim_parent_boundary :: "host \<Rightarrow> ParentBoundaryReclaim option \<Rightarrow> store \<Rightarrow> store \<times> DiskStoreError option" where
  "reclaim_parent_boundary host parent_boundary_reclaim self =
     (case parent_boundary_reclaim of
        None \<Rightarrow> (self, None)
      | Some reclaim \<Rightarrow>
          (case step host RemoveParentBoundary of
             Inl e \<Rightarrow> (self, Some e)
           | Inr _ \<Rightarrow>
               (let self' = self\<lparr>st_disk := disk_without_block_file host (rc_block_directory_path reclaim)
                      (rc_file_path reclaim) (rc_file_size_bytes reclaim) (st_disk self)\<rparr>
                in case step host SynchronizeParent of
                     Inl e \<Rightarrow> (self', Some e)
                   | Inr _ \<Rightarrow> (self'\<lparr>st_index := snd (remove_file BoundaryStateSnapshot (rc_block_hash reclaim) (st_index self'))\<rparr>,
                              None))))"

definition publish_new_block_transaction ::
    "host \<Rightarrow> BlockKey \<Rightarrow> BlockKey option \<Rightarrow> path \<Rightarrow> store \<Rightarrow> store \<times> DiskStoreError option" where
  "publish_new_block_transaction host block_key parent_block_key staging_directory self =
     (let final_directory = block_directory self (bk_block_hash block_key)
      in case stage_and_admit_block host block_key parent_block_key staging_directory final_directory self of
           (self1, Inl e) \<Rightarrow> (self1, Some e)
         | (self1, Inr staged) \<Rightarrow>
             (let reclaim = parent_boundary_reclaim_after_commit self1 parent_block_key (sb_total_size_bytes staged)
              in case commit_and_publish_block host block_key parent_block_key final_directory staged self1 of
                   (self2, Some e) \<Rightarrow> (self2, Some e)
                 | (self2, None) \<Rightarrow>
                     (case reclaim_parent_boundary host reclaim self2 of
                        (self3, Some e) \<Rightarrow> (self3, Some e)
                      | (self3, None) \<Rightarrow> refresh_global_prompt_cache_accounting self3)))"


text \<open>The restoration of a boundary that retention removed, inside a committed block.\<close>

definition disk_with_block_file :: "host \<Rightarrow> path \<Rightarrow> path \<Rightarrow> u64 \<Rightarrow> cache_disk \<Rightarrow> cache_disk" where
  "disk_with_block_file host directory_path file_path file_size_bytes disk =
     disk\<lparr>dk_block_directories := map (\<lambda>b.
        if bd_block_directory_path b = directory_path
        then b\<lparr>bd_file_size_bytes := bd_file_size_bytes b + file_size_bytes, bd_modified_at := ho_now host,
               bd_tracked_file_paths := bd_tracked_file_paths b @ [file_path]\<rparr>
        else b) (dk_block_directories disk)\<rparr>"

definition publish_missing_boundary_state_transaction ::
    "host \<Rightarrow> BlockKey \<Rightarrow> path \<Rightarrow> store \<Rightarrow> store \<times> DiskStoreError option" where
  "publish_missing_boundary_state_transaction host block_key staging_directory self =
     (let block_hash = bk_block_hash block_key
      in case index_block (st_index self) block_hash of
           None \<Rightarrow> (self, Some (ExistingBlockTopologyMismatch block_hash))
         | Some existing_block \<Rightarrow>
             (case result_bind (step host CreateStaging)
                     (\<lambda>_. result_bind (stage_state_file host BoundaryStateSnapshot True block_key
                           (staging_directory @ [BOUNDARY_STATE_FILE_NAME]))
                       (\<lambda>staged. result_bind (step host SynchronizeStaging) (\<lambda>_. Inr (or_zero staged)))) of
                Inl e \<Rightarrow> (self, Some e)
              | Inr file_size_bytes \<Rightarrow>
                  (case enforce_store_quota host file_size_bytes 0
                          (protected_ancestry_directory_paths (st_index self) block_hash) (Some staging_directory) False self of
                     (self1, Some e) \<Rightarrow> (self1, Some e)
                   | (self1, None) \<Rightarrow>
                       (let final_path = tb_block_directory_path existing_block @ [BOUNDARY_STATE_FILE_NAME]
                        in case step host RenameBoundary of
                             Inl e \<Rightarrow> (self1, Some e)
                           | Inr _ \<Rightarrow>
                               (let self2 = self1\<lparr>st_disk := disk_with_block_file host
                                      (tb_block_directory_path existing_block) final_path file_size_bytes (st_disk self1)\<rparr>
                                in case result_bind (step host RemoveStaging)
                                          (\<lambda>_. result_bind (step host SynchronizeBlock) (\<lambda>_. step host SynchronizeBlocks)) of
                                     Inl e \<Rightarrow> (self2, Some e)
                                   | Inr _ \<Rightarrow>
                                       refresh_global_prompt_cache_accounting
                                         (self2\<lparr>st_index := insert_file BoundaryStateSnapshot block_hash
                                            \<lparr>tf_file_path = final_path, tf_file_size_bytes = file_size_bytes\<rparr>
                                            (st_index self2)\<rparr>))))))"

section \<open>Publication\<close>

definition is_superseded_sibling :: "BlockKey \<Rightarrow> BlockKey option \<Rightarrow> u64 \<Rightarrow> digest \<times> TrackedBlock \<Rightarrow> bool" where
  "is_superseded_sibling block_key parent_block_key new_tail_size_bytes sibling =
     (case sibling of (sibling_hash, tracked_sibling) \<Rightarrow>
        sibling_hash \<noteq> bk_block_hash block_key
        \<and> tb_block_index tracked_sibling = bk_block_index block_key
        \<and> tb_parent_block_hash tracked_sibling = map_option bk_block_hash parent_block_key
        \<and> (case tb_sequence_state_file tracked_sibling of
             None \<Rightarrow> False
           | Some sequence_state_file \<Rightarrow> tf_file_size_bytes sequence_state_file < new_tail_size_bytes))"

definition supersede_shorter_partial_tail_siblings ::
    "host \<Rightarrow> BlockKey \<Rightarrow> BlockKey option \<Rightarrow> store \<Rightarrow> store \<times> DiskStoreError option" where
  "supersede_shorter_partial_tail_siblings host block_key parent_block_key self =
     (if \<not> mc_has_sequence_state (st_contract self)
         \<or> mc_block_token_count (st_contract self) \<le> unat (bk_token_count block_key)
      then (self, None)
      else case ho_expected_file_bytes host SequenceStateBlock (bk_token_count block_key) of
             Inl e \<Rightarrow> (self, Some e)
           | Inr new_tail_size_bytes \<Rightarrow>
               (let superseded = map (tb_block_directory_path \<circ> snd)
                      (filter (is_superseded_sibling block_key parent_block_key new_tail_size_bytes)
                         (tracked_blocks (st_index self)))
                in if superseded = [] then (self, None)
                   else case remove_directories (ho_removal_fails host) superseded (st_disk self) of
                          (disk', Some e) \<Rightarrow> (self\<lparr>st_disk := disk'\<rparr>, Some e)
                        | (disk', None) \<Rightarrow>
                            refresh_global_prompt_cache_accounting
                              (self\<lparr>st_disk := disk',
                                    st_index := remove_blocks_by_directory_paths superseded (st_index self)\<rparr>)))"

definition directory_is_present :: "store \<Rightarrow> path \<Rightarrow> bool" where
  "directory_is_present self directory_path \<longleftrightarrow>
     directory_path \<in> bd_block_directory_path ` set (dk_block_directories (st_disk self))"

text \<open>What to do with a block that the index already tracks.\<close>

definition publish_existing_block ::
    "host \<Rightarrow> BlockKey \<Rightarrow> BlockKey option \<Rightarrow> path \<Rightarrow> TrackedBlock \<Rightarrow> store \<Rightarrow> store \<times> (DiskStoreError + PublicationOutcome)" where
  "publish_existing_block host block_key parent_block_key staging_directory existing_block self =
     (case ho_validate_existing_block host block_key parent_block_key existing_block of
        Some e \<Rightarrow> (self, Inl e)
      | None \<Rightarrow>
          if tb_block_index existing_block \<noteq> bk_block_index block_key
             \<or> tb_parent_block_hash existing_block \<noteq> map_option bk_block_hash parent_block_key
          then (self, Inl (ExistingBlockTopologyMismatch (bk_block_hash block_key)))
          else let sequence_state_is_complete =
                     (\<not> mc_has_sequence_state (st_contract self) \<or> tb_sequence_state_file existing_block \<noteq> None);
                   boundary_state_is_complete =
                     (\<not> mc_has_boundary_state (st_contract self) \<or> tb_boundary_state_file existing_block \<noteq> None)
               in if sequence_state_is_complete \<and> boundary_state_is_complete then (self, Inr AlreadyPublished)
                  else if \<not> sequence_state_is_complete
                  then (self, Inl (ExistingBlockTopologyMismatch (bk_block_hash block_key)))
                  else case publish_missing_boundary_state_transaction host block_key staging_directory self of
                         (self', Some e) \<Rightarrow> (self', Inl e)
                       | (self', None) \<Rightarrow> (self', Inr Published))"

definition publish_new_block ::
    "host \<Rightarrow> BlockKey \<Rightarrow> BlockKey option \<Rightarrow> path \<Rightarrow> store \<Rightarrow> store \<times> (DiskStoreError + PublicationOutcome)" where
  "publish_new_block host block_key parent_block_key staging_directory self =
     (if (case parent_block_key of
            None \<Rightarrow> False
          | Some parent \<Rightarrow> index_block (st_index self) (bk_block_hash parent) = None)
      then (self, Inl (ParentStateNotPublished (bk_block_index block_key)))
      else case publish_new_block_transaction host block_key parent_block_key staging_directory self of
             (self1, Some e) \<Rightarrow> (self1, Inl e)
           | (self1, None) \<Rightarrow>
               (case supersede_shorter_partial_tail_siblings host block_key parent_block_key self1 of
                  (self2, Some e) \<Rightarrow> (self2, Inl e)
                | (self2, None) \<Rightarrow> (self2, Inr Published)))"

definition publish_block ::
    "host \<Rightarrow> BlockKey \<Rightarrow> BlockKey option \<Rightarrow> nat \<Rightarrow> nat \<Rightarrow> path \<Rightarrow> store \<Rightarrow> store \<times> (DiskStoreError + PublicationOutcome)" where
  "publish_block host block_key parent_block_key sequence_tensor_count boundary_tensor_count staging_directory self =
     (case result_bind (step host PrepareDirectories)
             (\<lambda>_. result_bind (validate_state_kind_tensor_presence ''sequence''
                   (mc_has_sequence_state (st_contract self)) sequence_tensor_count)
               (\<lambda>_. result_bind (validate_state_kind_tensor_presence ''boundary''
                     (mc_has_boundary_state (st_contract self)) boundary_tensor_count)
                 (\<lambda>_. validate_requested_block_ancestry block_key parent_block_key))) of
        Inl e \<Rightarrow> (self, Inl e)
      | Inr _ \<Rightarrow>
          (case index_block (st_index self) (bk_block_hash block_key) of
             None \<Rightarrow> publish_new_block host block_key parent_block_key staging_directory self
           | Some existing_block \<Rightarrow>
               if directory_is_present self (tb_block_directory_path existing_block)
               then publish_existing_block host block_key parent_block_key staging_directory existing_block self
               else case refresh_global_prompt_cache_accounting
                           (self\<lparr>st_index := remove_block (bk_block_hash block_key) (st_index self)\<rparr>) of
                      (self', Some e) \<Rightarrow> (self', Inl e)
                    | (self', None) \<Rightarrow> publish_new_block host block_key parent_block_key staging_directory self'))"

section \<open>Existence checks\<close>

definition file_is_present :: "store \<Rightarrow> path \<Rightarrow> bool" where
  "file_is_present self file_path \<longleftrightarrow>
     list_ex (\<lambda>b. file_path \<in> set (bd_tracked_file_paths b)) (dk_block_directories (st_disk self))
     \<or> file_path \<in> gf_file_path ` set (dk_standalone_files (st_disk self))"

definition untrack_file_and_subtract_global_accounting :: "FileKind \<Rightarrow> digest \<Rightarrow> store \<Rightarrow> store" where
  "untrack_file_and_subtract_global_accounting kind file_hash self =
     (case remove_file kind file_hash (st_index self) of
        (None, _) \<Rightarrow> self
      | (Some removed, index') \<Rightarrow>
          self\<lparr>st_index := index',
               st_total_size_bytes := saturating_sub (st_total_size_bytes self) (tf_file_size_bytes removed),
               st_visual_embedding_total_size_bytes :=
                 (if kind = VisualEmbedding
                  then saturating_sub (st_visual_embedding_total_size_bytes self) (tf_file_size_bytes removed)
                  else st_visual_embedding_total_size_bytes self)\<rparr>)"

text \<open>The answer, and the store that has dropped an entry whose file is gone.\<close>

definition tracked_file_still_exists :: "FileKind \<Rightarrow> digest \<Rightarrow> store \<Rightarrow> store \<times> bool" where
  "tracked_file_still_exists kind file_hash self =
     (case index_file (st_index self) kind file_hash of
        None \<Rightarrow> (self, False)
      | Some tracked_file \<Rightarrow>
          if file_is_present self (tf_file_path tracked_file) then (self, True)
          else (untrack_file_and_subtract_global_accounting kind file_hash self, False))"

text \<open>The two answers the lookup asks for. The code drops an entry whose file is gone as it answers; the lookup reads the
  store through these tests, and the entry it would drop answers no either way.\<close>

definition has_kv_block :: "store \<Rightarrow> digest \<Rightarrow> bool" where
  "has_kv_block self block_hash = snd (tracked_file_still_exists SequenceStateBlock block_hash self)"

definition has_recurrent_snapshot :: "store \<Rightarrow> digest \<Rightarrow> bool" where
  "has_recurrent_snapshot self block_hash = snd (tracked_file_still_exists BoundaryStateSnapshot block_hash self)"

section \<open>Startup reconciliation\<close>

record StartupBoundaryReclaimCandidate =
  sr_block_hash :: digest
  sr_block_directory_path :: path
  sr_boundary_file_path :: path
  sr_boundary_file_size_bytes :: u64
  sr_modified_at :: nat

definition reclaimable_boundaries :: "(path \<Rightarrow> nat) \<Rightarrow> store \<Rightarrow> StartupBoundaryReclaimCandidate list" where
  "reclaimable_boundaries modified_at self =
     (let blocks = tracked_blocks (st_index self);
          hashes_with_children = List.map_filter (\<lambda>(_, b). tb_parent_block_hash b) blocks
      in List.map_filter (\<lambda>(block_hash, b).
           case tb_boundary_state_file b of
             None \<Rightarrow> None
           | Some boundary \<Rightarrow>
               if block_hash \<notin> set hashes_with_children
                  \<or> boundary_is_common_prefix_checkpoint (tb_block_index b)
                      (mc_common_prefix_checkpoint_stride_blocks (st_contract self))
               then None
               else Some \<lparr>sr_block_hash = block_hash, sr_block_directory_path = tb_block_directory_path b,
                          sr_boundary_file_path = tf_file_path boundary,
                          sr_boundary_file_size_bytes = tf_file_size_bytes boundary,
                          sr_modified_at = modified_at (tf_file_path boundary)\<rparr>) blocks)"

definition boundary_reclaim_order :: "StartupBoundaryReclaimCandidate \<Rightarrow> StartupBoundaryReclaimCandidate \<Rightarrow> ordering" where
  "boundary_reclaim_order left right =
     then_with (cmp_of (sr_modified_at left) (sr_modified_at right))
       (cmp_of (sr_boundary_file_path left) (sr_boundary_file_path right))"

fun reclaim_boundaries ::
    "host \<Rightarrow> StartupBoundaryReclaimCandidate list \<Rightarrow> u64 \<Rightarrow> CleanupEvidence \<Rightarrow> store
     \<Rightarrow> store \<times> (DiskStoreError + CleanupEvidence)" where
  "reclaim_boundaries host [] committed_size_bytes evidence self = (self, Inr evidence)"
| "reclaim_boundaries host (c # cs) committed_size_bytes evidence self =
     (if committed_size_bytes \<le> st_maximum_size_bytes self then (self, Inr evidence)
      else if ho_removal_fails host (sr_boundary_file_path c)
      then (self, Inl (FileSystemFailure (sr_boundary_file_path c)))
      else let self' = self\<lparr>st_disk := disk_without_block_file host (sr_block_directory_path c) (sr_boundary_file_path c)
                 (sr_boundary_file_size_bytes c) (st_disk self)\<rparr>
           in case step host SynchronizeParent of
                Inl e \<Rightarrow> (self', Inl e)
              | Inr _ \<Rightarrow>
                  reclaim_boundaries host cs (saturating_sub committed_size_bytes (sr_boundary_file_size_bytes c))
                    (evidence\<lparr>ce_interrupted_transaction_recovery :=
                       record_artifact (sr_boundary_file_size_bytes c) (ce_interrupted_transaction_recovery evidence)\<rparr>)
                    (self'\<lparr>st_index := snd (remove_file BoundaryStateSnapshot (sr_block_hash c) (st_index self'))\<rparr>))"

definition compact_active_model_parent_boundaries_for_startup_quota ::
    "host \<Rightarrow> (path \<Rightarrow> nat) \<Rightarrow> store \<Rightarrow> store \<times> DiskStoreError option" where
  "compact_active_model_parent_boundaries_for_startup_quota host modified_at self =
     (if \<not> mc_has_sequence_state (st_contract self) \<or> \<not> mc_has_boundary_state (st_contract self)
         \<or> st_total_size_bytes self \<le> st_maximum_size_bytes self
      then (self, None)
      else case reclaim_boundaries host (sort_by boundary_reclaim_order (reclaimable_boundaries modified_at self))
                  (st_total_size_bytes self) evidence_default self of
             (self', Inl e) \<Rightarrow> (self', Some e)
           | (self', Inr evidence) \<Rightarrow>
               refresh_global_prompt_cache_accounting (record_startup_cleanup_evidence evidence self'))"

definition enforce_startup_global_prompt_cache_quota :: "host \<Rightarrow> path list \<Rightarrow> store \<Rightarrow> store \<times> DiskStoreError option" where
  "enforce_startup_global_prompt_cache_quota host protected self = enforce_store_quota host 0 0 protected None True self"

definition reconcile_startup_retention_and_global_quota ::
    "host \<Rightarrow> (path \<Rightarrow> nat) \<Rightarrow> store \<Rightarrow> store \<times> DiskStoreError option" where
  "reconcile_startup_retention_and_global_quota host modified_at self =
     (let protected = map (tb_block_directory_path \<circ> snd) (tracked_blocks (st_index self))
      in case enforce_startup_global_prompt_cache_quota host protected self of
           (self1, None) \<Rightarrow> (self1, None)
         | (self1, Some (GlobalPromptCacheQuotaNotSatisfied maximum remaining)) \<Rightarrow>
             (case compact_active_model_parent_boundaries_for_startup_quota host modified_at self1 of
                (self2, Some e) \<Rightarrow> (self2, Some e)
              | (self2, None) \<Rightarrow> enforce_startup_global_prompt_cache_quota host protected self2)
         | (self1, Some e) \<Rightarrow> (self1, Some e))"

end
