(* ===== verification/Cache_Store_Proofs.thy ===== *)
theory Cache_Store_Proofs
  imports Cache_Store
begin

text \<open>
  What a publication into the prompt-cache store guarantees: a well-formedness invariant that ties the index
  to the disk, its preservation, durability of what was reported as published, closure of the index under
  ancestry, and what the removal of a redundant parent boundary costs.
\<close>

section \<open>The index describes the disk\<close>

definition block_on_disk :: "host \<Rightarrow> store \<Rightarrow> digest \<Rightarrow> TrackedBlock \<Rightarrow> BlockDirectory \<Rightarrow> bool" where
  "block_on_disk host self h b d \<longleftrightarrow>
     tb_block_directory_path b = block_directory self h
     \<and> bd_block_directory_path d = tb_block_directory_path b \<and> bd_parent_block_hash d = tb_parent_block_hash b
     \<and> bi_storage_contract_fingerprint (bd_identity d) = ho_storage_contract_fingerprint host
     \<and> (\<forall>f. tb_sequence_state_file b = Some f \<longrightarrow> tf_file_path f = tb_block_directory_path b @ [SEQUENCE_STATE_FILE_NAME]
          \<and> tf_file_path f \<in> set (bd_tracked_file_paths d))
     \<and> (\<forall>f. tb_boundary_state_file b = Some f \<longrightarrow> tf_file_path f = tb_block_directory_path b @ [BOUNDARY_STATE_FILE_NAME]
          \<and> tf_file_path f \<in> set (bd_tracked_file_paths d))"

definition store_wf :: "host \<Rightarrow> store \<Rightarrow> bool" where
  "store_wf host self \<longleftrightarrow>
     disk_wf (st_disk self)
     \<and> (\<forall>f \<in> set (dk_standalone_files (st_disk self)). \<forall>h. butlast (gf_file_path f) \<noteq> block_directory self h)
     \<and> distinct (map fst (ix_blocks (st_index self)))
     \<and> (\<forall>(h, b) \<in> set (ix_blocks (st_index self)). \<exists>d \<in> set (dk_block_directories (st_disk self)). block_on_disk host self h b d)"

definition index_closed :: "store \<Rightarrow> bool" where
  "index_closed self \<longleftrightarrow>
     (\<forall>(h, b) \<in> set (ix_blocks (st_index self)). \<forall>p. tb_parent_block_hash b = Some p \<longrightarrow> index_block (st_index self) p \<noteq> None)"

text \<open>The fields of the store that no publication changes.\<close>

definition same_frame :: "store \<Rightarrow> store \<Rightarrow> bool" where
  "same_frame self self' \<longleftrightarrow>
     st_contract self' = st_contract self \<and> st_blocks_directory self' = st_blocks_directory self
     \<and> st_root_directory self' = st_root_directory self \<and> st_maximum_size_bytes self' = st_maximum_size_bytes self"

lemma same_frame_directory: "same_frame self self' \<Longrightarrow> block_directory self' h = block_directory self h"
  by (simp add: same_frame_def block_directory_def)

lemma block_directory_inj: "block_directory self h = block_directory self h' \<longleftrightarrow> h = h'"
  using hex_encode_inj by (auto simp: block_directory_def)

lemma index_block_mem: "distinct (map fst (ix_blocks index)) \<Longrightarrow> index_block index h = Some b \<longleftrightarrow> (h, b) \<in> set (ix_blocks index)"
  by (simp add: index_block_def)

lemma store_wf_block:
  assumes "store_wf host self" "(h, b) \<in> set (ix_blocks (st_index self))"
  obtains d where "d \<in> set (dk_block_directories (st_disk self))" "block_on_disk host self h b d"
  using assms unfolding store_wf_def by blast

lemma store_wf_index_on_disk:
  assumes "store_wf host self"
  shows "index_on_disk (st_index self) (st_disk self)"
  unfolding index_on_disk_def
proof (clarify, intro conjI allI impI)
  fix h b
  assume e: "(h, b) \<in> set (ix_blocks (st_index self))"
  obtain d where d: "d \<in> set (dk_block_directories (st_disk self))" "block_on_disk host self h b d"
    by (rule store_wf_block [OF assms e])
  show "tb_block_directory_path b \<in> bd_block_directory_path ` set (dk_block_directories (st_disk self))"
    using d unfolding block_on_disk_def by (metis imageI)
  fix tracked
  assume "tb_sequence_state_file b = Some tracked \<or> tb_boundary_state_file b = Some tracked"
  then show "butlast (tf_file_path tracked) = tb_block_directory_path b"
    using d(2) unfolding block_on_disk_def by (metis butlast_snoc)
qed

lemma block_on_disk_frame: "same_frame self self' \<Longrightarrow> block_on_disk host self' h b d \<longleftrightarrow> block_on_disk host self h b d"
  unfolding block_on_disk_def by (simp only: same_frame_directory)

lemma names_differ: "SEQUENCE_STATE_FILE_NAME \<noteq> BOUNDARY_STATE_FILE_NAME"
  by (simp add: SEQUENCE_STATE_FILE_NAME_def BOUNDARY_STATE_FILE_NAME_def)

section \<open>The ceiling\<close>

lemma disk_without_wf:
  assumes "disk_wf disk"
  shows "disk_wf (disk_without R disk)"
proof -
  have dist: "distinct (entry_paths disk)" using assms by (simp add: disk_wf_def)
  have maps: "distinct (map gf_file_path (dk_standalone_files disk))" "distinct (map gd_directory_path (dk_stale_directories disk))"
    "distinct (map bd_block_directory_path (dk_block_directories disk))"
    using dist by (simp_all add: entry_paths_def)
  have sub: "set (dk_standalone_files (disk_without R disk)) \<subseteq> set (dk_standalone_files disk)"
    "set (dk_stale_directories (disk_without R disk)) \<subseteq> set (dk_stale_directories disk)"
    "set (dk_block_directories (disk_without R disk)) \<subseteq> set (dk_block_directories disk)"
    by (auto simp: disk_without_def)
  have "distinct (entry_paths (disk_without R disk))"
    unfolding entry_paths_def
    by (rule distinct_three_filters [OF dist [unfolded entry_paths_def]])
      (use maps in \<open>auto simp: disk_without_def distinct_map_filter\<close>)
  moreover have "butlast (gf_file_path f) \<notin> bd_block_directory_path ` set (dk_block_directories (disk_without R disk))"
    if "f \<in> set (dk_standalone_files (disk_without R disk))" for f
    using assms sub that unfolding disk_wf_def by blast
  ultimately show ?thesis using assms sub unfolding disk_wf_def by blast
qed

lemma sum_list_filter_le: "sum_list (map f (filter P xs)) \<le> (sum_list (map f xs) :: nat)"
  by (induction xs) auto

lemma disk_without_bytes: "disk_bytes (disk_without R disk) \<le> disk_bytes disk"
  unfolding disk_bytes_def disk_without_def
  by (simp only: cache_disk.select_convs) (intro add_mono sum_list_filter_le)

lemma quota_result:
  assumes "disk_wf (st_disk self)" "index_on_disk (st_index self) (st_disk self)"
    and "enforce_store_quota host additional reclaimable protected excluded False self = (self', None)"
  obtains R where "same_frame self self'" "st_disk self' = disk_without R (st_disk self)"
    "ix_blocks (st_index self') = filter (\<lambda>(_, b). tb_block_directory_path b \<notin> R) (ix_blocks (st_index self))"
    "R \<inter> set protected \<inter> bd_block_directory_path ` set (dk_block_directories (walked excluded (st_disk self))) = {}"
    "\<forall>b \<in> set (dk_block_directories (walked excluded (st_disk self))). bd_block_directory_path b \<in> R
        \<longrightarrow> bd_block_directory_path ` descendants (dk_block_directories (walked excluded (st_disk self))) b \<subseteq> R"
    "unat (st_total_size_bytes self') \<le> disk_bytes (walked excluded (st_disk self))"
proof -
  let ?policy = "\<lparr>qp_root = st_root_directory self, qp_maximum_size_bytes = st_maximum_size_bytes self,
              qp_additional_committed_size_bytes = additional, qp_post_commit_reclaimable_size_bytes = reclaimable,
              qp_protected_block_directory_paths = protected, qp_should_record_startup_cleanup = False\<rparr>"
  let ?state = "\<lparr>qs_disk = st_disk self, qs_index = st_index self, qs_total_size_bytes = st_total_size_bytes self,
              qs_visual_embedding_total_size_bytes = st_visual_embedding_total_size_bytes self,
              qs_removed_eviction_paths = [], qs_evidence = evidence_default\<rparr>"
  obtain state' e where run: "enforce_global_prompt_cache_quota_for_commit (ho_removal_fails host) ?policy excluded ?state = (state', e)"
    by force
  have e: "e = None" and self': "self' = self\<lparr>st_disk := qs_disk state', st_index := qs_index state',
                 st_total_size_bytes := qs_total_size_bytes state',
                 st_visual_embedding_total_size_bytes := qs_visual_embedding_total_size_bytes state'\<rparr>"
    using assms(3) run by (auto simp: enforce_store_quota_def Let_def)
  obtain scan where scan: "scan_global_prompt_cache_quota (qp_root ?policy) excluded (qs_disk ?state) = Inr scan"
    using run e by (auto simp: enforce_global_prompt_cache_quota_for_commit_def split: sum.splits)
  have "loop_inv (qs_disk ?state) (walked excluded (qs_disk ?state)) (qs_index ?state) (qp_protected_block_directory_paths ?policy) state'"
    by (rule enforce_inv(1) [OF _ _ run _ scan]) (use assms(1,2) e in simp_all)
  then show ?thesis using disk_without_bytes
    by (intro that [of "set (qs_removed_eviction_paths state')"]) (simp_all add: self' same_frame_def loop_inv_def Let_def)
qed

lemma filter_index_wf:
  assumes wf: "store_wf host self" and frame: "same_frame self self'" and disk: "st_disk self' = disk_without R (st_disk self)"
    and index: "ix_blocks (st_index self') = filter (\<lambda>(_, b). tb_block_directory_path b \<notin> R) (ix_blocks (st_index self))"
  shows "store_wf host self'"
proof -
  have "distinct (map fst (ix_blocks (st_index self')))" using wf by (simp add: store_wf_def index distinct_map_filter)
  moreover have "\<exists>d \<in> set (dk_block_directories (st_disk self')). block_on_disk host self' h b d"
    if "(h, b) \<in> set (ix_blocks (st_index self'))" for h b
  proof -
    have hb: "(h, b) \<in> set (ix_blocks (st_index self))" "tb_block_directory_path b \<notin> R" using that unfolding index by auto
    obtain d where d: "d \<in> set (dk_block_directories (st_disk self))" "block_on_disk host self h b d"
      using wf hb(1) unfolding store_wf_def by blast
    then have "d \<in> set (dk_block_directories (st_disk self'))" using hb(2) by (simp add: disk disk_without_def block_on_disk_def)
    moreover have "block_on_disk host self' h b d" using d(2) block_on_disk_frame [OF frame] by blast
    ultimately show ?thesis by blast
  qed
  moreover have "disk_wf (st_disk self')" using wf disk_without_wf unfolding disk store_wf_def by blast
  moreover have "\<forall>f \<in> set (dk_standalone_files (st_disk self')). \<forall>h. butlast (gf_file_path f) \<noteq> block_directory self' h"
    using wf same_frame_directory [OF frame] by (auto simp: disk disk_without_def store_wf_def)
  ultimately show ?thesis unfolding store_wf_def by blast
qed


section \<open>Commit, reclaim and supersession\<close>

text \<open>The steps of a transaction change the index pointwise: the new entry, one boundary file, whole directories.\<close>

definition tracked_entry :: "BlockKey \<Rightarrow> BlockKey option \<Rightarrow> path \<Rightarrow> StagedBlockFiles \<Rightarrow> TrackedBlock" where
  "tracked_entry block_key parent_block_key final_directory staged =
     \<lparr>tb_block_directory_path = final_directory, tb_block_index = bk_block_index block_key,
      tb_parent_block_hash = map_option bk_block_hash parent_block_key,
      tb_sequence_state_file =
        map_option (tracked_file_in final_directory SEQUENCE_STATE_FILE_NAME) (sb_sequence_state_file staged),
      tb_boundary_state_file =
        map_option (tracked_file_in final_directory BOUNDARY_STATE_FILE_NAME) (sb_boundary_state_file staged)\<rparr>"

lemma updated_blocks: "dk_block_directories (disk\<lparr>dk_block_directories := blocks\<rparr>) = blocks"
  by simp

lemma map_blocks_disk_wf:
  assumes "disk_wf disk"
    and f: "\<And>d. bd_identity (f d) = bd_identity d" "\<And>d. bd_block_directory_path (f d) = bd_block_directory_path d"
      "\<And>d name. name \<in> set (bd_tracked_file_paths (f d)) \<Longrightarrow> name \<in> set (bd_tracked_file_paths d) \<or> butlast name = bd_block_directory_path d"
  shows "disk_wf (disk\<lparr>dk_block_directories := map f (dk_block_directories disk)\<rparr>)"
proof -
  have paths: "bd_block_directory_path ` set (map f (dk_block_directories disk)) = bd_block_directory_path ` set (dk_block_directories disk)"
    by (auto simp: f(2) image_iff)
  have "map bd_block_directory_path (map f (dk_block_directories disk)) = map bd_block_directory_path (dk_block_directories disk)"
    by (simp add: f(2))
  then have entries: "entry_paths (disk\<lparr>dk_block_directories := map f (dk_block_directories disk)\<rparr>) = entry_paths disk"
    by (simp add: entry_paths_def)
  have blocks: "bd_block_directory_path b = bi_blocks_directory_path (bd_identity b) @ [hex_encode (bi_block_hash (bd_identity b))]
      \<and> (\<forall>name \<in> set (bd_tracked_file_paths b). butlast name = bd_block_directory_path b)"
    if b_in: "b \<in> set (map f (dk_block_directories disk))" for b
  proof -
    from b_in obtain d where d: "d \<in> set (dk_block_directories disk)" "b = f d" by auto
    then have "bd_block_directory_path d = bi_blocks_directory_path (bd_identity d) @ [hex_encode (bi_block_hash (bd_identity d))]"
      "\<forall>name \<in> set (bd_tracked_file_paths d). butlast name = bd_block_directory_path d"
      using assms(1) unfolding disk_wf_def by blast+
    then show ?thesis using f d(2) by metis
  qed
  have fields: "dk_block_directories (disk\<lparr>dk_block_directories := map f (dk_block_directories disk)\<rparr>) = map f (dk_block_directories disk)"
    "dk_stale_directories (disk\<lparr>dk_block_directories := map f (dk_block_directories disk)\<rparr>) = dk_stale_directories disk"
    "dk_standalone_files (disk\<lparr>dk_block_directories := map f (dk_block_directories disk)\<rparr>) = dk_standalone_files disk"
    by simp_all
  show ?thesis using assms(1) blocks unfolding disk_wf_def entries fields paths by blast
qed

lemma commit_result:
  assumes wf: "store_wf host self" and final: "final = block_directory self (bk_block_hash key)"
    and absent: "final \<notin> set (entry_paths (st_disk self))" and new: "index_block (st_index self) (bk_block_hash key) = None"
    and commit: "commit_and_publish_block host key parent final staged self = (self', None)"
  shows "same_frame self self'" "store_wf host self'"
    "index_block (st_index self') h = (if h = bk_block_hash key then Some (tracked_entry key parent final staged) else index_block (st_index self) h)"
proof -
  let ?dir = "committed_directory host key parent final staged self"
  let ?disk = "(st_disk self)\<lparr>dk_block_directories := dk_block_directories (st_disk self) @ [?dir]\<rparr>"
  have self': "self' = self\<lparr>st_disk := ?disk, st_index := insert_block (bk_block_hash key) (tracked_entry key parent final staged) (st_index self)\<rparr>"
    using commit by (auto simp: commit_and_publish_block_def Let_def track_committed_block_def tracked_entry_def split: sum.splits)
  show frame: "same_frame self self'" by (simp add: self' same_frame_def)
  have index: "ix_blocks (st_index self') = ix_blocks (st_index self) @ [(bk_block_hash key, tracked_entry key parent final staged)]"
    using new by (simp add: self' insert_block_def index_block_def update_fresh map_of_eq_None_iff)
  show "index_block (st_index self') h = (if h = bk_block_hash key then Some (tracked_entry key parent final staged) else index_block (st_index self) h)"
    by (simp add: self')
  have disk_wf: "disk_wf (st_disk self)" and alone: "\<And>f h. f \<in> set (dk_standalone_files (st_disk self)) \<Longrightarrow> butlast (gf_file_path f) \<noteq> block_directory self h"
    using wf by (auto simp: store_wf_def)
  have path: "bd_block_directory_path ?dir = final" by (simp add: committed_directory_def)
  have "disk_wf ?disk"
  proof -
    have "entry_paths ?disk = entry_paths (st_disk self) @ [final]" by (simp add: entry_paths_def path)
    then have "distinct (entry_paths ?disk)" using disk_wf absent by (simp add: disk_wf_def)
    moreover have "bd_block_directory_path ?dir = bi_blocks_directory_path (bd_identity ?dir) @ [hex_encode (bi_block_hash (bd_identity ?dir))]
        \<and> (\<forall>name \<in> set (bd_tracked_file_paths ?dir). butlast name = bd_block_directory_path ?dir)"
      by (auto simp: committed_directory_def final block_directory_def butlast_append)
    moreover have "butlast (gf_file_path f) \<noteq> final" if "f \<in> set (dk_standalone_files (st_disk self))" for f
      using alone [OF that] final by blast
    ultimately show ?thesis using disk_wf path unfolding disk_wf_def by auto
  qed
  moreover have "block_on_disk host self (bk_block_hash key) (tracked_entry key parent final staged) ?dir"
    by (auto simp: block_on_disk_def tracked_entry_def committed_directory_def final tracked_file_in_def)
  moreover have "\<exists>d \<in> set (dk_block_directories (st_disk self)). block_on_disk host self h b d" if "(h, b) \<in> set (ix_blocks (st_index self))" for h b
    using wf that unfolding store_wf_def by blast
  moreover have "distinct (map fst (ix_blocks (st_index self')))"
    using wf new unfolding index by (auto simp: store_wf_def index_block_def map_of_eq_None_iff)
  ultimately show "store_wf host self'"
    unfolding store_wf_def block_on_disk_frame [OF frame] index same_frame_directory [OF frame]
    using alone by (auto simp: self')
qed

lemma refresh_result:
  assumes "refresh_global_prompt_cache_accounting self = (self', None)"
  shows "same_frame self self'" "st_index self' = st_index self" "st_disk self' = st_disk self"
  using assms by (auto simp: refresh_global_prompt_cache_accounting_def same_frame_def split: sum.splits)

lemma wf_transfer:
  assumes "store_wf host self" "same_frame self self'" "st_index self' = st_index self" "st_disk self' = st_disk self"
  shows "store_wf host self'"
  using assms(1) unfolding store_wf_def block_on_disk_frame [OF assms(2)] same_frame_directory [OF assms(2)] assms(3,4) .

text \<open>The removal of one boundary file.\<close>

lemma without_boundary_wf:
  assumes wf: "store_wf host self" and b: "index_block (st_index self) p = Some b" "tb_boundary_state_file b = Some f"
    and self': "self' = self\<lparr>st_disk := disk_without_block_file host (tb_block_directory_path b) (tf_file_path f) bytes (st_disk self),
        st_index := snd (remove_file BoundaryStateSnapshot p (st_index self))\<rparr>"
  shows "same_frame self self'" "store_wf host self'"
    "index_block (st_index self') h
      = (if h = p then Some (b\<lparr>tb_boundary_state_file := None\<rparr>) else index_block (st_index self) h)"
proof -
  show frame: "same_frame self self'" by (simp add: self' same_frame_def)
  have index: "ix_blocks (st_index self') = AList.map_entry p (tb_boundary_state_file_update (\<lambda>_. None)) (ix_blocks (st_index self))"
    by (simp add: self')
  have lookup: "index_block (st_index self') h
      = (if h = p then Some (b\<lparr>tb_boundary_state_file := None\<rparr>) else index_block (st_index self) h)" for h
    using b(1) by (simp add: index_block_def index map_of_map_entry)
  show "index_block (st_index self') h
      = (if h = p then Some (b\<lparr>tb_boundary_state_file := None\<rparr>) else index_block (st_index self) h)" by (rule lookup)
  let ?f = "\<lambda>d. if bd_block_directory_path d = tb_block_directory_path b \<and> tf_file_path f \<in> set (bd_tracked_file_paths d)
        then d\<lparr>bd_file_size_bytes := bd_file_size_bytes d - bytes, bd_modified_at := ho_now host,
               bd_tracked_file_paths := removeAll (tf_file_path f) (bd_tracked_file_paths d)\<rparr> else d"
  have disk: "st_disk self' = (st_disk self)\<lparr>dk_block_directories := map ?f (dk_block_directories (st_disk self))\<rparr>"
    by (simp add: self' disk_without_block_file_def)
  have dist: "distinct (map fst (ix_blocks (st_index self)))" using wf by (simp add: store_wf_def)
  then have dist': "distinct (map fst (ix_blocks (st_index self')))"
    unfolding index by (simp add: AList.distinct_map_entry)
  have "disk_wf (st_disk self')"
    unfolding disk using wf by (intro map_blocks_disk_wf) (auto simp: store_wf_def split: if_splits)
  moreover have "\<exists>d \<in> set (dk_block_directories (st_disk self')). block_on_disk host self h c d"
    if "(h, c) \<in> set (ix_blocks (st_index self'))" for h c
  proof -
    have c: "index_block (st_index self') h = Some c" using that dist' by (simp add: index_block_mem)
    obtain c0 where c0: "index_block (st_index self) h = Some c0" using c lookup b(1) by (cases "h = p") auto
    then obtain d where d: "d \<in> set (dk_block_directories (st_disk self))" "block_on_disk host self h c0 d"
      using store_wf_block [OF wf] index_block_mem [OF dist] by metis
    have b_dir: "tb_block_directory_path b = block_directory self p" "tf_file_path f = tb_block_directory_path b @ [BOUNDARY_STATE_FILE_NAME]"
    proof -
      obtain d0 where "block_on_disk host self p b d0" using store_wf_block [OF wf] index_block_mem [OF dist] b(1) by metis
      then show "tb_block_directory_path b = block_directory self p" "tf_file_path f = tb_block_directory_path b @ [BOUNDARY_STATE_FILE_NAME]"
        using b(2) unfolding block_on_disk_def by blast+
    qed
    have "block_on_disk host self h c (?f d)"
    proof (cases "h = p")
      case True
      then have "c0 = b" "c = b\<lparr>tb_boundary_state_file := None\<rparr>" using c c0 lookup b(1) by simp_all
      then show ?thesis using d(2) b_dir names_differ True unfolding block_on_disk_def by auto
    next
      case False
      then have "c = c0" using c c0 lookup by simp
      moreover have "bd_block_directory_path d \<noteq> tb_block_directory_path b"
        using d(2) False block_directory_inj unfolding block_on_disk_def b_dir(1) by metis
      ultimately show ?thesis using d(2) by simp
    qed
    moreover have "?f d \<in> set (dk_block_directories (st_disk self'))"
      using d(1) unfolding disk updated_blocks set_map by (rule imageI)
    ultimately show ?thesis by blast
  qed
  moreover have "\<forall>f \<in> set (dk_standalone_files (st_disk self')). \<forall>h. butlast (gf_file_path f) \<noteq> block_directory self h"
    using wf by (auto simp: disk store_wf_def)
  ultimately show "store_wf host self'"
    unfolding store_wf_def block_on_disk_frame [OF frame] same_frame_directory [OF frame] using dist' by blast
qed


text \<open>The addition of one boundary file.\<close>

lemma with_boundary_wf:
  assumes wf: "store_wf host self" and b: "index_block (st_index self) p = Some b"
    and self': "self' = self\<lparr>st_disk := disk_with_block_file host (tb_block_directory_path b)
          (tb_block_directory_path b @ [BOUNDARY_STATE_FILE_NAME]) bytes (st_disk self),
        st_index := insert_file BoundaryStateSnapshot p
          \<lparr>tf_file_path = tb_block_directory_path b @ [BOUNDARY_STATE_FILE_NAME], tf_file_size_bytes = bytes\<rparr> (st_index self)\<rparr>"
  shows "same_frame self self'" "store_wf host self'"
    "index_block (st_index self') h
      = (if h = p then Some (b\<lparr>tb_boundary_state_file := Some
           \<lparr>tf_file_path = tb_block_directory_path b @ [BOUNDARY_STATE_FILE_NAME], tf_file_size_bytes = bytes\<rparr>\<rparr>)
         else index_block (st_index self) h)"
proof -
  let ?file = "\<lparr>tf_file_path = tb_block_directory_path b @ [BOUNDARY_STATE_FILE_NAME], tf_file_size_bytes = bytes\<rparr>"
  show frame: "same_frame self self'" by (simp add: self' same_frame_def)
  have index: "ix_blocks (st_index self') = AList.map_entry p (tb_boundary_state_file_update (\<lambda>_. Some ?file)) (ix_blocks (st_index self))"
    by (simp add: self')
  have lookup: "index_block (st_index self') h
      = (if h = p then Some (b\<lparr>tb_boundary_state_file := Some ?file\<rparr>) else index_block (st_index self) h)" for h
    using b(1) by (simp add: index_block_def index map_of_map_entry)
  then show "index_block (st_index self') h
      = (if h = p then Some (b\<lparr>tb_boundary_state_file := Some ?file\<rparr>) else index_block (st_index self) h)" .
  let ?f = "\<lambda>d. if bd_block_directory_path d = tb_block_directory_path b
        then d\<lparr>bd_file_size_bytes := bd_file_size_bytes d + bytes, bd_modified_at := ho_now host,
               bd_tracked_file_paths := bd_tracked_file_paths d @ [tf_file_path ?file]\<rparr> else d"
  have disk: "st_disk self' = (st_disk self)\<lparr>dk_block_directories := map ?f (dk_block_directories (st_disk self))\<rparr>"
    by (simp add: self' disk_with_block_file_def)
  have dist: "distinct (map fst (ix_blocks (st_index self)))" using wf by (simp add: store_wf_def)
  then have dist': "distinct (map fst (ix_blocks (st_index self')))"
    unfolding index by (simp add: AList.distinct_map_entry)
  have "disk_wf (st_disk self')"
    unfolding disk using wf by (intro map_blocks_disk_wf) (auto simp: store_wf_def split: if_splits)
  moreover have "\<exists>d \<in> set (dk_block_directories (st_disk self')). block_on_disk host self h c d"
    if "(h, c) \<in> set (ix_blocks (st_index self'))" for h c
  proof -
    have c: "index_block (st_index self') h = Some c" using that dist' by (simp add: index_block_mem)
    obtain c0 where c0: "index_block (st_index self) h = Some c0" using c lookup b(1) by (cases "h = p") auto
    then obtain d where d: "d \<in> set (dk_block_directories (st_disk self))" "block_on_disk host self h c0 d"
      using store_wf_block [OF wf] index_block_mem [OF dist] by metis
    have "block_on_disk host self h c (?f d)"
    proof (cases "h = p")
      case True
      then have "c0 = b" "c = b\<lparr>tb_boundary_state_file := Some ?file\<rparr>" using c c0 lookup b(1) by simp_all
      then show ?thesis using d(2) True unfolding block_on_disk_def by auto
    next
      case False
      then have "c = c0" using c c0 lookup by simp
      moreover obtain d0 where "block_on_disk host self p b d0" using store_wf_block [OF wf] index_block_mem [OF dist] b(1) by metis
      then have "bd_block_directory_path d \<noteq> tb_block_directory_path b"
        using d(2) False block_directory_inj unfolding block_on_disk_def by metis
      ultimately show ?thesis using d(2) by simp
    qed
    moreover have "?f d \<in> set (dk_block_directories (st_disk self'))"
      using d(1) unfolding disk updated_blocks set_map by (rule imageI)
    ultimately show ?thesis by blast
  qed
  moreover have "\<forall>f \<in> set (dk_standalone_files (st_disk self')). \<forall>h. butlast (gf_file_path f) \<noteq> block_directory self h"
    using wf by (auto simp: disk store_wf_def)
  ultimately show "store_wf host self'"
    unfolding store_wf_def block_on_disk_frame [OF frame] same_frame_directory [OF frame] using dist' by blast
qed

text \<open>The removal of whole directories, by the ceiling or by supersession.\<close>

lemma index_block_filter:
  assumes "distinct (map fst (ix_blocks index))" "ix_blocks index' = filter (\<lambda>(_, b). tb_block_directory_path b \<notin> R) (ix_blocks index)"
  shows "index_block index' h = (case index_block index h of None \<Rightarrow> None
    | Some b \<Rightarrow> if tb_block_directory_path b \<in> R then None else Some b)"
proof -
  have dist': "distinct (map fst (ix_blocks index'))" using assms by (simp add: distinct_map_filter)
  show ?thesis
  proof (cases "index_block index' h")
    case None
    show ?thesis
    proof (cases "index_block index h")
      case (Some b)
      then have "(h, b) \<in> set (ix_blocks index)" using index_block_mem [OF assms(1)] by simp
      moreover have "(h, b) \<notin> set (ix_blocks index')" using None index_block_mem [OF dist', of h b] by simp
      ultimately show ?thesis using None Some by (simp add: assms(2))
    qed (simp add: None)
  next
    case (Some b)
    then have "(h, b) \<in> set (ix_blocks index')" using index_block_mem [OF dist'] by simp
    then have "index_block index h = Some b" "tb_block_directory_path b \<notin> R"
      using index_block_mem [OF assms(1)] by (auto simp: assms(2))
    then show ?thesis using Some by simp
  qed
qed

lemma supersede_result:
  assumes wf: "store_wf host self"
    and run: "supersede_shorter_partial_tail_siblings host key parent self = (self', None)"
  shows "same_frame self self'" "store_wf host self'"
    "index_block (st_index self) h = Some b \<Longrightarrow>
       h = bk_block_hash key \<or> tb_block_index b \<noteq> bk_block_index key \<Longrightarrow> index_block (st_index self') h = Some b"
    "index_block (st_index self') h = Some c \<Longrightarrow> index_block (st_index self) h = Some c"
proof -
  have id: "self' = self \<or> (\<exists>sz R disk'. R = map (tb_block_directory_path \<circ> snd)
        (filter (is_superseded_sibling key parent sz) (tracked_blocks (st_index self)))
      \<and> remove_directories (ho_removal_fails host) R (st_disk self) = (disk', None)
      \<and> refresh_global_prompt_cache_accounting
          (self\<lparr>st_disk := disk', st_index := remove_blocks_by_directory_paths R (st_index self)\<rparr>) = (self', None))"
    using run unfolding supersede_shorter_partial_tail_siblings_def
    by (auto simp: Let_def split: if_splits sum.splits prod.splits option.splits)
  have dist: "distinct (map fst (ix_blocks (st_index self)))" using wf by (simp add: store_wf_def)
  have "same_frame self self' \<and> store_wf host self'
    \<and> (\<forall>h b. index_block (st_index self) h = Some b \<longrightarrow> h = bk_block_hash key \<or> tb_block_index b \<noteq> bk_block_index key
         \<longrightarrow> index_block (st_index self') h = Some b)
    \<and> (\<forall>h c. index_block (st_index self') h = Some c \<longrightarrow> index_block (st_index self) h = Some c)"
    using id
  proof
    assume "self' = self"
    then show ?thesis using wf by (simp add: same_frame_def)
  next
    assume "\<exists>sz R disk'. R = map (tb_block_directory_path \<circ> snd)
        (filter (is_superseded_sibling key parent sz) (tracked_blocks (st_index self)))
      \<and> remove_directories (ho_removal_fails host) R (st_disk self) = (disk', None)
      \<and> refresh_global_prompt_cache_accounting
          (self\<lparr>st_disk := disk', st_index := remove_blocks_by_directory_paths R (st_index self)\<rparr>) = (self', None)"
    then obtain sz R disk' where R: "R = map (tb_block_directory_path \<circ> snd)
        (filter (is_superseded_sibling key parent sz) (tracked_blocks (st_index self)))"
      and removed: "remove_directories (ho_removal_fails host) R (st_disk self) = (disk', None)"
      and refresh: "refresh_global_prompt_cache_accounting
          (self\<lparr>st_disk := disk', st_index := remove_blocks_by_directory_paths R (st_index self)\<rparr>) = (self', None)" by blast
    let ?mid = "self\<lparr>st_disk := disk', st_index := remove_blocks_by_directory_paths R (st_index self)\<rparr>"
    note refreshed = refresh_result [OF refresh]
    have in_blocks: "set R \<subseteq> bd_block_directory_path ` set (dk_block_directories (st_disk self))"
      using store_wf_index_on_disk [OF wf] unfolding R index_on_disk_def tracked_blocks_def by auto
    have "filter (\<lambda>f. gf_file_path f \<notin> {} \<union> set R) (dk_standalone_files (st_disk self)) = filter (\<lambda>f. gf_file_path f \<notin> {}) (dk_standalone_files (st_disk self))"
      using entry_paths_apart(2) [of "st_disk self"] wf in_blocks by (intro filter_other) (fastforce simp: store_wf_def)
    then have disk: "disk' = disk_without (set R) (st_disk self)"
      using remove_directories_None [OF removed] by (simp add: disk_without_def)
    have index: "ix_blocks (st_index ?mid) = filter (\<lambda>(_, b). tb_block_directory_path b \<notin> set R) (ix_blocks (st_index self))"
      by (simp add: remove_blocks_by_directory_paths_def)
    have frame: "same_frame self ?mid" by (simp add: same_frame_def)
    have mid_wf: "store_wf host ?mid" by (rule filter_index_wf [OF wf frame _ index]) (simp add: disk)
    have lookup: "index_block (st_index self') h = (case index_block (st_index self) h of None \<Rightarrow> None
        | Some b \<Rightarrow> if tb_block_directory_path b \<in> set R then None else Some b)" for h
      using index_block_filter [OF dist index] refreshed(2) by simp
    have "tb_block_directory_path b \<notin> set R"
      if b: "index_block (st_index self) h = Some b" and other: "h = bk_block_hash key \<or> tb_block_index b \<noteq> bk_block_index key" for h b
    proof
      assume "tb_block_directory_path b \<in> set R"
      then obtain h' b' where e: "(h', b') \<in> set (ix_blocks (st_index self))" "is_superseded_sibling key parent sz (h', b')"
        "tb_block_directory_path b' = tb_block_directory_path b" unfolding R tracked_blocks_def by auto
      obtain d d' where "block_on_disk host self h b d" "block_on_disk host self h' b' d'"
        using store_wf_block [OF wf] e(1) b index_block_mem [OF dist] by metis
      then have "h' = h" using e(3) block_directory_inj unfolding block_on_disk_def by metis
      then have "b' = b" using e(1) b index_block_mem [OF dist] by (metis option.inject)
      then show False using e(2) other \<open>h' = h\<close> by (auto simp: is_superseded_sibling_def)
    qed
    moreover have "same_frame self self'" using frame refreshed(1) by (simp add: same_frame_def)
    moreover have "store_wf host self'" by (rule wf_transfer [OF mid_wf refreshed])
    ultimately show ?thesis using lookup by (auto split: option.splits if_splits)
  qed
  then show "same_frame self self'" "store_wf host self'"
    "index_block (st_index self) h = Some b \<Longrightarrow>
       h = bk_block_hash key \<or> tb_block_index b \<noteq> bk_block_index key \<Longrightarrow> index_block (st_index self') h = Some b"
    "index_block (st_index self') h = Some c \<Longrightarrow> index_block (st_index self) h = Some c"
    by blast+
qed


section \<open>A new block\<close>

text \<open>What a staged block carries.\<close>

lemma stage_complete_result:
  assumes "stage_complete_block host self key staging = Inr staged"
  shows "sb_sequence_state_file staged \<noteq> None \<longleftrightarrow> mc_has_sequence_state (st_contract self)"
    "sb_boundary_state_file staged \<noteq> None \<longleftrightarrow> mc_has_boundary_state (st_contract self)"
  using assms by (auto simp: stage_complete_block_def stage_state_file_def split: if_splits)

lemma walked_all: "excluded \<notin> set (entry_paths disk) \<Longrightarrow> walked (Some excluded) disk = disk"
  by (auto simp: walked_def not_excluded_def entry_paths_def comp_def intro!: cache_disk.equality filter_True)

lemma ancestor_protected:
  assumes "h \<in> ancestry (st_index self) (bk_block_hash parent)" "index_block (st_index self) h = Some b"
  shows "tb_block_directory_path b \<in> set (protected_ancestry_for_commit self (Some parent))"
  using protected_ancestry_complete [OF assms] by (simp add: protected_ancestry_for_commit_def)

lemma transaction_result:
  assumes wf: "store_wf host self" and new: "index_block (st_index self) (bk_block_hash key) = None"
    and staging: "staging \<notin> set (entry_paths (st_disk self))"
    and run: "publish_new_block_transaction host key parent staging self = (self', None)"
  obtains staged where "same_frame self self'" "store_wf host self'"
    "index_block (st_index self') (bk_block_hash key)
       = Some (tracked_entry key parent (block_directory self (bk_block_hash key)) staged)"
    "sb_sequence_state_file staged \<noteq> None \<longleftrightarrow> mc_has_sequence_state (st_contract self)"
    "sb_boundary_state_file staged \<noteq> None \<longleftrightarrow> mc_has_boundary_state (st_contract self)"
    "\<And>p h b. \<lbrakk>parent = Some p; h \<in> ancestry (st_index self) (bk_block_hash p); index_block (st_index self) h = Some b\<rbrakk>
       \<Longrightarrow> index_block (st_index self') h = Some b
         \<or> h = bk_block_hash p \<and> index_block (st_index self') h = Some (b\<lparr>tb_boundary_state_file := None\<rparr>)
           \<and> unat (st_maximum_size_bytes self) < disk_bytes (st_disk self) + unat (sb_total_size_bytes staged)"
    "\<And>h c. index_block (st_index self') h = Some c \<Longrightarrow> h \<noteq> bk_block_hash key \<Longrightarrow>
       \<exists>b. index_block (st_index self) h = Some b \<and> tb_parent_block_hash c = tb_parent_block_hash b \<and> tb_block_index c = tb_block_index b
         \<and> tb_sequence_state_file c = tb_sequence_state_file b"
    "stage_complete_block host self key staging = Inr staged"
proof -
  let ?final = "block_directory self (bk_block_hash key)"
  obtain self1 staged where admit: "stage_and_admit_block host key parent staging ?final self = (self1, Inr staged)"
    using run unfolding publish_new_block_transaction_def Let_def by (auto split: prod.splits sum.splits)
  let ?reclaim = "parent_boundary_reclaim_after_commit self1 parent (sb_total_size_bytes staged)"
  obtain self2 where commit: "commit_and_publish_block host key parent ?final staged self1 = (self2, None)"
    using run admit unfolding publish_new_block_transaction_def Let_def by (auto split: prod.splits option.splits)
  obtain self3 where reclaim: "reclaim_parent_boundary host ?reclaim self2 = (self3, None)"
    and refresh: "refresh_global_prompt_cache_accounting self3 = (self', None)"
    using run admit commit unfolding publish_new_block_transaction_def Let_def by (auto split: prod.splits option.splits)
  have staged: "stage_complete_block host self key staging = Inr staged"
    and quota: "\<exists>additional reclaimable. enforce_store_quota host additional reclaimable
      (protected_ancestry_for_commit self parent @ [?final]) (Some staging) False self = (self1, None)"
    and absent: "?final \<notin> set (entry_paths (st_disk self1))"
    using admit unfolding stage_and_admit_block_def
    by (auto split: sum.splits prod.splits option.splits if_splits)
  have disk_wf: "disk_wf (st_disk self)" using wf by (simp add: store_wf_def)
  obtain R where frame1: "same_frame self self1" and disk1: "st_disk self1 = disk_without R (st_disk self)"
    and index1: "ix_blocks (st_index self1) = filter (\<lambda>(_, b). tb_block_directory_path b \<notin> R) (ix_blocks (st_index self))"
    and safe: "R \<inter> set (protected_ancestry_for_commit self parent @ [?final])
        \<inter> bd_block_directory_path ` set (dk_block_directories (walked (Some staging) (st_disk self))) = {}"
    and total1: "unat (st_total_size_bytes self1) \<le> disk_bytes (walked (Some staging) (st_disk self))"
    using quota quota_result [OF disk_wf store_wf_index_on_disk [OF wf]] by metis
  have wf1: "store_wf host self1" by (rule filter_index_wf [OF wf frame1 disk1 index1])
  have dist: "distinct (map fst (ix_blocks (st_index self)))" using wf by (simp add: store_wf_def)
  note lookup1 = index_block_filter [OF dist index1]
  have new1: "index_block (st_index self1) (bk_block_hash key) = None" using new by (simp add: lookup1)
  have final1: "?final = block_directory self1 (bk_block_hash key)" using same_frame_directory [OF frame1] by simp
  note committed = commit_result [OF wf1 final1 absent new1 commit]
  have frame2: "same_frame self self2" using frame1 committed(1) by (simp add: same_frame_def)
  have ancestors1: "index_block (st_index self1) h = Some b"
    if "parent = Some p" "h \<in> ancestry (st_index self) (bk_block_hash p)" "index_block (st_index self) h = Some b" for p h b
  proof -
    have "tb_block_directory_path b \<in> set (protected_ancestry_for_commit self parent)"
      using ancestor_protected [OF that(2,3)] that(1) by simp
    moreover have "tb_block_directory_path b \<in> bd_block_directory_path ` set (dk_block_directories (st_disk self))"
      using store_wf_index_on_disk [OF wf] that(3) index_block_mem [OF dist] unfolding index_on_disk_def by fastforce
    ultimately have "tb_block_directory_path b \<notin> R" using safe unfolding walked_all [OF staging] by auto
    then show ?thesis using that(3) by (simp add: lookup1)
  qed
  have result3: "same_frame self2 self3 \<and> store_wf host self3
    \<and> (\<forall>h. index_block (st_index self3) h = index_block (st_index self2) h
         \<or> (\<exists>p b. parent = Some p \<and> h = bk_block_hash p \<and> h \<noteq> bk_block_hash key \<and> index_block (st_index self2) h = Some b
             \<and> index_block (st_index self3) h = Some (b\<lparr>tb_boundary_state_file := None\<rparr>)
             \<and> unat (st_maximum_size_bytes self) < disk_bytes (st_disk self) + unat (sb_total_size_bytes staged)))"
  proof (cases ?reclaim)
    case None
    then show ?thesis using reclaim committed(2) by (simp add: reclaim_parent_boundary_def same_frame_def)
  next
    case (Some r)
    then obtain p b f where p: "parent = Some p" and b: "index_block (st_index self1) (bk_block_hash p) = Some b"
      "tb_boundary_state_file b = Some f"
      and r: "r = \<lparr>rc_block_hash = bk_block_hash p, rc_block_directory_path = tb_block_directory_path b,
               rc_file_path = tf_file_path f, rc_file_size_bytes = tf_file_size_bytes f\<rparr>"
      and over: "\<not> saturating_add (st_total_size_bytes self1) (sb_total_size_bytes staged) \<le> st_maximum_size_bytes self1"
      by (auto simp: parent_boundary_reclaim_after_commit_def bind_eq_Some_conv split: if_splits)
    have other: "bk_block_hash p \<noteq> bk_block_hash key" using b(1) new1 by auto
    then have b2: "index_block (st_index self2) (bk_block_hash p) = Some b" using b(1) committed(3) by simp
    have self3: "self3 = self2\<lparr>st_disk := disk_without_block_file host (tb_block_directory_path b) (tf_file_path f) (tf_file_size_bytes f)
          (st_disk self2), st_index := snd (remove_file BoundaryStateSnapshot (bk_block_hash p) (st_index self2))\<rparr>"
      using reclaim unfolding Some r by (auto simp: reclaim_parent_boundary_def Let_def split: sum.splits)
    note without = without_boundary_wf [OF committed(2) b2 b(2) self3]
    have "unat (st_maximum_size_bytes self) < disk_bytes (st_disk self) + unat (sb_total_size_bytes staged)"
    proof -
      have "unat (st_maximum_size_bytes self1) < unat (saturating_add (st_total_size_bytes self1) (sb_total_size_bytes staged))"
        using over by (simp add: word_le_nat_alt)
      also have "\<dots> \<le> unat (st_total_size_bytes self1) + unat (sb_total_size_bytes staged)"
        by (simp add: unat_saturating_add)
      finally show ?thesis using total1 frame1 unfolding walked_all [OF staging] by (simp add: same_frame_def)
    qed
    then show ?thesis using without p other b2 by auto
  qed
  note refreshed = refresh_result [OF refresh]
  have frame: "same_frame self self'" using frame2 result3 refreshed(1) by (simp add: same_frame_def)
  show ?thesis
  proof (rule that [of staged])
    show "same_frame self self'" by (rule frame)
    show "store_wf host self'" using result3 wf_transfer refreshed by blast
    have "index_block (st_index self3) (bk_block_hash key) = index_block (st_index self2) (bk_block_hash key)"
      using result3 by blast
    then show "index_block (st_index self') (bk_block_hash key) = Some (tracked_entry key parent ?final staged)"
      unfolding refreshed(2) using committed(3) by simp
    show "sb_sequence_state_file staged \<noteq> None \<longleftrightarrow> mc_has_sequence_state (st_contract self)"
      "sb_boundary_state_file staged \<noteq> None \<longleftrightarrow> mc_has_boundary_state (st_contract self)"
      by (rule stage_complete_result [OF staged])+
    show "stage_complete_block host self key staging = Inr staged" by (rule staged)
  next
    fix p h b
    assume a: "parent = Some p" "h \<in> ancestry (st_index self) (bk_block_hash p)" "index_block (st_index self) h = Some b"
    have "h \<noteq> bk_block_hash key" using a(3) new by auto
    then have "index_block (st_index self2) h = Some b" using ancestors1 [OF a] committed(3) by simp
    then show "index_block (st_index self') h = Some b
         \<or> h = bk_block_hash p \<and> index_block (st_index self') h = Some (b\<lparr>tb_boundary_state_file := None\<rparr>)
           \<and> unat (st_maximum_size_bytes self) < disk_bytes (st_disk self) + unat (sb_total_size_bytes staged)"
      unfolding refreshed(2) using result3 a(1) by (metis option.inject)
  next
    fix h c
    assume c: "index_block (st_index self') h = Some c" "h \<noteq> bk_block_hash key"
    then obtain b where b: "index_block (st_index self2) h = Some b"
      "tb_parent_block_hash c = tb_parent_block_hash b" "tb_block_index c = tb_block_index b"
      "tb_sequence_state_file c = tb_sequence_state_file b"
      unfolding refreshed(2) using result3 by (metis TrackedBlock.simps(1-10) TrackedBlock.select_convs(1-5) TrackedBlock.update_convs(5) option.inject TrackedBlock.surjective)
    then have "index_block (st_index self) h = Some b"
      using committed(3) c(2) lookup1 by (auto split: option.splits if_splits)
    then show "\<exists>b. index_block (st_index self) h = Some b \<and> tb_parent_block_hash c = tb_parent_block_hash b \<and> tb_block_index c = tb_block_index b
         \<and> tb_sequence_state_file c = tb_sequence_state_file b"
      using b(2-4) by blast
  qed
qed

end
