(* ===== verification/Cache_Lookup.thy ===== *)
theory Cache_Lookup
  imports Cache_Key
begin

text \<open>
  Finding the longest restorable prefix of a prompt: \<^verbatim>\<open>persistent_cache/prefix_lookup.rs\<close>,
  \<^verbatim>\<open>persistent_cache/prefix_lookup_steps.rs\<close> and \<^verbatim>\<open>persistent_cache/partial_tail_probe.rs\<close> of
  \<^verbatim>\<open>crates/model-serving/src\<close>. The two existence checks of the store are function fields of the inputs.
  Counts of tokens and blocks are bounded by the length of the prompt, a vector in memory, and are natural
  numbers; block indexes and token counts inside keys stay 32-bit words.
\<close>

section \<open>Data\<close>

datatype MissReason =
  PromptTooShortForPersistentPromptCache | RootSequenceStateBlockMissing | BoundaryStateSnapshotMissing

record LookupDiagnostics =
  ld_complete_prompt_block_count :: nat
  ld_maximum_restorable_block_count :: nat
  ld_matched_sequence_state_block_count :: nat
  ld_first_missing_sequence_state_block_index :: "nat option"
  ld_first_missing_sequence_state_block_hash :: "digest option"
  ld_newest_boundary_state_snapshot_block_index :: "nat option"
  ld_restored_partial_tail_block_token_count :: "nat option"
  ld_miss_reason :: "MissReason option"

definition diagnostics_new :: "nat \<Rightarrow> nat \<Rightarrow> LookupDiagnostics" where
  "diagnostics_new complete_prompt_block_count maximum_restorable_block_count =
     \<lparr>ld_complete_prompt_block_count = complete_prompt_block_count,
      ld_maximum_restorable_block_count = maximum_restorable_block_count,
      ld_matched_sequence_state_block_count = 0, ld_first_missing_sequence_state_block_index = None,
      ld_first_missing_sequence_state_block_hash = None, ld_newest_boundary_state_snapshot_block_index = None,
      ld_restored_partial_tail_block_token_count = None, ld_miss_reason = None\<rparr>"

definition record_first_missing :: "nat \<Rightarrow> digest option \<Rightarrow> LookupDiagnostics \<Rightarrow> LookupDiagnostics" where
  "record_first_missing missing_index missing_hash self =
     self\<lparr>ld_first_missing_sequence_state_block_index := Some missing_index,
          ld_first_missing_sequence_state_block_hash := missing_hash\<rparr>"

record PrefixLookupResult =
  lr_restored_token_count :: nat
  lr_remaining_tokens :: "u32 list"
  lr_last_restored_block_key :: "BlockKey option"
  lr_restored_partial_tail_block_key :: "BlockKey option"
  lr_lookup_diagnostics :: LookupDiagnostics

record PrefixLookupInputs =
  li_model_contract :: model_contract
  li_prompt_tokens :: "u32 list"
  li_block_causal_inputs :: "BlockCausalInput list option"
  li_allow_exact_block_boundary_restore :: bool
  li_probe_partial_tail_blocks :: bool
  li_kv_block_exists :: "digest \<Rightarrow> bool"
  li_recurrent_snapshot_exists :: "digest \<Rightarrow> bool"

section \<open>Steps\<close>

definition complete_and_maximum_restorable_block_counts :: "nat \<Rightarrow> nat \<Rightarrow> bool \<Rightarrow> nat \<times> nat" where
  "complete_and_maximum_restorable_block_counts prompt_token_count block_token_count allow_exact =
     (let complete_prompt_block_count = prompt_token_count div block_token_count
      in (complete_prompt_block_count,
          if allow_exact then complete_prompt_block_count
          else if prompt_token_count mod block_token_count = 0 then complete_prompt_block_count - 1
          else complete_prompt_block_count))"

text \<open>The input that a block slot binds: none for a request without such input, nothing beyond a short plan.\<close>

definition causal_input_of_slot :: "BlockCausalInput list option \<Rightarrow> nat \<Rightarrow> BlockCausalInput option" where
  "causal_input_of_slot block_causal_inputs slot =
     (case block_causal_inputs of
        None \<Rightarrow> Some causal_input_empty
      | Some inputs \<Rightarrow> if slot < length inputs then Some (inputs ! slot) else None)"

text \<open>The loop over the blocks of the prompt; the first argument counts the blocks still to look at.\<close>

fun matched_blocks_from ::
    "(byte list \<Rightarrow> digest) \<Rightarrow> PrefixLookupInputs \<Rightarrow> nat \<Rightarrow> nat \<Rightarrow> BlockKey option \<Rightarrow> LookupDiagnostics
     \<Rightarrow> BlockKey list \<times> LookupDiagnostics" where
  "matched_blocks_from sha inputs 0 block_index parent diagnostics = ([], diagnostics)"
| "matched_blocks_from sha inputs (Suc remaining) block_index parent diagnostics =
     (let block_token_count = mc_block_token_count (li_model_contract inputs);
          block_tokens = take block_token_count (drop (block_index * block_token_count) (li_prompt_tokens inputs))
      in case causal_input_of_slot (li_block_causal_inputs inputs) block_index of
           None \<Rightarrow> ([], record_first_missing block_index None diagnostics)
         | Some causal_input \<Rightarrow>
             (case block_key_for_captured_block sha parent (li_model_contract inputs) block_tokens causal_input of
                Inl _ \<Rightarrow> ([], record_first_missing block_index None diagnostics)
              | Inr key \<Rightarrow>
                  if mc_has_sequence_state (li_model_contract inputs) \<and> \<not> li_kv_block_exists inputs (bk_block_hash key)
                  then ([], record_first_missing block_index (Some (bk_block_hash key)) diagnostics)
                  else (case matched_blocks_from sha inputs remaining (Suc block_index) (Some key) diagnostics of
                          (keys, diagnostics') \<Rightarrow> (key # keys, diagnostics'))))"

definition matched_sequence_state_block_keys ::
    "(byte list \<Rightarrow> digest) \<Rightarrow> PrefixLookupInputs \<Rightarrow> nat \<Rightarrow> LookupDiagnostics \<Rightarrow> BlockKey list \<times> LookupDiagnostics" where
  "matched_sequence_state_block_keys sha inputs maximum_restorable_block_count diagnostics =
     matched_blocks_from sha inputs maximum_restorable_block_count 0 None diagnostics"

definition newest_restorable_boundary_entry ::
    "bool \<Rightarrow> BlockKey list \<Rightarrow> (digest \<Rightarrow> bool) \<Rightarrow> (nat \<times> BlockKey) option" where
  "newest_restorable_boundary_entry has_boundary_state matched_keys recurrent_snapshot_exists =
     find (\<lambda>(_, key). \<not> has_boundary_state \<or> recurrent_snapshot_exists (bk_block_hash key))
       (rev (List.enumerate 0 matched_keys))"

definition boundary_snapshot_miss_reason :: "bool \<Rightarrow> nat option \<Rightarrow> MissReason" where
  "boundary_snapshot_miss_reason has_sequence_state first_missing_index =
     (if has_sequence_state \<and> first_missing_index = Some 0 then RootSequenceStateBlockMissing
      else BoundaryStateSnapshotMissing)"

text \<open>The probe of one partial tail block; the first argument is the number of tokens of the next candidate.\<close>

fun tail_candidates ::
    "(byte list \<Rightarrow> digest) \<Rightarrow> PrefixLookupInputs \<Rightarrow> BlockKey option \<Rightarrow> BlockCausalInput \<Rightarrow> u32 list \<Rightarrow> nat \<Rightarrow> BlockKey option" where
  "tail_candidates sha inputs parent causal_input tail_tokens 0 = None"
| "tail_candidates sha inputs parent causal_input tail_tokens (Suc n) =
     (case block_key_for_captured_block sha parent (li_model_contract inputs) (take (Suc n) tail_tokens) causal_input of
        Inl _ \<Rightarrow> tail_candidates sha inputs parent causal_input tail_tokens n
      | Inr key \<Rightarrow>
          if li_kv_block_exists inputs (bk_block_hash key) \<and> li_recurrent_snapshot_exists inputs (bk_block_hash key)
          then Some key
          else tail_candidates sha inputs parent causal_input tail_tokens n)"

definition probe_restorable_partial_tail_block ::
    "(byte list \<Rightarrow> digest) \<Rightarrow> PrefixLookupInputs \<Rightarrow> BlockKey list \<Rightarrow> bool \<Rightarrow> BlockKey option" where
  "probe_restorable_partial_tail_block sha inputs restored_keys newest_snapshot_is_chain_tip =
     (let contract = li_model_contract inputs;
          prompt_tokens = li_prompt_tokens inputs;
          block_token_count = mc_block_token_count contract
      in if \<not> mc_has_sequence_state contract \<or> prompt_tokens = [] then None
         else let tail_start_tokens = length restored_keys * block_token_count
              in if length prompt_tokens < tail_start_tokens then None
                 else let tail_token_count = length prompt_tokens - tail_start_tokens;
                          retained_suffix = (if li_allow_exact_block_boundary_restore inputs then 0 else 1);
                          maximum_tail_token_count = min (tail_token_count - retained_suffix) (block_token_count - 1)
                      in if tail_token_count = 0 \<or> maximum_tail_token_count = 0 then None
                         else if restored_keys \<noteq> []
                              \<and> (block_token_count \<le> tail_token_count \<or> \<not> newest_snapshot_is_chain_tip)
                         then None
                         else (case causal_input_of_slot (li_block_causal_inputs inputs) (length restored_keys) of
                                 None \<Rightarrow> None
                               | Some causal_input \<Rightarrow>
                                   tail_candidates sha inputs
                                     (if restored_keys = [] then None else Some (last restored_keys))
                                     causal_input (drop tail_start_tokens prompt_tokens) maximum_tail_token_count))"

definition cache_miss_lookup_result :: "u32 list \<Rightarrow> LookupDiagnostics \<Rightarrow> PrefixLookupResult" where
  "cache_miss_lookup_result prompt_tokens diagnostics =
     \<lparr>lr_restored_token_count = 0, lr_remaining_tokens = prompt_tokens, lr_last_restored_block_key = None,
      lr_restored_partial_tail_block_key = None, lr_lookup_diagnostics = diagnostics\<rparr>"

definition prompt_too_short_lookup_result ::
    "(byte list \<Rightarrow> digest) \<Rightarrow> PrefixLookupInputs \<Rightarrow> LookupDiagnostics \<Rightarrow> PrefixLookupResult" where
  "prompt_too_short_lookup_result sha inputs diagnostics =
     (case (if li_probe_partial_tail_blocks inputs then probe_restorable_partial_tail_block sha inputs [] False else None) of
        Some tail_key \<Rightarrow>
          let restored_token_count = unat (bk_token_count tail_key)
          in \<lparr>lr_restored_token_count = restored_token_count,
              lr_remaining_tokens = drop restored_token_count (li_prompt_tokens inputs),
              lr_last_restored_block_key = None, lr_restored_partial_tail_block_key = Some tail_key,
              lr_lookup_diagnostics = diagnostics\<lparr>ld_restored_partial_tail_block_token_count := Some restored_token_count\<rparr>\<rparr>
      | None \<Rightarrow>
          cache_miss_lookup_result (li_prompt_tokens inputs)
            (diagnostics\<lparr>ld_miss_reason := Some PromptTooShortForPersistentPromptCache\<rparr>))"

definition restored_prefix_lookup_result ::
    "(byte list \<Rightarrow> digest) \<Rightarrow> PrefixLookupInputs \<Rightarrow> BlockKey list \<Rightarrow> nat \<Rightarrow> BlockKey \<Rightarrow> LookupDiagnostics \<Rightarrow> PrefixLookupResult" where
  "restored_prefix_lookup_result sha inputs matched_keys snapshot_block_index restored_key diagnostics =
     (let prompt_tokens = li_prompt_tokens inputs;
          restored_block_count = unat (bk_block_index restored_key) + 1;
          restored_complete_token_count = restored_block_count * mc_block_token_count (li_model_contract inputs)
      in if restored_complete_token_count = 0 \<or> length prompt_tokens < restored_complete_token_count
         then cache_miss_lookup_result prompt_tokens (diagnostics\<lparr>ld_miss_reason := Some BoundaryStateSnapshotMissing\<rparr>)
         else let tail_key = (if li_probe_partial_tail_blocks inputs
                              then probe_restorable_partial_tail_block sha inputs matched_keys
                                     (snapshot_block_index + 1 = length matched_keys)
                              else None);
                  tail_token_count = map_option (\<lambda>key. unat (bk_token_count key)) tail_key;
                  restored_token_count = restored_complete_token_count
                    + (case tail_token_count of None \<Rightarrow> 0 | Some n \<Rightarrow> n)
              in \<lparr>lr_restored_token_count = restored_token_count,
                  lr_remaining_tokens = drop restored_token_count prompt_tokens,
                  lr_last_restored_block_key = Some restored_key,
                  lr_restored_partial_tail_block_key = tail_key,
                  lr_lookup_diagnostics =
                    (case tail_token_count of
                       None \<Rightarrow> diagnostics
                     | Some n \<Rightarrow> diagnostics\<lparr>ld_restored_partial_tail_block_token_count := Some n\<rparr>)\<rparr>)"

section \<open>The lookup\<close>

definition lookup_with_boundary_policy :: "(byte list \<Rightarrow> digest) \<Rightarrow> PrefixLookupInputs \<Rightarrow> PrefixLookupResult" where
  "lookup_with_boundary_policy sha inputs =
     (let contract = li_model_contract inputs;
          (complete_count, maximum_count) =
            complete_and_maximum_restorable_block_counts (length (li_prompt_tokens inputs))
              (mc_block_token_count contract) (li_allow_exact_block_boundary_restore inputs);
          diagnostics = diagnostics_new complete_count maximum_count
      in if maximum_count = 0 then prompt_too_short_lookup_result sha inputs diagnostics
         else let (matched_keys, diagnostics1) = matched_sequence_state_block_keys sha inputs maximum_count diagnostics;
                  diagnostics2 = (if mc_has_sequence_state contract
                                  then diagnostics1\<lparr>ld_matched_sequence_state_block_count := length matched_keys\<rparr>
                                  else diagnostics1)
              in case newest_restorable_boundary_entry (mc_has_boundary_state contract) matched_keys
                        (li_recurrent_snapshot_exists inputs) of
                   None \<Rightarrow>
                     cache_miss_lookup_result (li_prompt_tokens inputs)
                       (diagnostics2\<lparr>ld_miss_reason := Some (boundary_snapshot_miss_reason
                          (mc_has_sequence_state contract) (ld_first_missing_sequence_state_block_index diagnostics2))\<rparr>)
                 | Some (snapshot_block_index, restored_key) \<Rightarrow>
                     restored_prefix_lookup_result sha inputs matched_keys snapshot_block_index restored_key
                       (diagnostics2\<lparr>ld_newest_boundary_state_snapshot_block_index := Some snapshot_block_index\<rparr>))"

text \<open>The public lookups fix the two policies.\<close>

definition for_prompt ::
    "(byte list \<Rightarrow> digest) \<Rightarrow> model_contract \<Rightarrow> u32 list \<Rightarrow> (digest \<Rightarrow> bool) \<Rightarrow> (digest \<Rightarrow> bool) \<Rightarrow> PrefixLookupResult" where
  "for_prompt sha contract prompt_tokens kv_block_exists recurrent_snapshot_exists =
     lookup_with_boundary_policy sha
       \<lparr>li_model_contract = contract, li_prompt_tokens = prompt_tokens, li_block_causal_inputs = None,
        li_allow_exact_block_boundary_restore = False, li_probe_partial_tail_blocks = False,
        li_kv_block_exists = kv_block_exists, li_recurrent_snapshot_exists = recurrent_snapshot_exists\<rparr>"

definition for_complete_prefix ::
    "(byte list \<Rightarrow> digest) \<Rightarrow> model_contract \<Rightarrow> u32 list \<Rightarrow> (digest \<Rightarrow> bool) \<Rightarrow> (digest \<Rightarrow> bool) \<Rightarrow> PrefixLookupResult" where
  "for_complete_prefix sha contract prompt_tokens kv_block_exists recurrent_snapshot_exists =
     lookup_with_boundary_policy sha
       \<lparr>li_model_contract = contract, li_prompt_tokens = prompt_tokens, li_block_causal_inputs = None,
        li_allow_exact_block_boundary_restore = True, li_probe_partial_tail_blocks = False,
        li_kv_block_exists = kv_block_exists, li_recurrent_snapshot_exists = recurrent_snapshot_exists\<rparr>"

definition for_prompt_with_block_causal_inputs ::
    "(byte list \<Rightarrow> digest) \<Rightarrow> model_contract \<Rightarrow> u32 list \<Rightarrow> BlockCausalInput list
     \<Rightarrow> (digest \<Rightarrow> bool) \<Rightarrow> (digest \<Rightarrow> bool) \<Rightarrow> PrefixLookupResult" where
  "for_prompt_with_block_causal_inputs sha contract prompt_tokens block_causal_inputs kv_block_exists recurrent_snapshot_exists =
     lookup_with_boundary_policy sha
       \<lparr>li_model_contract = contract, li_prompt_tokens = prompt_tokens, li_block_causal_inputs = Some block_causal_inputs,
        li_allow_exact_block_boundary_restore = False, li_probe_partial_tail_blocks = False,
        li_kv_block_exists = kv_block_exists, li_recurrent_snapshot_exists = recurrent_snapshot_exists\<rparr>"

definition for_retained_complete_block_keys ::
    "(byte list \<Rightarrow> digest) \<Rightarrow> model_contract \<Rightarrow> u32 list \<Rightarrow> BlockCausalInput list \<Rightarrow> BlockKey list
     \<Rightarrow> (digest \<Rightarrow> bool) \<Rightarrow> PrefixLookupResult" where
  "for_retained_complete_block_keys sha contract prompt_tokens block_causal_inputs retained_keys recurrent_snapshot_exists =
     lookup_with_boundary_policy sha
       \<lparr>li_model_contract = contract, li_prompt_tokens = prompt_tokens,
        li_block_causal_inputs = (if block_causal_inputs = [] then None else Some block_causal_inputs),
        li_allow_exact_block_boundary_restore = False, li_probe_partial_tail_blocks = False,
        li_kv_block_exists = (\<lambda>hash. List.member (map bk_block_hash retained_keys) hash),
        li_recurrent_snapshot_exists = recurrent_snapshot_exists\<rparr>"

definition for_prompt_with_partial_tail_block_recovery ::
    "(byte list \<Rightarrow> digest) \<Rightarrow> model_contract \<Rightarrow> u32 list \<Rightarrow> BlockCausalInput list
     \<Rightarrow> (digest \<Rightarrow> bool) \<Rightarrow> (digest \<Rightarrow> bool) \<Rightarrow> PrefixLookupResult" where
  "for_prompt_with_partial_tail_block_recovery sha contract prompt_tokens block_causal_inputs kv_block_exists recurrent_snapshot_exists =
     lookup_with_boundary_policy sha
       \<lparr>li_model_contract = contract, li_prompt_tokens = prompt_tokens,
        li_block_causal_inputs = (if block_causal_inputs = [] then None else Some block_causal_inputs),
        li_allow_exact_block_boundary_restore = False, li_probe_partial_tail_blocks = True,
        li_kv_block_exists = kv_block_exists, li_recurrent_snapshot_exists = recurrent_snapshot_exists\<rparr>"

section \<open>Lemmas\<close>

text \<open>The loop reads the keys of the chain that the prompt spells, while the store holds them.\<close>

fun keys_of_chain :: "(byte list \<Rightarrow> digest) \<Rightarrow> model_contract \<Rightarrow> BlockKey option \<Rightarrow> chain \<Rightarrow> BlockKey list" where
  "keys_of_chain sha contract parent [] = []"
| "keys_of_chain sha contract parent ((block_tokens, causal) # blocks) =
     (case block_key_for_captured_block sha parent contract block_tokens causal of
        Inl _ \<Rightarrow> []
      | Inr key \<Rightarrow> key # keys_of_chain sha contract (Some key) blocks)"

fun slot_blocks :: "PrefixLookupInputs \<Rightarrow> nat \<Rightarrow> nat \<Rightarrow> chain" where
  "slot_blocks inputs 0 slot = []"
| "slot_blocks inputs (Suc remaining) slot =
     (case causal_input_of_slot (li_block_causal_inputs inputs) slot of
        None \<Rightarrow> []
      | Some causal \<Rightarrow>
          (let block_token_count = mc_block_token_count (li_model_contract inputs)
           in (take block_token_count (drop (slot * block_token_count) (li_prompt_tokens inputs)), causal))
          # slot_blocks inputs remaining (Suc slot))"

definition stored_key :: "PrefixLookupInputs \<Rightarrow> BlockKey \<Rightarrow> bool" where
  "stored_key inputs key \<longleftrightarrow>
     (mc_has_sequence_state (li_model_contract inputs) \<longrightarrow> li_kv_block_exists inputs (bk_block_hash key))"

definition boundary_key :: "PrefixLookupInputs \<Rightarrow> BlockKey \<Rightarrow> bool" where
  "boundary_key inputs key \<longleftrightarrow>
     (mc_has_boundary_state (li_model_contract inputs) \<longrightarrow> li_recurrent_snapshot_exists inputs (bk_block_hash key))"

lemma matched_blocks_from_keys:
  "fst (matched_blocks_from sha inputs remaining slot parent diagnostics)
     = takeWhile (stored_key inputs) (keys_of_chain sha (li_model_contract inputs) parent (slot_blocks inputs remaining slot))"
proof (induction remaining arbitrary: slot parent diagnostics)
  case (Suc remaining)
  show ?case
    by (auto simp: Let_def split_def Suc.IH stored_key_def split: option.splits sum.splits)
qed simp

lemma slot_blocks_length: "length (slot_blocks inputs remaining slot) \<le> remaining"
proof (induction remaining arbitrary: slot)
  case (Suc remaining)
  then show ?case by (cases "causal_input_of_slot (li_block_causal_inputs inputs) slot") simp_all
qed simp

lemma slot_blocks_take: "n \<le> remaining \<Longrightarrow> slot_blocks inputs n slot = take n (slot_blocks inputs remaining slot)"
proof (induction remaining arbitrary: n slot)
  case (Suc remaining)
  show ?case
  proof (cases n)
    case (Suc m)
    with Suc.prems show ?thesis using Suc.IH [of m "Suc slot"]
      by (cases "causal_input_of_slot (li_block_causal_inputs inputs) slot") simp_all
  qed simp
qed simp

lemma slot_blocks_nth:
  "i < length (slot_blocks inputs remaining slot) \<Longrightarrow>
   \<exists>causal. causal_input_of_slot (li_block_causal_inputs inputs) (slot + i) = Some causal
     \<and> slot_blocks inputs remaining slot ! i
       = (take (mc_block_token_count (li_model_contract inputs))
           (drop ((slot + i) * mc_block_token_count (li_model_contract inputs)) (li_prompt_tokens inputs)), causal)"
proof (induction remaining arbitrary: i slot)
  case (Suc remaining)
  then obtain causal where causal: "causal_input_of_slot (li_block_causal_inputs inputs) slot = Some causal"
    by (cases "causal_input_of_slot (li_block_causal_inputs inputs) slot") auto
  show ?case
  proof (cases i)
    case 0
    then show ?thesis by (simp add: causal Let_def)
  next
    case (Suc j)
    then show ?thesis using Suc.IH [of j "Suc slot"] Suc.prems by (simp add: causal)
  qed
qed simp

lemma take_of_blocks: "take n (drop (i * n) xs) @ take m (drop (Suc i * n) xs) = take (n + m) (drop (i * n) xs)"
  by (simp add: take_add)

lemma slot_blocks_tokens:
  "length (slot_blocks inputs n slot) = n \<Longrightarrow>
   concat (map fst (slot_blocks inputs n slot))
     = take (n * mc_block_token_count (li_model_contract inputs))
         (drop (slot * mc_block_token_count (li_model_contract inputs)) (li_prompt_tokens inputs))"
proof (induction n arbitrary: slot)
  case (Suc n)
  let ?B = "mc_block_token_count (li_model_contract inputs)"
  obtain causal where causal: "causal_input_of_slot (li_block_causal_inputs inputs) slot = Some causal"
    using Suc.prems by (cases "causal_input_of_slot (li_block_causal_inputs inputs) slot") auto
  then have "length (slot_blocks inputs n (Suc slot)) = n" using Suc.prems by simp
  from Suc.IH [OF this] show ?case
    using take_of_blocks [of ?B slot "li_prompt_tokens inputs" "n * ?B"] by (simp add: causal Let_def)
qed simp

text \<open>The keys of a chain whose blocks fit, one per block, in terms of the digests of its prefixes.\<close>

lemma keys_of_chain_nth:
  assumes "i < length (keys_of_chain sha contract parent bs)"
  shows "extend_chain sha contract parent (take (Suc i) bs) = Inr (Some (keys_of_chain sha contract parent bs ! i))"
  using assms
proof (induction bs arbitrary: i parent)
  case (Cons b bs)
  obtain ts c where b: "b = (ts, c)" by (cases b)
  from Cons.prems obtain k where k: "block_key_for_captured_block sha parent contract ts c = Inr k"
    by (auto simp: b split: sum.splits)
  show ?case
  proof (cases i)
    case 0
    then show ?thesis by (simp add: b k)
  next
    case (Suc j)
    then show ?thesis using Cons.IH [of j "Some k"] Cons.prems by (simp add: b k)
  qed
qed simp

lemma keys_of_chain_length:
  assumes "\<forall>b \<in> set bs. fst b \<noteq> [] \<and> length (fst b) \<le> mc_block_token_count contract \<and> length (fst b) < 2 ^ 32"
    "key_of_contract contract parent"
    "(case parent of None \<Rightarrow> 0 | Some k \<Rightarrow> unat (bk_block_index k) + 1) + length bs \<le> 2 ^ 32"
  shows "length (keys_of_chain sha contract parent bs) = length bs"
  using assms
proof (induction bs arbitrary: parent)
  case (Cons b bs)
  obtain ts c where b: "b = (ts, c)" by (cases b)
  obtain k where k: "block_key_for_captured_block sha parent contract ts c = Inr k"
    using captured_key_exists [of ts contract parent sha c] Cons.prems by (auto simp: b split: option.splits)
  note fields = captured_key_fields [OF k]
  have "key_of_contract contract (Some k)" using fields Cons.prems(2) by (auto simp: key_of_contract_def split: option.splits)
  then show ?case using Cons.IH [of "Some k"] Cons.prems(1,3) fields(5) by (auto simp: b k split: option.splits)
qed simp

text \<open>The newest block whose boundary snapshot is kept, if any.\<close>

lemma newest_entry_None:
  "newest_restorable_boundary_entry hb ks snap = None \<longleftrightarrow> (\<forall>m < length ks. hb \<and> \<not> snap (bk_block_hash (ks ! m)))"
  by (auto simp: newest_restorable_boundary_entry_def find_None_iff in_set_enumerate_eq)

lemma rev_enumerate_nth: "i < length ks \<Longrightarrow> rev (List.enumerate 0 ks) ! i = (length ks - Suc i, ks ! (length ks - Suc i))"
  by (simp add: rev_nth nth_enumerate_eq)

lemma find_newest:
  assumes "find P (rev (List.enumerate 0 ks)) = Some (n, k)"
  shows "n < length ks \<and> k = ks ! n \<and> P (n, k) \<and> (\<forall>m. n < m \<and> m < length ks \<longrightarrow> \<not> P (m, ks ! m))"
proof -
  obtain i where i: "i < length ks" "P (n, k)"
    "(n, k) = rev (List.enumerate 0 ks) ! i" and b: "\<forall>j < i. \<not> P (rev (List.enumerate 0 ks) ! j)"
    using assms unfolding find_Some_iff by auto
  then have nk: "n = length ks - Suc i" "k = ks ! (length ks - Suc i)" by (simp_all add: rev_enumerate_nth)
  have "\<not> P (m, ks ! m)" if m: "n < m" "m < length ks" for m
  proof -
    have "length ks - Suc m < i" "length ks - Suc (length ks - Suc m) = m" using i(1) nk(1) m by linarith+
    then show ?thesis using b rev_enumerate_nth [of "length ks - Suc m" ks] m(2) by auto
  qed
  moreover have "n < length ks" using i(1) nk(1) by linarith
  moreover have "k = ks ! n" using nk by simp
  ultimately show ?thesis using i(2) by simp
qed

lemma newest_entry_SomeD:
  assumes "newest_restorable_boundary_entry hb ks snap = Some (n, k)"
  shows "n < length ks" "k = ks ! n" "hb \<Longrightarrow> snap (bk_block_hash k)"
    "\<And>m. n < m \<Longrightarrow> m < length ks \<Longrightarrow> hb \<and> \<not> snap (bk_block_hash (ks ! m))"
  using find_newest [OF assms [unfolded newest_restorable_boundary_entry_def]] by auto

end
