(* ===== verification/Cache_Restore.thy ===== *)
theory Cache_Restore
  imports Cache_Lookup
begin

text \<open>
  What a prompt-cache lookup promises. The abstract side speaks of the chain that a prompt spells and of
  the digests of its prefixes; the lemmas relate the loops of \<^verbatim>\<open>prefix_lookup_steps.rs\<close> to it, the
  theorems state what \<^verbatim>\<open>prefix_lookup.rs\<close> returns.
\<close>

section \<open>The chain that a prompt spells\<close>

definition plan_covers :: "PrefixLookupInputs \<Rightarrow> nat \<Rightarrow> bool" where
  "plan_covers inputs n \<longleftrightarrow> (case li_block_causal_inputs inputs of None \<Rightarrow> True | Some plan \<Rightarrow> n \<le> length plan)"

definition prompt_chain :: "PrefixLookupInputs \<Rightarrow> nat \<Rightarrow> chain" where
  "prompt_chain inputs n =
     (let B = mc_block_token_count (li_model_contract inputs)
      in map (\<lambda>i. (take B (drop (i * B) (li_prompt_tokens inputs)), the (causal_input_of_slot (li_block_causal_inputs inputs) i)))
           [0..<n])"

definition prefix_digest :: "(byte list \<Rightarrow> digest) \<Rightarrow> PrefixLookupInputs \<Rightarrow> nat \<Rightarrow> digest" where
  "prefix_digest sha inputs n =
     the (chain_hash sha (mc_storage_contract_fingerprint (li_model_contract inputs)) (prompt_chain inputs n))"

definition maximum_blocks :: "PrefixLookupInputs \<Rightarrow> nat" where
  "maximum_blocks inputs = snd (complete_and_maximum_restorable_block_counts (length (li_prompt_tokens inputs))
     (mc_block_token_count (li_model_contract inputs)) (li_allow_exact_block_boundary_restore inputs))"

text \<open>A number of blocks that can be restored: all of them stored, with the boundary state after the last.\<close>

definition restorable :: "(byte list \<Rightarrow> digest) \<Rightarrow> PrefixLookupInputs \<Rightarrow> nat \<Rightarrow> bool" where
  "restorable sha inputs n \<longleftrightarrow>
     0 < n \<and> n \<le> maximum_blocks inputs \<and> plan_covers inputs n
     \<and> (mc_has_sequence_state (li_model_contract inputs)
        \<longrightarrow> (\<forall>i \<in> {1..n}. li_kv_block_exists inputs (prefix_digest sha inputs i)))
     \<and> (mc_has_boundary_state (li_model_contract inputs)
        \<longrightarrow> li_recurrent_snapshot_exists inputs (prefix_digest sha inputs n))"

text \<open>Sizes of a prompt in memory and of a block: the token counts and block indexes fit 32 bits.\<close>

definition lookup_ready :: "PrefixLookupInputs \<Rightarrow> bool" where
  "lookup_ready inputs \<longleftrightarrow>
     0 < mc_block_token_count (li_model_contract inputs)
     \<and> mc_block_token_count (li_model_contract inputs) < 2 ^ 32
     \<and> length (li_prompt_tokens inputs) < 2 ^ 32"

section \<open>Lemmas\<close>

lemma slot_blocks_length_eq:
  "length (slot_blocks inputs m s)
     = (case li_block_causal_inputs inputs of None \<Rightarrow> m | Some plan \<Rightarrow> min m (length plan - s))"
proof (induction m arbitrary: s)
  case (Suc m)
  show ?case
  proof (cases "li_block_causal_inputs inputs")
    case None
    then show ?thesis using Suc [of "Suc s"] by (simp add: causal_input_of_slot_def)
  next
    case (Some plan)
    then show ?thesis using Suc [of "Suc s"] by (auto simp: causal_input_of_slot_def min_def)
  qed
qed (simp split: option.splits)

lemma prompt_chain_length [simp]: "length (prompt_chain inputs n) = n"
  by (simp add: prompt_chain_def Let_def)

lemma prompt_chain_Nil [simp]: "prompt_chain inputs n = [] \<longleftrightarrow> n = 0"
  by (metis length_0_conv prompt_chain_length)

lemma prompt_chain_take: "m \<le> n \<Longrightarrow> take m (prompt_chain inputs n) = prompt_chain inputs m"
  by (simp add: prompt_chain_def Let_def take_map)

lemma prompt_chain_slots: "plan_covers inputs n \<Longrightarrow> slot_blocks inputs n 0 = prompt_chain inputs n"
proof (rule nth_equalityI)
  assume "plan_covers inputs n"
  then show len: "length (slot_blocks inputs n 0) = length (prompt_chain inputs n)"
    by (simp add: slot_blocks_length_eq plan_covers_def split: option.splits)
  fix i assume "i < length (slot_blocks inputs n 0)"
  then show "slot_blocks inputs n 0 ! i = prompt_chain inputs n ! i"
    using slot_blocks_nth [of i inputs n 0] len by (auto simp: prompt_chain_def Let_def)
qed

lemma plan_covers_slots: "n \<le> m \<Longrightarrow> n \<le> length (slot_blocks inputs m 0) \<longleftrightarrow> plan_covers inputs n"
  by (auto simp: slot_blocks_length_eq plan_covers_def split: option.splits)

lemma maximum_blocks_fit:
  assumes "lookup_ready inputs"
  shows "maximum_blocks inputs * mc_block_token_count (li_model_contract inputs) \<le> length (li_prompt_tokens inputs)"
    "maximum_blocks inputs < 2 ^ 32"
    "\<not> li_allow_exact_block_boundary_restore inputs \<Longrightarrow> li_prompt_tokens inputs \<noteq> [] \<Longrightarrow>
       maximum_blocks inputs * mc_block_token_count (li_model_contract inputs) < length (li_prompt_tokens inputs)"
proof -
  let ?B = "mc_block_token_count (li_model_contract inputs)" and ?L = "length (li_prompt_tokens inputs)"
  have B: "0 < ?B" using assms by (simp add: lookup_ready_def)
  have M: "maximum_blocks inputs \<le> ?L div ?B"
    by (simp add: maximum_blocks_def complete_and_maximum_restorable_block_counts_def Let_def)
  have le: "?L div ?B * ?B \<le> ?L" by (rule div_times_less_eq_dividend)
  show "maximum_blocks inputs * ?B \<le> ?L" using mult_le_mono1 [OF M, of ?B] le by linarith
  have "?L div ?B \<le> ?L" by simp
  then show "maximum_blocks inputs < 2 ^ 32" using M assms unfolding lookup_ready_def by linarith
  assume exact: "\<not> li_allow_exact_block_boundary_restore inputs" and ne: "li_prompt_tokens inputs \<noteq> []"
  show "maximum_blocks inputs * ?B < ?L"
  proof (cases "?L mod ?B = 0")
    case True
    then have eq: "?L div ?B * ?B = ?L" by (metis div_mult_mod_eq add.right_neutral)
    then have "0 < ?L div ?B" using ne by (metis gr0I length_0_conv mult_0)
    then have "(?L div ?B - 1) * ?B < ?L div ?B * ?B" using B by simp
    then show ?thesis using True exact eq
      by (simp add: maximum_blocks_def complete_and_maximum_restorable_block_counts_def Let_def)
  next
    case False
    then have "?L div ?B * ?B < ?L" using div_mult_mod_eq [of ?L ?B] by linarith
    then show ?thesis using mult_le_mono1 [OF M, of ?B] by linarith
  qed
qed

lemma takeWhile_length_ge: "n \<le> length (takeWhile P xs) \<longleftrightarrow> n \<le> length xs \<and> (\<forall>i < n. P (xs ! i))"
proof
  assume n: "n \<le> length (takeWhile P xs)"
  show "n \<le> length xs \<and> (\<forall>i < n. P (xs ! i))"
  proof (intro conjI allI impI)
    show "n \<le> length xs" using n length_takeWhile_le [of P xs] by linarith
    fix i assume "i < n"
    then have "i < length (takeWhile P xs)" using n by linarith
    then show "P (xs ! i)" by (metis nth_mem set_takeWhileD takeWhile_nth)
  qed
next
  assume r: "n \<le> length xs \<and> (\<forall>i < n. P (xs ! i))"
  show "n \<le> length (takeWhile P xs)"
  proof (rule ccontr)
    assume "\<not> n \<le> length (takeWhile P xs)"
    then have less: "length (takeWhile P xs) < length xs" "length (takeWhile P xs) < n" using r by linarith+
    then show False using nth_length_takeWhile [OF less(1)] r by blast
  qed
qed

text \<open>The keys of a prompt: one per covered block, with its index, its token count and the digest of its prefix.\<close>

abbreviation prompt_keys :: "(byte list \<Rightarrow> digest) \<Rightarrow> PrefixLookupInputs \<Rightarrow> nat \<Rightarrow> BlockKey list" where
  "prompt_keys sha inputs m \<equiv> keys_of_chain sha (li_model_contract inputs) None (slot_blocks inputs m 0)"

lemma prompt_keys_length:
  assumes "lookup_ready inputs" "m \<le> maximum_blocks inputs"
  shows "length (prompt_keys sha inputs m) = length (slot_blocks inputs m 0)"
proof (rule keys_of_chain_length)
  let ?B = "mc_block_token_count (li_model_contract inputs)" and ?L = "length (li_prompt_tokens inputs)"
  have B: "0 < ?B" "?B < 2 ^ 32" using assms(1) by (auto simp: lookup_ready_def)
  show "key_of_contract (li_model_contract inputs) None" by (simp add: key_of_contract_def)
  show "(case None of None \<Rightarrow> 0 | Some k \<Rightarrow> unat (bk_block_index k) + 1) + length (slot_blocks inputs m 0) \<le> 2 ^ 32"
    using slot_blocks_length [of inputs m 0] assms(2) maximum_blocks_fit(2) [OF assms(1)] by simp
  show "\<forall>b \<in> set (slot_blocks inputs m 0). fst b \<noteq> [] \<and> length (fst b) \<le> ?B \<and> length (fst b) < 2 ^ 32"
  proof
    fix b assume "b \<in> set (slot_blocks inputs m 0)"
    then obtain i where i: "i < length (slot_blocks inputs m 0)" "b = slot_blocks inputs m 0 ! i"
      by (auto simp: in_set_conv_nth)
    have "fst b = take ?B (drop (i * ?B) (li_prompt_tokens inputs))" using slot_blocks_nth [OF i(1)] i(2) by auto
    moreover have "i < maximum_blocks inputs" using i(1) slot_blocks_length [of inputs m 0] assms(2) by linarith
    then have "Suc i * ?B \<le> maximum_blocks inputs * ?B" by (intro mult_le_mono1) simp
    then have "i * ?B + ?B \<le> ?L" using maximum_blocks_fit(1) [OF assms(1)] by simp
    ultimately have "length (fst b) = ?B" by simp
    then show "fst b \<noteq> [] \<and> length (fst b) \<le> ?B \<and> length (fst b) < 2 ^ 32" using B by auto
  qed
qed

lemma prompt_keys_nth:
  assumes ready: "lookup_ready inputs" and m: "m \<le> maximum_blocks inputs" and i: "i < length (prompt_keys sha inputs m)"
  shows "bk_block_hash (prompt_keys sha inputs m ! i) = prefix_digest sha inputs (Suc i)"
    "unat (bk_block_index (prompt_keys sha inputs m ! i)) = i"
    "key_of_contract (li_model_contract inputs) (Some (prompt_keys sha inputs m ! i))"
proof -
  let ?c = "li_model_contract inputs" and ?bs = "slot_blocks inputs m 0"
  have i': "Suc i \<le> length ?bs" using i prompt_keys_length [OF ready m] by simp
  have chain: "take (Suc i) ?bs = prompt_chain inputs (Suc i)"
  proof -
    have "Suc i \<le> m" using i' slot_blocks_length [of inputs m 0] by linarith
    then show ?thesis using i' slot_blocks_take [of "Suc i" m inputs 0] plan_covers_slots [of "Suc i" m inputs]
        prompt_chain_slots [of inputs "Suc i"] by simp
  qed
  note ext = keys_of_chain_nth [OF i, unfolded chain]
  have ne: "prompt_chain inputs (Suc i) \<noteq> []" using prompt_chain_length [of inputs "Suc i"] by force
  have root: "key_of_contract ?c None" by (simp add: key_of_contract_def)
  note key = extend_chain_key [OF ext ne root]
  show "bk_block_hash (prompt_keys sha inputs m ! i) = prefix_digest sha inputs (Suc i)"
    using key(1) ne by (simp add: prefix_digest_def chain_hash_def split: list.splits)
  show "unat (bk_block_index (prompt_keys sha inputs m ! i)) = i" using key(4) by simp
  show "key_of_contract ?c (Some (prompt_keys sha inputs m ! i))" by (rule key(2))
qed


text \<open>The matched blocks are the stored prefixes, and the newest one with boundary state is the longest restorable.\<close>

abbreviation matched_keys :: "(byte list \<Rightarrow> digest) \<Rightarrow> PrefixLookupInputs \<Rightarrow> BlockKey list" where
  "matched_keys sha inputs \<equiv> takeWhile (stored_key inputs) (prompt_keys sha inputs (maximum_blocks inputs))"

lemma restorable_matched:
  assumes ready: "lookup_ready inputs"
  shows "restorable sha inputs n \<longleftrightarrow>
     0 < n \<and> n \<le> length (matched_keys sha inputs)
     \<and> (mc_has_boundary_state (li_model_contract inputs)
        \<longrightarrow> li_recurrent_snapshot_exists inputs (bk_block_hash (matched_keys sha inputs ! (n - 1))))"
proof -
  let ?m = "maximum_blocks inputs" and ?ks = "prompt_keys sha inputs (maximum_blocks inputs)"
  note len = prompt_keys_length [OF ready order.refl]
  have covered: "n \<le> length ?ks \<longleftrightarrow> n \<le> ?m \<and> plan_covers inputs n"
    using len plan_covers_slots [of n ?m inputs] slot_blocks_length [of inputs ?m 0] by (metis order.trans)
  have digest: "bk_block_hash (?ks ! i) = prefix_digest sha inputs (Suc i)" if "i < length ?ks" for i
    by (rule prompt_keys_nth(1) [OF ready order.refl that])
  have stored: "(\<forall>i < n. stored_key inputs (?ks ! i)) \<longleftrightarrow>
      (mc_has_sequence_state (li_model_contract inputs)
        \<longrightarrow> (\<forall>i \<in> {1..n}. li_kv_block_exists inputs (prefix_digest sha inputs i)))" if "n \<le> length ?ks"
  proof -
    have "(\<forall>i < n. stored_key inputs (?ks ! i)) \<longleftrightarrow>
      (\<forall>i < n. mc_has_sequence_state (li_model_contract inputs) \<longrightarrow> li_kv_block_exists inputs (prefix_digest sha inputs (Suc i)))"
      using that digest by (auto simp: stored_key_def)
    also have "\<dots> \<longleftrightarrow> (mc_has_sequence_state (li_model_contract inputs)
        \<longrightarrow> (\<forall>i \<in> {1..n}. li_kv_block_exists inputs (prefix_digest sha inputs i)))"
      by (auto simp: Ball_def less_eq_Suc_le) (metis Suc_pred' less_Suc_eq_le not_less_eq_eq zero_less_Suc Suc_le_eq less_le_trans)+
    finally show ?thesis .
  qed
  show ?thesis
  proof (cases "n \<le> length (matched_keys sha inputs)")
    case True
    then have n: "n \<le> length ?ks" "\<forall>i < n. stored_key inputs (?ks ! i)" by (simp_all add: takeWhile_length_ge)
    show ?thesis
    proof (cases "n = 0")
      case False
      then have "matched_keys sha inputs ! (n - 1) = ?ks ! (n - 1)" using True by (intro takeWhile_nth) simp
      moreover have "bk_block_hash (?ks ! (n - 1)) = prefix_digest sha inputs n"
        using digest [of "n - 1"] n(1) False by simp
      ultimately show ?thesis using True n covered stored [OF n(1)] False by (simp add: restorable_def)
    qed (simp add: restorable_def)
  next
    case False
    then have "\<not> (n \<le> length ?ks \<and> (\<forall>i < n. stored_key inputs (?ks ! i)))" by (simp add: takeWhile_length_ge)
    then show ?thesis using False covered stored by (auto simp: restorable_def)
  qed
qed


abbreviation newest_entry :: "(byte list \<Rightarrow> digest) \<Rightarrow> PrefixLookupInputs \<Rightarrow> (nat \<times> BlockKey) option" where
  "newest_entry sha inputs \<equiv>
     newest_restorable_boundary_entry (mc_has_boundary_state (li_model_contract inputs)) (matched_keys sha inputs)
       (li_recurrent_snapshot_exists inputs)"

definition tail_tokens :: "BlockKey option \<Rightarrow> nat" where
  "tail_tokens tail = (case tail of None \<Rightarrow> 0 | Some key \<Rightarrow> unat (bk_token_count key))"

lemma matched_fst:
  "fst (matched_sequence_state_block_keys sha inputs (maximum_blocks inputs) d) = matched_keys sha inputs"
  by (simp add: matched_sequence_state_block_keys_def matched_blocks_from_keys)

lemma lookup_newest_None:
  assumes entry: "newest_entry sha inputs = None"
  defines "r \<equiv> lookup_with_boundary_policy sha inputs"
    and "tail \<equiv> if maximum_blocks inputs = 0 \<and> li_probe_partial_tail_blocks inputs
           then probe_restorable_partial_tail_block sha inputs [] False else None"
  shows "lr_last_restored_block_key r = None" "lr_restored_partial_tail_block_key r = tail"
    "lr_restored_token_count r = tail_tokens tail"
    "lr_remaining_tokens r = drop (tail_tokens tail) (li_prompt_tokens inputs)"
proof -
  obtain c where counts: "complete_and_maximum_restorable_block_counts (length (li_prompt_tokens inputs))
      (mc_block_token_count (li_model_contract inputs)) (li_allow_exact_block_boundary_restore inputs) = (c, maximum_blocks inputs)"
    by (metis maximum_blocks_def prod.collapse)
  show "lr_last_restored_block_key r = None" "lr_restored_partial_tail_block_key r = tail"
    "lr_restored_token_count r = tail_tokens tail"
    "lr_remaining_tokens r = drop (tail_tokens tail) (li_prompt_tokens inputs)"
    using entry
    by (auto simp: r_def tail_def lookup_with_boundary_policy_def Let_def counts split_def matched_fst tail_tokens_def
        prompt_too_short_lookup_result_def cache_miss_lookup_result_def split: option.splits)
qed

lemma newest_entry_key:
  assumes ready: "lookup_ready inputs" and entry: "newest_entry sha inputs = Some (i, k)"
  shows "i < maximum_blocks inputs" "unat (bk_block_index k) = i" "bk_block_hash k = prefix_digest sha inputs (Suc i)"
    "key_of_contract (li_model_contract inputs) (Some k)" "i < length (matched_keys sha inputs)"
    "k = matched_keys sha inputs ! i"
proof -
  note entry' = newest_entry_SomeD [OF entry]
  have i: "i < length (prompt_keys sha inputs (maximum_blocks inputs))"
    using entry'(1) length_takeWhile_le [of "stored_key inputs" "prompt_keys sha inputs (maximum_blocks inputs)"] by linarith
  have k: "k = prompt_keys sha inputs (maximum_blocks inputs) ! i" using entry'(1,2) by (simp add: takeWhile_nth)
  show "i < maximum_blocks inputs"
    using i prompt_keys_length [OF ready order.refl, of sha] slot_blocks_length [of inputs "maximum_blocks inputs" 0] by simp
  show "unat (bk_block_index k) = i" "bk_block_hash k = prefix_digest sha inputs (Suc i)"
    "key_of_contract (li_model_contract inputs) (Some k)"
    unfolding k using prompt_keys_nth [OF ready order.refl i] by simp_all
  show "i < length (matched_keys sha inputs)" "k = matched_keys sha inputs ! i" using entry' by simp_all
qed

lemma lookup_newest_Some:
  assumes ready: "lookup_ready inputs" and entry: "newest_entry sha inputs = Some (i, k)"
  defines "r \<equiv> lookup_with_boundary_policy sha inputs"
    and "complete \<equiv> Suc i * mc_block_token_count (li_model_contract inputs)"
    and "tail \<equiv> if li_probe_partial_tail_blocks inputs
           then probe_restorable_partial_tail_block sha inputs (matched_keys sha inputs) (i + 1 = length (matched_keys sha inputs))
           else None"
  shows "lr_last_restored_block_key r = Some k" "lr_restored_partial_tail_block_key r = tail"
    "lr_restored_token_count r = complete + tail_tokens tail"
    "lr_remaining_tokens r = drop (complete + tail_tokens tail) (li_prompt_tokens inputs)"
proof -
  obtain c where counts: "complete_and_maximum_restorable_block_counts (length (li_prompt_tokens inputs))
      (mc_block_token_count (li_model_contract inputs)) (li_allow_exact_block_boundary_restore inputs) = (c, maximum_blocks inputs)"
    by (metis maximum_blocks_def prod.collapse)
  note key = newest_entry_key [OF ready entry]
  have "Suc i * mc_block_token_count (li_model_contract inputs)
      \<le> maximum_blocks inputs * mc_block_token_count (li_model_contract inputs)"
    using key(1) by (intro mult_le_mono1) simp
  then have fits: "\<not> length (li_prompt_tokens inputs) < complete" "complete \<noteq> 0"
    using maximum_blocks_fit(1) [OF ready] ready by (auto simp: complete_def lookup_ready_def)
  have some: "maximum_blocks inputs \<noteq> 0" using key(1) by simp
  have result: "\<exists>d. r = restored_prefix_lookup_result sha inputs (matched_keys sha inputs) i k d"
    using some entry by (auto simp: r_def lookup_with_boundary_policy_def Let_def counts split_def matched_fst)
  then obtain d where r: "r = restored_prefix_lookup_result sha inputs (matched_keys sha inputs) i k d" ..
  have tail: "(if li_probe_partial_tail_blocks inputs
       then probe_restorable_partial_tail_block sha inputs (matched_keys sha inputs) (i + 1 = length (matched_keys sha inputs))
       else None) = tail" by (simp add: tail_def)
  have c: "(unat (bk_block_index k) + 1) * mc_block_token_count (li_model_contract inputs) = complete"
    by (simp add: key(2) complete_def)
  show "lr_last_restored_block_key r = Some k" "lr_restored_partial_tail_block_key r = tail"
    "lr_restored_token_count r = complete + tail_tokens tail"
    "lr_remaining_tokens r = drop (complete + tail_tokens tail) (li_prompt_tokens inputs)"
    unfolding r restored_prefix_lookup_result_def Let_def c tail using fits
    by (simp_all add: tail_tokens_def split: option.splits)
qed

text \<open>The probe takes the longest stored tail.\<close>

lemma tail_candidates_Some:
  assumes "tail_candidates sha inputs parent causal ts m = Some key"
  shows "\<exists>n. 0 < n \<and> n \<le> m \<and> block_key_for_captured_block sha parent (li_model_contract inputs) (take n ts) causal = Inr key
     \<and> li_kv_block_exists inputs (bk_block_hash key) \<and> li_recurrent_snapshot_exists inputs (bk_block_hash key)"
  using assms
proof (induction m)
  case (Suc m)
  show ?case
  proof (cases "tail_candidates sha inputs parent causal ts m = Some key")
    case True
    then show ?thesis using Suc.IH by (meson le_SucI)
  next
    case False
    then show ?thesis using Suc.prems by (intro exI [of _ "Suc m"]) (auto split: sum.splits if_splits)
  qed
qed simp

lemma tail_candidates_longest:
  assumes "0 < n" "n \<le> m" "block_key_for_captured_block sha parent (li_model_contract inputs) (take n ts) causal = Inr key"
    "li_kv_block_exists inputs (bk_block_hash key)" "li_recurrent_snapshot_exists inputs (bk_block_hash key)"
    "m \<le> length ts"
  shows "\<exists>key'. tail_candidates sha inputs parent causal ts m = Some key' \<and> n \<le> unat (bk_token_count key')"
  using assms
proof (induction m)
  case (Suc m)
  show ?case
  proof (cases "n = Suc m")
    case True
    then show ?thesis using Suc.prems captured_key_fields(2) [OF Suc.prems(3)] by simp
  next
    case False
    then have "n \<le> m" "m \<le> length ts" using Suc.prems(2,6) by simp_all
    from Suc.IH [OF Suc.prems(1) this(1) Suc.prems(3-5) this(2)] obtain key'
      where key': "tail_candidates sha inputs parent causal ts m = Some key'" "n \<le> unat (bk_token_count key')" by blast
    show ?thesis
    proof (cases "tail_candidates sha inputs parent causal ts (Suc m) = Some key'")
      case False
      then obtain k where k: "block_key_for_captured_block sha parent (li_model_contract inputs) (take (Suc m) ts) causal = Inr k"
        "tail_candidates sha inputs parent causal ts (Suc m) = Some k"
        using key'(1) by (auto split: sum.splits if_splits)
      then show ?thesis using captured_key_fields(2) [OF k(1)] \<open>n \<le> m\<close> Suc.prems(6) by (intro exI [of _ k]) simp
    qed (use key' in blast)
  qed
qed simp

lemma probe_Some:
  assumes "probe_restorable_partial_tail_block sha inputs ks tip = Some key"
  defines "B \<equiv> mc_block_token_count (li_model_contract inputs)"
    and "start \<equiv> length ks * mc_block_token_count (li_model_contract inputs)"
  shows "start + unat (bk_token_count key) + (if li_allow_exact_block_boundary_restore inputs then 0 else 1)
      \<le> length (li_prompt_tokens inputs)" "0 < unat (bk_token_count key)" "unat (bk_token_count key) < B"
    "ks \<noteq> [] \<Longrightarrow> tip"
    "\<exists>causal. causal_input_of_slot (li_block_causal_inputs inputs) (length ks) = Some causal
       \<and> block_key_for_captured_block sha (if ks = [] then None else Some (last ks)) (li_model_contract inputs)
           (take (unat (bk_token_count key)) (drop start (li_prompt_tokens inputs))) causal = Inr key
       \<and> li_kv_block_exists inputs (bk_block_hash key) \<and> li_recurrent_snapshot_exists inputs (bk_block_hash key)"
proof -
  let ?L = "length (li_prompt_tokens inputs)"
  let ?max = "min (?L - start - (if li_allow_exact_block_boundary_restore inputs then 0 else 1)) (B - 1)"
  from assms(1) obtain causal where guards: "\<not> ?L < start" "?max \<noteq> 0" "ks \<noteq> [] \<Longrightarrow> tip"
    and causal: "causal_input_of_slot (li_block_causal_inputs inputs) (length ks) = Some causal"
    and cand: "tail_candidates sha inputs (if ks = [] then None else Some (last ks)) causal
        (drop start (li_prompt_tokens inputs)) ?max = Some key"
    unfolding probe_restorable_partial_tail_block_def Let_def B_def start_def
    by (simp split: if_splits option.splits)
  from tail_candidates_Some [OF cand] obtain n where n: "0 < n" "n \<le> ?max"
    "block_key_for_captured_block sha (if ks = [] then None else Some (last ks)) (li_model_contract inputs)
      (take n (drop start (li_prompt_tokens inputs))) causal = Inr key"
    "li_kv_block_exists inputs (bk_block_hash key)" "li_recurrent_snapshot_exists inputs (bk_block_hash key)" by blast
  have count: "unat (bk_token_count key) = n"
    using captured_key_fields(2) [OF n(3)] n(2) guards(1) by simp
  show "start + unat (bk_token_count key) + (if li_allow_exact_block_boundary_restore inputs then 0 else 1) \<le> ?L"
    using n(1,2) count guards(1) by (auto split: if_splits)
  show "0 < unat (bk_token_count key)" "unat (bk_token_count key) < B" using n(1,2) count by auto
  show "ks \<noteq> [] \<Longrightarrow> tip" by (rule guards(3))
  show "\<exists>causal. causal_input_of_slot (li_block_causal_inputs inputs) (length ks) = Some causal
       \<and> block_key_for_captured_block sha (if ks = [] then None else Some (last ks)) (li_model_contract inputs)
           (take (unat (bk_token_count key)) (drop start (li_prompt_tokens inputs))) causal = Inr key
       \<and> li_kv_block_exists inputs (bk_block_hash key) \<and> li_recurrent_snapshot_exists inputs (bk_block_hash key)"
    using causal n(3-5) count by blast
qed


section \<open>Theorems\<close>

text \<open>The abstract specification: the greatest number of blocks that can be restored.\<close>

definition longest_restorable :: "(byte list \<Rightarrow> digest) \<Rightarrow> PrefixLookupInputs \<Rightarrow> nat" where
  "longest_restorable sha inputs = Max (insert 0 {n \<in> {0..maximum_blocks inputs}. restorable sha inputs n})"

lemma longest_restorable_newest:
  assumes ready: "lookup_ready inputs"
  shows "longest_restorable sha inputs = (case newest_entry sha inputs of None \<Rightarrow> 0 | Some (i, k) \<Rightarrow> Suc i)"
proof (cases "newest_entry sha inputs")
  case None
  have "\<not> restorable sha inputs n" for n
  proof
    assume "restorable sha inputs n"
    then have n: "0 < n" "n \<le> length (matched_keys sha inputs)"
      "mc_has_boundary_state (li_model_contract inputs)
        \<longrightarrow> li_recurrent_snapshot_exists inputs (bk_block_hash (matched_keys sha inputs ! (n - 1)))"
      by (simp_all add: restorable_matched [OF ready])
    then have "n - 1 < length (matched_keys sha inputs)" by simp
    then show False using None [unfolded newest_entry_None] n(3) by blast
  qed
  then show ?thesis using None by (simp add: longest_restorable_def)
next
  case (Some e)
  obtain i k where e: "e = (i, k)" by (cases e)
  note entry = newest_entry_SomeD [OF Some [unfolded e]]
  let ?S = "insert 0 {n \<in> {0..maximum_blocks inputs}. restorable sha inputs n}"
  have "restorable sha inputs (Suc i)" using entry by (simp add: restorable_matched [OF ready])
  moreover have "Suc i \<le> maximum_blocks inputs" using newest_entry_key(1) [OF ready Some [unfolded e]] by simp
  moreover have "n \<le> Suc i" if "restorable sha inputs n" for n
  proof (rule ccontr)
    assume "\<not> n \<le> Suc i"
    then have "i < n - 1" by simp
    moreover have "n - 1 < length (matched_keys sha inputs)"
      "mc_has_boundary_state (li_model_contract inputs)
        \<longrightarrow> li_recurrent_snapshot_exists inputs (bk_block_hash (matched_keys sha inputs ! (n - 1)))"
      using that by (auto simp: restorable_matched [OF ready])
    ultimately show False using entry(4) [of "n - 1"] by blast
  qed
  ultimately have "Max ?S = Suc i" by (intro Max_eqI) auto
  then show ?thesis using Some e by (simp add: longest_restorable_def)
qed

lemma lookup_counts:
  fixes sha
  assumes ready: "lookup_ready inputs"
  defines "r \<equiv> lookup_with_boundary_policy sha inputs" and "B \<equiv> mc_block_token_count (li_model_contract inputs)"
  shows "lr_restored_token_count r = longest_restorable sha inputs * B + tail_tokens (lr_restored_partial_tail_block_key r)"
    "tail_tokens (lr_restored_partial_tail_block_key r) < B"
    "lr_restored_partial_tail_block_key r = Some key \<Longrightarrow> li_kv_block_exists inputs (bk_block_hash key)"
    "lr_remaining_tokens r = drop (lr_restored_token_count r) (li_prompt_tokens inputs)"
proof -
  have tail: "\<exists>ks tip. probe_restorable_partial_tail_block sha inputs ks tip = Some key"
    if "lr_restored_partial_tail_block_key r = Some key" for key
  proof (cases "newest_entry sha inputs")
    case None
    then show ?thesis using that lookup_newest_None(2) [OF None] unfolding r_def by (auto split: if_splits)
  next
    case (Some e)
    obtain i k where e: "e = (i, k)" by (cases e)
    show ?thesis using that lookup_newest_Some(2) [OF ready Some [unfolded e]] unfolding r_def by (auto split: if_splits)
  qed
  show "tail_tokens (lr_restored_partial_tail_block_key r) < B"
    using tail probe_Some(3) ready unfolding B_def tail_tokens_def lookup_ready_def by (auto split: option.splits)
  show "lr_restored_partial_tail_block_key r = Some key \<Longrightarrow> li_kv_block_exists inputs (bk_block_hash key)"
    using tail probe_Some(5) by blast
  show "lr_restored_token_count r = longest_restorable sha inputs * B + tail_tokens (lr_restored_partial_tail_block_key r)"
  proof (cases "newest_entry sha inputs")
    case None
    then show ?thesis using lookup_newest_None(2,3) [OF None] longest_restorable_newest [OF ready, of sha]
      unfolding r_def B_def by simp
  next
    case (Some e)
    obtain i k where e: "e = (i, k)" by (cases e)
    show ?thesis using lookup_newest_Some(2,3) [OF ready Some [unfolded e]] longest_restorable_newest [OF ready, of sha] Some e
      unfolding r_def B_def by simp
  qed
  show "lr_remaining_tokens r = drop (lr_restored_token_count r) (li_prompt_tokens inputs)"
  proof (cases "newest_entry sha inputs")
    case None
    show ?thesis unfolding r_def lookup_newest_None(3,4) [OF None] ..
  next
    case (Some e)
    obtain i k where e: "e = (i, k)" by (cases e)
    show ?thesis unfolding r_def lookup_newest_Some(3,4) [OF ready Some [unfolded e]] ..
  qed
qed

lemma lookup_count_fits:
  assumes ready: "lookup_ready inputs"
  shows "lr_restored_token_count (lookup_with_boundary_policy sha inputs) \<le> length (li_prompt_tokens inputs)"
    "\<not> li_allow_exact_block_boundary_restore inputs \<Longrightarrow> li_prompt_tokens inputs \<noteq> [] \<Longrightarrow>
       lr_restored_token_count (lookup_with_boundary_policy sha inputs) < length (li_prompt_tokens inputs)"
proof -
  let ?B = "mc_block_token_count (li_model_contract inputs)" and ?L = "length (li_prompt_tokens inputs)"
    and ?kept = "if li_allow_exact_block_boundary_restore inputs \<or> li_prompt_tokens inputs = [] then 0 else 1"
  have "lr_restored_token_count (lookup_with_boundary_policy sha inputs) + ?kept \<le> ?L"
  proof (cases "newest_entry sha inputs")
    case None
    show ?thesis unfolding lookup_newest_None(3) [OF None]
      using probe_Some(1) [of sha inputs "[]" False] by (auto simp: tail_tokens_def Suc_le_eq split: option.splits if_splits)
  next
    case (Some e)
    obtain i k where e: "e = (i, k)" by (cases e)
    note key = newest_entry_key [OF ready Some [unfolded e]]
    have "Suc i * ?B \<le> maximum_blocks inputs * ?B" using key(1) by (intro mult_le_mono1) simp
    then have complete: "Suc i * ?B + ?kept \<le> ?L" using maximum_blocks_fit(1,3) [OF ready] by fastforce
    have "Suc i * ?B + unat (bk_token_count key) + ?kept \<le> ?L"
      if probe: "probe_restorable_partial_tail_block sha inputs (matched_keys sha inputs)
        (i + 1 = length (matched_keys sha inputs)) = Some key" for key
    proof -
      have "matched_keys sha inputs \<noteq> []" using key(5) by force
      then have "length (matched_keys sha inputs) = Suc i" using probe_Some(4) [OF probe] by simp
      then show ?thesis using probe_Some(1) [OF probe] complete by (auto split: if_splits)
    qed
    then show ?thesis unfolding lookup_newest_Some(3) [OF ready Some [unfolded e]]
      using complete by (auto simp: tail_tokens_def split: option.splits if_splits)
  qed
  then show "lr_restored_token_count (lookup_with_boundary_policy sha inputs) \<le> ?L"
    "\<not> li_allow_exact_block_boundary_restore inputs \<Longrightarrow> li_prompt_tokens inputs \<noteq> [] \<Longrightarrow>
       lr_restored_token_count (lookup_with_boundary_policy sha inputs) < ?L"
    by (auto split: if_splits)
qed

text \<open>C23. Without the probe of partial tails the lookup restores exactly the longest prefix of whole blocks that
  the store can restore: every block of it is stored, the boundary state after its last block is kept, and no
  longer prefix within the policy's maximum has that. The remaining tokens are the rest of the prompt, and the
  key handed to the restore is the key of the last block of that prefix.
\<close>

theorem lookup_restores_longest_prefix:
  fixes sha inputs
  assumes "lookup_ready inputs" "\<not> li_probe_partial_tail_blocks inputs"
  defines "n \<equiv> longest_restorable sha inputs"
    and "B \<equiv> mc_block_token_count (li_model_contract inputs)"
    and "r \<equiv> lookup_with_boundary_policy sha inputs"
  shows "lr_restored_token_count r = n * B \<and> lr_remaining_tokens r = drop (n * B) (li_prompt_tokens inputs)
    \<and> lr_restored_partial_tail_block_key r = None
    \<and> (if n = 0 then lr_last_restored_block_key r = None
       else \<exists>key. lr_last_restored_block_key r = Some key \<and> bk_block_hash key = prefix_digest sha inputs n
                \<and> unat (bk_block_index key) + 1 = n)"
proof (cases "newest_entry sha inputs")
  case None
  then show ?thesis using assms(2) longest_restorable_newest [OF assms(1), of sha]
    by (simp add: lookup_newest_None n_def r_def tail_tokens_def)
next
  case (Some e)
  obtain i k where e: "e = (i, k)" by (cases e)
  then show ?thesis using assms(2) longest_restorable_newest [OF assms(1), of sha] Some
      lookup_newest_Some [OF assms(1) Some [unfolded e]] newest_entry_key [OF assms(1) Some [unfolded e]]
    by (simp add: n_def r_def B_def tail_tokens_def)
qed

text \<open>C24. Under every policy, the probe of partial tails included, the lookup splits the prompt: what it returns as
  remaining is the prompt without the restored tokens, and unless a restore of the whole prompt is allowed, at
  least one token of a nonempty prompt remains for the forward that yields the first logits. A restored tail is
  shorter than a block and starts where the restored blocks end.
\<close>

theorem lookup_leaves_a_token:
  fixes sha inputs
  assumes "lookup_ready inputs"
  defines "r \<equiv> lookup_with_boundary_policy sha inputs"
    and "B \<equiv> mc_block_token_count (li_model_contract inputs)"
  shows "lr_remaining_tokens r = drop (lr_restored_token_count r) (li_prompt_tokens inputs)
    \<and> lr_restored_token_count r \<le> length (li_prompt_tokens inputs)
    \<and> (\<not> li_allow_exact_block_boundary_restore inputs \<and> li_prompt_tokens inputs \<noteq> [] \<longrightarrow> lr_remaining_tokens r \<noteq> [])
    \<and> lr_restored_token_count r = longest_restorable sha inputs * B + tail_tokens (lr_restored_partial_tail_block_key r)
    \<and> tail_tokens (lr_restored_partial_tail_block_key r) < B"
proof -
  note counts = lookup_counts [OF assms(1), of sha, folded r_def B_def]
    and fits = lookup_count_fits [OF assms(1), of sha, folded r_def]
  show ?thesis using counts fits by auto
qed


text \<open>The blocks behind a result: the restored blocks of the prompt and the restored tail.\<close>

definition restored_chain :: "(byte list \<Rightarrow> digest) \<Rightarrow> PrefixLookupInputs \<Rightarrow> chain" where
  "restored_chain sha inputs =
     (let n = longest_restorable sha inputs;
          t = tail_tokens (lr_restored_partial_tail_block_key (lookup_with_boundary_policy sha inputs));
          B = mc_block_token_count (li_model_contract inputs)
      in prompt_chain inputs n
         @ (if t = 0 then []
            else [(take t (drop (n * B) (li_prompt_tokens inputs)), the (causal_input_of_slot (li_block_causal_inputs inputs) n))]))"

lemma chain_hash_snoc:
  "chain_hash sha fp (bs @ [(ts, c)]) = Some (sha (chain_preimage (if bs = [] then None else chain_hash sha fp bs) fp ts c))"
proof (cases "bs = []")
  case False
  then have "chain_hash sha fp bs = Some (sha (last (chain_preimages sha fp None bs)))"
    by (simp add: chain_hash_def split: list.splits)
  then show ?thesis using False chain_preimages_snoc [of sha fp None bs ts c]
    by (simp add: chain_hash_def split: list.splits)
qed (simp add: chain_hash_def Let_def)

lemma prefix_digest_hash: "0 < n \<Longrightarrow> chain_hash sha (mc_storage_contract_fingerprint (li_model_contract inputs)) (prompt_chain inputs n)
    = Some (prefix_digest sha inputs n)"
  by (auto simp: prefix_digest_def chain_hash_def split: list.splits)

lemma prompt_chain_covered:
  assumes "plan_covers inputs n" "i < n"
  shows "causal_input_of_slot (li_block_causal_inputs inputs) i = Some (snd (prompt_chain inputs n ! i))"
proof -
  obtain c where "causal_input_of_slot (li_block_causal_inputs inputs) i = Some c"
    using assms by (auto simp: causal_input_of_slot_def plan_covers_def split: option.splits)
  then show ?thesis using assms(2) by (simp add: prompt_chain_def Let_def)
qed

lemma prompt_chain_tokens:
  assumes "plan_covers inputs n"
  shows "concat (map fst (prompt_chain inputs n))
     = take (n * mc_block_token_count (li_model_contract inputs)) (li_prompt_tokens inputs)"
  using slot_blocks_tokens [of inputs n 0] prompt_chain_slots [OF assms] by simp

lemma chain_snoc_slots:
  assumes "\<And>i. i < length bs \<Longrightarrow> f i = Some (snd (bs ! i))" "f (length bs) = Some c"
  shows "\<forall>i < length (bs @ [(ts, c)]). f i = Some (snd ((bs @ [(ts, c)]) ! i))"
  using assms by (auto simp: nth_append less_Suc_eq)

text \<open>The digest of the restored chain is one that the store holds.\<close>

lemma restored_chain_stored:
  fixes sha inputs
  assumes ready: "lookup_ready inputs" and seq: "mc_has_sequence_state (li_model_contract inputs)"
  defines "r \<equiv> lookup_with_boundary_policy sha inputs"
    and "bs \<equiv> restored_chain sha inputs"
    and "B \<equiv> mc_block_token_count (li_model_contract inputs)"
  assumes some: "0 < lr_restored_token_count r"
  shows "bs \<noteq> []" "\<exists>d. chain_hash sha (mc_storage_contract_fingerprint (li_model_contract inputs)) bs = Some d
      \<and> li_kv_block_exists inputs d"
    "concat (map fst bs) = take (lr_restored_token_count r) (li_prompt_tokens inputs)"
    "\<forall>i < length bs. causal_input_of_slot (li_block_causal_inputs inputs) i = Some (snd (bs ! i))"
proof -
  let ?F = "mc_storage_contract_fingerprint (li_model_contract inputs)" and ?P = "li_prompt_tokens inputs"
  let ?slot = "causal_input_of_slot (li_block_causal_inputs inputs)"
  define n t where "n = longest_restorable sha inputs" and "t = tail_tokens (lr_restored_partial_tail_block_key r)"
  have count: "lr_restored_token_count r = n * B + t"
    using lookup_leaves_a_token [OF ready, of sha] unfolding n_def t_def r_def B_def by blast
  have covered: "plan_covers inputs n" and stored: "0 < n \<Longrightarrow> li_kv_block_exists inputs (prefix_digest sha inputs n)"
  proof -
    have "n = 0 \<or> restorable sha inputs n"
      using Max_in [of "insert 0 {n \<in> {0..maximum_blocks inputs}. restorable sha inputs n}"]
      unfolding n_def longest_restorable_def by auto
    then show "plan_covers inputs n" "0 < n \<Longrightarrow> li_kv_block_exists inputs (prefix_digest sha inputs n)"
      using seq by (auto simp: restorable_def plan_covers_def split: option.splits)
  qed
  note slots = prompt_chain_covered [OF covered] and tokens = prompt_chain_tokens [OF covered, folded B_def]
  have "bs \<noteq> [] \<and> (\<exists>d. chain_hash sha ?F bs = Some d \<and> li_kv_block_exists inputs d)
    \<and> concat (map fst bs) = take (n * B + t) ?P \<and> (\<forall>i < length bs. ?slot i = Some (snd (bs ! i)))"
  proof (cases "t = 0")
    case True
    then have bs: "bs = prompt_chain inputs n"
      unfolding bs_def restored_chain_def Let_def r_def [symmetric] n_def [symmetric] t_def [symmetric] by simp
    have n: "0 < n" using some count True by simp
    then have "bs \<noteq> []" using prompt_chain_length [of inputs n] unfolding bs by force
    then show ?thesis using prefix_digest_hash [OF n] stored [OF n] slots tokens True unfolding bs by simp
  next
    case False
    then obtain key where tail: "lr_restored_partial_tail_block_key r = Some key" and t: "t = unat (bk_token_count key)"
      unfolding t_def tail_tokens_def by (cases "lr_restored_partial_tail_block_key r") simp_all
    have "\<exists>ks tip. probe_restorable_partial_tail_block sha inputs ks tip = Some key \<and> length ks = n
        \<and> (0 < n \<longrightarrow> bk_block_hash (last ks) = prefix_digest sha inputs n
             \<and> key_of_contract (li_model_contract inputs) (Some (last ks)))"
    proof (cases "newest_entry sha inputs")
      case None
      then have "n = 0" using longest_restorable_newest [OF ready, of sha] by (simp add: n_def)
      then show ?thesis using lookup_newest_None(2) [OF None, folded r_def] tail by (auto split: if_splits)
    next
      case (Some e)
      obtain i k where e: "e = (i, k)" by (cases e)
      note entry = newest_entry_key [OF ready Some [unfolded e]]
      have probe: "probe_restorable_partial_tail_block sha inputs (matched_keys sha inputs)
          (i + 1 = length (matched_keys sha inputs)) = Some key"
        using lookup_newest_Some(2) [OF ready Some [unfolded e], folded r_def] tail by (simp split: if_splits)
      have ne: "matched_keys sha inputs \<noteq> []" using entry(5) by force
      then have len: "length (matched_keys sha inputs) = Suc i" using probe_Some(4) [OF probe] by simp
      then have "last (matched_keys sha inputs) = k" using entry(6) ne by (simp add: last_conv_nth)
      then show ?thesis using probe len entry(3,4) longest_restorable_newest [OF ready, of sha] Some e
        by (intro exI [of _ "matched_keys sha inputs"] exI [of _ "i + 1 = length (matched_keys sha inputs)"])
          (simp add: n_def)
    qed
    then obtain ks tip where probe: "probe_restorable_partial_tail_block sha inputs ks tip = Some key" and len: "length ks = n"
      and last: "0 < n \<Longrightarrow> bk_block_hash (last ks) = prefix_digest sha inputs n"
        "0 < n \<Longrightarrow> key_of_contract (li_model_contract inputs) (Some (last ks))" by blast
    obtain causal where causal: "?slot n = Some causal"
      and key: "block_key_for_captured_block sha (if ks = [] then None else Some (last ks)) (li_model_contract inputs)
          (take t (drop (n * B) ?P)) causal = Inr key" "li_kv_block_exists inputs (bk_block_hash key)"
      using probe_Some(5) [OF probe, unfolded len, folded B_def t] by blast
    have bs: "bs = prompt_chain inputs n @ [(take t (drop (n * B) ?P), causal)]"
      unfolding bs_def restored_chain_def Let_def r_def [symmetric] n_def [symmetric] t_def [symmetric] B_def [symmetric]
      using False causal by simp
    have "chain_hash sha ?F bs = Some (bk_block_hash key)"
    proof (cases "n = 0")
      case True
      then show ?thesis using captured_key_fields(1) [OF key(1)] len prompt_chain_length [of inputs n] unfolding bs chain_hash_snoc by simp
    next
      case False
      then have "ks \<noteq> []" "prompt_chain inputs n \<noteq> []" using len prompt_chain_length [of inputs n] by force+
      then show ?thesis using captured_key_fields(1) [OF key(1)] last False prefix_digest_hash [of n sha inputs]
        unfolding bs chain_hash_snoc by (simp add: key_of_contract_def)
    qed
    moreover have "concat (map fst bs) = take (n * B + t) ?P" unfolding bs using tokens by (simp add: take_add)
    moreover have "\<forall>i < length bs. ?slot i = Some (snd (bs ! i))"
      unfolding bs by (rule chain_snoc_slots) (use slots causal in simp_all)
    ultimately show ?thesis using key(2) unfolding bs by blast
  qed
  then show "bs \<noteq> []" "\<exists>d. chain_hash sha ?F bs = Some d \<and> li_kv_block_exists inputs d"
    "concat (map fst bs) = take (lr_restored_token_count r) ?P" "\<forall>i < length bs. ?slot i = Some (snd (bs ! i))"
    unfolding count by blast+
qed


text \<open>C25. What the lookup restores was published for exactly these tokens. When every digest in the store is the
  digest of a published chain of blocks, and the digest function separates the byte strings of those chains and
  of the restored one, then a lookup that restores anything restores a published chain under the contract's own
  fingerprint: its blocks spell the restored tokens of the prompt, each bound to the non-token input that the
  request plans for it.
\<close>

theorem restored_prefix_was_published:
  fixes sha inputs
  defines "r \<equiv> lookup_with_boundary_policy sha inputs"
    and "F \<equiv> mc_storage_contract_fingerprint (li_model_contract inputs)"
  assumes "lookup_ready inputs" "mc_has_sequence_state (li_model_contract inputs)" "0 < lr_restored_token_count r"
    and store: "\<And>d. li_kv_block_exists inputs d \<Longrightarrow> \<exists>(fp, bs) \<in> set published. chain_hash sha fp bs = Some d"
    and wf: "length F = 32" "\<forall>(fp, bs) \<in> set published. length fp = 32 \<and> (\<forall>b \<in> set bs. causal_wf (snd b))"
      "\<forall>b \<in> set (restored_chain sha inputs). causal_wf (snd b)"
    and separate: "digests_separate sha (set (chain_preimages sha F None (restored_chain sha inputs))
      \<union> (\<Union>(fp, bs) \<in> set published. set (chain_preimages sha fp None bs)))"
  shows "\<exists>bs. (F, bs) \<in> set published \<and> concat (map fst bs) = take (lr_restored_token_count r) (li_prompt_tokens inputs)
    \<and> (\<forall>i < length bs. causal_input_of_slot (li_block_causal_inputs inputs) i = Some (snd (bs ! i)))"
proof -
  let ?bs = "restored_chain sha inputs"
  note chain = restored_chain_stored [OF assms(3,4) assms(5) [unfolded r_def], folded r_def F_def]
  obtain d where d: "chain_hash sha F ?bs = Some d" "li_kv_block_exists inputs d" using chain(2) by blast
  obtain fp cs where pub: "(fp, cs) \<in> set published" "chain_hash sha fp cs = Some d" using store [OF d(2)] by blast
  let ?S = "set (chain_preimages sha F None ?bs) \<union> set (chain_preimages sha fp None cs)"
  have sep: "digests_separate sha ?S"
    using separate pub(1) unfolding digests_separate_def by (auto intro: inj_on_subset)
  have hash: "bs' \<noteq> [] \<and> d = sha (last (chain_preimages sha fp' None bs'))" if "chain_hash sha fp' bs' = Some d" for fp' bs'
    using that by (cases "bs' = []") (auto simp: chain_hash_def split: list.splits)
  have "last (chain_preimages sha F None ?bs) = last (chain_preimages sha fp None cs)"
  proof -
    have "last (chain_preimages sha F None ?bs) \<in> ?S" "last (chain_preimages sha fp None cs) \<in> ?S"
      using hash [OF d(1)] hash [OF pub(2)] by simp_all
    then show ?thesis using hash [OF d(1)] hash [OF pub(2)] sep unfolding digests_separate_def by (meson inj_onD)
  qed
  then have "?bs = cs \<and> F = fp"
    using hash [OF d(1)] hash [OF pub(2)] wf pub(1) by (intro last_preimage_determines_chain [OF sep]) auto
  then show ?thesis using pub(1) chain(3,4) by (intro exI [of _ ?bs]) auto
qed

text \<open>A store with one published block of two tokens, and a prompt of three.\<close>

definition example_sha :: "byte list \<Rightarrow> digest" where
  "example_sha bytes = replicate 31 0 @ [of_nat (length bytes)]"

definition example_contract :: model_contract where
  "example_contract = \<lparr>mc_block_token_count = 2, mc_common_prefix_checkpoint_stride_blocks = 4,
     mc_has_sequence_state = True, mc_has_boundary_state = True,
     mc_storage_contract_fingerprint = replicate 32 7\<rparr>"

definition example_chain :: chain where
  "example_chain = [([1, 2], causal_input_empty)]"

definition example_inputs :: PrefixLookupInputs where
  "example_inputs =
     (let published = (\<lambda>d. chain_hash example_sha (replicate 32 7) example_chain = Some d)
      in \<lparr>li_model_contract = example_contract, li_prompt_tokens = [1, 2, 3], li_block_causal_inputs = None,
          li_allow_exact_block_boundary_restore = False, li_probe_partial_tail_blocks = False,
          li_kv_block_exists = published, li_recurrent_snapshot_exists = published\<rparr>)"

lemma example_fields [simp]:
  "li_prompt_tokens example_inputs = [1, 2, 3]" "\<not> li_allow_exact_block_boundary_restore example_inputs"
  "mc_block_token_count (li_model_contract example_inputs) = 2" "li_block_causal_inputs example_inputs = None"
  "mc_storage_contract_fingerprint (li_model_contract example_inputs) = replicate 32 7"
  by (simp_all add: example_inputs_def example_contract_def Let_def)

lemma example_ready: "lookup_ready example_inputs" "\<not> li_probe_partial_tail_blocks example_inputs"
  "mc_has_sequence_state (li_model_contract example_inputs)"
  by (simp_all add: example_inputs_def lookup_ready_def example_contract_def Let_def)

lemma example_key:
  "chain_preimage None (replicate 32 7) [1, 2] causal_input_empty = ROOT_SEED @ replicate 32 7 @ u32_be_bytes 1 @ u32_be_bytes 2"
  "chain_hash example_sha (replicate 32 7) example_chain = Some (replicate 31 0 @ [71])"
  by (simp_all add: chain_preimage_def causal_input_empty_def chain_hash_def example_chain_def Let_def example_sha_def
      literal_lengths)

lemma example_longest: "longest_restorable example_sha example_inputs = 1"
proof -
  have max: "maximum_blocks example_inputs = 1"
    by (simp add: maximum_blocks_def example_inputs_def example_contract_def Let_def
        complete_and_maximum_restorable_block_counts_def)
  have digest: "prefix_digest example_sha example_inputs 1 = the (chain_hash example_sha (replicate 32 7) example_chain)"
    by (simp add: prefix_digest_def prompt_chain_def example_inputs_def example_contract_def Let_def example_chain_def
        causal_input_of_slot_def)
  have "restorable example_sha example_inputs 1"
    unfolding restorable_def max using digest
    by (simp add: example_inputs_def Let_def example_key(2) plan_covers_def)
  moreover have "{0..maximum_blocks example_inputs} = {0, 1}" unfolding max by auto
  moreover have "\<not> restorable example_sha example_inputs 0" by (simp add: restorable_def)
  ultimately have "{n \<in> {0..maximum_blocks example_inputs}. restorable example_sha example_inputs n} = {1}" by auto
  then show ?thesis by (simp add: longest_restorable_def)
qed

theorem lookup_restores_longest_prefix_witness:
  "lr_restored_token_count (lookup_with_boundary_policy example_sha example_inputs) = 2
   \<and> lr_remaining_tokens (lookup_with_boundary_policy example_sha example_inputs) = [3]"
  using lookup_restores_longest_prefix [OF example_ready(1,2), of example_sha] example_longest by simp

theorem lookup_leaves_a_token_witness:
  "lr_remaining_tokens (lookup_with_boundary_policy example_sha example_inputs) \<noteq> []"
  using lookup_leaves_a_token [OF example_ready(1), of example_sha] by (elim conjE) (simp only: example_fields, blast)

lemma example_restored:
  "lr_restored_token_count (lookup_with_boundary_policy example_sha example_inputs) = 2"
  "restored_chain example_sha example_inputs = example_chain"
proof -
  have none: "newest_entry example_sha example_inputs \<noteq> None"
    using example_longest longest_restorable_newest [OF example_ready(1), of example_sha]
    by (cases "newest_entry example_sha example_inputs") simp_all
  then obtain i k where e: "newest_entry example_sha example_inputs = Some (i, k)"
    by (metis option.exhaust prod.exhaust)
  then have "i = 0" using example_longest longest_restorable_newest [OF example_ready(1), of example_sha] by simp
  moreover note lookup_newest_Some [OF example_ready(1) e]
  ultimately show "lr_restored_token_count (lookup_with_boundary_policy example_sha example_inputs) = 2"
    "restored_chain example_sha example_inputs = example_chain"
    using example_longest example_ready(2)
    by (simp_all add: tail_tokens_def restored_chain_def Let_def prompt_chain_def example_chain_def causal_input_of_slot_def)
qed

theorem restored_prefix_was_published_witness:
  "\<exists>bs. (replicate 32 7, bs) \<in> {(replicate 32 (7 :: byte), example_chain)} \<and> concat (map fst bs) = take 2 [1, 2, 3 :: u32]"
proof -
  note F = example_fields(5)
  have store: "\<exists>(fp, bs) \<in> set [(replicate 32 7, example_chain)]. chain_hash example_sha fp bs = Some d"
    if "li_kv_block_exists example_inputs d" for d
    using that by (simp add: example_inputs_def Let_def)
  have wf: "\<forall>b \<in> set example_chain. causal_wf (snd b)" by (simp add: example_chain_def causal_wf_def causal_input_empty_def)
  have "example_sha bytes = 0 # replicate 30 0 @ [of_nat (length bytes)]" for bytes
    using replicate_Suc [of 30 "0 :: byte"] by (simp add: example_sha_def)
  then have "\<not> prefix ROOT_SEED (example_sha bytes)" for bytes
    by (simp add: ROOT_SEED_def ascii_bytes_def)
  then have sep: "digests_separate example_sha (set (chain_preimages example_sha (replicate 32 7) None example_chain))"
    by (simp add: example_chain_def Let_def digests_separate_def) (simp add: example_sha_def)
  show ?thesis
    using restored_prefix_was_published [of example_inputs example_sha "[(replicate 32 7, example_chain)]",
        OF example_ready(1,3), unfolded example_restored F] store wf sep by simp
qed

end
