(* ===== verification/Cache_Publication.thy ===== *)
theory Cache_Publication
  imports Cache_Store_Proofs Cache_Restore
begin

text \<open>
  The contract of \<^verbatim>\<open>publish_block\<close>: what a reported publication keeps and adds, on every path that returns
  an outcome, and how it meets the lookup of \<^verbatim>\<open>prefix_lookup.rs\<close>.
\<close>

section \<open>A boundary that is put back\<close>

lemma ancestry_step:
  assumes "index_block index t = Some b" "tb_parent_block_hash b = Some p" "h \<in> ancestry index p"
  shows "h \<in> ancestry index t"
  using assms(3)
proof induction
  case (tip c)
  then show ?case using ancestry.parent [OF ancestry.tip [OF assms(1)] assms(1,2)] by blast
next
  case (parent h c q d)
  then show ?case by (blast intro: ancestry.parent)
qed

lemma missing_boundary_result:
  assumes wf: "store_wf host self" and b: "index_block (st_index self) (bk_block_hash key) = Some b"
    and staging: "staging \<notin> set (entry_paths (st_disk self))"
    and run: "publish_missing_boundary_state_transaction host key staging self = (self', None)"
  obtains f where "same_frame self self'" "store_wf host self'"
    "index_block (st_index self') (bk_block_hash key) = Some (b\<lparr>tb_boundary_state_file := Some f\<rparr>)"
    "\<And>h c. \<lbrakk>h \<noteq> bk_block_hash key; h \<in> ancestry (st_index self) (bk_block_hash key); index_block (st_index self) h = Some c\<rbrakk>
       \<Longrightarrow> index_block (st_index self') h = Some c"
proof -
  let ?hash = "bk_block_hash key" and ?path = "tb_block_directory_path b @ [BOUNDARY_STATE_FILE_NAME]"
  obtain bytes self1 where quota: "enforce_store_quota host bytes 0
        (protected_ancestry_directory_paths (st_index self) ?hash) (Some staging) False self = (self1, None)"
    and refresh: "refresh_global_prompt_cache_accounting
        (self1\<lparr>st_disk := disk_with_block_file host (tb_block_directory_path b) ?path bytes (st_disk self1),
               st_index := insert_file BoundaryStateSnapshot ?hash
                 \<lparr>tf_file_path = ?path, tf_file_size_bytes = bytes\<rparr> (st_index self1)\<rparr>) = (self', None)"
    (is "refresh_global_prompt_cache_accounting ?self2 = _")
    using run b unfolding publish_missing_boundary_state_transaction_def Let_def
    by (auto split: sum.splits prod.splits option.splits)
  have disk_wf: "disk_wf (st_disk self)" and dist: "distinct (map fst (ix_blocks (st_index self)))"
    using wf by (simp_all add: store_wf_def)
  obtain R where frame1: "same_frame self self1" and disk1: "st_disk self1 = disk_without R (st_disk self)"
    and index1: "ix_blocks (st_index self1) = filter (\<lambda>(_, b). tb_block_directory_path b \<notin> R) (ix_blocks (st_index self))"
    and safe: "R \<inter> set (protected_ancestry_directory_paths (st_index self) ?hash)
        \<inter> bd_block_directory_path ` set (dk_block_directories (walked (Some staging) (st_disk self))) = {}"
    using quota_result [OF disk_wf store_wf_index_on_disk [OF wf] quota] by metis
  have wf1: "store_wf host self1" by (rule filter_index_wf [OF wf frame1 disk1 index1])
  have kept: "index_block (st_index self1) h = Some c"
    if "h \<in> ancestry (st_index self) ?hash" "index_block (st_index self) h = Some c" for h c
  proof -
    have "tb_block_directory_path c \<in> bd_block_directory_path ` set (dk_block_directories (st_disk self))"
      using store_wf_index_on_disk [OF wf] that(2) index_block_mem [OF dist] unfolding index_on_disk_def by fastforce
    then have "tb_block_directory_path c \<notin> R"
      using safe protected_ancestry_complete [OF that] unfolding walked_all [OF staging] by auto
    then show ?thesis using that(2) by (simp add: index_block_filter [OF dist index1])
  qed
  have b1: "index_block (st_index self1) ?hash = Some b" by (rule kept [OF ancestry.tip [OF b] b])
  note with_b = with_boundary_wf [OF wf1 b1 refl, of bytes]
  note refreshed = refresh_result [OF refresh]
  show ?thesis
  proof (rule that)
    show "same_frame self self'" using frame1 with_b(1) refreshed(1) by (simp add: same_frame_def)
    show "store_wf host self'" by (rule wf_transfer [OF with_b(2) refreshed])
    show "index_block (st_index self') ?hash
        = Some (b\<lparr>tb_boundary_state_file := Some \<lparr>tf_file_path = ?path, tf_file_size_bytes = bytes\<rparr>\<rparr>)"
      unfolding refreshed(2) with_b(3) by simp
    show "index_block (st_index self') h = Some c"
      if "h \<noteq> ?hash" "h \<in> ancestry (st_index self) ?hash" "index_block (st_index self) h = Some c" for h c
      unfolding refreshed(2) with_b(3) using that kept by simp
  qed
qed

section \<open>Every publication\<close>

definition same_block :: "TrackedBlock \<Rightarrow> TrackedBlock \<Rightarrow> bool" where
  "same_block b c \<longleftrightarrow>
     tb_block_index c = tb_block_index b \<and> tb_parent_block_hash c = tb_parent_block_hash b
     \<and> tb_sequence_state_file c = tb_sequence_state_file b"

text \<open>The block does not fit beside everything that is on the disk.\<close>

definition under_pressure :: "host \<Rightarrow> store \<Rightarrow> BlockKey \<Rightarrow> path \<Rightarrow> bool" where
  "under_pressure host self key staging \<longleftrightarrow>
     (case stage_complete_block host self key staging of
        Inl _ \<Rightarrow> False
      | Inr staged \<Rightarrow> unat (st_maximum_size_bytes self) < disk_bytes (st_disk self) + unat (sb_total_size_bytes staged))"

lemma tracked_directory_present:
  assumes "store_wf host self" "index_block (st_index self) h = Some b"
  shows "directory_is_present self (tb_block_directory_path b)"
proof -
  have "(h, b) \<in> set (ix_blocks (st_index self))" using assms by (simp add: store_wf_def index_block_mem)
  then show ?thesis
    using store_wf_index_on_disk [OF assms(1)] by (auto simp: index_on_disk_def directory_is_present_def)
qed

lemma publication_result:
  assumes wf: "store_wf host self" and staging: "staging \<notin> set (entry_paths (st_disk self))"
    and run: "publish_block host key parent sequence_tensors boundary_tensors staging self = (self', Inr outcome)"
  obtains c where "same_frame self self'" "store_wf host self'"
    "index_block (st_index self') (bk_block_hash key) = Some c"
    "tb_block_index c = bk_block_index key" "tb_parent_block_hash c = map_option bk_block_hash parent"
    "mc_has_sequence_state (st_contract self) \<Longrightarrow> tb_sequence_state_file c \<noteq> None"
    "mc_has_boundary_state (st_contract self) \<Longrightarrow> tb_boundary_state_file c \<noteq> None"
    "\<And>p h b. \<lbrakk>parent = Some p; h \<in> ancestry (st_index self) (bk_block_hash p); index_block (st_index self) h = Some b;
       tb_block_index b \<noteq> bk_block_index key\<rbrakk> \<Longrightarrow>
       \<exists>c. index_block (st_index self') h = Some c \<and> same_block b c
         \<and> (tb_boundary_state_file b \<noteq> None \<longrightarrow>
              tb_boundary_state_file c \<noteq> None \<or> h = bk_block_hash p \<and> under_pressure host self key staging)"
proof (cases "index_block (st_index self) (bk_block_hash key)")
  case (Some b)
  note b = Some
  let ?complete = "(\<not> mc_has_sequence_state (st_contract self) \<or> tb_sequence_state_file b \<noteq> None)"
    and ?bounded = "(\<not> mc_has_boundary_state (st_contract self) \<or> tb_boundary_state_file b \<noteq> None)"
  have existing: "publish_existing_block host key parent staging b self = (self', Inr outcome)"
    using run b tracked_directory_present [OF wf b] unfolding publish_block_def by (simp split: sum.splits)
  then have topology: "tb_block_index b = bk_block_index key" "tb_parent_block_hash b = map_option bk_block_hash parent"
    and complete: "?complete"
    unfolding publish_existing_block_def Let_def by (auto split: option.splits if_splits prod.splits)
  have up: "h \<in> ancestry (st_index self) (bk_block_hash key)"
    if "parent = Some p" "h \<in> ancestry (st_index self) (bk_block_hash p)" for p h
    using ancestry_step [OF b _ that(2)] topology(2) that(1) by simp
  show ?thesis
  proof (cases ?bounded)
    case True
    then have "self' = self"
      using existing complete topology unfolding publish_existing_block_def Let_def by (auto split: option.splits)
    then show ?thesis using that [of b] b wf topology complete True by (auto simp: same_frame_def same_block_def)
  next
    case False
    then have "publish_missing_boundary_state_transaction host key staging self = (self', None)"
      using existing complete topology unfolding publish_existing_block_def Let_def
      by (auto split: option.splits prod.splits)
    note missing = missing_boundary_result [OF wf b staging this]
    obtain f where result: "same_frame self self'" "store_wf host self'"
      "index_block (st_index self') (bk_block_hash key) = Some (b\<lparr>tb_boundary_state_file := Some f\<rparr>)"
      "\<And>h c. \<lbrakk>h \<noteq> bk_block_hash key; h \<in> ancestry (st_index self) (bk_block_hash key); index_block (st_index self) h = Some c\<rbrakk>
         \<Longrightarrow> index_block (st_index self') h = Some c"
      by (rule missing) (rule that; assumption)
    show ?thesis
    proof (rule that [of "b\<lparr>tb_boundary_state_file := Some f\<rparr>"])
      fix p h c
      assume a: "parent = Some p" "h \<in> ancestry (st_index self) (bk_block_hash p)" "index_block (st_index self) h = Some c"
        "tb_block_index c \<noteq> bk_block_index key"
      then have "h \<noteq> bk_block_hash key" using b topology(1) by auto
      then have "index_block (st_index self') h = Some c" using result(4) up a by blast
      then show "\<exists>d. index_block (st_index self') h = Some d \<and> same_block c d
         \<and> (tb_boundary_state_file c \<noteq> None \<longrightarrow>
              tb_boundary_state_file d \<noteq> None \<or> h = bk_block_hash p \<and> under_pressure host self key staging)"
        by (simp add: same_block_def)
    qed (use result complete topology in simp_all)
  qed
next
  case None
  obtain self1 where transaction: "publish_new_block_transaction host key parent staging self = (self1, None)"
    and supersede: "supersede_shorter_partial_tail_siblings host key parent self1 = (self', None)"
    using run None unfolding publish_block_def publish_new_block_def
    by (auto split: sum.splits prod.splits option.splits if_splits)
  obtain staged where result: "same_frame self self1" "store_wf host self1"
    "index_block (st_index self1) (bk_block_hash key)
       = Some (tracked_entry key parent (block_directory self (bk_block_hash key)) staged)"
    "sb_sequence_state_file staged \<noteq> None \<longleftrightarrow> mc_has_sequence_state (st_contract self)"
    "sb_boundary_state_file staged \<noteq> None \<longleftrightarrow> mc_has_boundary_state (st_contract self)"
    and kept: "\<And>p h b. \<lbrakk>parent = Some p; h \<in> ancestry (st_index self) (bk_block_hash p); index_block (st_index self) h = Some b\<rbrakk>
       \<Longrightarrow> index_block (st_index self1) h = Some b
         \<or> h = bk_block_hash p \<and> index_block (st_index self1) h = Some (b\<lparr>tb_boundary_state_file := None\<rparr>)
           \<and> unat (st_maximum_size_bytes self) < disk_bytes (st_disk self) + unat (sb_total_size_bytes staged)"
    and staged: "stage_complete_block host self key staging = Inr staged"
    by (rule transaction_result [OF wf None staging transaction]) (rule that; assumption)
  note superseded = supersede_result [OF result(2) supersede]
  show ?thesis
  proof (rule that [of "tracked_entry key parent (block_directory self (bk_block_hash key)) staged"])
    show "same_frame self self'" using result(1) superseded(1) by (simp add: same_frame_def)
    show "store_wf host self'" by (rule superseded(2))
    show "index_block (st_index self') (bk_block_hash key)
        = Some (tracked_entry key parent (block_directory self (bk_block_hash key)) staged)"
      using superseded(3) [OF result(3)] by simp
  next
    fix p h b
    assume a: "parent = Some p" "h \<in> ancestry (st_index self) (bk_block_hash p)" "index_block (st_index self) h = Some b"
      "tb_block_index b \<noteq> bk_block_index key"
    from kept [OF a(1-3)] show "\<exists>c. index_block (st_index self') h = Some c \<and> same_block b c
         \<and> (tb_boundary_state_file b \<noteq> None \<longrightarrow>
              tb_boundary_state_file c \<noteq> None \<or> h = bk_block_hash p \<and> under_pressure host self key staging)"
    proof
      assume "index_block (st_index self1) h = Some b"
      then have "index_block (st_index self') h = Some b" using superseded(3) a(4) by blast
      then show ?thesis by (simp add: same_block_def)
    next
      assume lost: "h = bk_block_hash p \<and> index_block (st_index self1) h = Some (b\<lparr>tb_boundary_state_file := None\<rparr>)
        \<and> unat (st_maximum_size_bytes self) < disk_bytes (st_disk self) + unat (sb_total_size_bytes staged)"
      then have "index_block (st_index self1) h = Some (b\<lparr>tb_boundary_state_file := None\<rparr>)" by blast
      then have "index_block (st_index self') h = Some (b\<lparr>tb_boundary_state_file := None\<rparr>)"
        by (rule superseded(3)) (use a(4) in simp)
      moreover have "under_pressure host self key staging" using lost staged by (simp add: under_pressure_def)
      ultimately show ?thesis using lost by (simp add: same_block_def)
    qed
  qed (use result(4,5) in \<open>simp_all add: tracked_entry_def\<close>)
qed

section \<open>Durable chains\<close>

text \<open>The keys of a chain, root first, all tracked with their parents, their indexes and their sequence states.\<close>

definition chain_entry :: "store \<Rightarrow> BlockKey list \<Rightarrow> nat \<Rightarrow> bool" where
  "chain_entry self ks i \<longleftrightarrow>
     unat (bk_block_index (ks ! i)) = i
     \<and> (case index_block (st_index self) (bk_block_hash (ks ! i)) of
          None \<Rightarrow> False
        | Some b \<Rightarrow>
            tb_block_index b = bk_block_index (ks ! i)
            \<and> tb_parent_block_hash b = (if i = 0 then None else Some (bk_block_hash (ks ! (i - 1))))
            \<and> (mc_has_sequence_state (st_contract self) \<longrightarrow> tb_sequence_state_file b \<noteq> None))"

definition chain_tracked :: "store \<Rightarrow> BlockKey list \<Rightarrow> bool" where
  "chain_tracked self ks \<longleftrightarrow> (\<forall>i \<in> {..<length ks}. chain_entry self ks i)"

definition tip_key :: "BlockKey list \<Rightarrow> BlockKey option" where
  "tip_key ks = (if ks = [] then None else Some (last ks))"

lemma chain_tracked_Nil [simp]: "chain_tracked self []"
  by (simp add: chain_tracked_def)

lemma chain_trackedE:
  assumes "chain_tracked self ks" "i < length ks"
  obtains b where "index_block (st_index self) (bk_block_hash (ks ! i)) = Some b" "unat (bk_block_index (ks ! i)) = i"
    "tb_block_index b = bk_block_index (ks ! i)"
    "tb_parent_block_hash b = (if i = 0 then None else Some (bk_block_hash (ks ! (i - 1))))"
    "mc_has_sequence_state (st_contract self) \<Longrightarrow> tb_sequence_state_file b \<noteq> None"
proof -
  have "chain_entry self ks i" using assms by (simp add: chain_tracked_def)
  then show ?thesis using that unfolding chain_entry_def by (auto split: option.splits)
qed

lemma chain_ancestry:
  assumes "chain_tracked self ks" "i < length ks"
  shows "bk_block_hash (ks ! i) \<in> ancestry (st_index self) (bk_block_hash (last ks))"
  using assms(2)
proof (induction "length ks - Suc i" arbitrary: i)
  case 0
  then have "ks ! i = last ks" by (metis Suc_leI diff_is_0_eq last_conv_nth le_antisym length_0_conv less_zeroE diff_Suc_1)
  moreover obtain b where "index_block (st_index self) (bk_block_hash (ks ! i)) = Some b"
    by (rule chain_trackedE [OF assms(1) 0(2)])
  ultimately show ?case using ancestry.tip by metis
next
  case (Suc n)
  then have next_in: "Suc i < length ks" "n = length ks - Suc (Suc i)" by linarith+
  obtain c where c: "index_block (st_index self) (bk_block_hash (ks ! Suc i)) = Some c"
    "tb_parent_block_hash c = Some (bk_block_hash (ks ! i))"
    using chain_trackedE [OF assms(1) next_in(1)] by (metis diff_Suc_1 nat.simps(3))
  obtain b where b: "index_block (st_index self) (bk_block_hash (ks ! i)) = Some b"
    by (rule chain_trackedE [OF assms(1) Suc(3)])
  show ?case by (rule ancestry.parent [OF Suc(1) [OF next_in(2,1)] c b])
qed

lemma has_kv_block_tracked:
  assumes "store_wf host self"
  shows "has_kv_block self h \<longleftrightarrow> (\<exists>b. index_block (st_index self) h = Some b \<and> tb_sequence_state_file b \<noteq> None)"
proof -
  have "file_is_present self (tf_file_path f)" if "index_block (st_index self) h = Some b" "tb_sequence_state_file b = Some f" for b f
  proof -
    have "(h, b) \<in> set (ix_blocks (st_index self))" using that(1) assms by (simp add: store_wf_def index_block_mem)
    then show ?thesis using store_wf_block [OF assms] that(2)
      by (metis block_on_disk_def file_is_present_def list_ex_iff)
  qed
  then show ?thesis
    by (auto simp: has_kv_block_def tracked_file_still_exists_def bind_eq_Some_conv split: option.splits)
qed

lemma has_recurrent_snapshot_tracked:
  assumes "store_wf host self"
  shows "has_recurrent_snapshot self h \<longleftrightarrow> (\<exists>b. index_block (st_index self) h = Some b \<and> tb_boundary_state_file b \<noteq> None)"
proof -
  have "file_is_present self (tf_file_path f)" if "index_block (st_index self) h = Some b" "tb_boundary_state_file b = Some f" for b f
  proof -
    have "(h, b) \<in> set (ix_blocks (st_index self))" using that(1) assms by (simp add: store_wf_def index_block_mem)
    then show ?thesis using store_wf_block [OF assms] that(2)
      by (metis block_on_disk_def file_is_present_def list_ex_iff)
  qed
  then show ?thesis
    by (auto simp: has_recurrent_snapshot_def tracked_file_still_exists_def bind_eq_Some_conv split: option.splits)
qed

lemma published_index:
  assumes "publish_block host key parent sequence_tensors boundary_tensors staging self = (self', Inr outcome)"
  shows "case parent of None \<Rightarrow> bk_block_index key = 0
    | Some p \<Rightarrow> unat (bk_block_index key) = Suc (unat (bk_block_index p))"
proof -
  have "validate_requested_block_ancestry key parent = Inr ()"
    using assms unfolding publish_block_def by (auto split: sum.splits)
  then show ?thesis
    by (auto simp: validate_requested_block_ancestry_def checked_add_Some_iff split: option.splits if_splits)
qed

lemma publication_extends:
  assumes wf: "store_wf host self" and staging: "staging \<notin> set (entry_paths (st_disk self))"
    and chain: "chain_tracked self ks"
    and run: "publish_block host key (tip_key ks) sequence_tensors boundary_tensors staging self = (self', Inr outcome)"
  shows "same_frame self self'" "store_wf host self'" "chain_tracked self' (ks @ [key])"
    "mc_has_boundary_state (st_contract self) \<Longrightarrow> has_recurrent_snapshot self' (bk_block_hash key)"
    "i < length ks \<Longrightarrow> has_recurrent_snapshot self (bk_block_hash (ks ! i)) \<Longrightarrow>
       has_recurrent_snapshot self' (bk_block_hash (ks ! i)) \<or> Suc i = length ks \<and> under_pressure host self key staging"
proof -
  obtain c where result: "same_frame self self'" "store_wf host self'"
    "index_block (st_index self') (bk_block_hash key) = Some c"
    "tb_block_index c = bk_block_index key" "tb_parent_block_hash c = map_option bk_block_hash (tip_key ks)"
    "mc_has_sequence_state (st_contract self) \<Longrightarrow> tb_sequence_state_file c \<noteq> None"
    "mc_has_boundary_state (st_contract self) \<Longrightarrow> tb_boundary_state_file c \<noteq> None"
    and kept: "\<And>p h b. \<lbrakk>tip_key ks = Some p; h \<in> ancestry (st_index self) (bk_block_hash p); index_block (st_index self) h = Some b;
       tb_block_index b \<noteq> bk_block_index key\<rbrakk> \<Longrightarrow>
       \<exists>c. index_block (st_index self') h = Some c \<and> same_block b c
         \<and> (tb_boundary_state_file b \<noteq> None \<longrightarrow>
              tb_boundary_state_file c \<noteq> None \<or> h = bk_block_hash p \<and> under_pressure host self key staging)"
    by (rule publication_result [OF wf staging run]) (rule that; assumption)
  show frame: "same_frame self self'" and wf': "store_wf host self'" by (fact result)+
  have index: "unat (bk_block_index key) = length ks"
  proof (cases "ks = []")
    case False
    then obtain b where "unat (bk_block_index (ks ! (length ks - 1))) = length ks - 1"
      using chain_trackedE [OF chain, of "length ks - 1"] by (metis diff_less length_greater_0_conv zero_less_one)
    then show ?thesis using published_index [OF run] False by (simp add: tip_key_def last_conv_nth)
  qed (use published_index [OF run] in \<open>simp add: tip_key_def\<close>)
  have entry: "\<exists>c. index_block (st_index self') (bk_block_hash (ks ! i)) = Some c \<and> same_block b c
      \<and> (tb_boundary_state_file b \<noteq> None \<longrightarrow> tb_boundary_state_file c \<noteq> None
           \<or> bk_block_hash (ks ! i) = bk_block_hash (last ks) \<and> under_pressure host self key staging)"
    if i: "i < length ks" and b: "index_block (st_index self) (bk_block_hash (ks ! i)) = Some b" for i b
  proof (rule kept)
    show "tip_key ks = Some (last ks)" using i by (auto simp: tip_key_def)
    show "bk_block_hash (ks ! i) \<in> ancestry (st_index self) (bk_block_hash (last ks))" by (rule chain_ancestry [OF chain i])
    show "tb_block_index b \<noteq> bk_block_index key"
      using chain_trackedE [OF chain i] b index i by (metis less_irrefl option.inject)
  qed (rule b)
  have "chain_entry self' (ks @ [key]) i" if "i < Suc (length ks)" for i
  proof (cases "i < length ks")
    case True
    obtain b where b: "index_block (st_index self) (bk_block_hash (ks ! i)) = Some b" "unat (bk_block_index (ks ! i)) = i"
      "tb_block_index b = bk_block_index (ks ! i)"
      "tb_parent_block_hash b = (if i = 0 then None else Some (bk_block_hash (ks ! (i - 1))))"
      "mc_has_sequence_state (st_contract self) \<Longrightarrow> tb_sequence_state_file b \<noteq> None"
      by (rule chain_trackedE [OF chain True]) (rule that; assumption)
    then show ?thesis using entry [OF True b(1)] frame True
      by (auto simp: chain_entry_def nth_append same_block_def same_frame_def)
  next
    case False
    then have "i = length ks" using that by simp
    then show ?thesis using result frame index
      by (auto simp: chain_entry_def nth_append tip_key_def last_conv_nth same_frame_def)
  qed
  then show "chain_tracked self' (ks @ [key])" by (simp add: chain_tracked_def)
  show "mc_has_boundary_state (st_contract self) \<Longrightarrow> has_recurrent_snapshot self' (bk_block_hash key)"
    using result(3,7) by (simp add: has_recurrent_snapshot_tracked [OF wf'])
  assume i: "i < length ks" and snapshot: "has_recurrent_snapshot self (bk_block_hash (ks ! i))"
  then obtain b where b: "index_block (st_index self) (bk_block_hash (ks ! i)) = Some b" "tb_boundary_state_file b \<noteq> None"
    by (auto simp: has_recurrent_snapshot_tracked [OF wf])
  have "Suc i = length ks" if same: "bk_block_hash (ks ! i) = bk_block_hash (last ks)"
  proof -
    have "ks \<noteq> []" using i by auto
    then have last_in: "length ks - 1 < length ks" "last ks = ks ! (length ks - 1)" by (simp_all add: last_conv_nth)
    have "i = length ks - 1"
      using chain_trackedE [OF chain i] chain_trackedE [OF chain last_in(1)] same unfolding last_in(2) by (metis option.inject)
    then show ?thesis using i by simp
  qed
  then show "has_recurrent_snapshot self' (bk_block_hash (ks ! i)) \<or> Suc i = length ks \<and> under_pressure host self key staging"
    using entry [OF i b(1)] b(2) by (auto simp: has_recurrent_snapshot_tracked [OF wf'])
qed

section \<open>Retryable failures\<close>

text \<open>
  A publication is retried when memory ran out while its tensors were saved. That is before the ceiling is
  enforced, so the store of a retryable failure is the one the publication started from.
\<close>

definition retryable :: "DiskStoreError \<Rightarrow> bool" where
  "retryable e \<longleftrightarrow> active_memory_deficit_bytes e \<noteq> None"

definition io_steps :: "host \<Rightarrow> bool" where
  "io_steps host \<longleftrightarrow>
     (\<forall>s. case ho_step_fails host s of None \<Rightarrow> True | Some e \<Rightarrow> \<not> retryable e)
     \<and> (\<forall>kind n. case ho_expected_file_bytes host kind n of Inl e \<Rightarrow> \<not> retryable e | Inr _ \<Rightarrow> True)"

lemma not_retryable [simp]:
  "\<not> retryable (ParentStateNotPublished i)" "\<not> retryable (ExistingBlockTopologyMismatch h)"
  "\<not> retryable (InvalidRequestedBlockAncestry i)" "\<not> retryable (StateKindTensorPresenceMismatch k p n)"
  "\<not> retryable (FileSystemFailure path)" "\<not> retryable (GlobalPromptCacheSizeOverflow path)"
  "\<not> retryable (GlobalPromptCacheQuotaNotSatisfied m r)"
  by (simp_all add: retryable_def)

lemma step_not_retryable: "io_steps host \<Longrightarrow> step host s = Inl e \<Longrightarrow> \<not> retryable e"
  by (auto simp: io_steps_def step_def split: option.splits)

lemma expected_not_retryable: "io_steps host \<Longrightarrow> ho_expected_file_bytes host kind n = Inl e \<Longrightarrow> \<not> retryable e"
  by (auto simp: io_steps_def split: sum.splits)

lemma remove_directories_error: "remove_directories fails paths disk = (disk', Some e) \<Longrightarrow> \<not> retryable e"
  by (induction fails paths disk rule: remove_directories.induct) (auto split: if_splits)

lemma remove_candidate_error: "remove_eviction_candidate fails c disk = (disk', Some e) \<Longrightarrow> \<not> retryable e"
  by (cases c) (auto split: if_splits dest: remove_directories_error)

lemma committed_size_error: "committed_size policy state = Inl e \<Longrightarrow> \<not> retryable e"
  by (auto simp: committed_size_def committed_size_after_addition_def ok_or_def split: option.splits)

lemma evict_candidates_error: "evict_candidates fails policy cs state = (state', Some e) \<Longrightarrow> \<not> retryable e"
proof (induction fails policy cs state rule: evict_candidates.induct)
  case (2 fails policy c cs state)
  show ?case
  proof (cases "candidate_is_kept policy state c")
    case (Inl e')
    then have "committed_size policy state = Inl e'"
      by (auto simp: candidate_is_kept_def result_bind_def split: if_splits sum.splits)
    then show ?thesis using 2(3) Inl committed_size_error by auto
  next
    case (Inr kept)
    then show ?thesis using 2 remove_candidate_error by (cases kept) (auto split: prod.splits option.splits)
  qed
qed simp

lemma result_bind_eq_Inl_iff: "result_bind r f = Inl e \<longleftrightarrow> r = Inl e \<or> (\<exists>x. r = Inr x \<and> f x = Inl e)"
  by (cases r) auto

lemma try_fold_error:
  assumes "try_fold f s xs = Inl e" "\<And>s x e. f s x = Inl e \<Longrightarrow> \<not> retryable e"
  shows "\<not> retryable e"
  using assms(1) by (induction xs arbitrary: s) (auto split: sum.splits dest: assms(2))

lemma checked_global_error: "checked_add_global_size root a b = Inl e \<Longrightarrow> \<not> retryable e"
  by (auto simp: checked_add_global_size_def)

lemma add_standalone_error: "add_standalone_file root sums f = Inl e \<Longrightarrow> \<not> retryable e"
  by (auto simp: add_standalone_file_def result_bind_eq_Inl_iff split: if_splits dest: checked_global_error)

lemma subtree_step_error: "subtree_step by_identity subtree b = Inl e \<Longrightarrow> \<not> retryable e"
  by (cases subtree) (auto simp: subtree_step_def result_bind_eq_Inl_iff split: option.splits)

lemma subtree_candidate_error: "subtree_candidate by_identity children root = Inl e \<Longrightarrow> \<not> retryable e"
  by (cases root) (auto simp: subtree_candidate_def result_bind_eq_Inl_iff simp del: collect_subtree_block_identities.simps
      dest: try_fold_error [OF _ subtree_step_error])

lemma build_candidates_error: "build_block_subtree_candidates blocks = Inl e \<Longrightarrow> \<not> retryable e"
  unfolding build_block_subtree_candidates_def Let_def
  by (erule try_fold_error) (auto simp: result_bind_eq_Inl_iff dest: subtree_candidate_error)

lemma scan_error: "scan_global_prompt_cache_quota root excluded disk = Inl e \<Longrightarrow> \<not> retryable e"
  unfolding scan_global_prompt_cache_quota_def Let_def result_bind_eq_Inl_iff
  by (auto simp: result_bind_eq_Inl_iff dest: try_fold_error [OF _ add_standalone_error]
      try_fold_error [OF _ checked_global_error] build_candidates_error)

lemma store_quota_error: "enforce_store_quota host a r protected excluded rec self = (self', Some e) \<Longrightarrow> \<not> retryable e"
  unfolding enforce_store_quota_def enforce_global_prompt_cache_quota_for_commit_def Let_def
  by (auto split: prod.splits sum.splits option.splits if_splits
      dest: scan_error evict_candidates_error committed_size_error)

lemma refresh_error: "refresh_global_prompt_cache_accounting self = (self', Some e) \<Longrightarrow> \<not> retryable e"
  unfolding refresh_global_prompt_cache_accounting_def by (auto split: sum.splits dest: scan_error)

lemma stage_and_admit_error:
  assumes "stage_and_admit_block host key parent staging final self = (self', Inl e)" "retryable e"
  shows "self' = self"
  using assms unfolding stage_and_admit_block_def
  by (auto split: sum.splits prod.splits option.splits if_splits dest: store_quota_error)

lemma commit_error:
  "io_steps host \<Longrightarrow> commit_and_publish_block host key parent final staged self = (self', Some e) \<Longrightarrow> \<not> retryable e"
  unfolding commit_and_publish_block_def Let_def by (auto split: sum.splits dest: step_not_retryable)

lemma reclaim_error: "io_steps host \<Longrightarrow> reclaim_parent_boundary host r self = (self', Some e) \<Longrightarrow> \<not> retryable e"
  unfolding reclaim_parent_boundary_def Let_def by (auto split: sum.splits option.splits dest: step_not_retryable)

lemma supersede_error:
  "io_steps host \<Longrightarrow> supersede_shorter_partial_tail_siblings host key parent self = (self', Some e) \<Longrightarrow> \<not> retryable e"
  unfolding supersede_shorter_partial_tail_siblings_def Let_def
  by (auto split: sum.splits option.splits prod.splits if_splits
      dest: expected_not_retryable remove_directories_error refresh_error)

lemma transaction_error:
  assumes "io_steps host" "publish_new_block_transaction host key parent staging self = (self', Some e)" "retryable e"
  shows "self' = self"
  using assms unfolding publish_new_block_transaction_def Let_def
  by (auto split: sum.splits prod.splits option.splits dest: stage_and_admit_error commit_error reclaim_error refresh_error)

lemma missing_boundary_error:
  assumes "io_steps host" "publish_missing_boundary_state_transaction host key staging self = (self', Some e)" "retryable e"
  shows "self' = self"
  using assms unfolding publish_missing_boundary_state_transaction_def Let_def
  by (auto split: sum.splits prod.splits option.splits simp: result_bind_eq_Inl_iff
      dest: store_quota_error step_not_retryable refresh_error)

lemma retry_starts_over:
  assumes wf: "store_wf host self" and io: "io_steps host"
    and run: "publish_block host key parent sequence_tensors boundary_tensors staging self = (self', Inl e)"
    and retry: "retryable e"
  shows "self' = self"
proof (cases "index_block (st_index self) (bk_block_hash key)")
  case None
  then show ?thesis
    using run retry io unfolding publish_block_def publish_new_block_def
    by (auto split: sum.splits prod.splits option.splits if_splits dest: transaction_error supersede_error)
next
  case (Some b)
  then show ?thesis
    using run retry io tracked_directory_present [OF wf Some]
    unfolding publish_block_def publish_existing_block_def Let_def
    by (auto split: sum.splits prod.splits option.splits if_splits dest: missing_boundary_error)
qed

section \<open>What a publication writes\<close>

text \<open>No directory appears but the one of a block; so the name of a staging directory stays unused.\<close>

definition unused_path :: "store \<Rightarrow> path \<Rightarrow> bool" where
  "unused_path self path \<longleftrightarrow> path \<notin> set (entry_paths (st_disk self)) \<and> (\<forall>h. path \<noteq> block_directory self h)"

lemma disk_without_entries: "set (entry_paths (disk_without R disk)) \<subseteq> set (entry_paths disk)"
  by (auto simp: entry_paths_def disk_without_def)

lemma remove_directories_entries:
  "remove_directories fails paths disk = (disk', e) \<Longrightarrow> set (entry_paths disk') \<subseteq> set (entry_paths disk)"
proof (induction fails paths disk rule: remove_directories.induct)
  case (2 fails p ps disk)
  have "set (entry_paths (disk_without_directory p disk)) \<subseteq> set (entry_paths disk)"
    by (auto simp: entry_paths_def disk_without_directory_def)
  then show ?case using 2 by (auto split: if_splits)
qed simp

lemma block_file_entries:
  "entry_paths (disk_without_block_file host d f n disk) = entry_paths disk"
  "entry_paths (disk_with_block_file host d f n disk) = entry_paths disk"
  by (auto simp: entry_paths_def disk_without_block_file_def disk_with_block_file_def intro!: map_cong)

lemma quota_entries:
  assumes "store_wf host self"
    and "enforce_store_quota host additional reclaimable protected excluded False self = (self', None)"
  shows "set (entry_paths (st_disk self')) \<subseteq> set (entry_paths (st_disk self))"
proof -
  have "disk_wf (st_disk self)" using assms(1) by (simp add: store_wf_def)
  then obtain R where "st_disk self' = disk_without R (st_disk self)"
    using quota_result [OF _ store_wf_index_on_disk [OF assms(1)] assms(2)] by metis
  then show ?thesis using disk_without_entries by simp
qed

lemma refresh_disk: "refresh_global_prompt_cache_accounting self = (self', None) \<Longrightarrow> st_disk self' = st_disk self"
  by (rule refresh_result)

lemma commit_entries:
  "commit_and_publish_block host key parent final staged self = (self', None) \<Longrightarrow>
   set (entry_paths (st_disk self')) = insert final (set (entry_paths (st_disk self)))"
  by (auto simp: commit_and_publish_block_def Let_def track_committed_block_def entry_paths_def committed_directory_def
      split: sum.splits)

lemma reclaim_entries:
  "reclaim_parent_boundary host r self = (self', None) \<Longrightarrow> entry_paths (st_disk self') = entry_paths (st_disk self)"
  by (auto simp: reclaim_parent_boundary_def Let_def block_file_entries split: option.splits sum.splits)

lemma supersede_entries:
  "supersede_shorter_partial_tail_siblings host key parent self = (self', None) \<Longrightarrow>
   set (entry_paths (st_disk self')) \<subseteq> set (entry_paths (st_disk self))"
  by (auto simp: supersede_shorter_partial_tail_siblings_def Let_def split: if_splits sum.splits prod.splits option.splits
      dest!: refresh_disk remove_directories_entries)

lemma transaction_entries:
  assumes wf: "store_wf host self" and run: "publish_new_block_transaction host key parent staging self = (self', None)"
  shows "set (entry_paths (st_disk self')) \<subseteq> insert (block_directory self (bk_block_hash key)) (set (entry_paths (st_disk self)))"
proof -
  let ?final = "block_directory self (bk_block_hash key)"
  obtain self1 staged where admit: "stage_and_admit_block host key parent staging ?final self = (self1, Inr staged)"
    using run unfolding publish_new_block_transaction_def Let_def by (auto split: prod.splits sum.splits)
  obtain self2 where commit: "commit_and_publish_block host key parent ?final staged self1 = (self2, None)"
    using run admit unfolding publish_new_block_transaction_def Let_def by (auto split: prod.splits option.splits)
  obtain self3 r where reclaim: "reclaim_parent_boundary host r self2 = (self3, None)"
    and refresh: "refresh_global_prompt_cache_accounting self3 = (self', None)"
    using run admit commit unfolding publish_new_block_transaction_def Let_def by (auto split: prod.splits option.splits)
  obtain additional reclaimable where quota: "enforce_store_quota host additional reclaimable
      (protected_ancestry_for_commit self parent @ [?final]) (Some staging) False self = (self1, None)"
    using admit unfolding stage_and_admit_block_def by (auto split: sum.splits prod.splits option.splits if_splits)
  show ?thesis
    using quota_entries [OF wf quota] commit_entries [OF commit] reclaim_entries [OF reclaim] refresh_disk [OF refresh] by auto
qed

lemma missing_boundary_entries:
  assumes wf: "store_wf host self" and run: "publish_missing_boundary_state_transaction host key staging self = (self', None)"
  shows "set (entry_paths (st_disk self')) \<subseteq> set (entry_paths (st_disk self))"
  using run unfolding publish_missing_boundary_state_transaction_def Let_def
  by (auto simp: block_file_entries split: sum.splits prod.splits option.splits
      dest!: refresh_disk quota_entries [OF wf])

lemma publication_entries:
  assumes wf: "store_wf host self" and staging: "unused_path self staging"
    and run: "publish_block host key parent sequence_tensors boundary_tensors staging self = (self', Inr outcome)"
  shows "set (entry_paths (st_disk self')) \<subseteq> insert (block_directory self (bk_block_hash key)) (set (entry_paths (st_disk self)))"
proof (cases "index_block (st_index self) (bk_block_hash key)")
  case (Some b)
  then show ?thesis
    using run tracked_directory_present [OF wf Some] missing_boundary_entries [OF wf]
    unfolding publish_block_def publish_existing_block_def Let_def
    by (auto split: sum.splits prod.splits option.splits if_splits)
next
  case None
  then obtain self1 where transaction: "publish_new_block_transaction host key parent staging self = (self1, None)"
    and supersede: "supersede_shorter_partial_tail_siblings host key parent self1 = (self', None)"
    using run unfolding publish_block_def publish_new_block_def
    by (auto split: sum.splits prod.splits option.splits if_splits)
  show ?thesis using transaction_entries [OF wf transaction] supersede_entries [OF supersede] by auto
qed

lemma publication_unused:
  assumes wf: "store_wf host self" and staging: "unused_path self staging"
    and run: "publish_block host key parent sequence_tensors boundary_tensors staging self = (self', Inr outcome)"
    and path: "unused_path self path" and frame: "same_frame self self'"
  shows "unused_path self' path"
  using publication_entries [OF wf staging run] path unfolding unused_path_def same_frame_directory [OF frame] by blast

end
