(* ===== verification/Cache_Boundary.thy ===== *)
theory Cache_Boundary
  imports Prelude
begin

text \<open>
  Where the prefill of a prompt stops so that its state can be kept: \<^verbatim>\<open>persistent_cache/prefill_boundary.rs\<close> and
  \<^verbatim>\<open>qwen3_5_streaming/inference_execution/prompt_processing_chunk_sizer.rs\<close>. Positions are \<^verbatim>\<open>usize\<close> words. The last
  section runs the two against each other, as the engine does until no prompt work is pending.
\<close>

section \<open>Boundaries\<close>

text \<open>The loop of the boundary list. Its caller passes no block length of zero, with which it would not advance.\<close>

function boundaries_from :: "usize \<Rightarrow> usize \<Rightarrow> usize \<Rightarrow> usize \<Rightarrow> usize list" where
  "boundaries_from prefill_chunk_start prefill_chunk_end block_token_count boundary =
     (if block_token_count = 0 \<or> \<not> boundary \<le> prefill_chunk_end then []
      else (boundary - prefill_chunk_start)
        # (case checked_add boundary block_token_count of
             None \<Rightarrow> []
           | Some next_boundary \<Rightarrow> boundaries_from prefill_chunk_start prefill_chunk_end block_token_count next_boundary))"
  by pat_completeness auto
termination
  by (relation "measure (\<lambda>(start, chunk_end, block, boundary). unat chunk_end + 1 - unat boundary)")
    (auto simp: checked_add_Some_iff word_le_nat_alt word_unat_eq_iff)

declare boundaries_from.simps [simp del]

definition next_boundary_after :: "usize \<Rightarrow> usize \<Rightarrow> usize option" where
  "next_boundary_after prefill_chunk_start block_token_count =
     Option.bind (checked_add (prefill_chunk_start div block_token_count) 1)
       (\<lambda>next_block_count. checked_mul next_block_count block_token_count)"

definition boundary_completed_prefill_chunk_tokens :: "usize \<Rightarrow> usize \<Rightarrow> usize \<Rightarrow> usize list" where
  "boundary_completed_prefill_chunk_tokens prefill_chunk_start prefill_chunk_end block_token_count =
     (if prefill_chunk_end \<le> prefill_chunk_start \<or> block_token_count = 0 then []
      else case next_boundary_after prefill_chunk_start block_token_count of
             None \<Rightarrow> []
           | Some boundary \<Rightarrow> boundaries_from prefill_chunk_start prefill_chunk_end block_token_count boundary)"

definition boundary_clamped_prefill_chunk_end :: "usize \<Rightarrow> usize \<Rightarrow> usize \<Rightarrow> usize" where
  "boundary_clamped_prefill_chunk_end prefill_chunk_start requested_prefill_chunk_end block_token_count =
     (if requested_prefill_chunk_end \<le> prefill_chunk_start \<or> block_token_count = 0 then requested_prefill_chunk_end
      else case next_boundary_after prefill_chunk_start block_token_count of
             None \<Rightarrow> requested_prefill_chunk_end
           | Some boundary \<Rightarrow> min requested_prefill_chunk_end boundary)"

text \<open>\<^verbatim>\<open>is_multiple_of\<close>: zero is the only multiple of zero, as with \<open>mod\<close>.\<close>

definition partial_tail_capture_end :: "usize \<Rightarrow> usize \<Rightarrow> usize" where
  "partial_tail_capture_end prompt_token_count block_token_count =
     (if prompt_token_count mod block_token_count = 0 then prompt_token_count
      else saturating_sub prompt_token_count 1)"

definition clamped_prefill_chunk_end :: "usize \<Rightarrow> usize \<Rightarrow> usize \<Rightarrow> usize \<Rightarrow> usize" where
  "clamped_prefill_chunk_end prefill_chunk_start requested_prefill_chunk_end prompt_token_count block_token_count =
     (let clamped =
            (if length (boundary_completed_prefill_chunk_tokens prefill_chunk_start requested_prefill_chunk_end
                 block_token_count) \<le> 1
             then requested_prefill_chunk_end
             else boundary_clamped_prefill_chunk_end prefill_chunk_start requested_prefill_chunk_end block_token_count);
          capture_end = partial_tail_capture_end prompt_token_count block_token_count
      in if clamped = prompt_token_count \<and> capture_end < prompt_token_count \<and> prefill_chunk_start < capture_end
         then capture_end else clamped)"

record ResolvedPrefillChunkSpan =
  ps_prefill_start :: usize
  ps_requested_prefill_chunk_end :: usize
  ps_attempted_prefill_chunk_token_count :: usize

definition resolve_prompt_prefill_chunk_span ::
    "usize \<Rightarrow> usize \<Rightarrow> usize \<Rightarrow> bool \<Rightarrow> bool \<Rightarrow> usize \<Rightarrow> ResolvedPrefillChunkSpan option" where
  "resolve_prompt_prefill_chunk_span prefill_cursor prompt_token_count configured_chunk_end
       persistent_prompt_cache_available can_use_persistent_prompt_cache block_token_count =
     (if prompt_token_count \<le> prefill_cursor then None
      else let chunk_end =
                 (if persistent_prompt_cache_available \<and> can_use_persistent_prompt_cache
                  then clamped_prefill_chunk_end prefill_cursor configured_chunk_end prompt_token_count block_token_count
                  else configured_chunk_end)
           in Some \<lparr>ps_prefill_start = prefill_cursor, ps_requested_prefill_chunk_end = chunk_end,
                    ps_attempted_prefill_chunk_token_count = chunk_end - prefill_cursor\<rparr>)"

section \<open>The sizer\<close>

datatype ChunkSizerError = ExceedsPlatformRange | MustBePositive

text \<open>A \<^verbatim>\<open>usize\<close> of 64 bits holds every \<^verbatim>\<open>u32\<close>, so the platform range is never exceeded.\<close>

definition prompt_processing_chunk_size_tokens_from_u32 :: "u32 \<Rightarrow> ChunkSizerError + usize" where
  "prompt_processing_chunk_size_tokens_from_u32 chunk_size_tokens =
     (if ucast chunk_size_tokens = (0 :: usize) then Inl MustBePositive else Inr (ucast chunk_size_tokens))"

definition next_prompt_processing_chunk_end :: "usize \<Rightarrow> usize \<Rightarrow> usize \<Rightarrow> usize" where
  "next_prompt_processing_chunk_end chunk_size_tokens chunk_start final_prompt_end =
     min (saturating_add chunk_start chunk_size_tokens) final_prompt_end"

section \<open>Lemmas\<close>

lemma filter_from:
  assumes "B dvd b" "b \<le> e" "0 < (B :: nat)"
  shows "filter (\<lambda>p. b \<le> p \<and> p mod B = 0) [0..<Suc e] = b # filter (\<lambda>p. b + B \<le> p \<and> p mod B = 0) [0..<Suc e]"
proof -
  have split_upt: "[0..<Suc e] = [0..<b] @ b # [Suc b..<Suc e]"
    using assms(2) upt_add_eq_append [of 0 b "Suc e - b"] upt_conv_Cons [of b "Suc e"] by simp
  have step: "Suc b \<le> p \<and> p mod B = 0 \<longleftrightarrow> b + B \<le> p \<and> p mod B = 0" for p
  proof
    assume p: "Suc b \<le> p \<and> p mod B = 0"
    then have "B dvd p - b" using assms(1) by (simp add: dvd_diff_nat mod_eq_0_iff_dvd)
    moreover have "0 < p - b" using p by simp
    ultimately have "B \<le> p - b" by (rule dvd_imp_le)
    then show "b + B \<le> p \<and> p mod B = 0" using p by linarith
  qed (use assms(3) in auto)
  have tail: "filter (\<lambda>p. b \<le> p \<and> p mod B = 0) [Suc b..<Suc e] = filter (\<lambda>p. b + B \<le> p \<and> p mod B = 0) [Suc b..<Suc e]"
  proof (rule filter_cong [OF refl])
    fix p assume "p \<in> set [Suc b..<Suc e]"
    then have "Suc b \<le> p" by auto
    then show "(b \<le> p \<and> p mod B = 0) = (b + B \<le> p \<and> p mod B = 0)" using step [of p] by linarith
  qed
  have before: "filter (\<lambda>p. b \<le> p \<and> p mod B = 0) [0..<b] = []" "filter (\<lambda>p. b + B \<le> p \<and> p mod B = 0) [0..<b] = []"
    by (auto simp: filter_empty_conv)
  show ?thesis unfolding split_upt filter_append before filter.simps tail using assms by (simp add: mod_eq_0_iff_dvd)
qed

lemma boundaries_from_positions:
  assumes "block_token_count \<noteq> 0" "unat block_token_count dvd unat boundary" "prefill_chunk_start \<le> boundary"
  shows "map (\<lambda>d. unat prefill_chunk_start + unat d) (boundaries_from prefill_chunk_start chunk_end block_token_count boundary)
     = filter (\<lambda>p. unat boundary \<le> p \<and> p mod unat block_token_count = 0) [0..<Suc (unat chunk_end)]"
  using assms
proof (induction prefill_chunk_start chunk_end block_token_count boundary rule: boundaries_from.induct)
  case (1 start chunk_end B boundary)
  have B: "0 < unat B" using 1(2) by (simp add: unat_gt_0)
  show ?case
  proof (cases "boundary \<le> chunk_end")
    case False
    then have "filter (\<lambda>p. unat boundary \<le> p \<and> p mod unat B = 0) [0..<Suc (unat chunk_end)] = []"
      by (auto simp: filter_empty_conv word_le_nat_alt)
    then show ?thesis using False by (simp add: boundaries_from.simps)
  next
    case True
    note unfolded = filter_from [OF 1(3) _ B, of "unat chunk_end"]
    have first: "unat start + unat (boundary - start) = unat boundary"
      using 1(4) by (simp add: unat_sub_exact word_le_nat_alt)
    show ?thesis
    proof (cases "checked_add boundary B")
      case None
      then have "2 ^ 64 \<le> unat boundary + unat B" by (simp add: checked_add_None_iff)
      then have "filter (\<lambda>p. unat boundary + unat B \<le> p \<and> p mod unat B = 0) [0..<Suc (unat chunk_end)] = []"
        using u64_bound [of chunk_end] by (auto simp: filter_empty_conv)
      then show ?thesis using True 1(2) None first unfolded by (simp add: boundaries_from.simps word_le_nat_alt)
    next
      case (Some later)
      then have later: "unat later = unat boundary + unat B" by (simp add: checked_add_Some_iff)
      have "map (\<lambda>d. unat start + unat d) (boundaries_from start chunk_end B later)
          = filter (\<lambda>p. unat later \<le> p \<and> p mod unat B = 0) [0..<Suc (unat chunk_end)]"
        using True 1(2-4) later by (intro 1(1) Some) (auto simp: word_le_nat_alt)
      then show ?thesis using True 1(2) Some first unfolded later by (simp add: boundaries_from.simps word_le_nat_alt)
    qed
  qed
qed

lemma less_next_multiple: "0 < (B :: nat) \<Longrightarrow> s < (s div B + 1) * B"
  by (metis Suc_eq_plus1 dividend_less_div_times mult.commute mult_Suc)

lemma next_boundary_Some:
  assumes "next_boundary_after start B = Some boundary" "B \<noteq> 0"
  shows "unat boundary = (unat start div unat B + 1) * unat B" "unat start < unat boundary" "unat B dvd unat boundary"
proof -
  have B: "0 < unat B" using assms(2) by (simp add: unat_gt_0)
  show boundary: "unat boundary = (unat start div unat B + 1) * unat B"
    using assms(1) unfolding next_boundary_after_def bind_eq_Some_conv
    by (auto simp: checked_add_Some_iff checked_mul_Some_iff unat_div)
  show "unat start < unat boundary"
    unfolding boundary by (rule less_next_multiple [OF B])
  show "unat B dvd unat boundary" by (simp add: boundary)
qed

lemma next_boundary_None:
  assumes "next_boundary_after start B = None" "B \<noteq> 0"
  shows "2 ^ 64 \<le> (unat start div unat B + 1) * unat B"
proof (cases "checked_add (start div B) 1")
  case None
  then have "2 ^ LENGTH(64) \<le> unat (start div B) + unat (1 :: usize)" unfolding checked_add_None_iff .
  moreover have "0 < unat B" using assms(2) by (simp add: unat_gt_0)
  then have "unat start div unat B + 1 \<le> (unat start div unat B + 1) * unat B" by (cases "unat B") simp_all
  ultimately show ?thesis by (simp add: unat_div)
next
  case (Some n)
  then have "unat n = unat start div unat B + 1" by (simp add: checked_add_Some_iff unat_div)
  moreover have "2 ^ LENGTH(64) \<le> unat n * unat B"
    using assms(1) Some unfolding next_boundary_after_def by (simp add: checked_mul_None_iff)
  ultimately show ?thesis by simp
qed

lemma multiples_after:
  assumes "0 < (B :: nat)"
  shows "s < p \<and> p mod B = 0 \<longleftrightarrow> (s div B + 1) * B \<le> p \<and> p mod B = 0"
proof
  assume p: "s < p \<and> p mod B = 0"
  then have eq: "p = p div B * B" using div_mult_mod_eq [of p B] by simp
  have "s div B < p div B" using p eq assms by (metis div_less_iff_less_mult)
  then have "(s div B + 1) * B \<le> p div B * B" by (intro mult_le_mono1) simp
  then show "(s div B + 1) * B \<le> p \<and> p mod B = 0" using p eq by simp
next
  assume p: "(s div B + 1) * B \<le> p \<and> p mod B = 0"
  then show "s < p \<and> p mod B = 0"
    using less_next_multiple [OF assms, of s] by linarith
qed

text \<open>The positions at which state is kept: the multiples of the block length behind the start, up to the end.\<close>

lemma boundary_positions:
  "map (\<lambda>d. unat start + unat d) (boundary_completed_prefill_chunk_tokens start chunk_end B)
     = filter (\<lambda>p. unat start < p \<and> p mod unat B = 0) [0..<Suc (unat chunk_end)]"
proof (cases "chunk_end \<le> start \<or> B = 0")
  case True
  then have "filter (\<lambda>p. unat start < p \<and> p mod unat B = 0) [0..<Suc (unat chunk_end)] = []"
    by (auto simp: filter_empty_conv word_le_nat_alt)
  then show ?thesis using True by (simp add: boundary_completed_prefill_chunk_tokens_def)
next
  case False
  then have B: "0 < unat B" "B \<noteq> 0" by (simp_all add: unat_gt_0)
  note after = multiples_after [OF B(1), of "unat start"]
  show ?thesis
  proof (cases "next_boundary_after start B")
    case None
    then have "filter (\<lambda>p. unat start < p \<and> p mod unat B = 0) [0..<Suc (unat chunk_end)] = []"
      using next_boundary_None [OF None B(2)] u64_bound [of chunk_end] unfolding after by (auto simp: filter_empty_conv)
    then show ?thesis using None False by (simp add: boundary_completed_prefill_chunk_tokens_def)
  next
    case (Some boundary)
    note facts = next_boundary_Some [OF Some B(2)]
    show ?thesis
      using boundaries_from_positions [OF B(2) facts(3), of start chunk_end] facts(1,2) Some False after
      by (simp add: boundary_completed_prefill_chunk_tokens_def word_le_nat_alt)
  qed
qed

section \<open>One chunk\<close>

lemma boundary_count:
  "length (boundary_completed_prefill_chunk_tokens start chunk_end B)
     = length (filter (\<lambda>p. unat start < p \<and> p mod unat B = 0) [0..<Suc (unat chunk_end)])"
  by (metis boundary_positions length_map)

lemma boundary_count_mono:
  assumes "c \<le> d"
  shows "length (boundary_completed_prefill_chunk_tokens start c B) \<le> length (boundary_completed_prefill_chunk_tokens start d B)"
proof -
  have "[0..<Suc (unat d)] = [0..<Suc (unat c)] @ [Suc (unat c)..<Suc (unat d)]"
    using assms upt_add_eq_append [of 0 "Suc (unat c)" "unat d - unat c"] by (simp add: word_le_nat_alt)
  then show ?thesis unfolding boundary_count by simp
qed

lemma boundary_count_next:
  assumes "next_boundary_after start B = Some boundary" "B \<noteq> 0" "c \<le> boundary"
  shows "length (boundary_completed_prefill_chunk_tokens start c B) \<le> 1"
proof -
  have B: "0 < unat B" using assms(2) by (simp add: unat_gt_0)
  let ?f = "filter (\<lambda>p. unat start < p \<and> p mod unat B = 0) [0..<Suc (unat c)]"
  have "set ?f \<subseteq> {unat c}"
    using next_boundary_Some(1) [OF assms(1,2)] assms(3) unfolding multiples_after [OF B] by (auto simp: word_le_nat_alt)
  then have "card (set ?f) \<le> 1" using card_mono [of "{unat c}" "set ?f"] by simp
  moreover have "distinct ?f" by simp
  ultimately show ?thesis unfolding boundary_count using distinct_card [of ?f] by simp
qed

lemma clamped_chunk:
  fixes start requested len B :: usize
  defines "c \<equiv> clamped_prefill_chunk_end start requested len B"
  assumes "start < requested" "requested \<le> len"
  shows "start < c" "c \<le> requested" "length (boundary_completed_prefill_chunk_tokens start c B) \<le> 1"
    "start < partial_tail_capture_end len B \<Longrightarrow> c \<le> partial_tail_capture_end len B"
proof -
  let ?count = "\<lambda>e. length (boundary_completed_prefill_chunk_tokens start e B)"
  let ?clamped = "if ?count requested \<le> 1 then requested else boundary_clamped_prefill_chunk_end start requested B"
  let ?cap = "partial_tail_capture_end len B"
  have clamped: "start < ?clamped" "?clamped \<le> requested" "?count ?clamped \<le> 1"
  proof -
    have "start < ?clamped \<and> ?clamped \<le> requested \<and> ?count ?clamped \<le> 1"
    proof (cases "?count requested \<le> 1")
      case False
      then have B: "B \<noteq> 0" by (auto simp: boundary_completed_prefill_chunk_tokens_def)
      obtain boundary where boundary: "next_boundary_after start B = Some boundary"
        using False by (cases "next_boundary_after start B") (auto simp: boundary_completed_prefill_chunk_tokens_def split: if_splits)
      have clamped_eq: "?clamped = min requested boundary"
        using False B boundary assms(2) by (simp add: boundary_clamped_prefill_chunk_end_def)
      have "start < boundary" using next_boundary_Some(2) [OF boundary B] by (simp add: word_less_nat_alt)
      moreover have "?count (min requested boundary) \<le> 1" by (rule boundary_count_next [OF boundary B]) simp
      ultimately show ?thesis unfolding clamped_eq using assms(2) by simp
    qed (use assms(2) in simp)
    then show "start < ?clamped" "?clamped \<le> requested" "?count ?clamped \<le> 1" by blast+
  qed
  have c: "c = (if ?clamped = len \<and> ?cap < len \<and> start < ?cap then ?cap else ?clamped)"
    unfolding c_def clamped_prefill_chunk_end_def Let_def by simp
  have cap_le: "?cap \<le> len" by (simp add: partial_tail_capture_end_def word_le_nat_alt unat_saturating_sub)
  have below: "x \<le> ?cap" if x: "x \<le> len" "x \<noteq> len \<or> \<not> ?cap < len" for x
  proof (cases "?cap = len")
    case False
    then have "?cap < len" using cap_le by simp
    then have "x < len" using x by auto
    moreover have "unat len \<le> Suc (unat ?cap)"
      by (auto simp: partial_tail_capture_end_def unat_saturating_sub)
    ultimately show ?thesis by (simp add: word_less_nat_alt word_le_nat_alt)
  qed (use x in simp)
  define e where "e = ?clamped"
  note c' = c [folded e_def] and e = clamped [folded e_def]
  show "start < c" unfolding c' using e(1) by simp
  show "c \<le> requested" unfolding c' using e(2) by auto
  show "?count c \<le> 1" unfolding c' using e(3) cap_le boundary_count_mono [of ?cap e start B] by auto
  assume "start < ?cap"
  moreover have "e \<le> len" using e(2) assms(3) by simp
  ultimately show "c \<le> ?cap" unfolding c' using below [of e] by auto
qed

section \<open>The chunks of a prompt\<close>

text \<open>
  The engine resolves one span after another, from the cursor that the last one left, until none is pending;
  the first argument bounds the number of spans.
\<close>

definition resolve_next_prefill_chunk_span :: "usize \<Rightarrow> usize option \<Rightarrow> bool \<Rightarrow> usize \<Rightarrow> usize \<Rightarrow> ResolvedPrefillChunkSpan option" where
  "resolve_next_prefill_chunk_span chunk_size_tokens cache_block_token_count can_use_persistent_prompt_cache
       prefill_cursor prompt_token_count =
     resolve_prompt_prefill_chunk_span prefill_cursor prompt_token_count
       (next_prompt_processing_chunk_end chunk_size_tokens prefill_cursor prompt_token_count)
       (cache_block_token_count \<noteq> None) can_use_persistent_prompt_cache
       (case cache_block_token_count of None \<Rightarrow> 0 | Some block_token_count \<Rightarrow> block_token_count)"

fun prefill_ends :: "nat \<Rightarrow> usize \<Rightarrow> usize option \<Rightarrow> bool \<Rightarrow> usize \<Rightarrow> usize \<Rightarrow> usize list" where
  "prefill_ends 0 chunk_size_tokens block can_use cursor prompt_token_count = []"
| "prefill_ends (Suc fuel) chunk_size_tokens block can_use cursor prompt_token_count =
     (case resolve_next_prefill_chunk_span chunk_size_tokens block can_use cursor prompt_token_count of
        None \<Rightarrow> []
      | Some span \<Rightarrow> ps_requested_prefill_chunk_end span
          # prefill_ends fuel chunk_size_tokens block can_use (ps_requested_prefill_chunk_end span) prompt_token_count)"

text \<open>A chunk is in order: it goes on, within its size, over at most one boundary, and not past the tail.\<close>

definition chunk_in_order :: "usize \<Rightarrow> usize \<Rightarrow> bool \<Rightarrow> usize \<Rightarrow> usize \<Rightarrow> usize \<Rightarrow> bool" where
  "chunk_in_order chunk_size_tokens block_token_count cached prompt_token_count start chunk_end \<longleftrightarrow>
     start < chunk_end \<and> chunk_end \<le> prompt_token_count \<and> unat chunk_end \<le> unat start + unat chunk_size_tokens
     \<and> (\<not> cached \<or> length (boundary_completed_prefill_chunk_tokens start chunk_end block_token_count) \<le> 1
          \<and> \<not> (start < partial_tail_capture_end prompt_token_count block_token_count
                \<and> partial_tail_capture_end prompt_token_count block_token_count < chunk_end))"

fun chunks_in_order :: "usize \<Rightarrow> usize \<Rightarrow> bool \<Rightarrow> usize \<Rightarrow> usize \<Rightarrow> usize list \<Rightarrow> bool" where
  "chunks_in_order chunk_size_tokens block cached prompt_token_count start [] = True"
| "chunks_in_order chunk_size_tokens block cached prompt_token_count start (e # es) =
     (chunk_in_order chunk_size_tokens block cached prompt_token_count start e
      \<and> chunks_in_order chunk_size_tokens block cached prompt_token_count e es)"

lemma next_chunk:
  assumes "chunk_size_tokens \<noteq> 0" "cursor < len"
    "resolve_next_prefill_chunk_span chunk_size_tokens block can_use cursor len = Some span"
  shows "chunk_in_order chunk_size_tokens (case block of None \<Rightarrow> 0 | Some b \<Rightarrow> b) (block \<noteq> None \<and> can_use) len cursor
           (ps_requested_prefill_chunk_end span)"
proof -
  let ?requested = "next_prompt_processing_chunk_end chunk_size_tokens cursor len"
  let ?B = "case block of None \<Rightarrow> 0 | Some b \<Rightarrow> b"
  have requested: "cursor < ?requested" "?requested \<le> len" "unat ?requested \<le> unat cursor + unat chunk_size_tokens"
    using assms(1,2) u64_bound [of len]
    by (auto simp: next_prompt_processing_chunk_end_def word_less_nat_alt word_le_nat_alt unat_min unat_saturating_add word_unat_eq_iff)
  have chunk_end: "ps_requested_prefill_chunk_end span
      = (if block \<noteq> None \<and> can_use then clamped_prefill_chunk_end cursor ?requested len ?B else ?requested)"
  proof -
    have "\<not> len \<le> cursor" using assms(2) by simp
    then show ?thesis
      using assms(3) unfolding resolve_next_prefill_chunk_span_def resolve_prompt_prefill_chunk_span_def Let_def
      by (auto split: if_splits)
  qed
  show ?thesis
  proof (cases "block \<noteq> None \<and> can_use")
    case True
    note facts = clamped_chunk [OF requested(1,2), of ?B]
    have "\<not> (cursor < partial_tail_capture_end len ?B
        \<and> partial_tail_capture_end len ?B < clamped_prefill_chunk_end cursor ?requested len ?B)"
      using facts(4) by (meson leD)
    moreover have "clamped_prefill_chunk_end cursor ?requested len ?B \<le> len" using facts(2) requested(2) by simp
    moreover have "unat (clamped_prefill_chunk_end cursor ?requested len ?B) \<le> unat cursor + unat chunk_size_tokens"
      using facts(2) requested(3) by (simp add: word_le_nat_alt)
    ultimately show ?thesis unfolding chunk_in_order_def chunk_end if_P [OF True] using facts(1,3) by blast
  next
    case False
    then show ?thesis unfolding chunk_in_order_def chunk_end using requested by auto
  qed
qed

lemma resolve_exists:
  "cursor < len \<Longrightarrow> \<exists>span. resolve_next_prefill_chunk_span chunk_size_tokens block can_use cursor len = Some span"
  by (simp add: resolve_next_prefill_chunk_span_def resolve_prompt_prefill_chunk_span_def Let_def not_le)

lemma resolve_none: "\<not> cursor < len \<Longrightarrow> resolve_next_prefill_chunk_span chunk_size_tokens block can_use cursor len = None"
  by (simp add: resolve_next_prefill_chunk_span_def resolve_prompt_prefill_chunk_span_def not_less)

lemma schedule_in_order:
  assumes "chunk_size_tokens \<noteq> 0"
  shows "chunks_in_order chunk_size_tokens (case block of None \<Rightarrow> 0 | Some b \<Rightarrow> b) (block \<noteq> None \<and> can_use) len cursor
           (prefill_ends fuel chunk_size_tokens block can_use cursor len)"
proof (induction fuel arbitrary: cursor)
  case (Suc fuel)
  show ?case
  proof (cases "cursor < len")
    case True
    then obtain span where span: "resolve_next_prefill_chunk_span chunk_size_tokens block can_use cursor len = Some span"
      using resolve_exists by blast
    show ?thesis using Suc.IH next_chunk [OF assms True span] span by simp
  qed (simp add: resolve_none)
qed simp

lemma schedule_ends:
  assumes "chunk_size_tokens \<noteq> 0" "cursor < len" "unat len - unat cursor \<le> fuel"
  shows "prefill_ends fuel chunk_size_tokens block can_use cursor len \<noteq> []
    \<and> last (prefill_ends fuel chunk_size_tokens block can_use cursor len) = len"
  using assms(2,3)
proof (induction fuel arbitrary: cursor)
  case 0
  then show ?case by (simp add: word_less_nat_alt)
next
  case (Suc fuel)
  obtain span where span: "resolve_next_prefill_chunk_span chunk_size_tokens block can_use cursor len = Some span"
    using resolve_exists [OF Suc.prems(1)] by blast
  let ?e = "ps_requested_prefill_chunk_end span"
  have e: "cursor < ?e" "?e \<le> len"
    using next_chunk [OF assms(1) Suc.prems(1) span] by (auto simp: chunk_in_order_def)
  show ?case
  proof (cases "?e = len")
    case True
    then have "prefill_ends fuel chunk_size_tokens block can_use ?e len = []"
      by (cases fuel) (simp_all add: resolve_none)
    then show ?thesis using span True by simp
  next
    case False
    then have "?e < len" using e(2) by (simp add: order_less_le)
    moreover have "unat len - unat ?e \<le> fuel" using e(1) Suc.prems(2) by (simp add: word_less_nat_alt)
    ultimately show ?thesis using Suc.IH span by simp
  qed
qed

lemma chunks_hit_tail:
  assumes "chunks_in_order size_tokens B True len start es" "es \<noteq> []" "last es = len"
    and "start < partial_tail_capture_end len B"
  shows "partial_tail_capture_end len B \<in> set es"
  using assms
proof (induction es arbitrary: start)
  case (Cons e es)
  let ?cap = "partial_tail_capture_end len B"
  have cap: "?cap \<le> len" by (simp add: partial_tail_capture_end_def word_le_nat_alt unat_saturating_sub)
  from Cons.prems have e: "e \<le> ?cap" by (auto simp: chunk_in_order_def not_less)
  show ?case
  proof (cases "e = ?cap")
    case False
    then have "e < ?cap" using e by simp
    then show ?thesis using Cons cap by (cases "es = []") auto
  qed simp
qed simp

text \<open>The boundary list of a chunk is exact: the positions it names are the multiples of the block length
  behind the start of the chunk, up to and including its end, in order, for every start, end and block length,
  the ones whose next boundary does not fit the word included.\<close>
lemma boundary_positions_exact:
  "map (\<lambda>d. unat start + unat d) (boundary_completed_prefill_chunk_tokens start chunk_end B)
     = filter (\<lambda>p. unat start < p \<and> p mod unat B = 0) [0..<Suc (unat chunk_end)]"
  by (rule boundary_positions)

text \<open>C30. Prefill ends: with a positive chunk size the spans go on from the cursor to the end of the prompt, and one
  span per pending token is enough. Each span makes progress within the chunk size; with a usable prompt cache it
  crosses at most one block boundary, and the end from which the partial tail is captured is the end of a span.\<close>
theorem prefill_reaches_end:
  assumes "chunk_size_tokens \<noteq> 0" "cursor < len" "unat len - unat cursor \<le> fuel"
  shows "last (prefill_ends fuel chunk_size_tokens block can_use cursor len) = len
    \<and> chunks_in_order chunk_size_tokens (case block of None \<Rightarrow> 0 | Some B \<Rightarrow> B) (block \<noteq> None \<and> can_use) len cursor
        (prefill_ends fuel chunk_size_tokens block can_use cursor len)
    \<and> (case block of None \<Rightarrow> True
        | Some B \<Rightarrow> can_use \<and> cursor < partial_tail_capture_end len B \<longrightarrow>
            partial_tail_capture_end len B \<in> set (prefill_ends fuel chunk_size_tokens block can_use cursor len))"
proof (intro conjI)
  note ends = schedule_ends [OF assms, of block can_use] and order = schedule_in_order [OF assms(1)]
  show "last (prefill_ends fuel chunk_size_tokens block can_use cursor len) = len" using ends by blast
  show "chunks_in_order chunk_size_tokens (case block of None \<Rightarrow> 0 | Some B \<Rightarrow> B) (block \<noteq> None \<and> can_use) len cursor
        (prefill_ends fuel chunk_size_tokens block can_use cursor len)" by (rule order)
  show "case block of None \<Rightarrow> True
    | Some B \<Rightarrow> can_use \<and> cursor < partial_tail_capture_end len B \<longrightarrow>
        partial_tail_capture_end len B \<in> set (prefill_ends fuel chunk_size_tokens block can_use cursor len)"
    using ends order [of block can_use len cursor fuel] chunks_hit_tail by (cases block) auto
qed

theorem prefill_reaches_end_witness:
  "prefill_ends 20 6 (Some 4) True 0 15 = [6, 8, 14, 15]
   \<and> last (prefill_ends 20 6 (Some 4) True 0 15) = 15
   \<and> partial_tail_capture_end 15 4 \<in> set (prefill_ends 20 6 (Some 4) True 0 15)"
proof -
  have "0 < partial_tail_capture_end 15 4" by code_simp
  then show ?thesis using prefill_reaches_end [of 6 0 15 20 "Some 4" True] by (simp; code_simp)
qed

end
