(* ===== verification/Cache_Capture.thy ===== *)
theory Cache_Capture
  imports Cache_Publication Cache_Boundary
begin

text \<open>
  The request side of the prompt cache: \<^verbatim>\<open>persistent_cache/capture_planning.rs\<close>,
  \<^verbatim>\<open>persistent_cache/restore_support.rs\<close> and, of \<^verbatim>\<open>qwen3_5_streaming/inference_execution\<close>,
  \<^verbatim>\<open>persistent_prompt_cache_capture.rs\<close>, \<^verbatim>\<open>persistent_prompt_cache_tail_capture.rs\<close>, \<^verbatim>\<open>decoder_state_reuse.rs\<close> and the
  publishing step of \<^verbatim>\<open>prefill_advance.rs\<close>. What the tensor runtime does is the record \<open>capture_host\<close>: the
  tensors an extraction yields, the memory it reports, and the host of each publication attempt.
\<close>

section \<open>Planning\<close>

definition PUBLICATION_COMFORT_HEADROOM_BYTES :: u64 where
  "PUBLICATION_COMFORT_HEADROOM_BYTES = 4 * 1024 * 1024 * 1024"

record CaptureBlockWindow =
  cw_block_start :: usize
  cw_block_end :: usize
  cw_block_index :: usize

datatype CaptureBoundaryRejection = PositionOverflowed | PositionInvalid | BlockStartUnderflowed

definition capture_block_window :: "usize \<Rightarrow> usize \<Rightarrow> usize \<Rightarrow> usize \<Rightarrow> CaptureBoundaryRejection + CaptureBlockWindow" where
  "capture_block_window successful_prefill_start completed_prefill_chunk_tokens block_token_count successful_prefill_end =
     (case checked_add successful_prefill_start completed_prefill_chunk_tokens of
        None \<Rightarrow> Inl PositionOverflowed
      | Some absolute_boundary \<Rightarrow>
          if absolute_boundary mod block_token_count \<noteq> 0 \<or> successful_prefill_end < absolute_boundary
          then Inl PositionInvalid
          else case checked_sub absolute_boundary block_token_count of
                 None \<Rightarrow> Inl BlockStartUnderflowed
               | Some block_start \<Rightarrow>
                   Inr \<lparr>cw_block_start = block_start, cw_block_end = absolute_boundary,
                        cw_block_index = block_start div block_token_count\<rparr>)"

datatype BlockCausalInputSelection = SelectedEmpty | FromPlan BlockCausalInput

datatype CaptureCausalInputRejection = PlanDoesNotCoverBlock

definition select_block_causal_input ::
    "BlockCausalInput list \<Rightarrow> usize \<Rightarrow> CaptureCausalInputRejection + BlockCausalInputSelection" where
  "select_block_causal_input block_causal_inputs block_index =
     (if block_causal_inputs = [] then Inr SelectedEmpty
      else if unat block_index < length block_causal_inputs then Inr (FromPlan (block_causal_inputs ! unat block_index))
      else Inl PlanDoesNotCoverBlock)"

text \<open>The sum is a plain one: it wraps around for an active memory close to the end of the word.\<close>

definition publication_workspace_decision :: "u64 option \<Rightarrow> u64 option \<Rightarrow> bool" where
  "publication_workspace_decision active_memory_bytes active_memory_ceiling_bytes =
     (case (active_memory_bytes, active_memory_ceiling_bytes) of
        (Some active, Some ceiling) \<Rightarrow> ceiling < active + PUBLICATION_COMFORT_HEADROOM_BYTES
      | _ \<Rightarrow> True)"

definition allocator_bytes_cleared :: "u64 option \<Rightarrow> u64 option \<Rightarrow> u64" where
  "allocator_bytes_cleared before_cleanup after_cleanup = saturating_sub (or_zero before_cleanup) (or_zero after_cleanup)"

section \<open>The request and the machine\<close>

datatype InferenceEngineError = InvalidRequest string | FatalEngineError string

definition required_prompt_state_persistence_failure :: "string \<Rightarrow> InferenceEngineError" where
  "required_prompt_state_persistence_failure failure_stage =
     InvalidRequest (''persistent prompt cache failed during '' @ failure_stage @ ''; the request was stopped'')"

definition CAPTURE_STAGE :: string where
  "CAPTURE_STAGE = ''required persistent prompt-state capture''"

record request_diagnostics =
  rd_published_block_count :: u64
  rd_allocator_bytes_cleared_for_publication :: u64
  rd_expert_bytes_reclaimed_for_publication :: u64

record EngineRequest =
  er_input_token_ids :: "u32 list"
  er_can_use_persistent_prompt_cache :: bool
  er_block_causal_inputs :: "BlockCausalInput list"
  er_last_restored_block_key :: "BlockKey option"
  er_prefill_cursor :: usize
  er_next_position_tokens :: u32
  er_diagnostics :: "request_diagnostics option"

text \<open>Counts of tensors stand for the tensors; a publication attempt is numbered, its retry with one.\<close>

record capture_host =
  ch_extract_kv_tensors :: "usize \<Rightarrow> usize \<Rightarrow> nat option"
  ch_extract_recurrent_tensors :: "nat option"
  ch_active_memory_bytes :: "u64 option"
  ch_memory_limit_bytes :: "u64 option"
  ch_allocator_cache_bytes_before :: "u64 option"
  ch_allocator_cache_bytes_after :: "u64 option"
  ch_workspace_release_fails :: "InferenceEngineError option"
  ch_reclamation_fails :: "usize \<Rightarrow> InferenceEngineError option"
  ch_expert_payload_bytes_before :: u64
  ch_expert_payload_bytes_after :: u64
  ch_store_host :: "BlockKey \<Rightarrow> nat \<Rightarrow> host"
  ch_staging_directory :: "BlockKey \<Rightarrow> nat \<Rightarrow> path"

definition with_diagnostics :: "(request_diagnostics \<Rightarrow> request_diagnostics) \<Rightarrow> EngineRequest \<Rightarrow> EngineRequest" where
  "with_diagnostics f request = request\<lparr>er_diagnostics := map_option f (er_diagnostics request)\<rparr>"

definition record_published_block :: "request_diagnostics \<Rightarrow> request_diagnostics" where
  "record_published_block d = d\<lparr>rd_published_block_count := saturating_add (rd_published_block_count d) 1\<rparr>"

section \<open>Publication from a request\<close>

datatype PromptBlockPublicationFailure = ReclamationFailure InferenceEngineError | PublicationFailure DiskStoreError

text \<open>One retry, and only for a failure of the active-memory limit.\<close>

definition publish_block_with_reclamation_retry ::
    "capture_host \<Rightarrow> BlockKey \<Rightarrow> BlockKey option \<Rightarrow> nat \<Rightarrow> nat \<Rightarrow> store \<Rightarrow> EngineRequest
     \<Rightarrow> store \<times> EngineRequest \<times> (PromptBlockPublicationFailure + PublicationOutcome)" where
  "publish_block_with_reclamation_retry machine block_key parent_block_key kv_tensors recurrent_tensors self request =
     (case publish_block (ch_store_host machine block_key 0) block_key parent_block_key kv_tensors recurrent_tensors
             (ch_staging_directory machine block_key 0) self of
        (self1, Inr outcome) \<Rightarrow> (self1, request, Inr outcome)
      | (self1, Inl e) \<Rightarrow>
          (case active_memory_deficit_bytes e of
             None \<Rightarrow> (self1, request, Inl (PublicationFailure e))
           | Some deficit \<Rightarrow>
               (case ch_reclamation_fails machine deficit of
                  Some reclamation_error \<Rightarrow> (self1, request, Inl (ReclamationFailure reclamation_error))
                | None \<Rightarrow>
                    (let request1 = with_diagnostics (\<lambda>d. d\<lparr>rd_expert_bytes_reclaimed_for_publication :=
                           saturating_add (rd_expert_bytes_reclaimed_for_publication d)
                             (saturating_sub (ch_expert_payload_bytes_before machine) (ch_expert_payload_bytes_after machine))\<rparr>)
                           request
                     in case publish_block (ch_store_host machine block_key 1) block_key parent_block_key kv_tensors
                               recurrent_tensors (ch_staging_directory machine block_key 1) self1 of
                          (self2, Inr outcome) \<Rightarrow> (self2, request1, Inr outcome)
                        | (self2, Inl retry_error) \<Rightarrow> (self2, request1, Inl (PublicationFailure retry_error))))))"

definition release_publication_workspace_if_needed ::
    "capture_host \<Rightarrow> EngineRequest \<Rightarrow> EngineRequest \<times> InferenceEngineError option" where
  "release_publication_workspace_if_needed machine request =
     (if \<not> publication_workspace_decision (ch_active_memory_bytes machine) (ch_memory_limit_bytes machine)
      then (request, None)
      else case ch_workspace_release_fails machine of
             Some e \<Rightarrow> (request, Some e)
           | None \<Rightarrow>
               (with_diagnostics (\<lambda>d. d\<lparr>rd_allocator_bytes_cleared_for_publication :=
                  saturating_add (rd_allocator_bytes_cleared_for_publication d)
                    (allocator_bytes_cleared (ch_allocator_cache_bytes_before machine)
                       (ch_allocator_cache_bytes_after machine))\<rparr>) request, None))"

definition apply_publication_outcome ::
    "EngineRequest \<Rightarrow> PromptBlockPublicationFailure + PublicationOutcome \<Rightarrow> BlockKey
     \<Rightarrow> EngineRequest \<times> InferenceEngineError option" where
  "apply_publication_outcome request save_outcome block_key =
     (case save_outcome of
        Inr publication_outcome \<Rightarrow>
          ((if publication_outcome = Published then with_diagnostics record_published_block request else request)
             \<lparr>er_last_restored_block_key := Some block_key\<rparr>, None)
      | Inl (ReclamationFailure e) \<Rightarrow> (request, Some e)
      | Inl (PublicationFailure e) \<Rightarrow> (request, Some (required_prompt_state_persistence_failure CAPTURE_STAGE)))"

definition publication_advances_parent_chain :: "PublicationOutcome \<Rightarrow> bool" where
  "publication_advances_parent_chain publication_outcome =
     (case publication_outcome of Published \<Rightarrow> True | AlreadyPublished \<Rightarrow> True)"

section \<open>Capture of complete blocks\<close>

definition cache_block_token_count :: "store \<Rightarrow> usize" where
  "cache_block_token_count self = of_nat (mc_block_token_count (st_contract self))"

definition tokens_between :: "u32 list \<Rightarrow> usize \<Rightarrow> usize \<Rightarrow> u32 list" where
  "tokens_between tokens block_start block_end = take (unat block_end - unat block_start) (drop (unat block_start) tokens)"

text \<open>A checkpoint: the tokens of the chunk that were completed at it, and its recurrent tensors.\<close>

type_synonym checkpoint = "usize \<times> nat"

definition capture_block_key ::
    "(byte list \<Rightarrow> digest) \<Rightarrow> store \<Rightarrow> EngineRequest \<Rightarrow> usize \<Rightarrow> usize \<Rightarrow> checkpoint
     \<Rightarrow> InferenceEngineError + (CaptureBlockWindow \<times> BlockKey)" where
  "capture_block_key sha self request successful_prefill_start successful_prefill_end checkpoint =
     (let failure = required_prompt_state_persistence_failure CAPTURE_STAGE
      in case capture_block_window successful_prefill_start (fst checkpoint) (cache_block_token_count self)
                successful_prefill_end of
           Inl _ \<Rightarrow> Inl failure
         | Inr window \<Rightarrow>
             (case select_block_causal_input (er_block_causal_inputs request) (cw_block_index window) of
                Inl _ \<Rightarrow> Inl failure
              | Inr selection \<Rightarrow>
                  (case block_key_for_captured_block sha (er_last_restored_block_key request) (st_contract self)
                          (tokens_between (er_input_token_ids request) (cw_block_start window) (cw_block_end window))
                          (case selection of SelectedEmpty \<Rightarrow> causal_input_empty | FromPlan causal_input \<Rightarrow> causal_input) of
                     Inl _ \<Rightarrow> Inl failure
                   | Inr block_key \<Rightarrow> Inr (window, block_key))))"

definition capture_block ::
    "(byte list \<Rightarrow> digest) \<Rightarrow> capture_host \<Rightarrow> usize \<Rightarrow> usize \<Rightarrow> checkpoint \<Rightarrow> store \<Rightarrow> EngineRequest
     \<Rightarrow> store \<times> EngineRequest \<times> InferenceEngineError option" where
  "capture_block sha machine successful_prefill_start successful_prefill_end checkpoint self request =
     (case capture_block_key sha self request successful_prefill_start successful_prefill_end checkpoint of
        Inl e \<Rightarrow> (self, request, Some e)
      | Inr (window, block_key) \<Rightarrow>
          (case ch_extract_kv_tensors machine (cw_block_start window) (cw_block_end window) of
             None \<Rightarrow> (self, request, Some (required_prompt_state_persistence_failure CAPTURE_STAGE))
           | Some kv_tensors \<Rightarrow>
               (case release_publication_workspace_if_needed machine request of
                  (request1, Some e) \<Rightarrow> (self, request1, Some e)
                | (request1, None) \<Rightarrow>
                    (case publish_block_with_reclamation_retry machine block_key (er_last_restored_block_key request1)
                            kv_tensors (snd checkpoint) self request1 of
                       (self1, request2, save_outcome) \<Rightarrow>
                         (case apply_publication_outcome request2 save_outcome block_key of
                            (request3, e) \<Rightarrow> (self1, request3, e))))))"

fun capture_persistent_prompt_cache_blocks ::
    "(byte list \<Rightarrow> digest) \<Rightarrow> capture_host \<Rightarrow> usize \<Rightarrow> usize \<Rightarrow> checkpoint list \<Rightarrow> store \<Rightarrow> EngineRequest
     \<Rightarrow> store \<times> EngineRequest \<times> InferenceEngineError option" where
  "capture_persistent_prompt_cache_blocks sha machine prefill_start prefill_end [] self request = (self, request, None)"
| "capture_persistent_prompt_cache_blocks sha machine prefill_start prefill_end (checkpoint # checkpoints) self request =
     (case capture_block sha machine prefill_start prefill_end checkpoint self request of
        (self1, request1, Some e) \<Rightarrow> (self1, request1, Some e)
      | (self1, request1, None) \<Rightarrow>
          capture_persistent_prompt_cache_blocks sha machine prefill_start prefill_end checkpoints self1 request1)"

section \<open>Capture of the partial tail\<close>

record PromptTailCaptureSpan =
  ts_tail_capture_end :: usize
  ts_tail_block_start :: usize
  ts_tail_block_index :: usize

definition prompt_tail_capture_span :: "bool \<Rightarrow> usize \<Rightarrow> usize \<Rightarrow> usize \<Rightarrow> PromptTailCaptureSpan option" where
  "prompt_tail_capture_span can_use prompt_token_count block_token_count prefill_end =
     (let tail_capture_end = partial_tail_capture_end prompt_token_count block_token_count
      in if \<not> can_use \<or> prefill_end \<noteq> tail_capture_end \<or> tail_capture_end mod block_token_count = 0 then None
         else let tail_block_index = tail_capture_end div block_token_count
              in Some \<lparr>ts_tail_capture_end = tail_capture_end, ts_tail_block_start = tail_block_index * block_token_count,
                       ts_tail_block_index = tail_block_index\<rparr>)"

datatype TailBlockCausalInputResolution = Planned BlockCausalInput | EmptyFallback | MissingFromPlan

definition resolve_tail_block_causal_input :: "BlockCausalInput list \<Rightarrow> usize \<Rightarrow> TailBlockCausalInputResolution" where
  "resolve_tail_block_causal_input planned_block_causal_inputs tail_block_index =
     (if planned_block_causal_inputs = [] then EmptyFallback
      else if unat tail_block_index < length planned_block_causal_inputs
      then Planned (planned_block_causal_inputs ! unat tail_block_index)
      else MissingFromPlan)"

definition build_tail_block_key ::
    "(byte list \<Rightarrow> digest) \<Rightarrow> model_contract \<Rightarrow> u32 list \<Rightarrow> BlockCausalInput \<Rightarrow> BlockKey option \<Rightarrow> BlockKeyError + BlockKey" where
  "build_tail_block_key sha contract tokens_of_tail tail_block_causal_input parent_block_key =
     (case parent_block_key of
        None \<Rightarrow> for_root_block_with_causal_input sha contract tokens_of_tail tail_block_causal_input
      | Some parent \<Rightarrow> for_child_block_with_causal_input sha parent tokens_of_tail tail_block_causal_input)"

definition publish_captured_tail_block ::
    "capture_host \<Rightarrow> BlockKey \<Rightarrow> BlockKey option \<Rightarrow> nat \<Rightarrow> nat \<Rightarrow> store \<Rightarrow> EngineRequest \<Rightarrow> store \<times> EngineRequest" where
  "publish_captured_tail_block machine tail_block_key parent_block_key kv_tensors recurrent_tensors self request =
     (case publish_block_with_reclamation_retry machine tail_block_key parent_block_key kv_tensors recurrent_tensors
             self request of
        (self1, request1, Inr publication_outcome) \<Rightarrow>
          (self1, if publication_outcome = Published then with_diagnostics record_published_block request1 else request1)
      | (self1, request1, Inl _) \<Rightarrow> (self1, request1))"

definition capture_persistent_prompt_cache_partial_tail_block ::
    "(byte list \<Rightarrow> digest) \<Rightarrow> capture_host \<Rightarrow> usize \<Rightarrow> store \<Rightarrow> EngineRequest \<Rightarrow> store \<times> EngineRequest" where
  "capture_persistent_prompt_cache_partial_tail_block sha machine prefill_end self request =
     (case prompt_tail_capture_span (er_can_use_persistent_prompt_cache request)
             (of_nat (length (er_input_token_ids request))) (cache_block_token_count self) prefill_end of
        None \<Rightarrow> (self, request)
      | Some span \<Rightarrow>
          (case (case resolve_tail_block_causal_input (er_block_causal_inputs request) (ts_tail_block_index span) of
                   Planned causal_input \<Rightarrow> Some causal_input
                 | EmptyFallback \<Rightarrow> Some causal_input_empty
                 | MissingFromPlan \<Rightarrow> None) of
             None \<Rightarrow> (self, request)
           | Some causal_input \<Rightarrow>
               (case build_tail_block_key sha (st_contract self)
                       (tokens_between (er_input_token_ids request) (ts_tail_block_start span) (ts_tail_capture_end span))
                       causal_input (er_last_restored_block_key request) of
                  Inl _ \<Rightarrow> (self, request)
                | Inr tail_block_key \<Rightarrow>
                    (case ch_extract_kv_tensors machine (ts_tail_block_start span) (ts_tail_capture_end span) of
                       None \<Rightarrow> (self, request)
                     | Some kv_tensors \<Rightarrow>
                         (case ch_extract_recurrent_tensors machine of
                            None \<Rightarrow> (self, request)
                          | Some recurrent_tensors \<Rightarrow>
                              publish_captured_tail_block machine tail_block_key (er_last_restored_block_key request)
                                kv_tensors recurrent_tensors self request)))))"

section \<open>The step that publishes and advances\<close>

definition advance_position :: "EngineRequest \<Rightarrow> usize \<Rightarrow> EngineRequest \<times> InferenceEngineError option" where
  "advance_position request forwarded_token_count =
     (case u32_try_from_len (unat forwarded_token_count) of
        None \<Rightarrow> (request, Some (FatalEngineError ''forwarded token count exceeds the u32 range''))
      | Some forwarded \<Rightarrow>
          (case checked_add (er_next_position_tokens request) forwarded of
             None \<Rightarrow> (request, Some (FatalEngineError ''model position counter overflowed''))
           | Some position \<Rightarrow> (request\<lparr>er_next_position_tokens := position\<rparr>, None)))"

text \<open>Publication comes before both moves: a failure leaves the position and the cursor where they were.\<close>

definition publish_and_advance_durable_prefill_state ::
    "(byte list \<Rightarrow> digest) \<Rightarrow> capture_host \<Rightarrow> usize \<Rightarrow> usize \<Rightarrow> checkpoint list \<Rightarrow> store option \<Rightarrow> EngineRequest
     \<Rightarrow> store option \<times> EngineRequest \<times> InferenceEngineError option" where
  "publish_and_advance_durable_prefill_state sha machine prefill_start prefill_end checkpoints cache request =
     (let captured =
            (case cache of
               None \<Rightarrow> (None, request, None)
             | Some self \<Rightarrow>
                 (case (if er_can_use_persistent_prompt_cache request \<and> checkpoints \<noteq> []
                        then capture_persistent_prompt_cache_blocks sha machine prefill_start prefill_end checkpoints self request
                        else (self, request, None)) of
                    (self1, request1, Some e) \<Rightarrow> (Some self1, request1, Some e)
                  | (self1, request1, None) \<Rightarrow>
                      (case capture_persistent_prompt_cache_partial_tail_block sha machine prefill_end self1 request1 of
                         (self2, request2) \<Rightarrow> (Some self2, request2, None))))
      in case captured of
           (cache1, request1, Some e) \<Rightarrow> (cache1, request1, Some e)
         | (cache1, request1, None) \<Rightarrow>
             (case advance_position request1 (prefill_end - prefill_start) of
                (request2, Some e) \<Rightarrow> (cache1, request2, Some e)
              | (request2, None) \<Rightarrow> (cache1, request2\<lparr>er_prefill_cursor := prefill_end\<rparr>, None)))"

definition MAXIMUM_PREFILL_MEMORY_RECOVERY_ATTEMPTS_PER_REQUEST :: "8 word" where
  "MAXIMUM_PREFILL_MEMORY_RECOVERY_ATTEMPTS_PER_REQUEST = 1"

definition should_attempt_prefill_memory_recovery :: "8 word \<Rightarrow> bool \<Rightarrow> bool" where
  "should_attempt_prefill_memory_recovery completed_recovery_attempt_count has_visual_inputs \<longleftrightarrow>
     \<not> has_visual_inputs \<and> completed_recovery_attempt_count < MAXIMUM_PREFILL_MEMORY_RECOVERY_ATTEMPTS_PER_REQUEST"

section \<open>Restore\<close>

record RestoredPrefixBlockEnumeration =
  re_block_keys :: "BlockKey list"
  re_total_sequence_block_file_size_bytes :: u64
  re_recurrent_snapshot_file_size_bytes :: u64

definition restored_block_key ::
    "(byte list \<Rightarrow> digest) \<Rightarrow> u32 list \<Rightarrow> nat \<Rightarrow> nat \<Rightarrow> nat \<Rightarrow> BlockCausalInput list \<Rightarrow> BlockKey option \<Rightarrow> model_contract
     \<Rightarrow> InferenceEngineError + BlockKey" where
  "restored_block_key sha prompt_token_ids block_start block_end block_index block_causal_inputs last_key contract =
     (let block_tokens = take (block_end - block_start) (drop block_start prompt_token_ids);
          construction_failed = FatalEngineError ''persistent prompt-cache block identity construction failed during restore''
      in if block_causal_inputs \<noteq> [] \<and> length block_causal_inputs \<le> block_index
         then Inl (FatalEngineError ''persistent prompt-cache causal input plan does not cover restored block'')
         else let causal_input = (if block_causal_inputs = [] then causal_input_empty else block_causal_inputs ! block_index)
              in if block_index = 0
                 then (case for_root_block_with_causal_input sha contract block_tokens causal_input of
                         Inl _ \<Rightarrow> Inl construction_failed | Inr key \<Rightarrow> Inr key)
                 else (case last_key of
                         None \<Rightarrow> Inl (FatalEngineError ''persistent prompt-cache block identity chain was lost during restore'')
                       | Some parent \<Rightarrow>
                           (case for_child_block_with_causal_input sha parent block_tokens causal_input of
                              Inl _ \<Rightarrow> Inl construction_failed | Inr key \<Rightarrow> Inr key)))"

definition file_size_bytes_of :: "store \<Rightarrow> FileKind \<Rightarrow> digest \<Rightarrow> u64" where
  "file_size_bytes_of self kind block_hash =
     (case index_file (st_index self) kind block_hash of None \<Rightarrow> 0 | Some tracked \<Rightarrow> tf_file_size_bytes tracked)"

text \<open>The loop over the complete blocks; the first argument counts the blocks still to derive.\<close>

fun enumerate_complete_blocks ::
    "(byte list \<Rightarrow> digest) \<Rightarrow> store \<Rightarrow> u32 list \<Rightarrow> BlockCausalInput list \<Rightarrow> nat \<Rightarrow> nat \<Rightarrow> BlockKey option \<Rightarrow> u64
     \<Rightarrow> InferenceEngineError + (BlockKey list \<times> u64)" where
  "enumerate_complete_blocks sha self prompt_token_ids block_causal_inputs 0 block_index last_key sizes = Inr ([], sizes)"
| "enumerate_complete_blocks sha self prompt_token_ids block_causal_inputs (Suc remaining) block_index last_key sizes =
     (let block_start = block_index * mc_block_token_count (st_contract self);
          block_end = block_start + mc_block_token_count (st_contract self)
      in result_bind (restored_block_key sha prompt_token_ids block_start block_end block_index block_causal_inputs
             last_key (st_contract self))
           (\<lambda>key. result_bind
              (enumerate_complete_blocks sha self prompt_token_ids block_causal_inputs remaining (Suc block_index) (Some key)
                 (saturating_add sizes (file_size_bytes_of self SequenceStateBlock (bk_block_hash key))))
              (\<lambda>(keys, total_sizes). Inr (key # keys, total_sizes))))"

definition enumerate_restored_prefix_blocks ::
    "(byte list \<Rightarrow> digest) \<Rightarrow> store \<Rightarrow> u32 list \<Rightarrow> BlockCausalInput list \<Rightarrow> nat \<Rightarrow> BlockKey option
     \<Rightarrow> InferenceEngineError + RestoredPrefixBlockEnumeration" where
  "enumerate_restored_prefix_blocks sha self prompt_token_ids block_causal_inputs restored_token_count tail_key =
     result_bind (enumerate_complete_blocks sha self prompt_token_ids block_causal_inputs
         (restored_token_count div mc_block_token_count (st_contract self)) 0 None 0)
       (\<lambda>(keys, sizes).
          Inr \<lparr>re_block_keys = keys @ (case tail_key of None \<Rightarrow> [] | Some key \<Rightarrow> [key]),
               re_total_sequence_block_file_size_bytes =
                 (case tail_key of None \<Rightarrow> sizes
                  | Some key \<Rightarrow> saturating_add sizes (file_size_bytes_of self SequenceStateBlock (bk_block_hash key))),
               re_recurrent_snapshot_file_size_bytes =
                 (case (case tail_key of None \<Rightarrow> tip_key keys | Some key \<Rightarrow> Some key) of
                    None \<Rightarrow> 0
                  | Some key \<Rightarrow> file_size_bytes_of self BoundaryStateSnapshot (bk_block_hash key))\<rparr>)"

text \<open>The loads of the sequence files, and the key of the last complete block among them.\<close>

fun load_restored_kv_blocks ::
    "(BlockKey \<Rightarrow> bool) \<Rightarrow> BlockKey list \<Rightarrow> nat \<Rightarrow> nat \<Rightarrow> BlockKey option \<Rightarrow> InferenceEngineError + BlockKey option" where
  "load_restored_kv_blocks loads [] block_index complete_block_count last_key = Inr last_key"
| "load_restored_kv_blocks loads (key # keys) block_index complete_block_count last_key =
     (if \<not> loads key then Inl (FatalEngineError ''failed to load persistent prompt-cache KV block'')
      else load_restored_kv_blocks loads keys (Suc block_index) complete_block_count
             (if block_index < complete_block_count then Some key else last_key))"

record RestoreOutcome =
  ro_persistent_prompt_cache_token_count :: u32
  ro_restored_token_count :: nat
  ro_last_restored_block_key :: "BlockKey option"

text \<open>
  \<^verbatim>\<open>restore_persistent_prompt_cache_prefix\<close>: lookup, enumeration, loads and the outcome of a hit or a miss. Memory
  admission and the tensors are behind \<open>loads\<close>, and so is the snapshot of the boundary state: that it cannot be loaded
  is a failure of the load of its block.
\<close>

definition restore_persistent_prompt_cache_prefix ::
    "(byte list \<Rightarrow> digest) \<Rightarrow> (BlockKey \<Rightarrow> bool) \<Rightarrow> store \<Rightarrow> u32 list \<Rightarrow> BlockCausalInput list \<Rightarrow> nat
     \<Rightarrow> InferenceEngineError + RestoreOutcome" where
  "restore_persistent_prompt_cache_prefix sha loads self prompt_token_ids block_causal_inputs total_context_tokens =
     (let lookup_result = for_prompt_with_partial_tail_block_recovery sha (st_contract self) prompt_token_ids
            block_causal_inputs (has_kv_block self) (has_recurrent_snapshot self);
          restored_token_count = lr_restored_token_count lookup_result
      in if restored_token_count = 0
         then Inr \<lparr>ro_persistent_prompt_cache_token_count = 0, ro_restored_token_count = 0, ro_last_restored_block_key = None\<rparr>
         else result_bind (enumerate_restored_prefix_blocks sha self prompt_token_ids block_causal_inputs
                restored_token_count (lr_restored_partial_tail_block_key lookup_result))
              (\<lambda>enumeration. result_bind (load_restored_kv_blocks loads (re_block_keys enumeration) 0
                   (restored_token_count div mc_block_token_count (st_contract self)) None)
                 (\<lambda>last_key.
                    if lr_restored_partial_tail_block_key lookup_result = None \<and> last_key = None
                    then Inl (FatalEngineError ''persistent prompt-cache restore lost snapshot key'')
                    else if total_context_tokens < restored_token_count
                    then Inl (FatalEngineError ''persistent prompt-cache restore exceeded the generation context'')
                    else result_bind (ok_or (u32_try_from_len restored_token_count)
                           (FatalEngineError ''persistent prompt-cache token count exceeds the u32 range''))
                         (\<lambda>token_count. Inr \<lparr>ro_persistent_prompt_cache_token_count = token_count,
                              ro_restored_token_count = restored_token_count, ro_last_restored_block_key = last_key\<rparr>))))"

end
