(* ===== verification/Cache_Durability.thy ===== *)
theory Cache_Durability
  imports Cache_Publication
begin

text \<open>
  The contract of \<^verbatim>\<open>publish_block\<close> as theorems: durable chains grow, boundaries stay while the ceiling has room,
  a retry starts over from an unchanged store. The last section runs publication and lookup together and shows
  three prefixes that stop being restorable.
\<close>

section \<open>A small store\<close>

text \<open>Ten bytes a token, twenty a boundary, one a manifest; no step fails.\<close>

definition small_host :: host where
  "small_host =
     \<lparr>ho_saved_file_bytes = (\<lambda>kind key. Inr (if kind = SequenceStateBlock then 10 * ucast (bk_token_count key) else 20)),
      ho_expected_file_bytes = (\<lambda>kind tokens. Inr (if kind = SequenceStateBlock then 10 * ucast tokens else 20)),
      ho_manifest_file_bytes = (\<lambda>_. Inr 1), ho_maximum_block_manifest_file_bytes = 10, ho_step_fails = (\<lambda>_. None),
      ho_removal_fails = (\<lambda>_. False), ho_validate_existing_block = (\<lambda>_ _ _. None),
      ho_storage_contract_fingerprint = ''f'', ho_now = 1\<rparr>"

definition small_contract :: model_contract where
  "small_contract = \<lparr>mc_block_token_count = 3, mc_common_prefix_checkpoint_stride_blocks = 4,
     mc_has_sequence_state = True, mc_has_boundary_state = True, mc_storage_contract_fingerprint = [7]\<rparr>"

definition empty_store :: "u64 \<Rightarrow> store" where
  "empty_store maximum =
     \<lparr>st_contract = small_contract, st_blocks_directory = [''blocks''], st_root_directory = [],
      st_maximum_size_bytes = maximum, st_total_size_bytes = 0, st_visual_embedding_total_size_bytes = 0,
      st_index = \<lparr>ix_blocks = [], ix_visual_embeddings = []\<rparr>,
      st_disk = \<lparr>dk_standalone_files = [], dk_stale_directories = [], dk_block_directories = []\<rparr>,
      st_startup_cleanup_evidence = None\<rparr>"

definition small_key :: "byte \<Rightarrow> u32 \<Rightarrow> u32 \<Rightarrow> BlockKey" where
  "small_key name block_index tokens =
     \<lparr>bk_block_hash = [name], bk_block_index = block_index, bk_token_count = tokens, bk_block_token_count = 3,
      bk_storage_contract_fingerprint = [7]\<rparr>"

definition small_publish :: "BlockKey \<Rightarrow> BlockKey option \<Rightarrow> store \<Rightarrow> store \<times> (DiskStoreError + PublicationOutcome)" where
  "small_publish key parent self = publish_block small_host key parent 1 1 [''staging''] self"

definition one_block :: store where
  "one_block = fst (small_publish (small_key 1 0 3) None (empty_store 120))"

definition two_blocks :: store where
  "two_blocks = fst (small_publish (small_key 2 1 3) (Some (small_key 1 0 3)) one_block)"

lemma empty_store_wf: "store_wf small_host (empty_store maximum)"
  by (simp add: store_wf_def empty_store_def disk_wf_def entry_paths_def)

lemma small_runs:
  "publish_block small_host (small_key 1 0 3) (tip_key []) 1 1 [''staging''] (empty_store 120) = (one_block, Inr Published)"
  "publish_block small_host (small_key 2 1 3) (tip_key [small_key 1 0 3]) 1 1 [''staging''] one_block = (two_blocks, Inr Published)"
proof -
  have first: "snd (small_publish (small_key 1 0 3) None (empty_store 120)) = Inr Published" by code_simp
  then show "publish_block small_host (small_key 1 0 3) (tip_key []) 1 1 [''staging''] (empty_store 120) = (one_block, Inr Published)"
    by (simp add: one_block_def small_publish_def tip_key_def prod_eq_iff)
  have "snd (small_publish (small_key 2 1 3) (Some (small_key 1 0 3)) one_block) = Inr Published" by code_simp
  then show "publish_block small_host (small_key 2 1 3) (tip_key [small_key 1 0 3]) 1 1 [''staging''] one_block = (two_blocks, Inr Published)"
    by (simp add: two_blocks_def small_publish_def tip_key_def prod_eq_iff)
qed

lemma small_fresh: "[''staging''] \<notin> set (entry_paths (st_disk (empty_store 120)))"
  "[''staging''] \<notin> set (entry_paths (st_disk one_block))" "[''staging''] \<notin> set (entry_paths (st_disk two_blocks))"
  by code_simp+

lemma one_block_wf: "store_wf small_host one_block" "chain_tracked one_block [small_key 1 0 3]"
  using publication_extends [OF empty_store_wf small_fresh(1) chain_tracked_Nil small_runs(1)] by simp_all

section \<open>Publication\<close>

text \<open>C29. A reported publication is durable and extends the chain: the store still agrees with its disk, every block
  of the parent chain is still tracked with its parent, its index and its sequence state, the new block is the tip,
  and its files are there. This holds for the first publication, for one that only puts a boundary back, and for
  one that changed nothing, whatever the enforcement of the ceiling and the supersession removed.\<close>
theorem publication_extends_chain:
  assumes "store_wf host self" "staging \<notin> set (entry_paths (st_disk self))" "chain_tracked self ks"
    and "publish_block host key (tip_key ks) sequence_tensors boundary_tensors staging self = (self', Inr outcome)"
  shows "store_wf host self' \<and> chain_tracked self' (ks @ [key])
    \<and> (mc_has_sequence_state (st_contract self) \<longrightarrow> has_kv_block self' (bk_block_hash key))
    \<and> (mc_has_boundary_state (st_contract self) \<longrightarrow> has_recurrent_snapshot self' (bk_block_hash key))"
proof -
  note result = publication_extends [OF assms]
  obtain c where "index_block (st_index self') (bk_block_hash ((ks @ [key]) ! length ks)) = Some c"
    "mc_has_sequence_state (st_contract self') \<Longrightarrow> tb_sequence_state_file c \<noteq> None"
    by (rule chain_trackedE [OF result(3), of "length ks"], simp) (rule that; assumption)
  then show ?thesis
    using result(1-4) by (auto simp: has_kv_block_tracked [OF result(2)] same_frame_def)
qed

theorem publication_extends_chain_witness:
  "chain_tracked two_blocks [small_key 1 0 3, small_key 2 1 3] \<and> has_recurrent_snapshot two_blocks [2]"
proof -
  have "mc_has_boundary_state (st_contract one_block)" by code_simp
  then show ?thesis
    using publication_extends_chain [OF one_block_wf(1) small_fresh(2) one_block_wf(2) small_runs(2)]
    by (simp add: small_key_def)
qed

text \<open>A publication takes no restart point from the chain it extends, with one exception: the boundary of the
  direct parent, and only when the new block does not fit below the ceiling beside everything that is on the disk.\<close>
lemma boundaries_kept_without_pressure:
  assumes "store_wf host self" "staging \<notin> set (entry_paths (st_disk self))" "chain_tracked self ks"
    and "publish_block host key (tip_key ks) sequence_tensors boundary_tensors staging self = (self', Inr outcome)"
    and "i < length ks" "has_recurrent_snapshot self (bk_block_hash (ks ! i))"
  shows "has_recurrent_snapshot self' (bk_block_hash (ks ! i)) \<or> Suc i = length ks \<and> under_pressure host self key staging"
  using publication_extends(5) [OF assms(1-4)] assms(5,6) by blast

text \<open>A retry starts over: when a publication fails because memory ran out, the store is the one it started from,
  so the second attempt of the capture repeats the first. The hypothesis io_steps says that file-system steps and
  the size table of the contract do not fail with that error.\<close>
lemma retry_finds_store_unchanged:
  assumes "store_wf host self" "io_steps host"
    and "publish_block host key parent sequence_tensors boundary_tensors staging self = (self', Inl e)"
    and "active_memory_deficit_bytes e \<noteq> None"
  shows "self' = self"
  using retry_starts_over [OF assms(1-3)] assms(4) by (simp add: retryable_def)

definition full_memory_host :: host where
  "full_memory_host = small_host\<lparr>ho_saved_file_bytes := (\<lambda>_ _. Inl (SaveSafetensorsActiveMemoryLimitExceeded 90 20 100))\<rparr>"

section \<open>Prefixes that are lost\<close>

text \<open>Within a scenario no two blocks end in the same token, so the last byte tells them apart.\<close>

definition small_digest :: "byte list \<Rightarrow> digest" where
  "small_digest bytes = [last bytes]"

text \<open>The key of the block behind a chain of blocks, and the publication of one block after another.\<close>

definition key_behind :: "model_contract \<Rightarrow> BlockKey option \<Rightarrow> u32 list \<Rightarrow> BlockKey" where
  "key_behind contract parent block_tokens =
     (case block_key_for_captured_block small_digest parent contract block_tokens causal_input_empty of
        Inr key \<Rightarrow> key | Inl _ \<Rightarrow> small_key 0 0 0)"

definition publish_tokens :: "BlockKey option \<Rightarrow> u32 list \<Rightarrow> store \<Rightarrow> store" where
  "publish_tokens parent block_tokens self = fst (small_publish (key_behind (st_contract self) parent block_tokens) parent self)"

definition restored_tokens :: "store \<Rightarrow> u32 list \<Rightarrow> nat" where
  "restored_tokens self prompt_tokens =
     lr_restored_token_count (for_prompt_with_partial_tail_block_recovery small_digest (st_contract self) prompt_tokens []
       (has_kv_block self) (has_recurrent_snapshot self))"

definition root_key :: BlockKey where
  "root_key = key_behind small_contract None [1, 2, 3]"

definition second_key :: BlockKey where
  "second_key = key_behind small_contract (Some root_key) [4, 5, 6]"

definition conversation :: "u64 \<Rightarrow> store" where
  "conversation maximum = publish_tokens (Some root_key) [4, 5, 6] (publish_tokens None [1, 2, 3] (empty_store maximum))"

text \<open>Keeping the tail of a prompt can cost more than it saves: close to the ceiling, the publication of the tail
  removes the boundary of its parent, and the probe for tails wants that very boundary. With room for 120 bytes
  the prompt of eight tokens had six of them restored; after its own tail was published, three.
\<close>

lemma tail_publication_loses_prefix:
  "(let before = conversation 120; after = publish_tokens (Some second_key) [7] before
    in (restored_tokens before [1, 2, 3, 4, 5, 6, 7, 8], restored_tokens after [1, 2, 3, 4, 5, 6, 7, 8])) = (6, 3)"
  by code_simp

text \<open>With room, the same publication adds the tail to what is restored.\<close>

lemma tail_publication_with_room:
  "restored_tokens (publish_tokens (Some second_key) [7] (conversation 500)) [1, 2, 3, 4, 5, 6, 7, 8] = 7"
  by code_simp

text \<open>A longer tail displaces the shorter tails of other conversations as well: supersession compares the parent and
  the size of the sequence file, not the tokens. The tail [4] of one conversation is removed when another one that
  shares the first block publishes [5, 6].
\<close>

lemma longer_tail_displaces_other_conversation:
  "(let one = publish_tokens (Some root_key) [4] (publish_tokens None [1, 2, 3] (empty_store 500));
        other = publish_tokens (Some root_key) [5, 6] one
    in (restored_tokens one [1, 2, 3, 4, 9], restored_tokens other [1, 2, 3, 4, 9])) = (4, 3)"
  by code_simp

text \<open>A stored tail is not probed once a further complete block follows in the prompt: the tail [7] under the matched
  tip is there and is a prefix of the rest, but with three more tokens than a tail can have it is passed over.
\<close>

lemma tail_passed_over_by_longer_prompt:
  "(let self = publish_tokens (Some second_key) [7] (conversation 500)
    in (restored_tokens self [1, 2, 3, 4, 5, 6, 7, 8], restored_tokens self [1, 2, 3, 4, 5, 6, 7, 8, 9])) = (7, 6)"
  by code_simp

end
