(* ===== verification/Cache_Capture_Proofs.thy ===== *)
theory Cache_Capture_Proofs
  imports Cache_Capture Cache_Durability
begin

text \<open>
  What a request captures, a later request restores. The lemmas follow one block through
  \<^verbatim>\<open>persistent_prompt_cache_capture.rs\<close> into the store, the spans of a prefill one after another, and the
  restore of \<^verbatim>\<open>decoder_state_reuse.rs\<close> back over the keys that the lookup matched.
\<close>

section \<open>The inputs of a request\<close>

definition request_inputs ::
    "model_contract \<Rightarrow> u32 list \<Rightarrow> BlockCausalInput list \<Rightarrow> (digest \<Rightarrow> bool) \<Rightarrow> (digest \<Rightarrow> bool) \<Rightarrow> PrefixLookupInputs" where
  "request_inputs contract prompt_tokens plan kv_block_exists recurrent_snapshot_exists =
     \<lparr>li_model_contract = contract, li_prompt_tokens = prompt_tokens,
      li_block_causal_inputs = (if plan = [] then None else Some plan),
      li_allow_exact_block_boundary_restore = False, li_probe_partial_tail_blocks = True,
      li_kv_block_exists = kv_block_exists, li_recurrent_snapshot_exists = recurrent_snapshot_exists\<rparr>"

text \<open>The chain of the first blocks of a prompt, and their keys.\<close>

definition first_blocks :: "model_contract \<Rightarrow> u32 list \<Rightarrow> BlockCausalInput list \<Rightarrow> nat \<Rightarrow> chain" where
  "first_blocks contract prompt_tokens plan n =
     prompt_chain (request_inputs contract prompt_tokens plan (\<lambda>_. False) (\<lambda>_. False)) n"

definition first_keys ::
    "(byte list \<Rightarrow> digest) \<Rightarrow> model_contract \<Rightarrow> u32 list \<Rightarrow> BlockCausalInput list \<Rightarrow> nat \<Rightarrow> BlockKey list" where
  "first_keys sha contract prompt_tokens plan n = keys_of_chain sha contract None (first_blocks contract prompt_tokens plan n)"

lemma request_inputs_chain:
  "prompt_chain (request_inputs contract tokens plan kv snap) n = first_blocks contract tokens plan n"
  by (simp add: first_blocks_def prompt_chain_def request_inputs_def)

lemma first_blocks_nth:
  "first_blocks contract tokens plan n =
     map (\<lambda>i. (take (mc_block_token_count contract) (drop (i * mc_block_token_count contract) tokens),
               the (causal_input_of_slot (if plan = [] then None else Some plan) i))) [0..<n]"
  by (simp add: first_blocks_def prompt_chain_def request_inputs_def Let_def)

lemma first_blocks_Suc:
  "first_blocks contract tokens plan (Suc n) = first_blocks contract tokens plan n
     @ [(take (mc_block_token_count contract) (drop (n * mc_block_token_count contract) tokens),
         the (causal_input_of_slot (if plan = [] then None else Some plan) n))]"
  by (simp add: first_blocks_nth)

lemma first_blocks_prefix:
  assumes "take (n * mc_block_token_count contract) tokens = take (n * mc_block_token_count contract) tokens'"
  shows "first_blocks contract tokens' plan n = first_blocks contract tokens plan n"
proof -
  let ?B = "mc_block_token_count contract"
  have "take ?B (drop (i * ?B) tokens') = take ?B (drop (i * ?B) tokens)" if "i < n" for i
  proof -
    have "take ?B (drop (i * ?B) ts) = drop (i * ?B) (take (Suc i * ?B) (take (n * ?B) ts))" for ts :: "u32 list"
    proof -
      have "Suc i * ?B \<le> n * ?B" using that by (intro mult_le_mono1) simp
      then show ?thesis by (simp add: drop_take min_def)
    qed
    then show ?thesis using assms by metis
  qed
  then show ?thesis by (simp add: first_blocks_nth)
qed

lemma keys_of_chain_snoc:
  assumes "length (keys_of_chain sha contract parent bs) = length bs"
    and "block_key_for_captured_block sha (if bs = [] then parent else Some (last (keys_of_chain sha contract parent bs)))
           contract ts causal = Inr key"
  shows "keys_of_chain sha contract parent (bs @ [(ts, causal)]) = keys_of_chain sha contract parent bs @ [key]"
  using assms
proof (induction bs arbitrary: parent)
  case (Cons b bs)
  obtain us c where b: "b = (us, c)" by (cases b)
  obtain k where k: "block_key_for_captured_block sha parent contract us c = Inr k"
    using Cons.prems(1) by (auto simp: b split: sum.splits)
  have "length (keys_of_chain sha contract (Some k) bs) = length bs" using Cons.prems(1) by (simp add: b k)
  then show ?case using Cons.IH [of "Some k"] Cons.prems(2)
    by (cases "bs = []") (auto simp: b k split: if_splits)
qed simp

text \<open>A store that holds the first blocks of a prompt, as far as a lookup asks.\<close>

lemma held_prefix_restorable:
  assumes ready: "lookup_ready inputs" and n: "0 < n" "n * mc_block_token_count (li_model_contract inputs) < length (li_prompt_tokens inputs)"
    and plan: "plan_covers inputs n"
    and ks: "ks = prompt_keys sha inputs n"
    and kv: "\<forall>k \<in> set ks. mc_has_sequence_state (li_model_contract inputs) \<longrightarrow> li_kv_block_exists inputs (bk_block_hash k)"
    and snap: "mc_has_boundary_state (li_model_contract inputs) \<longrightarrow> li_recurrent_snapshot_exists inputs (bk_block_hash (last ks))"
  shows "restorable sha inputs n"
proof -
  let ?B = "mc_block_token_count (li_model_contract inputs)" and ?L = "length (li_prompt_tokens inputs)"
  have B: "0 < ?B" using ready by (simp add: lookup_ready_def)
  have div: "n \<le> ?L div ?B" using n(2) B by (simp add: less_eq_div_iff_mult_less_eq)
  have "n \<le> ?L div ?B - 1" if "?L mod ?B = 0"
  proof -
    have "?L div ?B * ?B = ?L" using that by (metis div_mult_mod_eq add.right_neutral)
    then have "n * ?B < ?L div ?B * ?B" using n(2) by simp
    then show ?thesis using B by simp
  qed
  then have max: "n \<le> maximum_blocks inputs"
    using div by (simp add: maximum_blocks_def complete_and_maximum_restorable_block_counts_def Let_def)
  have len: "length ks = n"
    using prompt_keys_length [OF ready max, of sha] prompt_chain_slots [OF plan] by (simp add: ks)
  have digest: "bk_block_hash (ks ! i) = prefix_digest sha inputs (Suc i)" if "i < n" for i
    using prompt_keys_nth(1) [OF ready max, of i sha] that len by (simp add: ks)
  have "li_kv_block_exists inputs (prefix_digest sha inputs i)"
    if "i \<in> {1..n}" "mc_has_sequence_state (li_model_contract inputs)" for i
  proof -
    have "ks ! (i - 1) \<in> set ks" using that(1) len by (intro nth_mem) auto
    moreover have "bk_block_hash (ks ! (i - 1)) = prefix_digest sha inputs i" using digest [of "i - 1"] that(1) by auto
    ultimately show ?thesis using kv that(2) by auto
  qed
  moreover have "last ks = ks ! (n - 1)" using len n(1) by (metis last_conv_nth length_greater_0_conv)
  then have "bk_block_hash (last ks) = prefix_digest sha inputs n" using digest [of "n - 1"] n(1) by simp
  ultimately show ?thesis using n(1) max plan snap unfolding restorable_def by simp
qed

lemma restorable_restored:
  assumes ready: "lookup_ready inputs" and "restorable sha inputs n"
  shows "n * mc_block_token_count (li_model_contract inputs) \<le> lr_restored_token_count (lookup_with_boundary_policy sha inputs)"
proof -
  have "n \<le> longest_restorable sha inputs"
    using assms(2) by (auto simp: longest_restorable_def restorable_def intro!: Max_ge)
  moreover have "0 < n" using assms(2) by (simp add: restorable_def)
  ultimately obtain i k where entry: "newest_entry sha inputs = Some (i, k)" "n \<le> Suc i"
    unfolding longest_restorable_newest [OF ready] by (auto split: option.splits)
  have "n * mc_block_token_count (li_model_contract inputs) \<le> Suc i * mc_block_token_count (li_model_contract inputs)"
    using entry(2) by (rule mult_le_mono1)
  then show ?thesis using lookup_newest_Some(3) [OF ready entry(1)] by simp
qed

section \<open>One captured block\<close>

text \<open>The machine of a capture, as far as the store goes: the storage contract of the store, file-system steps that
  do not report memory, and staging names that nothing else uses.\<close>

definition machine_ok :: "host \<Rightarrow> capture_host \<Rightarrow> bool" where
  "machine_ok host machine \<longleftrightarrow>
     (\<forall>key attempt. ho_storage_contract_fingerprint (ch_store_host machine key attempt) = ho_storage_contract_fingerprint host
        \<and> io_steps (ch_store_host machine key attempt))"

definition staging_unused :: "capture_host \<Rightarrow> store \<Rightarrow> bool" where
  "staging_unused machine self \<longleftrightarrow> (\<forall>key attempt. unused_path self (ch_staging_directory machine key attempt))"

lemma store_wf_host:
  "ho_storage_contract_fingerprint host' = ho_storage_contract_fingerprint host \<Longrightarrow> store_wf host' self = store_wf host self"
  by (simp add: store_wf_def block_on_disk_def)

lemma machine_store_wf: "machine_ok host machine \<Longrightarrow> store_wf host self \<Longrightarrow> store_wf (ch_store_host machine key attempt) self"
  using store_wf_host [of "ch_store_host machine key attempt" host] by (simp add: machine_ok_def)

text \<open>The first blocks of the request's prompt are durable, and the request stands at the last of them.\<close>

definition captured_prefix ::
    "(byte list \<Rightarrow> digest) \<Rightarrow> host \<Rightarrow> u32 list \<Rightarrow> BlockCausalInput list \<Rightarrow> nat \<Rightarrow> store \<Rightarrow> EngineRequest \<Rightarrow> bool" where
  "captured_prefix sha host tokens plan n self request \<longleftrightarrow>
     (let ks = first_keys sha (st_contract self) tokens plan n
      in store_wf host self \<and> length ks = n \<and> chain_tracked self ks
         \<and> (plan = [] \<or> n \<le> length plan)
         \<and> (n \<noteq> 0 \<and> mc_has_boundary_state (st_contract self) \<longrightarrow> has_recurrent_snapshot self (bk_block_hash (last ks)))
         \<and> er_last_restored_block_key request = tip_key ks
         \<and> er_input_token_ids request = tokens \<and> er_block_causal_inputs request = plan)"

lemma retry_publication:
  assumes wf: "store_wf host self" and ok: "machine_ok host machine" and staging: "staging_unused machine self"
    and run: "publish_block_with_reclamation_retry machine key parent kv recurrent self request = (self', request', Inr outcome)"
  obtains attempt where
    "publish_block (ch_store_host machine key attempt) key parent kv recurrent (ch_staging_directory machine key attempt) self
       = (self', Inr outcome)"
    "er_last_restored_block_key request' = er_last_restored_block_key request"
    "er_input_token_ids request' = er_input_token_ids request" "er_block_causal_inputs request' = er_block_causal_inputs request"
proof (cases "publish_block (ch_store_host machine key 0) key parent kv recurrent (ch_staging_directory machine key 0) self")
  case (Pair self1 result)
  show ?thesis
  proof (cases result)
    case (Inr o1)
    then show ?thesis using run Pair that [of 0] by (simp add: publish_block_with_reclamation_retry_def)
  next
    case (Inl e)
    have io: "io_steps (ch_store_host machine key 0)" using ok by (simp add: machine_ok_def)
    have wf0: "store_wf (ch_store_host machine key 0) self" by (rule machine_store_wf [OF ok wf])
    note tried = run [unfolded publish_block_with_reclamation_retry_def Pair Inl prod.case sum.case]
    obtain deficit where deficit: "active_memory_deficit_bytes e = Some deficit" "ch_reclamation_fails machine deficit = None"
      using tried
      by (cases "active_memory_deficit_bytes e"; cases "ch_reclamation_fails machine (the (active_memory_deficit_bytes e))")
        simp_all
    then have same: "self1 = self"
      using retry_starts_over [OF wf0 io Pair [unfolded Inl]] by (simp add: retryable_def)
    obtain self2 result2 where again: "publish_block (ch_store_host machine key 1) key parent kv recurrent
        (ch_staging_directory machine key 1) self = (self2, result2)" by (metis surj_pair)
    have "self2 = self'" "result2 = Inr outcome"
      "er_last_restored_block_key request' = er_last_restored_block_key request"
      "er_input_token_ids request' = er_input_token_ids request" "er_block_causal_inputs request' = er_block_causal_inputs request"
      using tried [unfolded deficit option.case Let_def same again prod.case]
      by (auto simp: with_diagnostics_def split: sum.splits)
    then show ?thesis using that [of 1] again by simp
  qed
qed

lemma release_workspace_frame:
  "release_publication_workspace_if_needed machine request = (request', e) \<Longrightarrow>
   er_last_restored_block_key request' = er_last_restored_block_key request
   \<and> er_input_token_ids request' = er_input_token_ids request \<and> er_block_causal_inputs request' = er_block_causal_inputs request"
  by (auto simp: release_publication_workspace_if_needed_def with_diagnostics_def split: if_splits option.splits)

lemma apply_outcome_Inr:
  "apply_publication_outcome request (Inr outcome) key = (request', e) \<Longrightarrow>
   e = None \<and> er_last_restored_block_key request' = Some key
   \<and> er_input_token_ids request' = er_input_token_ids request \<and> er_block_causal_inputs request' = er_block_causal_inputs request"
  by (auto simp: apply_publication_outcome_def with_diagnostics_def split: if_splits)

lemma apply_outcome_None:
  "apply_publication_outcome request result key = (request', None) \<Longrightarrow> \<exists>outcome. result = Inr outcome"
  by (cases result) (auto simp: apply_publication_outcome_def split: PromptBlockPublicationFailure.splits)

text \<open>What a successful capture of one block did.\<close>

lemma capture_block_publishes:
  assumes wf: "store_wf host self" and ok: "machine_ok host machine" and staging: "staging_unused machine self"
    and run: "capture_block sha machine prefill_start prefill_end checkpoint self request = (self', request', None)"
  obtains window key kv attempt outcome where
    "capture_block_key sha self request prefill_start prefill_end checkpoint = Inr (window, key)"
    "publish_block (ch_store_host machine key attempt) key (er_last_restored_block_key request) kv (snd checkpoint)
       (ch_staging_directory machine key attempt) self = (self', Inr outcome)"
    "er_last_restored_block_key request' = Some key"
    "er_input_token_ids request' = er_input_token_ids request" "er_block_causal_inputs request' = er_block_causal_inputs request"
proof -
  obtain window key where key: "capture_block_key sha self request prefill_start prefill_end checkpoint = Inr (window, key)"
    using run by (auto simp: capture_block_def split: sum.splits)
  obtain kv request1 where kv: "ch_extract_kv_tensors machine (cw_block_start window) (cw_block_end window) = Some kv"
    and release: "release_publication_workspace_if_needed machine request = (request1, None)"
    using run key by (auto simp: capture_block_def split: option.splits prod.splits)
  obtain self1 request2 result where publish: "publish_block_with_reclamation_retry machine key
      (er_last_restored_block_key request1) kv (snd checkpoint) self request1 = (self1, request2, result)"
    by (metis surj_pair)
  have apply_result: "self1 = self'" "apply_publication_outcome request2 result key = (request', None)"
    using run key kv release publish by (auto simp: capture_block_def split: prod.splits)
  then obtain outcome where result: "result = Inr outcome"
    using apply_outcome_None by blast
  note frame = release_workspace_frame [OF release] and applied = apply_outcome_Inr [OF apply_result(2) [unfolded result]]
  obtain attempt where
    "publish_block (ch_store_host machine key attempt) key (er_last_restored_block_key request1) kv (snd checkpoint)
       (ch_staging_directory machine key attempt) self = (self1, Inr outcome)"
    "er_last_restored_block_key request2 = er_last_restored_block_key request1"
    "er_input_token_ids request2 = er_input_token_ids request1" "er_block_causal_inputs request2 = er_block_causal_inputs request1"
    by (rule retry_publication [OF wf ok staging publish [unfolded result]])
  then show ?thesis using that [OF key] frame applied apply_result(1) by simp
qed

lemma block_window:
  fixes prefill_start chunk_tokens prefill_end :: usize
  assumes pos: "unat prefill_start + unat chunk_tokens = Suc n * B" and B: "0 < B" "B < 2 ^ 64" and small: "Suc n * B < 2 ^ 64"
    and window: "capture_block_window prefill_start chunk_tokens (of_nat B) prefill_end = Inr window"
  shows "unat (cw_block_start window) = n * B" "unat (cw_block_end window) = Suc n * B" "unat (cw_block_index window) = n"
proof -
  have unat_B: "unat (of_nat B :: usize) = B" using B(2) by (simp add: unsigned_of_nat take_bit_nat_eq_self)
  obtain boundary start where b: "checked_add prefill_start chunk_tokens = Some boundary"
    and s: "checked_sub boundary (of_nat B) = Some start"
    and w: "window = \<lparr>cw_block_start = start, cw_block_end = boundary, cw_block_index = start div of_nat B\<rparr>"
    using window by (auto simp: capture_block_window_def split: option.splits if_splits)
  have boundary: "unat boundary = Suc n * B" using b pos by (simp add: checked_add_Some_iff)
  then have start: "unat start = n * B" using s unat_B by (simp add: checked_sub_Some_iff)
  show "unat (cw_block_start window) = n * B" "unat (cw_block_end window) = Suc n * B" "unat (cw_block_index window) = n"
    using boundary start B(1) by (simp_all add: w unat_div_distrib unat_B)
qed

lemma capture_key_next:
  assumes prefix: "captured_prefix sha host tokens plan n self request"
    and B: "0 < mc_block_token_count (st_contract self)" "mc_block_token_count (st_contract self) < 2 ^ 32"
    and pos: "unat prefill_start + unat (fst checkpoint) = Suc n * mc_block_token_count (st_contract self)"
    and small: "Suc n * mc_block_token_count (st_contract self) < 2 ^ 64"
    and key: "capture_block_key sha self request prefill_start prefill_end checkpoint = Inr (window, key)"
  shows "first_keys sha (st_contract self) tokens plan (Suc n) = first_keys sha (st_contract self) tokens plan n @ [key]"
    "plan = [] \<or> Suc n \<le> length plan"
proof -
  let ?B = "mc_block_token_count (st_contract self)" and ?ks = "first_keys sha (st_contract self) tokens plan n"
  note inv = prefix [unfolded captured_prefix_def Let_def]
  obtain selection where window: "capture_block_window prefill_start (fst checkpoint) (cache_block_token_count self) prefill_end = Inr window"
    and selection: "select_block_causal_input plan (cw_block_index window) = Inr selection"
    and block: "block_key_for_captured_block sha (tip_key ?ks) (st_contract self)
        (tokens_between tokens (cw_block_start window) (cw_block_end window))
        (case selection of SelectedEmpty \<Rightarrow> causal_input_empty | FromPlan causal \<Rightarrow> causal) = Inr key"
    using key inv unfolding capture_block_key_def Let_def by (auto split: sum.splits)
  have "?B < 2 ^ 64" using B(2) by simp
  note bounds = block_window [OF pos B(1) this small window [unfolded cache_block_token_count_def]]
  have tokens: "tokens_between tokens (cw_block_start window) (cw_block_end window) = take ?B (drop (n * ?B) tokens)"
    by (simp add: tokens_between_def bounds)
  have causal: "(case selection of SelectedEmpty \<Rightarrow> causal_input_empty | FromPlan causal \<Rightarrow> causal)
      = the (causal_input_of_slot (if plan = [] then None else Some plan) n)"
    and covered: "plan = [] \<or> Suc n \<le> length plan"
    using selection by (auto simp: select_block_causal_input_def causal_input_of_slot_def bounds split: if_splits)
  show "plan = [] \<or> Suc n \<le> length plan" by (rule covered)
  have len: "length ?ks = n" using inv by blast
  show "first_keys sha (st_contract self) tokens plan (Suc n) = ?ks @ [key]"
    unfolding first_keys_def first_blocks_Suc
  proof (rule keys_of_chain_snoc)
    have blocks: "length (first_blocks (st_contract self) tokens plan n) = n" by (simp add: first_blocks_nth)
    then show "length (keys_of_chain sha (st_contract self) None (first_blocks (st_contract self) tokens plan n))
        = length (first_blocks (st_contract self) tokens plan n)" using len by (simp add: first_keys_def)
    have tip: "tip_key ?ks = (if first_blocks (st_contract self) tokens plan n = [] then None else Some (last ?ks))"
      using len blocks by (auto simp: tip_key_def)
    show "block_key_for_captured_block sha
        (if first_blocks (st_contract self) tokens plan n = [] then None
         else Some (last (keys_of_chain sha (st_contract self) None (first_blocks (st_contract self) tokens plan n))))
        (st_contract self) (take ?B (drop (n * ?B) tokens))
        (the (causal_input_of_slot (if plan = [] then None else Some plan) n)) = Inr key"
      using block unfolding tokens causal tip first_keys_def [symmetric] .
  qed
qed

lemma capture_block_step:
  assumes prefix: "captured_prefix sha host tokens plan n self request"
    and ok: "machine_ok host machine" and staging: "staging_unused machine self"
    and B: "0 < mc_block_token_count (st_contract self)" "mc_block_token_count (st_contract self) < 2 ^ 32"
    and pos: "unat prefill_start + unat (fst checkpoint) = Suc n * mc_block_token_count (st_contract self)"
    and small: "Suc n * mc_block_token_count (st_contract self) < 2 ^ 64"
    and run: "capture_block sha machine prefill_start prefill_end checkpoint self request = (self', request', None)"
  shows "captured_prefix sha host tokens plan (Suc n) self' request'" "same_frame self self'"
    "unused_path self path \<Longrightarrow> unused_path self' path"
proof -
  let ?ks = "first_keys sha (st_contract self) tokens plan n"
  note inv = prefix [unfolded captured_prefix_def Let_def]
  then have wf: "store_wf host self" and chain: "chain_tracked self ?ks" and tip: "er_last_restored_block_key request = tip_key ?ks"
    by blast+
  obtain window key kv attempt outcome where
    key: "capture_block_key sha self request prefill_start prefill_end checkpoint = Inr (window, key)"
    and publish: "publish_block (ch_store_host machine key attempt) key (tip_key ?ks) kv (snd checkpoint)
       (ch_staging_directory machine key attempt) self = (self', Inr outcome)"
    and request': "er_last_restored_block_key request' = Some key"
      "er_input_token_ids request' = er_input_token_ids request" "er_block_causal_inputs request' = er_block_causal_inputs request"
    by (rule capture_block_publishes [OF wf ok staging run, unfolded tip])
  note extended = capture_key_next [OF prefix B pos small key]
  have unused: "unused_path self (ch_staging_directory machine key attempt)" using staging by (simp add: staging_unused_def)
  then have "ch_staging_directory machine key attempt \<notin> set (entry_paths (st_disk self))" by (simp add: unused_path_def)
  note result = publication_extends [OF machine_store_wf [OF ok wf] this chain publish]
  have wf': "store_wf host self'"
    using result(2) ok store_wf_host [of "ch_store_host machine key attempt" host] by (simp add: machine_ok_def)
  show frame: "same_frame self self'" by (rule result(1))
  then have contract: "st_contract self' = st_contract self" by (simp add: same_frame_def)
  show "captured_prefix sha host tokens plan (Suc n) self' request'"
    unfolding captured_prefix_def Let_def contract extended(1)
    using inv wf' result(3,4) extended(2) request' by (simp add: tip_key_def)
  show "unused_path self path \<Longrightarrow> unused_path self' path"
    by (rule publication_unused [OF machine_store_wf [OF ok wf] unused publish _ frame])
qed

section \<open>The spans of a prefill\<close>

lemma capture_blocks_run:
  assumes prefix: "captured_prefix sha host tokens plan n self request"
    and ok: "machine_ok host machine" and staging: "staging_unused machine self"
    and B: "0 < mc_block_token_count (st_contract self)" "mc_block_token_count (st_contract self) < 2 ^ 32"
    and pos: "map (\<lambda>c. unat prefill_start + unat (fst c)) checkpoints
      = map (\<lambda>i. i * mc_block_token_count (st_contract self)) [Suc n..<Suc m]"
    and small: "n \<le> m" "m * mc_block_token_count (st_contract self) < 2 ^ 64"
    and run: "capture_persistent_prompt_cache_blocks sha machine prefill_start prefill_end checkpoints self request
      = (self', request', None)"
  shows "captured_prefix sha host tokens plan m self' request' \<and> same_frame self self'
    \<and> (\<forall>path. unused_path self path \<longrightarrow> unused_path self' path)"
  using assms
proof (induction checkpoints arbitrary: n self request)
  case Nil
  then have "m = n" by (auto split: if_splits)
  then show ?case using Nil by (simp add: same_frame_def)
next
  case (Cons c cs)
  have "n < m" using Cons.prems(6,7) by (cases "n = m") auto
  then have pos: "unat prefill_start + unat (fst c) = Suc n * mc_block_token_count (st_contract self)"
    and rest: "map (\<lambda>c. unat prefill_start + unat (fst c)) cs
      = map (\<lambda>i. i * mc_block_token_count (st_contract self)) [Suc (Suc n)..<Suc m]"
    using Cons.prems(6) upt_conv_Cons [of "Suc n" "Suc m"] by (simp_all del: upt_Suc)
  have "Suc n * mc_block_token_count (st_contract self) \<le> m * mc_block_token_count (st_contract self)"
    using \<open>n < m\<close> by (intro mult_le_mono1) simp
  then have small: "Suc n * mc_block_token_count (st_contract self) < 2 ^ 64" using Cons.prems(8) by linarith
  obtain self1 request1 where one: "capture_block sha machine prefill_start prefill_end c self request = (self1, request1, None)"
    and more: "capture_persistent_prompt_cache_blocks sha machine prefill_start prefill_end cs self1 request1 = (self', request', None)"
    using Cons.prems(9) by (auto split: prod.splits option.splits)
  note step = capture_block_step [OF Cons.prems(1-5) pos small one]
  have contract: "st_contract self1 = st_contract self" using step(2) by (simp add: same_frame_def)
  have staging1: "staging_unused machine self1" using Cons.prems(3) step(3) by (simp add: staging_unused_def)
  have "captured_prefix sha host tokens plan m self' request' \<and> same_frame self1 self'
      \<and> (\<forall>path. unused_path self1 path \<longrightarrow> unused_path self' path)"
    by (rule Cons.IH [OF step(1) Cons.prems(2) staging1 _ _ _ _ _ more])
      (use Cons.prems(4,5,8) rest \<open>n < m\<close> in \<open>simp_all add: contract\<close>)
  then show ?case using step(2,3) by (auto simp: same_frame_def)
qed

lemma multiples_between:
  assumes "0 < B"
  shows "filter (\<lambda>p. s < p \<and> p mod B = 0) [0..<Suc e] = map (\<lambda>i. i * B) [Suc (s div B)..<Suc (e div B)]"
proof (rule sorted_distinct_set_unique)
  show "set (filter (\<lambda>p. s < p \<and> p mod B = 0) [0..<Suc e]) = set (map (\<lambda>i. i * B) [Suc (s div B)..<Suc (e div B)])"
  proof (intro set_eqI iffI)
    fix p assume "p \<in> set (filter (\<lambda>p. s < p \<and> p mod B = 0) [0..<Suc e])"
    then have p: "s < p" "p mod B = 0" "p \<le> e" by (auto simp del: upt_Suc)
    then have eq: "p = p div B * B" by (metis div_mult_mod_eq add.right_neutral)
    then have "s div B < p div B" using p(1) assms by (metis div_le_mono le_neq_implies_less less_imp_le_nat div_less_iff_less_mult)
    then show "p \<in> set (map (\<lambda>i. i * B) [Suc (s div B)..<Suc (e div B)])"
      using eq div_le_mono [OF p(3), of B] by (auto simp del: upt_Suc intro!: image_eqI [of _ _ "p div B"])
  next
    fix p assume "p \<in> set (map (\<lambda>i. i * B) [Suc (s div B)..<Suc (e div B)])"
    then obtain i where i: "p = i * B" "i \<in> set [Suc (s div B)..<Suc (e div B)]" unfolding set_map by blast
    then have i: "p = i * B" "s div B < i" "i \<le> e div B" by (simp_all del: upt_Suc)
    have "s < i * B" using i(2) assms by (simp add: div_less_iff_less_mult)
    moreover have "i * B \<le> e" using i(3) assms by (simp add: less_eq_div_iff_mult_less_eq)
    ultimately show "p \<in> set (filter (\<lambda>p. s < p \<and> p mod B = 0) [0..<Suc e])" by (simp add: i(1) del: upt_Suc)
  qed
  show "sorted (map (\<lambda>i. i * B) [Suc (s div B)..<Suc (e div B)])"
    by (simp add: sorted_map sorted_wrt_iff_nth_less del: upt_Suc)
  show "distinct (map (\<lambda>i. i * B) [Suc (s div B)..<Suc (e div B)])"
    using assms by (simp add: distinct_map inj_on_def del: upt_Suc)
qed (simp_all add: sorted_wrt_filter del: upt_Suc)

text \<open>The checkpoints of a span, and the capture of the complete blocks of one span after another.\<close>

definition span_checkpoints :: "(usize \<Rightarrow> nat) \<Rightarrow> store \<Rightarrow> usize \<Rightarrow> usize \<Rightarrow> checkpoint list" where
  "span_checkpoints tensors self span_start span_end =
     map (\<lambda>d. (d, tensors (span_start + d)))
       (boundary_completed_prefill_chunk_tokens span_start span_end (cache_block_token_count self))"

fun capture_spans ::
    "(byte list \<Rightarrow> digest) \<Rightarrow> (usize \<Rightarrow> capture_host) \<Rightarrow> (usize \<Rightarrow> nat) \<Rightarrow> usize \<Rightarrow> usize list \<Rightarrow> store \<Rightarrow> EngineRequest
     \<Rightarrow> store \<times> EngineRequest \<times> InferenceEngineError option" where
  "capture_spans sha machine tensors cursor [] self request = (self, request, None)"
| "capture_spans sha machine tensors cursor (span_end # span_ends) self request =
     (case capture_persistent_prompt_cache_blocks sha (machine cursor) cursor span_end
             (span_checkpoints tensors self cursor span_end) self request of
        (self1, request1, Some e) \<Rightarrow> (self1, request1, Some e)
      | (self1, request1, None) \<Rightarrow> capture_spans sha machine tensors span_end span_ends self1 request1)"

lemma span_checkpoint_positions:
  assumes "0 < mc_block_token_count (st_contract self)" "mc_block_token_count (st_contract self) < 2 ^ 32"
  shows "map (\<lambda>c. unat span_start + unat (fst c)) (span_checkpoints tensors self span_start span_end)
    = map (\<lambda>i. i * mc_block_token_count (st_contract self))
        [Suc (unat span_start div mc_block_token_count (st_contract self))
           ..<Suc (unat span_end div mc_block_token_count (st_contract self))]"
proof -
  have "unat (cache_block_token_count self) = mc_block_token_count (st_contract self)"
    using assms(2) by (simp add: cache_block_token_count_def unsigned_of_nat take_bit_nat_eq_self)
  then show ?thesis
    using boundary_positions [of span_start span_end "cache_block_token_count self"] multiples_between [OF assms(1)]
    by (simp add: span_checkpoints_def comp_def)
qed

lemma capture_spans_run:
  assumes "captured_prefix sha host tokens plan (unat cursor div mc_block_token_count (st_contract self)) self request"
    and "\<forall>c. machine_ok host (machine c) \<and> staging_unused (machine c) self"
    and "0 < mc_block_token_count (st_contract self)" "mc_block_token_count (st_contract self) < 2 ^ 32"
    and "sorted_wrt (<) (cursor # span_ends)"
    and "capture_spans sha machine tensors cursor span_ends self request = (self', request', None)"
  shows "captured_prefix sha host tokens plan (unat (last (cursor # span_ends)) div mc_block_token_count (st_contract self)) self' request'
    \<and> same_frame self self'"
  using assms
proof (induction span_ends arbitrary: cursor self request)
  case Nil
  then show ?case by (simp add: same_frame_def)
next
  case (Cons e es)
  let ?B = "mc_block_token_count (st_contract self)"
  obtain self1 request1 where one: "capture_persistent_prompt_cache_blocks sha (machine cursor) cursor e
      (span_checkpoints tensors self cursor e) self request = (self1, request1, None)"
    and more: "capture_spans sha machine tensors e es self1 request1 = (self', request', None)"
    using Cons.prems(6) by (auto split: prod.splits option.splits)
  have ok: "machine_ok host (machine cursor)" and staging: "staging_unused (machine cursor) self" using Cons.prems(2) by blast+
  have "unat cursor \<le> unat e" using Cons.prems(5) by (simp add: word_less_nat_alt)
  then have le: "unat cursor div ?B \<le> unat e div ?B" by (rule div_le_mono)
  have "unat e div ?B * ?B \<le> unat e" by (rule div_times_less_eq_dividend)
  moreover have "unat e < 2 ^ 64" using unsigned_less [of e, where ?'a = nat] by simp
  ultimately have small: "unat e div ?B * ?B < 2 ^ 64" by linarith
  note run = capture_blocks_run [OF Cons.prems(1) ok staging Cons.prems(3,4)
      span_checkpoint_positions [OF Cons.prems(3,4)] le small one]
  have contract: "st_contract self1 = st_contract self" using run by (simp add: same_frame_def)
  have "\<forall>c. machine_ok host (machine c) \<and> staging_unused (machine c) self1"
    using Cons.prems(2) run by (simp add: staging_unused_def)
  then show ?case
    using Cons.IH [of e self1 request1] run Cons.prems(3-5) more by (auto simp: contract same_frame_def)
qed

end
