(* ===== verification/Cache_Roundtrip.thy ===== *)
theory Cache_Roundtrip
  imports Cache_Capture_Proofs
begin

text \<open>
  From capture to restore: the restore of \<^verbatim>\<open>decoder_state_reuse.rs\<close> and \<^verbatim>\<open>restore_support.rs\<close> derives the keys
  that the lookup matched again, what the spans of a prefill captured is restored for every longer prompt, and a
  captured tail leaves one token to process.
\<close>

section \<open>The restore of a chain\<close>

lemma keys_of_chain_snoc_length:
  "length (keys_of_chain sha contract parent (bs @ [b])) = Suc (length bs) \<Longrightarrow>
   length (keys_of_chain sha contract parent bs) = length bs"
proof (induction bs arbitrary: parent)
  case (Cons b bs)
  then show ?case by (cases b) (auto split: sum.splits)
qed simp

lemma keys_of_chain_snocD:
  assumes "length (keys_of_chain sha contract parent (bs @ [(ts, causal)])) = Suc (length bs)"
  shows "\<exists>key. block_key_for_captured_block sha (if bs = [] then parent else Some (last (keys_of_chain sha contract parent bs)))
             contract ts causal = Inr key
         \<and> keys_of_chain sha contract parent (bs @ [(ts, causal)]) = keys_of_chain sha contract parent bs @ [key]"
proof -
  have "\<exists>key. block_key_for_captured_block sha (if bs = [] then parent else Some (last (keys_of_chain sha contract parent bs)))
             contract ts causal = Inr key"
    using assms
  proof (induction bs arbitrary: parent)
    case Nil
    then show ?case by (auto split: sum.splits)
  next
    case (Cons b bs)
    obtain us c where b: "b = (us, c)" by (cases b)
    obtain k where k: "block_key_for_captured_block sha parent contract us c = Inr k"
      using Cons.prems by (auto simp: b split: sum.splits)
    have rest: "length (keys_of_chain sha contract (Some k) (bs @ [(ts, causal)])) = Suc (length bs)"
      using Cons.prems by (simp add: b k)
    show ?case using Cons.IH [OF rest] keys_of_chain_snoc_length [OF rest]
      by (cases "bs = []") (auto simp: b k split: if_splits)
  qed
  then show ?thesis using keys_of_chain_snoc [OF keys_of_chain_snoc_length [OF assms]] by blast
qed

lemma first_keys_tip:
  assumes "length (first_keys sha contract tokens plan n) = n"
  shows "(if first_blocks contract tokens plan n = [] then None
          else Some (last (keys_of_chain sha contract None (first_blocks contract tokens plan n))))
       = tip_key (first_keys sha contract tokens plan n)"
proof -
  have "first_blocks contract tokens plan n = [] \<longleftrightarrow> n = 0" by (simp add: first_blocks_nth)
  then show ?thesis using assms by (auto simp: tip_key_def first_keys_def)
qed

lemma first_keys_SucD:
  assumes "length (first_keys sha contract tokens plan (Suc n)) = Suc n"
  shows "length (first_keys sha contract tokens plan n) = n"
    "\<exists>key. block_key_for_captured_block sha (tip_key (first_keys sha contract tokens plan n)) contract
             (take (mc_block_token_count contract) (drop (n * mc_block_token_count contract) tokens))
             (the (causal_input_of_slot (if plan = [] then None else Some plan) n)) = Inr key
         \<and> first_keys sha contract tokens plan (Suc n) = first_keys sha contract tokens plan n @ [key]"
proof -
  let ?bs = "first_blocks contract tokens plan n"
    and ?ts = "take (mc_block_token_count contract) (drop (n * mc_block_token_count contract) tokens)"
    and ?causal = "the (causal_input_of_slot (if plan = [] then None else Some plan) n)"
  have blocks: "length ?bs = n" by (simp add: first_blocks_nth)
  have keys: "first_keys sha contract tokens plan (Suc n) = keys_of_chain sha contract None (?bs @ [(?ts, ?causal)])"
    by (simp only: first_keys_def first_blocks_Suc)
  have full: "length (keys_of_chain sha contract None (?bs @ [(?ts, ?causal)])) = Suc (length ?bs)"
    unfolding blocks using assms unfolding keys .
  show len: "length (first_keys sha contract tokens plan n) = n"
    using keys_of_chain_snoc_length [OF full] unfolding blocks by (simp only: first_keys_def)
  show "\<exists>key. block_key_for_captured_block sha (tip_key (first_keys sha contract tokens plan n)) contract ?ts ?causal = Inr key
         \<and> first_keys sha contract tokens plan (Suc n) = first_keys sha contract tokens plan n @ [key]"
    using keys_of_chain_snocD [OF full] unfolding first_keys_tip [OF len] keys by (simp only: first_keys_def)
qed

text \<open>The enumeration derives the keys of the first blocks again.\<close>

lemma restored_block_key_next:
  assumes "length (first_keys sha contract tokens plan (Suc n)) = Suc n" "plan = [] \<or> Suc n \<le> length plan"
  shows "\<exists>key. restored_block_key sha tokens (n * mc_block_token_count contract)
        (n * mc_block_token_count contract + mc_block_token_count contract) n plan
        (tip_key (first_keys sha contract tokens plan n)) contract = Inr key
      \<and> first_keys sha contract tokens plan (Suc n) = first_keys sha contract tokens plan n @ [key]"
proof -
  note key = first_keys_SucD [OF assms(1)]
  have causal: "the (causal_input_of_slot (if plan = [] then None else Some plan) n)
      = (if plan = [] then causal_input_empty else plan ! n)"
    using assms(2) by (auto simp: causal_input_of_slot_def)
  have tip: "tip_key (first_keys sha contract tokens plan n) = None \<longleftrightarrow> n = 0" using key(1) by (cases n) (auto simp: tip_key_def)
  obtain k where k: "block_key_for_captured_block sha (tip_key (first_keys sha contract tokens plan n)) contract
      (take (mc_block_token_count contract) (drop (n * mc_block_token_count contract) tokens))
      (if plan = [] then causal_input_empty else plan ! n) = Inr k"
    "first_keys sha contract tokens plan (Suc n) = first_keys sha contract tokens plan n @ [k]"
    using key(2) unfolding causal by blast
  have "restored_block_key sha tokens (n * mc_block_token_count contract)
        (n * mc_block_token_count contract + mc_block_token_count contract) n plan
        (tip_key (first_keys sha contract tokens plan n)) contract = Inr k"
    using k(1) tip assms(2) unfolding restored_block_key_def Let_def block_key_for_captured_block_def
    by (cases "tip_key (first_keys sha contract tokens plan n)") auto
  then show ?thesis using k(2) by blast
qed

lemma take_Suc_snoc:
  assumes "take (Suc n) xs = ys @ [k]" "length ys = n"
  shows "take n xs = ys \<and> drop n xs = k # drop (Suc n) xs"
proof -
  obtain zs where xs: "xs = ys @ k # zs" using append_take_drop_id [of "Suc n" xs] assms(1) by (metis append.assoc append_Cons append_Nil)
  show ?thesis unfolding xs using assms(2) by simp
qed

lemma enumerate_first_keys:
  assumes "length (first_keys sha (st_contract self) tokens plan (n + m)) = n + m" "plan = [] \<or> n + m \<le> length plan"
  shows "\<exists>total. enumerate_complete_blocks sha self tokens plan m n
      (tip_key (first_keys sha (st_contract self) tokens plan n)) sizes
    = Inr (drop n (first_keys sha (st_contract self) tokens plan (n + m)), total)
    \<and> take n (first_keys sha (st_contract self) tokens plan (n + m)) = first_keys sha (st_contract self) tokens plan n"
  using assms
proof (induction m arbitrary: n sizes)
  case 0
  then show ?case by simp
next
  case (Suc m)
  let ?keys = "first_keys sha (st_contract self) tokens plan"
  obtain total where rest: "\<And>sizes. \<exists>total. enumerate_complete_blocks sha self tokens plan m (Suc n) (tip_key (?keys (Suc n))) sizes
      = Inr (drop (Suc n) (?keys (n + Suc m)), total)"
    and taken: "take (Suc n) (?keys (n + Suc m)) = ?keys (Suc n)"
    using Suc.IH [of "Suc n"] Suc.prems by auto
  have len: "length (?keys (Suc n)) = Suc n"
    unfolding taken [symmetric] length_take Suc.prems(1) by simp
  have cover: "plan = [] \<or> Suc n \<le> length plan" using Suc.prems(2) by auto
  obtain key where key: "restored_block_key sha tokens (n * mc_block_token_count (st_contract self))
        (n * mc_block_token_count (st_contract self) + mc_block_token_count (st_contract self)) n plan
        (tip_key (?keys n)) (st_contract self) = Inr key"
    and snoc: "?keys (Suc n) = ?keys n @ [key]"
    using restored_block_key_next [OF len cover] by blast
  have tip: "tip_key (?keys (Suc n)) = Some key" by (simp add: snoc tip_key_def)
  obtain total where more: "enumerate_complete_blocks sha self tokens plan m (Suc n) (Some key)
      (saturating_add sizes (file_size_bytes_of self SequenceStateBlock (bk_block_hash key)))
      = Inr (drop (Suc n) (?keys (n + Suc m)), total)"
    using rest unfolding tip by blast
  have first: "length (?keys n) = n" by (rule first_keys_SucD(1) [OF len])
  have "take n (?keys (n + Suc m)) = ?keys n \<and> drop n (?keys (n + Suc m)) = key # drop (Suc n) (?keys (n + Suc m))"
    by (rule take_Suc_snoc [OF taken [unfolded snoc] first])
  then show ?case using key more by (simp add: Let_def)
qed

lemma load_first_keys:
  assumes "\<forall>k \<in> set (ks @ tail). loads k"
  shows "load_restored_kv_blocks loads (ks @ tail) i (i + length ks) last_key
    = Inr (if ks = [] then last_key else Some (last ks))"
  using assms
proof (induction ks arbitrary: i last_key)
  case Nil
  have "load_restored_kv_blocks loads tail j complete last_key = Inr last_key"
    if "complete \<le> j" "\<forall>k \<in> set tail. loads k" for j complete
    using that by (induction tail arbitrary: j) auto
  then show ?case using Nil by simp
next
  case (Cons k ks)
  then show ?case using Cons.IH [of "Suc i" "Some k"] by simp
qed

lemma keys_of_chain_take:
  "keys_of_chain sha contract parent (take n bs) = take n (keys_of_chain sha contract parent bs)"
proof (induction bs arbitrary: n parent)
  case (Cons b bs)
  then show ?case by (cases n; cases b) (auto split: sum.splits)
qed simp

lemma first_keys_matched:
  assumes ready: "lookup_ready (request_inputs contract tokens plan kv snap)"
    and m: "m \<le> length (matched_keys sha (request_inputs contract tokens plan kv snap))"
  shows "plan_covers (request_inputs contract tokens plan kv snap) m
    \<and> first_keys sha contract tokens plan m = take m (matched_keys sha (request_inputs contract tokens plan kv snap))"
proof -
  let ?inputs = "request_inputs contract tokens plan kv snap"
  let ?all = "prompt_keys sha ?inputs (maximum_blocks ?inputs)"
  have contract: "li_model_contract ?inputs = contract" by (simp add: request_inputs_def)
  have "m \<le> length ?all" using m length_takeWhile_le [of "stored_key ?inputs" ?all] by linarith
  then have slots: "m \<le> length (slot_blocks ?inputs (maximum_blocks ?inputs) 0)"
    using prompt_keys_length [OF ready order.refl, of sha] by simp
  then have m': "m \<le> maximum_blocks ?inputs" using slot_blocks_length [of ?inputs "maximum_blocks ?inputs" 0] by linarith
  then have covers: "plan_covers ?inputs m" using plan_covers_slots slots by blast
  have "take m (slot_blocks ?inputs (maximum_blocks ?inputs) 0) = first_blocks contract tokens plan m"
    using slot_blocks_take [OF m', of ?inputs 0] prompt_chain_slots [OF covers] by (simp add: request_inputs_chain)
  then have "first_keys sha contract tokens plan m = take m ?all"
    unfolding first_keys_def contract by (metis keys_of_chain_take)
  also have "\<dots> = take m (matched_keys sha ?inputs)"
    using m by (metis takeWhile_eq_take take_take min_absorb1)
  finally show ?thesis using covers by simp
qed

text \<open>What the lookup matched are the first keys of the prompt, up to the longest that can be restored.\<close>

lemma lookup_first_keys:
  fixes sha
  assumes ready: "lookup_ready (request_inputs contract tokens plan kv snap)"
  defines "r \<equiv> lookup_with_boundary_policy sha (request_inputs contract tokens plan kv snap)"
    and "n \<equiv> longest_restorable sha (request_inputs contract tokens plan kv snap)"
  shows "lr_last_restored_block_key r = tip_key (first_keys sha contract tokens plan n)"
    "length (first_keys sha contract tokens plan n) = n" "plan = [] \<or> n \<le> length plan"
    "\<forall>k \<in> set (first_keys sha contract tokens plan n). mc_has_sequence_state contract \<longrightarrow> kv (bk_block_hash k)"
proof -
  let ?inputs = "request_inputs contract tokens plan kv snap"
  have contract: "li_model_contract ?inputs = contract" by (simp add: request_inputs_def)
  have "lr_last_restored_block_key r = tip_key (first_keys sha contract tokens plan n)
      \<and> length (first_keys sha contract tokens plan n) = n \<and> (plan = [] \<or> n \<le> length plan)
      \<and> (\<forall>k \<in> set (first_keys sha contract tokens plan n). mc_has_sequence_state contract \<longrightarrow> kv (bk_block_hash k))"
  proof (cases "newest_entry sha ?inputs")
    case None
    then have n: "n = 0" using longest_restorable_newest [OF ready, of sha] by (simp add: n_def)
    have keys: "first_keys sha contract tokens plan 0 = []" by (simp add: first_keys_def first_blocks_nth)
    show ?thesis
      unfolding n keys using lookup_newest_None(1) [OF None] by (simp add: r_def tip_key_def)
  next
    case (Some e)
    obtain i k where e: "e = (i, k)" by (cases e)
    then have n: "n = Suc i" using Some longest_restorable_newest [OF ready, of sha] by (simp add: n_def)
    note key = newest_entry_key [OF ready Some [unfolded e]]
    have matched: "plan_covers ?inputs n" "first_keys sha contract tokens plan n = take (Suc i) (matched_keys sha ?inputs)"
      using first_keys_matched [OF ready, of "Suc i" sha] key(5) by (simp_all add: n)
    then have plan: "plan = [] \<or> n \<le> length plan" by (auto simp: plan_covers_def request_inputs_def split: if_splits)
    have tip: "tip_key (first_keys sha contract tokens plan n) = Some k"
      unfolding matched(2) using key(5,6) by (simp add: tip_key_def take_Suc_conv_app_nth)
    have "kv (bk_block_hash k)" if "k \<in> set (first_keys sha contract tokens plan n)" "mc_has_sequence_state contract" for k
    proof -
      have "stored_key ?inputs k" using that(1) unfolding matched(2) by (meson in_set_takeD set_takeWhileD)
      then show ?thesis using that(2) by (simp add: stored_key_def request_inputs_def)
    qed
    moreover have "length (first_keys sha contract tokens plan n) = n" unfolding matched(2) using key(5) by (simp add: n)
    ultimately show "lr_last_restored_block_key r = tip_key (first_keys sha contract tokens plan n)
      \<and> length (first_keys sha contract tokens plan n) = n \<and> (plan = [] \<or> n \<le> length plan)
      \<and> (\<forall>k \<in> set (first_keys sha contract tokens plan n). mc_has_sequence_state contract \<longrightarrow> kv (bk_block_hash k))"
      using tip plan lookup_newest_Some(1) [OF ready Some [unfolded e]] by (simp add: r_def)
  qed
  then show "lr_last_restored_block_key r = tip_key (first_keys sha contract tokens plan n)"
    "length (first_keys sha contract tokens plan n) = n" "plan = [] \<or> n \<le> length plan"
    "\<forall>k \<in> set (first_keys sha contract tokens plan n). mc_has_sequence_state contract \<longrightarrow> kv (bk_block_hash k)"
    by blast+
qed

lemma restore_is_lookup:
  fixes sha
  assumes ready: "lookup_ready (request_inputs (st_contract self) tokens plan (has_kv_block self) (has_recurrent_snapshot self))"
    and seq: "mc_has_sequence_state (st_contract self)"
    and loads: "\<forall>key. has_kv_block self (bk_block_hash key) \<longrightarrow> loads key"
    and fits: "length tokens \<le> total_context_tokens"
  defines "r \<equiv> for_prompt_with_partial_tail_block_recovery sha (st_contract self) tokens plan (has_kv_block self)
      (has_recurrent_snapshot self)"
  shows "restore_persistent_prompt_cache_prefix sha loads self tokens plan total_context_tokens
    = Inr \<lparr>ro_persistent_prompt_cache_token_count = of_nat (lr_restored_token_count r),
           ro_restored_token_count = lr_restored_token_count r,
           ro_last_restored_block_key = lr_last_restored_block_key r\<rparr>"
proof -
  let ?inputs = "request_inputs (st_contract self) tokens plan (has_kv_block self) (has_recurrent_snapshot self)"
    and ?B = "mc_block_token_count (st_contract self)"
  have r: "r = lookup_with_boundary_policy sha ?inputs"
    by (simp add: r_def for_prompt_with_partial_tail_block_recovery_def request_inputs_def)
  have B: "li_model_contract ?inputs = st_contract self" "0 < ?B" using ready by (simp_all add: request_inputs_def lookup_ready_def)
  define n where "n = longest_restorable sha ?inputs"
  define tail where "tail = (case lr_restored_partial_tail_block_key r of None \<Rightarrow> [] | Some key \<Rightarrow> [key])"
  note counts = lookup_counts [OF ready, of sha, folded r n_def, unfolded B(1)]
  note keys = lookup_first_keys [OF ready, of sha, folded r n_def]
  have div: "lr_restored_token_count r div ?B = n" unfolding counts(1) using counts(2) by simp
  obtain total where enumerated: "enumerate_complete_blocks sha self tokens plan n 0 None 0
      = Inr (first_keys sha (st_contract self) tokens plan n, total)"
    using enumerate_first_keys [of sha self tokens plan 0 n 0] keys(2,3)
    by (auto simp: tip_key_def first_keys_def first_blocks_nth)
  have blocks: "\<exists>enumeration. enumerate_restored_prefix_blocks sha self tokens plan (lr_restored_token_count r)
      (lr_restored_partial_tail_block_key r) = Inr enumeration
      \<and> re_block_keys enumeration = first_keys sha (st_contract self) tokens plan n @ tail"
    unfolding enumerate_restored_prefix_blocks_def div enumerated by (simp add: tail_def)
  have "\<forall>k \<in> set (first_keys sha (st_contract self) tokens plan n @ tail). loads k"
    using keys(4) counts(3) seq loads by (auto simp: tail_def request_inputs_def split: option.splits)
  note loaded = load_first_keys [OF this, of 0 None, unfolded keys(2) add_0]
  have last: "(if first_keys sha (st_contract self) tokens plan n = [] then None
      else Some (last (first_keys sha (st_contract self) tokens plan n))) = lr_last_restored_block_key r"
    unfolding keys(1) by (simp add: tip_key_def)
  have small: "lr_restored_token_count r < 2 ^ 32" "\<not> total_context_tokens < lr_restored_token_count r"
    using lookup_count_fits(1) [OF ready, of sha, folded r] ready fits by (simp_all add: lookup_ready_def request_inputs_def)
  then have width: "u32_try_from_len (lr_restored_token_count r) = Some (of_nat (lr_restored_token_count r))"
    by (simp add: u32_try_from_len_def)
  show ?thesis
  proof (cases "lr_restored_token_count r = 0")
    case True
    then have "n = 0" using counts(1) B(2) by simp
    then have "lr_last_restored_block_key r = None" using last by (simp add: first_keys_def first_blocks_nth)
    then show ?thesis using True unfolding restore_persistent_prompt_cache_prefix_def Let_def r_def [symmetric] by simp
  next
    case False
    have snapshot: "lr_restored_partial_tail_block_key r \<noteq> None \<or> lr_last_restored_block_key r \<noteq> None"
    proof (rule ccontr)
      assume "\<not> ?thesis"
      then have "n = 0" "tail_tokens (lr_restored_partial_tail_block_key r) = 0"
        using keys(1,2) by (auto simp: tip_key_def tail_tokens_def split: if_splits)
      then show False using False counts(1) by simp
    qed
    obtain enumeration where "enumerate_restored_prefix_blocks sha self tokens plan (lr_restored_token_count r)
        (lr_restored_partial_tail_block_key r) = Inr enumeration"
      "re_block_keys enumeration = first_keys sha (st_contract self) tokens plan n @ tail"
      using blocks by blast
    then show ?thesis using False snapshot small loaded last width
      unfolding restore_persistent_prompt_cache_prefix_def Let_def r_def [symmetric] div by auto
  qed
qed

section \<open>A captured prefix is found\<close>

lemma first_blocks_same:
  assumes "take (n * mc_block_token_count contract) tokens = take (n * mc_block_token_count contract) tokens'"
    and "plan = [] \<or> n \<le> length plan" "plan' = (if plan = [] then [] else plan @ later)"
  shows "first_blocks contract tokens' plan' n = first_blocks contract tokens plan n"
proof -
  have "first_blocks contract tokens' plan' n = first_blocks contract tokens' plan n"
    using assms(2,3) by (auto simp: first_blocks_nth causal_input_of_slot_def nth_append)
  then show ?thesis using first_blocks_prefix [OF assms(1)] by simp
qed

lemma request_lookup:
  "for_prompt_with_partial_tail_block_recovery sha contract tokens plan kv snap
     = lookup_with_boundary_policy sha (request_inputs contract tokens plan kv snap)"
  by (simp add: for_prompt_with_partial_tail_block_recovery_def request_inputs_def)

lemma captured_prefix_restorable:
  assumes prefix: "captured_prefix sha host tokens plan n self request" and n: "0 < n"
    and B: "0 < mc_block_token_count (st_contract self)" "mc_block_token_count (st_contract self) < 2 ^ 32"
    and same: "take (n * mc_block_token_count (st_contract self)) tokens' = take (n * mc_block_token_count (st_contract self)) tokens"
    and longer: "n * mc_block_token_count (st_contract self) < length tokens'" "length tokens' < 2 ^ 32"
    and plan': "plan' = (if plan = [] then [] else plan @ later)"
  shows "restorable sha (request_inputs (st_contract self) tokens' plan' (has_kv_block self) (has_recurrent_snapshot self)) n"
proof -
  let ?inputs = "request_inputs (st_contract self) tokens' plan' (has_kv_block self) (has_recurrent_snapshot self)"
    and ?ks = "first_keys sha (st_contract self) tokens plan n"
  note inv = prefix [unfolded captured_prefix_def Let_def]
  have fields: "li_model_contract ?inputs = st_contract self" "li_prompt_tokens ?inputs = tokens'"
    "li_kv_block_exists ?inputs = has_kv_block self" "li_recurrent_snapshot_exists ?inputs = has_recurrent_snapshot self"
    by (simp_all add: request_inputs_def)
  have covers: "plan_covers ?inputs n" using inv plan' by (auto simp: plan_covers_def request_inputs_def)
  have keys: "?ks = prompt_keys sha ?inputs n"
    using prompt_chain_slots [OF covers] first_blocks_same [OF same [symmetric] _ plan'] inv
    by (simp add: request_inputs_chain first_keys_def fields)
  have kv: "has_kv_block self (bk_block_hash k)" if k: "k \<in> set ?ks" and seq: "mc_has_sequence_state (st_contract self)" for k
  proof -
    have chain: "chain_tracked self ?ks" and wf: "store_wf host self" using inv by blast+
    obtain i where i: "i < length ?ks" "k = ?ks ! i" using k by (auto simp: in_set_conv_nth)
    obtain b where "index_block (st_index self) (bk_block_hash (?ks ! i)) = Some b"
      "mc_has_sequence_state (st_contract self) \<Longrightarrow> tb_sequence_state_file b \<noteq> None"
      by (rule chain_trackedE [OF chain i(1)]) (rule that; assumption)
    then show ?thesis using seq i(2) by (simp add: has_kv_block_tracked [OF wf])
  qed
  show ?thesis
  proof (rule held_prefix_restorable [OF _ n _ covers keys])
    show "lookup_ready ?inputs" using B longer(2) by (simp add: lookup_ready_def fields)
    show "\<forall>k \<in> set ?ks. mc_has_sequence_state (li_model_contract ?inputs) \<longrightarrow> li_kv_block_exists ?inputs (bk_block_hash k)"
      using kv by (simp add: fields)
  qed (use inv n longer(1) in \<open>simp_all add: fields\<close>)
qed

lemma fresh_prefix:
  assumes "store_wf host self" "er_last_restored_block_key request = None"
  shows "captured_prefix sha host (er_input_token_ids request) (er_block_causal_inputs request) 0 self request"
  using assms by (simp add: captured_prefix_def first_keys_def first_blocks_nth tip_key_def)

lemma spans_from_start:
  assumes "store_wf host self" "er_last_restored_block_key request = None"
    and "\<forall>c. machine_ok host (machine c) \<and> staging_unused (machine c) self"
    and "0 < mc_block_token_count (st_contract self)" "mc_block_token_count (st_contract self) < 2 ^ 32"
    and "sorted_wrt (<) (0 # span_ends)"
    and "capture_spans sha machine tensors 0 span_ends self request = (self', request', None)"
  shows "captured_prefix sha host (er_input_token_ids request) (er_block_causal_inputs request)
      (unat (last (0 # span_ends)) div mc_block_token_count (st_contract self)) self' request' \<and> same_frame self self'"
  by (rule capture_spans_run [OF _ assms(3-7)]) (simp add: fresh_prefix [OF assms(1,2)])

section \<open>The captured tail\<close>

lemma probe_finds_tail:
  assumes "mc_has_sequence_state (li_model_contract inputs)" "\<not> li_allow_exact_block_boundary_restore inputs"
    and tip: "ks = [] \<or> tip" and t: "0 < t" "Suc t < mc_block_token_count (li_model_contract inputs)"
    and len: "length (li_prompt_tokens inputs) = length ks * mc_block_token_count (li_model_contract inputs) + Suc t"
    and causal: "causal_input_of_slot (li_block_causal_inputs inputs) (length ks) = Some causal"
    and key: "block_key_for_captured_block sha (tip_key ks) (li_model_contract inputs)
        (take t (drop (length ks * mc_block_token_count (li_model_contract inputs)) (li_prompt_tokens inputs))) causal = Inr key"
    and stored: "li_kv_block_exists inputs (bk_block_hash key)" "li_recurrent_snapshot_exists inputs (bk_block_hash key)"
  shows "tail_tokens (probe_restorable_partial_tail_block sha inputs ks tip) = t"
proof -
  let ?start = "length ks * mc_block_token_count (li_model_contract inputs)"
  have ne: "li_prompt_tokens inputs \<noteq> []" using len by auto
  have "probe_restorable_partial_tail_block sha inputs ks tip
      = tail_candidates sha inputs (tip_key ks) causal (drop ?start (li_prompt_tokens inputs)) t"
    using assms(1,2) tip t len causal ne
    by (auto simp: probe_restorable_partial_tail_block_def Let_def tip_key_def min_def)
  moreover have "t \<le> length (drop ?start (li_prompt_tokens inputs))" using len by simp
  ultimately obtain key' where key': "probe_restorable_partial_tail_block sha inputs ks tip = Some key'"
    "t \<le> unat (bk_token_count key')"
    using tail_candidates_longest [OF t(1) order.refl key stored] by metis
  have "unat (bk_token_count key') \<le> t" using probe_Some(1) [OF key'(1)] assms(2) len by simp
  then show ?thesis using key' by (simp add: tail_tokens_def)
qed

definition published_count :: "EngineRequest \<Rightarrow> u64 option" where
  "published_count request = map_option rd_published_block_count (er_diagnostics request)"

lemma retry_published_count:
  assumes run: "publish_block_with_reclamation_retry machine key parent kv recurrent self request = (self', request', result)"
  shows "published_count request' = published_count request"
proof -
  let ?attempt = "\<lambda>attempt self. publish_block (ch_store_host machine key attempt) key parent kv recurrent
      (ch_staging_directory machine key attempt) self"
  obtain self1 r1 where first: "?attempt 0 self = (self1, r1)" by (metis surj_pair)
  obtain self2 r2 where second: "?attempt 1 self1 = (self2, r2)" by (metis surj_pair)
  have "request' = request \<or> (\<exists>f. request' = with_diagnostics (\<lambda>d. d\<lparr>rd_expert_bytes_reclaimed_for_publication := f d\<rparr>) request)"
  proof (cases r1)
    case (Inr o1)
    then show ?thesis using run first by (simp add: publish_block_with_reclamation_retry_def)
  next
    case (Inl e)
    note tried = run [unfolded publish_block_with_reclamation_retry_def first Inl prod.case sum.case Let_def second]
    show ?thesis
    proof (cases "active_memory_deficit_bytes e")
      case (Some deficit)
      show ?thesis
      proof (cases "ch_reclamation_fails machine deficit")
        case None
        then show ?thesis using tried Some by (cases r2) auto
      qed (use tried Some in simp)
    qed (use tried in simp)
  qed
  then show ?thesis by (auto simp: published_count_def with_diagnostics_def map_option.compositionality comp_def)
qed

lemma tail_span_values:
  fixes b :: usize
  assumes span: "prompt_tail_capture_span can_use (of_nat L) b prefill_end = Some span"
    and L: "L = n * unat b + Suc r" "Suc r < unat b" "L < 2 ^ 32"
  shows "unat (ts_tail_block_index span) = n" "unat (ts_tail_block_start span) = n * unat b"
    "unat (ts_tail_capture_end span) = n * unat b + r" "r \<noteq> 0"
proof -
  have width: "unat (of_nat L :: usize) = L" using L(3) by (simp add: unsigned_of_nat take_bit_nat_eq_self)
  have "unat ((of_nat L :: usize) mod b) = Suc r"
    unfolding unat_mod_distrib width using L(1,2) by (metis mod_less mod_mult_self3)
  then have "(of_nat L :: usize) mod b \<noteq> 0" by (metis unat_0 nat.distinct(1))
  then have tail_end: "partial_tail_capture_end (of_nat L) b = saturating_sub (of_nat L) 1"
    by (simp add: partial_tail_capture_end_def)
  have end_value: "unat (saturating_sub (of_nat L :: usize) 1) = n * unat b + r"
    by (simp add: unat_saturating_sub width) (simp add: L(1))
  have fields: "ts_tail_capture_end span = saturating_sub (of_nat L) 1"
    "ts_tail_block_index span = saturating_sub (of_nat L) 1 div b"
    "ts_tail_block_start span = ts_tail_block_index span * b"
    "saturating_sub (of_nat L) 1 mod b \<noteq> 0"
    using span [unfolded prompt_tail_capture_span_def Let_def tail_end] by (auto split: if_splits)
  show index: "unat (ts_tail_block_index span) = n"
    unfolding fields(2) unat_div_distrib end_value using L(2) by simp
  have "n * unat b < 2 ^ 64" using L(1,3) by simp
  then show "unat (ts_tail_block_start span) = n * unat b"
    unfolding fields(3) using unat_mult_lem [of "ts_tail_block_index span" b] by (simp add: index)
  show "unat (ts_tail_capture_end span) = n * unat b + r" unfolding fields(1) by (rule end_value)
  have "unat (saturating_sub (of_nat L :: usize) 1 mod b) = r"
    unfolding unat_mod_distrib end_value using L(2) by simp
  then show "r \<noteq> 0" using fields(4) by (metis unat_eq_zero)
qed

lemma tail_capture_publishes:
  assumes prefix: "captured_prefix sha host tokens plan n self request"
    and ok: "machine_ok host machine" and staging: "staging_unused machine self"
    and B: "0 < mc_block_token_count (st_contract self)" "mc_block_token_count (st_contract self) < 2 ^ 32"
    and n: "n = length tokens div mc_block_token_count (st_contract self)"
    and partial: "length tokens mod mc_block_token_count (st_contract self) \<noteq> 0" and len: "length tokens < 2 ^ 32"
    and run: "capture_persistent_prompt_cache_partial_tail_block sha machine prefill_end self request = (self', request')"
    and published: "published_count request' \<noteq> published_count request"
  obtains key causal kv recurrent attempt outcome where
    "block_key_for_captured_block sha (tip_key (first_keys sha (st_contract self) tokens plan n)) (st_contract self)
       (take (length tokens - 1 - n * mc_block_token_count (st_contract self))
         (drop (n * mc_block_token_count (st_contract self)) tokens)) causal = Inr key"
    "causal_input_of_slot (if plan = [] then None else Some plan) n = Some causal"
    "n * mc_block_token_count (st_contract self) < length tokens - 1"
    "publish_block (ch_store_host machine key attempt) key (tip_key (first_keys sha (st_contract self) tokens plan n)) kv recurrent
       (ch_staging_directory machine key attempt) self = (self', Inr outcome)"
proof -
  let ?B = "mc_block_token_count (st_contract self)" and ?L = "length tokens"
  note inv = prefix [unfolded captured_prefix_def Let_def]
  then have request: "er_last_restored_block_key request = tip_key (first_keys sha (st_contract self) tokens plan n)"
    "er_input_token_ids request = tokens" "er_block_causal_inputs request = plan" and wf: "store_wf host self" by blast+
  have width: "unat (cache_block_token_count self) = ?B"
    using B(2) by (simp add: cache_block_token_count_def unsigned_of_nat take_bit_nat_eq_self)
  obtain span where span: "prompt_tail_capture_span (er_can_use_persistent_prompt_cache request) (of_nat ?L)
      (cache_block_token_count self) prefill_end = Some span"
    using run published request(2) unfolding capture_persistent_prompt_cache_partial_tail_block_def
    by (auto split: option.splits)
  obtain r where mod: "?L mod ?B = Suc r" using partial by (metis not0_implies_Suc)
  have L: "?L = n * ?B + Suc r" unfolding n mod [symmetric] by simp
  have "Suc r < ?B" using mod B(1) by (metis mod_less_divisor)
  note span_at = tail_span_values [OF span, unfolded width, OF L this len]
  note index = span_at(1)
  have tokens: "tokens_between tokens (ts_tail_block_start span) (ts_tail_capture_end span)
      = take (?L - 1 - n * ?B) (drop (n * ?B) tokens)"
    by (simp add: tokens_between_def span_at) (simp add: L)
  obtain causal where causal: "(case resolve_tail_block_causal_input plan (ts_tail_block_index span) of
      Planned causal_input \<Rightarrow> Some causal_input | EmptyFallback \<Rightarrow> Some causal_input_empty | MissingFromPlan \<Rightarrow> None) = Some causal"
    using run published request span unfolding capture_persistent_prompt_cache_partial_tail_block_def
    by (auto split: option.splits)
  note run1 = run [unfolded capture_persistent_prompt_cache_partial_tail_block_def request span option.case causal]
  obtain key where key: "build_tail_block_key sha (st_contract self) (take (?L - 1 - n * ?B) (drop (n * ?B) tokens)) causal
      (tip_key (first_keys sha (st_contract self) tokens plan n)) = Inr key"
    using run1 published unfolding tokens by (auto split: sum.splits)
  note run2 = run1 [unfolded tokens key sum.case]
  obtain kv recurrent where tensors: "ch_extract_kv_tensors machine (ts_tail_block_start span) (ts_tail_capture_end span) = Some kv"
    "ch_extract_recurrent_tensors machine = Some recurrent"
    using run2 published by (auto split: option.splits)
  obtain self1 request1 result where publish: "publish_block_with_reclamation_retry machine key
      (tip_key (first_keys sha (st_contract self) tokens plan n)) kv recurrent self request = (self1, request1, result)"
    by (metis surj_pair)
  note run3 = run2 [unfolded tensors option.case publish_captured_tail_block_def publish prod.case]
  obtain outcome where result: "result = Inr outcome" "self1 = self'"
    using run3 published retry_published_count [OF publish] by (cases result) auto
  obtain attempt where "publish_block (ch_store_host machine key attempt) key
      (tip_key (first_keys sha (st_contract self) tokens plan n)) kv recurrent (ch_staging_directory machine key attempt) self
      = (self', Inr outcome)"
    by (rule retry_publication [OF wf ok staging publish [unfolded result]])
  then show thesis
  proof (rule that [rotated 3])
    show "block_key_for_captured_block sha (tip_key (first_keys sha (st_contract self) tokens plan n)) (st_contract self)
       (take (?L - 1 - n * ?B) (drop (n * ?B) tokens)) causal = Inr key"
      using key by (simp add: build_tail_block_key_def block_key_for_captured_block_def)
    show "causal_input_of_slot (if plan = [] then None else Some plan) n = Some causal"
      using causal by (auto simp: resolve_tail_block_causal_input_def causal_input_of_slot_def index split: if_splits)
    show "n * ?B < ?L - 1" using L span_at(4) by simp
  qed
qed

lemma chain_tracked_front:
  assumes "chain_tracked self (ks @ ls)"
  shows "chain_tracked self ks"
  unfolding chain_tracked_def
proof
  fix i assume "i \<in> {..<length ks}"
  then have i: "i < length ks" by simp
  then have same: "(ks @ ls) ! i = ks ! i" "(ks @ ls) ! (i - 1) = ks ! (i - 1)" by (simp_all add: nth_append)
  have "chain_entry self (ks @ ls) i" using assms i by (simp add: chain_tracked_def)
  then show "chain_entry self ks i" unfolding chain_entry_def same .
qed

text \<open>Behind complete blocks that are there, a stored tail of all but the last token is found.\<close>

lemma tail_behind_blocks_restored:
  assumes prefix: "captured_prefix sha host tokens plan n self request"
    and B: "0 < mc_block_token_count (st_contract self)" "mc_block_token_count (st_contract self) < 2 ^ 32"
    and state: "mc_has_sequence_state (st_contract self)"
    and rest: "length tokens = n * mc_block_token_count (st_contract self) + Suc t"
    and t: "0 < t" "Suc t < mc_block_token_count (st_contract self)" and len: "length tokens < 2 ^ 32"
    and key: "block_key_for_captured_block sha (tip_key (first_keys sha (st_contract self) tokens plan n)) (st_contract self)
        (take t (drop (n * mc_block_token_count (st_contract self)) tokens)) causal = Inr key"
    and causal: "causal_input_of_slot (if plan = [] then None else Some plan) n = Some causal"
    and stored: "has_kv_block self (bk_block_hash key)" "has_recurrent_snapshot self (bk_block_hash key)"
  shows "lr_restored_token_count (lookup_with_boundary_policy sha
      (request_inputs (st_contract self) tokens plan (has_kv_block self) (has_recurrent_snapshot self)))
    = n * mc_block_token_count (st_contract self) + t"
proof -
  let ?B = "mc_block_token_count (st_contract self)" and ?ks = "first_keys sha (st_contract self) tokens plan n"
    and ?inputs = "request_inputs (st_contract self) tokens plan (has_kv_block self) (has_recurrent_snapshot self)"
  have count: "length ?ks = n" using prefix by (simp add: captured_prefix_def Let_def)
  have fields: "li_model_contract ?inputs = st_contract self" "li_prompt_tokens ?inputs = tokens"
    "li_kv_block_exists ?inputs = has_kv_block self" "li_recurrent_snapshot_exists ?inputs = has_recurrent_snapshot self"
    "li_block_causal_inputs ?inputs = (if plan = [] then None else Some plan)" "\<not> li_allow_exact_block_boundary_restore ?inputs"
    "li_probe_partial_tail_blocks ?inputs"
    by (simp_all add: request_inputs_def)
  have ready: "lookup_ready ?inputs" using B len by (simp add: lookup_ready_def fields)
  have div: "length tokens div ?B = n" by (rule div_nat_eqI) (use rest t(2) in \<open>simp_all add: mult.commute\<close>)
  then have "length tokens mod ?B \<noteq> 0" using minus_div_mult_eq_mod [of "length tokens" ?B] rest by simp
  with div have maximum: "maximum_blocks ?inputs = n"
    by (simp add: maximum_blocks_def complete_and_maximum_restorable_block_counts_def fields Let_def)
  have probe: "tail_tokens (probe_restorable_partial_tail_block sha ?inputs ?ks tip) = t" if "?ks = [] \<or> tip" for tip
    by (rule probe_finds_tail [OF _ fields(6) that t(1)])
      (use state t rest count causal key stored in \<open>simp_all add: fields\<close>)
  show ?thesis
  proof (cases "n = 0")
    case True
    then have ks: "?ks = []" using count by simp
    have "newest_entry sha ?inputs = None"
    proof (rule ccontr)
      assume "\<not> ?thesis"
      then obtain i k where "newest_entry sha ?inputs = Some (i, k)" by auto
      from newest_entry_key(1) [OF ready this] show False using maximum True by simp
    qed
    then show ?thesis using lookup_newest_None(3) [of ?inputs sha] probe [of False] maximum True ks by (simp add: fields)
  next
    case False
    have "restorable sha ?inputs n"
      using captured_prefix_restorable [OF prefix, of tokens plan "[]"] False B rest len by simp
    then have longest: "n \<le> longest_restorable sha ?inputs"
      by (auto simp: longest_restorable_def restorable_def intro!: Max_ge)
    then obtain i k where entry: "newest_entry sha ?inputs = Some (i, k)" "n \<le> Suc i"
      using False unfolding longest_restorable_newest [OF ready] by (auto split: option.splits)
    have i: "Suc i = n" using newest_entry_key(1) [OF ready entry(1)] entry(2) maximum by simp
    have "length (matched_keys sha ?inputs) \<le> n"
      using length_takeWhile_le [of "stored_key ?inputs" "prompt_keys sha ?inputs n"]
        prompt_keys_length [OF ready order.refl, of sha] slot_blocks_length [of ?inputs n 0] maximum by simp
    then have matched: "length (matched_keys sha ?inputs) = n" using newest_entry_key(5) [OF ready entry(1)] i by simp
    then have keys: "matched_keys sha ?inputs = ?ks"
      using first_keys_matched [OF ready, of n sha] by simp
    have "?ks = [] \<or> i + 1 = length (matched_keys sha ?inputs)" using matched i by simp
    from probe [OF this] show ?thesis
      using lookup_newest_Some(3) [OF ready entry(1)] fields(7) i unfolding keys by (simp add: fields(1))
  qed
qed

lemma published_tail_restored:
  assumes prefix: "captured_prefix sha host tokens plan n self request"
    and ok: "machine_ok host machine" and staging: "staging_unused machine self"
    and B: "0 < mc_block_token_count (st_contract self)" "mc_block_token_count (st_contract self) < 2 ^ 32"
    and state: "mc_has_sequence_state (st_contract self)" "mc_has_boundary_state (st_contract self)"
    and n: "n = length tokens div mc_block_token_count (st_contract self)"
    and partial: "length tokens mod mc_block_token_count (st_contract self) \<noteq> 0" and len: "length tokens < 2 ^ 32"
    and roomy: "\<forall>key attempt. unat (bk_token_count key) < mc_block_token_count (st_contract self) \<longrightarrow>
      \<not> under_pressure (ch_store_host machine key attempt) self key (ch_staging_directory machine key attempt)"
    and run: "capture_persistent_prompt_cache_partial_tail_block sha machine prefill_end self request = (self', request')"
    and published: "published_count request' \<noteq> published_count request"
  shows "lr_restored_token_count (for_prompt_with_partial_tail_block_recovery sha (st_contract self') tokens plan
      (has_kv_block self') (has_recurrent_snapshot self')) = length tokens - 1"
proof -
  let ?B = "mc_block_token_count (st_contract self)" and ?ks = "first_keys sha (st_contract self) tokens plan n"
  define t where "t = length tokens - 1 - n * ?B"
  obtain key causal kv recurrent attempt outcome where
    key: "block_key_for_captured_block sha (tip_key ?ks) (st_contract self) (take t (drop (n * ?B) tokens)) causal = Inr key"
    and causal: "causal_input_of_slot (if plan = [] then None else Some plan) n = Some causal"
    and long: "n * ?B < length tokens - 1"
    and publish: "publish_block (ch_store_host machine key attempt) key (tip_key ?ks) kv recurrent
       (ch_staging_directory machine key attempt) self = (self', Inr outcome)"
    unfolding t_def by (rule tail_capture_publishes [OF prefix ok staging B n partial len run published])
  have rest: "length tokens = n * ?B + Suc t" using long by (simp add: t_def)
  have "length tokens mod ?B = Suc t"
    using minus_div_mult_eq_mod [of "length tokens" ?B] rest unfolding n [symmetric] by linarith
  then have t: "Suc t < ?B" using B(1) by (metis mod_less_divisor)
  have t: "0 < t" "Suc t < ?B" using t long by (simp_all add: t_def)
  have "unat (bk_token_count key) < ?B" using captured_key_fields(2) [OF key] t rest by simp
  with roomy have easy: "\<not> under_pressure (ch_store_host machine key attempt) self key (ch_staging_directory machine key attempt)"
    by blast
  note inv = prefix [unfolded captured_prefix_def Let_def]
  then have wf: "store_wf host self" and chain: "chain_tracked self ?ks" and count: "length ?ks = n" by blast+
  have "ch_staging_directory machine key attempt \<notin> set (entry_paths (st_disk self))"
    using staging by (simp add: staging_unused_def unused_path_def)
  note result = publication_extends [OF machine_store_wf [OF ok wf] this chain publish]
  have contract: "st_contract self' = st_contract self" using result(1) by (simp add: same_frame_def)
  have wf': "store_wf host self'"
    using result(2) ok store_wf_host [of "ch_store_host machine key attempt" host] by (simp add: machine_ok_def)
  obtain b where "index_block (st_index self') (bk_block_hash ((?ks @ [key]) ! length ?ks)) = Some b"
    "mc_has_sequence_state (st_contract self') \<Longrightarrow> tb_sequence_state_file b \<noteq> None"
    by (rule chain_trackedE [OF result(3), of "length ?ks"], simp) (rule that; assumption)
  then have kv: "has_kv_block self' (bk_block_hash key)"
    using state(1) by (simp add: has_kv_block_tracked [OF wf'] contract)
  have "has_recurrent_snapshot self' (bk_block_hash (last ?ks))" if "n \<noteq> 0"
  proof -
    have last: "n - 1 < length ?ks" "?ks ! (n - 1) = last ?ks"
      using that count by (simp, metis count last_conv_nth length_0_conv that)
    have "has_recurrent_snapshot self (bk_block_hash (?ks ! (n - 1)))" unfolding last(2) using inv that state(2) by blast
    from result(5) [OF last(1) this] show ?thesis using easy unfolding last(2) by blast
  qed
  moreover have "chain_tracked self' ?ks"
    by (rule chain_tracked_front [OF result(3)])
  ultimately have prefix': "captured_prefix sha host tokens plan n self' request"
    unfolding captured_prefix_def Let_def contract using inv wf' by simp
  show ?thesis
    using tail_behind_blocks_restored [OF prefix', unfolded contract, OF B state(1) rest t len key causal kv] result(4) state(2) rest
    unfolding request_lookup contract by simp
qed

section \<open>A small request\<close>

text \<open>A prompt of two complete blocks and a tail; one block is captured in each of the first two spans.\<close>

definition small_machine :: capture_host where
  "small_machine =
     \<lparr>ch_extract_kv_tensors = (\<lambda>_ _. Some 1), ch_extract_recurrent_tensors = Some 1, ch_active_memory_bytes = Some 0,
      ch_memory_limit_bytes = Some 0, ch_allocator_cache_bytes_before = None, ch_allocator_cache_bytes_after = None,
      ch_workspace_release_fails = None, ch_reclamation_fails = (\<lambda>_. None), ch_expert_payload_bytes_before = 0,
      ch_expert_payload_bytes_after = 0, ch_store_host = (\<lambda>_ _. small_host), ch_staging_directory = (\<lambda>_ _. [''staging''])\<rparr>"

definition small_request :: EngineRequest where
  "small_request =
     \<lparr>er_input_token_ids = [1, 2, 3, 4, 5, 6, 7, 8], er_can_use_persistent_prompt_cache = True, er_block_causal_inputs = [],
      er_last_restored_block_key = None, er_prefill_cursor = 0, er_next_position_tokens = 0,
      er_diagnostics = Some \<lparr>rd_published_block_count = 0, rd_allocator_bytes_cleared_for_publication = 0,
        rd_expert_bytes_reclaimed_for_publication = 0\<rparr>\<rparr>"

definition small_spans :: "store \<times> EngineRequest \<times> InferenceEngineError option" where
  "small_spans = capture_spans small_digest (\<lambda>_. small_machine) (\<lambda>_. 1) 0 [3, 6, 7] (empty_store 500) small_request"

definition small_tail :: "store \<times> EngineRequest" where
  "small_tail = capture_persistent_prompt_cache_partial_tail_block small_digest small_machine 7 (fst small_spans) (fst (snd small_spans))"

lemma small_machine_fields:
  "ch_store_host small_machine key attempt = small_host" "ch_staging_directory small_machine key attempt = [''staging'']"
  by (simp_all add: small_machine_def)

lemma small_machine_ok: "machine_ok small_host small_machine"
  by (simp add: machine_ok_def small_machine_def io_steps_def small_host_def)

lemma small_staging: "staging_unused small_machine (empty_store maximum)"
  by (simp add: staging_unused_def unused_path_def small_machine_def empty_store_def entry_paths_def block_directory_def)

lemma small_spans_run:
  "capture_spans small_digest (\<lambda>_. small_machine) (\<lambda>_. 1) 0 [3, 6, 7] (empty_store 500) small_request
     = (fst small_spans, fst (snd small_spans), None)"
proof -
  have "snd (snd small_spans) = None" by code_simp
  then show ?thesis by (simp add: small_spans_def prod_eq_iff)
qed

lemma small_order: "sorted_wrt (<) (0 # [3, 6, 7 :: usize])"
  by simp

section \<open>Theorems\<close>

text \<open>C31. A captured prompt is restored: when a fresh request captured the complete blocks of its spans, the restore of
  any longer prompt that begins with the same blocks succeeds and skips at least those blocks, whatever the blocks
  displaced in the store, the boundary of a parent included. The same inputs may be bound to later blocks.\<close>
theorem captured_blocks_are_restored:
  assumes "store_wf host self" "er_last_restored_block_key request = None"
    and "\<forall>c. machine_ok host (machine c) \<and> staging_unused (machine c) self"
    and "0 < mc_block_token_count (st_contract self)" "mc_block_token_count (st_contract self) < 2 ^ 32"
    and "mc_has_sequence_state (st_contract self)"
    and "sorted_wrt (<) (0 # span_ends)"
    and "capture_spans sha machine tensors 0 span_ends self request = (self', request', None)"
    and "captured_tokens = unat (last (0 # span_ends)) div mc_block_token_count (st_contract self) * mc_block_token_count (st_contract self)"
    and "take captured_tokens prompt = take captured_tokens (er_input_token_ids request)"
    and "captured_tokens < length prompt" "length prompt < 2 ^ 32"
    and "plan = (if er_block_causal_inputs request = [] then [] else er_block_causal_inputs request @ later)"
    and "\<forall>key. has_kv_block self' (bk_block_hash key) \<longrightarrow> loads key" "length prompt \<le> total_context_tokens"
  shows "\<exists>outcome. restore_persistent_prompt_cache_prefix sha loads self' prompt plan total_context_tokens = Inr outcome
    \<and> captured_tokens \<le> ro_restored_token_count outcome"
proof -
  let ?n = "unat (last (0 # span_ends)) div mc_block_token_count (st_contract self)"
  note run = spans_from_start [OF assms(1-5,7,8)]
  have contract: "st_contract self' = st_contract self" using run by (simp add: same_frame_def)
  let ?inputs = "request_inputs (st_contract self') prompt plan (has_kv_block self') (has_recurrent_snapshot self')"
  have ready: "lookup_ready ?inputs" using assms(4,5,12) by (simp add: lookup_ready_def request_inputs_def contract)
  have "captured_tokens \<le> lr_restored_token_count (lookup_with_boundary_policy sha ?inputs)"
  proof (cases "?n = 0")
    case False
    have "restorable sha ?inputs ?n"
      by (rule captured_prefix_restorable [OF conjunct1 [OF run] _ _ _ _ _ assms(12,13)])
        (use False assms in \<open>simp_all add: contract\<close>)
    then show ?thesis using restorable_restored [OF ready] assms(9) by (simp add: contract request_inputs_def)
  qed (simp add: assms(9))
  moreover have "mc_has_sequence_state (st_contract self')" using assms(6) by (simp add: contract)
  note restore_is_lookup [OF ready this assms(14,15), unfolded request_lookup]
  ultimately show ?thesis by simp
qed

theorem captured_blocks_are_restored_witness:
  "\<exists>outcome. restore_persistent_prompt_cache_prefix small_digest (\<lambda>_. True) (fst small_spans) [1, 2, 3, 4, 5, 6, 9, 10] [] 20
       = Inr outcome \<and> 6 \<le> ro_restored_token_count outcome"
proof -
  have contract: "st_contract (empty_store 500) = small_contract" by (simp add: empty_store_def)
  show ?thesis
    by (rule captured_blocks_are_restored [OF empty_store_wf _ _ _ _ _ small_order small_spans_run, of _ "[1, 2, 3, 4, 5, 6, 9, 10]" "[]" "[]"])
      (simp_all add: contract small_contract_def small_request_def small_machine_ok small_staging)
qed

text \<open>C32. The restore follows the lookup: it derives the keys of the restored blocks from the tokens again, without the
  keys of the lookup, and yet loads exactly the chain that was found, so when every stored block can be loaded and
  the context holds the prompt, the restored count and the last complete key are those of the lookup.\<close>
theorem restore_follows_lookup:
  assumes "0 < mc_block_token_count (st_contract self)" "mc_block_token_count (st_contract self) < 2 ^ 32"
    and "length prompt < 2 ^ 32" "length prompt \<le> total_context_tokens"
    and "mc_has_sequence_state (st_contract self)"
    and "\<forall>key. has_kv_block self (bk_block_hash key) \<longrightarrow> loads key"
    and "found = for_prompt_with_partial_tail_block_recovery sha (st_contract self) prompt plan (has_kv_block self)
      (has_recurrent_snapshot self)"
  shows "restore_persistent_prompt_cache_prefix sha loads self prompt plan total_context_tokens
    = Inr \<lparr>ro_persistent_prompt_cache_token_count = of_nat (lr_restored_token_count found),
           ro_restored_token_count = lr_restored_token_count found,
           ro_last_restored_block_key = lr_last_restored_block_key found\<rparr>"
  unfolding assms(7)
  by (rule restore_is_lookup) (use assms in \<open>simp_all add: lookup_ready_def request_inputs_def\<close>)

theorem restore_follows_lookup_witness:
  "restore_persistent_prompt_cache_prefix small_digest (\<lambda>_. True) (conversation 500) [1, 2, 3, 4, 5, 6, 7, 8] [] 20
     = Inr \<lparr>ro_persistent_prompt_cache_token_count = 6, ro_restored_token_count = 6,
            ro_last_restored_block_key = Some second_key\<rparr>"
proof -
  let ?self = "conversation 500" and ?prompt = "[1, 2, 3, 4, 5, 6, 7, 8]"
  let ?found = "for_prompt_with_partial_tail_block_recovery small_digest (st_contract ?self) ?prompt [] (has_kv_block ?self)
      (has_recurrent_snapshot ?self)"
  have found: "lr_restored_token_count ?found = 6" "lr_last_restored_block_key ?found = Some second_key" by code_simp+
  have contract: "mc_block_token_count (st_contract ?self) = 3" "mc_has_sequence_state (st_contract ?self)" by code_simp+
  show ?thesis
    using restore_follows_lookup [of ?self ?prompt 20 "\<lambda>_. True" ?found small_digest "[]"] found contract by simp
qed

text \<open>C33. A published tail completes the prompt: when a fresh request captured the complete blocks of its prompt and
  its tail capture reports a published block, the next request with the same prompt has all of it restored but the last
  token, provided that no commit of a tail is under quota pressure. A cache at its ceiling does not meet that condition:
  there the commit of the tail may remove a boundary that the prompt needs (\<open>tail_publication_loses_prefix\<close>).\<close>

theorem captured_tail_leaves_last_token:
  assumes "store_wf host self" "er_last_restored_block_key request = None"
    and "\<forall>c. machine_ok host (machine c) \<and> staging_unused (machine c) self"
    and "0 < mc_block_token_count (st_contract self)" "mc_block_token_count (st_contract self) < 2 ^ 32"
    and "mc_has_sequence_state (st_contract self)" "mc_has_boundary_state (st_contract self)"
    and "sorted_wrt (<) (0 # span_ends)"
    and "capture_spans sha machine tensors 0 span_ends self request = (self1, request1, None)"
    and "prompt = er_input_token_ids request" "length prompt < 2 ^ 32"
    and "length prompt mod mc_block_token_count (st_contract self) \<noteq> 0"
    and "unat (last (0 # span_ends)) div mc_block_token_count (st_contract self)
      = length prompt div mc_block_token_count (st_contract self)"
    and "machine_ok host tail_machine" "staging_unused tail_machine self1"
    and "\<forall>key attempt. unat (bk_token_count key) < mc_block_token_count (st_contract self) \<longrightarrow>
      \<not> under_pressure (ch_store_host tail_machine key attempt) self1 key (ch_staging_directory tail_machine key attempt)"
    and "capture_persistent_prompt_cache_partial_tail_block sha tail_machine prefill_end self1 request1 = (self2, request2)"
    and "published_count request2 \<noteq> published_count request1"
  shows "lr_restored_token_count (for_prompt_with_partial_tail_block_recovery sha (st_contract self2) prompt
      (er_block_causal_inputs request) (has_kv_block self2) (has_recurrent_snapshot self2)) = length prompt - 1"
proof -
  note run = spans_from_start [OF assms(1-5,8,9)]
  have contract: "st_contract self1 = st_contract self" using run by (simp add: same_frame_def)
  show ?thesis
    by (rule published_tail_restored [OF conjunct1 [OF run, folded assms(10)] assms(14,15), unfolded contract,
          OF assms(4-7,13,12,11,16-18)])
qed

lemma small_spans_roomy:
  assumes "unat (bk_token_count key) < 3"
  shows "\<not> under_pressure small_host (fst small_spans) key [''staging'']"
proof -
  have store: "st_maximum_size_bytes (fst small_spans) = 500" "disk_bytes (st_disk (fst small_spans)) = 102"
    "mc_has_sequence_state (st_contract (fst small_spans))" "mc_has_boundary_state (st_contract (fst small_spans))"
    by code_simp+
  have "\<exists>n < 3. bk_token_count key = of_nat n" using assms by (intro exI [of _ "unat (bk_token_count key)"]) simp
  then have "bk_token_count key = 0 \<or> bk_token_count key = 1 \<or> bk_token_count key = 2"
    by (auto simp: less_Suc_eq numeral_3_eq_3)
  then show ?thesis
    by (auto simp: under_pressure_def stage_complete_block_def stage_state_file_def small_host_def store checked_add_def or_zero_def)
qed

theorem captured_tail_leaves_last_token_witness:
  "lr_restored_token_count (for_prompt_with_partial_tail_block_recovery small_digest (st_contract (fst small_tail))
     [1, 2, 3, 4, 5, 6, 7, 8] [] (has_kv_block (fst small_tail)) (has_recurrent_snapshot (fst small_tail))) = 7"
proof -
  have contract: "st_contract (empty_store 500) = small_contract" by (simp add: empty_store_def)
  have published: "published_count (snd small_tail) \<noteq> published_count (fst (snd small_spans))" by code_simp
  have entries: "[''staging''] \<notin> set (entry_paths (st_disk (fst small_spans)))" "st_blocks_directory (fst small_spans) = [''blocks'']"
    by code_simp+
  then have staging: "staging_unused small_machine (fst small_spans)"
    by (simp add: staging_unused_def unused_path_def small_machine_def block_directory_def)
  have run: "capture_persistent_prompt_cache_partial_tail_block small_digest small_machine 7 (fst small_spans) (fst (snd small_spans))
      = (fst small_tail, snd small_tail)" by (simp add: small_tail_def)
  have "lr_restored_token_count (for_prompt_with_partial_tail_block_recovery small_digest (st_contract (fst small_tail))
      (er_input_token_ids small_request) (er_block_causal_inputs small_request) (has_kv_block (fst small_tail))
      (has_recurrent_snapshot (fst small_tail))) = length (er_input_token_ids small_request) - 1"
    by (rule captured_tail_leaves_last_token [OF empty_store_wf _ _ _ _ _ _ small_order small_spans_run refl _ _ _
          small_machine_ok staging _ run published])
      (use small_spans_roomy in \<open>simp_all add: contract small_contract_def small_request_def small_machine_ok small_staging small_machine_fields\<close>)
  then show ?thesis by (simp add: small_request_def)
qed

end
