(* ===== verification/Tool_Schema.thy ===== *)
theory Tool_Schema
  imports BTree "HOL-Library.Sublist" "HOL-Library.Char_ord" "HOL-Library.List_Lexorder"
begin

text \<open>
  The arguments of a tool call: \<^verbatim>\<open>crates/model-serving/src/qwen3_5_core/text/tool_schema.rs\<close> and the string
  operations of the standard library that it and the output parser use. A \<^verbatim>\<open>str\<close> is the list of its
  UTF-8 bytes. The JSON library is the record \<open>json_library\<close>: reading, writing and its numbers, of a type of its own;
  a JSON object is a map in the order of its keys.
\<close>

section \<open>Strings\<close>

text \<open>The characters with the property White_Space, in UTF-8.\<close>

definition whitespace_encodings :: "string list" where
  "whitespace_encodings = map (map char_of)
     ([[9], [10], [11], [12], [13], [32], [0xC2, 0x85], [0xC2, 0xA0], [0xE1, 0x9A, 0x80]]
      @ map (\<lambda>b. [0xE2, 0x80, b]) [0x80, 0x81, 0x82, 0x83, 0x84, 0x85, 0x86, 0x87, 0x88, 0x89, 0x8A, 0xA8, 0xA9, 0xAF]
      @ [[0xE2, 0x81, 0x9F], [0xE3, 0x80, 0x80 :: nat]])"

lemma whitespace_encodings_code [code]: "whitespace_encodings =
  [[CHR 0x09], [CHR 0x0A], [CHR 0x0B], [CHR 0x0C], [CHR 0x0D], [CHR 0x20], [CHR 0xC2, CHR 0x85], [CHR 0xC2, CHR 0xA0],
   [CHR 0xE1, CHR 0x9A, CHR 0x80], [CHR 0xE2, CHR 0x80, CHR 0x80], [CHR 0xE2, CHR 0x80, CHR 0x81], [CHR 0xE2, CHR 0x80, CHR 0x82],
   [CHR 0xE2, CHR 0x80, CHR 0x83], [CHR 0xE2, CHR 0x80, CHR 0x84], [CHR 0xE2, CHR 0x80, CHR 0x85], [CHR 0xE2, CHR 0x80, CHR 0x86],
   [CHR 0xE2, CHR 0x80, CHR 0x87], [CHR 0xE2, CHR 0x80, CHR 0x88], [CHR 0xE2, CHR 0x80, CHR 0x89], [CHR 0xE2, CHR 0x80, CHR 0x8A],
   [CHR 0xE2, CHR 0x80, CHR 0xA8], [CHR 0xE2, CHR 0x80, CHR 0xA9], [CHR 0xE2, CHR 0x80, CHR 0xAF], [CHR 0xE2, CHR 0x81, CHR 0x9F],
   [CHR 0xE3, CHR 0x80, CHR 0x80]]"
  by (simp add: whitespace_encodings_def char_of_def bit_numeral_rec bit_0)

text \<open>The bytes of the first character, when it is one of the given ones; zero otherwise.\<close>

definition leading_length :: "string list \<Rightarrow> string \<Rightarrow> nat" where
  "leading_length encodings s = (case find (\<lambda>e. prefix e s) encodings of None \<Rightarrow> 0 | Some e \<Rightarrow> length e)"

function trim_leading :: "string list \<Rightarrow> string \<Rightarrow> string" where
  "trim_leading encodings s =
     (if leading_length encodings s = 0 then s else trim_leading encodings (drop (leading_length encodings s) s))"
  by pat_completeness auto

termination
proof (relation "measure (\<lambda>(encodings, s). length s)")
  fix encodings s
  assume lead: "leading_length encodings s \<noteq> 0"
  then obtain e where "find (\<lambda>e. prefix e s) encodings = Some e" "length e = leading_length encodings s"
    by (auto simp: leading_length_def split: option.splits)
  then have "prefix e s" by (auto simp: find_Some_iff)
  then have "leading_length encodings s \<le> length s" using \<open>length e = leading_length encodings s\<close> by (metis prefix_length_le)
  then show "((encodings, drop (leading_length encodings s) s), encodings, s) \<in> measure (\<lambda>(encodings, s). length s)"
    using lead by simp
qed simp

declare trim_leading.simps [simp del]

definition str_trim_start :: "string \<Rightarrow> string" where
  "str_trim_start s = trim_leading whitespace_encodings s"

definition str_trim_end :: "string \<Rightarrow> string" where
  "str_trim_end s = rev (trim_leading (map rev whitespace_encodings) (rev s))"

definition str_trim_unicode :: "string \<Rightarrow> string" where
  "str_trim_unicode s = str_trim_end (str_trim_start s)"

text \<open>The first position at which a string occurs.\<close>

fun str_find :: "string \<Rightarrow> string \<Rightarrow> nat option" where
  "str_find needle [] = (if needle = [] then Some 0 else None)"
| "str_find needle (c # cs) = (if prefix needle (c # cs) then Some 0 else map_option Suc (str_find needle cs))"

definition strip_prefix :: "string \<Rightarrow> string \<Rightarrow> string option" where
  "strip_prefix p s = (if prefix p s then Some (drop (length p) s) else None)"

definition strip_suffix :: "string \<Rightarrow> string \<Rightarrow> string option" where
  "strip_suffix p s = (if suffix p s then Some (take (length s - length p) s) else None)"

definition or_self :: "string \<Rightarrow> string option \<Rightarrow> string" where
  "or_self s stripped = (case stripped of None \<Rightarrow> s | Some t \<Rightarrow> t)"

text \<open>\<^verbatim>\<open>str::parse::<i64>\<close>: an optional sign, digits, and the range of the type.\<close>

definition decimal_digit :: "char \<Rightarrow> bool" where
  "decimal_digit c \<longleftrightarrow> 48 \<le> (of_char c :: nat) \<and> (of_char c :: nat) \<le> 57"

definition decimal_value :: "string \<Rightarrow> int" where
  "decimal_value ds = foldl (\<lambda>n c. 10 * n + (of_char c - 48)) 0 ds"

definition parse_i64 :: "string \<Rightarrow> int option" where
  "parse_i64 s =
     (let negative = (s \<noteq> [] \<and> hd s = CHR ''-'');
          digits = (if s \<noteq> [] \<and> (hd s = CHR ''-'' \<or> hd s = CHR ''+'') then tl s else s);
          n = (if negative then - decimal_value digits else decimal_value digits)
      in if digits \<noteq> [] \<and> list_all decimal_digit digits \<and> - (2 ^ 63) \<le> n \<and> n < 2 ^ 63 then Some n else None)"

section \<open>JSON\<close>

datatype 'n Value =
  JsonNull | JsonBool bool | JsonNumber 'n | JsonString string
| JsonArray "'n Value list" | JsonObject "(string \<times> 'n Value) list"

type_synonym 'n json_map = "(string, 'n Value) btree_map"

record 'n json_library =
  jl_from_str :: "string \<Rightarrow> 'n Value option"
  jl_to_string :: "'n Value \<Rightarrow> string option"
  jl_number_from_i64 :: "int \<Rightarrow> 'n"
  jl_finite_number :: "string \<Rightarrow> 'n option"

text \<open>The errors of the parser; an error of the JSON library is not carried along.\<close>

datatype Qwen3_5OutputParserError =
  FragmentTooLarge usize usize
| PendingOutputTooLarge usize usize
| DuplicateDeclaredTool string
| InvalidDeclaredToolSchema string
| DeclaredToolSchemaMustBeObject string
| InvalidToolPropertySchema string string
| InvalidToolParameterTypeDeclaration string string
| InvalidToolParameterEnum string string
| ToolParameterSchemaTooDeep string string nat
| InvalidRequiredToolParameters string
| IncompleteControlMarker
| UnclosedReasoning
| ToolCallMissingFunction
| ToolCallMissingFunctionNameEnd
| ToolCallMissingFunctionEnd
| MalformedToolParameter
| ToolParameterMissingNameEnd
| UndeclaredToolParameter string
| ToolParameterMissingEnd
| DuplicateToolParameter string
| MissingRequiredToolParameter string
| InvalidBooleanToolParameter
| InvalidIntegerToolParameter
| InvalidNumberToolParameter
| ToolParameterOutsideEnum
| ToolParameterViolatesDeclaredSchema
| InvalidJsonToolParameter
| WrongJsonToolParameterType
| UnsupportedToolParameterType string
| SerializeToolArguments

definition diagnostic_code :: "Qwen3_5OutputParserError \<Rightarrow> string" where
  "diagnostic_code e =
     (case e of
        FragmentTooLarge _ _ \<Rightarrow> ''fragment_too_large''
      | PendingOutputTooLarge _ _ \<Rightarrow> ''pending_output_too_large''
      | DuplicateDeclaredTool _ \<Rightarrow> ''duplicate_declared_tool''
      | InvalidDeclaredToolSchema _ \<Rightarrow> ''invalid_declared_tool_schema''
      | DeclaredToolSchemaMustBeObject _ \<Rightarrow> ''declared_tool_schema_must_be_object''
      | InvalidToolPropertySchema _ _ \<Rightarrow> ''invalid_tool_property_schema''
      | InvalidToolParameterTypeDeclaration _ _ \<Rightarrow> ''invalid_tool_parameter_type_declaration''
      | InvalidToolParameterEnum _ _ \<Rightarrow> ''invalid_tool_parameter_enum''
      | ToolParameterSchemaTooDeep _ _ _ \<Rightarrow> ''tool_parameter_schema_too_deep''
      | InvalidRequiredToolParameters _ \<Rightarrow> ''invalid_required_tool_parameters''
      | IncompleteControlMarker \<Rightarrow> ''incomplete_control_marker''
      | UnclosedReasoning \<Rightarrow> ''unclosed_reasoning''
      | ToolCallMissingFunction \<Rightarrow> ''tool_call_missing_function''
      | ToolCallMissingFunctionNameEnd \<Rightarrow> ''tool_call_missing_function_name_end''
      | ToolCallMissingFunctionEnd \<Rightarrow> ''tool_call_missing_function_end''
      | MalformedToolParameter \<Rightarrow> ''malformed_tool_parameter''
      | ToolParameterMissingNameEnd \<Rightarrow> ''tool_parameter_missing_name_end''
      | UndeclaredToolParameter _ \<Rightarrow> ''undeclared_tool_parameter''
      | ToolParameterMissingEnd \<Rightarrow> ''tool_parameter_missing_end''
      | DuplicateToolParameter _ \<Rightarrow> ''duplicate_tool_parameter''
      | MissingRequiredToolParameter _ \<Rightarrow> ''missing_required_tool_parameter''
      | InvalidBooleanToolParameter \<Rightarrow> ''invalid_boolean_tool_parameter''
      | InvalidIntegerToolParameter \<Rightarrow> ''invalid_integer_tool_parameter''
      | InvalidNumberToolParameter \<Rightarrow> ''invalid_number_tool_parameter''
      | ToolParameterOutsideEnum \<Rightarrow> ''tool_parameter_outside_enum''
      | ToolParameterViolatesDeclaredSchema \<Rightarrow> ''tool_parameter_violates_declared_schema''
      | InvalidJsonToolParameter \<Rightarrow> ''invalid_json_tool_parameter''
      | WrongJsonToolParameterType \<Rightarrow> ''wrong_json_tool_parameter_type''
      | UnsupportedToolParameterType _ \<Rightarrow> ''unsupported_tool_parameter_type''
      | SerializeToolArguments \<Rightarrow> ''serialize_tool_arguments'')"

section \<open>Declared tools\<close>

definition MAX_TOOL_SCHEMA_DEPTH :: nat where
  "MAX_TOOL_SCHEMA_DEPTH = 8"

record DeclaredParameterSchema =
  ds_parameter_type :: "string option"
  ds_is_nullable :: bool

record DeclaredTool =
  dt_parameter_schemas :: "(string, DeclaredParameterSchema) btree_map"

record ChatToolDefinition =
  td_name :: string
  td_description :: "string option"
  td_parameters_json :: string

datatype FlexibleAnyOfType = Uniform string | Mixed

definition RECOGNIZED_JSON_SCHEMA_KEYWORDS :: "string list" where
  "RECOGNIZED_JSON_SCHEMA_KEYWORDS =
     [''type'', ''description'', ''title'', ''default'', ''minimum'', ''maximum'', ''exclusiveMinimum'',
      ''exclusiveMaximum'', ''minLength'', ''maxLength'', ''pattern'', ''format'', ''minItems'', ''maxItems'',
      ''minProperties'', ''maxProperties'', ''uniqueItems'']"

definition is_recognized_json_schema_keyword :: "string \<Rightarrow> bool" where
  "is_recognized_json_schema_keyword schema_keyword \<longleftrightarrow> schema_keyword \<in> set RECOGNIZED_JSON_SCHEMA_KEYWORDS"

definition COERCION_TYPES :: "string list" where
  "COERCION_TYPES = [''string'', ''boolean'', ''integer'', ''number'', ''array'', ''object'']"

text \<open>The loop over the branches; the option holds the type seen so far.\<close>

fun flexible_branches :: "'n Value list \<Rightarrow> string option \<Rightarrow> FlexibleAnyOfType option" where
  "flexible_branches [] uniform_type = map_option Uniform uniform_type"
| "flexible_branches (branch # branches) uniform_type =
     (case branch of
        JsonObject schema_fields \<Rightarrow>
          (case map_of schema_fields ''type'' of
             Some (JsonString branch_type) \<Rightarrow>
               if branch_type = ''null''
               then (if length schema_fields \<noteq> 1 then None else flexible_branches branches uniform_type)
               else if branch_type \<notin> set COERCION_TYPES then None
               else (case uniform_type of
                       None \<Rightarrow> flexible_branches branches (Some branch_type)
                     | Some seen_type \<Rightarrow>
                         if seen_type = branch_type then flexible_branches branches uniform_type else Some Mixed)
           | _ \<Rightarrow> None)
      | _ \<Rightarrow> None)"

definition parse_flexible_any_of_type :: "'n json_map \<Rightarrow> FlexibleAnyOfType option" where
  "parse_flexible_any_of_type property_schema_fields =
     (case map_of property_schema_fields ''anyOf'' of
        Some (JsonArray any_of_schemas) \<Rightarrow>
          if length any_of_schemas < 2 then None else flexible_branches any_of_schemas None
      | _ \<Rightarrow> None)"

fun nullable_branches :: "'n Value list \<Rightarrow> string option \<Rightarrow> bool \<Rightarrow> (string \<times> bool) option" where
  "nullable_branches [] non_null_type has_null_type =
     (if has_null_type then map_option (\<lambda>t. (t, True)) non_null_type else None)"
| "nullable_branches (branch # branches) non_null_type has_null_type =
     (case branch of
        JsonObject schema_fields \<Rightarrow>
          (case map_of schema_fields ''type'' of
             Some (JsonString parameter_type) \<Rightarrow>
               if parameter_type = ''null''
               then (if length schema_fields \<noteq> 1 then None else nullable_branches branches non_null_type True)
               else if non_null_type = None
               then (if list_ex (\<lambda>(k, _). \<not> is_recognized_json_schema_keyword k) schema_fields then None
                     else nullable_branches branches (Some parameter_type) has_null_type)
               else None
           | _ \<Rightarrow> None)
      | _ \<Rightarrow> None)"

definition parse_nullable_any_of_type :: "'n json_map \<Rightarrow> (string \<times> bool) option" where
  "parse_nullable_any_of_type property_schema_fields =
     (case map_of property_schema_fields ''anyOf'' of
        Some (JsonArray any_of_schemas) \<Rightarrow>
          if length any_of_schemas \<noteq> 2 then None else nullable_branches any_of_schemas None False
      | _ \<Rightarrow> None)"

definition non_null_type :: "'n Value \<Rightarrow> string option" where
  "non_null_type v = (case v of JsonString t \<Rightarrow> if t \<noteq> ''null'' then Some t else None | _ \<Rightarrow> None)"

definition parse_declared_parameter_schema ::
    "string \<Rightarrow> string \<Rightarrow> 'n json_map \<Rightarrow> nat \<Rightarrow> Qwen3_5OutputParserError + DeclaredParameterSchema" where
  "parse_declared_parameter_schema function_name parameter_name property_schema_fields schema_depth =
     (if MAX_TOOL_SCHEMA_DEPTH < schema_depth
      then Inl (ToolParameterSchemaTooDeep function_name parameter_name MAX_TOOL_SCHEMA_DEPTH)
      else map_sum id (\<lambda>(parameter_type, is_nullable).
             \<lparr>ds_parameter_type = parameter_type, ds_is_nullable = is_nullable\<rparr>)
        (case map_of property_schema_fields ''type'' of
           Some (JsonString parameter_type) \<Rightarrow> Inr (Some parameter_type, False)
         | Some (JsonArray parameter_types) \<Rightarrow>
             (case List.map_filter non_null_type parameter_types of
                [] \<Rightarrow> Inl (InvalidToolParameterTypeDeclaration function_name parameter_name)
              | non_null_parameter_type # further \<Rightarrow>
                  if further = [] \<and> length parameter_types = 2
                    \<and> list_ex (\<lambda>t. case t of JsonString s \<Rightarrow> s = ''null'' | _ \<Rightarrow> False) parameter_types
                  then Inr (Some non_null_parameter_type, True)
                  else Inl (InvalidToolParameterTypeDeclaration function_name parameter_name))
         | Some _ \<Rightarrow> Inl (InvalidToolParameterTypeDeclaration function_name parameter_name)
         | None \<Rightarrow>
             (case parse_nullable_any_of_type property_schema_fields of
                Some (parameter_type, is_nullable) \<Rightarrow> Inr (Some parameter_type, is_nullable)
              | None \<Rightarrow>
                  (case parse_flexible_any_of_type property_schema_fields of
                     Some (Uniform parameter_type) \<Rightarrow> Inr (Some parameter_type, False)
                   | Some Mixed \<Rightarrow> Inr (None, False)
                   | None \<Rightarrow> Inr (None, False)))))"

definition parse_parameter_schemas ::
    "string \<Rightarrow> 'n json_map \<Rightarrow> nat \<Rightarrow> Qwen3_5OutputParserError + (string, DeclaredParameterSchema) btree_map" where
  "parse_parameter_schemas function_name schema_fields parent_schema_depth =
     (case map_of schema_fields ''properties'' of
        Some (JsonObject property_schemas) \<Rightarrow>
          try_fold (\<lambda>parameter_schemas (parameter_name, property_schema).
             if MAX_TOOL_SCHEMA_DEPTH < parent_schema_depth + 1
             then Inl (ToolParameterSchemaTooDeep function_name parameter_name MAX_TOOL_SCHEMA_DEPTH)
             else (case property_schema of
                     JsonObject property_schema_fields \<Rightarrow>
                       map_sum id (\<lambda>schema. bt_insert parameter_name schema parameter_schemas)
                         (parse_declared_parameter_schema function_name parameter_name property_schema_fields
                            (parent_schema_depth + 1))
                   | _ \<Rightarrow> Inl (InvalidToolPropertySchema function_name parameter_name)))
            [] property_schemas
      | _ \<Rightarrow> Inr [])"

definition from_definition :: "'n json_library \<Rightarrow> ChatToolDefinition \<Rightarrow> Qwen3_5OutputParserError + DeclaredTool" where
  "from_definition json tool_definition =
     (case jl_from_str json (td_parameters_json tool_definition) of
        None \<Rightarrow> Inl (InvalidDeclaredToolSchema (td_name tool_definition))
      | Some (JsonObject schema_fields) \<Rightarrow>
          map_sum id (\<lambda>schemas. \<lparr>dt_parameter_schemas = schemas\<rparr>)
            (parse_parameter_schemas (td_name tool_definition) schema_fields 0)
      | Some _ \<Rightarrow> Inl (DeclaredToolSchemaMustBeObject (td_name tool_definition)))"

section \<open>Values\<close>

definition parse_untyped_parameter_value :: "'n json_library \<Rightarrow> string \<Rightarrow> 'n Value" where
  "parse_untyped_parameter_value json parameter_value =
     (case jl_from_str json parameter_value of
        None \<Rightarrow> JsonString parameter_value
      | Some (JsonString _) \<Rightarrow> JsonString parameter_value
      | Some json_value \<Rightarrow> json_value)"

definition parse_parameter_value :: "'n json_library \<Rightarrow> string \<Rightarrow> DeclaredParameterSchema \<Rightarrow> 'n Value" where
  "parse_parameter_value json parameter_value parameter_schema =
     (if ds_is_nullable parameter_schema \<and> parameter_value = ''null'' then JsonNull
      else case ds_parameter_type parameter_schema of
             None \<Rightarrow> parse_untyped_parameter_value json parameter_value
           | Some parameter_type \<Rightarrow>
               if parameter_type = ''string'' then JsonString parameter_value
               else if parameter_type = ''boolean''
               then (if parameter_value = ''true'' then JsonBool True
                     else if parameter_value = ''false'' then JsonBool False
                     else JsonString parameter_value)
               else if parameter_type = ''integer''
               then (case parse_i64 parameter_value of
                       Some i \<Rightarrow> JsonNumber (jl_number_from_i64 json i) | None \<Rightarrow> JsonString parameter_value)
               else if parameter_type = ''number''
               then (case jl_finite_number json parameter_value of
                       Some x \<Rightarrow> JsonNumber x | None \<Rightarrow> JsonString parameter_value)
               else if parameter_type = ''array'' \<or> parameter_type = ''object''
               then (case jl_from_str json parameter_value of
                       Some (JsonArray xs) \<Rightarrow>
                         if parameter_type = ''array'' then JsonArray xs else JsonString parameter_value
                     | Some (JsonObject members) \<Rightarrow>
                         if parameter_type = ''object'' then JsonObject members else JsonString parameter_value
                     | _ \<Rightarrow> JsonString parameter_value)
               else JsonString parameter_value)"

definition trim_one_boundary_newline :: "string \<Rightarrow> string" where
  "trim_one_boundary_newline parameter_value =
     (let without_first = or_self parameter_value (strip_prefix [CHR 0x0A] parameter_value)
      in or_self without_first (strip_suffix [CHR 0x0A] without_first))"

section \<open>Parameters\<close>

definition PARAMETER_END :: string where
  "PARAMETER_END = ''</parameter>''"

definition strip_qwen_parameter_open :: "string \<Rightarrow> string option" where
  "strip_qwen_parameter_open parameter_content =
     (case strip_prefix ''<parameter='' parameter_content of
        Some rest \<Rightarrow> Some rest
      | None \<Rightarrow> strip_prefix ''parameter='' parameter_content)"

definition next_parameter_open_offset :: "string \<Rightarrow> nat option" where
  "next_parameter_open_offset parameter_content =
     (case (str_find ''<parameter='' parameter_content, str_find ''parameter='' parameter_content) of
        (Some canonical, Some salvaged) \<Rightarrow> Some (if salvaged = canonical + 1 then canonical else min canonical salvaged)
      | (Some canonical, None) \<Rightarrow> Some canonical
      | (None, Some salvaged) \<Rightarrow> Some salvaged
      | (None, None) \<Rightarrow> None)"

definition skip_unclosed_parameter_name :: "string \<Rightarrow> string" where
  "skip_unclosed_parameter_name parameter_with_name =
     (case str_find PARAMETER_END parameter_with_name of
        Some parameter_end \<Rightarrow> drop (parameter_end + length PARAMETER_END) parameter_with_name
      | None \<Rightarrow>
          (case next_parameter_open_offset parameter_with_name of
             Some next_parameter_offset \<Rightarrow>
               if 0 < next_parameter_offset then drop next_parameter_offset parameter_with_name else []
           | None \<Rightarrow> []))"

definition split_parameter_value :: "string \<Rightarrow> string \<times> string" where
  "split_parameter_value parameter_with_value =
     (case str_find PARAMETER_END parameter_with_value of
        Some parameter_end \<Rightarrow>
          (trim_one_boundary_newline (take parameter_end parameter_with_value),
           drop (parameter_end + length PARAMETER_END) parameter_with_value)
      | None \<Rightarrow> (trim_one_boundary_newline parameter_with_value, []))"

definition declared_parameter_value :: "'n json_library \<Rightarrow> DeclaredTool option \<Rightarrow> string \<Rightarrow> string \<Rightarrow> 'n Value" where
  "declared_parameter_value json declared_tool parameter_name parameter_value =
     (case Option.bind declared_tool (\<lambda>tool. map_of (dt_parameter_schemas tool) parameter_name) of
        Some parameter_schema \<Rightarrow> parse_parameter_value json parameter_value parameter_schema
      | None \<Rightarrow> parse_untyped_parameter_value json parameter_value)"

text \<open>One turn of the loop: the rest and the new argument, or nothing when the loop is left.\<close>

definition parameter_step ::
    "'n json_library \<Rightarrow> DeclaredTool option \<Rightarrow> string \<Rightarrow> 'n json_map \<Rightarrow> (string \<times> 'n json_map) option" where
  "parameter_step json declared_tool remaining_parameters parsed_arguments =
     (if remaining_parameters = [] then None
      else let remaining = str_trim_unicode remaining_parameters
           in case strip_qwen_parameter_open remaining of
                None \<Rightarrow>
                  map_option (\<lambda>parameter_open_offset. (drop parameter_open_offset remaining, parsed_arguments))
                    (next_parameter_open_offset remaining)
              | Some parameter_with_name \<Rightarrow>
                  (case str_find ''>'' parameter_with_name of
                     None \<Rightarrow> Some (skip_unclosed_parameter_name parameter_with_name, parsed_arguments)
                   | Some parameter_name_end \<Rightarrow>
                       let parameter_name = str_trim_unicode (take parameter_name_end parameter_with_name);
                           parameter_with_value = drop (parameter_name_end + 1) parameter_with_name
                       in if parameter_name = [] then Some (parameter_with_value, parsed_arguments)
                          else case split_parameter_value parameter_with_value of
                                 (parameter_value, after_parameter) \<Rightarrow>
                                   Some (str_trim_unicode after_parameter,
                                     bt_insert parameter_name
                                       (declared_parameter_value json declared_tool parameter_name parameter_value)
                                       parsed_arguments)))"

text \<open>Every turn makes the rest shorter.\<close>

lemma str_find_Some:
  "str_find needle s = Some i \<Longrightarrow> i + length needle \<le> length s \<and> prefix needle (drop i s)"
proof (induction s arbitrary: i)
  case (Cons c cs)
  show ?case
  proof (cases "prefix needle (c # cs)")
    case True
    then show ?thesis using Cons.prems prefix_length_le [of needle "c # cs"] by simp
  next
    case False
    then show ?thesis using Cons by auto
  qed
qed (simp split: if_splits)

lemma trim_leading_suffix: "\<exists>front. s = front @ trim_leading encodings s"
proof (induction encodings s rule: trim_leading.induct)
  case (1 encodings s)
  show ?case
  proof (cases "leading_length encodings s = 0")
    case True
    then show ?thesis by (subst trim_leading.simps) simp
  next
    case False
    obtain front where "drop (leading_length encodings s) s
        = front @ trim_leading encodings (drop (leading_length encodings s) s)" using 1 [OF False] by blast
    then have "s = (take (leading_length encodings s) s @ front) @ trim_leading encodings (drop (leading_length encodings s) s)"
      by (metis append.assoc append_take_drop_id)
    then show ?thesis using False trim_leading.simps [of encodings s] by metis
  qed
qed

lemma trim_length: "length (str_trim_unicode s) \<le> length s"
proof -
  have "length (trim_leading encodings t) \<le> length t" for encodings t
    using trim_leading_suffix [of t encodings] by (metis le_add2 length_append)
  then show ?thesis unfolding str_trim_unicode_def str_trim_end_def str_trim_start_def length_rev
    by (metis length_rev order.trans)
qed

lemma strip_prefix_length: "strip_prefix p s = Some t \<Longrightarrow> length t + length p = length s"
  by (auto simp: strip_prefix_def prefix_def split: if_splits)

lemma open_offset_positive:
  assumes "strip_qwen_parameter_open s = None" "next_parameter_open_offset s = Some i"
  shows "0 < i"
proof (rule ccontr)
  assume "\<not> 0 < i"
  then have "str_find ''<parameter='' s = Some 0 \<or> str_find ''parameter='' s = Some 0"
    using assms(2) by (auto simp: next_parameter_open_offset_def min_def split: option.splits if_splits)
  then have "prefix ''<parameter='' s \<or> prefix ''parameter='' s" using str_find_Some [of _ s 0] by auto
  then show False using assms(1) by (auto simp: strip_qwen_parameter_open_def strip_prefix_def split: if_splits)
qed

lemma parameter_step_shorter:
  assumes "parameter_step json declared_tool remaining parsed = Some (rest, parsed')"
  shows "length rest < length remaining"
proof -
  let ?s = "str_trim_unicode remaining"
  have trimmed: "length ?s \<le> length remaining" by (rule trim_length)
  show ?thesis
  proof (cases "strip_qwen_parameter_open ?s")
    case None
    then obtain i where i: "next_parameter_open_offset ?s = Some i" "rest = drop i ?s"
      using assms by (auto simp: parameter_step_def Let_def split: if_splits)
    have "0 < i" by (rule open_offset_positive [OF None i(1)])
    moreover have "?s \<noteq> []" using i(1) by (auto simp: next_parameter_open_offset_def)
    ultimately have "length rest < length ?s" using i(2) by simp
    then show ?thesis using trimmed by linarith
  next
    case (Some named)
    then have "length named < length ?s"
      by (auto simp: strip_qwen_parameter_open_def dest!: strip_prefix_length split: option.splits)
    moreover have "length (skip_unclosed_parameter_name named) \<le> length named"
      by (auto simp: skip_unclosed_parameter_name_def split: option.splits)
    moreover have "length (snd (split_parameter_value t)) \<le> length t" for t
      by (auto simp: split_parameter_value_def split: option.splits)
    then have "length (str_trim_unicode (snd (split_parameter_value (drop n named)))) \<le> length named" for n
      using trim_length [of "snd (split_parameter_value (drop n named))"] by (metis diff_le_self length_drop order.trans)
    then have "length rest \<le> length named" if "str_find ''>'' named = Some e" for e
      using assms Some that by (auto simp: parameter_step_def Let_def split: if_splits prod.splits) (metis snd_conv)
    ultimately show ?thesis using assms Some trimmed
      by (cases "str_find ''>'' named") (auto simp: parameter_step_def Let_def split: if_splits)
  qed
qed

function parameter_loop :: "'n json_library \<Rightarrow> DeclaredTool option \<Rightarrow> string \<Rightarrow> 'n json_map \<Rightarrow> 'n json_map" where
  "parameter_loop json declared_tool remaining_parameters parsed_arguments =
     (case parameter_step json declared_tool remaining_parameters parsed_arguments of
        None \<Rightarrow> parsed_arguments
      | Some (rest, parsed_arguments') \<Rightarrow> parameter_loop json declared_tool rest parsed_arguments')"
  by pat_completeness auto

termination
  by (relation "measure (\<lambda>(json, declared_tool, remaining, parsed). length remaining)")
    (auto dest: parameter_step_shorter)

declare parameter_loop.simps [simp del]

text \<open>The code never reports an error here.\<close>

definition parse_tool_parameters ::
    "'n json_library \<Rightarrow> string \<Rightarrow> DeclaredTool option \<Rightarrow> Qwen3_5OutputParserError + 'n json_map" where
  "parse_tool_parameters json parameter_content declared_tool =
     Inr (parameter_loop json declared_tool (str_trim_unicode parameter_content) [])"

end
