(* ===== verification/Output_Parser.thy ===== *)
theory Output_Parser
  imports Tool_Schema
begin

text \<open>
  The incremental parser of model output, under \<^verbatim>\<open>crates/model-serving/src/qwen3_5_core/text\<close>:
  \<^verbatim>\<open>output_parser.rs\<close>, \<^verbatim>\<open>output_parser/state.rs\<close>, \<^verbatim>\<open>output_parser/foreign_syntax.rs\<close> and
  \<^verbatim>\<open>output_parser/salvage.rs\<close>, without its log lines. The fallible steps of the code never report an error, so
  they have no error branch here.
\<close>

section \<open>Markers and states\<close>

type_synonym u16 = "16 word"

definition MAX_OUTPUT_FRAGMENT_BYTES :: usize where
  "MAX_OUTPUT_FRAGMENT_BYTES = 16 * 1024"

definition MAX_MARKER_SCAN_PENDING_OUTPUT_BYTES :: usize where
  "MAX_MARKER_SCAN_PENDING_OUTPUT_BYTES = 128 * 1024"

definition THINK_END_MARKER :: string where "THINK_END_MARKER = ''</think>''"
definition THINK_START_MARKER :: string where "THINK_START_MARKER = ''<think>''"
definition TOOL_CALL_END_MARKER :: string where "TOOL_CALL_END_MARKER = ''</tool_call>''"
definition TOOL_CALL_START_MARKER :: string where "TOOL_CALL_START_MARKER = ''<tool_call>''"
definition BARE_FUNCTION_START_MARKER :: string where "BARE_FUNCTION_START_MARKER = ''<function=''"
definition FUNCTION_END_MARKER :: string where "FUNCTION_END_MARKER = ''</function>''"
definition INVOKE_START_MARKER :: string where "INVOKE_START_MARKER = ''<invoke''"
definition INVOKE_END_MARKER :: string where "INVOKE_END_MARKER = ''</invoke>''"

definition TEXT_STATE_START_MARKERS :: "string list" where
  "TEXT_STATE_START_MARKERS =
     [THINK_START_MARKER, TOOL_CALL_START_MARKER, BARE_FUNCTION_START_MARKER, INVOKE_START_MARKER]"

definition REASONING_SCAN_MARKERS :: "string list" where
  "REASONING_SCAN_MARKERS =
     [THINK_END_MARKER, TOOL_CALL_START_MARKER, BARE_FUNCTION_START_MARKER, INVOKE_START_MARKER]"

datatype ToolCallEntryKind = Envelope | BareFunction | InvokeTag

record ToolCallEntry =
  te_kind :: ToolCallEntryKind
  te_opener :: string
  te_opened_in_reasoning :: bool

datatype Qwen3_5OutputParserState = InText | InReasoning | InToolCall ToolCallEntry | SuppressedLateReasoning

record Qwen3_5ToolCall =
  tc_index :: u16
  tc_function_name :: string
  tc_arguments_json :: string

datatype Qwen3_5OutputEvent =
  ReasoningDelta string | TextDelta string | ToolCallEvent Qwen3_5ToolCall | ModelVisibleCorrection string

record Qwen3_5OutputParser =
  op_completed_tool_call_count :: u16
  op_declared_tools :: "(string, DeclaredTool) btree_map"
  op_has_streamed_visible_text :: bool
  op_pending_output :: string
  op_state :: Qwen3_5OutputParserState

definition state_as_str :: "Qwen3_5OutputParserState \<Rightarrow> string" where
  "state_as_str state =
     (case state of
        InText \<Rightarrow> ''text'' | InReasoning \<Rightarrow> ''reasoning'' | InToolCall _ \<Rightarrow> ''tool_call''
      | SuppressedLateReasoning \<Rightarrow> ''suppressed_late_reasoning'')"

definition is_tool_call :: "Qwen3_5OutputParserState \<Rightarrow> bool" where
  "is_tool_call state \<longleftrightarrow> (case state of InToolCall _ \<Rightarrow> True | _ \<Rightarrow> False)"

definition requires_marker_scan_pending_output_cap :: "Qwen3_5OutputParserState \<Rightarrow> bool" where
  "requires_marker_scan_pending_output_cap state \<longleftrightarrow>
     (case state of InText \<Rightarrow> True | InReasoning \<Rightarrow> True | SuppressedLateReasoning \<Rightarrow> True | InToolCall _ \<Rightarrow> False)"

section \<open>Scanning\<close>

definition strip_qwen_function_open :: "string \<Rightarrow> string option" where
  "strip_qwen_function_open tool_call_body =
     (case strip_prefix BARE_FUNCTION_START_MARKER tool_call_body of
        Some rest \<Rightarrow> Some rest
      | None \<Rightarrow> strip_prefix ''function='' tool_call_body)"

fun function_name_end :: "string \<Rightarrow> nat" where
  "function_name_end [] = 0"
| "function_name_end (c # cs) =
     (if c = CHR ''>'' \<or> c = CHR ''<'' \<or> leading_length whitespace_encodings (c # cs) \<noteq> 0 then 0
      else Suc (function_name_end cs))"

definition split_qwen_function_envelope :: "string \<Rightarrow> Qwen3_5OutputParserError + (string \<times> string)" where
  "split_qwen_function_envelope tool_call_body =
     (case strip_qwen_function_open tool_call_body of
        None \<Rightarrow> Inl ToolCallMissingFunction
      | Some after_function_open \<Rightarrow>
          (let name_end = function_name_end after_function_open;
               function_name = str_trim_unicode (take name_end after_function_open)
           in if function_name = [] then Inl ToolCallMissingFunction
              else let after_function_name =
                         str_trim_unicode (dropWhile (\<lambda>c. c = CHR ''>'') (drop name_end after_function_open))
                   in Inr (function_name,
                        str_trim_unicode (or_self after_function_name (strip_suffix FUNCTION_END_MARKER after_function_name)))))"

definition earliest_marker :: "string \<Rightarrow> string list \<Rightarrow> (nat \<times> string) option" where
  "earliest_marker text_bytes markers =
     (case List.map_filter (\<lambda>marker. map_option (\<lambda>marker_index. (marker_index, marker)) (str_find marker text_bytes)) markers of
        [] \<Rightarrow> None
      | found # others \<Rightarrow> Some (foldl (\<lambda>best other. if fst other < fst best then other else best) found others))"

definition is_char_boundary :: "string \<Rightarrow> nat \<Rightarrow> bool" where
  "is_char_boundary s i \<longleftrightarrow> i = length s \<or> i < length s \<and> \<not> (128 \<le> (of_char (s ! i) :: nat) \<and> (of_char (s ! i) :: nat) < 192)"

definition longest_suffix_prefix_for_markers :: "string \<Rightarrow> string list \<Rightarrow> nat" where
  "longest_suffix_prefix_for_markers text_bytes markers =
     (let maximum_prefix_bytes = min (foldr max (map (\<lambda>marker. length marker - 1) markers) 0) (length text_bytes)
      in case find (\<lambda>suffix_bytes. is_char_boundary text_bytes (length text_bytes - suffix_bytes)
                \<and> list_ex (prefix (drop (length text_bytes - suffix_bytes) text_bytes)) markers)
              (rev [1..<Suc maximum_prefix_bytes]) of
           None \<Rightarrow> 0 | Some suffix_bytes \<Rightarrow> suffix_bytes)"

section \<open>Foreign syntax\<close>

definition strip_invoke_open :: "string \<Rightarrow> string option" where
  "strip_invoke_open trimmed_body =
     (case strip_prefix ''<invoke'' trimmed_body of Some rest \<Rightarrow> Some rest | None \<Rightarrow> strip_prefix ''invoke'' trimmed_body)"

definition extract_named_attribute_value :: "string \<Rightarrow> (string \<times> string) option" where
  "extract_named_attribute_value after_name_keyword =
     (case after_name_keyword of
        [] \<Rightarrow> None
      | quote # rest \<Rightarrow>
          if quote = CHR 0x22 \<or> quote = CHR 0x27
          then map_option (\<lambda>name_end. (take name_end rest,
                 or_self (drop (name_end + 1) rest) (strip_prefix ''>'' (drop (name_end + 1) rest))))
               (str_find [quote] rest)
          else None)"

definition extract_named_attribute :: "string \<Rightarrow> (string \<times> string) option" where
  "extract_named_attribute after_tag_name =
     Option.bind (str_find ''name='' after_tag_name)
       (\<lambda>offset. extract_named_attribute_value (drop (offset + length ''name='') after_tag_name))"

definition normalize_invoke_function_open :: "string \<Rightarrow> string" where
  "normalize_invoke_function_open tool_call_body =
     (let leading_whitespace_bytes = length tool_call_body - length (str_trim_start tool_call_body)
      in case Option.bind (strip_invoke_open (drop leading_whitespace_bytes tool_call_body)) extract_named_attribute of
           None \<Rightarrow> tool_call_body
         | Some (function_name, after_opening_tag) \<Rightarrow>
             if function_name = [] then tool_call_body
             else take leading_whitespace_bytes tool_call_body @ ''<function='' @ function_name @ ''>'' @ after_opening_tag)"

text \<open>The search starts behind the occurrences that are no attribute; the first argument is where.\<close>

function next_attribute_parameter_open_offset :: "nat \<Rightarrow> string \<Rightarrow> nat option" where
  "next_attribute_parameter_open_offset search_from remaining =
     (if search_from < length remaining
      then case str_find ''parameter'' (drop search_from remaining) of
             None \<Rightarrow> None
           | Some relative \<Rightarrow>
               (let absolute = search_from + relative;
                    has_opening_bracket = (0 < absolute \<and> remaining ! (absolute - 1) = CHR ''<'');
                    marker_start = (if has_opening_bracket then absolute - 1 else absolute);
                    after_marker = drop (absolute + length ''parameter'') remaining
                in if prefix ''name='' (str_trim_start after_marker) then Some marker_start
                   else next_attribute_parameter_open_offset (absolute + 1) remaining)
      else None)"
  by pat_completeness auto

termination
  by (relation "measure (\<lambda>(search_from, remaining). length remaining - search_from)") auto

declare next_attribute_parameter_open_offset.simps [simp del]

definition consume_attribute_parameter_open :: "string \<Rightarrow> (string \<times> string) option" where
  "consume_attribute_parameter_open after_open =
     Option.bind (strip_prefix ''parameter'' (or_self after_open (strip_prefix ''<'' after_open)))
       (\<lambda>after_parameter. Option.bind (strip_prefix ''name='' (str_trim_start after_parameter)) extract_named_attribute_value)"

lemma or_self_length: "length (or_self s (strip_prefix p s)) \<le> length s"
  by (auto simp: or_self_def strip_prefix_def split: if_splits)

lemma trim_start_length: "length (str_trim_start s) \<le> length s"
  using trim_leading_suffix [of s whitespace_encodings] unfolding str_trim_start_def by (metis le_add2 length_append)

lemma attribute_value_shorter: "extract_named_attribute_value s = Some (name, rest) \<Longrightarrow> length rest < length s"
  by (auto simp: extract_named_attribute_value_def less_Suc_eq_le split: list.splits if_splits
      intro: order.trans [OF or_self_length])

lemma consume_shorter:
  assumes "consume_attribute_parameter_open s = Some (name, rest)"
  shows "length rest < length s"
proof -
  obtain t u where t: "strip_prefix ''parameter'' (or_self s (strip_prefix ''<'' s)) = Some t"
    and u: "strip_prefix ''name='' (str_trim_start t) = Some u" "extract_named_attribute_value u = Some (name, rest)"
    using assms by (auto simp: consume_attribute_parameter_open_def bind_eq_Some_conv)
  show ?thesis
    using attribute_value_shorter [OF u(2)] strip_prefix_length [OF u(1)] trim_start_length [of t] strip_prefix_length [OF t]
      or_self_length [of s "''<''"] by simp
qed

lemma open_offset_inside: "next_attribute_parameter_open_offset n s = Some i \<Longrightarrow> i < length s"
proof (induction n s rule: next_attribute_parameter_open_offset.induct)
  case (1 n s)
  then obtain r where n: "n < length s" and r: "str_find ''parameter'' (drop n s) = Some r"
    by (subst (asm) (2) next_attribute_parameter_open_offset.simps) (auto split: if_splits option.splits)
  have inside: "n + r < length s" using str_find_Some [OF r] n by simp linarith
  show ?case
  proof (cases "prefix ''name='' (str_trim_start (drop (n + r + length ''parameter'') s))")
    case True
    then show ?thesis using 1(2) n r inside
      by (subst (asm) next_attribute_parameter_open_offset.simps) (auto simp: Let_def split: if_splits)
  next
    case False
    then have "next_attribute_parameter_open_offset (n + r + 1) s = Some i"
      using 1(2) n r by (subst (asm) next_attribute_parameter_open_offset.simps) (auto simp: Let_def)
    then show ?thesis using 1(1) [OF n r refl refl refl refl] False by auto
  qed
qed

function rewrite_attribute_parameter_opens :: "string \<Rightarrow> string" where
  "rewrite_attribute_parameter_opens remaining =
     (case next_attribute_parameter_open_offset 0 remaining of
        None \<Rightarrow> remaining
      | Some parameter_open_offset \<Rightarrow>
          (case consume_attribute_parameter_open (drop parameter_open_offset remaining) of
             Some (parameter_name, after_opening_tag) \<Rightarrow>
               take parameter_open_offset remaining @ ''<parameter='' @ parameter_name @ ''>''
               @ rewrite_attribute_parameter_opens after_opening_tag
           | None \<Rightarrow>
               take (parameter_open_offset + 1) remaining
               @ rewrite_attribute_parameter_opens (drop (parameter_open_offset + 1) remaining)))"
  by pat_completeness auto

termination
  by (relation "measure length") (auto dest: open_offset_inside consume_shorter)

declare rewrite_attribute_parameter_opens.simps [simp del]

definition normalize_foreign_tool_call_syntax :: "string \<Rightarrow> string" where
  "normalize_foreign_tool_call_syntax tool_call_body =
     rewrite_attribute_parameter_opens (normalize_invoke_function_open tool_call_body)"

section \<open>Tool calls\<close>

definition drop_pending_prefix :: "nat \<Rightarrow> Qwen3_5OutputParser \<Rightarrow> Qwen3_5OutputParser" where
  "drop_pending_prefix byte_count self = self\<lparr>op_pending_output := drop byte_count (op_pending_output self)\<rparr>"

definition reconstruct_tool_call_body :: "ToolCallEntryKind \<Rightarrow> string \<Rightarrow> string" where
  "reconstruct_tool_call_body entry remaining_body =
     (case entry of
        Envelope \<Rightarrow> remaining_body
      | BareFunction \<Rightarrow> BARE_FUNCTION_START_MARKER @ remaining_body
      | InvokeTag \<Rightarrow> INVOKE_START_MARKER @ remaining_body)"

definition tool_call_end_markers :: "ToolCallEntryKind \<Rightarrow> string list" where
  "tool_call_end_markers entry =
     (case entry of
        Envelope \<Rightarrow> [TOOL_CALL_END_MARKER]
      | _ \<Rightarrow> [TOOL_CALL_END_MARKER, FUNCTION_END_MARKER, INVOKE_END_MARKER])"

definition parse_tool_call ::
    "'n json_library \<Rightarrow> Qwen3_5OutputParser \<Rightarrow> string \<Rightarrow> Qwen3_5OutputParserError + Qwen3_5ToolCall" where
  "parse_tool_call json self tool_call_body =
     result_bind (split_qwen_function_envelope (str_trim_unicode (normalize_foreign_tool_call_syntax tool_call_body)))
       (\<lambda>(function_name, parameter_content).
          result_bind (parse_tool_parameters json parameter_content (map_of (op_declared_tools self) function_name))
            (\<lambda>parsed_arguments.
               result_bind (ok_or (jl_to_string json (JsonObject parsed_arguments)) SerializeToolArguments)
                 (\<lambda>arguments_json.
                    Inr \<lparr>tc_index = op_completed_tool_call_count self, tc_function_name = function_name,
                         tc_arguments_json = arguments_json\<rparr>)))"

definition fail_open_closed_tool_call ::
    "'n json_library \<Rightarrow> Qwen3_5OutputParser \<Rightarrow> string \<Rightarrow> Qwen3_5OutputEvent option" where
  "fail_open_closed_tool_call json self tool_call_body =
     (case split_qwen_function_envelope (str_trim_unicode (normalize_foreign_tool_call_syntax tool_call_body)) of
        Inl _ \<Rightarrow> if tool_call_body = [] then None else Some (TextDelta tool_call_body)
      | Inr (function_name, parameter_content) \<Rightarrow>
          (let parsed_arguments = (case parse_tool_parameters json parameter_content None of Inl _ \<Rightarrow> [] | Inr parsed \<Rightarrow> parsed);
               arguments_json = (case jl_to_string json (JsonObject parsed_arguments) of None \<Rightarrow> ''{}'' | Some written \<Rightarrow> written)
           in Some (ToolCallEvent \<lparr>tc_index = op_completed_tool_call_count self, tc_function_name = function_name,
                tc_arguments_json = arguments_json\<rparr>)))"

definition try_record_completed_tool_call :: "Qwen3_5OutputParser \<Rightarrow> Qwen3_5OutputParser \<times> bool" where
  "try_record_completed_tool_call self =
     (case checked_add (op_completed_tool_call_count self) 1 of
        None \<Rightarrow> (self, False)
      | Some next_count \<Rightarrow> (self\<lparr>op_completed_tool_call_count := next_count\<rparr>, True))"

definition emit_tool_call_or_visible_text ::
    "Qwen3_5OutputEvent \<Rightarrow> string \<Rightarrow> Qwen3_5OutputParser \<Rightarrow> Qwen3_5OutputParser \<times> Qwen3_5OutputEvent" where
  "emit_tool_call_or_visible_text salvaged_event tool_call_body self =
     (case salvaged_event of
        ToolCallEvent _ \<Rightarrow>
          (case try_record_completed_tool_call self of
             (self', recorded) \<Rightarrow> (self', if recorded then salvaged_event else TextDelta tool_call_body))
      | other_event \<Rightarrow> (self, other_event))"

definition salvage_unclosed_tool_call ::
    "'n json_library \<Rightarrow> Qwen3_5OutputParser \<Rightarrow> Qwen3_5OutputParser \<times> Qwen3_5OutputEvent list" where
  "salvage_unclosed_tool_call json self =
     (let entry = (case op_state self of InToolCall entry \<Rightarrow> te_kind entry | _ \<Rightarrow> Envelope);
          remaining_body = op_pending_output self;
          self1 = self\<lparr>op_pending_output := [], op_state := InText\<rparr>;
          tool_call_body = reconstruct_tool_call_body entry remaining_body
      in case fail_open_closed_tool_call json self1 tool_call_body of
           Some salvaged_event \<Rightarrow>
             (case emit_tool_call_or_visible_text salvaged_event tool_call_body self1 of (self2, event) \<Rightarrow> (self2, [event]))
         | None \<Rightarrow> (self1, []))"

definition enter_state_after_start_marker :: "string \<Rightarrow> bool \<Rightarrow> Qwen3_5OutputParser \<Rightarrow> Qwen3_5OutputParser" where
  "enter_state_after_start_marker marker opened_in_reasoning self =
     (let entered = (\<lambda>kind opener. InToolCall \<lparr>te_kind = kind, te_opener = opener, te_opened_in_reasoning = opened_in_reasoning\<rparr>)
      in self\<lparr>op_state :=
           (if marker = THINK_START_MARKER
            then (if op_has_streamed_visible_text self then SuppressedLateReasoning else InReasoning)
            else if marker = TOOL_CALL_START_MARKER then entered Envelope TOOL_CALL_START_MARKER
            else if marker = BARE_FUNCTION_START_MARKER then entered BareFunction BARE_FUNCTION_START_MARKER
            else if marker = INVOKE_START_MARKER then entered InvokeTag INVOKE_START_MARKER
            else InText)\<rparr>)"

definition consume_trailing_envelope_close_if_present :: "Qwen3_5OutputParser \<Rightarrow> Qwen3_5OutputParser" where
  "consume_trailing_envelope_close_if_present self =
     (case strip_prefix TOOL_CALL_END_MARKER (str_trim_start (op_pending_output self)) of
        None \<Rightarrow> self
      | Some after_marker \<Rightarrow> drop_pending_prefix (length (op_pending_output self) - length after_marker) self)"

text \<open>A think close inside the body: the opener and the text so far go back to the channel of the opener.\<close>

definition resync_spurious_tool_call ::
    "ToolCallEntry \<Rightarrow> nat \<Rightarrow> Qwen3_5OutputParser \<Rightarrow> Qwen3_5OutputParser \<times> Qwen3_5OutputEvent list" where
  "resync_spurious_tool_call entry think_close_index self =
     (let restored_prose = te_opener entry @ take think_close_index (op_pending_output self);
          self1 = (drop_pending_prefix (think_close_index + length THINK_END_MARKER) self)\<lparr>op_state := InText\<rparr>
      in if te_opened_in_reasoning entry then (self1, [ReasoningDelta restored_prose])
         else (self1\<lparr>op_has_streamed_visible_text := True\<rparr>, [TextDelta restored_prose]))"

section \<open>Steps\<close>

text \<open>No step: nothing can be said about the pending text yet.\<close>

definition advance_text :: "Qwen3_5OutputParser \<Rightarrow> (Qwen3_5OutputParser \<times> Qwen3_5OutputEvent list) option" where
  "advance_text self =
     (case earliest_marker (op_pending_output self) TEXT_STATE_START_MARKERS of
        Some (marker_index, marker) \<Rightarrow>
          if 0 < marker_index
          then Some ((drop_pending_prefix marker_index self)\<lparr>op_has_streamed_visible_text := True\<rparr>,
                     [TextDelta (take marker_index (op_pending_output self))])
          else Some (enter_state_after_start_marker marker False (drop_pending_prefix (length marker) self), [])
      | None \<Rightarrow>
          (let stable_text_bytes = length (op_pending_output self)
                 - longest_suffix_prefix_for_markers (op_pending_output self) TEXT_STATE_START_MARKERS
           in if stable_text_bytes = 0 then None
              else Some ((drop_pending_prefix stable_text_bytes self)\<lparr>op_has_streamed_visible_text := True\<rparr>,
                         [TextDelta (take stable_text_bytes (op_pending_output self))])))"

definition advance_reasoning :: "Qwen3_5OutputParser \<Rightarrow> (Qwen3_5OutputParser \<times> Qwen3_5OutputEvent list) option" where
  "advance_reasoning self =
     (case earliest_marker (op_pending_output self) REASONING_SCAN_MARKERS of
        Some (marker_index, marker) \<Rightarrow>
          if 0 < marker_index
          then Some (drop_pending_prefix marker_index self, [ReasoningDelta (take marker_index (op_pending_output self))])
          else if marker = THINK_END_MARKER
          then Some ((drop_pending_prefix (length marker) self)\<lparr>op_state := InText\<rparr>, [])
          else Some (enter_state_after_start_marker marker True (drop_pending_prefix (length marker) self), [])
      | None \<Rightarrow>
          (let stable_reasoning_bytes = length (op_pending_output self)
                 - longest_suffix_prefix_for_markers (op_pending_output self) REASONING_SCAN_MARKERS
           in if stable_reasoning_bytes = 0 then None
              else Some (drop_pending_prefix stable_reasoning_bytes self,
                         [ReasoningDelta (take stable_reasoning_bytes (op_pending_output self))])))"

definition advance_suppressed_late_reasoning ::
    "Qwen3_5OutputParser \<Rightarrow> (Qwen3_5OutputParser \<times> Qwen3_5OutputEvent list) option" where
  "advance_suppressed_late_reasoning self =
     (case str_find THINK_END_MARKER (op_pending_output self) of
        Some marker_index \<Rightarrow>
          Some ((drop_pending_prefix (marker_index + length THINK_END_MARKER) self)\<lparr>op_state := InText\<rparr>, [])
      | None \<Rightarrow>
          (let stable_hidden_reasoning_bytes = length (op_pending_output self)
                 - longest_suffix_prefix_for_markers (op_pending_output self) [THINK_END_MARKER]
           in if stable_hidden_reasoning_bytes = 0 then None
              else Some (drop_pending_prefix stable_hidden_reasoning_bytes self, [])))"

definition closed_tool_call ::
    "'n json_library \<Rightarrow> ToolCallEntryKind \<Rightarrow> string \<Rightarrow> Qwen3_5OutputParser \<Rightarrow> Qwen3_5OutputParser \<times> Qwen3_5OutputEvent list" where
  "closed_tool_call json kind remaining_body self =
     (let reconstructed_body = reconstruct_tool_call_body kind remaining_body;
          emitted = (case parse_tool_call json self reconstructed_body of
              Inr tool_call \<Rightarrow> Some (ToolCallEvent tool_call)
            | Inl _ \<Rightarrow> fail_open_closed_tool_call json self reconstructed_body)
      in case emitted of
           None \<Rightarrow> (self\<lparr>op_state := InText\<rparr>, [])
         | Some emitted_event \<Rightarrow>
             (case emit_tool_call_or_visible_text emitted_event reconstructed_body self of
                (self1, event) \<Rightarrow> (self1\<lparr>op_state := InText\<rparr>, [event])))"

definition advance_tool_call ::
    "'n json_library \<Rightarrow> ToolCallEntry \<Rightarrow> Qwen3_5OutputParser \<Rightarrow> (Qwen3_5OutputParser \<times> Qwen3_5OutputEvent list) option" where
  "advance_tool_call json entry self =
     (let end_marker_match = earliest_marker (op_pending_output self) (tool_call_end_markers (te_kind entry));
          spurious_think_close_index = str_find THINK_END_MARKER (op_pending_output self);
          opener_was_quoted_prose =
            (case (end_marker_match, spurious_think_close_index) of
               (Some (end_marker_index, _), Some think_close_index) \<Rightarrow> think_close_index < end_marker_index
             | (None, Some _) \<Rightarrow> True
             | _ \<Rightarrow> False)
      in if opener_was_quoted_prose then Some (resync_spurious_tool_call entry (the spurious_think_close_index) self)
         else map_option (\<lambda>(marker_index, end_marker).
                closed_tool_call json (te_kind entry) (take marker_index (op_pending_output self))
                  ((if end_marker \<noteq> TOOL_CALL_END_MARKER then consume_trailing_envelope_close_if_present else id)
                     (drop_pending_prefix (marker_index + length end_marker) self)))
              end_marker_match)"

definition advance ::
    "'n json_library \<Rightarrow> Qwen3_5OutputParser \<Rightarrow> (Qwen3_5OutputParser \<times> Qwen3_5OutputEvent list) option" where
  "advance json self =
     (case op_state self of
        InText \<Rightarrow> advance_text self
      | InReasoning \<Rightarrow> advance_reasoning self
      | InToolCall entry \<Rightarrow> advance_tool_call json entry self
      | SuppressedLateReasoning \<Rightarrow> advance_suppressed_late_reasoning self)"

text \<open>Every step takes something from the pending text.\<close>

lemma earliest_marker_Some:
  assumes "earliest_marker s markers = Some (i, m)"
  shows "m \<in> set markers" "str_find m s = Some i" "\<And>m' j. m' \<in> set markers \<Longrightarrow> str_find m' s = Some j \<Longrightarrow> i \<le> j"
proof -
  let ?found = "List.map_filter (\<lambda>marker. map_option (\<lambda>marker_index. (marker_index, marker)) (str_find marker s)) markers"
  have found: "(j, m') \<in> set ?found \<longleftrightarrow> m' \<in> set markers \<and> str_find m' s = Some j" for j m'
    by (auto simp: List.map_filter_def split: option.splits) force
  have least: "foldl (\<lambda>best other. if fst other < fst best then other else best) b xs \<in> set (b # xs)
      \<and> (\<forall>x \<in> set (b # xs). fst (foldl (\<lambda>best other. if fst other < fst best then other else best) b xs) \<le> fst x)"
    for b :: "nat \<times> string" and xs
  proof (induction xs arbitrary: b)
    case (Cons x xs)
    show ?case
    proof (cases "fst x < fst b")
      case True
      then show ?thesis using Cons.IH [of x] by auto
    next
      case False
      then show ?thesis using Cons.IH [of b] by auto
    qed
  qed simp
  obtain b xs where "?found = b # xs" "foldl (\<lambda>best other. if fst other < fst best then other else best) b xs = (i, m)"
    using assms by (auto simp: earliest_marker_def split: list.splits)
  then have "(i, m) \<in> set ?found" "\<And>x. x \<in> set ?found \<Longrightarrow> i \<le> fst x" using least [of b xs] by auto
  then show "m \<in> set markers" "str_find m s = Some i" "\<And>m' j. m' \<in> set markers \<Longrightarrow> str_find m' s = Some j \<Longrightarrow> i \<le> j"
    using found by fastforce+
qed

lemma map_filter_Nil: "List.map_filter f xs = [] \<longleftrightarrow> (\<forall>x \<in> set xs. f x = None)"
  by (induction xs) (auto simp: List.map_filter_simps split: option.splits)

lemma earliest_marker_None: "earliest_marker s markers = None \<longleftrightarrow> (\<forall>m \<in> set markers. str_find m s = None)"
  using map_filter_Nil [of "\<lambda>marker. map_option (\<lambda>marker_index. (marker_index, marker)) (str_find marker s)" markers]
  by (auto simp: earliest_marker_def simp del: not_None_eq split: list.splits)

lemma pending_after:
  "op_pending_output (fst (emit_tool_call_or_visible_text event body self)) = op_pending_output self"
  "op_pending_output (fst (closed_tool_call json kind body self)) = op_pending_output self"
  "op_pending_output (enter_state_after_start_marker marker in_reasoning self) = op_pending_output self"
  "op_pending_output (fst (resync_spurious_tool_call entry i self)) = drop (i + length THINK_END_MARKER) (op_pending_output self)"
proof -
  show emit: "op_pending_output (fst (emit_tool_call_or_visible_text event body self)) = op_pending_output self"
    for event body self
    by (auto simp: emit_tool_call_or_visible_text_def try_record_completed_tool_call_def
        split: Qwen3_5OutputEvent.splits option.splits)
  show "op_pending_output (fst (closed_tool_call json kind body self)) = op_pending_output self"
    using emit [of _ "reconstruct_tool_call_body kind body" self]
    by (auto simp: closed_tool_call_def Let_def split: sum.splits option.splits prod.splits) (metis fst_conv)+
qed (simp_all add: enter_state_after_start_marker_def resync_spurious_tool_call_def drop_pending_prefix_def Let_def)

lemma markers_nonempty:
  "m \<in> set TEXT_STATE_START_MARKERS \<Longrightarrow> m \<noteq> []" "m \<in> set REASONING_SCAN_MARKERS \<Longrightarrow> m \<noteq> []"
  "m \<in> set (tool_call_end_markers kind) \<Longrightarrow> m \<noteq> []" "THINK_END_MARKER \<noteq> []"
  by (auto simp: TEXT_STATE_START_MARKERS_def REASONING_SCAN_MARKERS_def tool_call_end_markers_def THINK_START_MARKER_def
      TOOL_CALL_START_MARKER_def BARE_FUNCTION_START_MARKER_def INVOKE_START_MARKER_def THINK_END_MARKER_def
      TOOL_CALL_END_MARKER_def FUNCTION_END_MARKER_def INVOKE_END_MARKER_def split: ToolCallEntryKind.splits)

lemma found_nonempty: "str_find m s = Some i \<Longrightarrow> m \<noteq> [] \<Longrightarrow> s \<noteq> []"
  by auto

lemma consume_trailing_length:
  "length (op_pending_output (consume_trailing_envelope_close_if_present self)) \<le> length (op_pending_output self)"
  by (simp add: consume_trailing_envelope_close_if_present_def drop_pending_prefix_def split: option.splits)

lemma advance_shorter:
  assumes "advance json self = Some (self', events)"
  shows "length (op_pending_output self') < length (op_pending_output self)"
proof (cases "op_state self")
  case InText
  show ?thesis
  proof (cases "earliest_marker (op_pending_output self) TEXT_STATE_START_MARKERS")
    case None
    then show ?thesis using assms InText
      by (auto simp: advance_def advance_text_def drop_pending_prefix_def Let_def split: if_splits)
  next
    case (Some found)
    obtain i m where "found = (i, m)" by (cases found)
    then show ?thesis
      using assms InText Some earliest_marker_Some(1,2) [of "op_pending_output self" TEXT_STATE_START_MARKERS i m]
        markers_nonempty(1) [of m] found_nonempty [of m "op_pending_output self" i]
      by (auto simp: advance_def advance_text_def drop_pending_prefix_def pending_after split: if_splits)
  qed
next
  case InReasoning
  show ?thesis
  proof (cases "earliest_marker (op_pending_output self) REASONING_SCAN_MARKERS")
    case None
    then show ?thesis using assms InReasoning
      by (auto simp: advance_def advance_reasoning_def drop_pending_prefix_def Let_def split: if_splits)
  next
    case (Some found)
    obtain i m where "found = (i, m)" by (cases found)
    then show ?thesis
      using assms InReasoning Some earliest_marker_Some(1,2) [of "op_pending_output self" REASONING_SCAN_MARKERS i m]
        markers_nonempty(2) [of m] found_nonempty [of m "op_pending_output self" i]
      by (auto simp: advance_def advance_reasoning_def drop_pending_prefix_def pending_after split: if_splits)
  qed
next
  case (InToolCall entry)
  note run = assms [unfolded advance_def InToolCall Qwen3_5OutputParserState.case advance_tool_call_def Let_def]
  have resync: "length (op_pending_output (fst (resync_spurious_tool_call entry i self))) < length (op_pending_output self)"
    if "str_find THINK_END_MARKER (op_pending_output self) = Some i" for i
    using found_nonempty [OF that markers_nonempty(4)] markers_nonempty(4) by (simp add: pending_after)
  have closed: "length (op_pending_output (fst (closed_tool_call json (te_kind entry) body
      ((if m \<noteq> TOOL_CALL_END_MARKER then consume_trailing_envelope_close_if_present else id)
         (drop_pending_prefix (i + length m) self))))) < length (op_pending_output self)"
    if "earliest_marker (op_pending_output self) (tool_call_end_markers (te_kind entry)) = Some (i, m)" for i m body
  proof -
    note found = earliest_marker_Some(1,2) [OF that]
    have "m \<noteq> []" by (rule markers_nonempty(3) [OF found(1)])
    then have "length (op_pending_output (drop_pending_prefix (i + length m) self)) < length (op_pending_output self)"
      using found_nonempty [OF found(2)] by (simp add: drop_pending_prefix_def)
    then show ?thesis
      using consume_trailing_length [of "drop_pending_prefix (i + length m) self"] by (auto simp: pending_after)
  qed
  show ?thesis using run resync closed by (auto split: if_splits option.splits prod.splits) (metis fst_conv)+
next
  case SuppressedLateReasoning
  show ?thesis
  proof (cases "str_find THINK_END_MARKER (op_pending_output self)")
    case None
    then show ?thesis using assms SuppressedLateReasoning
      by (auto simp: advance_def advance_suppressed_late_reasoning_def drop_pending_prefix_def Let_def split: if_splits)
  next
    case (Some i)
    then show ?thesis using assms SuppressedLateReasoning found_nonempty [OF Some markers_nonempty(4)] markers_nonempty(4)
      by (auto simp: advance_def advance_suppressed_late_reasoning_def drop_pending_prefix_def)
  qed
qed

section \<open>The parser\<close>

text \<open>\<^verbatim>\<open>while self.advance(&mut output_events)? {}\<close>\<close>

function advance_all :: "'n json_library \<Rightarrow> Qwen3_5OutputParser \<Rightarrow> Qwen3_5OutputParser \<times> Qwen3_5OutputEvent list" where
  "advance_all json self =
     (case advance json self of
        None \<Rightarrow> (self, [])
      | Some (self1, events) \<Rightarrow> (case advance_all json self1 of (self2, later) \<Rightarrow> (self2, events @ later)))"
  by pat_completeness auto

termination
  by (relation "measure (\<lambda>(json, self). length (op_pending_output self))") (auto dest: advance_shorter)

declare advance_all.simps [simp del]

definition new_with_state ::
    "'n json_library \<Rightarrow> ChatToolDefinition list \<Rightarrow> Qwen3_5OutputParserState \<Rightarrow> Qwen3_5OutputParserError + Qwen3_5OutputParser" where
  "new_with_state json declared_tools initial_state =
     result_bind
       (try_fold (\<lambda>tools_by_name tool_definition.
            result_bind (from_definition json tool_definition)
              (\<lambda>declared_tool.
                 if map_of tools_by_name (td_name tool_definition) \<noteq> None
                 then Inl (DuplicateDeclaredTool (td_name tool_definition))
                 else Inr (bt_insert (td_name tool_definition) declared_tool tools_by_name)))
          [] declared_tools)
       (\<lambda>tools_by_name.
          Inr \<lparr>op_completed_tool_call_count = 0, op_declared_tools = tools_by_name, op_has_streamed_visible_text = False,
               op_pending_output = [], op_state = initial_state\<rparr>)"

definition output_parser_new :: "'n json_library \<Rightarrow> ChatToolDefinition list \<Rightarrow> Qwen3_5OutputParserError + Qwen3_5OutputParser" where
  "output_parser_new json declared_tools = new_with_state json declared_tools InText"

definition new_after_thinking_prefix ::
    "'n json_library \<Rightarrow> ChatToolDefinition list \<Rightarrow> Qwen3_5OutputParserError + Qwen3_5OutputParser" where
  "new_after_thinking_prefix json declared_tools = new_with_state json declared_tools InReasoning"

definition visible_delta_for_current_state ::
    "string \<Rightarrow> Qwen3_5OutputParser \<Rightarrow> Qwen3_5OutputParser \<times> Qwen3_5OutputEvent option" where
  "visible_delta_for_current_state text_bytes self =
     (case op_state self of
        InText \<Rightarrow> (self\<lparr>op_has_streamed_visible_text := True\<rparr>, Some (TextDelta text_bytes))
      | InToolCall _ \<Rightarrow> (self\<lparr>op_has_streamed_visible_text := True\<rparr>, Some (TextDelta text_bytes))
      | InReasoning \<Rightarrow> (self, Some (ReasoningDelta text_bytes))
      | SuppressedLateReasoning \<Rightarrow> (self, None))"

definition option_list :: "'a option \<Rightarrow> 'a list" where
  "option_list x = (case x of None \<Rightarrow> [] | Some y \<Rightarrow> [y])"

definition flush_pending_as_visible_delta :: "Qwen3_5OutputParser \<Rightarrow> Qwen3_5OutputParser \<times> Qwen3_5OutputEvent list" where
  "flush_pending_as_visible_delta self =
     (if op_pending_output self = [] then (self, [])
      else case visible_delta_for_current_state (op_pending_output self) (self\<lparr>op_pending_output := []\<rparr>) of
             (self1, event) \<Rightarrow> (self1, option_list event))"

definition str_len :: "string \<Rightarrow> usize" where
  "str_len s = of_nat (length s)"

definition append_pending :: "string \<Rightarrow> Qwen3_5OutputParser \<Rightarrow> Qwen3_5OutputParser" where
  "append_pending decoded_fragment self = self\<lparr>op_pending_output := op_pending_output self @ decoded_fragment\<rparr>"

definition push_fragment ::
    "'n json_library \<Rightarrow> string \<Rightarrow> Qwen3_5OutputParser \<Rightarrow> Qwen3_5OutputParser \<times> Qwen3_5OutputEvent list" where
  "push_fragment json decoded_fragment self =
     (if MAX_OUTPUT_FRAGMENT_BYTES < str_len decoded_fragment
      then (if is_tool_call (op_state self) then salvage_unclosed_tool_call json self
            else case flush_pending_as_visible_delta self of
                   (self1, output_events) \<Rightarrow>
                     (case visible_delta_for_current_state decoded_fragment self1 of
                        (self2, fragment_event) \<Rightarrow> (self2, output_events @ option_list fragment_event)))
      else if is_tool_call (op_state self)
        \<and> checked_add (str_len (op_pending_output self)) (str_len decoded_fragment) = None
      then salvage_unclosed_tool_call json self
      else if requires_marker_scan_pending_output_cap (op_state self)
        \<and> MAX_MARKER_SCAN_PENDING_OUTPUT_BYTES
            < saturating_add (str_len (op_pending_output self)) (str_len decoded_fragment)
      then (case flush_pending_as_visible_delta self of
              (self1, output_events) \<Rightarrow>
                (case advance_all json (append_pending decoded_fragment self1) of
                   (self2, later) \<Rightarrow> (self2, output_events @ later)))
      else advance_all json (append_pending decoded_fragment self))"

definition output_parser_finish ::
    "'n json_library \<Rightarrow> Qwen3_5OutputParser \<Rightarrow> Qwen3_5OutputParser \<times> Qwen3_5OutputEvent list" where
  "output_parser_finish json self =
     (case op_state self of
        InText \<Rightarrow> flush_pending_as_visible_delta self
      | InReasoning \<Rightarrow> flush_pending_as_visible_delta self
      | InToolCall _ \<Rightarrow> salvage_unclosed_tool_call json self
      | SuppressedLateReasoning \<Rightarrow> (self\<lparr>op_pending_output := []\<rparr>, []))"

definition reset_after_model_visible_correction :: "bool \<Rightarrow> Qwen3_5OutputParser \<Rightarrow> Qwen3_5OutputParser" where
  "reset_after_model_visible_correction enable_thinking self =
     self\<lparr>op_pending_output := [], op_has_streamed_visible_text := False,
          op_state := (if enable_thinking then InReasoning else InText)\<rparr>"

end
