(* ===== verification/Output_Scan.thy ===== *)
theory Output_Scan
  imports Output_Parser
begin

text \<open>
  The search for markers in model output: where the first marker stands, what may still become one, and how far a scan
  that found none may go. Every marker has its only \<^verbatim>\<open><\<close> at its head, so two occurrences never overlap.
\<close>

section \<open>Occurrences\<close>

lemma str_find_prefix: "str_find needle s = Some i \<Longrightarrow> prefix needle (drop i s)"
  using str_find_Some by blast

lemma str_find_first: "str_find needle s = Some i \<Longrightarrow> j < i \<Longrightarrow> \<not> prefix needle (drop j s)"
proof (induction s arbitrary: i j)
  case (Cons c cs)
  then obtain k where k: "i = Suc k" "str_find needle cs = Some k" by (auto split: if_splits)
  then show ?case using Cons by (cases j) (auto split: if_splits)
qed (auto split: if_splits)

lemma str_find_None: "needle \<noteq> [] \<Longrightarrow> str_find needle s = None \<longleftrightarrow> (\<forall>j. \<not> prefix needle (drop j s))"
proof (induction s)
  case (Cons c cs)
  have "(\<forall>j. \<not> prefix needle (drop j (c # cs))) \<longleftrightarrow> \<not> prefix needle (c # cs) \<and> (\<forall>j. \<not> prefix needle (drop j cs))"
    by (metis drop0 drop_Suc_Cons not0_implies_Suc)
  then show ?case using Cons by auto
qed simp

lemma str_findI:
  assumes "needle \<noteq> []" "prefix needle (drop i s)" "\<And>j. j < i \<Longrightarrow> \<not> prefix needle (drop j s)"
  shows "str_find needle s = Some i"
proof (cases "str_find needle s")
  case None
  then show ?thesis using assms(1,2) str_find_None by blast
next
  case (Some k)
  then show ?thesis using assms(2,3) str_find_first [OF Some] str_find_prefix [OF Some] by (metis linorder_neqE_nat)
qed

text \<open>The bytes of a marker: the first is \<^verbatim>\<open><\<close>, and no other is.\<close>

definition control_marker :: "string \<Rightarrow> bool" where
  "control_marker m \<longleftrightarrow> m \<noteq> [] \<and> hd m = CHR ''<'' \<and> CHR ''<'' \<notin> set (tl m)"

definition control_markers :: "string list \<Rightarrow> bool" where
  "control_markers ms \<longleftrightarrow> list_all control_marker ms \<and> (\<forall>m \<in> set ms. \<forall>m' \<in> set ms. prefix m m' \<longrightarrow> m = m')"

lemmas marker_defs = THINK_START_MARKER_def TOOL_CALL_START_MARKER_def BARE_FUNCTION_START_MARKER_def
  INVOKE_START_MARKER_def THINK_END_MARKER_def TOOL_CALL_END_MARKER_def FUNCTION_END_MARKER_def INVOKE_END_MARKER_def

lemma control_markers [simp]:
  "control_markers TEXT_STATE_START_MARKERS" "control_markers REASONING_SCAN_MARKERS"
  "control_markers [THINK_END_MARKER]" "control_markers (tool_call_end_markers kind)"
  "control_markers (THINK_END_MARKER # tool_call_end_markers kind)"
  by (cases kind; simp add: control_markers_def control_marker_def TEXT_STATE_START_MARKERS_def REASONING_SCAN_MARKERS_def
      tool_call_end_markers_def marker_defs)+

text \<open>What the rest of the text from a position may still become: a marker, or the start of one.\<close>

definition may_start :: "string list \<Rightarrow> string \<Rightarrow> bool" where
  "may_start ms s \<longleftrightarrow> list_ex (\<lambda>m. prefix m s \<or> prefix s m) ms"

lemma earliest_marker_prefix:
  assumes "control_markers ms" "earliest_marker s ms = Some (i, m)"
  shows "m \<in> set ms" "prefix m (drop i s)" "\<And>j m'. m' \<in> set ms \<Longrightarrow> j < i \<Longrightarrow> \<not> prefix m' (drop j s)" "i + length m \<le> length s"
proof -
  note found = earliest_marker_Some [OF assms(2)]
  show "m \<in> set ms" "prefix m (drop i s)" "i + length m \<le> length s" using found str_find_Some by blast+
  show "\<not> prefix m' (drop j s)" if "m' \<in> set ms" "j < i" for j m'
  proof
    assume at: "prefix m' (drop j s)"
    have "m' \<noteq> []" using assms(1) that(1) by (auto simp: control_markers_def control_marker_def list_all_iff)
    then obtain k where "str_find m' s = Some k" using at str_find_None by (cases "str_find m' s") blast+
    moreover have "k \<le> j" using str_find_first [OF calculation, of j] at by (metis not_le)
    ultimately show False using found(3) [OF that(1)] that(2) by fastforce
  qed
qed

lemma earliest_markerI:
  assumes "control_markers ms" "m \<in> set ms" "prefix m (drop i s)"
    and "\<And>j m'. m' \<in> set ms \<Longrightarrow> j < i \<Longrightarrow> \<not> prefix m' (drop j s)"
  shows "earliest_marker s ms = Some (i, m)"
proof -
  have nonempty: "m' \<noteq> []" if "m' \<in> set ms" for m'
    using assms(1) that by (auto simp: control_markers_def control_marker_def list_all_iff)
  have "str_find m s = Some i" using assms nonempty by (intro str_findI) auto
  then obtain k m' where found: "earliest_marker s ms = Some (k, m')"
    using assms(2) earliest_marker_None [of s ms] by (cases "earliest_marker s ms") auto
  note at = earliest_marker_prefix [OF assms(1) found]
  have "k = i" using at(1,2,3) assms(2-4) by (metis linorder_neqE_nat)
  then have "prefix m m' \<or> prefix m' m" using at(2) assms(3) by (metis prefix_same_cases)
  then have "m = m'" using assms(1,2) at(1) by (auto simp: control_markers_def)
  then show ?thesis using found \<open>k = i\<close> by simp
qed

lemma earliest_marker_NoneI:
  assumes "control_markers ms"
  shows "earliest_marker s ms = None \<longleftrightarrow> (\<forall>j. \<forall>m \<in> set ms. \<not> prefix m (drop j s))"
proof -
  have "m \<noteq> []" if "m \<in> set ms" for m
    using assms that by (auto simp: control_markers_def control_marker_def list_all_iff)
  then show ?thesis by (auto simp: earliest_marker_None str_find_None)
qed


text \<open>A marker that begins before another occurrence ends before it.\<close>

lemma no_overlap:
  assumes "control_marker m" "control_marker m'" "prefix m (drop i s)" "j < i" "prefix m' (drop j (s @ b))"
  shows "prefix m' (drop j s)"
proof -
  obtain z where z: "drop i s = m @ z" using assms(3) by (auto simp: prefix_def)
  have m: "m \<noteq> []" "m ! 0 = CHR ''<''" using assms(1) by (auto simp: control_marker_def hd_conv_nth)
  have i: "i < length s" using z m(1) by (metis append_is_Nil_conv drop_all not_le)
  obtain z' where z': "drop j (s @ b) = m' @ z'" using assms(5) by (auto simp: prefix_def)
  have "length m' \<le> length s - j"
  proof (rule ccontr)
    assume long: "\<not> length m' \<le> length s - j"
    then have inside: "0 < i - j" "i - j < length m'" using i assms(4) by auto
    have "m' ! (i - j) = drop j (s @ b) ! (i - j)" using z' inside by (simp add: nth_append)
    also have "\<dots> = s ! i"
    proof -
      have "i - j < length s - j" by (rule diff_less_mono [OF i less_imp_le [OF assms(4)]])
      then show ?thesis using assms(4) by (simp add: nth_append)
    qed
    also have "\<dots> = drop i s ! 0" using i by simp
    also have "\<dots> = CHR ''<''" using z m by (simp add: nth_append)
    finally have "CHR ''<'' \<in> set (tl m')" using inside by (cases m'; cases "i - j") (auto simp: in_set_conv_nth)
    then show False using assms(2) by (simp add: control_marker_def)
  qed
  moreover have "prefix (drop j s) (drop j (s @ b))" by (simp add: prefix_def)
  ultimately show ?thesis using prefix_length_prefix [OF assms(5)] by simp
qed

lemma control_markersD: "control_markers ms \<Longrightarrow> m \<in> set ms \<Longrightarrow> control_marker m"
  by (simp add: control_markers_def list_all_iff)

lemma prefix_drop_append: "prefix m (drop i s) \<Longrightarrow> prefix m (drop i (s @ b))"
  by (auto simp: prefix_def)

lemma earliest_marker_append:
  assumes "control_markers ms" "earliest_marker s ms = Some (i, m)"
  shows "earliest_marker (s @ b) ms = Some (i, m)"
proof (rule earliest_markerI [OF assms(1)])
  note found = earliest_marker_prefix [OF assms]
  show "m \<in> set ms" "prefix m (drop i (s @ b))" using found prefix_drop_append by blast+
  show "\<not> prefix m' (drop j (s @ b))" if "m' \<in> set ms" "j < i" for j m'
    using found(1-3) that no_overlap [of m m' i s j b] control_markersD [OF assms(1)] by blast
qed

lemma str_find_append:
  assumes "control_marker m" "str_find m s = Some i"
  shows "str_find m (s @ b) = Some i"
proof (rule str_findI)
  show "m \<noteq> []" using assms(1) by (simp add: control_marker_def)
  show "prefix m (drop i (s @ b))" using str_find_prefix [OF assms(2)] by (rule prefix_drop_append)
  show "\<not> prefix m (drop j (s @ b))" if "j < i" for j
    using str_find_first [OF assms(2) that] no_overlap [OF assms(1,1) str_find_prefix [OF assms(2)] that] by blast
qed

text \<open>The start of a marker at the end of the text.\<close>

lemma boundary_at_marker:
  assumes "control_marker m" "j < length s" "prefix (drop j s) m"
  shows "is_char_boundary s j"
proof -
  have "s ! j = hd (drop j s)" using assms(2) by (simp add: hd_drop_conv_nth)
  also have "\<dots> = hd m" using assms(2,3) by (auto simp: prefix_def)
  finally have "s ! j = CHR ''<''" using assms(1) by (simp add: control_marker_def)
  then show ?thesis using assms(2) by (simp add: is_char_boundary_def)
qed

lemma fold_max_ge: "x \<in> set xs \<Longrightarrow> (x :: nat) \<le> foldr max xs 0"
  by (induction xs) (auto simp: le_max_iff_disj)

lemma find_downwards:
  defines "found P n \<equiv> (case find P (rev [1..<Suc n]) of None \<Rightarrow> 0 | Some k \<Rightarrow> k)"
  shows "found P n \<le> n" "0 < found P n \<Longrightarrow> P (found P n)" "0 < k \<Longrightarrow> k \<le> n \<Longrightarrow> P k \<Longrightarrow> k \<le> found P n"
proof -
  have step: "found P (Suc n) = (if P (Suc n) then Suc n else found P n)" for n by (simp add: found_def)
  have none: "found P 0 = 0" by (simp add: found_def)
  show "found P n \<le> n" by (induction n) (simp_all add: none step)
  show "0 < found P n \<Longrightarrow> P (found P n)" by (induction n) (auto simp: none step split: if_splits)
  show "0 < k \<Longrightarrow> k \<le> n \<Longrightarrow> P k \<Longrightarrow> k \<le> found P n" by (induction n) (auto simp: none step le_Suc_eq)
qed

definition partial_at :: "string list \<Rightarrow> string \<Rightarrow> nat \<Rightarrow> bool" where
  "partial_at ms s k \<longleftrightarrow> is_char_boundary s (length s - k) \<and> list_ex (prefix (drop (length s - k) s)) ms"

lemma longest_suffix:
  defines "n s ms \<equiv> min (foldr max (map (\<lambda>m. length m - 1) ms) 0) (length s)"
  shows "longest_suffix_prefix_for_markers s ms \<le> n s ms"
    and "0 < longest_suffix_prefix_for_markers s ms \<Longrightarrow> partial_at ms s (longest_suffix_prefix_for_markers s ms)"
    and "0 < k \<Longrightarrow> k \<le> n s ms \<Longrightarrow> partial_at ms s k \<Longrightarrow> k \<le> longest_suffix_prefix_for_markers s ms"
proof -
  have eq: "longest_suffix_prefix_for_markers s ms
      = (case find (partial_at ms s) (rev [1..<Suc (n s ms)]) of None \<Rightarrow> 0 | Some k \<Rightarrow> k)"
    unfolding longest_suffix_prefix_for_markers_def Let_def n_def partial_at_def [abs_def] ..
  show "longest_suffix_prefix_for_markers s ms \<le> n s ms" unfolding eq by (rule find_downwards(1))
  show "0 < longest_suffix_prefix_for_markers s ms \<Longrightarrow> partial_at ms s (longest_suffix_prefix_for_markers s ms)"
    unfolding eq by (rule find_downwards(2))
  show "0 < k \<Longrightarrow> k \<le> n s ms \<Longrightarrow> partial_at ms s k \<Longrightarrow> k \<le> longest_suffix_prefix_for_markers s ms"
    unfolding eq by (rule find_downwards(3))
qed

lemma longest_suffix_bound:
  "longest_suffix_prefix_for_markers s ms \<le> foldr max (map (\<lambda>m. length m - 1) ms) 0"
  "longest_suffix_prefix_for_markers s ms \<le> length s"
  using longest_suffix(1) [of s ms] by simp_all

lemma longest_suffix_is_prefix:
  "0 < longest_suffix_prefix_for_markers s ms
    \<Longrightarrow> \<exists>m \<in> set ms. prefix (drop (length s - longest_suffix_prefix_for_markers s ms) s) m"
  using longest_suffix(2) [of s ms] by (auto simp: partial_at_def list_ex_iff)

lemma longest_suffix_greatest:
  assumes "control_markers ms" "m \<in> set ms" "j < length s" "strict_prefix (drop j s) m"
  shows "length s - j \<le> longest_suffix_prefix_for_markers s ms"
proof (rule longest_suffix(3))
  have "length (drop j s) < length m" using assms(4) by (rule prefix_length_less)
  moreover have "length m - 1 \<le> foldr max (map (\<lambda>m. length m - 1) ms) 0" using assms(2) by (intro fold_max_ge) auto
  ultimately show "length s - j \<le> min (foldr max (map (\<lambda>m. length m - 1) ms) 0) (length s)" by simp
  show "partial_at ms s (length s - j)" 
    using assms boundary_at_marker [OF control_markersD [OF assms(1,2)] assms(3)]
    by (auto simp: partial_at_def list_ex_iff strict_prefix_def)
qed (use assms(3) in simp)


section \<open>The point a scan reaches\<close>

definition scan_point :: "string list \<Rightarrow> string \<Rightarrow> nat" where
  "scan_point ms s =
     (case earliest_marker s ms of Some (i, _) \<Rightarrow> i | None \<Rightarrow> length s - longest_suffix_prefix_for_markers s ms)"

definition clear_of :: "string list \<Rightarrow> string \<Rightarrow> string \<Rightarrow> bool" where
  "clear_of ms u r \<longleftrightarrow> (\<forall>j < length u. \<not> may_start ms (drop j (u @ r)))"

lemma earliest_marker_skip:
  assumes "control_markers ms" "clear_of ms u r"
  shows "earliest_marker (u @ r) ms = map_option (\<lambda>(i, m). (length u + i, m)) (earliest_marker r ms)"
proof -
  have clear: "\<not> prefix m (drop j (u @ r))" if "m \<in> set ms" "j < length u" for m j
    using assms(2) that by (auto simp: clear_of_def may_start_def list_ex_iff)
  have behind: "drop j (u @ r) = drop (j - length u) r" if "\<not> j < length u" for j using that by simp
  show ?thesis
  proof (cases "earliest_marker r ms")
    case None
    have "\<not> prefix m (drop j (u @ r))" if "m \<in> set ms" for m j
      using clear [OF that] behind [of j] None that earliest_marker_NoneI [OF assms(1), of r] by (cases "j < length u") metis+
    then show ?thesis using None earliest_marker_NoneI [OF assms(1), of "u @ r"] by simp
  next
    case (Some found)
    obtain i m where found: "found = (i, m)" by (cases found)
    note at = earliest_marker_prefix [OF assms(1) Some [unfolded found]]
    have "earliest_marker (u @ r) ms = Some (length u + i, m)"
    proof (rule earliest_markerI [OF assms(1) at(1)])
      show "prefix m (drop (length u + i) (u @ r))" using at(2) by simp
      show "\<not> prefix m' (drop j (u @ r))" if "m' \<in> set ms" "j < length u + i" for j m'
        using clear [OF that(1), of j] behind [of j] at(3) [OF that(1), of "j - length u"] that(2)
        by (cases "j < length u") auto
    qed
    then show ?thesis using Some found by simp
  qed
qed

lemma longest_suffix_skip:
  assumes "control_markers ms" "clear_of ms u r" "earliest_marker r ms = None"
  shows "longest_suffix_prefix_for_markers (u @ r) ms = longest_suffix_prefix_for_markers r ms"
proof -
  have none: "\<not> prefix m (drop j (u @ r))" if "m \<in> set ms" for m j
    using earliest_marker_skip [OF assms(1,2)] assms(3) that earliest_marker_NoneI [OF assms(1), of "u @ r"] by auto
  have inside: "longest_suffix_prefix_for_markers (u @ r) ms \<le> length r"
  proof (rule ccontr)
    let ?k = "longest_suffix_prefix_for_markers (u @ r) ms"
    assume "\<not> ?k \<le> length r"
    then have "0 < ?k" "length (u @ r) - ?k < length u" using longest_suffix_bound(2) [of "u @ r" ms] by auto
    then show False using longest_suffix_is_prefix [of "u @ r" ms] assms(2)
      by (auto simp: clear_of_def may_start_def list_ex_iff)
  qed
  have strict: "strict_prefix (drop j s) m" if "prefix (drop j s) m" "m \<in> set ms" "\<not> prefix m (drop j s)" for m j s
    using that by (auto simp: strict_prefix_def)
  show ?thesis
  proof (rule antisym)
    let ?k = "longest_suffix_prefix_for_markers (u @ r) ms"
    show "?k \<le> longest_suffix_prefix_for_markers r ms"
    proof (cases "?k = 0")
      case False
      then obtain m where m: "m \<in> set ms" "prefix (drop (length (u @ r) - ?k) (u @ r)) m"
        using longest_suffix_is_prefix [of "u @ r" ms] by auto
      have "drop (length (u @ r) - ?k) (u @ r) = drop (length r - ?k) r" using inside by simp
      then have "strict_prefix (drop (length r - ?k) r) m" using m none strict by metis
      then show ?thesis using longest_suffix_greatest [OF assms(1) m(1), of "length r - ?k" r] inside False by simp
    qed simp
    let ?l = "longest_suffix_prefix_for_markers r ms"
    show "?l \<le> ?k"
    proof (cases "?l = 0")
      case False
      then obtain m where m: "m \<in> set ms" "prefix (drop (length r - ?l) r) m"
        using longest_suffix_is_prefix [of r ms] by auto
      have l: "?l \<le> length r" by (rule longest_suffix_bound)
      have "drop (length u + (length r - ?l)) (u @ r) = drop (length r - ?l) r" by simp
      then have "strict_prefix (drop (length u + (length r - ?l)) (u @ r)) m" using m none strict by metis
      then show ?thesis
        using longest_suffix_greatest [OF assms(1) m(1), of "length u + (length r - ?l)" "u @ r"] l False by simp
    qed simp
  qed
qed

lemma scan_point_skip:
  assumes "control_markers ms" "clear_of ms u r"
  shows "scan_point ms (u @ r) = length u + scan_point ms r"
  using longest_suffix_skip [OF assms] earliest_marker_skip [OF assms] longest_suffix_bound(2) [of r ms]
  by (auto simp: scan_point_def split: option.splits)

text \<open>What a scan without a marker lets go of is clear, whatever follows.\<close>

lemma scanned_is_clear:
  assumes "control_markers ms" "earliest_marker s ms = None"
  shows "clear_of ms (take (scan_point ms s) s) (drop (scan_point ms s) s @ b)"
proof -
  have none: "\<not> prefix m (drop j s)" if "m \<in> set ms" for m j
    using assms that earliest_marker_NoneI [OF assms(1), of s] by blast
  have n: "scan_point ms s = length s - longest_suffix_prefix_for_markers s ms" by (simp add: scan_point_def assms(2))
  have "\<not> may_start ms (drop j (s @ b))" if j: "j < scan_point ms s" for j
  proof
    assume "may_start ms (drop j (s @ b))"
    then obtain m where m: "m \<in> set ms" "prefix m (drop j s @ drop (j - length s) b) \<or> prefix (drop j s @ drop (j - length s) b) m"
      by (auto simp: may_start_def list_ex_iff)
    then have "prefix (drop j s) m" using none [OF m(1)] by (auto simp: prefix_append dest: append_prefixD)
    then have "strict_prefix (drop j s) m" using none [OF m(1), of j] by (auto simp: strict_prefix_def)
    then have "length s - j \<le> longest_suffix_prefix_for_markers s ms"
      using longest_suffix_greatest [OF assms(1) m(1), of j s] j n by simp
    then show False using j n by linarith
  qed
  moreover have "length (take (scan_point ms s) s) = scan_point ms s" using n by simp
  ultimately show ?thesis by (simp add: clear_of_def flip: append_assoc)
qed

end
