(* ===== verification/Output_Stream.thy ===== *)
theory Output_Stream
  imports Output_Scan
begin

text \<open>
  The parser of model output does not depend on how the text arrives: a list of fragments gives the same state, and the
  same bytes and calls, as the whole text at once. A parser that scans retains at most the start of a marker. The one
  close for which the pieces matter, that of a call without an envelope, is shown on an example.
\<close>

section \<open>Streams\<close>

text \<open>What a client sees of a list of events: the bytes of each channel and the calls, in their order.\<close>

datatype streamed_item =
  ReasoningByte char | TextByte char | StreamedCall Qwen3_5ToolCall | StreamedCorrection string

definition event_items :: "Qwen3_5OutputEvent \<Rightarrow> streamed_item list" where
  "event_items event =
     (case event of
        ReasoningDelta s \<Rightarrow> map ReasoningByte s
      | TextDelta s \<Rightarrow> map TextByte s
      | ToolCallEvent call \<Rightarrow> [StreamedCall call]
      | ModelVisibleCorrection s \<Rightarrow> [StreamedCorrection s])"

definition streamed :: "Qwen3_5OutputEvent list \<Rightarrow> streamed_item list" where
  "streamed events = concat (map event_items events)"

lemma streamed_append [simp]: "streamed (xs @ ys) = streamed xs @ streamed ys" "streamed [] = []"
  by (simp_all add: streamed_def)

text \<open>The markers of the states that scan, and what their text does.\<close>

definition scanned_markers :: "Qwen3_5OutputParserState \<Rightarrow> string list" where
  "scanned_markers state =
     (case state of
        InText \<Rightarrow> TEXT_STATE_START_MARKERS | InReasoning \<Rightarrow> REASONING_SCAN_MARKERS
      | SuppressedLateReasoning \<Rightarrow> [THINK_END_MARKER] | InToolCall entry \<Rightarrow> tool_call_end_markers (te_kind entry))"

lemma control_scanned [simp]: "control_markers (scanned_markers state)"
  by (simp add: scanned_markers_def split: Qwen3_5OutputParserState.split)

definition delta :: "Qwen3_5OutputParser \<Rightarrow> string \<Rightarrow> Qwen3_5OutputEvent list" where
  "delta self u = (case op_state self of InText \<Rightarrow> [TextDelta u] | InReasoning \<Rightarrow> [ReasoningDelta u] | _ \<Rightarrow> [])"

definition after_text :: "string \<Rightarrow> Qwen3_5OutputParser \<Rightarrow> Qwen3_5OutputParser" where
  "after_text r self = self\<lparr>op_pending_output := r,
     op_has_streamed_visible_text := (op_state self = InText \<or> op_has_streamed_visible_text self)\<rparr>"

definition prepend :: "'e list \<Rightarrow> 'p \<times> 'e list \<Rightarrow> 'p \<times> 'e list" where
  "prepend events run = (fst run, events @ snd run)"

lemma advance_all_step:
  "advance json self = None \<Longrightarrow> advance_all json self = (self, [])"
  "advance json self = Some (self1, events) \<Longrightarrow> advance_all json self = prepend events (advance_all json self1)"
  by (subst advance_all.simps; simp add: prepend_def split: prod.splits)+

lemma earliest_single: "earliest_marker s [m] = map_option (\<lambda>i. (i, m)) (str_find m s)"
  by (auto simp: earliest_marker_def List.map_filter_simps split: option.splits)

text \<open>A scan step says the text up to the point; a suppressed scan may take the marker along.\<close>

lemma advance_scan_step:
  assumes "\<not> is_tool_call (op_state self)" "n = scan_point (scanned_markers (op_state self)) (op_pending_output self)" "0 < n"
  shows "advance json self = Some (after_text (drop n (op_pending_output self)) self, delta self (take n (op_pending_output self)))
    \<or> delta self (take n (op_pending_output self)) = [] \<and> advance json self \<noteq> None
      \<and> advance json self = advance json (after_text (drop n (op_pending_output self)) self)"
proof (cases "op_state self")
  case SuppressedLateReasoning
  let ?s = "op_pending_output self"
  have n: "n = scan_point [THINK_END_MARKER] ?s" using assms(2) SuppressedLateReasoning by (simp add: scanned_markers_def)
  show ?thesis
  proof (cases "str_find THINK_END_MARKER ?s")
    case None
    then show ?thesis using n assms(3) SuppressedLateReasoning
      by (auto simp: advance_def advance_suppressed_late_reasoning_def scan_point_def after_text_def delta_def
          earliest_single drop_pending_prefix_def Let_def)
  next
    case (Some i)
    then have "n = i" using n by (simp add: scan_point_def earliest_single)
    moreover have "str_find THINK_END_MARKER (drop i ?s) = Some 0"
      using str_find_prefix [OF Some] by (intro str_findI) (auto simp: THINK_END_MARKER_def)
    ultimately show ?thesis using Some SuppressedLateReasoning
      by (simp add: advance_def advance_suppressed_late_reasoning_def after_text_def delta_def drop_pending_prefix_def add.commute)
  qed
qed (use assms in \<open>auto simp: advance_def advance_text_def advance_reasoning_def scanned_markers_def scan_point_def
    after_text_def delta_def drop_pending_prefix_def is_tool_call_def Let_def split: option.splits\<close>)

lemma advance_scan:
  assumes "\<not> is_tool_call (op_state self)" "n = scan_point (scanned_markers (op_state self)) (op_pending_output self)" "0 < n"
  shows "advance_all json self
    = prepend (delta self (take n (op_pending_output self))) (advance_all json (after_text (drop n (op_pending_output self)) self))"
  using advance_scan_step [OF assms, of json]
proof (elim disjE conjE)
  assume "delta self (take n (op_pending_output self)) = []" "advance json self \<noteq> None"
    "advance json self = advance json (after_text (drop n (op_pending_output self)) self)"
  then show ?thesis by (cases "advance json self") (auto simp: advance_all_step(2) prepend_def)
qed (simp add: advance_all_step(2))

lemma after_text_simps [simp]:
  "op_state (after_text r self) = op_state self" "op_pending_output (after_text r self) = r"
  "after_text r' (after_text r self) = after_text r' self" "delta (after_text r self) u = delta self u"
  "after_text r (append_pending b self) = after_text r self" "append_pending b (after_text r self) = after_text (r @ b) self"
  "op_state (append_pending b self) = op_state self" "delta (append_pending b self) u = delta self u"
  "op_pending_output (append_pending b self) = op_pending_output self @ b"
  by (auto simp: after_text_def delta_def append_pending_def)

lemma streamed_delta: "streamed (delta self (u @ v)) = streamed (delta self u) @ streamed (delta self v)"
  by (simp add: delta_def streamed_def event_items_def split: Qwen3_5OutputParserState.split)

definition same_stream :: "'p \<times> Qwen3_5OutputEvent list \<Rightarrow> 'p \<times> Qwen3_5OutputEvent list \<Rightarrow> bool" where
  "same_stream run run' \<longleftrightarrow> fst run = fst run' \<and> streamed (snd run) = streamed (snd run')"

lemma same_stream_prepend:
  "streamed e = streamed e' \<Longrightarrow> same_stream run run' \<Longrightarrow> same_stream (prepend e run) (prepend e' run')"
  "prepend e (prepend e' run) = prepend (e @ e') run" "prepend [] run = run"
  by (simp_all add: same_stream_def prepend_def)

text \<open>Clear text goes out at once.\<close>

lemma skip_clear_text:
  assumes "\<not> is_tool_call (op_state self)" "op_pending_output self = u @ r" "u \<noteq> []"
    and "clear_of (scanned_markers (op_state self)) u r"
  shows "same_stream (advance_all json self) (prepend (delta self u) (advance_all json (after_text r self)))"
proof -
  define n where "n = scan_point (scanned_markers (op_state self)) r"
  have point: "scan_point (scanned_markers (op_state self)) (u @ r) = length u + n"
    unfolding n_def by (rule scan_point_skip [OF _ assms(4)]) simp
  have run: "advance_all json self = prepend (delta self (u @ take n r)) (advance_all json (after_text (drop n r) self))"
    using advance_scan [OF assms(1) refl, of json] assms(2,3) by (simp add: point)
  show ?thesis
  proof (cases "n = 0")
    case True
    then show ?thesis using run by (simp add: same_stream_def)
  next
    case False
    then have "advance_all json (after_text r self)
        = prepend (delta self (take n r)) (advance_all json (after_text (drop n r) self))"
      using advance_scan [of "after_text r self" n json] assms(1) by (simp add: n_def)
    then show ?thesis unfolding run
      by (simp add: same_stream_prepend same_stream_def prepend_def streamed_delta)
  qed
qed

text \<open>A step at a marker does not depend on what comes behind it, unless it closes a call that has no envelope
  and the close of an envelope follows: the code takes that close along when it has arrived.\<close>

definition takes_stray_close :: "Qwen3_5OutputParser \<Rightarrow> bool" where
  "takes_stray_close self \<longleftrightarrow>
     (case op_state self of
        InToolCall entry \<Rightarrow>
          (case earliest_marker (op_pending_output self) (THINK_END_MARKER # tool_call_end_markers (te_kind entry)) of
             Some (i, m) \<Rightarrow> m \<notin> {THINK_END_MARKER, TOOL_CALL_END_MARKER}
               \<and> prefix TOOL_CALL_END_MARKER (str_trim_start (drop (i + length m) (op_pending_output self)))
           | None \<Rightarrow> False)
      | _ \<Rightarrow> False)"

lemma leading_length_append:
  assumes "CHR ''<'' \<in> set s"
  shows "leading_length whitespace_encodings (s @ b) = leading_length whitespace_encodings s"
proof -
  have "prefix e (s @ b) \<longleftrightarrow> prefix e s" if "e \<in> set whitespace_encodings" for e
  proof -
    have "CHR ''<'' \<notin> set e" using that unfolding whitespace_encodings_code by auto
    then show ?thesis using assms by (auto simp: prefix_append)
  qed
  then have "find (\<lambda>e. prefix e (s @ b)) whitespace_encodings = find (\<lambda>e. prefix e s) whitespace_encodings"
    by (intro find_cong) simp_all
  then show ?thesis by (simp add: leading_length_def)
qed

lemma trim_start_append:
  assumes "prefix TOOL_CALL_END_MARKER (str_trim_start s)"
  shows "str_trim_start (s @ b) = str_trim_start s @ b"
proof -
  have "trim_leading encodings (s @ b) = trim_leading encodings s @ b"
    if "encodings = whitespace_encodings" "CHR ''<'' \<in> set (trim_leading encodings s)" for encodings s
    using that
  proof (induction encodings s rule: trim_leading.induct)
    case (1 encodings s)
    let ?n = "leading_length encodings s"
    have "set (trim_leading encodings s) \<subseteq> set s"
      using trim_leading_suffix [of s encodings] by (metis set_append sup_ge2)
    then have lead: "leading_length encodings (s @ b) = ?n" using 1(2,3) leading_length_append by auto
    have "?n \<le> length s"
      by (auto simp: leading_length_def find_Some_iff dest: prefix_length_le split: option.splits)
    have s: "trim_leading encodings s = (if ?n = 0 then s else trim_leading encodings (drop ?n s))"
      and sb: "trim_leading encodings (s @ b) = (if ?n = 0 then s @ b else trim_leading encodings (drop ?n (s @ b)))"
      unfolding lead [symmetric] by (subst trim_leading.simps, simp add: lead)+
    show ?case using 1(1) [OF _ 1(2)] 1(3) \<open>?n \<le> length s\<close> unfolding s sb by (cases "?n = 0") simp_all
  qed
  moreover have "CHR ''<'' \<in> set (str_trim_start s)"
    using assms by (auto simp: TOOL_CALL_END_MARKER_def prefix_def)
  ultimately show ?thesis by (simp add: str_trim_start_def)
qed

lemma takes_stray_close_append:
  assumes "takes_stray_close self"
  shows "takes_stray_close (append_pending b self)"
proof -
  obtain entry i m where e: "op_state self = InToolCall entry"
    and m: "earliest_marker (op_pending_output self) (THINK_END_MARKER # tool_call_end_markers (te_kind entry)) = Some (i, m)"
    and stray: "m \<notin> {THINK_END_MARKER, TOOL_CALL_END_MARKER}"
      "prefix TOOL_CALL_END_MARKER (str_trim_start (drop (i + length m) (op_pending_output self)))"
    using assms by (auto simp: takes_stray_close_def split: Qwen3_5OutputParserState.splits option.splits)
  have "i + length m \<le> length (op_pending_output self)" by (rule earliest_marker_prefix(4) [OF control_markers(5) m])
  then show ?thesis
    using e stray trim_start_append [OF stray(2), of b] earliest_marker_append [OF control_markers(5) m, of b]
    by (simp add: takes_stray_close_def)
qed

lemma no_stray_close_taken:
  assumes "op_state self = InToolCall entry" "\<not> takes_stray_close self"
    and "earliest_marker (op_pending_output self) (THINK_END_MARKER # tool_call_end_markers (te_kind entry)) = Some (i, m)"
    and "m \<noteq> THINK_END_MARKER"
  shows "(if m \<noteq> TOOL_CALL_END_MARKER then consume_trailing_envelope_close_if_present else id)
      (drop_pending_prefix (i + length m) self) = drop_pending_prefix (i + length m) self"
  using assms by (auto simp: takes_stray_close_def consume_trailing_envelope_close_if_present_def strip_prefix_def
      drop_pending_prefix_def)

lemma append_pending_commutes:
  "n \<le> length (op_pending_output self) \<Longrightarrow>
     drop_pending_prefix n (append_pending b self) = append_pending b (drop_pending_prefix n self)"
  "enter_state_after_start_marker m r (append_pending b self) = append_pending b (enter_state_after_start_marker m r self)"
  "try_record_completed_tool_call (append_pending b self) = apfst (append_pending b) (try_record_completed_tool_call self)"
  "emit_tool_call_or_visible_text event body (append_pending b self)
     = apfst (append_pending b) (emit_tool_call_or_visible_text event body self)"
  "parse_tool_call json (append_pending b self) body = parse_tool_call json self body"
  "fail_open_closed_tool_call json (append_pending b self) body = fail_open_closed_tool_call json self body"
  "(append_pending b self)\<lparr>op_state := st\<rparr> = append_pending b (self\<lparr>op_state := st\<rparr>)"
  "(append_pending b self)\<lparr>op_has_streamed_visible_text := v\<rparr> = append_pending b (self\<lparr>op_has_streamed_visible_text := v\<rparr>)"
proof -
  have same: "op_completed_tool_call_count (append_pending b self) = op_completed_tool_call_count self"
    "op_declared_tools (append_pending b self) = op_declared_tools self" by (simp_all add: append_pending_def)
  show "parse_tool_call json (append_pending b self) body = parse_tool_call json self body"
    "fail_open_closed_tool_call json (append_pending b self) body = fail_open_closed_tool_call json self body"
    unfolding parse_tool_call_def fail_open_closed_tool_call_def same by (rule refl)+
  show "n \<le> length (op_pending_output self) \<Longrightarrow>
     drop_pending_prefix n (append_pending b self) = append_pending b (drop_pending_prefix n self)"
    by (simp add: drop_pending_prefix_def append_pending_def)
  show "enter_state_after_start_marker m r (append_pending b self) = append_pending b (enter_state_after_start_marker m r self)"
    by (simp add: enter_state_after_start_marker_def append_pending_def Let_def)
  show recorded: "try_record_completed_tool_call (append_pending b self) = apfst (append_pending b) (try_record_completed_tool_call self)"
    by (simp add: try_record_completed_tool_call_def append_pending_def split: option.splits)
  show "emit_tool_call_or_visible_text event body (append_pending b self)
     = apfst (append_pending b) (emit_tool_call_or_visible_text event body self)"
    by (simp add: emit_tool_call_or_visible_text_def recorded split: Qwen3_5OutputEvent.splits prod.splits)
qed (simp_all add: append_pending_def)

lemma closed_tool_call_append:
  "closed_tool_call json kind body (append_pending b self) = apfst (append_pending b) (closed_tool_call json kind body self)"
  by (simp add: closed_tool_call_def append_pending_commutes Let_def split: option.splits prod.splits sum.splits)

lemma resync_append:
  assumes "str_find THINK_END_MARKER (op_pending_output self) = Some i"
  shows "resync_spurious_tool_call entry i (append_pending b self) = apfst (append_pending b) (resync_spurious_tool_call entry i self)"
proof -
  have "i + length THINK_END_MARKER \<le> length (op_pending_output self)" using str_find_Some [OF assms] by simp
  then show ?thesis by (simp add: resync_spurious_tool_call_def append_pending_commutes Let_def)
qed

text \<open>In a call the first of the closes and the think close decides.\<close>

lemma advance_tool_call_eq:
  "advance_tool_call json entry self =
     (case earliest_marker (op_pending_output self) (THINK_END_MARKER # tool_call_end_markers (te_kind entry)) of
        None \<Rightarrow> None
      | Some (i, m) \<Rightarrow>
          if m = THINK_END_MARKER then Some (resync_spurious_tool_call entry i self)
          else Some (closed_tool_call json (te_kind entry) (take i (op_pending_output self))
                 ((if m \<noteq> TOOL_CALL_END_MARKER then consume_trailing_envelope_close_if_present else id)
                    (drop_pending_prefix (i + length m) self))))"
proof -
  let ?s = "op_pending_output self"
  let ?ends = "tool_call_end_markers (te_kind entry)"
  let ?all = "THINK_END_MARKER # ?ends"
  have distinct: "THINK_END_MARKER \<notin> set ?ends"
    by (auto simp: tool_call_end_markers_def marker_defs split: ToolCallEntryKind.splits)
  show ?thesis
  proof (cases "earliest_marker ?s ?all")
    case None
    then have "str_find THINK_END_MARKER ?s = None" "earliest_marker ?s ?ends = None"
      by (simp_all add: earliest_marker_None)
    then show ?thesis using None by (simp add: advance_tool_call_def Let_def)
  next
    case (Some found)
    obtain i m where m: "earliest_marker ?s ?all = Some (i, m)" using Some by (cases found) auto
    note at = earliest_marker_Some [OF m]
    show ?thesis
    proof (cases "m = THINK_END_MARKER")
      case True
      have "i < k" if "earliest_marker ?s ?ends = Some (k, m')" for k m'
      proof -
        note at' = earliest_marker_Some(1,2) [OF that]
        have "i \<noteq> k"
        proof
          assume "i = k"
          then have "prefix m m' \<or> prefix m' m"
            using str_find_prefix [OF at(2)] str_find_prefix [OF at'(2)] by (metis prefix_same_cases)
          moreover have "m' \<in> set ?all" "m \<in> set ?all" using at(1) at'(1) by auto
          ultimately have "m = m'" using control_markers(5) [of "te_kind entry"] unfolding control_markers_def by metis
          then show False using True at'(1) distinct by simp
        qed
        moreover have "i \<le> k" using at(3) [of m' k] at' by simp
        ultimately show ?thesis by simp
      qed
      then show ?thesis using m True at(2) by (auto simp: advance_tool_call_def Let_def split: option.splits)
    next
      case False
      then have "m \<in> set ?ends" using at(1) by simp
      then have ends: "earliest_marker ?s ?ends = Some (i, m)"
        using earliest_marker_prefix [OF control_markers(5) m] by (intro earliest_markerI) auto
      moreover have "\<not> j < i" if "str_find THINK_END_MARKER ?s = Some j" for j using at(3) [of THINK_END_MARKER j] that by simp
      ultimately show ?thesis using m False
        by (auto simp: advance_tool_call_def Let_def split: option.splits)
    qed
  qed
qed

lemma advance_marker_append:
  assumes "advance json self = Some (self1, events)" "\<not> takes_stray_close (append_pending b self)"
    and "is_tool_call (op_state self) \<or> earliest_marker (op_pending_output self) (scanned_markers (op_state self)) \<noteq> None"
  shows "advance json (append_pending b self) = Some (append_pending b self1, events)"
proof (cases "op_state self")
  case InText
  then obtain i m where m: "earliest_marker (op_pending_output self) TEXT_STATE_START_MARKERS = Some (i, m)"
    using assms(3) by (auto simp: is_tool_call_def scanned_markers_def)
  show ?thesis
    using assms(1) InText earliest_marker_append [OF _ m, of b] m earliest_marker_prefix(4) [OF _ m]
    by (auto simp: advance_def advance_text_def append_pending_commutes)
next
  case InReasoning
  then obtain i m where m: "earliest_marker (op_pending_output self) REASONING_SCAN_MARKERS = Some (i, m)"
    using assms(3) by (auto simp: is_tool_call_def scanned_markers_def)
  show ?thesis
    using assms(1) InReasoning earliest_marker_append [OF _ m, of b] m earliest_marker_prefix(4) [OF _ m]
    by (auto simp: advance_def advance_reasoning_def append_pending_commutes)
next
  case SuppressedLateReasoning
  then obtain i where i: "str_find THINK_END_MARKER (op_pending_output self) = Some i"
    using assms(3) by (auto simp: is_tool_call_def scanned_markers_def earliest_single)
  have "str_find THINK_END_MARKER (op_pending_output self @ b) = Some i"
    by (rule str_find_append [OF _ i]) (simp add: control_marker_def THINK_END_MARKER_def)
  then show ?thesis using assms(1) SuppressedLateReasoning i str_find_Some [OF i]
    by (auto simp: advance_def advance_suppressed_late_reasoning_def append_pending_commutes)
next
  case (InToolCall entry)
  let ?s = "op_pending_output self"
  let ?all = "THINK_END_MARKER # tool_call_end_markers (te_kind entry)"
  obtain i m where m: "earliest_marker ?s ?all = Some (i, m)"
    using assms(1) InToolCall by (auto simp: advance_def advance_tool_call_eq split: option.splits)
  note m' = earliest_marker_append [OF control_markers(5) m, of b]
  note at = earliest_marker_prefix [OF control_markers(5) m]
  have think: "str_find THINK_END_MARKER ?s = Some i" if "m = THINK_END_MARKER"
    using earliest_marker_Some(2) [OF m] that by simp
  have e: "op_state (append_pending b self) = InToolCall entry"
    and m_all: "earliest_marker (op_pending_output (append_pending b self)) ?all = Some (i, m)"
    using InToolCall m' by simp_all
  have "\<not> takes_stray_close self" using assms(2) takes_stray_close_append by blast
  then have kept: "m \<noteq> THINK_END_MARKER \<Longrightarrow> (if m \<noteq> TOOL_CALL_END_MARKER then consume_trailing_envelope_close_if_present else id)
      (drop_pending_prefix (i + length m) self) = drop_pending_prefix (i + length m) self"
    "m \<noteq> THINK_END_MARKER \<Longrightarrow> (if m \<noteq> TOOL_CALL_END_MARKER then consume_trailing_envelope_close_if_present else id)
      (drop_pending_prefix (i + length m) (append_pending b self)) = drop_pending_prefix (i + length m) (append_pending b self)"
    using no_stray_close_taken [OF InToolCall _ m] no_stray_close_taken [OF e assms(2) m_all] by blast+
  show ?thesis
  proof (cases "m = THINK_END_MARKER")
    case True
    then show ?thesis using assms(1) InToolCall m m' at(4) resync_append [OF think]
      by (auto simp: advance_def advance_tool_call_eq append_pending_commutes split: if_splits)
  next
    case False
    then show ?thesis using assms(1) InToolCall m m' at(4) kept
      unfolding advance_def advance_tool_call_eq
      by (auto simp: append_pending_commutes closed_tool_call_append simp del: if_split_asm)
  qed
qed

text \<open>A text in which no call without an envelope is closed right before the close of an envelope.\<close>

function no_stray_close :: "'n json_library \<Rightarrow> Qwen3_5OutputParser \<Rightarrow> bool" where
  "no_stray_close json self \<longleftrightarrow>
     \<not> takes_stray_close self \<and> (case advance json self of None \<Rightarrow> True | Some (self1, events) \<Rightarrow> no_stray_close json self1)"
  by pat_completeness auto

termination
  by (relation "measure (\<lambda>(json, self). length (op_pending_output self))") (auto dest: advance_shorter)

declare no_stray_close.simps [simp del]

lemma advance_text_step:
  fixes self :: Qwen3_5OutputParser and b :: string
  assumes "advance json self = Some (self1, events)" "\<not> is_tool_call (op_state self)"
    and "earliest_marker (op_pending_output self) (scanned_markers (op_state self)) = None"
  defines "n \<equiv> scan_point (scanned_markers (op_state self)) (op_pending_output self)"
  shows "0 < n" "self1 = after_text (drop n (op_pending_output self)) self" "events = delta self (take n (op_pending_output self))"
    and "take n (op_pending_output self) \<noteq> []"
    and "clear_of (scanned_markers (op_state self)) (take n (op_pending_output self)) (drop n (op_pending_output self) @ b)"
proof -
  show parts: "0 < n" "self1 = after_text (drop n (op_pending_output self)) self" "events = delta self (take n (op_pending_output self))"
    using assms(1-3) by (cases "op_state self"; auto simp: n_def advance_def advance_text_def advance_reasoning_def
      advance_suppressed_late_reasoning_def scanned_markers_def scan_point_def after_text_def delta_def earliest_single
      drop_pending_prefix_def is_tool_call_def Let_def split: if_splits)+
  have "n \<le> length (op_pending_output self)" by (simp add: n_def scan_point_def assms(3))
  then show "take n (op_pending_output self) \<noteq> []" using parts(1) by auto
  show "clear_of (scanned_markers (op_state self)) (take n (op_pending_output self)) (drop n (op_pending_output self) @ b)"
    unfolding n_def by (rule scanned_is_clear [OF control_scanned assms(3)])
qed

section \<open>Reachable parsers\<close>

inductive reachable_parser :: "'n json_library \<Rightarrow> Qwen3_5OutputParser \<Rightarrow> bool" for json where
  reachable_new: "output_parser_new json declared_tools = Inr self \<Longrightarrow> reachable_parser json self"
| reachable_after_thinking_prefix: "new_after_thinking_prefix json declared_tools = Inr self \<Longrightarrow> reachable_parser json self"
| reachable_push: "reachable_parser json self \<Longrightarrow> reachable_parser json (fst (push_fragment json decoded_fragment self))"
| reachable_finish: "reachable_parser json self \<Longrightarrow> reachable_parser json (fst (output_parser_finish json self))"
| reachable_reset: "reachable_parser json self \<Longrightarrow> reachable_parser json (reset_after_model_visible_correction enable_thinking self)"

text \<open>A parser that scans retains nothing, or the start of a marker.\<close>

definition settled :: "Qwen3_5OutputParser \<Rightarrow> bool" where
  "settled self \<longleftrightarrow> is_tool_call (op_state self) \<or> op_pending_output self = []
     \<or> list_ex (strict_prefix (op_pending_output self)) (scanned_markers (op_state self))"

lemma advance_None_settled: "advance json self = None \<Longrightarrow> settled self"
proof -
  assume stuck: "advance json self = None"
  let ?s = "op_pending_output self"
  let ?ms = "scanned_markers (op_state self)"
  show ?thesis
  proof (cases "is_tool_call (op_state self) \<or> ?s = []")
    case False
    have none: "earliest_marker ?s ?ms = None" and k: "longest_suffix_prefix_for_markers ?s ?ms = length ?s"
      using stuck False longest_suffix_bound(2) [of ?s ?ms]
      by (cases "op_state self"; auto simp: advance_def advance_text_def advance_reasoning_def is_tool_call_def
          advance_suppressed_late_reasoning_def scanned_markers_def earliest_single Let_def split: if_splits option.splits)+
    then obtain m where m: "m \<in> set ?ms" "prefix ?s m" using False longest_suffix_is_prefix [of ?s ?ms] by auto
    moreover have "\<not> prefix m (drop 0 ?s)" using none m(1) earliest_marker_NoneI [OF control_scanned] by blast
    ultimately show ?thesis by (auto simp: settled_def list_ex_iff strict_prefix_def)
  qed (auto simp: settled_def)
qed

lemma advance_all_settled: "settled (fst (advance_all json self))"
proof (induction json self rule: advance_all.induct)
  case (1 json self)
  then show ?case
    by (cases "advance json self") (auto simp: advance_all_step prepend_def advance_None_settled)
qed


lemma advance_empty: "op_pending_output self = [] \<Longrightarrow> advance json self = None"
proof -
  assume empty: "op_pending_output self = []"
  have none: "str_find m [] = None" if "m \<noteq> []" for m using that by simp
  have "m \<noteq> []" if "m \<in> set ms" "control_markers ms" for m and ms :: "string list"
    using that by (auto simp: control_markers_def control_marker_def list_all_iff)
  then have e: "earliest_marker [] ms = None" if "control_markers ms" for ms :: "string list"
    using none that by (auto simp: earliest_marker_None)
  show ?thesis using empty e [OF control_markers(1)] e [OF control_markers(2)] e [OF control_markers(5)]
    by (auto simp: advance_def advance_text_def advance_reasoning_def advance_suppressed_late_reasoning_def advance_tool_call_eq
        THINK_END_MARKER_def split: Qwen3_5OutputParserState.split)
qed

lemma advance_all_done: "advance json (fst (advance_all json self)) = None"
proof (induction json self rule: advance_all.induct)
  case (1 json self)
  then show ?case by (cases "advance json self") (auto simp: advance_all_step prepend_def)
qed

lemma delta_for_state_pending:
  "op_pending_output (fst (visible_delta_for_current_state s self)) = op_pending_output self"
  by (simp add: visible_delta_for_current_state_def split: Qwen3_5OutputParserState.split)

lemma flush_empties: "op_pending_output (fst (flush_pending_as_visible_delta self)) = []"
  using delta_for_state_pending [of "op_pending_output self" "self\<lparr>op_pending_output := []\<rparr>"]
  by (auto simp: flush_pending_as_visible_delta_def split: prod.split)

lemma salvage_empties: "op_pending_output (fst (salvage_unclosed_tool_call json self)) = []"
proof -
  have "op_pending_output self2 = op_pending_output self1"
    if "emit_tool_call_or_visible_text event body self1 = (self2, event')" for event body self1 self2 event'
    using pending_after(1) [of event body self1] that by simp
  then show ?thesis
    unfolding salvage_unclosed_tool_call_def Let_def by (auto split: option.split prod.split)
qed

lemma push_done: "advance json (fst (push_fragment json f self)) = None"
proof -
  have "op_pending_output (fst (visible_delta_for_current_state f (fst (flush_pending_as_visible_delta self)))) = []"
    by (simp add: delta_for_state_pending flush_empties)
  then show ?thesis
    using advance_all_done [of json "append_pending f self"] advance_all_done [of json "append_pending f (fst (flush_pending_as_visible_delta self))"]
    by (auto simp: push_fragment_def advance_empty salvage_empties split: prod.split)
qed

text \<open>Between two calls nothing is left to do.\<close>

lemma reachable_done: "reachable_parser json self \<Longrightarrow> advance json self = None"
proof (induction rule: reachable_parser.induct)
  case (reachable_finish self)
  then show ?case
    by (auto simp: output_parser_finish_def flush_empties salvage_empties advance_empty split: Qwen3_5OutputParserState.split)
next
  case (reachable_push self f)
  show ?case by (rule push_done)
qed (auto simp: advance_empty output_parser_new_def new_after_thinking_prefix_def new_with_state_def
    reset_after_model_visible_correction_def result_bind_def split: sum.splits)

lemmas reachable_settled = advance_None_settled [OF reachable_done]

lemma settled_length: "settled self \<Longrightarrow> \<not> is_tool_call (op_state self) \<Longrightarrow> length (op_pending_output self) \<le> 10"
  by (cases "op_state self") (auto simp: settled_def scanned_markers_def TEXT_STATE_START_MARKERS_def REASONING_SCAN_MARKERS_def
      marker_defs is_tool_call_def dest: prefix_length_less)

lemma unat_str_len: "length s < 2 ^ 64 \<Longrightarrow> unat (str_len s) = length s"
  by (simp add: str_len_def unat_of_nat take_bit_nat_eq_self)

lemma reachable_push_eq:
  assumes "reachable_parser json self" "str_len f \<le> MAX_OUTPUT_FRAGMENT_BYTES"
    and "is_tool_call (op_state self) \<Longrightarrow> length (op_pending_output self) + length f < 2 ^ 64"
  shows "push_fragment json f self = advance_all json (append_pending f self)"
proof (cases "is_tool_call (op_state self)")
  case True
  then have "unat (str_len (op_pending_output self)) + unat (str_len f) < 2 ^ 64" using assms(3) by (simp add: unat_str_len)
  then have "checked_add (str_len (op_pending_output self)) (str_len f) \<noteq> None" by (simp add: checked_add_def)
  then show ?thesis using assms(2) True
    by (auto simp: push_fragment_def not_less requires_marker_scan_pending_output_cap_def is_tool_call_def
        split: Qwen3_5OutputParserState.splits)
next
  case False
  have "length (op_pending_output self) \<le> 10" by (rule settled_length [OF reachable_settled [OF assms(1)] False])
  then have "unat (str_len (op_pending_output self)) \<le> 10" by (simp add: unat_str_len)
  moreover have "unat (str_len f) \<le> 16 * 1024" using assms(2) by (simp add: MAX_OUTPUT_FRAGMENT_BYTES_def word_le_nat_alt)
  ultimately have "saturating_add (str_len (op_pending_output self)) (str_len f) \<le> MAX_MARKER_SCAN_PENDING_OUTPUT_BYTES"
    by (simp add: word_le_nat_alt unat_saturating_add MAX_MARKER_SCAN_PENDING_OUTPUT_BYTES_def)
  then show ?thesis using assms(2) False by (auto simp: push_fragment_def not_less)
qed


section \<open>Fragments do not matter\<close>

lemma scanning_takes_nothing: "\<not> is_tool_call (op_state self) \<Longrightarrow> \<not> takes_stray_close self"
  by (auto simp: takes_stray_close_def is_tool_call_def split: Qwen3_5OutputParserState.splits)

lemma no_stray_close_step:
  "advance json self = Some (self1, events) \<Longrightarrow> no_stray_close json self \<longleftrightarrow> \<not> takes_stray_close self \<and> no_stray_close json self1"
  "advance json self = None \<Longrightarrow> no_stray_close json self \<longleftrightarrow> \<not> takes_stray_close self"
  by (subst no_stray_close.simps; simp)+

lemma no_stray_close_scan:
  assumes "\<not> is_tool_call (op_state self)" "n = scan_point (scanned_markers (op_state self)) (op_pending_output self)" "0 < n"
  shows "no_stray_close json self \<longleftrightarrow> no_stray_close json (after_text (drop n (op_pending_output self)) self)"
  using advance_scan_step [OF assms, of json]
proof (elim disjE conjE)
  assume "advance json self \<noteq> None"
    "advance json self = advance json (after_text (drop n (op_pending_output self)) self)"
  then show ?thesis using assms(1) by (cases "advance json self") (auto simp: no_stray_close_step(1) scanning_takes_nothing)
qed (simp add: no_stray_close_step(1) scanning_takes_nothing [OF assms(1)])

lemma no_stray_close_skip:
  assumes "\<not> is_tool_call (op_state self)" "op_pending_output self = u @ r" "u \<noteq> []"
    and "clear_of (scanned_markers (op_state self)) u r"
  shows "no_stray_close json self \<longleftrightarrow> no_stray_close json (after_text r self)"
proof -
  define n where "n = scan_point (scanned_markers (op_state self)) r"
  have "scan_point (scanned_markers (op_state self)) (u @ r) = length u + n"
    unfolding n_def by (rule scan_point_skip [OF _ assms(4)]) simp
  then have "no_stray_close json self \<longleftrightarrow> no_stray_close json (after_text (drop n r) self)"
    using no_stray_close_scan [OF assms(1) refl, of json] assms(2,3) by simp
  then show ?thesis
    using no_stray_close_scan [of "after_text r self" n json] assms(1) by (cases "n = 0") (simp_all add: n_def)
qed

lemma stray_close_step:
  assumes step: "advance json self = Some (self1, events)" and free: "no_stray_close json (append_pending b self)"
  shows "no_stray_close json (append_pending b self1)"
    "same_stream (advance_all json (append_pending b self)) (prepend events (advance_all json (append_pending b self1)))"
proof -
  have takes: "\<not> takes_stray_close (append_pending b self)" using free no_stray_close.simps [of json "append_pending b self"] by simp
  let ?s = "op_pending_output self"
  have "no_stray_close json (append_pending b self1)
    \<and> same_stream (advance_all json (append_pending b self)) (prepend events (advance_all json (append_pending b self1)))"
  proof (cases "is_tool_call (op_state self) \<or> earliest_marker ?s (scanned_markers (op_state self)) \<noteq> None")
    case True
    note ahead = advance_marker_append [OF step takes True]
    show ?thesis using advance_all_step(2) [OF ahead] no_stray_close_step(1) [OF ahead] free by (simp add: same_stream_def)
  next
    case False
    define n where "n = scan_point (scanned_markers (op_state self)) ?s"
    have none: "earliest_marker ?s (scanned_markers (op_state self)) = None" using False by blast
    note taken = advance_text_step [OF step _ none, folded n_def]
    have "same_stream (advance_all json (append_pending b self))
        (prepend (delta (append_pending b self) (take n ?s)) (advance_all json (after_text (drop n ?s @ b) (append_pending b self))))"
      using False taken(4) taken(5) [of b] by (intro skip_clear_text) simp_all
    moreover have "no_stray_close json (append_pending b self) \<longleftrightarrow>
        no_stray_close json (after_text (drop n ?s @ b) (append_pending b self))"
      using False taken(4) taken(5) [of b] by (intro no_stray_close_skip) simp_all
    ultimately show ?thesis using taken(2,3) False free by simp
  qed
  then show "no_stray_close json (append_pending b self1)"
    "same_stream (advance_all json (append_pending b self)) (prepend events (advance_all json (append_pending b self1)))"
    by simp_all
qed

text \<open>What a text without such a close leads to, part by part.\<close>

lemma advance_all_append:
  "no_stray_close json (append_pending b self) \<Longrightarrow>
     same_stream (advance_all json (append_pending b self))
       (prepend (snd (advance_all json self)) (advance_all json (append_pending b (fst (advance_all json self)))))
     \<and> no_stray_close json self \<and> no_stray_close json (append_pending b (fst (advance_all json self)))"
proof (induction json self rule: advance_all.induct)
  case (1 json self)
  have takes: "\<not> takes_stray_close self"
    using 1(2) no_stray_close.simps [of json "append_pending b self"] takes_stray_close_append by auto
  show ?case
  proof (cases "advance json self")
    case None
    then show ?thesis using takes 1(2)
      by (simp add: advance_all_step(1) same_stream_prepend(3) no_stray_close_step(2)) (simp add: same_stream_def)
  next
    case (Some step)
    obtain self1 events where step: "advance json self = Some (self1, events)" using Some by (cases step) auto
    note next_step = stray_close_step [OF step 1(2)]
    let ?rest = "prepend (snd (advance_all json self1)) (advance_all json (append_pending b (fst (advance_all json self1))))"
    have IH: "same_stream (advance_all json (append_pending b self1)) ?rest" "no_stray_close json self1"
      "no_stray_close json (append_pending b (fst (advance_all json self1)))" using 1(1) [OF step refl next_step(1)] by simp_all
    have "same_stream (prepend events (advance_all json (append_pending b self1))) (prepend events ?rest)"
      by (rule same_stream_prepend(1) [OF refl IH(1)])
    moreover have "prepend events ?rest
        = prepend (snd (advance_all json self)) (advance_all json (append_pending b (fst (advance_all json self))))"
      "fst (advance_all json self) = fst (advance_all json self1)"
      by (simp_all add: advance_all_step(2) [OF step] prepend_def)
    ultimately show ?thesis using next_step(2) IH(2,3) takes no_stray_close_step(1) [OF step] by (simp add: same_stream_def)
  qed
qed

fun push_fragments ::
    "'n json_library \<Rightarrow> string list \<Rightarrow> Qwen3_5OutputParser \<Rightarrow> Qwen3_5OutputParser \<times> Qwen3_5OutputEvent list" where
  "push_fragments json [] self = (self, [])"
| "push_fragments json (f # fs) self =
     prepend (snd (push_fragment json f self)) (push_fragments json fs (fst (push_fragment json f self)))"

lemma advance_all_length: "length (op_pending_output (fst (advance_all json self))) \<le> length (op_pending_output self)"
proof (induction json self rule: advance_all.induct)
  case (1 json self)
  then show ?case using advance_shorter [of json self]
    by (cases "advance json self") (fastforce simp: advance_all_step prepend_def)+
qed

lemma streaming_is_whole:
  assumes "reachable_parser json self" "list_all (\<lambda>f. str_len f \<le> MAX_OUTPUT_FRAGMENT_BYTES) fs"
    and "length (op_pending_output self) + length (concat fs) < 2 ^ 64"
    and "no_stray_close json (append_pending (concat fs) self)"
  shows "same_stream (push_fragments json fs self) (advance_all json (append_pending (concat fs) self))"
  using assms
proof (induction fs arbitrary: self)
  case Nil
  have "append_pending [] self = self" by (simp add: append_pending_def)
  then show ?case using advance_all_step(1) [OF reachable_done [OF Nil.prems(1)]] by (simp add: same_stream_def)
next
  case (Cons f fs)
  let ?self1 = "append_pending f self"
  have whole: "append_pending (concat (f # fs)) self = append_pending (concat fs) ?self1" by (simp add: append_pending_def)
  have push: "push_fragment json f self = advance_all json ?self1"
    using Cons.prems by (intro reachable_push_eq) simp_all
  have free: "no_stray_close json (append_pending (concat fs) ?self1)" using Cons.prems(4) unfolding whole .
  have rest: "no_stray_close json (append_pending (concat fs) (fst (advance_all json ?self1)))"
    using advance_all_append [OF free] by simp
  have "reachable_parser json (fst (advance_all json ?self1))"
    using reachable_push [OF Cons.prems(1), of f] push by simp
  moreover have "length (op_pending_output (fst (advance_all json ?self1))) + length (concat fs) < 2 ^ 64"
    using advance_all_length [of json ?self1] Cons.prems(3) by simp
  ultimately have "same_stream (push_fragments json fs (fst (advance_all json ?self1)))
      (advance_all json (append_pending (concat fs) (fst (advance_all json ?self1))))"
    using Cons.IH Cons.prems(2) rest by simp
  then have "same_stream (push_fragments json (f # fs) self)
      (prepend (snd (advance_all json ?self1)) (advance_all json (append_pending (concat fs) (fst (advance_all json ?self1)))))"
    by (simp add: push same_stream_prepend(1))
  then show ?case using advance_all_append [OF free] unfolding whole by (simp add: same_stream_def)
qed

definition complete_run ::
    "'n json_library \<Rightarrow> string list \<Rightarrow> Qwen3_5OutputParser \<Rightarrow> Qwen3_5OutputParser \<times> Qwen3_5OutputEvent list" where
  "complete_run json fragments self =
     (let pushed = push_fragments json fragments self
      in prepend (snd pushed) (output_parser_finish json (fst pushed)))"

text \<open>C34. How a text is cut does not matter: two lists of fragments that make up the same text, each fragment within the
  limit of 16 KiB, lead a reachable parser to the same final state, and the client sees the same bytes on the same channels
  and the same calls in the same order, the end of the stream included. The exception is a text in which a call that has no
  envelope (a bare \<open>function\<close> or \<open>invoke\<close> tag) is closed by its own marker and the close of an envelope follows, white space
  aside: the code takes that stray close along only when it has already arrived (\<open>late_envelope_close_is_shown\<close>).\<close>

theorem fragments_do_not_matter:
  assumes "reachable_parser json self" "concat fs = concat gs"
    and "list_all (\<lambda>f. str_len f \<le> MAX_OUTPUT_FRAGMENT_BYTES) (fs @ gs)"
    and "length (op_pending_output self) + length (concat fs) < 2 ^ 64"
    and "no_stray_close json (append_pending (concat fs) self)"
  shows "same_stream (complete_run json fs self) (complete_run json gs self)"
proof -
  have "same_stream (push_fragments json fs self) (advance_all json (append_pending (concat fs) self))"
    using assms by (intro streaming_is_whole) simp_all
  moreover have "same_stream (push_fragments json gs self) (advance_all json (append_pending (concat gs) self))"
    using assms by (intro streaming_is_whole) simp_all
  ultimately show ?thesis unfolding complete_run_def Let_def assms(2) by (simp add: same_stream_def prepend_def)
qed

text \<open>C35. A parser that scans for markers retains nothing, or the proper start of one of them, at most ten bytes; so a
  fragment within the limit is always scanned, and the branch that drains the pending text at its cap is never taken.\<close>

theorem retained_text_is_a_started_marker:
  assumes "reachable_parser json self" "requires_marker_scan_pending_output_cap (op_state self)"
    and "str_len decoded_fragment \<le> MAX_OUTPUT_FRAGMENT_BYTES"
  shows "(op_pending_output self = [] \<or> (\<exists>m \<in> set (scanned_markers (op_state self)). strict_prefix (op_pending_output self) m))
    \<and> length (op_pending_output self) \<le> 10
    \<and> push_fragment json decoded_fragment self = advance_all json (append_pending decoded_fragment self)"
proof -
  have scanning: "\<not> is_tool_call (op_state self)"
    using assms(2) by (auto simp: requires_marker_scan_pending_output_cap_def is_tool_call_def split: Qwen3_5OutputParserState.splits)
  note settled = reachable_settled [OF assms(1)]
  show ?thesis using settled settled_length [OF settled scanning] reachable_push_eq [OF assms(1,3)] scanning
    by (auto simp: settled_def list_ex_iff)
qed

section \<open>Examples\<close>

text \<open>A JSON library that reads whole numbers and writes the names of the members.\<close>

definition example_json :: "int json_library" where
  "example_json = \<lparr>jl_from_str = (\<lambda>s. map_option JsonNumber (parse_i64 s)),
     jl_to_string = (\<lambda>v. case v of JsonObject members \<Rightarrow> Some (''{'' @ concat (map fst members) @ ''}'') | _ \<Rightarrow> Some ''0''),
     jl_number_from_i64 = id, jl_finite_number = parse_i64\<rparr>"

definition example_parser :: Qwen3_5OutputParser where
  "example_parser = \<lparr>op_completed_tool_call_count = 0, op_declared_tools = [], op_has_streamed_visible_text = False,
     op_pending_output = [], op_state = InText\<rparr>"

lemma example_parser_reachable: "reachable_parser example_json example_parser"
  by (rule reachable_new [of _ "[]"]) (simp add: output_parser_new_def new_with_state_def result_bind_def example_parser_def)

theorem fragments_do_not_matter_witness:
  "same_stream
     (complete_run example_json [''hi<func'', ''tion=f></function'', ''> bye''] example_parser)
     (complete_run example_json [''hi<function=f></function> bye''] example_parser)"
proof (rule fragments_do_not_matter [OF example_parser_reachable])
  show "no_stray_close example_json
    (append_pending (concat [''hi<func'', ''tion=f></function'', ''> bye'']) example_parser)" by code_simp
qed (simp_all add: str_len_def MAX_OUTPUT_FRAGMENT_BYTES_def example_parser_def)

theorem retained_text_is_a_started_marker_witness:
  "length (op_pending_output (fst (push_fragment example_json ''a<thi'' example_parser))) \<le> 10
   \<and> op_pending_output (fst (push_fragment example_json ''a<thi'' example_parser)) = ''<thi''"
proof -
  have "reachable_parser example_json (fst (push_fragment example_json ''a<thi'' example_parser))"
    by (rule reachable_push [OF example_parser_reachable])
  moreover have "op_state (fst (push_fragment example_json ''a<thi'' example_parser)) = InText"
    and pending: "op_pending_output (fst (push_fragment example_json ''a<thi'' example_parser)) = ''<thi''" by code_simp+
  ultimately show ?thesis
    using retained_text_is_a_started_marker [of example_json "fst (push_fragment example_json ''a<thi'' example_parser)" "[]"]
    by (simp add: requires_marker_scan_pending_output_cap_def str_len_def MAX_OUTPUT_FRAGMENT_BYTES_def)
qed

text \<open>A call without an envelope, closed by \<^verbatim>\<open></function>\<close>: the close of the envelope that follows it is taken along
  only when it has arrived. In a later fragment it is visible text.\<close>

lemma late_envelope_close_is_shown:
  "snd (push_fragments example_json [''<function=f></function>'', ''</tool_call>''] example_parser)
     = [ToolCallEvent \<lparr>tc_index = 0, tc_function_name = ''f'', tc_arguments_json = ''{}''\<rparr>, TextDelta ''</tool_call>'']"
  "snd (push_fragments example_json [''<function=f></function></tool_call>''] example_parser)
     = [ToolCallEvent \<lparr>tc_index = 0, tc_function_name = ''f'', tc_arguments_json = ''{}''\<rparr>]"
  by code_simp+

text \<open>The rewriting of attributes does not spare the value of a parameter.\<close>

lemma value_with_attribute_is_rewritten:
  "normalize_foreign_tool_call_syntax (''<function=w><parameter=c>parameter name='' @ [CHR 0x22, CHR ''x'', CHR 0x22, CHR ''>''])
     = ''<function=w><parameter=c><parameter=x>''"
  by code_simp

end
