(* ===== verification/Prompt_Render.thy ===== *)
theory Prompt_Render
  imports Tool_Schema
begin

text \<open>
  The rendering of a chat history into the prompt of the model, under \<^verbatim>\<open>crates/model-serving/src/qwen3_5_core/text\<close>:
  \<^verbatim>\<open>template_safe_content.rs\<close> and \<^verbatim>\<open>prompt.rs\<close>, with the messages of \<^verbatim>\<open>crates/ipc-protocol/src/chat_generation.rs\<close>.
  A function that appends to the prompt is modelled by the text it appends. The lemmas show that no content becomes a
  marker of the template, and that the special tokens of a prompt are counted by the shape of the history alone.
\<close>

section \<open>Messages\<close>

record ChatImageInput =
  ci_mime_type :: string
  ci_decoded_bytes :: string

record ChatAssistantToolFunction =
  af_name :: string
  af_arguments_json :: string

record ChatAssistantToolCall =
  ac_id :: string
  ac_function :: ChatAssistantToolFunction

datatype ChatMessage =
  SystemMessage string
| UserMessage string "ChatImageInput list"
| AssistantMessage "string option" "string option" "ChatAssistantToolCall list"
| ToolMessage string string

datatype Qwen3_5PromptError =
  MissingMessages
| SystemMessageMustBeFirst
| InvalidToolArguments string
| ToolArgumentsMustBeObject string
| InvalidToolParameters string
| SerializeToolDefinition string
| SerializeToolArgument

section \<open>Safe content\<close>

definition starts_reserved_template_marker :: "string \<Rightarrow> bool" where
  "starts_reserved_template_marker marker_suffix \<longleftrightarrow>
     prefix ''|'' marker_suffix
     \<or> prefix ''think>'' marker_suffix
     \<or> prefix ''/think>'' marker_suffix
     \<or> prefix ''tool_call>'' marker_suffix
     \<or> prefix ''/tool_call>'' marker_suffix
     \<or> prefix ''tool_response>'' marker_suffix
     \<or> prefix ''/tool_response>'' marker_suffix
     \<or> prefix ''tools>'' marker_suffix
     \<or> prefix ''/tools>'' marker_suffix
     \<or> prefix ''function='' marker_suffix
     \<or> prefix ''/function>'' marker_suffix
     \<or> prefix ''parameter='' marker_suffix
     \<or> prefix ''/parameter>'' marker_suffix"

function template_safe_content :: "string \<Rightarrow> string" where
  "template_safe_content remaining_content =
     (case str_find ''<'' remaining_content of
        None \<Rightarrow> remaining_content
      | Some marker_offset \<Rightarrow>
          (let marker_suffix = drop (marker_offset + 1) remaining_content
           in take marker_offset remaining_content
              @ (if starts_reserved_template_marker marker_suffix then ''&lt;'' else ''<'')
              @ template_safe_content marker_suffix))"
  by pat_completeness auto

termination
  by (relation "measure length") (auto dest: str_find_Some)

declare template_safe_content.simps [simp del]

section \<open>The template\<close>

definition newline :: string where
  "newline = [CHR 0x0A]"

definition IM_END :: string where "IM_END = ''<|im_end|>''"
definition IM_START :: string where "IM_START = ''<|im_start|>''"
definition THINK_END :: string where "THINK_END = ''</think>''"
definition THINK_START :: string where "THINK_START = ''<think>''"
definition TOOL_CALL_END :: string where "TOOL_CALL_END = ''</tool_call>''"
definition TOOL_CALL_START :: string where "TOOL_CALL_START = ''<tool_call>''"
definition TOOL_RESPONSE_END :: string where "TOOL_RESPONSE_END = ''</tool_response>''"
definition TOOL_RESPONSE_START :: string where "TOOL_RESPONSE_START = ''<tool_response>''"
definition TOOLS_END :: string where "TOOLS_END = ''</tools>''"
definition TOOLS_START :: string where "TOOLS_START = ''<tools>''"
definition VISION_END :: string where "VISION_END = ''<|vision_end|>''"
definition VISION_START :: string where "VISION_START = ''<|vision_start|>''"
definition IMAGE_PAD :: string where "IMAGE_PAD = ''<|image_pad|>''"

text \<open>The lines of the instructions, joined by newlines.\<close>

fun joined_lines :: "string list \<Rightarrow> string" where
  "joined_lines [] = []"
| "joined_lines [l] = l"
| "joined_lines (l # ls) = l @ newline @ joined_lines ls"

definition TOOL_INSTRUCTIONS :: string where
  "TOOL_INSTRUCTIONS = joined_lines
     ['''',
      '''',
      ''If you choose to call a function ONLY reply in the following format with NO suffix:'',
      '''',
      ''<tool_call>'',
      ''<function=example_function_name>'',
      ''<parameter=example_parameter_1>'',
      ''value_1'',
      ''</parameter>'',
      ''<parameter=example_parameter_2>'',
      ''This is the value for the second parameter'',
      ''that can span'',
      ''multiple lines'',
      ''</parameter>'',
      ''</function>'',
      ''</tool_call>'',
      '''',
      ''<IMPORTANT>'',
      ''Reminder:'',
      ''- Function calls MUST follow the specified format: an inner <function=...></function> block must be nested within <tool_call></tool_call> XML tags'',
      ''- Required parameters MUST be specified'',
      ''- You may provide optional reasoning for your function call in natural language BEFORE the function call, but NOT after'',
      ''- If there is no function call available, answer the question like normal with your current knowledge and do not tell the user about function calls'',
      ''</IMPORTANT>'']"

definition append_chat_message :: "string \<Rightarrow> string \<Rightarrow> string" where
  "append_chat_message role content =
     IM_START @ role @ newline @ template_safe_content content @ IM_END @ newline"

definition render_tool_definition :: "'n json_library \<Rightarrow> ChatToolDefinition \<Rightarrow> Qwen3_5PromptError + string" where
  "render_tool_definition json tool =
     (let to_json = (\<lambda>v. ok_or (jl_to_string json v) (SerializeToolDefinition (td_name tool)))
      in result_bind (ok_or (jl_from_str json (td_parameters_json tool)) (InvalidToolParameters (td_name tool))) (\<lambda>parameters.
         result_bind (to_json (JsonString (td_name tool))) (\<lambda>function_name_json.
         result_bind (to_json parameters) (\<lambda>parameters_json.
         result_bind (case td_description tool of
             None \<Rightarrow> Inr None
           | Some description \<Rightarrow> map_sum id Some (to_json (JsonString description))) (\<lambda>description_json.
         Inr (''{\"type\":\"function\",\"function\":{\"name\":'' @ function_name_json
           @ (case description_json of None \<Rightarrow> [] | Some d \<Rightarrow> '',\"description\":'' @ d)
           @ '',\"parameters\":'' @ parameters_json @ ''}}''))))))"

fun render_tools :: "'n json_library \<Rightarrow> ChatToolDefinition list \<Rightarrow> Qwen3_5PromptError + string" where
  "render_tools json [] = Inr []"
| "render_tools json (tool # tools) =
     result_bind (render_tool_definition json tool) (\<lambda>rendered_tool.
       result_bind (render_tools json tools) (\<lambda>rendered_tools.
         Inr (newline @ template_safe_content rendered_tool @ rendered_tools)))"

definition render_tool_system_preamble ::
    "'n json_library \<Rightarrow> ChatMessage \<Rightarrow> ChatToolDefinition list \<Rightarrow> Qwen3_5PromptError + string" where
  "render_tool_system_preamble json first_message tools =
     result_bind (render_tools json tools) (\<lambda>rendered_tools.
       Inr (IM_START @ ''system'' @ newline @ ''# Tools'' @ newline @ newline
         @ ''You have access to the following functions:'' @ newline @ newline
         @ TOOLS_START @ rendered_tools @ newline @ TOOLS_END @ TOOL_INSTRUCTIONS
         @ (case first_message of
              SystemMessage content \<Rightarrow>
                if str_trim_unicode content = [] then []
                else newline @ newline @ template_safe_content (str_trim_unicode content)
            | _ \<Rightarrow> [])
         @ IM_END @ newline))"

definition render_parameter_value :: "'n json_library \<Rightarrow> 'n Value \<Rightarrow> Qwen3_5PromptError + string" where
  "render_parameter_value json parameter_value =
     (case parameter_value of
        JsonString string_value \<Rightarrow> Inr string_value
      | _ \<Rightarrow> ok_or (jl_to_string json parameter_value) SerializeToolArgument)"

fun render_arguments :: "'n json_library \<Rightarrow> 'n json_map \<Rightarrow> Qwen3_5PromptError + string" where
  "render_arguments json [] = Inr []"
| "render_arguments json ((argument_name, argument_value) # argument_values) =
     result_bind (render_parameter_value json argument_value) (\<lambda>rendered_value.
       result_bind (render_arguments json argument_values) (\<lambda>rendered_arguments.
         Inr (''<parameter='' @ template_safe_content argument_name @ ''>'' @ newline
           @ template_safe_content rendered_value @ newline @ ''</parameter>'' @ newline @ rendered_arguments)))"

definition render_assistant_tool_call :: "'n json_library \<Rightarrow> ChatAssistantToolCall \<Rightarrow> Qwen3_5PromptError + string" where
  "render_assistant_tool_call json tool_call =
     (let opening = TOOL_CALL_START @ newline @ ''<function=''
            @ template_safe_content (af_name (ac_function tool_call)) @ ''>'' @ newline
      in case jl_from_str json (af_arguments_json (ac_function tool_call)) of
           Some (JsonObject argument_values) \<Rightarrow>
             result_bind (render_arguments json argument_values) (\<lambda>rendered_arguments.
               Inr (opening @ rendered_arguments @ ''</function>'' @ newline @ TOOL_CALL_END))
         | _ \<Rightarrow> Inr (opening @ template_safe_content (af_arguments_json (ac_function tool_call))
                  @ newline @ ''</function>'' @ newline @ TOOL_CALL_END))"

fun render_assistant_tool_calls ::
    "'n json_library \<Rightarrow> string \<Rightarrow> nat \<Rightarrow> ChatAssistantToolCall list \<Rightarrow> Qwen3_5PromptError + string" where
  "render_assistant_tool_calls json trimmed_content tool_call_index [] = Inr []"
| "render_assistant_tool_calls json trimmed_content tool_call_index (tool_call # tool_calls) =
     result_bind (render_assistant_tool_call json tool_call) (\<lambda>rendered_call.
       result_bind (render_assistant_tool_calls json trimmed_content (tool_call_index + 1) tool_calls) (\<lambda>rendered_calls.
         Inr ((if tool_call_index = 0 \<and> trimmed_content \<noteq> [] then newline @ newline
               else if 0 < tool_call_index then newline else []) @ rendered_call @ rendered_calls)))"

definition render_assistant_message ::
    "'n json_library \<Rightarrow> string \<Rightarrow> string \<Rightarrow> ChatAssistantToolCall list \<Rightarrow> Qwen3_5PromptError + string" where
  "render_assistant_message json content reasoning_content tool_calls =
     result_bind (render_assistant_tool_calls json (str_trim_unicode content) 0 tool_calls) (\<lambda>rendered_calls.
       Inr (IM_START @ ''assistant'' @ newline @ THINK_START @ newline
         @ template_safe_content (str_trim_unicode reasoning_content) @ newline @ THINK_END @ newline @ newline
         @ template_safe_content (str_trim_unicode content) @ rendered_calls @ IM_END @ newline))"

definition is_tool_message :: "ChatMessage \<Rightarrow> bool" where
  "is_tool_message message \<longleftrightarrow> (case message of ToolMessage _ _ \<Rightarrow> True | _ \<Rightarrow> False)"

definition tool_message_at :: "ChatMessage list \<Rightarrow> nat \<Rightarrow> bool" where
  "tool_message_at messages i \<longleftrightarrow> i < length messages \<and> is_tool_message (messages ! i)"

definition render_tool_response :: "ChatMessage list \<Rightarrow> nat \<Rightarrow> string \<Rightarrow> string" where
  "render_tool_response messages message_index content =
     (let has_prior_tool_message = (0 < message_index \<and> tool_message_at messages (message_index - 1));
          next_message_is_tool = tool_message_at messages (message_index + 1)
      in (if has_prior_tool_message then [] else IM_START @ ''user'')
         @ newline @ TOOL_RESPONSE_START @ newline @ template_safe_content content @ newline @ TOOL_RESPONSE_END
         @ (if next_message_is_tool then [] else IM_END @ newline))"

definition render_image :: "nat \<Rightarrow> string" where
  "render_image per_image_token_count =
     VISION_START @ concat (replicate per_image_token_count IMAGE_PAD) @ VISION_END"

definition render_user_message :: "string \<Rightarrow> nat list \<Rightarrow> string" where
  "render_user_message content image_token_counts =
     IM_START @ ''user'' @ newline @ concat (map render_image image_token_counts)
     @ template_safe_content (str_trim_unicode content) @ IM_END @ newline"

definition image_counts_of :: "nat list list \<Rightarrow> nat \<Rightarrow> nat list" where
  "image_counts_of image_token_counts_per_user_message i =
     (if i < length image_token_counts_per_user_message then image_token_counts_per_user_message ! i else [])"

text \<open>The loop over the messages; the last argument is what the loop still has to visit.\<close>

fun render_messages ::
    "'n json_library \<Rightarrow> ChatMessage list \<Rightarrow> nat list list \<Rightarrow> nat \<Rightarrow> nat \<Rightarrow> ChatMessage list \<Rightarrow> Qwen3_5PromptError + string" where
  "render_messages json messages image_counts message_index user_message_image_index [] = Inr []"
| "render_messages json messages image_counts message_index user_message_image_index (message # later) =
     (case message of
        SystemMessage _ \<Rightarrow>
          if message_index = 0
          then render_messages json messages image_counts (message_index + 1) user_message_image_index later
          else Inl SystemMessageMustBeFirst
      | UserMessage content _ \<Rightarrow>
          map_sum id (\<lambda>rendered. render_user_message content (image_counts_of image_counts user_message_image_index) @ rendered)
            (render_messages json messages image_counts (message_index + 1) (user_message_image_index + 1) later)
      | AssistantMessage content reasoning_content tool_calls \<Rightarrow>
          result_bind (render_assistant_message json (or_self [] content) (or_self [] reasoning_content) tool_calls)
            (\<lambda>rendered_message. map_sum id (\<lambda>rendered. rendered_message @ rendered)
               (render_messages json messages image_counts (message_index + 1) user_message_image_index later))
      | ToolMessage _ content \<Rightarrow>
          map_sum id (\<lambda>rendered. render_tool_response messages message_index (str_trim_unicode content) @ rendered)
            (render_messages json messages image_counts (message_index + 1) user_message_image_index later))"

definition assistant_opening :: "bool \<Rightarrow> string" where
  "assistant_opening enable_thinking =
     IM_START @ ''assistant'' @ newline @ THINK_START @ newline
     @ (if enable_thinking then [] else newline @ THINK_END @ newline @ newline)"

definition render_with_control_span ::
    "'n json_library \<Rightarrow> ChatMessage list \<Rightarrow> ChatToolDefinition list \<Rightarrow> bool \<Rightarrow> nat list list \<Rightarrow> Qwen3_5PromptError + string" where
  "render_with_control_span json messages tools enable_thinking image_token_counts_per_user_message =
     (case messages of
        [] \<Rightarrow> Inl MissingMessages
      | first_message # _ \<Rightarrow>
          result_bind
            (if tools = []
             then Inr (case first_message of
                SystemMessage content \<Rightarrow> append_chat_message ''system'' (str_trim_unicode content) | _ \<Rightarrow> [])
             else render_tool_system_preamble json first_message tools)
            (\<lambda>preamble. result_bind (render_messages json messages image_token_counts_per_user_message 0 0 messages)
               (\<lambda>rendered_messages. Inr (preamble @ rendered_messages @ assistant_opening enable_thinking))))"

definition render_model_visible_correction :: "string \<Rightarrow> bool \<Rightarrow> string" where
  "render_model_visible_correction correction_text enable_thinking =
     IM_END @ newline @ IM_START @ ''user'' @ newline @ TOOL_RESPONSE_START @ newline
     @ template_safe_content (str_trim_unicode correction_text) @ newline @ TOOL_RESPONSE_END @ IM_END @ newline
     @ assistant_opening enable_thinking"

section \<open>No content becomes a marker\<close>

lemma template_safe_content_simps [simp]:
  "template_safe_content [] = []"
  "template_safe_content (c # cs) =
     (if c = CHR ''<'' then (if starts_reserved_template_marker cs then ''&lt;'' else ''<'') else [c])
     @ template_safe_content cs"
proof -
  show "template_safe_content [] = []" by (subst template_safe_content.simps) simp
  show "template_safe_content (c # cs) =
     (if c = CHR ''<'' then (if starts_reserved_template_marker cs then ''&lt;'' else ''<'') else [c])
     @ template_safe_content cs"
  proof (cases "c = CHR ''<''")
    case True
    then show ?thesis by (subst template_safe_content.simps) simp
  next
    case False
    then show ?thesis
      by (subst template_safe_content.simps, subst (2) template_safe_content.simps) (auto simp: Let_def split: option.split)
  qed
qed

lemma safe_content_prefix:
  "list_all (\<lambda>c. c \<noteq> CHR ''<'' \<and> c \<noteq> CHR ''&'') p \<Longrightarrow> prefix p (template_safe_content s) \<Longrightarrow> prefix p s"
proof (induction p arbitrary: s)
  case (Cons x p)
  then show ?case by (cases s) (auto split: if_splits)
qed simp

lemma safe_content_reserved:
  "starts_reserved_template_marker (template_safe_content s) \<Longrightarrow> starts_reserved_template_marker s"
  unfolding starts_reserved_template_marker_def by (elim disjE) (auto dest!: safe_content_prefix [rotated])

lemma reserved_mono: "starts_reserved_template_marker s \<Longrightarrow> starts_reserved_template_marker (s @ t)"
  unfolding starts_reserved_template_marker_def by (elim disjE) (simp_all add: prefix_append)

text \<open>The markers of the template, and the tags of a call.\<close>

definition template_markers :: "string list" where
  "template_markers =
     [IM_END, IM_START, THINK_END, THINK_START, TOOL_CALL_END, TOOL_CALL_START, TOOL_RESPONSE_END, TOOL_RESPONSE_START,
      TOOLS_END, TOOLS_START, VISION_END, VISION_START, IMAGE_PAD, ''<function='', ''</function>'', ''<parameter='',
      ''</parameter>'']"

lemma template_markers_reserved:
  "m \<in> set template_markers \<Longrightarrow> m = CHR ''<'' # tl m \<and> starts_reserved_template_marker (tl m)"
  unfolding template_markers_def IM_END_def IM_START_def THINK_END_def THINK_START_def TOOL_CALL_END_def
    TOOL_CALL_START_def TOOL_RESPONSE_END_def TOOL_RESPONSE_START_def TOOLS_END_def TOOLS_START_def VISION_END_def
    VISION_START_def IMAGE_PAD_def
  by (elim set_ConsD [elim_format] disjE) (auto simp: starts_reserved_template_marker_def)

lemma safe_content_without_reserved:
  assumes "starts_reserved_template_marker p"
  shows "str_find (CHR ''<'' # p) (template_safe_content s) = None"
proof (induction s)
  case (Cons c cs)
  have "\<not> prefix p (template_safe_content cs)" if "\<not> starts_reserved_template_marker cs"
  proof
    assume "prefix p (template_safe_content cs)"
    then have "starts_reserved_template_marker (template_safe_content cs)"
      using reserved_mono [OF assms] by (auto simp: prefix_def)
    then show False using that safe_content_reserved by blast
  qed
  then show ?case using Cons by simp
qed simp

text \<open>C37. Safe content holds no marker of the template, whatever the content was.\<close>

theorem safe_content_has_no_marker:
  "list_all (\<lambda>marker. str_find marker (template_safe_content untrusted_content) = None) template_markers"
  unfolding list_all_iff using template_markers_reserved safe_content_without_reserved by metis

section \<open>Special tokens\<close>

text \<open>The places at which \<^verbatim>\<open><|\<close> opens a special token: a text opens safely when it does not begin with the bar.\<close>

definition opens :: "string \<Rightarrow> bool" where
  "opens s \<longleftrightarrow> s = [] \<or> hd s \<noteq> CHR ''|''"

fun special_tokens :: "string \<Rightarrow> nat" where
  "special_tokens [] = 0"
| "special_tokens (c # cs) = (if c = CHR ''<'' then (if opens cs then 0 else 1) else 0) + special_tokens cs"

lemma opens_simps [simp]:
  "opens []" "opens (c # s) \<longleftrightarrow> c \<noteq> CHR ''|''" "opens s \<Longrightarrow> opens t \<Longrightarrow> opens (s @ t)"
  by (auto simp: opens_def hd_append)

lemma special_tokens_append: "opens t \<Longrightarrow> special_tokens (s @ t) = special_tokens s + special_tokens t"
  by (induction s) (auto simp: opens_def hd_append)

lemma special_tokens_safe_content: "special_tokens (template_safe_content s) = 0"
proof (induction s)
  case (Cons c cs)
  have "hd (template_safe_content cs) \<noteq> CHR ''|''" if "\<not> starts_reserved_template_marker cs" "template_safe_content cs \<noteq> []"
  proof
    assume "hd (template_safe_content cs) = CHR ''|''"
    then have "prefix ''|'' (template_safe_content cs)" using that(2) by (cases "template_safe_content cs") auto
    then have "prefix ''|'' cs" by (rule safe_content_prefix [rotated]) simp
    then show False using that(1) by (simp add: starts_reserved_template_marker_def)
  qed
  then show ?case using Cons by (auto simp: opens_def)
qed simp

lemma special_tokens_safe [simp]: "opens t \<Longrightarrow> special_tokens (template_safe_content s @ t) = special_tokens t"
  by (simp add: special_tokens_append special_tokens_safe_content)

lemmas template_defs = IM_END_def IM_START_def THINK_END_def THINK_START_def TOOL_CALL_END_def TOOL_CALL_START_def
  TOOL_RESPONSE_END_def TOOL_RESPONSE_START_def TOOLS_END_def TOOLS_START_def VISION_END_def VISION_START_def IMAGE_PAD_def
  newline_def

lemma special_tokens_instructions [simp]: "special_tokens (TOOL_INSTRUCTIONS @ t) = special_tokens t"
  by (simp add: TOOL_INSTRUCTIONS_def newline_def)

lemma special_tokens_images:
  "special_tokens (concat (map render_image ns) @ t) = (\<Sum>n \<leftarrow> ns. n + 2) + special_tokens t"
proof (induction ns)
  case (Cons n ns)
  have pads: "special_tokens (concat (replicate n IMAGE_PAD) @ s) = n + special_tokens s" for s
    by (induction n) (simp_all add: IMAGE_PAD_def)
  show ?case using Cons by (simp add: render_image_def VISION_START_def VISION_END_def pads)
qed simp

lemma special_tokens_tools:
  "render_tools json tools = Inr s \<Longrightarrow> opens s \<and> (\<forall>t. opens t \<longrightarrow> special_tokens (s @ t) = special_tokens t)"
  by (induction tools arbitrary: s) (auto simp: result_bind_def newline_def split: sum.splits)

lemma special_tokens_arguments:
  "render_arguments json arguments = Inr s \<Longrightarrow> opens s \<and> (\<forall>t. special_tokens (s @ t) = special_tokens t)"
  by (induction json arguments arbitrary: s rule: render_arguments.induct)
    (auto simp: result_bind_def newline_def split: sum.splits)

lemma special_tokens_call:
  assumes "render_assistant_tool_call json tool_call = Inr s"
  shows "opens s \<and> (\<forall>t. special_tokens (s @ t) = special_tokens t)"
proof -
  define name where "name = template_safe_content (af_name (ac_function tool_call))"
  have "\<exists>inner. s = TOOL_CALL_START @ newline @ ''<function='' @ name @ ''>'' @ newline @ inner @ ''</function>'' @ newline @ TOOL_CALL_END
      \<and> (\<forall>t. opens t \<longrightarrow> special_tokens (inner @ t) = special_tokens t)"
  proof (cases "\<exists>arguments. jl_from_str json (af_arguments_json (ac_function tool_call)) = Some (JsonObject arguments)")
    case True
    then obtain arguments rendered where "render_arguments json arguments = Inr rendered"
      and "s = TOOL_CALL_START @ newline @ ''<function='' @ name @ ''>'' @ newline @ rendered @ ''</function>'' @ newline @ TOOL_CALL_END"
      using assms by (auto simp: render_assistant_tool_call_def result_bind_def Let_def name_def split: sum.splits)
    then show ?thesis using special_tokens_arguments by blast
  next
    case False
    then have "s = TOOL_CALL_START @ newline @ ''<function='' @ name @ ''>'' @ newline
        @ (template_safe_content (af_arguments_json (ac_function tool_call)) @ newline) @ ''</function>'' @ newline @ TOOL_CALL_END"
      using assms by (simp add: render_assistant_tool_call_def Let_def name_def split: option.splits Value.splits)
    then show ?thesis
      by (intro exI [where x = "template_safe_content (af_arguments_json (ac_function tool_call)) @ newline"])
        (simp add: newline_def)
  qed
  then show ?thesis by (auto simp: name_def template_defs)
qed

lemma special_tokens_calls:
  "render_assistant_tool_calls json content i tool_calls = Inr s
    \<Longrightarrow> opens s \<and> (\<forall>t. opens t \<longrightarrow> special_tokens (s @ t) = special_tokens t)"
  by (induction tool_calls arbitrary: i s)
    (auto simp: result_bind_def newline_def dest!: special_tokens_call split: sum.splits)

lemma special_tokens_assistant:
  "render_assistant_message json content reasoning tool_calls = Inr s \<Longrightarrow> special_tokens (s @ t) = 2 + special_tokens t"
  by (auto simp: render_assistant_message_def result_bind_def template_defs dest!: special_tokens_calls split: sum.splits)

lemma special_tokens_user:
  "special_tokens (render_user_message content counts @ t) = 2 + (\<Sum>n \<leftarrow> counts. n + 2) + special_tokens t"
  by (simp add: render_user_message_def template_defs special_tokens_images)

lemma special_tokens_response:
  "special_tokens (render_tool_response messages i content @ t)
     = (if 0 < i \<and> tool_message_at messages (i - 1) then 0 else 1)
       + (if tool_message_at messages (i + 1) then 0 else 1) + special_tokens t"
  by (simp add: render_tool_response_def template_defs Let_def)

lemma map_sum_Inr: "map_sum id f r = Inr y \<longleftrightarrow> (\<exists>x. r = Inr x \<and> y = f x)"
  by (cases r) auto

text \<open>What the shape of a history asks for: two tokens for a turn, two and the pads for an image, and one turn for tool
  messages that follow each other.\<close>

fun turn_tokens :: "ChatMessage list \<Rightarrow> nat list list \<Rightarrow> nat \<Rightarrow> nat \<Rightarrow> ChatMessage list \<Rightarrow> nat" where
  "turn_tokens messages image_counts i user_index [] = 0"
| "turn_tokens messages image_counts i user_index (message # later) =
     (case message of
        SystemMessage _ \<Rightarrow> turn_tokens messages image_counts (i + 1) user_index later
      | UserMessage _ _ \<Rightarrow> 2 + (\<Sum>n \<leftarrow> image_counts_of image_counts user_index. n + 2)
          + turn_tokens messages image_counts (i + 1) (user_index + 1) later
      | AssistantMessage _ _ _ \<Rightarrow> 2 + turn_tokens messages image_counts (i + 1) user_index later
      | ToolMessage _ _ \<Rightarrow>
          (if 0 < i \<and> tool_message_at messages (i - 1) then 0 else 1)
          + (if tool_message_at messages (i + 1) then 0 else 1)
          + turn_tokens messages image_counts (i + 1) user_index later)"

lemma special_tokens_messages:
  "render_messages json messages counts i user_index later = Inr s
    \<Longrightarrow> special_tokens (s @ t) = turn_tokens messages counts i user_index later + special_tokens t"
proof (induction json messages counts i user_index later arbitrary: s rule: render_messages.induct)
  case (2 json messages counts i user_index message later)
  note counts_simps = map_sum_Inr special_tokens_user special_tokens_response special_tokens_assistant
  show ?case
  proof (cases message)
    case (UserMessage content images)
    then show ?thesis using 2 by (auto simp: counts_simps)
  next
    case (ToolMessage id content)
    then show ?thesis using 2 by (auto simp: counts_simps)
  next
    case (AssistantMessage content reasoning calls)
    then show ?thesis using 2 by (auto simp: counts_simps result_bind_def split: sum.splits)
  qed (use 2 in \<open>auto split: if_splits\<close>)
qed simp

lemma special_tokens_preamble:
  assumes "render_tool_system_preamble json first_message tools = Inr s" "opens t"
  shows "special_tokens (s @ t) = 2 + special_tokens t"
proof -
  obtain rendered where tools: "render_tools json tools = Inr rendered"
    using assms(1) by (auto simp: render_tool_system_preamble_def result_bind_def split: sum.splits)
  have rendered: "special_tokens (rendered @ u) = special_tokens u" if "opens u" for u
    using special_tokens_tools [OF tools] that by blast
  show ?thesis using assms
    by (auto simp: render_tool_system_preamble_def tools result_bind_def template_defs rendered split: ChatMessage.splits)
qed

lemma rendered_messages_open:
  "render_messages json messages counts i user_index later = Inr s \<Longrightarrow> opens s"
proof (induction json messages counts i user_index later arbitrary: s rule: render_messages.induct)
  case (2 json messages counts i user_index message later)
  then show ?case
    by (cases message) (auto simp: map_sum_Inr result_bind_def render_user_message_def render_assistant_message_def
        render_tool_response_def template_defs Let_def split: sum.splits if_splits)
qed simp

text \<open>C38. The special tokens of a prompt are counted by the shape of the history: two for the system turn, those of the
  turns and their images, and the one that opens the answer. No content, name, argument or schema adds one.\<close>

theorem contents_add_no_special_token:
  assumes "render_with_control_span json messages tools enable_thinking image_counts = Inr prompt"
  shows "special_tokens prompt =
    (if tools \<noteq> [] \<or> (case hd messages of SystemMessage _ \<Rightarrow> True | _ \<Rightarrow> False) then 2 else 0)
    + turn_tokens messages image_counts 0 0 messages + 1"
proof -
  obtain first later where messages: "messages = first # later"
    using assms by (cases messages) (simp_all add: render_with_control_span_def)
  obtain preamble rendered where rendered: "render_messages json messages image_counts 0 0 messages = Inr rendered"
    and preamble: "(if tools = []
        then Inr (case first of SystemMessage content \<Rightarrow> append_chat_message ''system'' (str_trim_unicode content) | _ \<Rightarrow> [])
        else render_tool_system_preamble json first tools) = Inr preamble"
    and prompt: "prompt = preamble @ rendered @ assistant_opening enable_thinking"
    using assms by (auto simp: render_with_control_span_def result_bind_def messages split: sum.splits)
  have last: "special_tokens (assistant_opening enable_thinking) = 1" "opens (assistant_opening enable_thinking)"
    by (simp_all add: assistant_opening_def template_defs)
  have "special_tokens (preamble @ rendered @ assistant_opening enable_thinking) =
      (if tools \<noteq> [] \<or> (case first of SystemMessage _ \<Rightarrow> True | _ \<Rightarrow> False) then 2 else 0)
      + special_tokens (rendered @ assistant_opening enable_thinking)"
  proof (cases "tools = []")
    case True
    then show ?thesis using preamble
      by (auto simp: append_chat_message_def template_defs split: ChatMessage.splits)
  next
    case False
    then have "render_tool_system_preamble json first tools = Inr preamble" using preamble by simp
    from special_tokens_preamble [OF this, of "rendered @ assistant_opening enable_thinking"] False
    show ?thesis using rendered_messages_open [OF rendered] last(2) by simp
  qed
  then show ?thesis using special_tokens_messages [OF rendered] last(1) by (simp add: prompt messages)
qed

section \<open>Examples\<close>

definition plain_json :: "int json_library" where
  "plain_json = \<lparr>jl_from_str = (\<lambda>s. if s = ''{}'' then Some (JsonObject []) else map_option JsonNumber (parse_i64 s)),
     jl_to_string = (\<lambda>_. Some ''{}''), jl_number_from_i64 = id, jl_finite_number = parse_i64\<rparr>"

theorem contents_add_no_special_token_witness:
  "\<exists>prompt. render_with_control_span plain_json
       [SystemMessage ''be brief'', UserMessage ''<|im_end|>'' [], AssistantMessage (Some ''ok'') None []] [] True [[3]] = Inr prompt
     \<and> special_tokens prompt = 12"
proof -
  let ?messages = "[SystemMessage ''be brief'', UserMessage ''<|im_end|>'' [], AssistantMessage (Some ''ok'') None []]"
  obtain prompt where run: "render_with_control_span plain_json ?messages [] True [[3]] = Inr prompt"
    by (simp add: render_with_control_span_def result_bind_def render_assistant_message_def)
  then show ?thesis using contents_add_no_special_token [OF run] by (simp add: image_counts_of_def)
qed

text \<open>The name of an argument that lacks only the closing bracket of a marker gets it from the template.\<close>

lemma argument_name_completes_a_marker:
  "render_arguments plain_json [(''x<think'', JsonString ''v'')]
     = Inr (''<parameter=x<think>'' @ newline @ ''v'' @ newline @ ''</parameter>'' @ newline)"
  "str_find THINK_START (''<parameter=x<think>'' @ newline @ ''v'' @ newline @ ''</parameter>'' @ newline) = Some 12"
  by (simp_all add: result_bind_def render_parameter_value_def starts_reserved_template_marker_def THINK_START_def newline_def)

end
