(* ===== verification/Tool_Call_Roundtrip.thy ===== *)
theory Tool_Call_Roundtrip
  imports Output_Stream Prompt_Render
begin

text \<open>
  A call of the history that the renderer writes into the prompt is a call that the parser reads back: the same name, and
  the same arguments. The conditions on names and values are those under which neither the escaping nor the salvaging of
  the parser has anything to do.
\<close>

section \<open>Trimming\<close>










section \<open>Searching over the seams\<close>





section \<open>Attributes\<close>














section \<open>Numbers\<close>







section \<open>Arguments\<close>



















section \<open>The rendered call\<close>






















section \<open>Reading back\<close>















end
