(* ===== verification/Request_Output.thy ===== *)
theory Request_Output
  imports Output_Stream
begin

text \<open>
  From generated tokens to events, under \<^verbatim>\<open>crates/model-serving/src/qwen3_5_core/text\<close>: the incremental decoder of
  \<^verbatim>\<open>token_decoder.rs\<close> and the owner of decoder and parser in \<^verbatim>\<open>request_output.rs\<close>. The tokenizer is the record
  \<open>tokenizer\<close>: decoding a list of tokens without the special ones, and looking a token up. A diagnostic does not carry the
  message of its error.
\<close>

section \<open>The decoder\<close>

record tokenizer =
  tk_decode :: "u32 list \<Rightarrow> string option"
  tk_id_to_token :: "u32 \<Rightarrow> string option"

record stop_token_ids =
  end_of_text_token_id :: u32
  im_end_token_id :: u32

datatype Qwen3_5TokenizerError =
  GeneratedTokenOutOfVocabulary u32 u32
| DecodeGeneratedTokens
| DecodedTextRewrotePrefix

record Qwen3_5TokenDecoder =
  dec_model_vocabulary_size :: u32
  dec_token_ids :: stop_token_ids
  dec_generated_token_ids :: "u32 list"
  dec_emitted_text :: string
  dec_pending_token_ids :: "u32 list"

definition MAX_PENDING_TOKENS :: nat where
  "MAX_PENDING_TOKENS = 4"

definition REPLACEMENT_CHARACTER :: string where
  "REPLACEMENT_CHARACTER = [CHR 0xEF, CHR 0xBF, CHR 0xBD]"

definition token_decoder_new :: "u32 \<Rightarrow> stop_token_ids \<Rightarrow> Qwen3_5TokenDecoder" where
  "token_decoder_new model_vocabulary_size token_ids =
     \<lparr>dec_model_vocabulary_size = model_vocabulary_size, dec_token_ids = token_ids, dec_generated_token_ids = [],
      dec_emitted_text = [], dec_pending_token_ids = []\<rparr>"

definition flush_via_full_decode ::
    "tokenizer \<Rightarrow> Qwen3_5TokenDecoder \<Rightarrow> Qwen3_5TokenDecoder \<times> (Qwen3_5TokenizerError + string option)" where
  "flush_via_full_decode tk self =
     (case tk_decode tk (dec_generated_token_ids self) of
        None \<Rightarrow> (self, Inl DecodeGeneratedTokens)
      | Some full_decoded_text \<Rightarrow>
          if \<not> prefix (dec_emitted_text self) full_decoded_text then (self, Inl DecodedTextRewrotePrefix)
          else let new_text_suffix = drop (length (dec_emitted_text self)) full_decoded_text
               in (self\<lparr>dec_emitted_text := full_decoded_text, dec_pending_token_ids := []\<rparr>,
                   Inr (if new_text_suffix = [] then None else Some new_text_suffix)))"

definition decoder_push_token ::
    "tokenizer \<Rightarrow> u32 \<Rightarrow> Qwen3_5TokenDecoder \<Rightarrow> Qwen3_5TokenDecoder \<times> (Qwen3_5TokenizerError + string option)" where
  "decoder_push_token tk generated_token_id self =
     (if generated_token_id = end_of_text_token_id (dec_token_ids self)
        \<or> generated_token_id = im_end_token_id (dec_token_ids self) then (self, Inr None)
      else if dec_model_vocabulary_size self \<le> generated_token_id \<or> tk_id_to_token tk generated_token_id = None
      then (self, Inl (GeneratedTokenOutOfVocabulary generated_token_id (dec_model_vocabulary_size self)))
      else let pushed = self\<lparr>dec_generated_token_ids := dec_generated_token_ids self @ [generated_token_id],
                             dec_pending_token_ids := dec_pending_token_ids self @ [generated_token_id]\<rparr>
           in case tk_decode tk (dec_pending_token_ids pushed) of
                None \<Rightarrow> (pushed, Inl DecodeGeneratedTokens)
              | Some candidate_text \<Rightarrow>
                  if \<not> suffix REPLACEMENT_CHARACTER candidate_text
                  then (pushed\<lparr>dec_emitted_text := dec_emitted_text pushed @ candidate_text, dec_pending_token_ids := []\<rparr>,
                        Inr (if candidate_text = [] then None else Some candidate_text))
                  else if MAX_PENDING_TOKENS \<le> length (dec_pending_token_ids pushed) then flush_via_full_decode tk pushed
                  else (pushed, Inr None))"

definition decoder_finish ::
    "tokenizer \<Rightarrow> Qwen3_5TokenDecoder \<Rightarrow> Qwen3_5TokenDecoder \<times> (Qwen3_5TokenizerError + string option)" where
  "decoder_finish tk self = (if dec_pending_token_ids self = [] then (self, Inr None) else flush_via_full_decode tk self)"

section \<open>The output of a request\<close>

record Qwen3_5RequestOutput =
  ro_output_parser :: Qwen3_5OutputParser
  ro_token_decoder :: Qwen3_5TokenDecoder
  ro_enable_thinking :: bool

record MalformedModelOutputDiagnostic =
  md_diagnostic_code :: string
  md_generated_token_ids :: "u32 list"
  md_pending_token_ids :: "u32 list"
  md_decoded_output_text :: string
  md_parser_state :: string
  md_parser_pending_output_text :: string

datatype Qwen3_5RequestOutputError =
  RequestTokenizerError Qwen3_5TokenizerError
| RequestParserError Qwen3_5OutputParserError MalformedModelOutputDiagnostic

definition parser_initialization_error :: "Qwen3_5OutputParserError \<Rightarrow> Qwen3_5RequestOutputError" where
  "parser_initialization_error parser_error = RequestParserError parser_error
     \<lparr>md_diagnostic_code = diagnostic_code parser_error, md_generated_token_ids = [], md_pending_token_ids = [],
      md_decoded_output_text = [], md_parser_state = ''initialization'', md_parser_pending_output_text = []\<rparr>"

definition request_output_new ::
    "'n json_library \<Rightarrow> Qwen3_5TokenDecoder \<Rightarrow> ChatToolDefinition list \<Rightarrow> bool
      \<Rightarrow> Qwen3_5RequestOutputError + Qwen3_5RequestOutput" where
  "request_output_new json incremental_decoder declared_tools enable_thinking =
     map_sum parser_initialization_error
       (\<lambda>output_parser. \<lparr>ro_output_parser = output_parser, ro_token_decoder = incremental_decoder,
          ro_enable_thinking = enable_thinking\<rparr>)
       (if enable_thinking then new_after_thinking_prefix json declared_tools else output_parser_new json declared_tools)"

definition request_push_token ::
    "'n json_library \<Rightarrow> tokenizer \<Rightarrow> u32 \<Rightarrow> Qwen3_5RequestOutput
      \<Rightarrow> Qwen3_5RequestOutput \<times> (Qwen3_5RequestOutputError + Qwen3_5OutputEvent list)" where
  "request_push_token json tk generated_token_id self =
     (case decoder_push_token tk generated_token_id (ro_token_decoder self) of
        (decoder, Inl e) \<Rightarrow> (self\<lparr>ro_token_decoder := decoder\<rparr>, Inl (RequestTokenizerError e))
      | (decoder, Inr None) \<Rightarrow> (self\<lparr>ro_token_decoder := decoder\<rparr>, Inr [])
      | (decoder, Inr (Some decoded_fragment)) \<Rightarrow>
          (case push_fragment json decoded_fragment (ro_output_parser self) of
             (parser, output_events) \<Rightarrow> (self\<lparr>ro_token_decoder := decoder, ro_output_parser := parser\<rparr>, Inr output_events)))"

definition request_finish ::
    "'n json_library \<Rightarrow> tokenizer \<Rightarrow> Qwen3_5RequestOutput
      \<Rightarrow> Qwen3_5RequestOutput \<times> (Qwen3_5RequestOutputError + Qwen3_5OutputEvent list)" where
  "request_finish json tk self =
     (case decoder_finish tk (ro_token_decoder self) of
        (decoder, Inl e) \<Rightarrow> (self\<lparr>ro_token_decoder := decoder\<rparr>, Inl (RequestTokenizerError e))
      | (decoder, Inr decoded_fragment) \<Rightarrow>
          (case (case decoded_fragment of
                   None \<Rightarrow> (ro_output_parser self, [])
                 | Some fragment \<Rightarrow> push_fragment json fragment (ro_output_parser self)) of
             (parser, output_events) \<Rightarrow>
               (case output_parser_finish json parser of
                  (finished, last_events) \<Rightarrow>
                    (self\<lparr>ro_token_decoder := decoder, ro_output_parser := finished\<rparr>, Inr (output_events @ last_events)))))"

definition request_reset_after_model_visible_correction :: "bool \<Rightarrow> Qwen3_5RequestOutput \<Rightarrow> Qwen3_5RequestOutput" where
  "request_reset_after_model_visible_correction enable_thinking self =
     self\<lparr>ro_enable_thinking := enable_thinking,
          ro_output_parser := reset_after_model_visible_correction enable_thinking (ro_output_parser self)\<rparr>"

text \<open>The tokens of a request, one after the other, to the first error.\<close>

fun request_push_tokens ::
    "'n json_library \<Rightarrow> tokenizer \<Rightarrow> u32 list \<Rightarrow> Qwen3_5RequestOutput
      \<Rightarrow> Qwen3_5RequestOutput \<times> (Qwen3_5RequestOutputError + Qwen3_5OutputEvent list)" where
  "request_push_tokens json tk [] self = (self, Inr [])"
| "request_push_tokens json tk (t # ts) self =
     (case request_push_token json tk t self of
        (self1, Inl e) \<Rightarrow> (self1, Inl e)
      | (self1, Inr events) \<Rightarrow>
          (case request_push_tokens json tk ts self1 of
             (self2, Inl e) \<Rightarrow> (self2, Inl e) | (self2, Inr later) \<Rightarrow> (self2, Inr (events @ later))))"

section \<open>Nothing is lost between the decoder and the parser\<close>

text \<open>What a step returns is what it adds to the emitted text.\<close>

lemma flush_emits:
  "flush_via_full_decode tk d = (d', Inr r) \<Longrightarrow> dec_emitted_text d' = dec_emitted_text d @ (case r of None \<Rightarrow> [] | Some s \<Rightarrow> s)
     \<and> dec_pending_token_ids d' = [] \<and> tk_decode tk (dec_generated_token_ids d') = Some (dec_emitted_text d')"
  by (auto simp: flush_via_full_decode_def prefix_def Let_def split: option.splits if_splits)

lemma push_emits:
  assumes "decoder_push_token tk t d = (d', Inr r)"
  shows "dec_emitted_text d' = dec_emitted_text d @ (case r of None \<Rightarrow> [] | Some s \<Rightarrow> s)"
  using assms by (auto simp: decoder_push_token_def Let_def split: option.splits if_splits dest!: flush_emits)

lemma finish_emits:
  "decoder_finish tk d = (d', Inr r) \<Longrightarrow> dec_emitted_text d' = dec_emitted_text d @ (case r of None \<Rightarrow> [] | Some s \<Rightarrow> s)"
  by (auto simp: decoder_finish_def split: if_splits dest: flush_emits)

lemma push_fragments_append:
  "push_fragments json (fs @ gs) p = prepend (snd (push_fragments json fs p)) (push_fragments json gs (fst (push_fragments json fs p)))"
  by (induction fs arbitrary: p) (simp_all add: prepend_def)

lemma request_tokens_are_fragments:
  assumes "request_push_tokens json tk ts self = (self', Inr events)"
  shows "\<exists>fs. push_fragments json fs (ro_output_parser self) = (ro_output_parser self', events)
    \<and> dec_emitted_text (ro_token_decoder self') = dec_emitted_text (ro_token_decoder self) @ concat fs"
  using assms
proof (induction ts arbitrary: self events)
  case Nil
  then show ?case by (intro exI [of _ "[]"]) simp
next
  case (Cons t ts)
  obtain self1 events1 events2 where step: "request_push_token json tk t self = (self1, Inr events1)"
    and later: "request_push_tokens json tk ts self1 = (self', Inr events2)" and events: "events = events1 @ events2"
    using Cons.prems by (auto split: prod.splits sum.splits)
  obtain fs where fs: "push_fragments json fs (ro_output_parser self1) = (ro_output_parser self', events2)"
    "dec_emitted_text (ro_token_decoder self') = dec_emitted_text (ro_token_decoder self1) @ concat fs"
    using Cons.IH [OF later] by blast
  obtain decoder r where dec: "decoder_push_token tk t (ro_token_decoder self) = (decoder, Inr r)"
    using step by (auto simp: request_push_token_def split: prod.splits sum.splits)
  note emitted = push_emits [OF dec]
  show ?case
  proof (cases r)
    case None
    then show ?thesis using step dec fs events emitted by (intro exI [of _ fs]) (auto simp: request_push_token_def)
  next
    case (Some f)
    then show ?thesis using step dec fs events emitted
      by (intro exI [of _ "f # fs"]) (auto simp: request_push_token_def prepend_def split: prod.splits)
  qed
qed

text \<open>C36. A request whose tokens are decoded without an error streams the parse of its text: the events of all its tokens
  and of its end are those of the parser on fragments that make up the emitted text, and nothing else.\<close>

theorem request_streams_the_emitted_text:
  assumes "request_push_tokens json tk token_ids self = (self1, Inr events)"
    and "request_finish json tk self1 = (self2, Inr last_events)" "dec_emitted_text (ro_token_decoder self) = []"
  shows "\<exists>fragments. concat fragments = dec_emitted_text (ro_token_decoder self2)
    \<and> complete_run json fragments (ro_output_parser self) = (ro_output_parser self2, events @ last_events)"
proof -
  obtain fs where fs: "push_fragments json fs (ro_output_parser self) = (ro_output_parser self1, events)"
    "dec_emitted_text (ro_token_decoder self1) = concat fs"
    using request_tokens_are_fragments [OF assms(1)] assms(3) by auto
  obtain decoder r where dec: "decoder_finish tk (ro_token_decoder self1) = (decoder, Inr r)"
    using assms(2) by (auto simp: request_finish_def split: prod.splits sum.splits)
  note emitted = finish_emits [OF dec]
  let ?gs = "case r of None \<Rightarrow> [] | Some f \<Rightarrow> [f]"
  have "concat (fs @ ?gs) = dec_emitted_text (ro_token_decoder self2)"
    using assms(2) dec emitted fs(2) by (auto simp: request_finish_def split: prod.splits option.splits)
  moreover have "complete_run json (fs @ ?gs) (ro_output_parser self) = (ro_output_parser self2, events @ last_events)"
    using assms(2) dec fs(1)
    by (auto simp: request_finish_def complete_run_def push_fragments_append prepend_def split: prod.splits option.splits)
  ultimately show ?thesis by blast
qed

definition byte_tokenizer :: tokenizer where
  "byte_tokenizer = \<lparr>tk_decode = (\<lambda>ts. Some (map (\<lambda>t. if t = 104 then CHR ''h'' else CHR ''i'') ts)), tk_id_to_token = (\<lambda>_. Some [])\<rparr>"

definition example_request :: Qwen3_5RequestOutput where
  "example_request = \<lparr>ro_output_parser = example_parser,
     ro_token_decoder = token_decoder_new 300 \<lparr>end_of_text_token_id = 256, im_end_token_id = 257\<rparr>, ro_enable_thinking = False\<rparr>"

theorem request_streams_the_emitted_text_witness:
  "\<exists>self1 self2 events last_events fragments. request_push_tokens example_json byte_tokenizer [104, 105, 257] example_request = (self1, Inr events)
     \<and> request_finish example_json byte_tokenizer self1 = (self2, Inr last_events) \<and> concat fragments = ''hi''
     \<and> complete_run example_json fragments example_parser = (ro_output_parser self2, events @ last_events)"
proof -
  have "case request_push_tokens example_json byte_tokenizer [104, 105, 257] example_request of
      (self1, Inr events) \<Rightarrow> dec_emitted_text (ro_token_decoder self1) = ''hi'' \<and> dec_pending_token_ids (ro_token_decoder self1) = []
    | _ \<Rightarrow> False" by code_simp
  then obtain self1 events where push: "request_push_tokens example_json byte_tokenizer [104, 105, 257] example_request = (self1, Inr events)"
    and emitted: "dec_emitted_text (ro_token_decoder self1) = ''hi''" "dec_pending_token_ids (ro_token_decoder self1) = []"
    by (auto split: prod.splits sum.splits)
  obtain self2 last_events where finish: "request_finish example_json byte_tokenizer self1 = (self2, Inr last_events)"
    and "dec_emitted_text (ro_token_decoder self2) = ''hi''"
    using emitted by (cases "output_parser_finish example_json (ro_output_parser self1)") (auto simp: request_finish_def decoder_finish_def)
  then show ?thesis using request_streams_the_emitted_text [OF push finish] push
    by (fastforce simp: example_request_def token_decoder_new_def)
qed

end
