(* ===== verification/Thinking_Budget.thy ===== *)
theory Thinking_Budget
  imports Prelude
begin

text \<open>
  The hard reasoning budget of a request: \<^verbatim>\<open>thinking_budget.rs\<close> and \<^verbatim>\<open>thinking_allowance.rs\<close> under
  \<^verbatim>\<open>crates/model-serving/src/qwen3_5_core/text\<close>. The lemmas drive a request token by token and bound its reasoning.
\<close>

section \<open>The state\<close>

datatype ThinkingBudgetPhase = VisibleAnswer | Thinking | ForcingTransition

record Qwen3_5ThinkingBudgetState =
  tb_thinking_budget :: "16 word option"
  tb_thinking_token_count :: "16 word"
  tb_phase :: ThinkingBudgetPhase
  tb_forced_transition_token_ids :: "u32 list"
  tb_natural_reasoning_end_token_ids :: "u32 list"
  tb_next_forced_transition_token_index :: nat
  tb_forced_token_awaiting_commit :: "u32 option"

datatype Qwen3_5ThinkingBudgetError =
  MissingForcedTransition
| TransitionDoesNotEndReasoning
| TransitionEndsReasoningEarly
| ForcedTokenNotCommitted
| ForcedTransitionExhausted
| ForcedTokenWasNotSelected
| ForcedTokenMismatch u32 u32
| TokenCountOverflow

definition thinking_budget_new ::
    "bool \<Rightarrow> 16 word option \<Rightarrow> u32 list \<Rightarrow> u32 list \<Rightarrow> Qwen3_5ThinkingBudgetError + Qwen3_5ThinkingBudgetState" where
  "thinking_budget_new starts_inside_thinking thinking_budget forced_transition_token_ids natural_reasoning_end_token_ids =
     (let has_positive_thinking_budget = (case thinking_budget of None \<Rightarrow> False | Some budget \<Rightarrow> 0 < budget);
          starts_inside_reasoning = (starts_inside_thinking \<and> thinking_budget \<noteq> Some 0);
          created = Inr \<lparr>tb_thinking_budget = (if starts_inside_reasoning then thinking_budget else None),
            tb_thinking_token_count = 0,
            tb_phase = (if starts_inside_reasoning then Thinking else VisibleAnswer),
            tb_forced_transition_token_ids = forced_transition_token_ids,
            tb_natural_reasoning_end_token_ids = natural_reasoning_end_token_ids,
            tb_next_forced_transition_token_index = 0, tb_forced_token_awaiting_commit = None\<rparr>
      in if starts_inside_thinking \<and> has_positive_thinking_budget
         then (if forced_transition_token_ids = [] then Inl MissingForcedTransition
               else if last forced_transition_token_ids \<notin> set natural_reasoning_end_token_ids
               then Inl TransitionDoesNotEndReasoning
               else if list_ex (\<lambda>token_id. token_id \<in> set natural_reasoning_end_token_ids)
                 (take (length forced_transition_token_ids - 1) forced_transition_token_ids)
               then Inl TransitionEndsReasoningEarly
               else created)
         else created)"

definition is_natural_reasoning_end :: "Qwen3_5ThinkingBudgetState \<Rightarrow> u32 \<Rightarrow> bool" where
  "is_natural_reasoning_end self token_id \<longleftrightarrow> token_id \<in> set (tb_natural_reasoning_end_token_ids self)"

definition next_forced_transition_token_id ::
    "Qwen3_5ThinkingBudgetState \<Rightarrow> Qwen3_5ThinkingBudgetState \<times> (Qwen3_5ThinkingBudgetError + u32 option)" where
  "next_forced_transition_token_id self =
     (if tb_phase self \<noteq> ForcingTransition then (self, Inr None)
      else if tb_forced_token_awaiting_commit self \<noteq> None then (self, Inl ForcedTokenNotCommitted)
      else if tb_next_forced_transition_token_index self < length (tb_forced_transition_token_ids self)
      then (let forced_token_id = tb_forced_transition_token_ids self ! tb_next_forced_transition_token_index self
            in (self\<lparr>tb_forced_token_awaiting_commit := Some forced_token_id\<rparr>, Inr (Some forced_token_id)))
      else (self, Inl ForcedTransitionExhausted))"

text \<open>The answer says whether the committed token belongs to the reasoning. The index of the next forced token counts
  tokens of a list, so its addition cannot overflow.\<close>

definition observe_committed_token ::
    "u32 \<Rightarrow> Qwen3_5ThinkingBudgetState \<Rightarrow> Qwen3_5ThinkingBudgetState \<times> (Qwen3_5ThinkingBudgetError + bool)" where
  "observe_committed_token committed_token_id self =
     (case tb_phase self of
        VisibleAnswer \<Rightarrow> (self, Inr False)
      | Thinking \<Rightarrow>
          if is_natural_reasoning_end self committed_token_id then (self\<lparr>tb_phase := VisibleAnswer\<rparr>, Inr False)
          else (case tb_thinking_budget self of
                  None \<Rightarrow> (self, Inr True)
                | Some thinking_budget \<Rightarrow>
                    (case checked_add (tb_thinking_token_count self) 1 of
                       None \<Rightarrow> (self, Inl TokenCountOverflow)
                     | Some next_count \<Rightarrow>
                         ((if thinking_budget \<le> next_count then self\<lparr>tb_phase := ForcingTransition\<rparr> else self)
                            \<lparr>tb_thinking_token_count := next_count\<rparr>, Inr True)))
      | ForcingTransition \<Rightarrow>
          (let taken = self\<lparr>tb_forced_token_awaiting_commit := None\<rparr>
           in case tb_forced_token_awaiting_commit self of
                None \<Rightarrow> (taken, Inl ForcedTokenWasNotSelected)
              | Some expected_forced_token_id \<Rightarrow>
                  if committed_token_id \<noteq> expected_forced_token_id
                  then (taken, Inl (ForcedTokenMismatch expected_forced_token_id committed_token_id))
                  else let next_index = tb_next_forced_transition_token_index self + 1;
                           advanced = taken\<lparr>tb_next_forced_transition_token_index := next_index\<rparr>
                       in if is_natural_reasoning_end self committed_token_id
                          then (advanced\<lparr>tb_phase := VisibleAnswer\<rparr>, Inr False)
                          else if length (tb_forced_transition_token_ids self) \<le> next_index
                          then (advanced, Inl TransitionDoesNotEndReasoning)
                          else (advanced, Inr True)))"

definition is_inside_thinking :: "Qwen3_5ThinkingBudgetState \<Rightarrow> bool" where
  "is_inside_thinking self \<longleftrightarrow> tb_phase self \<noteq> VisibleAnswer"

definition is_forcing_transition :: "Qwen3_5ThinkingBudgetState \<Rightarrow> bool" where
  "is_forcing_transition self \<longleftrightarrow> tb_phase self = ForcingTransition"

section \<open>The allowance\<close>

definition minimum_bounded_output_token_count :: "16 word \<Rightarrow> usize \<Rightarrow> usize option" where
  "minimum_bounded_output_token_count thinking_budget forced_transition_token_count =
     Option.bind (checked_add (ucast thinking_budget) forced_transition_token_count)
       (\<lambda>bounded_token_count. checked_add bounded_token_count 1)"

definition resolve_effective_thinking_allowance :: "16 word option \<Rightarrow> bool \<Rightarrow> 16 word \<Rightarrow> usize \<Rightarrow> 16 word option" where
  "resolve_effective_thinking_allowance requested_thinking_budget enable_thinking max_output_tokens transition_token_count =
     Option.bind requested_thinking_budget (\<lambda>thinking_budget.
       if \<not> enable_thinking \<or> thinking_budget = 0 then None
       else let fits_requested_allowance =
                  (case minimum_bounded_output_token_count thinking_budget transition_token_count of
                     None \<Rightarrow> False
                   | Some minimum_bounded_output_tokens \<Rightarrow> minimum_bounded_output_tokens \<le> ucast max_output_tokens)
            in if fits_requested_allowance then Some thinking_budget
               else let allowance_room = saturating_sub (ucast max_output_tokens) transition_token_count;
                        shrunk = saturating_sub allowance_room 1
                    in Some (if shrunk < 2 ^ 16 then ucast shrunk else max_value))"

definition effective_thinking_reservation_token_count :: "16 word option \<Rightarrow> usize \<Rightarrow> usize option" where
  "effective_thinking_reservation_token_count effective_thinking_allowance transition_token_count =
     Option.bind effective_thinking_allowance
       (\<lambda>thinking_budget. minimum_bounded_output_token_count thinking_budget transition_token_count)"

section \<open>A request that is driven to its end\<close>

text \<open>One token of a request: the forced one when there is one, else the sampled one, and then its commit. The result
  is the state, the committed token, and whether it belongs to the reasoning. This is the protocol of the state as the
  loop of the engine follows it (\<^verbatim>\<open>advance_generation.rs\<close>, \<^verbatim>\<open>generated_token_emission.rs\<close>), without the forward that
  computes the sampled token and without the emission of its text.\<close>

definition drive_token ::
    "Qwen3_5ThinkingBudgetState \<Rightarrow> u32 \<Rightarrow> Qwen3_5ThinkingBudgetError + (Qwen3_5ThinkingBudgetState \<times> u32 \<times> bool)" where
  "drive_token self sampled_token_id =
     (case next_forced_transition_token_id self of
        (_, Inl e) \<Rightarrow> Inl e
      | (self1, Inr forced) \<Rightarrow>
          (let token_id = (case forced of None \<Rightarrow> sampled_token_id | Some forced_token_id \<Rightarrow> forced_token_id)
           in case observe_committed_token token_id self1 of
                (_, Inl e) \<Rightarrow> Inl e
              | (self2, Inr in_reasoning) \<Rightarrow> Inr (self2, token_id, in_reasoning)))"

fun drive_tokens ::
    "Qwen3_5ThinkingBudgetState \<Rightarrow> u32 list \<Rightarrow> Qwen3_5ThinkingBudgetError + (Qwen3_5ThinkingBudgetState \<times> (u32 \<times> bool) list)" where
  "drive_tokens self [] = Inr (self, [])"
| "drive_tokens self (sampled # later) =
     result_bind (drive_token self sampled) (\<lambda>(self1, token_id, in_reasoning).
       result_bind (drive_tokens self1 later) (\<lambda>(self2, committed). Inr (self2, (token_id, in_reasoning) # committed)))"

section \<open>The budget bounds the reasoning\<close>

text \<open>In the visible answer every sampled token is committed as it is.\<close>

lemma drive_visible:
  "tb_phase self = VisibleAnswer \<Longrightarrow> drive_tokens self xs = Inr (self, map (\<lambda>x. (x, False)) xs)"
  by (induction xs) (simp_all add: drive_token_def next_forced_transition_token_id_def observe_committed_token_def)

text \<open>A transition that ends the reasoning at its last token and not before.\<close>

definition ending_transition :: "u32 list \<Rightarrow> u32 list \<Rightarrow> bool" where
  "ending_transition ends transition \<longleftrightarrow>
     transition \<noteq> [] \<and> last transition \<in> set ends \<and> (\<forall>t \<in> set (butlast transition). t \<notin> set ends)"

lemma drive_forcing:
  assumes "tb_phase self = ForcingTransition" "tb_forced_token_awaiting_commit self = None"
    and "k < length (tb_forced_transition_token_ids self)" "tb_next_forced_transition_token_index self = k"
    and "ending_transition (tb_natural_reasoning_end_token_ids self) (tb_forced_transition_token_ids self)"
    and "length (tb_forced_transition_token_ids self) - k \<le> length xs"
  shows "\<exists>self'. tb_phase self' = VisibleAnswer \<and>
    drive_tokens self xs = Inr (self',
      map (\<lambda>x. (x, True)) (butlast (drop k (tb_forced_transition_token_ids self)))
      @ [(last (tb_forced_transition_token_ids self), False)]
      @ map (\<lambda>x. (x, False)) (drop (length (tb_forced_transition_token_ids self) - k) xs))"
  using assms
proof (induction xs arbitrary: self k)
  case (Cons x xs)
  let ?T = "tb_forced_transition_token_ids self"
  let ?ends = "tb_natural_reasoning_end_token_ids self"
  define next_self where "next_self = self\<lparr>tb_forced_token_awaiting_commit := None, tb_next_forced_transition_token_index := k + 1\<rparr>"
  have T: "?T \<noteq> []" "last ?T \<in> set ?ends" "\<And>t. t \<in> set (butlast ?T) \<Longrightarrow> t \<notin> set ?ends"
    using Cons.prems(5) by (auto simp: ending_transition_def)
  show ?case
  proof (cases "Suc k = length ?T")
    case True
    then have last: "?T ! k = last ?T" by (metis T(1) diff_Suc_1 last_conv_nth)
    have "drop k ?T = [?T ! k]" using True by (metis Cons_nth_drop_Suc drop_all lessI order.refl)
    moreover have "drive_token self x = Inr (next_self\<lparr>tb_phase := VisibleAnswer\<rparr>, last ?T, False)"
      using Cons.prems T(2) last
      by (simp add: drive_token_def next_forced_transition_token_id_def observe_committed_token_def Let_def
          is_natural_reasoning_end_def next_self_def)
    moreover have "length ?T - k = 1" using True by simp
    ultimately show ?thesis using last drive_visible [of "next_self\<lparr>tb_phase := VisibleAnswer\<rparr>" xs]
      by (intro exI [of _ "next_self\<lparr>tb_phase := VisibleAnswer\<rparr>"]) simp
  next
    case False
    then have k: "Suc k < length ?T" using Cons.prems(3) by simp
    then have "?T ! k \<in> set (butlast ?T)" by (metis in_set_conv_nth length_butlast less_diff_conv nth_butlast Suc_eq_plus1)
    then have "?T ! k \<notin> set ?ends" by (rule T(3))
    then have step: "drive_token self x = Inr (next_self, ?T ! k, True)"
      using Cons.prems k
      by (simp add: drive_token_def next_forced_transition_token_id_def observe_committed_token_def Let_def
          is_natural_reasoning_end_def next_self_def)
    obtain self' where "tb_phase self' = VisibleAnswer" and "drive_tokens next_self xs = Inr (self',
        map (\<lambda>x. (x, True)) (butlast (drop (Suc k) ?T)) @ [(last ?T, False)] @ map (\<lambda>x. (x, False)) (drop (length ?T - Suc k) xs))"
      using Cons.IH [of next_self "Suc k"] Cons.prems k unfolding next_self_def by fastforce
    moreover have "butlast (drop k ?T) = ?T ! k # butlast (drop (Suc k) ?T)"
      using k by (simp flip: Cons_nth_drop_Suc)
    moreover have "length ?T - k = Suc (length ?T - Suc k)" using k by simp
    ultimately show ?thesis using step by (intro exI [of _ self']) simp
  qed
qed simp

lemma drive_thinking:
  assumes "tb_phase self = Thinking" "tb_thinking_budget self = Some b"
    and "unat b = unat (tb_thinking_token_count self) + n" "0 < n"
    and "tb_forced_token_awaiting_commit self = None" "tb_next_forced_transition_token_index self = 0"
    and "tb_natural_reasoning_end_token_ids self = ends" "tb_forced_transition_token_ids self = transition"
    and "ending_transition ends transition" "n + length transition \<le> length xs"
  shows "\<exists>self' committed. tb_phase self' = VisibleAnswer \<and> drive_tokens self xs = Inr (self', committed)
    \<and> map fst committed = (if \<exists>x \<in> set (take n xs). x \<in> set ends then xs
         else take n xs @ transition @ drop (n + length transition) xs)
    \<and> length (filter snd committed) < n + length transition"
  using assms
proof (induction n arbitrary: self xs)
  case (Suc n)
  then obtain x ys where xs: "xs = x # ys" by (cases xs) auto
  have transition: "transition \<noteq> []" using Suc.prems(9) by (simp add: ending_transition_def)
  note step_defs = drive_token_def next_forced_transition_token_id_def observe_committed_token_def Let_def
    is_natural_reasoning_end_def
  show ?case
  proof (cases "x \<in> set ends")
    case True
    have "drive_token self x = Inr (self\<lparr>tb_phase := VisibleAnswer\<rparr>, x, False)" using Suc.prems True by (simp add: step_defs)
    then show ?thesis using True drive_visible [of "self\<lparr>tb_phase := VisibleAnswer\<rparr>" ys] transition
      by (simp add: xs comp_def filter_empty_conv flip: filter_map)
  next
    case False
    define counted where "counted = self\<lparr>tb_thinking_token_count := tb_thinking_token_count self + 1\<rparr>"
    have fits: "unat (tb_thinking_token_count self) + 1 < 2 ^ 16"
      using Suc.prems(3) unsigned_less [where ?'a = nat and w = b] by simp
    then have unat_next: "unat (tb_thinking_token_count self + 1) = unat (tb_thinking_token_count self) + 1"
      by (simp add: unat_add_exact)
    have added: "checked_add (tb_thinking_token_count self) 1 = Some (tb_thinking_token_count self + 1)"
      using fits by (simp add: checked_add_def)
    show ?thesis
    proof (cases n)
      case 0
      define forcing where "forcing = counted\<lparr>tb_phase := ForcingTransition\<rparr>"
      have "b \<le> tb_thinking_token_count self + 1" using Suc.prems(3) 0 unat_next by (simp add: word_le_nat_alt)
      then have step: "drive_token self x = Inr (forcing, x, True)"
        using Suc.prems False added by (simp add: step_defs forcing_def counted_def)
      have "\<exists>self'. tb_phase self' = VisibleAnswer \<and> drive_tokens forcing ys = Inr (self',
          map (\<lambda>x. (x, True)) (butlast transition) @ [(last transition, False)]
          @ map (\<lambda>x. (x, False)) (drop (length transition) ys))"
        using drive_forcing [of forcing 0 ys] Suc.prems 0 transition by (simp add: forcing_def counted_def xs)
      then obtain self' where "tb_phase self' = VisibleAnswer" and "drive_tokens forcing ys = Inr (self',
          map (\<lambda>x. (x, True)) (butlast transition) @ [(last transition, False)]
          @ map (\<lambda>x. (x, False)) (drop (length transition) ys))" by blast
      then show ?thesis using step False 0 transition by (simp add: xs comp_def filter_empty_conv filter_map)
    next
      case (Suc m)
      have "\<not> b \<le> tb_thinking_token_count self + 1" using Suc.prems(3) Suc unat_next by (simp add: word_le_nat_alt)
      then have step: "drive_token self x = Inr (counted, x, True)"
        using Suc.prems False added by (simp add: step_defs counted_def)
      have "\<exists>self' committed. tb_phase self' = VisibleAnswer \<and> drive_tokens counted ys = Inr (self', committed)
        \<and> map fst committed = (if \<exists>x \<in> set (take n ys). x \<in> set ends then ys
             else take n ys @ transition @ drop (n + length transition) ys)
        \<and> length (filter snd committed) < n + length transition"
        using Suc.prems Suc unat_next by (intro Suc.IH) (simp_all add: counted_def xs)
      then show ?thesis using step False by (auto simp: xs)
    qed
  qed
qed simp

text \<open>A new state that is inside the reasoning under a budget.\<close>

lemma thinking_budget_new_Inr:
  assumes "thinking_budget_new True (Some b) transition ends = Inr self" "b \<noteq> 0"
  shows "tb_phase self = Thinking" "tb_thinking_budget self = Some b" "tb_thinking_token_count self = 0"
    and "tb_forced_token_awaiting_commit self = None" "tb_next_forced_transition_token_index self = 0"
    and "tb_natural_reasoning_end_token_ids self = ends" "tb_forced_transition_token_ids self = transition"
    and "ending_transition ends transition"
  using assms word_gt_0 [of b]
  by (auto simp: thinking_budget_new_def ending_transition_def list_ex_iff butlast_conv_take Let_def split: if_splits)

text \<open>C40. A request that starts inside the reasoning under a positive budget reaches its visible answer, whatever is
  sampled, once as many tokens have gone by as the budget and the transition have: no step fails, fewer than that many
  committed tokens belong to the reasoning, and what is committed is what was sampled, or, when no sampled token ends the
  reasoning within the budget, the sampled tokens up to the budget, then the transition, then the rest.\<close>

theorem thinking_stops_at_its_budget:
  assumes "thinking_budget_new True (Some budget) transition ends = Inr self" "budget \<noteq> 0"
    and "unat budget + length transition \<le> length sampled"
  shows "\<exists>self' committed. drive_tokens self sampled = Inr (self', committed) \<and> tb_phase self' = VisibleAnswer
    \<and> map fst committed = (if \<exists>t \<in> set (take (unat budget) sampled). t \<in> set ends then sampled
         else take (unat budget) sampled @ transition @ drop (unat budget + length transition) sampled)
    \<and> length (filter snd committed) < unat budget + length transition"
  using drive_thinking [of self budget "unat budget" ends transition sampled] thinking_budget_new_Inr [OF assms(1,2)]
    assms(2,3) unat_gt_0 [of budget] by auto

theorem thinking_stops_at_its_budget_witness:
  "\<exists>self' committed. drive_tokens
      \<lparr>tb_thinking_budget = Some 2, tb_thinking_token_count = 0, tb_phase = Thinking, tb_forced_transition_token_ids = [7, 9],
       tb_natural_reasoning_end_token_ids = [9], tb_next_forced_transition_token_index = 0,
       tb_forced_token_awaiting_commit = None\<rparr> [1, 2, 3, 4, 5] = Inr (self', committed)
    \<and> map fst committed = [1, 2, 7, 9, 5]"
  using thinking_stops_at_its_budget [of 2 "[7, 9]" "[9]" _ "[1, 2, 3, 4, 5]"]
  by (fastforce simp: thinking_budget_new_def)

lemma u16_as_usize: "unat (ucast (w :: 16 word) :: usize) = unat w" "unat w < 2 ^ 16"
  using unsigned_less [where ?'a = nat and w = w] by (simp_all add: unsigned_ucast_eq take_bit_nat_eq_self)

lemma bounded_count_fits:
  "(case minimum_bounded_output_token_count (b :: 16 word) t of None \<Rightarrow> False | Some n \<Rightarrow> n \<le> ucast (m :: 16 word))
     \<longleftrightarrow> unat b + unat t + 1 \<le> unat m"
proof -
  show ?thesis using u16_as_usize(2) [of m] u16_as_usize(2) [of b]
    by (auto simp: minimum_bounded_output_token_count_def checked_add_def word_le_nat_alt u16_as_usize(1) unat_add_exact
        split: option.splits)
qed

text \<open>The allowance of a request is the requested one or what the output limit leaves beside the transition and one
  token of answer; its reservation fits exactly when the limit is larger than the transition.\<close>

lemma allowance_shrinks_to_the_room:
  assumes "thinking_budget \<noteq> 0"
  shows "\<exists>allowance. resolve_effective_thinking_allowance (Some thinking_budget) True max_output_tokens transition_tokens
           = Some allowance
    \<and> unat allowance = min (unat thinking_budget) (unat max_output_tokens - unat transition_tokens - 1)
    \<and> ((case effective_thinking_reservation_token_count (Some allowance) transition_tokens of
          None \<Rightarrow> False | Some reserved \<Rightarrow> reserved \<le> ucast max_output_tokens)
       \<longleftrightarrow> unat transition_tokens < unat max_output_tokens)"
proof -
  let ?room = "saturating_sub (saturating_sub (ucast max_output_tokens) transition_tokens) 1 :: usize"
  have room: "unat ?room = unat max_output_tokens - unat transition_tokens - 1"
    by (simp add: unat_saturating_sub u16_as_usize(1))
  then have below: "?room < 2 ^ 16" using u16_as_usize(2) [of max_output_tokens] by (simp add: word_less_nat_alt)
  have shrunk: "unat (ucast ?room :: 16 word) = unat ?room"
    using below by (simp add: unsigned_ucast_eq word_less_nat_alt take_bit_nat_eq_self)
  obtain allowance where run: "resolve_effective_thinking_allowance (Some thinking_budget) True max_output_tokens transition_tokens
      = Some allowance" and "allowance = (if unat thinking_budget + unat transition_tokens + 1 \<le> unat max_output_tokens
        then thinking_budget else ucast ?room)"
    using assms below bounded_count_fits [where b = thinking_budget and t = transition_tokens and m = max_output_tokens]
    by (auto simp: resolve_effective_thinking_allowance_def Let_def)
  then have "unat allowance = min (unat thinking_budget) (unat max_output_tokens - unat transition_tokens - 1)"
    using room shrunk by auto
  then show ?thesis using run bounded_count_fits [where b = allowance and t = transition_tokens and m = max_output_tokens]
    by (auto simp: effective_thinking_reservation_token_count_def)
qed

end
