(* ===== verification/Spec2Isabelle.thy ===== *)
theory Spec2Isabelle
  imports Ceiling Placement Request_Plan Page_Commit Hub_Manifest Download_Transfer Cache_Roundtrip
    Tool_Call_Roundtrip Request_Output Thinking_Budget
begin

text \<open>
  \<^bold>\<open>Astronomical\<close> serves language models on one machine: a daemon accepts requests, an inference worker
  runs the model, and the sparse experts of the model are kept in memory, streamed from storage, or
  both. Four parts of it are modelled, function by function.

  \<^item> \<^bold>\<open>The memory policy\<close>, the crate \<^verbatim>\<open>crates/astronomical-memory-policy\<close>: what the worker may keep and when it
    may start an operation. It holds no device code; it is a library of decisions over byte counts.
  \<^item> \<^bold>\<open>The model download\<close>, the directory \<^verbatim>\<open>apps/daemon/src/library\<close>: how the daemon discovers an immutable
    manifest on the hub, transfers its files in concurrent segments, keeps the one job durable across
    pauses and restarts, verifies the digests and publishes the tree.
  \<^item> \<^bold>\<open>The persistent prompt cache\<close>, the directory \<^verbatim>\<open>crates/model-serving/src/persistent_cache\<close> and its callers in
    \<^verbatim>\<open>qwen3_5_streaming/inference_execution\<close>: how the worker stores the state of a prompt block by block on disk,
    finds the longest stored prefix of the next prompt, and keeps the disk within its quota.
  \<^item> \<^bold>\<open>Prompts and output\<close>, the directory \<^verbatim>\<open>crates/model-serving/src/qwen3_5_core/text\<close>: how a chat history becomes
    the prompt of a model, and how the tokens that the model generates become reasoning, text and tool calls.

  \<^bold>\<open>How the parts of the memory policy interact.\<close> A request is admitted against its whole context
  (\<^verbatim>\<open>admission/context.rs\<close>); every forward is then admitted by a memory equation (\<^verbatim>\<open>memory_equation.rs\<close>,
  \<^verbatim>\<open>forward_admission.rs\<close>) whose reserve for transient workspace is learned by the growth guard
  (\<^verbatim>\<open>budget/adaptive_growth.rs\<close>). What is left below the ceiling belongs to experts: the budget
  (\<^verbatim>\<open>budget/ram.rs\<close>) computes it per phase, the planner (\<^verbatim>\<open>residency/planner.rs\<close>) spends it on layers, and the
  contract of a request (\<^verbatim>\<open>residency/request_plan.rs\<close>) keeps the plan stable over a prefill. When a forward
  fails, reclamation and recovery decide on one retry; when nothing helps the engine changes its placement
  (\<^verbatim>\<open>placement\<close>) or the ceiling moves (\<^verbatim>\<open>ceiling.rs\<close>, \<^verbatim>\<open>serving_ceiling.rs\<close>).

  \<^bold>\<open>How the parts of the download interact.\<close> A fetch (\<^verbatim>\<open>hub/hugging_face.rs\<close>) turns hub metadata into a
  manifest, restricted to a selection of paths; the manifest starts a job (\<^verbatim>\<open>download/job/download_job.rs\<close>),
  which the store (\<^verbatim>\<open>download/job/store.rs\<close>) keeps as one document beside a staging tree. The window
  (\<^verbatim>\<open>download/transfer/payload_transfer_window.rs\<close>) starts the segments of the pending files, and one assembler
  per file (\<^verbatim>\<open>download/transfer/payload_transfer_segment.rs\<close>) appends their chunks in order, so that the
  length of a staged file is its progress; recovery reads the progress back. Verification against the
  digests precedes publication (\<^verbatim>\<open>download/job/store/publication.rs\<close>), which moves the tree and then forgets
  the job.

  \<^bold>\<open>How the parts of the prompt cache interact.\<close> A block is named by a digest over its tokens and the digest of
  its parent (\<^verbatim>\<open>block_key.rs\<close>), so a key names a whole prefix. The lookup (\<^verbatim>\<open>prefix_lookup_steps.rs\<close>,
  \<^verbatim>\<open>partial_tail_probe.rs\<close>) walks the keys of a prompt until one is absent and returns to the last one that has a
  recurrent snapshot, always leaving a token to process. Its two questions are answered by the store
  (\<^verbatim>\<open>disk_store.rs\<close>), an index of entries over the block directories. A publication
  (\<^verbatim>\<open>disk_store_write.rs\<close>, \<^verbatim>\<open>disk_store_block_transaction.rs\<close>) writes the staged files of a block, moves them into
  place and retires what the block supersedes: shorter tails, and the boundary of its parent when the quota
  presses. The quota (\<^verbatim>\<open>disk_store_global_quota.rs\<close>) evicts whole subtrees, least recently used first. Prefill
  (\<^verbatim>\<open>prefill_boundary.rs\<close>) stops at block boundaries so that the capture (\<^verbatim>\<open>persistent_prompt_cache_capture.rs\<close>,
  \<^verbatim>\<open>persistent_prompt_cache_tail_capture.rs\<close>) can publish there, retrying once after reclaiming memory; a
  restore (\<^verbatim>\<open>restore_support.rs\<close>, \<^verbatim>\<open>decoder_state_reuse.rs\<close>) loads the chain the lookup found.

  \<^bold>\<open>How prompts and output interact.\<close> The renderer (\<^verbatim>\<open>prompt.rs\<close>) writes the turns of a history between control
  markers and escapes every content (\<^verbatim>\<open>template_safe_content.rs\<close>), so that only the template writes markers. Generated
  tokens pass through the thinking budget (\<^verbatim>\<open>thinking_budget.rs\<close>), which forces the end of the reasoning, and the
  decoder (\<^verbatim>\<open>token_decoder.rs\<close>), which holds back incomplete characters. The fragments of text enter the parser
  (\<^verbatim>\<open>output_parser.rs\<close>), a machine of four states that scans for markers, retains what may become one, and hands the
  body of a call to the parser of its parameters (\<^verbatim>\<open>tool_schema.rs\<close>), after foreign syntax
  (\<^verbatim>\<open>output_parser/foreign_syntax.rs\<close>) is rewritten; what is malformed is salvaged (\<^verbatim>\<open>output_parser/salvage.rs\<close>).
  A call that was rendered is read back as the same call, when its values are of their declared types and need no
  escaping, which joins both ends.

  \<^bold>\<open>Theories.\<close>
  \<^item> \<open>Prelude\<close>: the integer operations of Rust on words (\<open>saturating\<close>, \<open>checked\<close>, ceiling division, 128-bit
    conversion) with the collection \<open>rust_nat\<close> that reads them as natural numbers, \<open>Result\<close> as a sum with
    \<open>try_fold\<close> for loops with early return, and sorting by a comparator.
  \<^item> \<open>BTree\<close>: the interface \<open>ordered_map\<close> of \<^verbatim>\<open>BTreeMap\<close>, interpreted on sorted association lists.
  \<^item> \<open>High_Water\<close>: the contract \<open>high_water_learner\<close> of everything that remembers the largest value it saw.
  \<^item> \<open>Vocabulary\<close>, \<open>Workspace_Reserve\<close>, \<open>Reclamation\<close>: the decision vocabulary, the reserves for transient
    workspace with their down-scaling, the reclamation amounts and the retry decision.
  \<^item> \<open>Memory_Equation\<close>: the checked projections and both forward decisions (C1, C2).
  \<^item> \<open>Growth_Guard\<close>: the learning guard; its reserve ladder equals a reference definition, its evidence
    over any history is a maximum (C3 to C5).
  \<^item> \<open>Ram_Budget\<close>: the budget of a model geometry (C6).
  \<^item> \<open>Admission\<close>: the remaining admission decisions behind the locale \<open>ceiling_admission\<close>.
  \<^item> \<open>Ceiling\<close>, \<open>Placement\<close>: ceilings, Neural Engine programs, placement and promotion.
  \<^item> \<open>Residency_Types\<close>, \<open>Residency_Order\<close>, \<open>Foundation_Overlay\<close>, \<open>Planner\<close>, \<open>Residency_Plan\<close>: validation, the
    comparators with the locales \<open>strict_comparator\<close> and \<open>byte_budget_loop\<close>, the four strategies, and what
    every plan promises (C7 to C9).
  \<^item> \<open>Request_Plan\<close>, \<open>Page_Commit\<close>: the contract of a request and the commit decisions (C10 to C13).
  \<^item> \<open>Download_Path\<close>: the checks of paths, identities and revisions and the selection of files.
  \<^item> \<open>Download_Job\<close>, \<open>Download_Transitions\<close>: the durable job, what its validation accepts, and what each of
    the ten operations that change it does (C14 to C16).
  \<^item> \<open>Hub_Manifest\<close>: the fetch of a manifest and its conversion into a job (C17, C18).
  \<^item> \<open>Download_Store\<close>: the store with its staging and published trees, recovery, verification and publication,
    and a step relation with crashes between the effects of a publication (C19 to C21).
  \<^item> \<open>Download_Transfer\<close>: disk admission, segments, the assembler, one response and the start order of the
    window (C22); the comparator of the window is an instance of the locale \<open>total_comparator\<close>.
  \<^item> \<open>Cache_Key\<close>: the contract of a model, the preimage of a block hash and the chain of block keys of a prompt.
  \<^item> \<open>Cache_Lookup\<close>, \<open>Cache_Restore\<close>: the three stages of the lookup with the probe of partial tails; what is
    restored is the longest stored prefix, leaves a token, and was published for these tokens (C23 to C25).
  \<^item> \<open>Cache_Index\<close>: the index of the store, its entries, counters and relations between parents and children.
  \<^item> \<open>Cache_Quota\<close>, \<open>Cache_Quota_Proofs\<close>: what the walk over the disk measures, the candidates in the order of their
    use, and the eviction of subtrees until the quota is met (C26 to C28).
  \<^item> \<open>Cache_Store\<close>, \<open>Cache_Store_Proofs\<close>: the store and its transactions over a disk, and the agreement \<open>store_wf\<close>
    of index and disk that every step of a transaction keeps.
  \<^item> \<open>Cache_Publication\<close>, \<open>Cache_Durability\<close>: the result of a publication on every branch; what it keeps of the chain
    it extends, what a failed one leaves, and three prefixes that are lost (C29).
  \<^item> \<open>Cache_Boundary\<close>: where a prefill stops: the clamped end of a chunk and the boundaries inside it
    (C30).
  \<^item> \<open>Cache_Capture\<close>: the capture of blocks and tails during a request, and the restore of a chain.
  \<^item> \<open>Cache_Capture_Proofs\<close>, \<open>Cache_Roundtrip\<close>: what a capture leaves in the store, span by span, and that a later
    request restores it (C31 to C33). The runs of a prefill are \<open>capture_spans\<close>, which hands every span the
    boundary list of \<open>Cache_Boundary\<close>.
  \<^item> \<open>Tool_Schema\<close>: strings as the standard library handles them, JSON values, the declared tools and the parameters
    of a call.
  \<^item> \<open>Output_Parser\<close>: the states of the parser, its steps, and the loop over them, which ends because every step
    takes something from the pending text.
  \<^item> \<open>Output_Scan\<close>, \<open>Output_Stream\<close>: occurrences of markers never overlap, so what a scan lets go of is clear of
    them whatever follows; the cut of a text does not matter, unless a stray close follows a
    call without an envelope, and little is retained (C34, C35).
  \<^item> \<open>Request_Output\<close>: the decoder of tokens, and a request as the run of the parser on its text (C36).
  \<^item> \<open>Prompt_Render\<close>: the escaping of contents and the rendering of a history (C37, C38).
  \<^item> \<open>Tool_Call_Roundtrip\<close>: trimming and searching over the seams of a rendered call, the conditions
    under which names, keys and values are written and read as they are, and the round trip (C39).
  \<^item> \<open>Thinking_Budget\<close>: the budget of the reasoning and its allowance (C40).

  \<^bold>\<open>Representation.\<close> Byte counts, token counts and capacities are 64-bit words (\<^verbatim>\<open>usize\<close> is 64 bits wide on
  the supported machines); products of two counts are taken in 128 bits where the code does so. Layer
  indexes and expert identifiers are natural numbers. A \<^verbatim>\<open>Vec\<close> is a list, a function that mutates its
  argument returns the new value, \<^verbatim>\<open>Result\<close> is a sum with the error on the left, \<^verbatim>\<open>saturating_\<close> and \<^verbatim>\<open>checked_\<close>
  operations are the ones of \<open>Prelude\<close>, and \<^verbatim>\<open>sort_unstable_by\<close> is \<open>sort_by\<close>, which for the comparators of the
  code (strict total orders on the entries they sort) is the only sorted permutation. Strings are the
  lists of their bytes; a tree is a map from relative paths to bytes. HTTP, JSON, the digest functions and
  the lengths of serialised documents are arguments. The disk of the prompt cache is the list of what a walk over
  it finds, in the order of the walk; the record \<open>host\<close> holds what the store asks of its surroundings: the clock, the
  size of a saved file or the failure of saving it, the validation of a block that is already there, and the
  steps of the file system that fail. The digest of a block is an argument. The tokenizer and the JSON library of
  prompts and output are the records \<open>tokenizer\<close> and \<open>json_library\<close>.

  \<^bold>\<open>Loops.\<close> The loops of the memory policy run over finite lists, so its definitions are total. Draining the
  assembler terminates because every round empties a buffer slot. The page loop of the hub is bounded only
  by its page counter and runs on fuel; one unit more than the page limit is enough (\<open>fetch_always_ends\<close>). The list of
  the spans of a prefill runs on fuel; one unit per pending token is enough (C30). The walk from a
  block to its ancestors and the collection of a subtree run over the entries of the index, each of which is visited
  once. The loops of the output parser terminate because the text that is left gets shorter.

  \<^bold>\<open>Not modelled.\<close> The rest of the repository: the device code and the model families that the prompt cache
  serves, the process supervision of the daemon, its HTTP endpoints, user interfaces, build and release tooling.
  What these parts compute is decided by a tensor library, an HTTP framework or the operating system, whose code
  is not in the repository. Within the memory policy: the safetensors header reader and the strict JSON check
  (\<^verbatim>\<open>safetensors\<close>, \<^verbatim>\<open>expert_paging\<close>, \<^verbatim>\<open>strict_json.rs\<close>), which sit on a JSON library and file reads, and the
  texts of error messages. Within the download: failing system calls, symbolic links, locks and temporary files,
  the scheduling of tasks and progress snapshots; removing a directory is one step. Within the prompt cache: the bytes of the tensor files, the
  directory walk that classifies files and the scan that opens a store, the embeddings of images, and the copy
  of the capture and the restore that the resident engine has. Around prompts and output: the tokenizer and its
  tables, images, sampling, and the grammar constraints of a request.
\<close>

end
